(* ===== verification/Prelude.thy ===== *)
theory Prelude
  imports Main "HOL-Library.Word" "HOL-Library.Monad_Syntax"
begin

unbundle bit_operations_syntax

text \<open>
  Shared vocabulary of the development: the machine integer types of the C and C++ code, checked
  access to arrays (\<open>None\<close> is an access outside the array, which the C code does not check and
  which is undefined behaviour there), values of little-endian multi-word numbers, and the
  generic lemmas on words and lists the component theories use.
\<close>

section \<open>Machine integers\<close>

type_synonym u8 = "8 word"
type_synonym u16 = "16 word"
type_synonym u32 = "32 word"
type_synonym u64 = "64 word"

named_theorems mem_simps \<open>checked memory accesses and what they leave unchanged\<close>
named_theorems bn_simps \<open>values and lengths of multi-word numbers\<close>

section \<open>Checked array access\<close>

definition rd :: "'a list \<Rightarrow> nat \<Rightarrow> 'a option" where
  "rd xs i = (if i < length xs then Some (xs ! i) else None)"

definition wr :: "'a list \<Rightarrow> nat \<Rightarrow> 'a \<Rightarrow> 'a list option" where
  "wr xs i v = (if i < length xs then Some (xs[i := v]) else None)"

lemma rd_in [mem_simps, simp]: "i < length xs \<Longrightarrow> rd xs i = Some (xs ! i)"
  by (simp add: rd_def)

lemma wr_in [mem_simps, simp]: "i < length xs \<Longrightarrow> wr xs i v = Some (xs[i := v])"
  by (simp add: wr_def)

lemma rd_out: "length xs \<le> i \<Longrightarrow> rd xs i = None"
  by (simp add: rd_def)

lemma wr_Some_iff: "wr xs i v = Some ys \<longleftrightarrow> i < length xs \<and> ys = xs[i := v]"
  by (auto simp: wr_def)

lemma rd_Some_iff: "rd xs i = Some a \<longleftrightarrow> i < length xs \<and> a = xs ! i"
  by (auto simp: rd_def)

section \<open>Word facts\<close>

lemma uint32_less: "uint (w :: u32) < 4294967296"
  using uint_bounded [of w] by simp

lemma uint32_nonneg: "0 \<le> uint (w :: u32)"
  by simp

lemma uint_ucast_32_64 [simp]: "uint (ucast (w :: u32) :: u64) = uint w"
  by (simp add: uint_up_ucast is_up)

lemma uint_ucast_64_32: "uint (ucast (d :: u64) :: u32) = uint d mod 4294967296"
  by (simp add: unsigned_ucast_eq take_bit_eq_mod)

lemma uint_drop_bit_32: "uint (drop_bit 32 (d :: u64)) = uint d div 4294967296"
  by (simp add: drop_bit_eq_div uint_div)

lemma uint_plus_64: "uint a + uint b < 18446744073709551616 \<Longrightarrow> uint ((a :: u64) + b) = uint a + uint b"
  by (simp add: uint_word_ariths)

lemma uint_mult_32_64:
  "uint ((ucast (a :: u32) :: u64) * ucast (b :: u32)) = uint a * uint b"
proof -
  have "uint a * uint b \<le> 4294967295 * 4294967295"
    using uint32_less [of a] uint32_less [of b] by (intro mult_mono) auto
  then show ?thesis
    by (simp add: uint_word_ariths)
qed

section \<open>Multi-word numbers\<close>

text \<open>
  The value of a little-endian array of 32-bit words, as an integer: the abstraction every
  big-number operation is specified against.
\<close>

primrec bn_val :: "u32 list \<Rightarrow> int" where
  "bn_val [] = 0"
| "bn_val (w # ws) = uint w + 4294967296 * bn_val ws"

abbreviation base_pow :: "nat \<Rightarrow> int" where
  "base_pow n \<equiv> 4294967296 ^ n"

lemma bn_val_nonneg [simp]: "0 \<le> bn_val ws"
  by (induction ws) auto

lemma bn_val_less: "bn_val ws < base_pow (length ws)"
proof (induction ws)
  case (Cons w ws)
  then show ?case using uint32_less [of w] by simp
qed simp

lemma bn_val_append: "bn_val (xs @ ys) = bn_val xs + base_pow (length xs) * bn_val ys"
  by (induction xs) (auto simp: algebra_simps)

lemma bn_val_replicate_0 [simp]: "bn_val (replicate n 0) = 0"
  by (induction n) auto

lemma bn_val_inject:
  "length xs = length ys \<Longrightarrow> bn_val xs = bn_val ys \<Longrightarrow> xs = ys"
proof (induction xs ys rule: list_induct2)
  case (Cons x xs y ys)
  from Cons.prems have e: "uint x + 4294967296 * bn_val xs = uint y + 4294967296 * bn_val ys"
    by simp
  have "uint x = (uint x + 4294967296 * bn_val xs) mod 4294967296"
    using uint32_less [of x] by simp
  also have "\<dots> = uint y"
    using uint32_less [of y] by (simp add: e)
  finally have "uint x = uint y" .
  with e Cons.IH show ?case by (simp add: word_uint_eq_iff)
qed simp

lemma bn_val_take_Suc:
  "v < length xs \<Longrightarrow> bn_val (take (Suc v) xs) = bn_val (take v xs) + base_pow v * uint (xs ! v)"
  by (simp add: take_Suc_conv_app_nth bn_val_append)

lemma bn_val_split:
  "n \<le> length xs \<Longrightarrow> bn_val xs = bn_val (take n xs) + base_pow n * bn_val (drop n xs)"
  using bn_val_append [of "take n xs" "drop n xs"] by simp

lemma bn_val_drop_nth:
  "v < length xs \<Longrightarrow> bn_val (drop v xs) = uint (xs ! v) + 4294967296 * bn_val (drop (Suc v) xs)"
  by (simp add: Cons_nth_drop_Suc [symmetric])

lemma bn_val_take_drop_Suc:
  "v < length xs \<Longrightarrow>
   bn_val (take (Suc n) (drop v xs)) = uint (xs ! v) + 4294967296 * bn_val (take n (drop (Suc v) xs))"
  by (simp add: Cons_nth_drop_Suc [symmetric])

text \<open>
  The inverse direction: the low \<open>n\<close> words of an integer. An operation that is specified by its
  value returns \<open>bn_of n z\<close>, so that sequences of operations evaluate by rewriting.
\<close>

primrec bn_of :: "nat \<Rightarrow> int \<Rightarrow> u32 list" where
  "bn_of 0 z = []"
| "bn_of (Suc n) z = word_of_int z # bn_of n (z div 4294967296)"

lemma length_bn_of [simp, bn_simps]: "length (bn_of n z) = n"
  by (induction n arbitrary: z) auto

lemma uint_word_of_int_32: "uint (word_of_int z :: u32) = z mod 4294967296"
  by (simp add: uint_word_of_int)

lemma mod_mult_pow_split: "z mod (4294967296 * m) = z mod 4294967296 + 4294967296 * (z div 4294967296 mod m)"
  if "0 < m" for z m :: int
  using that by (simp add: zmod_zmult2_eq)

lemma bn_val_bn_of [simp, bn_simps]: "bn_val (bn_of n z) = z mod base_pow n"
  by (induction n arbitrary: z) (auto simp: uint_word_of_int_32 mod_mult_pow_split)

lemma bn_of_bn_val: "length xs = n \<Longrightarrow> bn_of n (bn_val xs) = xs"
  using bn_val_less [of xs] by (intro bn_val_inject) auto

lemma bn_ofI: "length xs = n \<Longrightarrow> bn_val xs = z mod base_pow n \<Longrightarrow> xs = bn_of n z"
  by (intro bn_val_inject) auto

lemma bn_of_cong: "y mod base_pow n = z mod base_pow n \<Longrightarrow> bn_of n y = bn_of n z"
  by (intro bn_val_inject) auto

lemma bn_of_0 [simp]: "bn_of n 0 = replicate n 0"
  by (induction n) auto

lemma divmod_unique:
  fixes q r x m :: int
  assumes "r + m * q = x" "0 \<le> r" "r < m"
  shows "r = x mod m" "q = x div m"
  using assms by (auto simp: int_div_pos_eq int_mod_pos_eq algebra_simps)

lemma ucast_and_mask32: "ucast ((s :: u64) AND 0xFFFFFFFF) = (ucast s :: u32)"
proof -
  have m: "(0xFFFFFFFF :: u64) = mask 32" by (simp add: mask_eq_exp_minus_1)
  have "uint (s AND mask 32) = uint s mod 4294967296"
    by (simp add: take_bit_eq_mod uint_mod flip: take_bit_eq_mask)
  then have "uint (ucast (s AND mask 32) :: u32) = uint (ucast s :: u32)"
    by (simp only: uint_ucast_64_32) simp
  then show ?thesis unfolding m by (simp only: word_uint_eq_iff)
qed

lemma bn_val_drop: "n \<le> length xs \<Longrightarrow> bn_val (drop n xs) = bn_val xs div base_pow n"
proof -
  assume n: "n \<le> length xs"
  have "bn_val (take n xs) + base_pow n * bn_val (drop n xs) = bn_val xs"
    using bn_val_split [OF n] by simp
  moreover have "bn_val (take n xs) < base_pow n" using bn_val_less [of "take n xs"] n by simp
  ultimately show ?thesis by (intro divmod_unique(2)) auto
qed

lemma bn_val_take: "n \<le> length xs \<Longrightarrow> bn_val (take n xs) = bn_val xs mod base_pow n"
proof -
  assume n: "n \<le> length xs"
  have "bn_val (take n xs) + base_pow n * bn_val (drop n xs) = bn_val xs"
    using bn_val_split [OF n] by simp
  moreover have "bn_val (take n xs) < base_pow n" using bn_val_less [of "take n xs"] n by simp
  ultimately show ?thesis by (intro divmod_unique(1)) auto
qed

lemma sgn_word_value:
  fixes a b :: u32
  assumes "0 \<le> x" "x < m" "0 \<le> y" "y < m" "a \<noteq> b"
  shows "sgn ((x + m * uint a) - (y + m * uint b)) = (if a > b then 1 else - 1)"
proof (cases "a > b")
  case True
  then have "m * (uint b + 1) \<le> m * uint a" using assms by (intro mult_left_mono) (auto simp: word_less_def)
  with True assms show ?thesis by (simp add: algebra_simps)
next
  case False
  with assms(5) have "b > a" by simp
  then have "m * (uint a + 1) \<le> m * uint b" using assms by (intro mult_left_mono) (auto simp: word_less_def)
  with False assms show ?thesis by (simp add: algebra_simps)
qed

lemma bn_val_Cons_eq_0 [simp]: "uint (x :: u32) + 4294967296 * bn_val xs = 0 \<longleftrightarrow> x = 0 \<and> bn_val xs = 0"
proof -
  have "uint x + 4294967296 * bn_val xs = 0 \<longleftrightarrow> uint x = 0 \<and> bn_val xs = 0"
    using uint_ge_0 [of x] bn_val_nonneg [of xs] by linarith
  then show ?thesis by (simp add: word_uint_eq_iff)
qed

lemma length_filter_all: "length (filter P xs) = length xs \<longleftrightarrow> (\<forall>x \<in> set xs. P x)"
proof (induction xs)
  case (Cons x xs)
  moreover have "length (filter P xs) < Suc (length xs)"
    by (simp add: le_imp_less_Suc)
  ultimately show ?case by auto
qed simp

lemma bn_val_eq_0_iff: "bn_val xs = 0 \<longleftrightarrow> (\<forall>a \<in> set xs. a = 0)"
proof (induction xs)
  case (Cons x xs)
  then show ?case by auto
qed simp

lemma update_pair:
  "length xs = i \<Longrightarrow> (xs @ p # q # zs)[i := a, i + 1 := b] = xs @ a # b # zs"
  by (auto simp: list_update_append)

section \<open>C library calls on arrays\<close>

text \<open>
  \<open>memset\<close>, \<open>memcpy\<close> and \<open>memcmp\<close> on the first \<open>n\<close> elements; \<open>None\<close> when the call runs past the
  end of an array.
\<close>

definition memset :: "'a list \<Rightarrow> 'a \<Rightarrow> nat \<Rightarrow> 'a list option" where
  "memset xs c n = (if n \<le> length xs then Some (replicate n c @ drop n xs) else None)"

definition memcpy :: "'a list \<Rightarrow> 'a list \<Rightarrow> nat \<Rightarrow> 'a list option" where
  "memcpy dst src n =
     (if n \<le> length src \<and> n \<le> length dst then Some (take n src @ drop n dst) else None)"

definition memeq :: "'a list \<Rightarrow> 'a list \<Rightarrow> nat \<Rightarrow> bool option" where
  "memeq xs ys n =
     (if n \<le> length xs \<and> n \<le> length ys then Some (take n xs = take n ys) else None)"

lemma memset_in [mem_simps]: "n \<le> length xs \<Longrightarrow> memset xs c n = Some (replicate n c @ drop n xs)"
  by (simp add: memset_def)

lemma memcpy_in [mem_simps]:
  "n \<le> length src \<Longrightarrow> n \<le> length dst \<Longrightarrow> memcpy dst src n = Some (take n src @ drop n dst)"
  by (simp add: memcpy_def)

lemma memeq_in [mem_simps]:
  "n \<le> length xs \<Longrightarrow> n \<le> length ys \<Longrightarrow> memeq xs ys n = Some (take n xs = take n ys)"
  by (simp add: memeq_def)

text \<open>
  The same at an offset: \<open>put_at\<close> is the array after a write of several elements, \<open>mcopy\<close> copies
  between two distinct arrays, \<open>slice\<close> reads.
\<close>

definition put_at :: "'a list \<Rightarrow> nat \<Rightarrow> 'a list \<Rightarrow> 'a list" where
  "put_at f p bs = take p f @ bs @ drop (p + length bs) f"

lemma length_put_at [simp]: "p + length bs \<le> length f \<Longrightarrow> length (put_at f p bs) = length f"
  by (simp add: put_at_def)

lemma put_at_Cons: "p < length f \<Longrightarrow> put_at f p (b # bs) = put_at (f[p := b]) (Suc p) bs"
  by (simp add: put_at_def take_Suc_conv_app_nth)

lemma put_at_Nil [simp]: "put_at f p [] = f"
  by (simp add: put_at_def)

lemma nth_put_at:
  "p + length bs \<le> length f \<Longrightarrow> i < length f \<Longrightarrow>
   put_at f p bs ! i = (if p \<le> i \<and> i < p + length bs then bs ! (i - p) else f ! i)"
  by (auto simp: put_at_def nth_append not_less)

lemma drop_take_put_at: "p + length bs \<le> length f \<Longrightarrow> take (length bs) (drop p (put_at f p bs)) = bs"
  by (simp add: put_at_def)

lemma put_at_outside:
  "p + length bs \<le> length f \<Longrightarrow> q + n \<le> p \<Longrightarrow> take n (drop q (put_at f p bs)) = take n (drop q f)"
  by (auto simp: put_at_def drop_take min_def)

lemma take_put_at [simp]: "p \<le> length f \<Longrightarrow> take p (put_at f p bs) = take p f"
  by (simp add: put_at_def)

lemma drop_put_at [simp]: "p + length bs \<le> length f \<Longrightarrow> drop (p + length bs) (put_at f p bs) = drop (p + length bs) f"
  by (simp add: put_at_def)

lemma put_at_put_at_adjacent:
  "p + length xs + length ys \<le> length f \<Longrightarrow>
   put_at (put_at f p xs) (p + length xs) ys = put_at f p (xs @ ys)"
  by (simp add: put_at_def add_ac)

lemma put_at_self: "p + length bs \<le> length f \<Longrightarrow> take (length bs) (drop p f) = bs \<Longrightarrow> put_at f p bs = f"
  by (metis put_at_def append_take_drop_id drop_drop add.commute)

definition slice :: "'a list \<Rightarrow> nat \<Rightarrow> nat \<Rightarrow> 'a list option" where
  "slice xs p n = (if p + n \<le> length xs then Some (take n (drop p xs)) else None)"

definition mcopy :: "'a list \<Rightarrow> nat \<Rightarrow> 'a list \<Rightarrow> nat \<Rightarrow> nat \<Rightarrow> 'a list option" where
  "mcopy dst p src q n =
     (if p + n \<le> length dst \<and> q + n \<le> length src then Some (put_at dst p (take n (drop q src))) else None)"

definition mset_at :: "'a list \<Rightarrow> nat \<Rightarrow> 'a \<Rightarrow> nat \<Rightarrow> 'a list option" where
  "mset_at dst p c n = (if p + n \<le> length dst then Some (put_at dst p (replicate n c)) else None)"

lemma slice_in [mem_simps]: "p + n \<le> length xs \<Longrightarrow> slice xs p n = Some (take n (drop p xs))"
  by (simp add: slice_def)

lemma mcopy_in [mem_simps]:
  "p + n \<le> length dst \<Longrightarrow> q + n \<le> length src \<Longrightarrow> mcopy dst p src q n = Some (put_at dst p (take n (drop q src)))"
  by (simp add: mcopy_def)

lemma mset_at_in [mem_simps]:
  "p + n \<le> length dst \<Longrightarrow> mset_at dst p c n = Some (put_at dst p (replicate n c))"
  by (simp add: mset_at_def)

text \<open>Writing on behind what has been written.\<close>

lemma rd_put_at: "p + length bs \<le> length f \<Longrightarrow> i < length bs \<Longrightarrow> rd (put_at f p bs) (p + i) = Some (bs ! i)"
  by (simp add: put_at_def nth_append)

lemma rd_put_at_head: "p + length bs < length f \<Longrightarrow> rd (put_at f p (b # bs)) p = Some b"
  using rd_put_at [of p "b # bs" f 0] by simp

lemma wr_put_at_head: "p + length bs < length f \<Longrightarrow> wr (put_at f p (b # bs)) p c = Some (put_at f p (c # bs))"
  by (simp add: put_at_def list_update_append)

lemma wr_put_at_next: "p + length bs < length f \<Longrightarrow> wr (put_at f p bs) (p + length bs) c = Some (put_at f p (bs @ [c]))"
  by (simp add: put_at_def list_update_append Cons_nth_drop_Suc [symmetric] upd_conv_take_nth_drop)

lemma mcopy_put_at_next:
  "p + length bs + length v \<le> length f \<Longrightarrow> mcopy (put_at f p bs) (p + length bs) v 0 (length v) = Some (put_at f p (bs @ v))"
  by (simp add: mcopy_in put_at_put_at_adjacent)

text \<open>Reading from a position whose continuation is known.\<close>

lemma rd_at: "drop i b = x # xs \<Longrightarrow> rd b i = Some x"
  by (metis drop_eq_Nil list.discI not_le nth_via_drop rd_in)

lemma drop_SucI: "drop i b = x # xs \<Longrightarrow> drop (Suc i) b = xs"
  by (metis drop_Suc list.sel(3) tl_drop)

lemma slice_at: "drop i b = xs @ ys \<Longrightarrow> i \<le> length b \<Longrightarrow> slice b i (length xs) = Some xs \<and> drop (i + length xs) b = ys"
proof -
  assume d: "drop i b = xs @ ys" and i: "i \<le> length b"
  have "length b - i = length xs + length ys" using arg_cong [OF d, of length] by simp
  then have "i + length xs \<le> length b" using i by linarith
  moreover have "drop (i + length xs) b = ys" using d by (metis add.commute append_eq_conv_conj drop_drop)
  ultimately show ?thesis using d by (simp add: slice_def)
qed

end
