(* ===== verification/Bignum.thy ===== *)
theory Bignum
  imports Prelude
begin

text \<open>
  The big-number routines of the elliptic-curve code: \<open>add\<close>, \<open>sub\<close>, \<open>rshiftby\<close>, \<open>setZero\<close>,
  \<open>copy\<close>, \<open>isSame\<close>, \<open>isGreater\<close>, \<open>isOne\<close>, \<open>isZero\<close>, \<open>rshift\<close> and \<open>fieldMult\<close>
  (\<open>arduino/libraries/Dtls/ecc/ecc.c\<close>). Numbers are little-endian arrays of 32-bit words.

  The C code passes pointers and often passes the result array as an operand too. An operand is
  therefore a distinct array (\<open>Arr xs\<close>) or the result array itself (\<open>Res\<close>), which is then read
  as it is at that moment of the loop. Every access is checked: \<open>None\<close> is an access outside an
  array. The lemmas give, for arrays that are long enough, the value each routine computes.
\<close>

section \<open>Operands\<close>

datatype operand = Arr "u32 list" | Res

fun opnd :: "operand \<Rightarrow> u32 list \<Rightarrow> u32 list" where
  "opnd (Arr xs) r = xs"
| "opnd Res r = r"

lemma opnd_update_drop [simp]:
  "drop (Suc v) (opnd x (r[v := a])) = drop (Suc v) (opnd x r)"
  by (cases x) simp_all

lemma opnd_update_length [simp]: "length (opnd x (r[v := a])) = length (opnd x r)"
  by (cases x) simp_all

section \<open>Addition and subtraction\<close>

fun add_loop :: "nat \<Rightarrow> nat \<Rightarrow> operand \<Rightarrow> operand \<Rightarrow> u32 list \<Rightarrow> u64 \<Rightarrow> (u64 \<times> u32 list) option" where
  "add_loop 0 v x y r d = Some (d, r)"
| "add_loop (Suc n) v x y r d = do {
     a \<leftarrow> rd (opnd x r) v;
     b \<leftarrow> rd (opnd y r) v;
     let d = d + (ucast a + ucast b);
     r \<leftarrow> wr r v (ucast d);
     add_loop n (Suc v) x y r (drop_bit 32 d)
   }"

text \<open>
  \<open>add_at off x y r len\<close> is the call \<open>add (&x[off], &y[off], &r[off], len)\<close>; the carry is the
  return value.
\<close>

definition add_at :: "nat \<Rightarrow> operand \<Rightarrow> operand \<Rightarrow> u32 list \<Rightarrow> nat \<Rightarrow> (u32 \<times> u32 list) option" where
  "add_at off x y r len = do { (d, r) \<leftarrow> add_loop len off x y r 0; Some (ucast d, r) }"

abbreviation add :: "operand \<Rightarrow> operand \<Rightarrow> u32 list \<Rightarrow> nat \<Rightarrow> (u32 \<times> u32 list) option" where
  "add \<equiv> add_at 0"

fun sub_loop :: "nat \<Rightarrow> nat \<Rightarrow> operand \<Rightarrow> operand \<Rightarrow> u32 list \<Rightarrow> u64 \<Rightarrow> (u64 \<times> u32 list) option" where
  "sub_loop 0 v x y r d = Some (d, r)"
| "sub_loop (Suc n) v x y r d = do {
     a \<leftarrow> rd (opnd x r) v;
     b \<leftarrow> rd (opnd y r) v;
     let d = ucast a - ucast b - d;
     r \<leftarrow> wr r v (ucast (d AND 0xFFFFFFFF));
     sub_loop n (Suc v) x y r (drop_bit 32 d AND 1)
   }"

definition sub :: "operand \<Rightarrow> operand \<Rightarrow> u32 list \<Rightarrow> nat \<Rightarrow> (u32 \<times> u32 list) option" where
  "sub x y r len = do { (d, r) \<leftarrow> sub_loop len 0 x y r 0; Some (ucast d, r) }"

section \<open>Shifts, copies and comparisons\<close>

fun rshiftby_copy :: "nat \<Rightarrow> nat \<Rightarrow> u32 list \<Rightarrow> nat \<Rightarrow> u32 list \<Rightarrow> nat \<Rightarrow> (nat \<times> u32 list) option" where
  "rshiftby_copy 0 i inp in_size out shift = Some (i, out)"
| "rshiftby_copy (Suc n) i inp in_size out shift =
     (if int i < int in_size - int shift then do {
        a \<leftarrow> rd inp (i + shift);
        out \<leftarrow> wr out i a;
        rshiftby_copy n (Suc i) inp in_size out shift
      } else Some (i, out))"

fun rshiftby_zero :: "nat \<Rightarrow> nat \<Rightarrow> u32 list \<Rightarrow> u32 list option" where
  "rshiftby_zero 0 i out = Some out"
| "rshiftby_zero (Suc n) i out = do { out \<leftarrow> wr out i 0; rshiftby_zero n (Suc i) out }"

definition rshiftby :: "u32 list \<Rightarrow> nat \<Rightarrow> u32 list \<Rightarrow> nat \<Rightarrow> nat \<Rightarrow> u32 list option" where
  "rshiftby inp in_size out out_size shift = do {
     (i, out) \<leftarrow> rshiftby_copy out_size 0 inp in_size out shift;
     rshiftby_zero (out_size - i) i out
   }"

definition setZero :: "u32 list \<Rightarrow> nat \<Rightarrow> u32 list option" where
  "setZero A len = memset A 0 len"

definition copy :: "u32 list \<Rightarrow> u32 list \<Rightarrow> nat \<Rightarrow> u32 list option" where
  "copy from to len = memcpy to from len"

definition isSame :: "u32 list \<Rightarrow> u32 list \<Rightarrow> nat \<Rightarrow> bool option" where
  "isSame A B len = memeq A B len"

fun isGreater :: "u32 list \<Rightarrow> u32 list \<Rightarrow> nat \<Rightarrow> int option" where
  "isGreater A B 0 = Some 0"
| "isGreater A B (Suc i) = do {
     a \<leftarrow> rd A i;
     b \<leftarrow> rd B i;
     if a > b then Some 1 else if a < b then Some (- 1) else isGreater A B i
   }"

fun isOne_loop :: "nat \<Rightarrow> nat \<Rightarrow> u32 list \<Rightarrow> nat option" where
  "isOne_loop 0 n A = Some n"
| "isOne_loop (Suc m) n A = do {
     a \<leftarrow> rd A n;
     if a \<noteq> 0 then Some n else isOne_loop m (Suc n) A
   }"

definition isOne :: "u32 list \<Rightarrow> bool option" where
  "isOne A = do { n \<leftarrow> isOne_loop 7 1 A; a \<leftarrow> rd A 0; Some (n = 8 \<and> a = 1) }"

fun isZero_loop :: "nat \<Rightarrow> nat \<Rightarrow> nat \<Rightarrow> u32 list \<Rightarrow> nat option" where
  "isZero_loop 0 n r A = Some r"
| "isZero_loop (Suc m) n r A = do {
     a \<leftarrow> rd A n;
     isZero_loop m (Suc n) (if a = 0 then Suc r else r) A
   }"

definition isZero :: "u32 list \<Rightarrow> bool option" where
  "isZero A = do { r \<leftarrow> isZero_loop 8 0 0 A; Some (r = 8) }"

text \<open>\<open>rshift\<close>: from the top word down; \<open>n\<close> is the bit that falls out of each word.\<close>

fun rshift_loop :: "nat \<Rightarrow> u32 list \<Rightarrow> u32 \<Rightarrow> u32 list option" where
  "rshift_loop 0 A nOld = Some A"
| "rshift_loop (Suc i) A nOld = do {
     a \<leftarrow> rd A i;
     A \<leftarrow> wr A i (drop_bit 1 a OR push_bit 31 nOld);
     rshift_loop i A (a AND 1)
   }"

definition rshift :: "u32 list \<Rightarrow> u32 list option" where
  "rshift A = rshift_loop 8 A 0"

section \<open>Multiplication\<close>

fun fieldMult_inner ::
  "nat \<Rightarrow> nat \<Rightarrow> nat \<Rightarrow> nat \<Rightarrow> u32 list \<Rightarrow> u32 list \<Rightarrow> u32 list \<Rightarrow> u32 list \<Rightarrow> (u32 list \<times> u32 list) option" where
  "fieldMult_inner 0 n k len x y temp result = Some (temp, result)"
| "fieldMult_inner (Suc m) n k len x y temp result = do {
     a \<leftarrow> rd x n;
     b \<leftarrow> rd y k;
     let l = (ucast a :: u64) * ucast b;
     temp \<leftarrow> wr temp (n + k) (ucast (l AND 0xFFFFFFFF));
     temp \<leftarrow> wr temp (n + k + 1) (ucast (drop_bit 32 l));
     (c, result) \<leftarrow> add_at (n + k) (Arr temp) Res result (len * 2 - (n + k));
     temp \<leftarrow> setZero temp (len * 2);
     fieldMult_inner m (Suc n) k len x y temp result
   }"

fun fieldMult_outer ::
  "nat \<Rightarrow> nat \<Rightarrow> nat \<Rightarrow> u32 list \<Rightarrow> u32 list \<Rightarrow> u32 list \<Rightarrow> u32 list \<Rightarrow> u32 list option" where
  "fieldMult_outer 0 k len x y temp result = Some result"
| "fieldMult_outer (Suc m) k len x y temp result = do {
     (temp, result) \<leftarrow> fieldMult_inner len 0 k len x y temp result;
     fieldMult_outer m (Suc k) len x y temp result
   }"

text \<open>
  \<open>temp\<close> is a local array of \<open>2 * len\<close> words. No call passes the result array as an operand.
\<close>

definition fieldMult :: "u32 list \<Rightarrow> u32 list \<Rightarrow> u32 list \<Rightarrow> nat \<Rightarrow> u32 list option" where
  "fieldMult x y result len = do {
     temp \<leftarrow> setZero (replicate (len * 2) 0) (len * 2);
     result \<leftarrow> setZero result (len * 2);
     fieldMult_outer len 0 len x y temp result
   }"

section \<open>Addition and subtraction compute sums and differences\<close>

lemma add_step_val:
  fixes a b :: u32 and d :: u64
  assumes "uint d \<le> 1"
  shows "uint (d + (ucast a + ucast b)) = uint d + uint a + uint b"
  using assms uint32_less [of a] uint32_less [of b]
  by (simp add: uint_plus_64)

lemma add_loop_val:
  assumes "v + n \<le> length r" "v + n \<le> length (opnd x r)" "v + n \<le> length (opnd y r)" "uint d \<le> 1"
  shows "\<exists>c z. add_loop n v x y r d = Some (c, take v r @ z @ drop (v + n) r) \<and> uint c \<le> 1 \<and> length z = n \<and>
    bn_val z + base_pow n * uint c =
    bn_val (take n (drop v (opnd x r))) + bn_val (take n (drop v (opnd y r))) + uint d"
  using assms
proof (induction n arbitrary: v r d)
  case 0
  then show ?case by simp
next
  case (Suc n)
  define a where "a = opnd x r ! v"
  define b where "b = opnd y r ! v"
  define s where "s = d + (ucast a + ucast b)"
  define r1 where "r1 = r[v := ucast s]"
  have s: "uint s = uint d + uint a + uint b"
    unfolding s_def using Suc.prems(4) by (rule add_step_val)
  have "uint s \<le> 2 * 4294967295 + 1"
    using s Suc.prems(4) uint32_less [of a] uint32_less [of b] by simp
  then have carry: "uint (drop_bit 32 s) \<le> 1"
    by (simp add: uint_drop_bit_32)
  have "Suc v + n \<le> length r1" "Suc v + n \<le> length (opnd x r1)" "Suc v + n \<le> length (opnd y r1)"
    using Suc.prems by (simp_all add: r1_def)
  from Suc.IH [OF this carry] obtain c z where
    run: "add_loop n (Suc v) x y r1 (drop_bit 32 s) = Some (c, take (Suc v) r1 @ z @ drop (Suc v + n) r1)"
    and c: "uint c \<le> 1" and z: "length z = n"
    and val: "bn_val z + base_pow n * uint c =
      bn_val (take n (drop (Suc v) (opnd x r1))) + bn_val (take n (drop (Suc v) (opnd y r1))) + uint (drop_bit 32 s)"
    by blast
  have "add_loop (Suc n) v x y r d = add_loop n (Suc v) x y r1 (drop_bit 32 s)"
    using Suc.prems by (simp add: a_def b_def s_def r1_def Let_def)
  also have "\<dots> = Some (c, take v r @ (ucast s # z) @ drop (v + Suc n) r)"
    using run Suc.prems by (simp add: r1_def take_Suc_conv_app_nth)
  finally have 1: "add_loop (Suc n) v x y r d = Some (c, take v r @ (ucast s # z) @ drop (v + Suc n) r)" .
  have "uint s = uint (ucast s :: u32) + 4294967296 * uint (drop_bit 32 s)"
    by (simp add: uint_ucast_64_32 uint_drop_bit_32)
  then have "bn_val (ucast s # z) + base_pow (Suc n) * uint c =
    bn_val (take (Suc n) (drop v (opnd x r))) + bn_val (take (Suc n) (drop v (opnd y r))) + uint d"
    using val s Suc.prems by (simp add: bn_val_take_drop_Suc r1_def a_def b_def algebra_simps)
  with 1 c z show ?case by (intro exI [of _ c] exI [of _ "ucast s # z"]) simp
qed

lemma add_at_val [bn_simps]:
  assumes "off + n \<le> length r" "off + n \<le> length (opnd x r)" "off + n \<le> length (opnd y r)"
  shows "add_at off x y r n =
    (let s = bn_val (take n (drop off (opnd x r))) + bn_val (take n (drop off (opnd y r)))
     in Some (word_of_int (s div base_pow n), take off r @ bn_of n s @ drop (off + n) r))"
proof -
  define s where "s = bn_val (take n (drop off (opnd x r))) + bn_val (take n (drop off (opnd y r)))"
  obtain c z where run: "add_loop n off x y r 0 = Some (c, take off r @ z @ drop (off + n) r)"
    and z: "length z = n" and val: "bn_val z + base_pow n * uint c = s"
    using add_loop_val [of off n r x y 0] assms by (auto simp: s_def)
  have "bn_val z < base_pow n" using bn_val_less [of z] z by simp
  from divmod_unique [OF val bn_val_nonneg this]
  have "z = bn_of n s" "ucast c = (word_of_int (s div base_pow n) :: u32)"
    using z by (auto intro!: bn_ofI simp: ucast_eq)
  with run show ?thesis by (simp add: add_at_def s_def Let_def)
qed

lemma sub_step_val:
  fixes a b :: u32 and d :: u64
  assumes "uint d \<le> 1"
  defines "s \<equiv> ucast a - ucast b - d"
  shows "uint (ucast (s AND 0xFFFFFFFF) :: u32) - 4294967296 * uint (drop_bit 32 s AND 1) = uint a - uint b - uint d"
    and "uint (drop_bit 32 s AND 1) \<le> 1"
proof -
  define t where "t = uint a - uint b - uint d"
  have t: "- 4294967296 \<le> t" "t < 4294967296"
    unfolding t_def
    using assms(1) uint32_less [of a] uint32_less [of b] uint_ge_0 [of a] uint_ge_0 [of b] uint_ge_0 [of d]
    by linarith+
  have s: "uint s = t mod 18446744073709551616"
    by (simp add: s_def t_def uint_word_ariths mod_diff_left_eq)
  have lo: "uint (ucast (s AND 0xFFFFFFFF) :: u32) = t mod 4294967296"
  proof -
    show ?thesis
      by (simp add: uint_ucast_64_32 s mod_mod_cancel ucast_and_mask32)
  qed
  have hi: "uint (drop_bit 32 s AND 1) = (if t < 0 then 1 else 0)"
  proof (cases "t < 0")
    case True
    then have "uint s = t + 18446744073709551616"
      using s t by (simp add: int_mod_pos_eq [where q = "-1"])
    then have "uint (drop_bit 32 s) = 4294967295"
      using t True by (simp add: uint_drop_bit_32)
    then have "drop_bit 32 s = 4294967295"
      by (simp add: word_uint_eq_iff)
    with True show ?thesis by simp
  next
    case False
    then have "uint s = t" using s t by simp
    then have "uint (drop_bit 32 s) = 0"
      using t False by (simp add: uint_drop_bit_32)
    then have "drop_bit 32 s = 0" by (simp add: word_uint_eq_iff)
    with False show ?thesis by simp
  qed
  show "uint (ucast (s AND 0xFFFFFFFF) :: u32) - 4294967296 * uint (drop_bit 32 s AND 1) = uint a - uint b - uint d"
  proof (cases "t < 0")
    case True
    then have "t mod 4294967296 = t + 4294967296"
      using t by (simp add: int_mod_pos_eq [where q = "-1"])
    with True show ?thesis unfolding lo hi by (simp add: t_def)
  next
    case False
    then have "t mod 4294967296 = t" using t by simp
    with False show ?thesis unfolding lo hi by (simp add: t_def)
  qed
  show "uint (drop_bit 32 s AND 1) \<le> 1" by (simp add: hi)
qed

lemma sub_loop_val:
  assumes "v + n \<le> length r" "v + n \<le> length (opnd x r)" "v + n \<le> length (opnd y r)" "uint d \<le> 1"
  shows "\<exists>c z. sub_loop n v x y r d = Some (c, take v r @ z @ drop (v + n) r) \<and> uint c \<le> 1 \<and> length z = n \<and>
    bn_val z - base_pow n * uint c =
    bn_val (take n (drop v (opnd x r))) - bn_val (take n (drop v (opnd y r))) - uint d"
  using assms
proof (induction n arbitrary: v r d)
  case 0
  then show ?case by simp
next
  case (Suc n)
  define a where "a = opnd x r ! v"
  define b where "b = opnd y r ! v"
  define s where "s = ucast a - ucast b - d"
  define lo where "lo = (ucast (s AND 0xFFFFFFFF) :: u32)"
  define d1 where "d1 = drop_bit 32 s AND 1"
  define r1 where "r1 = r[v := lo]"
  have s: "uint lo - 4294967296 * uint d1 = uint a - uint b - uint d" "uint d1 \<le> 1"
    unfolding lo_def d1_def s_def using sub_step_val [OF Suc.prems(4), of a b] by simp_all
  have "Suc v + n \<le> length r1" "Suc v + n \<le> length (opnd x r1)" "Suc v + n \<le> length (opnd y r1)"
    using Suc.prems by (simp_all add: r1_def)
  from Suc.IH [OF this s(2)] obtain c z where
    run: "sub_loop n (Suc v) x y r1 d1 = Some (c, take (Suc v) r1 @ z @ drop (Suc v + n) r1)"
    and c: "uint c \<le> 1" and z: "length z = n"
    and val: "bn_val z - base_pow n * uint c =
      bn_val (take n (drop (Suc v) (opnd x r1))) - bn_val (take n (drop (Suc v) (opnd y r1))) - uint d1"
    by blast
  have "sub_loop (Suc n) v x y r d = sub_loop n (Suc v) x y r1 d1"
    using Suc.prems by (simp add: a_def b_def s_def r1_def lo_def d1_def Let_def)
  also have "\<dots> = Some (c, take v r @ (lo # z) @ drop (v + Suc n) r)"
    using run Suc.prems by (simp add: r1_def take_Suc_conv_app_nth)
  finally have 1: "sub_loop (Suc n) v x y r d = Some (c, take v r @ (lo # z) @ drop (v + Suc n) r)" .
  have "bn_val (lo # z) - base_pow (Suc n) * uint c =
    bn_val (take (Suc n) (drop v (opnd x r))) - bn_val (take (Suc n) (drop v (opnd y r))) - uint d"
    using val s(1) Suc.prems by (simp add: bn_val_take_drop_Suc r1_def a_def b_def algebra_simps)
  with 1 c z show ?case by (intro exI [of _ c] exI [of _ "lo # z"]) simp
qed

lemma sub_val [bn_simps]:
  assumes "n \<le> length r" "n \<le> length (opnd x r)" "n \<le> length (opnd y r)"
  shows "sub x y r n =
    (let a = bn_val (take n (opnd x r)); b = bn_val (take n (opnd y r))
     in Some (if a < b then 1 else 0, bn_of n (a - b) @ drop n r))"
proof -
  define s where "s = bn_val (take n (opnd x r)) - bn_val (take n (opnd y r))"
  obtain c z where run: "sub_loop n 0 x y r 0 = Some (c, z @ drop n r)" and c: "uint c \<le> 1"
    and z: "length z = n" and val: "bn_val z - base_pow n * uint c = s"
    using sub_loop_val [of 0 n r x y 0] assms by (auto simp: s_def)
  have b: "bn_val z < base_pow n" using bn_val_less [of z] z by simp
  have "bn_val z + base_pow n * (- uint c) = s" using val by simp
  from divmod_unique(1) [OF this bn_val_nonneg b] z have "z = bn_of n s" by (intro bn_ofI)
  moreover have "ucast c = (if s < 0 then 1 else 0 :: u32)"
  proof (cases "uint c = 0")
    case True
    with val have "s = bn_val z" by simp
    then have "0 \<le> s" by simp
    with True show ?thesis by (simp add: ucast_eq)
  next
    case False
    with c have "uint c = 1" using uint_ge_0 [of c] by linarith
    then show ?thesis using val b by (simp add: ucast_eq)
  qed
  ultimately show ?thesis using run by (simp add: sub_def s_def Let_def)
qed

section \<open>Shifts and comparisons\<close>

lemma rshiftby_copy_val:
  assumes "i + n \<le> length out" "in_size \<le> length inp"
  shows "\<exists>j. rshiftby_copy n i inp in_size out shift =
    Some (j, take i out @ take n (drop (i + shift) (take in_size inp)) @ drop j out) \<and>
    j = i + min n (in_size - shift - i)"
  using assms
proof (induction n arbitrary: i out)
  case 0
  then show ?case by simp
next
  case (Suc n)
  show ?case
  proof (cases "int i < int in_size - int shift")
    case True
    then have i: "i + shift < in_size" "i + shift < length inp" using Suc.prems by auto
    define out1 where "out1 = out[i := inp ! (i + shift)]"
    have "rshiftby_copy (Suc n) i inp in_size out shift = rshiftby_copy n (Suc i) inp in_size out1 shift"
      using True i Suc.prems by (simp add: out1_def)
    moreover obtain j where j: "rshiftby_copy n (Suc i) inp in_size out1 shift =
        Some (j, take (Suc i) out1 @ take n (drop (Suc i + shift) (take in_size inp)) @ drop j out1)"
        "j = Suc i + min n (in_size - shift - Suc i)"
      using Suc.IH [of "Suc i" out1] Suc.prems by (auto simp: out1_def)
    moreover have "take (Suc n) (drop (i + shift) (take in_size inp)) =
        inp ! (i + shift) # take n (drop (Suc i + shift) (take in_size inp))"
      using i by (simp add: Cons_nth_drop_Suc [symmetric])
    ultimately show ?thesis using i Suc.prems
      by (intro exI [of _ j]) (auto simp: out1_def take_Suc_conv_app_nth)
  next
    case False
    then show ?thesis using Suc.prems by (auto intro!: exI [of _ i])
  qed
qed

lemma rshiftby_zero_val:
  "i + n \<le> length out \<Longrightarrow> rshiftby_zero n i out = Some (take i out @ replicate n 0 @ drop (i + n) out)"
proof (induction n arbitrary: i out)
  case (Suc n)
  then show ?case by (simp add: take_Suc_conv_app_nth)
qed simp

lemma rshiftby_val [bn_simps]:
  assumes "in_size \<le> length inp" "out_size \<le> length out"
  shows "rshiftby inp in_size out out_size shift =
    Some (bn_of out_size (bn_val (take in_size inp) div base_pow shift) @ drop out_size out)"
proof -
  define xs where "xs = drop shift (take in_size inp)"
  define m where "m = min out_size (in_size - shift)"
  have len: "length xs = in_size - shift" using assms by (simp add: xs_def)
  obtain j where j: "rshiftby_copy out_size 0 inp in_size out shift = Some (j, take out_size xs @ drop j out)"
    and "j = m"
    using rshiftby_copy_val [of 0 out_size out in_size inp shift] assms by (auto simp: xs_def m_def)
  have m: "m \<le> out_size" "length (take out_size xs) = m" by (simp_all add: m_def len)
  define T where "T = take out_size xs"
  have "rshiftby_zero (out_size - m) m (T @ drop m out) = Some ((T @ replicate (out_size - m) 0) @ drop out_size out)"
    using rshiftby_zero_val [of m "out_size - m" "T @ drop m out"] m(1) assms m(2) [folded T_def] by simp
  then have "rshiftby inp in_size out out_size shift = Some ((T @ replicate (out_size - m) 0) @ drop out_size out)"
    using j [folded T_def] \<open>j = m\<close> by (simp add: rshiftby_def)
  also have "T @ replicate (out_size - m) 0 =
      bn_of out_size (bn_val (take in_size inp) div base_pow shift)"
  proof (rule bn_ofI)
    have xs: "bn_val xs = bn_val (take in_size inp) div base_pow shift"
    proof (cases "shift \<le> in_size")
      case True
      then show ?thesis using assms by (simp add: xs_def bn_val_drop)
    next
      case False
      have "bn_val (take in_size inp) < base_pow in_size"
        using bn_val_less [of "take in_size inp"] assms by simp
      also have "\<dots> \<le> base_pow shift" using False by (intro power_increasing) auto
      finally show ?thesis using False assms by (simp add: xs_def)
    qed
    have "bn_val (take out_size xs) = bn_val xs mod base_pow out_size"
    proof (cases "out_size \<le> length xs")
      case False
      have "bn_val xs < base_pow (length xs)" by (rule bn_val_less)
      also have "\<dots> \<le> base_pow out_size" using False by (intro power_increasing) auto
      finally show ?thesis using False by simp
    qed (simp add: bn_val_take)
    then show "bn_val (T @ replicate (out_size - m) 0) =
        bn_val (take in_size inp) div base_pow shift mod base_pow out_size"
      by (simp add: bn_val_append xs T_def)
  qed (use m in \<open>simp add: T_def\<close>)
  finally show ?thesis .
qed

lemma isGreater_val [bn_simps]:
  "n \<le> length A \<Longrightarrow> n \<le> length B \<Longrightarrow>
   isGreater A B n = Some (sgn (bn_val (take n A) - bn_val (take n B)))"
proof (induction n)
  case (Suc n)
  have b: "bn_val (take n A) < base_pow n" "bn_val (take n B) < base_pow n"
    using bn_val_less [of "take n A"] bn_val_less [of "take n B"] Suc.prems by simp_all
  show ?case
  proof (cases "A ! n = B ! n")
    case True
    then show ?thesis using Suc by (simp add: bn_val_take_Suc)
  next
    case False
    then show ?thesis using Suc.prems sgn_word_value [OF bn_val_nonneg b(1) bn_val_nonneg b(2) False]
      by (auto simp: bn_val_take_Suc)
  qed
qed simp

lemma isZero_loop_val:
  "n + m \<le> length A \<Longrightarrow> isZero_loop m n r A = Some (r + length (filter (\<lambda>a. a = 0) (take m (drop n A))))"
proof (induction m arbitrary: n r)
  case (Suc m)
  then show ?case by (auto simp: Cons_nth_drop_Suc [symmetric])
qed simp

lemma isZero_val [bn_simps]: "8 \<le> length A \<Longrightarrow> isZero A = Some (bn_val (take 8 A) = 0)"
  using isZero_loop_val [of 0 8 A 0] length_filter_all [of "\<lambda>a. a = 0" "take 8 A"]
  by (simp add: isZero_def bn_val_eq_0_iff)

lemma isOne_loop_val:
  "n + m \<le> length A \<Longrightarrow>
   \<exists>j. isOne_loop m n A = Some j \<and> (j = n + m \<longleftrightarrow> bn_val (take m (drop n A)) = 0)"
proof (induction m arbitrary: n)
  case (Suc m)
  show ?case
  proof (cases "A ! n = 0")
    case True
    with Suc.IH [of "Suc n"] Suc.prems show ?thesis
      by (auto simp: Cons_nth_drop_Suc [symmetric])
  next
    case False
    with Suc.prems show ?thesis
      by (auto simp: Cons_nth_drop_Suc [symmetric] bn_val_eq_0_iff)
  qed
qed simp

lemma isOne_val [bn_simps]: "8 \<le> length A \<Longrightarrow> isOne A = Some (bn_val (take 8 A) = 1)"
proof -
  assume A: "8 \<le> length A"
  obtain j where j: "isOne_loop 7 1 A = Some j" "j = 8 \<longleftrightarrow> bn_val (take 7 (drop 1 A)) = 0"
    using isOne_loop_val [of 1 7 A] A by auto
  have v: "bn_val (take 8 A) = uint (A ! 0) + 4294967296 * bn_val (take 7 (drop 1 A))"
    using bn_val_take_drop_Suc [of 0 A 7] A by (cases A) auto
  have "bn_val (take 8 A) = 1 \<longleftrightarrow> A ! 0 = 1 \<and> bn_val (take 7 (drop 1 A)) = 0"
  proof -
    have "u + 4294967296 * t = 1 \<longleftrightarrow> u = 1 \<and> t = 0" if "0 \<le> t" "0 \<le> u" for t u :: int
    proof
      assume u: "u + 4294967296 * t = 1"
      then have "t < 1" using that by linarith
      with that have "t = 0" by simp
      with u show "u = 1 \<and> t = 0" by simp
    qed simp
    from this [OF bn_val_nonneg uint_ge_0] show ?thesis unfolding v by (simp add: word_uint_eq_iff)
  qed
  moreover have "A \<noteq> []" using A by auto
  ultimately show ?thesis using j by (auto simp: isOne_def)
qed

lemma rshift_word_val:
  "uint (drop_bit 1 a OR push_bit 31 (b AND 1) :: u32) = uint a div 2 + 2147483648 * (uint b mod 2)"
proof -
  have "drop_bit 1 a AND push_bit 31 (b AND 1) = 0"
    by (rule bit_word_eqI)
      (auto simp: bit_and_iff bit_drop_bit_eq bit_push_bit_iff dest: bit_imp_le_length)
  then have "drop_bit 1 a OR push_bit 31 (b AND 1) = drop_bit 1 a + push_bit 31 (b AND 1)"
    by (simp only: disjunctive_add_eq_or)
  moreover have "uint (b AND 1) = uint b mod 2"
    by (simp add: uint_mod and_one_eq)
  moreover have "uint a div 2 + 2147483648 * (uint b mod 2) < 4294967296"
    using uint32_less [of a] by (auto simp: mod2_eq_if)
  ultimately show ?thesis
    by (simp add: uint_word_ariths drop_bit_eq_div push_bit_eq_mult uint_div)
qed

lemma rshift_loop_val:
  "i \<le> length A \<Longrightarrow> \<exists>z. rshift_loop i A (b AND 1) = Some (z @ drop i A) \<and> length z = i \<and>
     bn_val z = (bn_val (take i A) + base_pow i * (uint b mod 2)) div 2"
proof (induction i arbitrary: A b)
  case (Suc i)
  define a where "a = A ! i"
  define w where "w = drop_bit 1 a OR push_bit 31 (b AND 1)"
  obtain z where z: "rshift_loop i (A[i := w]) (a AND 1) = Some (z @ drop i (A[i := w]))" "length z = i"
    and v: "bn_val z = (bn_val (take i A) + base_pow i * (uint a mod 2)) div 2"
    using Suc.IH [of "A[i := w]" a] Suc.prems by auto
  have w: "uint w = uint a div 2 + 2147483648 * (uint b mod 2)"
    unfolding w_def by (rule rshift_word_val)
  have run: "rshift_loop (Suc i) A (b AND 1) = Some ((z @ [w]) @ drop (Suc i) A)"
    using Suc.prems z by (simp add: a_def w_def Cons_nth_drop_Suc [symmetric])
  define q m where "q = uint a div 2" and "m = uint a mod 2"
  have a: "uint (A ! i) = 2 * q + m" by (simp add: q_def m_def a_def)
  have "2 * bn_val (z @ [w]) + (bn_val (take i A) + base_pow i * m) mod 2 =
      bn_val (take i A) + base_pow i * (2 * q + m + 4294967296 * (uint b mod 2))"
    by (simp add: bn_val_append z v [folded m_def] w [folded q_def] algebra_simps)
  also have "\<dots> = bn_val (take (Suc i) A) + base_pow (Suc i) * (uint b mod 2)"
    using Suc.prems by (simp add: bn_val_take_Suc a algebra_simps)
  finally have "bn_val (z @ [w]) = (bn_val (take (Suc i) A) + base_pow (Suc i) * (uint b mod 2)) div 2"
    by presburger
  then show ?case using run z by (intro exI [of _ "z @ [w]"]) simp
qed simp

lemma rshift_val [bn_simps]:
  assumes "8 \<le> length A"
  shows "rshift A = Some (bn_of 8 (bn_val (take 8 A) div 2) @ drop 8 A)"
proof -
  obtain z where z: "rshift A = Some (z @ drop 8 A)" "length z = 8" "bn_val z = bn_val (take 8 A) div 2"
    using rshift_loop_val [of 8 A 0] assms by (auto simp: rshift_def)
  then show ?thesis using bn_of_bn_val [of z 8] by simp
qed

section \<open>Copies\<close>

lemma setZero_val [bn_simps]: "n \<le> length A \<Longrightarrow> setZero A n = Some (replicate n 0 @ drop n A)"
  by (simp add: setZero_def memset_in)

lemma copy_val [bn_simps]:
  "n \<le> length from \<Longrightarrow> n \<le> length to \<Longrightarrow> copy from to n = Some (take n from @ drop n to)"
  by (simp add: copy_def memcpy_in)

lemma isSame_val [bn_simps]:
  "n \<le> length A \<Longrightarrow> n \<le> length B \<Longrightarrow>
   isSame A B n = Some (bn_val (take n A) = bn_val (take n B))"
  using bn_val_inject [of "take n A" "take n B"] by (auto simp: isSame_def memeq_in)

section \<open>Multiplication computes products\<close>

lemma add_at_acc:
  assumes off: "off \<le> N" and t: "length temp = N"
  shows "\<exists>c. add_at off (Arr temp) Res (bn_of N Z @ D) (N - off) =
    Some (c, bn_of N (Z + base_pow off * bn_val (drop off temp)) @ D)"
proof -
  define W where "W = bn_of N Z"
  define T where "T = bn_val (drop off temp)"
  have W: "length W = N" "bn_val W = Z mod base_pow N" by (simp_all add: W_def)
  have pq: "base_pow off * base_pow (N - off) = base_pow N"
    using off by (simp flip: power_add)
  have "take off W @ bn_of (N - off) (T + bn_val (drop off W)) = bn_of N (Z + base_pow off * T)"
  proof (rule bn_ofI)
    have "bn_val (take off W @ bn_of (N - off) (T + bn_val (drop off W))) =
        bn_val W mod base_pow off + base_pow off * ((T + bn_val W div base_pow off) mod base_pow (N - off))"
      using off W by (simp add: bn_val_append bn_val_take bn_val_drop)
    also have "\<dots> = (bn_val W + base_pow off * T) mod (base_pow off * base_pow (N - off))"
      by (subst zmod_zmult2_eq) (simp_all add: add.commute)
    also have "\<dots> = (Z + base_pow off * T) mod base_pow N"
      by (simp add: pq W mod_simps)
    finally show "bn_val (take off W @ bn_of (N - off) (T + bn_val (drop off W))) =
        (Z + base_pow off * T) mod base_pow N" .
  qed (use off W in simp)
  then show ?thesis
    using off t W add_at_val [of off "N - off" "W @ D" "Arr temp" Res]
    by (simp add: Let_def T_def flip: W_def)
qed

lemma fieldMult_step:
  assumes "n < L" "k < L" "L \<le> length x" "L \<le> length y"
  shows "fieldMult_inner (Suc m) n k L x y (replicate (L * 2) 0) (bn_of (L * 2) Z @ D) =
    fieldMult_inner m (Suc n) k L x y (replicate (L * 2) 0)
      (bn_of (L * 2) (Z + base_pow (n + k) * (uint (x ! n) * uint (y ! k))) @ D)"
proof -
  define l where "l = (ucast (x ! n) :: u64) * ucast (y ! k)"
  define temp where "temp = (replicate (L * 2) (0 :: u32))[n + k := ucast l, n + k + 1 := ucast (drop_bit 32 l)]"
  have l: "uint l = uint (x ! n) * uint (y ! k)" unfolding l_def by (rule uint_mult_32_64)
  have b: "n + k + 1 < L * 2" using assms by linarith
  then have rep: "replicate (L * 2) (0 :: u32) = replicate (n + k) 0 @ 0 # 0 # replicate (L * 2 - (n + k) - 2) 0"
    by (simp flip: replicate_Suc replicate_add)
  have temp: "temp = replicate (n + k) 0 @ ucast l # ucast (drop_bit 32 l) # replicate (L * 2 - (n + k) - 2) 0"
    unfolding temp_def rep using update_pair [of "replicate (n + k) 0" "n + k"] by simp
  have "uint l div 4294967296 < 4294967296"
    using uint_bounded [of l] by simp
  moreover have "0 \<le> uint l div 4294967296" by (simp add: pos_imp_zdiv_nonneg_iff)
  ultimately have hi: "uint (drop_bit 32 l) mod 4294967296 = uint l div 4294967296"
    by (simp only: uint_drop_bit_32 mod_pos_pos_trivial)
  have "bn_val (drop (n + k) temp) = uint l"
    by (simp add: temp hi uint_ucast_64_32)
  moreover have "length temp = L * 2" by (simp add: temp_def)
  ultimately obtain c where
    "add_at (n + k) (Arr temp) Res (bn_of (L * 2) Z @ D) (L * 2 - (n + k)) =
      Some (c, bn_of (L * 2) (Z + base_pow (n + k) * uint l) @ D)"
    using add_at_acc [of "n + k" "L * 2" temp Z D] b by auto
  moreover have "setZero temp (L * 2) = Some (replicate (L * 2) 0)"
    by (simp add: setZero_val temp_def)
  ultimately show ?thesis
    using assms b l temp_def [simplified]
    by (simp add: Let_def ucast_and_mask32 flip: l_def)
qed

lemma fieldMult_inner_val:
  "n + m = L \<Longrightarrow> k < L \<Longrightarrow> L \<le> length x \<Longrightarrow> L \<le> length y \<Longrightarrow>
   fieldMult_inner m n k L x y (replicate (L * 2) 0) (bn_of (L * 2) Z @ D) =
   Some (replicate (L * 2) 0,
     bn_of (L * 2) (Z + base_pow (n + k) * (bn_val (take m (drop n x)) * uint (y ! k))) @ D)"
proof (induction m arbitrary: n Z)
  case (Suc m)
  then show ?case
    by (simp add: fieldMult_step bn_val_take_drop_Suc algebra_simps del: fieldMult_inner.simps(2))
qed simp

lemma fieldMult_outer_val:
  "k + m = L \<Longrightarrow> L \<le> length x \<Longrightarrow> L \<le> length y \<Longrightarrow>
   fieldMult_outer m k L x y (replicate (L * 2) 0) (bn_of (L * 2) Z @ D) =
   Some (bn_of (L * 2) (Z + base_pow k * (bn_val (take L x) * bn_val (take m (drop k y)))) @ D)"
proof (induction m arbitrary: k Z)
  case (Suc m)
  then show ?case
    by (simp add: fieldMult_inner_val bn_val_take_drop_Suc algebra_simps)
qed simp

lemma fieldMult_val [bn_simps]:
  assumes "L \<le> length x" "L \<le> length y" "L * 2 \<le> length result"
  shows "fieldMult x y result L =
    Some (bn_of (L * 2) (bn_val (take L x) * bn_val (take L y)) @ drop (L * 2) result)"
  using assms fieldMult_outer_val [of 0 L L x y 0 "drop (L * 2) result"]
  by (simp add: fieldMult_def setZero_val)

end
