(* ===== verification/Field.thy ===== *)
theory Field
  imports Bignum
begin

text \<open>
  Arithmetic modulo the secp256r1 prime and modulo the order of its base point:
  \<open>fieldAdd\<close>, \<open>fieldSub\<close>, \<open>fieldModP\<close>, \<open>fieldModO\<close>, \<open>fieldAddAndDivide\<close> and
  \<open>fieldInv\<close> of \<open>arduino/libraries/Dtls/ecc/ecc.c\<close>, with the constants they use.

  A routine returns \<open>None\<close> when it accesses an array out of bounds or does not return. Local
  arrays, which the C code leaves uninitialised, start as zeros here: each is overwritten in full
  before it is read.
\<close>

section \<open>Constants of the curve\<close>

definition ecc_prime_m :: "u32 list" where
  "ecc_prime_m = [0xffffffff, 0xffffffff, 0xffffffff, 0x00000000,
                  0x00000000, 0x00000000, 0x00000001, 0xffffffff]"

definition ecc_prime_r :: "u32 list" where
  "ecc_prime_r = [0x00000001, 0x00000000, 0x00000000, 0xffffffff,
                  0xffffffff, 0xffffffff, 0xfffffffe, 0x00000000]"

definition ecc_order_m :: "u32 list" where
  "ecc_order_m = [0xFC632551, 0xF3B9CAC2, 0xA7179E84, 0xBCE6FAAD,
                  0xFFFFFFFF, 0xFFFFFFFF, 0x00000000, 0xFFFFFFFF,
                  0x00000000]"

definition ecc_order_r :: "u32 list" where
  "ecc_order_r = [0x039CDAAF, 0x0C46353D, 0x58E8617B, 0x43190552,
                  0x00000000, 0x00000000, 0xFFFFFFFF, 0x00000000]"

definition ecc_order_mu :: "u32 list" where
  "ecc_order_mu = [0xEEDF9BFE, 0x012FFD85, 0xDF1A6C21, 0x43190552,
                   0xFFFFFFFF, 0xFFFFFFFE, 0xFFFFFFFF, 0x00000000,
                   0x00000001]"

definition ecc_order_k :: nat where
  "ecc_order_k = 8"

section \<open>Addition and subtraction in the field\<close>

definition fieldAdd :: "u32 list \<Rightarrow> u32 list \<Rightarrow> u32 list \<Rightarrow> u32 list \<Rightarrow> u32 list option" where
  "fieldAdd x y reducer result = do {
     (c, result) \<leftarrow> add (Arr x) (Arr y) result 8;
     if c \<noteq> 0 then do {
       tempas \<leftarrow> setZero (replicate 8 0) 8;
       (_, tempas) \<leftarrow> add (Arr result) (Arr reducer) tempas 8;
       copy tempas result 8
     } else Some result
   }"

definition fieldSub :: "u32 list \<Rightarrow> u32 list \<Rightarrow> u32 list \<Rightarrow> u32 list \<Rightarrow> u32 list option" where
  "fieldSub x y modulus result = do {
     (c, result) \<leftarrow> sub (Arr x) (Arr y) result 8;
     if c \<noteq> 0 then do {
       tempas \<leftarrow> setZero (replicate 8 0) 8;
       (_, tempas) \<leftarrow> add (Arr result) (Arr modulus) tempas 8;
       copy tempas result 8
     } else Some result
   }"

section \<open>Fast reduction modulo the prime\<close>

text \<open>\<open>fill_loop\<close> is \<open>for (n = n; n < n + m; n++) t[n] = f(n)\<close>.\<close>

fun fill_loop :: "nat \<Rightarrow> nat \<Rightarrow> (nat \<Rightarrow> u32 option) \<Rightarrow> u32 list \<Rightarrow> u32 list option" where
  "fill_loop 0 n f t = Some t"
| "fill_loop (Suc m) n f t = do { a \<leftarrow> f n; t \<leftarrow> wr t n a; fill_loop m (Suc n) f t }"

definition fill :: "nat \<Rightarrow> nat \<Rightarrow> (nat \<Rightarrow> u32 option) \<Rightarrow> u32 list \<Rightarrow> u32 list option" where
  "fill lo hi f t = fill_loop (hi - lo) lo f t"

definition fieldModP :: "u32 list \<Rightarrow> u32 list \<Rightarrow> u32 list option" where
  "fieldModP A B = do {
     tempm \<leftarrow> setZero (replicate 8 0) 8;
     tempm2 \<leftarrow> setZero (replicate 8 0) 8;
     A \<leftarrow> copy B A 8;
     \<comment> \<open>S1\<close>
     tempm \<leftarrow> fill 0 3 (\<lambda>n. Some 0) tempm;
     tempm \<leftarrow> fill 3 8 (\<lambda>n. rd B (n + 8)) tempm;
     tempm2 \<leftarrow> fieldAdd A tempm ecc_prime_r tempm2;
     A \<leftarrow> fieldAdd tempm2 tempm ecc_prime_r A;
     \<comment> \<open>S2\<close>
     tempm \<leftarrow> fill 0 3 (\<lambda>n. Some 0) tempm;
     tempm \<leftarrow> fill 3 7 (\<lambda>n. rd B (n + 9)) tempm;
     tempm \<leftarrow> fill 7 8 (\<lambda>n. Some 0) tempm;
     tempm2 \<leftarrow> fieldAdd A tempm ecc_prime_r tempm2;
     A \<leftarrow> fieldAdd tempm2 tempm ecc_prime_r A;
     \<comment> \<open>S3\<close>
     tempm \<leftarrow> fill 0 3 (\<lambda>n. rd B (n + 8)) tempm;
     tempm \<leftarrow> fill 3 6 (\<lambda>n. Some 0) tempm;
     tempm \<leftarrow> fill 6 8 (\<lambda>n. rd B (n + 8)) tempm;
     tempm2 \<leftarrow> fieldAdd A tempm ecc_prime_r tempm2;
     \<comment> \<open>S4\<close>
     tempm \<leftarrow> fill 0 3 (\<lambda>n. rd B (n + 9)) tempm;
     tempm \<leftarrow> fill 3 6 (\<lambda>n. rd B (n + 10)) tempm;
     tempm \<leftarrow> fill 6 7 (\<lambda>n. rd B (n + 7)) tempm;
     tempm \<leftarrow> fill 7 8 (\<lambda>n. rd B (n + 1)) tempm;
     A \<leftarrow> fieldAdd tempm2 tempm ecc_prime_r A;
     \<comment> \<open>D1\<close>
     tempm \<leftarrow> fill 0 3 (\<lambda>n. rd B (n + 11)) tempm;
     tempm \<leftarrow> fill 3 6 (\<lambda>n. Some 0) tempm;
     tempm \<leftarrow> fill 6 7 (\<lambda>n. rd B (n + 2)) tempm;
     tempm \<leftarrow> fill 7 8 (\<lambda>n. rd B (n + 3)) tempm;
     tempm2 \<leftarrow> fieldSub A tempm ecc_prime_m tempm2;
     \<comment> \<open>D2\<close>
     tempm \<leftarrow> fill 0 4 (\<lambda>n. rd B (n + 12)) tempm;
     tempm \<leftarrow> fill 4 6 (\<lambda>n. Some 0) tempm;
     tempm \<leftarrow> fill 6 7 (\<lambda>n. rd B (n + 3)) tempm;
     tempm \<leftarrow> fill 7 8 (\<lambda>n. rd B (n + 4)) tempm;
     A \<leftarrow> fieldSub tempm2 tempm ecc_prime_m A;
     \<comment> \<open>D3\<close>
     tempm \<leftarrow> fill 0 3 (\<lambda>n. rd B (n + 13)) tempm;
     tempm \<leftarrow> fill 3 6 (\<lambda>n. rd B (n + 5)) tempm;
     tempm \<leftarrow> fill 6 7 (\<lambda>n. Some 0) tempm;
     tempm \<leftarrow> fill 7 8 (\<lambda>n. rd B (n + 5)) tempm;
     tempm2 \<leftarrow> fieldSub A tempm ecc_prime_m tempm2;
     \<comment> \<open>D4\<close>
     tempm \<leftarrow> fill 0 2 (\<lambda>n. rd B (n + 14)) tempm;
     tempm \<leftarrow> fill 2 3 (\<lambda>n. Some 0) tempm;
     tempm \<leftarrow> fill 3 6 (\<lambda>n. rd B (n + 6)) tempm;
     tempm \<leftarrow> fill 6 7 (\<lambda>n. Some 0) tempm;
     tempm \<leftarrow> fill 7 8 (\<lambda>n. rd B (n + 6)) tempm;
     A \<leftarrow> fieldSub tempm2 tempm ecc_prime_m A;
     g \<leftarrow> isGreater A ecc_prime_m 8;
     if g \<ge> 0 then do {
       tempm \<leftarrow> fieldSub A ecc_prime_m ecc_prime_m tempm;
       copy tempm A 8
     } else Some A
   }"

section \<open>Barrett reduction modulo the order\<close>

text \<open>
  The final loop has no bound in the code; \<open>None\<close> if it runs for ever. The argument \<open>A\<close> is the
  result array itself in the call \<open>fieldModO (r, r, 8)\<close> of \<open>ecc_ecdsa_sign\<close>.
\<close>

partial_function (option) modO_loop :: "u32 list \<Rightarrow> u32 list option" where
  "modO_loop result = do {
     g \<leftarrow> isGreater result ecc_order_m 9;
     if g \<ge> 0 then do {
       (_, result) \<leftarrow> sub Res (Arr ecc_order_m) result 9;
       modO_loop result
     } else Some result
   }"

definition fieldModO :: "operand \<Rightarrow> u32 list \<Rightarrow> nat \<Rightarrow> u32 list option" where
  "fieldModO A result len = do {
     small \<leftarrow> (if len = 8 then map_option (\<lambda>g. g \<le> 0) (isGreater (opnd A result) ecc_order_m 8)
              else Some False);
     if small then (case A of Res \<Rightarrow> Some result | Arr a \<Rightarrow> copy a result len)
     else do {
       q1_q3 \<leftarrow> rshiftby (opnd A result) len (replicate 9 0) 9 (ecc_order_k - 1);
       q2_tmp \<leftarrow> fieldMult ecc_order_mu q1_q3 (replicate 18 0) 9;
       q1_q3 \<leftarrow> rshiftby q2_tmp 18 q1_q3 8 (ecc_order_k + 1);
       q2_tmp \<leftarrow> fieldMult q1_q3 ecc_order_m q2_tmp 8;
       (_, result) \<leftarrow> sub A (Arr q2_tmp) result 9;
       modO_loop result
     }
   }"

section \<open>Inversion\<close>

definition fieldAddAndDivide ::
  "u32 list \<Rightarrow> u32 list \<Rightarrow> u32 list \<Rightarrow> u32 list \<Rightarrow> u32 list option" where
  "fieldAddAndDivide x modulus reducer result = do {
     (n, result) \<leftarrow> add (Arr x) (Arr modulus) result 8;
     result \<leftarrow> rshift result;
     if n \<noteq> 0 then do {
       top \<leftarrow> rd result 7;
       result \<leftarrow> wr result 7 (top OR 0x80000000);
       g \<leftarrow> isGreater result modulus 8;
       if g = 1 then do {
         tempas \<leftarrow> setZero (replicate 8 0) 8;
         (_, tempas) \<leftarrow> add (Arr result) (Arr reducer) tempas 8;
         copy tempas result 8
       } else Some result
     } else Some result
   }"

text \<open>
  The two inner loops of \<open>fieldInv\<close>, on \<open>(u, x1)\<close> and on \<open>(v, x2)\<close>: halve while even. The array
  \<open>tempm\<close> only carries the result of \<open>fieldAddAndDivide\<close> to the copy after it.
\<close>

partial_function (option) inv_halve ::
  "u32 list \<Rightarrow> u32 list \<Rightarrow> u32 list \<Rightarrow> u32 list \<Rightarrow> (u32 list \<times> u32 list) option" where
  "inv_halve u x modulus reducer = do {
     u0 \<leftarrow> rd u 0;
     if u0 AND 1 = 0 then do {
       u \<leftarrow> rshift u;
       x0 \<leftarrow> rd x 0;
       x \<leftarrow> (if x0 AND 1 = 0 then rshift x
            else do {
              tempm \<leftarrow> fieldAddAndDivide x modulus reducer (replicate 8 0);
              copy tempm x 8
            });
       inv_halve u x modulus reducer
     } else Some (u, x)
   }"

text \<open>The body of the outer loop after the two inner loops.\<close>

definition inv_subtract ::
  "u32 list \<Rightarrow> u32 list \<Rightarrow> u32 list \<Rightarrow> u32 list \<Rightarrow> u32 list \<Rightarrow>
   (u32 list \<times> u32 list \<times> u32 list \<times> u32 list) option" where
  "inv_subtract u v x1 x2 modulus = do {
     (t, tempm) \<leftarrow> sub (Arr u) (Arr v) (replicate 8 0) 8;
     if (ucast t :: u8) = 0 then do {
       u \<leftarrow> copy tempm u 8;
       tempm \<leftarrow> fieldSub x1 x2 modulus tempm;
       x1 \<leftarrow> copy tempm x1 8;
       Some (u, v, x1, x2)
     } else do {
       (_, tempm) \<leftarrow> sub (Arr v) (Arr u) tempm 8;
       v \<leftarrow> copy tempm v 8;
       tempm \<leftarrow> fieldSub x2 x1 modulus tempm;
       x2 \<leftarrow> copy tempm x2 8;
       Some (u, v, x1, x2)
     }
   }"

partial_function (option) inv_loop ::
  "u32 list \<Rightarrow> u32 list \<Rightarrow> u32 list \<Rightarrow> u32 list \<Rightarrow> u32 list \<Rightarrow> u32 list \<Rightarrow>
   (u32 list \<times> u32 list \<times> u32 list) option" where
  "inv_loop u v x1 x2 modulus reducer = do {
     a \<leftarrow> isOne u;
     b \<leftarrow> isOne v;
     if a \<or> b then Some (u, x1, x2)
     else do {
       (u, x1) \<leftarrow> inv_halve u x1 modulus reducer;
       (v, x2) \<leftarrow> inv_halve v x2 modulus reducer;
       (u, v, x1, x2) \<leftarrow> inv_subtract u v x1 x2 modulus;
       inv_loop u v x1 x2 modulus reducer
     }
   }"

definition fieldInv :: "u32 list \<Rightarrow> u32 list \<Rightarrow> u32 list \<Rightarrow> u32 list \<Rightarrow> u32 list option" where
  "fieldInv A modulus reducer B = do {
     u \<leftarrow> copy A (replicate 8 0) 8;
     v \<leftarrow> copy modulus (replicate 8 0) 8;
     x1 \<leftarrow> setZero (replicate 8 0) 8;
     x2 \<leftarrow> setZero (replicate 8 0) 8;
     x1 \<leftarrow> wr x1 0 1;
     (u, x1, x2) \<leftarrow> inv_loop u v x1 x2 modulus reducer;
     one \<leftarrow> isOne u;
     if one then copy x1 B 8 else copy x2 B 8
   }"

end
