(* ===== verification/Field_Laws.thy ===== *)
theory Field_Laws
  imports Field
begin

text \<open>
  What the field routines compute. \<open>fieldAdd\<close> and \<open>fieldSub\<close> are exact on one reduced operand,
  \<open>fieldInv\<close> inverts, \<open>fieldModO\<close> is Barrett reduction and \<open>fieldModP\<close> is the fast reduction,
  correct while no summand can exceed the prime. The contract that a modulus and its reducer share
  is the locale \<open>modulus_pair\<close>, interpreted on both pairs of constants of the code.
\<close>

section \<open>One addition, one subtraction\<close>

lemma bn_val_8_less: "length xs = 8 \<Longrightarrow> bn_val xs < 115792089237316195423570985008687907853269984665640564039457584007913129639936"
  using bn_val_less [of xs] by simp

lemma carry_iff:
  assumes "0 \<le> s" "s < 2 * m" "0 < m"
  shows "(word_of_int (s div m) :: u32) \<noteq> 0 \<longleftrightarrow> m \<le> (s :: int)"
proof (cases "m \<le> s")
  case True
  then have "s div m = 1" using assms by (simp add: int_div_pos_eq [where r = "s - m"])
  with True show ?thesis by simp
next
  case False
  with assms show ?thesis by simp
qed

lemma fieldAdd_val [bn_simps]:
  assumes "length x = 8" "length y = 8" "8 \<le> length r" "length z = 8"
  shows "fieldAdd x y r z = Some (bn_of 8 (if bn_val x + bn_val y < base_pow 8
    then bn_val x + bn_val y else bn_val x + bn_val y + bn_val (take 8 r)))"
proof -
  define s where "s = bn_val x + bn_val y"
  have s: "0 \<le> s" "s < 2 * base_pow 8"
    using bn_val_8_less [OF assms(1)] bn_val_8_less [OF assms(2)] by (simp_all add: s_def)
  have "bn_of 8 (s mod base_pow 8 + bn_val (take 8 r)) = bn_of 8 (s + bn_val (take 8 r))"
    by (rule bn_of_cong) (simp only: mod_simps)
  then show ?thesis
    using assms carry_iff [OF s] unfolding fieldAdd_def
    by (simp add: add_at_val setZero_val copy_val Let_def flip: s_def)
qed

lemma fieldSub_val [bn_simps]:
  assumes "length x = 8" "length y = 8" "8 \<le> length m" "length z = 8"
  shows "fieldSub x y m z = Some (bn_of 8 (if bn_val x < bn_val y
    then bn_val x - bn_val y + bn_val (take 8 m) else bn_val x - bn_val y))"
proof -
  have "bn_of 8 ((bn_val x - bn_val y) mod base_pow 8 + bn_val (take 8 m)) =
      bn_of 8 (bn_val x - bn_val y + bn_val (take 8 m))"
    by (rule bn_of_cong) (simp only: mod_simps)
  then show ?thesis
    using assms unfolding fieldSub_def
    by (simp add: add_at_val sub_val setZero_val copy_val Let_def)
qed

lemma reduce_sum_bounds:
  fixes x y m b :: int
  assumes "0 \<le> x" "x < b" "0 \<le> y" "y \<le> m" "m \<le> b"
  defines "s \<equiv> (if x + y < b then x + y else x + y - m)"
  shows "0 \<le> s" "s < b" "s mod m = (x + y) mod m"
  using assms by auto

lemma reduce_diff_bounds:
  fixes x y m b :: int
  assumes "0 \<le> x" "x < b" "0 \<le> y" "y \<le> m" "m \<le> b"
  defines "s \<equiv> (if x < y then x - y + m else x - y)"
  shows "0 \<le> s" "s < b" "s mod m = (x - y) mod m"
  using assms by auto

lemma reduce_diff_less:
  "0 \<le> x \<Longrightarrow> x < m \<Longrightarrow> 0 \<le> y \<Longrightarrow> (if x < y then x - y + m else x - y) < m" for x y m :: int
  by auto

section \<open>Arithmetic with a fixed modulus\<close>

text \<open>
  Both moduli of the curve come as a pair of a modulus and its complement to \<open>2 ^ 256\<close>, the
  "reducer". The contract of the field routines holds for every such pair.
\<close>

locale modulus_pair =
  fixes m r :: "u32 list"
  assumes m_len: "8 \<le> length m"
    and r_len: "length r = 8"
    and m_odd: "odd (bn_val (take 8 m))"
    and m_gt: "1 < bn_val (take 8 m)"
    and m_compl: "bn_val (take 8 m) + bn_val r = base_pow 8"
    and m_half: "base_pow 8 < 2 * bn_val (take 8 m)"
begin

abbreviation M :: int where
  "M \<equiv> bn_val (take 8 m)"

lemma M_le: "M \<le> base_pow 8"
  using m_compl bn_val_nonneg [of r] by linarith

lemma add_exact:
  assumes "length x = 8" "length y = 8" "length z = 8" "bn_val y \<le> M"
  shows "\<exists>w. fieldAdd x y r z = Some w \<and> length w = 8 \<and> bn_val w mod M = (bn_val x + bn_val y) mod M"
proof -
  define s where "s = (if bn_val x + bn_val y < base_pow 8 then bn_val x + bn_val y
    else bn_val x + bn_val y - M)"
  have "bn_val x + bn_val y + bn_val r = bn_val x + bn_val y - M + base_pow 8"
    using m_compl by linarith
  then have "bn_of 8 (bn_val x + bn_val y + bn_val r) = bn_of 8 (bn_val x + bn_val y - M)"
    by (intro bn_of_cong) (simp only: mod_add_self2)
  then have run: "fieldAdd x y r z = Some (bn_of 8 s)"
    using assms r_len fieldAdd_val [of x y r z] by (auto simp: s_def)
  have x: "bn_val x < base_pow 8" using bn_val_8_less [OF assms(1)] by simp
  note s = reduce_sum_bounds [OF bn_val_nonneg x bn_val_nonneg assms(4) M_le, folded s_def]
  then have "bn_val (bn_of 8 s) = s" by simp
  with run s(3) show ?thesis by simp
qed

lemma sub_exact:
  assumes "length x = 8" "length y = 8" "length z = 8" "bn_val y \<le> M"
  shows "\<exists>w. fieldSub x y m z = Some w \<and> length w = 8 \<and>
    bn_val w = (if bn_val x < bn_val y then bn_val x - bn_val y + M else bn_val x - bn_val y) \<and>
    bn_val w mod M = (bn_val x - bn_val y) mod M"
proof -
  define s where "s = (if bn_val x < bn_val y then bn_val x - bn_val y + M else bn_val x - bn_val y)"
  have run: "fieldSub x y m z = Some (bn_of 8 s)"
    using assms m_len fieldSub_val [of x y m z] by (auto simp: s_def)
  have x: "bn_val x < base_pow 8" using bn_val_8_less [OF assms(1)] by simp
  note s = reduce_diff_bounds [OF bn_val_nonneg x bn_val_nonneg assms(4) M_le, folded s_def]
  then have "bn_val (bn_of 8 s) = s" by simp
  with run s(3) show ?thesis by (simp add: s_def)
qed

lemma sub_reduced:
  assumes "length x = 8" "length y = 8" "length z = 8" "bn_val x < M" "bn_val y < M"
  shows "\<exists>w. fieldSub x y m z = Some w \<and> length w = 8 \<and> bn_val w = (bn_val x - bn_val y) mod M"
proof -
  obtain w where w: "fieldSub x y m z = Some w" "length w = 8"
    "bn_val w = (if bn_val x < bn_val y then bn_val x - bn_val y + M else bn_val x - bn_val y)"
    "bn_val w mod M = (bn_val x - bn_val y) mod M"
    using sub_exact [of x y z] assms by auto
  have "bn_val w < M"
    unfolding w(3) using bn_val_nonneg assms(4) bn_val_nonneg by (rule reduce_diff_less)
  with w(4) have "bn_val w = (bn_val x - bn_val y) mod M"
    by (metis bn_val_nonneg mod_pos_pos_trivial)
  with w(1,2) show ?thesis by simp
qed

end

lemmas curve_constants = ecc_prime_m_def ecc_prime_r_def ecc_order_m_def ecc_order_r_def ecc_order_mu_def

definition prime_p :: int where
  "prime_p = 2 ^ 256 - 2 ^ 224 + 2 ^ 192 + 2 ^ 96 - 1"

definition order_n :: int where
  "order_n = 0xFFFFFFFF00000000FFFFFFFFFFFFFFFFBCE6FAADA7179E84F3B9CAC2FC632551"

lemma bn_val_prime [simp]: "bn_val ecc_prime_m = prime_p" "take 8 ecc_prime_m = ecc_prime_m"
    "length ecc_prime_m = 8"
  by (simp_all add: ecc_prime_m_def prime_p_def)

lemma bn_val_order [simp]: "bn_val (take 8 ecc_order_m) = order_n" "bn_val ecc_order_m = order_n"
    "length ecc_order_m = 9" "take 9 ecc_order_m = ecc_order_m"
  by (simp_all add: ecc_order_m_def order_n_def)

interpretation prime: modulus_pair ecc_prime_m ecc_prime_r
  by unfold_locales (simp_all add: curve_constants)

interpretation order: modulus_pair ecc_order_m ecc_order_r
  by unfold_locales (simp_all add: curve_constants)

section \<open>The fast reduction\<close>

lemma fill_loop_val:
  "n + m \<le> length t \<Longrightarrow> (\<And>i. n \<le> i \<Longrightarrow> i < n + m \<Longrightarrow> f i = Some (g i)) \<Longrightarrow>
   fill_loop m n f t = Some (take n t @ map g [n..<n + m] @ drop (n + m) t)"
proof (induction m arbitrary: n t)
  case (Suc m)
  then show ?case by (simp add: take_Suc_conv_app_nth upt_conv_Cons del: upt_Suc)
qed simp

lemma fill_val:
  "lo \<le> hi \<Longrightarrow> hi \<le> length t \<Longrightarrow> (\<And>i. lo \<le> i \<Longrightarrow> i < hi \<Longrightarrow> f i = Some (g i)) \<Longrightarrow>
   fill lo hi f t = Some (take lo t @ map g [lo..<hi] @ drop hi t)"
  using fill_loop_val [of lo "hi - lo" t f g] by (simp add: fill_def)

lemma upt_from_0: "[0..<2] = [0, 1]" "[0..<3] = [0, 1, 2]" "[0..<4] = [0, 1, 2, 3]"
  by (simp_all add: upt_rec)

lemma fill_const:
  "lo \<le> hi \<Longrightarrow> hi \<le> length t \<Longrightarrow>
   fill lo hi (\<lambda>n. Some c) t = Some (take lo t @ map (\<lambda>n. c) [lo..<hi] @ drop hi t)"
  by (rule fill_val) auto

lemma fill_rd:
  "lo \<le> hi \<Longrightarrow> hi \<le> length t \<Longrightarrow> hi + k \<le> length B \<Longrightarrow>
   fill lo hi (\<lambda>n. rd B (n + k)) t = Some (take lo t @ map (\<lambda>n. B ! (n + k)) [lo..<hi] @ drop hi t)"
  by (rule fill_val) auto

text \<open>The summands of the reduction, as the code lays them out in \<open>tempm\<close>.\<close>

definition modp_S1 :: "u32 list \<Rightarrow> u32 list" where
  "modp_S1 B = [0, 0, 0, B ! 11, B ! 12, B ! 13, B ! 14, B ! 15]"

definition modp_S2 :: "u32 list \<Rightarrow> u32 list" where
  "modp_S2 B = [0, 0, 0, B ! 12, B ! 13, B ! 14, B ! 15, 0]"

definition modp_S3 :: "u32 list \<Rightarrow> u32 list" where
  "modp_S3 B = [B ! 8, B ! 9, B ! 10, 0, 0, 0, B ! 14, B ! 15]"

definition modp_S4 :: "u32 list \<Rightarrow> u32 list" where
  "modp_S4 B = [B ! 9, B ! 10, B ! 11, B ! 13, B ! 14, B ! 15, B ! 13, B ! 8]"

definition modp_D1 :: "u32 list \<Rightarrow> u32 list" where
  "modp_D1 B = [B ! 11, B ! 12, B ! 13, 0, 0, 0, B ! 8, B ! 10]"

definition modp_D2 :: "u32 list \<Rightarrow> u32 list" where
  "modp_D2 B = [B ! 12, B ! 13, B ! 14, B ! 15, 0, 0, B ! 9, B ! 11]"

definition modp_D3 :: "u32 list \<Rightarrow> u32 list" where
  "modp_D3 B = [B ! 13, B ! 14, B ! 15, B ! 8, B ! 9, B ! 10, 0, B ! 12]"

definition modp_D4 :: "u32 list \<Rightarrow> u32 list" where
  "modp_D4 B = [B ! 14, B ! 15, 0, B ! 9, B ! 10, B ! 11, 0, B ! 13]"

lemmas modp_defs = modp_S1_def modp_S2_def modp_S3_def modp_S4_def modp_D1_def modp_D2_def modp_D3_def modp_D4_def

lemma length_modp [simp]:
"length (modp_S1 B) = 8"
  "length (modp_S2 B) = 8"
  "length (modp_S3 B) = 8"
  "length (modp_S4 B) = 8"
  "length (modp_D1 B) = 8"
  "length (modp_D2 B) = 8"
  "length (modp_D3 B) = 8"
  "length (modp_D4 B) = 8"
  by (simp_all add: modp_defs)

lemma fieldModP_unfold:
  assumes "length A = 8" "length B = 16"
  shows "fieldModP A B = do {
    t \<leftarrow> fieldAdd (take 8 B) (modp_S1 B) ecc_prime_r (replicate 8 0);
    A \<leftarrow> fieldAdd t (modp_S1 B) ecc_prime_r (take 8 B);
    t \<leftarrow> fieldAdd A (modp_S2 B) ecc_prime_r t;
    A \<leftarrow> fieldAdd t (modp_S2 B) ecc_prime_r A;
    t \<leftarrow> fieldAdd A (modp_S3 B) ecc_prime_r t;
    A \<leftarrow> fieldAdd t (modp_S4 B) ecc_prime_r A;
    t \<leftarrow> fieldSub A (modp_D1 B) ecc_prime_m t;
    A \<leftarrow> fieldSub t (modp_D2 B) ecc_prime_m A;
    t \<leftarrow> fieldSub A (modp_D3 B) ecc_prime_m t;
    A \<leftarrow> fieldSub t (modp_D4 B) ecc_prime_m A;
    g \<leftarrow> isGreater A ecc_prime_m 8;
    if g \<ge> 0 then do { t \<leftarrow> fieldSub A ecc_prime_m ecc_prime_m (modp_D4 B); copy t A 8 } else Some A
  }"
  using assms unfolding fieldModP_def modp_defs
  by (simp add: setZero_val copy_val fill_const fill_rd fill_rd [of _ _ _ 1, simplified] fill_rd [of _ _ _ 2, simplified]
      upt_rec_numeral upt_from_0)

text \<open>
  The congruence behind the reduction: a 512-bit number is the sum of its low half and the eight
  rearrangements of its high half, up to an explicit multiple of the prime.
\<close>

lemma modp_identity:
  assumes "length B = 16"
  shows "(bn_val (take 8 B) + bn_val (modp_S1 B) + bn_val (modp_S1 B) + bn_val (modp_S2 B) +
      bn_val (modp_S2 B) + bn_val (modp_S3 B) + bn_val (modp_S4 B) - bn_val (modp_D1 B) -
      bn_val (modp_D2 B) - bn_val (modp_D3 B) - bn_val (modp_D4 B)) mod prime_p = bn_val B mod prime_p"
proof -
  obtain w0 w1 w2 w3 w4 w5 w6 w7 w8 w9 w10 w11 w12 w13 w14 w15 where B: "B = [w0, w1, w2, w3, w4, w5, w6, w7, w8, w9, w10, w11, w12, w13, w14, w15]"
    using assms by (auto simp: length_Suc_conv numeral_eq_Suc)
  define k where "k = uint w8 + 4294967297 * uint w9 + 18446744078004518912 * uint w10 + 79228162532711081667253501951 * uint w11 + 340282367000166625977638945021017194495 * uint w12 + 1461501637671185285124623296161210883009696235519 * uint w13 + 6277101736848182401166692341332123086285927382448418586623 * uint w14 + 26959946673427741530053695850515137729844644212646842236464328081408 * uint w15"
  have eq: "bn_val (take 8 B) + bn_val (modp_S1 B) + bn_val (modp_S1 B) + bn_val (modp_S2 B) +
      bn_val (modp_S2 B) + bn_val (modp_S3 B) + bn_val (modp_S4 B) - bn_val (modp_D1 B) -
      bn_val (modp_D2 B) - bn_val (modp_D3 B) - bn_val (modp_D4 B) = bn_val B + prime_p * (- k)"
    unfolding B modp_defs k_def prime_p_def by (simp add: algebra_simps)
  show ?thesis unfolding eq by (rule mod_mult_self2)
qed

lemma top_word_le_prime:
  assumes "length xs = 8" "xs ! 7 \<noteq> 0xFFFFFFFF"
  shows "bn_val xs \<le> prime_p"
proof -
  have "uint (xs ! 7) \<noteq> 4294967295" using assms(2) by (simp add: word_uint_eq_iff)
  then have "uint (xs ! 7) \<le> 4294967294" using uint32_less [of "xs ! 7"] by linarith
  moreover have "bn_val xs = bn_val (take 7 xs) + base_pow 7 * uint (xs ! 7)"
    using bn_val_take_Suc [of 7 xs] assms(1) by simp
  moreover have "bn_val (take 7 xs) < base_pow 7"
    using bn_val_less [of "take 7 xs"] assms(1) by simp
  ultimately show ?thesis unfolding prime_p_def by simp
qed

lemma top_word_modp:
  "modp_S1 B ! 7 = B ! 15" "modp_S2 B ! 7 = 0" "modp_S3 B ! 7 = B ! 15" "modp_S4 B ! 7 = B ! 8"
  "modp_D1 B ! 7 = B ! 10" "modp_D2 B ! 7 = B ! 11" "modp_D3 B ! 7 = B ! 12" "modp_D4 B ! 7 = B ! 13"
  by (simp_all add: modp_defs)

definition modp_safe :: "u32 list \<Rightarrow> bool" where
  "modp_safe B \<longleftrightarrow> list_all (\<lambda>i. B ! i \<noteq> 0xFFFFFFFF) [8, 10, 11, 12, 13, 15]"

lemma modp_safe_le:
  assumes "modp_safe B"
  shows "bn_val (modp_S1 B) \<le> prime_p" "bn_val (modp_S2 B) \<le> prime_p" "bn_val (modp_S3 B) \<le> prime_p"
    "bn_val (modp_S4 B) \<le> prime_p" "bn_val (modp_D1 B) \<le> prime_p" "bn_val (modp_D2 B) \<le> prime_p"
    "bn_val (modp_D3 B) \<le> prime_p" "bn_val (modp_D4 B) \<le> prime_p"
  using assms by (auto simp: modp_safe_def top_word_modp intro!: top_word_le_prime)

text \<open>A word array that represents an integer modulo the prime, not necessarily reduced.\<close>

definition rep_p :: "int \<Rightarrow> u32 list \<Rightarrow> bool" where
  "rep_p a w \<longleftrightarrow> length w = 8 \<and> bn_val w mod prime_p = a mod prime_p"

lemma fieldAdd_rep:
  assumes "rep_p a x" "length y = 8" "length z = 8" "bn_val y \<le> prime_p"
    and k: "\<And>w. rep_p (a + bn_val y) w \<Longrightarrow> length w = 8 \<Longrightarrow> k w = res"
  shows "(fieldAdd x y ecc_prime_r z \<bind> k) = res"
proof -
  obtain w where w: "fieldAdd x y ecc_prime_r z = Some w" "length w = 8"
    "bn_val w mod prime_p = (bn_val x + bn_val y) mod prime_p"
    using prime.add_exact [of x y z] assms by (auto simp: rep_p_def)
  have "(bn_val x + bn_val y) mod prime_p = (a + bn_val y) mod prime_p"
    using assms(1) by (intro mod_add_cong) (simp_all add: rep_p_def)
  with w show ?thesis by (simp add: k rep_p_def)
qed

lemma fieldSub_rep:
  assumes "rep_p a x" "length y = 8" "length z = 8" "bn_val y \<le> prime_p"
    and k: "\<And>w. rep_p (a - bn_val y) w \<Longrightarrow> length w = 8 \<Longrightarrow> k w = res"
  shows "(fieldSub x y ecc_prime_m z \<bind> k) = res"
proof -
  obtain w where w: "fieldSub x y ecc_prime_m z = Some w" "length w = 8"
    "bn_val w mod prime_p = (bn_val x - bn_val y) mod prime_p"
    using prime.sub_exact [of x y z] assms by (auto simp: rep_p_def)
  have "(bn_val x - bn_val y) mod prime_p = (a - bn_val y) mod prime_p"
    using assms(1) by (intro mod_diff_cong) (simp_all add: rep_p_def)
  with w show ?thesis by (simp add: k rep_p_def)
qed

lemma final_subtraction:
  assumes "rep_p a A" "length t = 8" "a mod prime_p = c"
  shows "(do { g \<leftarrow> isGreater A ecc_prime_m 8;
      if g \<ge> 0 then do { t \<leftarrow> fieldSub A ecc_prime_m ecc_prime_m t; copy t A 8 } else Some A }) =
    Some (bn_of 8 c)"
proof -
  have A: "length A = 8" "bn_val A mod prime_p = a mod prime_p" using assms(1) by (auto simp: rep_p_def)
  have b: "bn_val A < 2 * prime_p" using bn_val_8_less [OF A(1)] by (simp add: prime_p_def)
  show ?thesis
  proof (cases "bn_val A < prime_p")
    case True
    then have "bn_val A = a mod prime_p" using A(2) bn_val_nonneg [of A] by (metis mod_pos_pos_trivial)
    with True A(1) bn_of_bn_val [of A 8] show ?thesis by (simp add: isGreater_val sgn_if assms(3))
  next
    case False
    have "(bn_val A - prime_p) mod prime_p = a mod prime_p" using A(2) by simp
    moreover have "0 \<le> bn_val A - prime_p" "bn_val A - prime_p < prime_p" using False b by simp_all
    ultimately have "bn_val A - prime_p = a mod prime_p" by (metis mod_pos_pos_trivial)
    with False A(1) assms(2) show ?thesis
      by (simp add: isGreater_val sgn_if fieldSub_val copy_val assms(3))
  qed
qed

lemma fieldModP_val:
  assumes "length A = 8" "length B = 16" "modp_safe B"
  shows "fieldModP A B = Some (bn_of 8 (bn_val B mod prime_p))"
proof -
  note le = modp_safe_le [OF assms(3)]
  have T: "rep_p (bn_val (take 8 B)) (take 8 B)" using assms(2) by (simp add: rep_p_def)
  have "length (take 8 B) = 8" using assms(2) by simp
  show ?thesis
    unfolding fieldModP_unfold [OF assms(1,2)]
    by ((rule fieldAdd_rep fieldSub_rep, (rule T | assumption), simp, simp add: assms, rule le)+)
      (rule final_subtraction, assumption, simp, rule modp_identity [OF assms(2)])
qed

section \<open>Halving and inversion\<close>

lemma coprime_halve:
  fixes u v :: int
  assumes "coprime u v" "even u"
  shows "coprime (u div 2) v"
  using assms by (metis coprime_mult_left_iff dvd_mult_div_cancel)

lemma coprime_halve_right:
  fixes u v :: int
  assumes "coprime u v" "even v"
  shows "coprime u (v div 2)"
  using assms coprime_halve [of v u] by (simp add: coprime_commute)

lemma even_uint: "even (uint w) \<longleftrightarrow> even (w :: u32)"
  using bit_uint_iff [of w 0] by (simp add: bit_0)

lemma low_bit: "u \<noteq> [] \<Longrightarrow> u ! 0 AND 1 = 0 \<longleftrightarrow> even (bn_val u)"
proof -
  assume "u \<noteq> []"
  then obtain w ws where u: "u = w # ws" by (cases u) auto
  have "w AND 1 = 0 \<longleftrightarrow> even (uint w)"
    by (simp add: and_one_eq even_uint flip: even_iff_mod_2_eq_zero)
  then show ?thesis by (simp add: u)
qed

lemma or_top_bit: "uint w < 2147483648 \<Longrightarrow> uint (w OR 0x80000000 :: u32) = uint w + 2147483648"
proof -
  assume w: "uint w < 2147483648"
  have top: "(0x80000000 :: u32) = 2 ^ 31" by simp
  have "\<not> bit w 31"
    using w bit_uint_iff [of w 31] by (simp add: bit_iff_odd)
  then have "w AND 2 ^ 31 = 0"
    by (intro bit_word_eqI) (unfold bit_and_iff bit_exp_iff, auto)
  then have "w OR 2 ^ 31 = w + 2 ^ 31" by (simp only: disjunctive_add_eq_or)
  then show ?thesis unfolding top using w by (simp add: uint_word_ariths)
qed

lemma set_top_bit:
  assumes "length w = 8" "bn_val w < 2 ^ 255"
  shows "bn_val (w[7 := w ! 7 OR 0x80000000]) = bn_val w + 2 ^ 255"
proof -
  have v: "bn_val w = bn_val (take 7 w) + base_pow 7 * uint (w ! 7)"
    using bn_val_take_Suc [of 7 w] assms(1) by simp
  have v': "bn_val (w[7 := t]) = bn_val (take 7 w) + base_pow 7 * uint t" for t
    using bn_val_take_Suc [of 7 "w[7 := t]"] assms(1) by simp
  have "base_pow 7 * uint (w ! 7) \<le> bn_val w" unfolding v by simp
  with assms(2) have "base_pow 7 * uint (w ! 7) < 2 ^ 255" by linarith
  then have "uint (w ! 7) < 2147483648" by simp
  then show ?thesis unfolding v' v by (simp add: or_top_bit algebra_simps)
qed

lemma half_cong:
  fixes x y h a m :: int
  assumes "odd m" "(2 * y) mod m = x mod m" "(x * a) mod m = (2 * h) mod m"
  shows "(y * a) mod m = h mod m"
proof -
  have "(2 * (y * a)) mod m = (x * a) mod m"
    using mod_mult_cong [OF assms(2) refl, of a] by (simp add: mult.assoc)
  then have "m dvd 2 * (y * a - h)" using assms(3) by (simp add: mod_eq_dvd_iff right_diff_distrib)
  moreover have "coprime m 2" using assms(1) by (simp add: coprime_right_2_iff_odd)
  ultimately have "m dvd y * a - h" by (simp only: coprime_dvd_mult_right_iff)
  then show ?thesis by (simp only: mod_eq_dvd_iff)
qed

context modulus_pair begin

lemma add_and_divide:
  assumes "length x = 8" "length z = 8" "bn_val x < M" "odd (bn_val x)"
  shows "\<exists>w. fieldAddAndDivide x m r z = Some w \<and> length w = 8 \<and> bn_val w = (bn_val x + M) div 2"
proof -
  define s where "s = bn_val x + M"
  have s: "0 \<le> s" "s < 2 * base_pow 8"
    using bn_val_8_less [OF assms(1)] M_le assms(3) bn_val_nonneg [of x] bn_val_nonneg [of "take 8 m"]
    by (simp_all add: s_def del: bn_val_nonneg)
  define w where "w = bn_of 8 (s mod base_pow 8 div 2)"
  have run: "rshift (bn_of 8 s) = Some w"
    by (simp add: rshift_val w_def)
  have lt: "s mod base_pow 8 div 2 < 2 ^ 255" by simp
  have w: "length w = 8" "bn_val w = s mod base_pow 8 div 2"
    by (simp_all add: w_def)
  show ?thesis
  proof (cases "base_pow 8 \<le> s")
    case False
    with s w show ?thesis
      using assms m_len carry_iff [OF s] run
      by (auto simp: fieldAddAndDivide_def add_at_val Let_def s_def [symmetric])
  next
    case True
    define w1 where "w1 = w[7 := w ! 7 OR 0x80000000]"
    have v: "bn_val w1 = s mod base_pow 8 div 2 + 2 ^ 255"
      unfolding w1_def w(2) [symmetric] using w lt by (intro set_top_bit) simp_all
    have "s mod base_pow 8 = s - base_pow 8"
      using True s by (simp add: int_mod_pos_eq [where q = 1])
    with v have v1: "bn_val w1 = s div 2" by simp
    have "s div 2 < M" using assms(3) by (simp add: s_def)
    with v1 have "isGreater w1 m 8 = Some (- 1)"
      using m_len w by (simp add: isGreater_val w1_def)
    with True s w v1 show ?thesis
      using assms m_len carry_iff [OF s] run
      by (auto simp: fieldAddAndDivide_def add_at_val Let_def s_def [symmetric] w1_def)
  qed
qed

lemma inv_halve_val:
  assumes "length u = 8" "0 < bn_val u" "length x = 8" "bn_val x < M"
    and "(bn_val x * a) mod M = bn_val u mod M"
  shows "\<exists>u' x'. inv_halve u x m r = Some (u', x') \<and> length u' = 8 \<and> length x' = 8 \<and> odd (bn_val u') \<and>
    0 < bn_val u' \<and> bn_val u' \<le> bn_val u \<and> bn_val u' dvd bn_val u \<and> bn_val x' < M \<and>
    (bn_val x' * a) mod M = bn_val u' mod M"
  using assms
proof (induction "nat (bn_val u)" arbitrary: u x rule: less_induct)
  case less
  have ne: "u \<noteq> []" "x \<noteq> []" using less.prems by auto
  show ?case
  proof (cases "even (bn_val u)")
    case False
    then have "inv_halve u x m r = Some (u, x)"
      using ne less.prems by (subst inv_halve.simps) (simp add: low_bit)
    then show ?thesis using False less.prems by (intro exI [of _ u] exI [of _ x]) simp
  next
    case True
    define u1 where "u1 = bn_of 8 (bn_val u div 2)"
    have u1: "length u1 = 8" "bn_val u = 2 * bn_val u1"
      using True bn_val_8_less [OF less.prems(1)] by (auto simp: u1_def)
    obtain x1 where x1: "(if x ! 0 AND 1 = 0 then rshift x
        else do { tempm \<leftarrow> fieldAddAndDivide x m r (replicate 8 0); copy tempm x 8 }) = Some x1"
      "length x1 = 8" "bn_val x1 < M" "(2 * bn_val x1) mod M = bn_val x mod M"
    proof (cases "even (bn_val x)")
      case True
      then have "2 * bn_val (bn_of 8 (bn_val x div 2)) = bn_val x"
        using bn_val_8_less [OF less.prems(3)] by simp
      moreover from this have "bn_val (bn_of 8 (bn_val x div 2)) < M"
        using less.prems(4) bn_val_nonneg [of "bn_of 8 (bn_val x div 2)"] by linarith
      ultimately show ?thesis
        using True ne less.prems that [of "bn_of 8 (bn_val x div 2)"]
        by (simp add: low_bit rshift_val del: bn_val_bn_of)
    next
      case False
      obtain w where w: "fieldAddAndDivide x m r (replicate 8 0) = Some w" "length w = 8"
          "bn_val w = (bn_val x + M) div 2"
        using add_and_divide [of x "replicate 8 0"] less.prems False by auto
      have "2 * bn_val w = bn_val x + M" using False m_odd w(3) by simp
      then show ?thesis
        using that [of w] w less.prems False ne by (simp add: low_bit copy_val)
    qed
    have "(bn_val x * a) mod M = (2 * bn_val u1) mod M" using less.prems(5) u1(2) by simp
    then have c: "(bn_val x1 * a) mod M = bn_val u1 mod M"
      by (rule half_cong [OF m_odd x1(4)])
    have pos: "0 < bn_val u1" using less.prems(2) u1(2) by simp
    then have "nat (bn_val u1) < nat (bn_val u)" using u1(2) by simp
    from less.hyps [OF this u1(1) pos x1(2,3) c] obtain u' x' where
      "inv_halve u1 x1 m r = Some (u', x')" and rest: "length u' = 8" "length x' = 8" "odd (bn_val u')"
        "0 < bn_val u'" "bn_val u' \<le> bn_val u1" "bn_val u' dvd bn_val u1" "bn_val x' < M"
        "(bn_val x' * a) mod M = bn_val u' mod M" by blast
    moreover have "inv_halve u x m r = inv_halve u1 x1 m r"
      using True ne less.prems x1(1) by (subst inv_halve.simps) (simp add: low_bit rshift_val u1_def)
    ultimately show ?thesis using u1(2) by (intro exI [of _ u'] exI [of _ x']) auto
  qed
qed

lemma inv_subtract_val:
  assumes len: "length u = 8" "length v = 8" "length x1 = 8" "length x2 = 8"
    and red: "bn_val x1 < M" "bn_val x2 < M"
    and pos: "0 < bn_val u" "0 < bn_val v"
    and c1: "(bn_val x1 * a) mod M = bn_val u mod M"
    and c2: "(bn_val x2 * a) mod M = bn_val v mod M"
    and cop: "coprime (bn_val u) (bn_val v)"
  shows "\<exists>u' v' y1 y2. inv_subtract u v x1 x2 m = Some (u', v', y1, y2) \<and>
    length u' = 8 \<and> length v' = 8 \<and> length y1 = 8 \<and> length y2 = 8 \<and> bn_val y1 < M \<and> bn_val y2 < M \<and>
    (bn_val y1 * a) mod M = bn_val u' mod M \<and> (bn_val y2 * a) mod M = bn_val v' mod M \<and>
    coprime (bn_val u') (bn_val v') \<and> bn_val u' + bn_val v' < bn_val u + bn_val v"
proof (cases "bn_val u < bn_val v")
  case False
  define u' where "u' = bn_of 8 (bn_val u - bn_val v)"
  have u': "length u' = 8" "bn_val u' = bn_val u - bn_val v"
    using False bn_val_8_less [OF len(1)] pos(2) by (simp_all add: u'_def)
  obtain y where y: "fieldSub x1 x2 m u' = Some y" "length y = 8" "bn_val y = (bn_val x1 - bn_val x2) mod M"
    using sub_reduced [of x1 x2 u'] len red u'(1) by auto
  have "((bn_val x1 - bn_val x2) * a) mod M = (bn_val u - bn_val v) mod M"
    using mod_diff_cong [OF c1 c2] by (simp add: left_diff_distrib)
  then have "(bn_val y * a) mod M = bn_val u' mod M"
    by (simp add: y(3) u'(2) mod_mult_left_eq)
  moreover have "coprime (bn_val u') (bn_val v)"
    using cop by (simp add: u'(2) coprime_iff_gcd_eq_1 gcd_diff1)
  moreover have "bn_val y < M" using m_gt by (simp add: y(3))
  moreover have "inv_subtract u v x1 x2 m = Some (u', v, y, x2)"
    using False len y(1,2) by (simp add: inv_subtract_def sub_val copy_val Let_def u'_def)
  ultimately show ?thesis using len red pos u' y(2) c2 by (intro exI conjI) (assumption | simp)+
next
  case True
  define v' where "v' = bn_of 8 (bn_val v - bn_val u)"
  have v': "length v' = 8" "bn_val v' = bn_val v - bn_val u"
    using True bn_val_8_less [OF len(2)] pos(1) by (simp_all add: v'_def)
  obtain y where y: "fieldSub x2 x1 m v' = Some y" "length y = 8" "bn_val y = (bn_val x2 - bn_val x1) mod M"
    using sub_reduced [of x2 x1 v'] len red v'(1) by auto
  have "((bn_val x2 - bn_val x1) * a) mod M = (bn_val v - bn_val u) mod M"
    using mod_diff_cong [OF c2 c1] by (simp add: left_diff_distrib)
  then have "(bn_val y * a) mod M = bn_val v' mod M"
    by (simp add: y(3) v'(2) mod_mult_left_eq)
  moreover have "coprime (bn_val u) (bn_val v')"
    using coprime_commute [THEN iffD1, OF cop]
    by (subst coprime_commute) (simp add: v'(2) coprime_iff_gcd_eq_1 gcd_diff1)
  moreover have "bn_val y < M" using m_gt by (simp add: y(3))
  moreover have "inv_subtract u v x1 x2 m = Some (u, v', x1, y)"
    using True len y(1,2) by (simp add: inv_subtract_def sub_val copy_val Let_def v'_def)
  ultimately show ?thesis using len red pos v' y(2) c1 by (intro exI conjI) (assumption | simp)+
qed

lemma inv_loop_val:
  assumes "length u = 8" "length v = 8" "length x1 = 8" "length x2 = 8"
    and "bn_val x1 < M" "bn_val x2 < M"
    and "(bn_val x1 * a) mod M = bn_val u mod M" "(bn_val x2 * a) mod M = bn_val v mod M"
    and "coprime (bn_val u) (bn_val v)"
  shows "\<exists>u' y1 y2. inv_loop u v x1 x2 m r = Some (u', y1, y2) \<and> length u' = 8 \<and>
    length y1 = 8 \<and> length y2 = 8 \<and> bn_val y1 < M \<and> bn_val y2 < M \<and>
    (bn_val u' = 1 \<longrightarrow> (bn_val y1 * a) mod M = 1) \<and> (bn_val u' \<noteq> 1 \<longrightarrow> (bn_val y2 * a) mod M = 1)"
  using assms
proof (induction "nat (bn_val u + bn_val v)" arbitrary: u v x1 x2 rule: less_induct)
  case less
  have one: "1 mod M = 1" using m_gt by simp
  show ?case
  proof (cases "bn_val u = 1 \<or> bn_val v = 1")
    case True
    then have "inv_loop u v x1 x2 m r = Some (u, x1, x2)"
      using less.prems by (subst inv_loop.simps) (auto simp: isOne_val)
    with True less.prems one show ?thesis by (intro exI [of _ u] exI [of _ x1] exI [of _ x2]) auto
  next
    case False
    have "bn_val u \<noteq> 0" "bn_val v \<noteq> 0" using less.prems(9) False by auto
    then have pos: "0 < bn_val u" "0 < bn_val v" by (simp_all add: order_less_le)
    obtain u1 y1 where h1: "inv_halve u x1 m r = Some (u1, y1)" "length u1 = 8" "length y1 = 8"
      "0 < bn_val u1" "bn_val u1 \<le> bn_val u" "bn_val u1 dvd bn_val u" "bn_val y1 < M"
      "(bn_val y1 * a) mod M = bn_val u1 mod M"
      using inv_halve_val [of u x1 a] less.prems pos by blast
    obtain v1 y2 where h2: "inv_halve v x2 m r = Some (v1, y2)" "length v1 = 8" "length y2 = 8"
      "0 < bn_val v1" "bn_val v1 \<le> bn_val v" "bn_val v1 dvd bn_val v" "bn_val y2 < M"
      "(bn_val y2 * a) mod M = bn_val v1 mod M"
      using inv_halve_val [of v x2 a] less.prems pos by blast
    have "coprime (bn_val u1) (bn_val v1)"
      using coprime_divisors [OF h1(6) h2(6) less.prems(9)] .
    then obtain u' v' z1 z2 where s: "inv_subtract u1 v1 y1 y2 m = Some (u', v', z1, z2)"
      "length u' = 8" "length v' = 8" "length z1 = 8" "length z2 = 8" "bn_val z1 < M" "bn_val z2 < M"
      "(bn_val z1 * a) mod M = bn_val u' mod M" "(bn_val z2 * a) mod M = bn_val v' mod M"
      "coprime (bn_val u') (bn_val v')" "bn_val u' + bn_val v' < bn_val u1 + bn_val v1"
      using inv_subtract_val [OF h1(2) h2(2) h1(3) h2(3) h1(7) h2(7) h1(4) h2(4) h1(8) h2(8)] by blast
    have "inv_loop u v x1 x2 m r = inv_loop u' v' z1 z2 m r"
      using False less.prems h1(1) h2(1) s(1) by (subst inv_loop.simps) (auto simp: isOne_val)
    moreover have "nat (bn_val u' + bn_val v') < nat (bn_val u + bn_val v)"
      using s(11) h1(5) h2(5) pos by linarith
    ultimately show ?thesis using less.hyps [OF _ s(2-10)] by simp
  qed
qed

lemma inv_val:
  assumes "length A = 8" "8 \<le> length B" "coprime (bn_val A) M"
  shows "\<exists>w. fieldInv A m r B = Some (w @ drop 8 B) \<and> length w = 8 \<and> bn_val w < M \<and> (bn_val w * bn_val A) mod M = 1"
proof -
  define x1 where "x1 = (replicate 8 (0 :: u32))[0 := 1]"
  have x1: "length x1 = 8" "bn_val x1 = 1" by (simp_all add: x1_def numeral_eq_Suc)
  obtain u' y1 y2 where l: "inv_loop A (take 8 m) x1 (replicate 8 0) m r = Some (u', y1, y2)"
    "length u' = 8" "length y1 = 8" "length y2 = 8" "bn_val y1 < M" "bn_val y2 < M"
    "bn_val u' = 1 \<longrightarrow> (bn_val y1 * bn_val A) mod M = 1" "bn_val u' \<noteq> 1 \<longrightarrow> (bn_val y2 * bn_val A) mod M = 1"
    using inv_loop_val [of A "take 8 m" x1 "replicate 8 0" "bn_val A"] assms m_len m_gt x1 by auto
  show ?thesis
  proof (cases "bn_val u' = 1")
    case True
    with l assms m_len show ?thesis
      by (intro exI [of _ y1]) (simp add: fieldInv_def copy_val setZero_val isOne_val x1_def)
  next
    case False
    with l assms m_len show ?thesis
      by (intro exI [of _ y2]) (simp add: fieldInv_def copy_val setZero_val isOne_val x1_def)
  qed
qed

end

text \<open>Zero has no inverse, and the code does not notice: the loop that halves \<open>u = 0\<close> never ends.\<close>

lemma inv_halve_zero: "inv_halve (replicate 8 0) x m r = None"
proof -
  have "u \<noteq> replicate 8 0" if run: "inv_halve u x m r = Some res" for u x m r res
  proof (rule inv_halve.raw_induct [where P = "\<lambda>u x m r res. u \<noteq> replicate 8 0"
      and xa = "(((u, x), m), r)" and y = res, unfolded prod.case], goal_cases)
    case (1 f u x m r res)
    from 1(2) show ?case
      by (auto simp: rshift_val bind_eq_Some_conv dest!: 1(1))
  qed (use run in simp)
  then show ?thesis by fastforce
qed

lemma inv_diverges:
  assumes "8 \<le> length m" "bn_val (take 8 m) \<noteq> 1" "length B = 8"
  shows "fieldInv (replicate 8 0) m r B = None"
proof -
  have "inv_loop (replicate 8 0) (take 8 m) x1 x2 m r = None" for x1 x2
    using assms by (subst inv_loop.simps) (simp add: isOne_val inv_halve_zero)
  then show ?thesis using assms by (simp add: fieldInv_def copy_val setZero_val)
qed

section \<open>Barrett reduction\<close>

lemma barrett_bounds:
  fixes a n mu p q :: int
  assumes a: "0 \<le> a" "a < p * q" and n: "0 < n" "p < n" and p: "0 < p" "0 < q"
    and mu: "mu * n \<le> p * q" "p * q < (mu + 1) * n"
  defines "t \<equiv> (mu * (a div p)) div q"
  shows "0 \<le> t" "t * n \<le> a" "a < (t + 3) * n"
proof -
  define u where "u = a div p"
  have u: "u * p \<le> a" "a < u * p + p" "0 \<le> u"
  proof -
    have "u * p + a mod p = a" "0 \<le> a mod p" "a mod p < p" using p by (simp_all add: u_def)
    then show "u * p \<le> a" "a < u * p + p" by linarith+
    show "0 \<le> u" using a(1) p(1) by (simp add: u_def pos_imp_zdiv_nonneg_iff)
  qed
  have pq: "0 < p * q" using p by simp
  have "0 < (mu + 1) * n" using mu(2) pq by linarith
  then have mu0: "0 \<le> mu" using n(1) by (simp add: zero_less_mult_iff)
  have t: "t * q \<le> mu * u" "mu * u < t * q + q"
  proof -
    have "t * q + (mu * u) mod q = mu * u" "0 \<le> (mu * u) mod q" "(mu * u) mod q < q"
      using p by (simp_all add: t_def u_def)
    then show "t * q \<le> mu * u" "mu * u < t * q + q" by linarith+
  qed
  show t0: "0 \<le> t" using mu0 u(3) p by (simp add: t_def u_def [symmetric] pos_imp_zdiv_nonneg_iff)
  have "(t * n) * (p * q) = (t * q) * (n * p)" by (simp add: algebra_simps)
  also have "\<dots> \<le> (mu * u) * (n * p)" using t(1) n p by (intro mult_right_mono) auto
  also have "\<dots> = (mu * n) * (u * p)" by (simp add: algebra_simps)
  also have "\<dots> \<le> (p * q) * a"
  proof (rule mult_mono [OF mu(1) u(1)])
    show "0 \<le> p * q" using pq by linarith
    show "0 \<le> u * p" using u(3) p(1) by simp
  qed
  finally have "(t * n) * (p * q) \<le> a * (p * q)" by (simp add: mult.commute)
  then show "t * n \<le> a" using pq by (rule mult_right_le_imp_le)
  show "a < (t + 3) * n"
  proof (cases "n \<le> p * q")
    case False
    with a have "a < n" by simp
    also have "n \<le> (t + 3) * n" using t0 n by simp
    finally show ?thesis .
  next
    case True
    have "(p * q - n) * (a - p) \<le> (p * q - n) * (u * p)"
      using True u by (intro mult_left_mono) auto
    also have "\<dots> \<le> (mu * n) * (u * p)"
      using mu(2) u p by (intro mult_right_mono) (auto simp: algebra_simps)
    also have "\<dots> = (mu * u) * (n * p)" by (simp add: algebra_simps)
    also have "\<dots> \<le> (t * q + q) * (n * p)" using t(2) n p by (intro mult_right_mono) auto
    finally have 1: "(p * q - n) * (a - p) \<le> (t * q + q) * (n * p)" .
    have 2: "(p * q) * p < (p * q) * n" by (rule mult_strict_left_mono [OF n(2) pq])
    have 3: "n * a < n * (p * q)" by (rule mult_strict_left_mono [OF a(2) n(1)])
    have 4: "0 < n * p" using n p by simp
    have "a * (p * q) < (t + 3) * n * (p * q)"
      using 1 2 3 4 by (simp add: algebra_simps)
    then show ?thesis using pq by (simp only: mult_less_cancel_right_pos)
  qed
qed

lemma order_facts: "0 < order_n" "base_pow 7 < order_n" "3 * order_n < base_pow 9" "order_n < base_pow 8"
  by (simp_all add: order_n_def)

lemma mu_bounds:
  "base_pow 16 div order_n * order_n \<le> base_pow 7 * base_pow 9"
  "base_pow 7 * base_pow 9 < (base_pow 16 div order_n + 1) * order_n"
  by (simp_all add: order_n_def)

lemma mu_val: "bn_val ecc_order_mu = base_pow 16 div order_n" "length ecc_order_mu = 9" "take 9 ecc_order_mu = ecc_order_mu"
  by (simp_all add: ecc_order_mu_def order_n_def)

lemma modO_loop_val:
  "length w = 9 \<Longrightarrow> modO_loop (w @ d) = Some (bn_of 9 (bn_val w mod order_n) @ d)"
proof (induction "nat (bn_val w)" arbitrary: w rule: less_induct)
  case less
  show ?case
  proof (cases "bn_val w < order_n")
    case True
    then show ?thesis using less.prems bn_of_bn_val [of w 9]
      by (subst modO_loop.simps) (simp add: isGreater_val sgn_if)
  next
    case False
    define w1 where "w1 = bn_of 9 (bn_val w - order_n)"
    have b: "bn_val w < base_pow 9" using bn_val_less [of w] less.prems by simp
    have w1: "length w1 = 9" "bn_val w1 = bn_val w - order_n"
      using b False order_facts(1) by (simp_all add: w1_def)
    have "modO_loop (w @ d) = modO_loop (w1 @ d)"
      using False less.prems by (subst modO_loop.simps) (simp add: isGreater_val sgn_if sub_val Let_def w1_def)
    also have "\<dots> = Some (bn_of 9 (bn_val w1 mod order_n) @ d)"
      using False order_facts(1) w1 by (intro less.hyps) auto
    finally show ?thesis by (simp add: w1(2))
  qed
qed

lemma fieldModO_val:
  assumes len: "9 \<le> L" "L \<le> 16" "L \<le> length (opnd A result)" "9 \<le> length result"
    and q: "bn_val (take L (opnd A result)) div order_n < base_pow 8"
  shows "fieldModO A result L =
    Some (bn_of 9 (bn_val (take L (opnd A result)) mod order_n) @ drop 9 result)"
proof -
  define a where "a = bn_val (take L (opnd A result))"
  define t where "t = (base_pow 16 div order_n * (a div base_pow 7)) div base_pow 9"
  have "a < base_pow L" using bn_val_less [of "take L (opnd A result)"] len by (simp add: a_def)
  also have "\<dots> \<le> base_pow 16" using len(2) by (intro power_increasing) auto
  also have "base_pow 16 = base_pow 7 * base_pow 9" by simp
  finally have a: "a < base_pow 7 * base_pow 9" .
  have a0: "0 \<le> a" by (simp add: a_def)

  have t: "0 \<le> t" "t * order_n \<le> a" "a < (t + 3) * order_n"
    unfolding t_def
    by (rule barrett_bounds [OF a0 a order_facts(1,2) _ _ mu_bounds]; simp)+
  have "t \<le> a div order_n" using t(2) order_facts(1) zdiv_mono1 [OF t(2) order_facts(1)] by simp
  then have t8: "t < base_pow 8" using q by (simp add: a_def)

  define w where "w = bn_of 9 (a - t * order_n)"
  have w: "bn_val w = a - t * order_n" "length w = 9"
  proof -
    have "0 \<le> a - t * order_n" "a - t * order_n < base_pow 9"
      using t(2,3) order_facts(3) by (auto simp: algebra_simps)
    then show "bn_val w = a - t * order_n" by (simp add: w_def)
  qed (simp add: w_def)
  define q1 where "q1 = bn_of 9 (a div base_pow 7)"
  have q1: "bn_val q1 = a div base_pow 7" "length q1 = 9"
  proof -
    have "a div base_pow 7 < base_pow 9" "0 \<le> a div base_pow 7"
      using a a0 by (auto simp: div_less_iff_less_mult pos_imp_zdiv_nonneg_iff mult.commute)
    then show "bn_val q1 = a div base_pow 7" by (simp add: q1_def)
  qed (simp add: q1_def)
  have r1: "rshiftby (opnd A result) L (replicate 9 0) 9 (ecc_order_k - 1) = Some q1"
    using len by (simp add: rshiftby_val ecc_order_k_def q1_def flip: a_def)
  define q2 where "q2 = bn_of 18 (base_pow 16 div order_n * bn_val q1)"
  have r2: "fieldMult ecc_order_mu q1 (replicate 18 0) 9 = Some q2"
    using q1(2) mu_val by (simp add: fieldMult_val q2_def)

  have q2: "bn_val q2 = base_pow 16 div order_n * (a div base_pow 7)" "length q2 = 18"
  proof -
    have "bn_val ecc_order_mu * bn_val q1 < base_pow 9 * base_pow 9"
      using bn_val_less [of ecc_order_mu] bn_val_less [of q1] q1(2) mu_val(2)
      by (intro mult_strict_mono) auto
    then have "base_pow 16 div order_n * bn_val q1 < base_pow 18" by (simp only: mu_val(1)) simp
    moreover have "0 \<le> base_pow 16 div order_n * bn_val q1"
      using mult_nonneg_nonneg [OF bn_val_nonneg [of ecc_order_mu] bn_val_nonneg [of q1]]
      by (simp only: mu_val(1))
    ultimately show "bn_val q2 = base_pow 16 div order_n * (a div base_pow 7)"
      unfolding q2_def bn_val_bn_of q1(1) [symmetric] by (intro mod_pos_pos_trivial)
  qed (simp add: q2_def)
  define q3 where "q3 = bn_of 8 t @ drop 8 q1"
  have r3: "rshiftby q2 18 q1 8 (ecc_order_k + 1) = Some q3"
    using q1(2) q2 by (simp add: rshiftby_val ecc_order_k_def q3_def t_def)
  have t3: "bn_val (bn_of 8 t) = t" unfolding bn_val_bn_of using t(1) t8 by (intro mod_pos_pos_trivial)
  have m8: "bn_val (take 8 ecc_order_m) = order_n" by (simp add: ecc_order_m_def order_n_def)
  have r4: "fieldMult q3 ecc_order_m q2 8 = Some (bn_of 16 (t * order_n) @ drop 16 q2)"
    using q1(2) q2(2) t3 m8 by (simp add: fieldMult_val q3_def ecc_order_m_def)
  have r5: "sub A (Arr (bn_of 16 (t * order_n) @ drop 16 q2)) result 9 =
      Some (if a mod base_pow 9 < t * order_n mod base_pow 9 then 1 else 0, w @ drop 9 result)"
  proof -
    have take9: "bn_val (take 9 (opnd A result)) = a mod base_pow 9"
    proof -
      have "bn_val (take 9 (take L (opnd A result))) = a mod base_pow 9"
        using len by (subst bn_val_take) (simp_all add: a_def)
      then show ?thesis using len by (simp add: min_def)
    qed
    have prod9: "bn_val (take 9 (bn_of 16 (t * order_n) @ drop 16 q2)) = t * order_n mod base_pow 9"
      using mod_mod_cancel [of "base_pow 9" "base_pow 16" "t * order_n"] by (simp add: bn_val_take le_imp_power_dvd)
    have "bn_of 9 (a mod base_pow 9 - t * order_n mod base_pow 9) = w"
      unfolding w_def by (rule bn_of_cong) (simp only: mod_simps)
    with take9 prod9 len q2(2) show ?thesis by (simp add: sub_val Let_def)
  qed
  have r6: "modO_loop (w @ drop 9 result) = Some (bn_of 9 (a mod order_n) @ drop 9 result)"
    using modO_loop_val [OF w(2)] w(1) by (simp add: mod_diff_eq [symmetric])
  show ?thesis
    using len(1) r1 r2 r3 r4 r5 r6 by (simp add: fieldModO_def flip: a_def)
qed

text \<open>With eight words the routine only compares, and returns the argument when it does not exceed the order.\<close>

lemma fieldModO_8_small:
  assumes "8 \<le> length (opnd A result)" "8 \<le> length result"
    and "bn_val (take 8 (opnd A result)) \<le> order_n"
  shows "fieldModO A result 8 = Some (take 8 (opnd A result) @ drop 8 result)"
  using assms by (cases A) (auto simp: fieldModO_def isGreater_val ecc_order_m_def order_n_def sgn_if copy_val)


lemma sub_loop_short:
  "v \<le> length xs \<Longrightarrow> length xs < v + n \<Longrightarrow> sub_loop n v (Arr xs) y r d = None"
proof (induction n arbitrary: v r d)
  case (Suc n)
  show ?case
  proof (cases "v = length xs")
    case False
    then have "sub_loop n (Suc v) (Arr xs) y r' d' = None" for r' d'
      using Suc.prems by (intro Suc.IH) auto
    then show ?thesis by (simp add: Let_def split: Option.bind_split)
  qed (simp add: rd_out)
qed simp

lemma sub_short: "length xs < n \<Longrightarrow> sub (Arr xs) y r n = None"
  by (simp add: sub_def sub_loop_short)

lemma fieldModO_8_large:
  assumes "length a = 8" "8 \<le> length result" "order_n < bn_val a"
  shows "fieldModO (Arr a) result 8 = None"
  using assms
  by (auto simp: fieldModO_def isGreater_val ecc_order_m_def order_n_def sgn_if sub_short split: Option.bind_split)
end
