(* ===== verification/Curve.thy ===== *)
theory Curve
  imports Field_Laws
begin

text \<open>
  Points of secp256r1 in affine coordinates, scalar multiplication and ECDSA:
  \<open>ec_double\<close>, \<open>ec_add\<close>, \<open>ecc_ec_mult\<close>, \<open>ecc_ecdsa_sign\<close>, \<open>ecc_ecdsa_validate\<close> and
  \<open>ecc_is_valid_key\<close> of \<open>arduino/libraries/Dtls/ecc/ecc.c\<close>. The point at infinity is the pair of
  zeros. \<open>None\<close> is an access out of bounds or a call that does not return.
\<close>

section \<open>Definitions\<close>

definition ecc_g_point_x :: "u32 list" where
  "ecc_g_point_x = [0xD898C296, 0xF4A13945, 0x2DEB33A0, 0x77037D81,
                    0x63A440F2, 0xF8BCE6E5, 0xE12C4247, 0x6B17D1F2]"

definition ecc_g_point_y :: "u32 list" where
  "ecc_g_point_y = [0x37BF51F5, 0xCBB64068, 0x6B315ECE, 0x2BCE3357,
                    0x7C0F9E16, 0x8EE7EB4A, 0xFE1A7F9B, 0x4FE342E2]"

type_synonym point = "u32 list \<times> u32 list"

text \<open>The test \<open>isZero (px) && isZero (py)\<close>.\<close>

definition is_infinity :: "u32 list \<Rightarrow> u32 list \<Rightarrow> bool option" where
  "is_infinity px py = do { a \<leftarrow> isZero px; if a then isZero py else Some False }"

definition ec_double :: "u32 list \<Rightarrow> u32 list \<Rightarrow> u32 list \<Rightarrow> u32 list \<Rightarrow> point option" where
  "ec_double px py Dx Dy = do {
     inf \<leftarrow> is_infinity px py;
     if inf then do { Dx \<leftarrow> copy px Dx 8; Dy \<leftarrow> copy py Dy 8; Some (Dx, Dy) }
     else do {
       tempD \<leftarrow> fieldMult px px (replicate 16 0) 8;
       tempA \<leftarrow> fieldModP (replicate 8 0) tempD;
       tempB \<leftarrow> setZero (replicate 8 0) 8;
       tempB \<leftarrow> wr tempB 0 0x00000001;
       tempC \<leftarrow> fieldSub tempA tempB ecc_prime_m (replicate 8 0);
       tempB \<leftarrow> wr tempB 0 0x00000003;
       tempD \<leftarrow> fieldMult tempC tempB tempD 8;
       tempA \<leftarrow> fieldModP tempA tempD;
       tempB \<leftarrow> fieldAdd py py ecc_prime_r tempB;
       tempC \<leftarrow> fieldInv tempB ecc_prime_m ecc_prime_r tempC;
       tempD \<leftarrow> fieldMult tempA tempC tempD 8;
       tempB \<leftarrow> fieldModP tempB tempD;
       tempD \<leftarrow> fieldMult tempB tempB tempD 8;
       tempC \<leftarrow> fieldModP tempC tempD;
       tempA \<leftarrow> fieldSub tempC px ecc_prime_m tempA;
       Dx \<leftarrow> fieldSub tempA px ecc_prime_m Dx;
       tempA \<leftarrow> fieldSub px Dx ecc_prime_m tempA;
       tempD \<leftarrow> fieldMult tempB tempA tempD 8;
       tempC \<leftarrow> fieldModP tempC tempD;
       Dy \<leftarrow> fieldSub tempC py ecc_prime_m Dy;
       Some (Dx, Dy)
     }
   }"

definition ec_add ::
  "u32 list \<Rightarrow> u32 list \<Rightarrow> u32 list \<Rightarrow> u32 list \<Rightarrow> u32 list \<Rightarrow> u32 list \<Rightarrow> point option" where
  "ec_add px py qx qy Sx Sy = do {
     pinf \<leftarrow> is_infinity px py;
     qinf \<leftarrow> (if pinf then Some False else is_infinity qx qy);
     if pinf then do { Sx \<leftarrow> copy qx Sx 8; Sy \<leftarrow> copy qy Sy 8; Some (Sx, Sy) }
     else if qinf then do { Sx \<leftarrow> copy px Sx 8; Sy \<leftarrow> copy py Sy 8; Some (Sx, Sy) }
     else do {
       same_x \<leftarrow> isSame px qx 8;
       if same_x then do {
         same_y \<leftarrow> isSame py qy 8;
         if \<not> same_y then do { Sx \<leftarrow> setZero Sx 8; Sy \<leftarrow> setZero Sy 8; Some (Sx, Sy) }
         else ec_double px py Sx Sy
       } else do {
         tempA \<leftarrow> fieldSub py qy ecc_prime_m (replicate 8 0);
         tempB \<leftarrow> fieldSub px qx ecc_prime_m (replicate 8 0);
         tempB \<leftarrow> fieldInv tempB ecc_prime_m ecc_prime_r tempB;
         tempD \<leftarrow> fieldMult tempA tempB (replicate 16 0) 8;
         tempC \<leftarrow> fieldModP (replicate 8 0) tempD;
         tempD \<leftarrow> fieldMult tempC tempC tempD 8;
         tempA \<leftarrow> fieldModP tempA tempD;
         tempB \<leftarrow> fieldSub tempA px ecc_prime_m tempB;
         Sx \<leftarrow> fieldSub tempB qx ecc_prime_m Sx;
         tempB \<leftarrow> fieldSub qx Sx ecc_prime_m tempB;
         tempD \<leftarrow> fieldMult tempC tempB tempD 8;
         tempC \<leftarrow> fieldModP tempC tempD;
         Sy \<leftarrow> fieldSub tempC qy ecc_prime_m Sy;
         Some (Sx, Sy)
       }
     }
   }"

text \<open>
  The loop \<open>for (i = 256; i--;)\<close>: \<open>mult_loop (Suc i)\<close> runs the body with the index \<open>i\<close>. The state
  is \<open>(Qx, Qy, tempx, tempy)\<close>.
\<close>

fun mult_loop ::
  "nat \<Rightarrow> u32 list \<Rightarrow> u32 list \<Rightarrow> u32 list \<Rightarrow> u32 list \<Rightarrow> u32 list \<Rightarrow> u32 list \<Rightarrow> u32 list \<Rightarrow> point option" where
  "mult_loop 0 px py secret Qx Qy tempx tempy = Some (Qx, Qy)"
| "mult_loop (Suc i) px py secret Qx Qy tempx tempy = do {
     (tempx, tempy) \<leftarrow> ec_double Qx Qy tempx tempy;
     Qx \<leftarrow> copy tempx Qx 8;
     Qy \<leftarrow> copy tempy Qy 8;
     w \<leftarrow> rd secret (i div 32);
     if w AND push_bit (i mod 32) 1 \<noteq> 0 then do {
       (tempx, tempy) \<leftarrow> ec_add Qx Qy px py tempx tempy;
       Qx \<leftarrow> copy tempx Qx 8;
       Qy \<leftarrow> copy tempy Qy 8;
       mult_loop i px py secret Qx Qy tempx tempy
     } else mult_loop i px py secret Qx Qy tempx tempy
   }"

definition ecc_ec_mult ::
  "u32 list \<Rightarrow> u32 list \<Rightarrow> u32 list \<Rightarrow> u32 list \<Rightarrow> u32 list \<Rightarrow> point option" where
  "ecc_ec_mult px py secret resultx resulty = do {
     Qx \<leftarrow> setZero (replicate 8 0) 8;
     Qy \<leftarrow> setZero (replicate 8 0) 8;
     (Qx, Qy) \<leftarrow> mult_loop 256 px py secret Qx Qy (replicate 8 0) (replicate 8 0);
     resultx \<leftarrow> copy Qx resultx 8;
     resulty \<leftarrow> copy Qy resulty 8;
     Some (resultx, resulty)
   }"

text \<open>The result is the return value with the arrays \<open>r\<close> and \<open>s\<close>.\<close>

definition ecc_ecdsa_sign ::
  "u32 list \<Rightarrow> u32 list \<Rightarrow> u32 list \<Rightarrow> u32 list \<Rightarrow> u32 list \<Rightarrow> (int \<times> u32 list \<times> u32 list) option" where
  "ecc_ecdsa_sign d e k r s = do {
     kz \<leftarrow> isZero k;
     if kz then Some (- 1, r, s)
     else do {
       (r, tmp1) \<leftarrow> ecc_ec_mult ecc_g_point_x ecc_g_point_y k r (replicate 16 0);
       r \<leftarrow> fieldModO Res r 8;
       rz \<leftarrow> isZero r;
       if rz then Some (- 1, r, s)
       else do {
         tmp1 \<leftarrow> fieldMult r d tmp1 8;
         tmp2 \<leftarrow> fieldModO (Arr tmp1) (replicate 9 0) 16;
         (c, tmp1) \<leftarrow> add (Arr e) (Arr tmp2) tmp1 8;
         tmp1 \<leftarrow> wr tmp1 8 c;
         tmp3 \<leftarrow> fieldModO (Arr tmp1) (replicate 9 0) 9;
         tmp2 \<leftarrow> fieldInv k ecc_order_m ecc_order_r tmp2;
         tmp1 \<leftarrow> fieldMult tmp2 tmp3 tmp1 8;
         s \<leftarrow> fieldModO (Arr tmp1) s 16;
         sz \<leftarrow> isZero s;
         if sz then Some (- 1, r, s) else Some (0, r, s)
       }
     }
   }"

definition ecc_ecdsa_validate ::
  "u32 list \<Rightarrow> u32 list \<Rightarrow> u32 list \<Rightarrow> u32 list \<Rightarrow> u32 list \<Rightarrow> int option" where
  "ecc_ecdsa_validate x y e r s = do {
     w \<leftarrow> fieldInv s ecc_order_m ecc_order_r (replicate 8 0);
     tmp \<leftarrow> fieldMult e w (replicate 16 0) 8;
     u1 \<leftarrow> fieldModO (Arr tmp) (replicate 9 0) 16;
     tmp \<leftarrow> fieldMult r w tmp 8;
     u2 \<leftarrow> fieldModO (Arr tmp) (replicate 9 0) 16;
     (tmp1_x, tmp1_y) \<leftarrow> ecc_ec_mult ecc_g_point_x ecc_g_point_y u1 (replicate 8 0) (replicate 8 0);
     (tmp2_x, tmp2_y) \<leftarrow> ecc_ec_mult x y u2 (replicate 8 0) (replicate 8 0);
     (tmp3_x, tmp3_y) \<leftarrow> ec_add tmp1_x tmp1_y tmp2_x tmp2_y (replicate 8 0) (replicate 8 0);
     same \<leftarrow> isSame tmp3_x r 8;
     Some (if same then 0 else - 1)
   }"

definition ecc_is_valid_key :: "u32 list \<Rightarrow> bool option" where
  "ecc_is_valid_key priv_key = do {
     g \<leftarrow> isGreater ecc_order_m priv_key 8;
     Some (g = 1)
   }"

section \<open>Points\<close>

lemma is_infinity_val:
  "length px = 8 \<Longrightarrow> length py = 8 \<Longrightarrow> is_infinity px py = Some (bn_val px = 0 \<and> bn_val py = 0)"
  by (simp add: is_infinity_def isZero_val)

lemma ec_double_infinity:
  "length Dx = 8 \<Longrightarrow> length Dy = 8 \<Longrightarrow>
   ec_double (replicate 8 0) (replicate 8 0) Dx Dy = Some (replicate 8 0, replicate 8 0)"
  by (simp add: ec_double_def is_infinity_val copy_val)


text \<open>Every array of eight words stays one; the old contents of a result array do not matter.\<close>

definition ok8 :: "u32 list option \<Rightarrow> bool" where
  "ok8 m \<longleftrightarrow> (\<exists>w. m = Some w \<and> length w = 8)"

lemma ok8_bind: "ok8 m \<Longrightarrow> (\<And>w. length w = 8 \<Longrightarrow> ok8 (k w)) \<Longrightarrow> ok8 (m \<bind> k)"
  by (auto simp: ok8_def)

lemma ok8_ops:
  "length x = 8 \<Longrightarrow> length y = 8 \<Longrightarrow> length z = 8 \<Longrightarrow> ok8 (fieldAdd x y ecc_prime_r z)"
  "length x = 8 \<Longrightarrow> length y = 8 \<Longrightarrow> length z = 8 \<Longrightarrow> ok8 (fieldSub x y ecc_prime_m z)"
  by (simp_all add: ok8_def fieldAdd_val fieldSub_val prime.r_len)

lemma ok8_reduce:
  assumes "length A = 8" "length t = 8"
  shows "ok8 (isGreater A ecc_prime_m 8 \<bind> (\<lambda>g. if 0 \<le> g
     then fieldSub A ecc_prime_m ecc_prime_m t \<bind> (\<lambda>t. copy t A 8) else Some A))"
  using assms by (simp add: isGreater_val fieldSub_val copy_val ok8_def)

lemma ok8_fieldModP:
  assumes "length A = 8" "length B = 16"
  shows "ok8 (fieldModP A B)"
  unfolding fieldModP_unfold [OF assms] using assms
  by (intro ok8_bind ok8_ops ok8_reduce) simp_all

lemma fieldModP_target:
  "length A = 8 \<Longrightarrow> length A' = 8 \<Longrightarrow> length B = 16 \<Longrightarrow> fieldModP A B = fieldModP A' B"
  by (simp add: fieldModP_unfold)

lemma fieldSub_target:
  "length x = 8 \<Longrightarrow> length y = 8 \<Longrightarrow> 8 \<le> length m \<Longrightarrow> length z = 8 \<Longrightarrow> length z' = 8 \<Longrightarrow>
   fieldSub x y m z = fieldSub x y m z'"
  by (simp add: fieldSub_val)

lemma ok8_len: "m = Some w \<Longrightarrow> ok8 m \<Longrightarrow> length w = 8"
  by (auto simp: ok8_def)

lemma fieldInv_len:
  assumes "fieldInv A m r B = Some w" "length B = 8"
  shows "length w = 8"
  using assms
  by (auto simp: fieldInv_def bind_eq_Some_conv copy_def memcpy_def split: if_splits)

text \<open>
  Congruences that walk through a sequence of field operations and keep only the lengths.
\<close>

lemma bind_fieldMult:
  assumes "length x = 8" "length y = 8" "length t = 16" "\<And>w. length w = 16 \<Longrightarrow> f w = g w"
  shows "(fieldMult x y t 8 \<bind> f) = (fieldMult x y t 8 \<bind> g)"
  using assms by (simp add: fieldMult_val)

lemma bind_ok8: "ok8 m \<Longrightarrow> (\<And>w. length w = 8 \<Longrightarrow> f w = g w) \<Longrightarrow> (m \<bind> f) = (m \<bind> g)"
  by (auto simp: ok8_def)

lemma bind_fieldSub:
  assumes "length x = 8" "length y = 8" "length z = 8" "length z' = 8" "\<And>w. length w = 8 \<Longrightarrow> f w = g w"
  shows "(fieldSub x y ecc_prime_m z \<bind> f) = (fieldSub x y ecc_prime_m z' \<bind> g)"
  using assms by (simp add: fieldSub_val)

lemma bind_fieldInv:
  assumes "length B = 8" "\<And>w. length w = 8 \<Longrightarrow> f w = g w"
  shows "(fieldInv A m r B \<bind> f) = (fieldInv A m r B \<bind> g)"
  using assms by (cases "fieldInv A m r B") (auto dest: fieldInv_len)

lemma bind_wr:
  assumes "length x = 8" "\<And>w. length w = 8 \<Longrightarrow> f w = g w"
  shows "(wr x 0 v \<bind> f) = (wr x 0 v \<bind> g)"
  using assms by simp

lemma ok8_setZero: "length x = 8 \<Longrightarrow> ok8 (setZero x 8)"
  by (simp add: setZero_val ok8_def)

lemmas bind_steps = bind_fieldMult bind_fieldSub bind_fieldInv bind_wr
  bind_ok8 [OF ok8_setZero] bind_ok8 [OF ok8_fieldModP] bind_ok8 [OF ok8_ops(1)]

lemma ec_double_target:
  assumes "length px = 8" "length py = 8" "length Dx = 8" "length Dy = 8"
  shows "ec_double px py Dx Dy = ec_double px py (replicate 8 0) (replicate 8 0)"
proof (cases "bn_val px = 0 \<and> bn_val py = 0")
  case True
  then show ?thesis using assms by (simp add: ec_double_def is_infinity_val copy_val)
next
  case False
  show ?thesis unfolding ec_double_def
    by (simp only: is_infinity_val [OF assms(1,2)] False bind.bind_lunit if_False)
      (intro bind_steps refl; simp add: assms)
qed


lemma ec_add_target:
  assumes "length px = 8" "length py = 8" "length qx = 8" "length qy = 8" "length Sx = 8" "length Sy = 8"
  shows "ec_add px py qx qy Sx Sy = ec_add px py qx qy (replicate 8 0) (replicate 8 0)"
proof -
  have dbl: "ec_double px py Sx Sy = ec_double px py (replicate 8 0) (replicate 8 0)"
    using assms by (intro ec_double_target)
  consider "bn_val px = 0 \<and> bn_val py = 0 \<or> bn_val qx = 0 \<and> bn_val qy = 0 \<or> bn_val px = bn_val qx"
    | "\<not> (bn_val px = 0 \<and> bn_val py = 0)" "\<not> (bn_val qx = 0 \<and> bn_val qy = 0)" "bn_val px \<noteq> bn_val qx"
    by blast
  then show ?thesis
  proof cases
    case 1
    then show ?thesis
      using assms dbl by (auto simp: ec_add_def is_infinity_val copy_val isSame_val setZero_val)
  next
    case 2
    have same: "isSame px qx 8 = Some False" using assms 2(3) by (simp add: isSame_val)
    show ?thesis unfolding ec_add_def
      by (simp only: is_infinity_val [OF assms(1,2)] is_infinity_val [OF assms(3,4)] 2(1,2) same
            bind.bind_lunit if_False)
        (intro bind_steps refl; simp add: assms)
  qed
qed

text \<open>A point that a routine returns consists of two arrays of eight words.\<close>

abbreviation point8 :: "point \<Rightarrow> point option" where
  "point8 \<equiv> (\<lambda>(x, y). if length x = 8 \<and> length y = 8 then Some (x, y) else None)"

lemma point8_len: "m = (m \<bind> point8) \<Longrightarrow> m = Some (x, y) \<Longrightarrow> length x = 8 \<and> length y = 8"
  by (auto split: if_splits)

lemma ec_double_len:
  assumes "ec_double px py Dx Dy = Some (x, y)"
    and "length px = 8" "length py = 8" "length Dx = 8" "length Dy = 8"
  shows "length x = 8 \<and> length y = 8"
proof (rule point8_len [OF _ assms(1)], cases "bn_val px = 0 \<and> bn_val py = 0")
  case True
  then show "ec_double px py Dx Dy = (ec_double px py Dx Dy \<bind> point8)"
    using assms by (simp add: ec_double_def is_infinity_val copy_val)
next
  case False
  show "ec_double px py Dx Dy = (ec_double px py Dx Dy \<bind> point8)" unfolding ec_double_def
    by (simp only: is_infinity_val [OF assms(2,3)] False bind.bind_lunit if_False Option.bind_assoc)
      (intro bind_steps refl; simp add: assms)
qed

lemma ec_add_len:
  assumes "ec_add px py qx qy Sx Sy = Some (x, y)"
    and "length px = 8" "length py = 8" "length qx = 8" "length qy = 8" "length Sx = 8" "length Sy = 8"
  shows "length x = 8 \<and> length y = 8"
proof -
  consider "bn_val px = 0 \<and> bn_val py = 0 \<or> bn_val qx = 0 \<and> bn_val qy = 0 \<or> bn_val px = bn_val qx"
    | "\<not> (bn_val px = 0 \<and> bn_val py = 0)" "\<not> (bn_val qx = 0 \<and> bn_val qy = 0)" "bn_val px \<noteq> bn_val qx"
    by blast
  then show ?thesis
  proof cases
    case 1
    then show ?thesis
      using assms ec_double_len [of px py Sx Sy x y]
      by (auto simp: ec_add_def is_infinity_val copy_val isSame_val setZero_val split: if_splits)
  next
    case 2
    have same: "isSame px qx 8 = Some False" using assms 2(3) by (simp add: isSame_val)
    show ?thesis
      by (rule point8_len [OF _ assms(1)], unfold ec_add_def,
          simp only: is_infinity_val [OF assms(2,3)] is_infinity_val [OF assms(4,5)] 2(1,2) same
            bind.bind_lunit if_False Option.bind_assoc)
        (intro bind_steps refl; simp add: assms)
  qed
qed

section \<open>Scalar multiplication\<close>

text \<open>Double-and-add on the number itself: the specification of the loop over the 256 bits.\<close>

definition dbl :: "point \<Rightarrow> point option" where
  "dbl = (\<lambda>(x, y). ec_double x y (replicate 8 0) (replicate 8 0))"

definition plus_point :: "point \<Rightarrow> point \<Rightarrow> point option" where
  "plus_point = (\<lambda>(x, y) (px, py). ec_add x y px py (replicate 8 0) (replicate 8 0))"

fun scalar_mult :: "nat \<Rightarrow> point \<Rightarrow> point option" where
  "scalar_mult k P = (if k = 0 then Some (replicate 8 0, replicate 8 0)
    else do {
      Q \<leftarrow> scalar_mult (k div 2) P;
      Q \<leftarrow> dbl Q;
      if odd k then plus_point Q P else Some Q
    })"

declare scalar_mult.simps [simp del]

lemma scalar_mult_len:
  "scalar_mult k P = Some (x, y) \<Longrightarrow> length (fst P) = 8 \<Longrightarrow> length (snd P) = 8 \<Longrightarrow> length x = 8 \<and> length y = 8"
proof (induction k P arbitrary: x y rule: scalar_mult.induct)
  case (1 k P)
  show ?case
  proof (cases "k = 0")
    case True
    with 1 show ?thesis by (auto simp: scalar_mult.simps)
  next
    case False
    obtain u v where uv: "scalar_mult (k div 2) P = Some (u, v)"
      using 1(2) False by (subst (asm) scalar_mult.simps) (auto simp: bind_eq_Some_conv)
    then have len: "length u = 8 \<and> length v = 8" using 1 False by blast
    obtain a b where ab: "dbl (u, v) = Some (a, b)"
      using 1(2) False uv by (subst (asm) scalar_mult.simps) (auto simp: bind_eq_Some_conv)
    then have "length a = 8 \<and> length b = 8" using len ec_double_len [of u v _ _ a b] by (auto simp: dbl_def)
    then show ?thesis
      using 1(2-4) False uv ab ec_add_len [of a b "fst P" "snd P" _ _ x y]
      by (subst (asm) scalar_mult.simps) (auto simp: plus_point_def split: if_splits prod.splits)
  qed
qed

lemma scalar_mult_step:
  "(do { Q \<leftarrow> scalar_mult k P; Q \<leftarrow> dbl Q; if b then plus_point Q P else Some Q }) =
   scalar_mult (2 * k + of_bool b) P"
proof (cases "k = 0 \<and> \<not> b")
  case True
  then show ?thesis by (simp add: scalar_mult.simps dbl_def ec_double_infinity)
next
  case False
  have "(2 * k + of_bool b) div 2 = k" "odd (2 * k + of_bool b) = b" "2 * k + of_bool b \<noteq> (0::nat)"
    using False by (auto simp: of_bool_def)
  then show ?thesis by (subst (2) scalar_mult.simps) (simp only: if_False)
qed

lemma scalar_mult_prefix: "scalar_mult (n div 2 ^ i) P = None \<Longrightarrow> scalar_mult n P = None"
proof (induction i)
  case (Suc i)
  show ?case
  proof (cases "n div 2 ^ i = 0")
    case True
    then have "n div 2 ^ Suc i = 0" by (auto simp: div_eq_0_iff)
    with Suc.prems show ?thesis by (simp only: scalar_mult.simps [of 0] simp_thms if_True) simp
  next
    case False
    have "n div 2 ^ i div 2 = n div 2 ^ Suc i" by (simp add: div_mult2_eq [symmetric] mult.commute)
    with Suc.prems have "scalar_mult (n div 2 ^ i div 2) P = None" by simp
    with False have "scalar_mult (n div 2 ^ i) P = None" by (subst scalar_mult.simps) simp
    then show ?thesis by (rule Suc.IH)
  qed
qed simp


lemma bit_bn_val_Cons:
  "bit (bn_val (w # ws)) i = (if i < 32 then bit w i else bit (bn_val ws) (i - 32))"
proof -
  have x: "take_bit 32 (bn_val (w # ws)) = uint w" "drop_bit 32 (bn_val (w # ws)) = bn_val ws"
    using uint32_less [of w] by (simp_all add: take_bit_eq_mod drop_bit_eq_div)
  show ?thesis
  proof (cases "i < 32")
    case True
    then show ?thesis using bit_take_bit_iff [of 32 "bn_val (w # ws)" i]
      by (simp only: x(1) bit_uint_iff) simp
  next
    case False
    then show ?thesis using bit_drop_bit_eq [of 32 "bn_val (w # ws)"]
      by (simp only: x(2) fun_eq_iff comp_def) simp
  qed
qed

lemma bit_bn_val: "i < 32 * length ws \<Longrightarrow> bit (bn_val ws) i = bit (ws ! (i div 32)) (i mod 32)"
proof (induction ws arbitrary: i)
  case (Cons w ws)
  show ?case
  proof (cases "i < 32")
    case False
    then have "i div 32 = Suc ((i - 32) div 32)" "i mod 32 = (i - 32) mod 32"
      by (simp_all add: le_div_geq le_mod_geq)
    with Cons False show ?thesis by (simp only: bit_bn_val_Cons if_False) simp
  qed (simp add: bit_bn_val_Cons del: bn_val.simps)
qed simp

lemma and_push_bit_1: "i < 32 \<Longrightarrow> w AND push_bit i 1 \<noteq> 0 \<longleftrightarrow> bit (w :: u32) i"
  by (simp add: push_bit_eq_mult and_exp_eq_0_iff_not_bit)

lemma mult_loop_val:
  assumes "length px = 8" "length py = 8" "8 \<le> length secret" "i \<le> 256"
    and "length Qx = 8" "length Qy = 8" "length tx = 8" "length ty = 8"
    and "scalar_mult (nat (bn_val (take 8 secret)) div 2 ^ i) (px, py) = Some (Qx, Qy)"
  shows "mult_loop i px py secret Qx Qy tx ty = scalar_mult (nat (bn_val (take 8 secret))) (px, py)"
  using assms
proof (induction i arbitrary: Qx Qy tx ty)
  case 0
  then show ?case by simp
next
  case (Suc i)
  define n where "n = nat (bn_val (take 8 secret))"
  define b where "b = bit (secret ! (i div 32)) (i mod 32)"
  have b: "b = odd (n div 2 ^ i)"
  proof -
    have "b = bit (bn_val (take 8 secret)) i" using Suc.prems by (simp add: b_def bit_bn_val)
    also have "\<dots> = bit (int n) i" by (simp add: n_def)
    also have "\<dots> = bit n i" by (simp add: bit_of_nat_iff)
    finally show ?thesis by (simp only: bit_iff_odd)
  qed
  have "n div 2 ^ i div 2 = n div 2 ^ Suc i" by (simp add: div_mult2_eq [symmetric] mult.commute)
  then have k: "2 * (n div 2 ^ Suc i) + of_bool b = n div 2 ^ i"
    using b by (metis add.commute mod_mult_div_eq odd_iff_mod_2_eq_one of_bool_def mod2_eq_if)
  have step: "scalar_mult (n div 2 ^ i) (px, py) =
      (do { Q \<leftarrow> dbl (Qx, Qy); if b then plus_point Q (px, py) else Some Q })"
    using scalar_mult_step [of "n div 2 ^ Suc i" "(px, py)" b] Suc.prems(9)
    by (simp only: k n_def [symmetric] bind.bind_lunit)
  have dbl: "ec_double Qx Qy tx ty = dbl (Qx, Qy)"
    using ec_double_target [of Qx Qy tx ty] Suc.prems by (simp add: dbl_def)
  have w: "rd secret (i div 32) = Some (secret ! (i div 32))"
    using Suc.prems by simp
  have and_bit: "secret ! (i div 32) AND push_bit (i mod 32) 1 \<noteq> 0 \<longleftrightarrow> b"
    unfolding b_def by (rule and_push_bit_1) simp
  show ?case
  proof (cases "dbl (Qx, Qy)")
    case None
    with step have "scalar_mult n (px, py) = None" by (intro scalar_mult_prefix [of n i]) simp
    with None show ?thesis by (simp add: dbl n_def)
  next
    case (Some D)
    obtain Dx Dy where D: "D = (Dx, Dy)" by fastforce
    have lenD: "length Dx = 8 \<and> length Dy = 8"
      using ec_double_len [of Qx Qy "replicate 8 0" "replicate 8 0" Dx Dy] Some D Suc.prems
      by (simp add: dbl_def)
    show ?thesis
    proof (cases b)
      case False
      then have "mult_loop i px py secret Dx Dy Dx Dy = scalar_mult n (px, py)"
        unfolding n_def using Suc.prems lenD Some D step by (intro Suc.IH) (simp_all add: n_def)
      then show ?thesis
        using False Some D dbl lenD w and_bit Suc.prems by (simp add: copy_val n_def)
    next
      case True
      have add: "ec_add Dx Dy px py Dx Dy = plus_point (Dx, Dy) (px, py)"
        using ec_add_target [of Dx Dy px py Dx Dy] lenD Suc.prems by (simp add: plus_point_def)
      show ?thesis
      proof (cases "plus_point (Dx, Dy) (px, py)")
        case None
        with step Some D True have "scalar_mult n (px, py) = None" by (intro scalar_mult_prefix [of n i]) simp
        with None Some D dbl add True w and_bit lenD Suc.prems show ?thesis by (simp add: copy_val n_def)
      next
        case S: (Some S)
        obtain Sx Sy where S': "S = (Sx, Sy)" by fastforce
        have lenS: "length Sx = 8 \<and> length Sy = 8"
          using ec_add_len [of Dx Dy px py Dx Dy Sx Sy] S S' add lenD Suc.prems by simp
        have "mult_loop i px py secret Sx Sy Sx Sy = scalar_mult n (px, py)"
          unfolding n_def using Suc.prems lenS Some D step S S' True by (intro Suc.IH) (simp_all add: n_def)
        then show ?thesis
          using True Some D S S' dbl add lenD lenS w and_bit Suc.prems by (simp add: copy_val n_def)
      qed
    qed
  qed
qed

lemma ec_mult_val:
  assumes "length px = 8" "length py = 8" "8 \<le> length secret" "8 \<le> length rx" "8 \<le> length ry"
  shows "ecc_ec_mult px py secret rx ry =
    map_option (\<lambda>(x, y). (x @ drop 8 rx, y @ drop 8 ry)) (scalar_mult (nat (bn_val (take 8 secret))) (px, py))"
proof -
  have "bn_val (take 8 secret) < 2 ^ 256"
    using bn_val_8_less [of "take 8 secret"] assms(3) by simp
  then have "nat (bn_val (take 8 secret)) < 2 ^ 256" by simp
  then have "nat (bn_val (take 8 secret)) div 2 ^ 256 = 0" by (rule div_less)
  then have run: "mult_loop 256 px py secret (replicate 8 0) (replicate 8 0) (replicate 8 0) (replicate 8 0) =
      scalar_mult (nat (bn_val (take 8 secret))) (px, py)"
    using assms by (intro mult_loop_val) (simp_all add: scalar_mult.simps)
  show ?thesis
  proof (cases "scalar_mult (nat (bn_val (take 8 secret))) (px, py)")
    case None
    then show ?thesis by (simp add: ecc_ec_mult_def setZero_val run)
  next
    case (Some Q)
    obtain x y where "Q = (x, y)" by fastforce
    then show ?thesis
      using Some assms scalar_mult_len [of _ "(px, py)" x y]
      by (simp add: ecc_ec_mult_def setZero_val run copy_val)
  qed
qed

section \<open>The group law on coordinates\<close>

text \<open>Reduced integers, and the field operations on their arrays.\<close>

definition red :: "int \<Rightarrow> bool" where
  "red a \<longleftrightarrow> 0 \<le> a \<and> a < prime_p"

lemma red_mod [simp]: "red (a mod prime_p)"
  by (simp add: red_def prime_p_def)

lemma red_bounds: "red a \<Longrightarrow> 0 \<le> a" "red a \<Longrightarrow> a < prime_p" "red a \<Longrightarrow> a < base_pow 8"
  by (auto simp: red_def prime_p_def)

lemma red_bn_val: "red a \<Longrightarrow> bn_val (bn_of 8 a) = a"
  using red_bounds [of a] by simp

lemma red_bn_of: "length x = 8 \<Longrightarrow> bn_val x < prime_p \<Longrightarrow> red (bn_val x) \<and> bn_of 8 (bn_val x) = x"
  by (simp add: red_def bn_of_bn_val)

lemma fieldMult_red:
  "red a \<Longrightarrow> red b \<Longrightarrow> length t = 16 \<Longrightarrow> fieldMult (bn_of 8 a) (bn_of 8 b) t 8 = Some (bn_of 16 (a * b))"
  by (simp add: fieldMult_val red_bn_val del: bn_val_bn_of)

lemma fieldModP_red:
  assumes "red a" "red b" "length z = 8" "modp_safe (bn_of 16 (a * b))"
  shows "fieldModP z (bn_of 16 (a * b)) = Some (bn_of 8 ((a * b) mod prime_p))"
proof -
  have "a * b < base_pow 8 * base_pow 8"
    using red_bounds [OF assms(1)] red_bounds [OF assms(2)] by (intro mult_strict_mono) auto
  then have "bn_val (bn_of 16 (a * b)) = a * b"
    using red_bounds(1) [OF assms(1)] red_bounds(1) [OF assms(2)] by simp
  then show ?thesis using assms fieldModP_val [of z "bn_of 16 (a * b)"] by simp
qed

lemma fieldSub_red:
  assumes "red a" "red b" "length z = 8"
  shows "fieldSub (bn_of 8 a) (bn_of 8 b) ecc_prime_m z = Some (bn_of 8 ((a - b) mod prime_p))"
proof -
  obtain w where w: "fieldSub (bn_of 8 a) (bn_of 8 b) ecc_prime_m z = Some w" "length w = 8"
      "bn_val w = (a - b) mod prime_p"
    using prime.sub_reduced [of "bn_of 8 a" "bn_of 8 b" z] assms
    by (auto simp: red_bn_val red_bounds simp del: bn_val_bn_of)
  with bn_of_bn_val [of w 8] show ?thesis by simp
qed

lemma fieldInv_red:
  assumes "length A = 8" "length B = 8" "red i" "(i * bn_val A) mod prime_p = 1"
  shows "fieldInv A ecc_prime_m ecc_prime_r B = Some (bn_of 8 i)"
proof -
  have "coprime (bn_val A) prime_p"
    using assms(4) by (metis coprime_1_left coprime_mod_left_iff coprime_mult_left_iff
      less_irrefl prime.m_gt bn_val_prime(1,2) zero_less_one order.strict_trans)
  then obtain w where w: "fieldInv A ecc_prime_m ecc_prime_r B = Some w" "length w = 8"
      "bn_val w < prime_p" "(bn_val w * bn_val A) mod prime_p = 1"
    using prime.inv_val [of A B] assms(1,2) by auto
  have "bn_val w = (bn_val w * (i * bn_val A)) mod prime_p"
    using assms(4) w(3) by (metis bn_val_nonneg mod_mult_right_eq mod_pos_pos_trivial mult.right_neutral)
  also have "\<dots> = (i * (bn_val w * bn_val A)) mod prime_p" by (simp add: mult.left_commute)
  also have "\<dots> = i"
    using w(4) assms(3) by (metis mod_mult_right_eq mod_pos_pos_trivial mult.right_neutral red_def)
  finally show ?thesis using w bn_of_bn_val [of w 8] by simp
qed


lemma small_words:
  "wr (replicate 8 (0 :: u32)) 0 1 = Some (bn_of 8 1)" "wr (bn_of 8 1 :: u32 list) 0 3 = Some (bn_of 8 3)"
  "red 1" "red 3"
  by (simp_all add: numeral_eq_Suc red_def prime_p_def)

text \<open>
  The tangent and the chord formulas of the curve \<open>y^2 = x^3 - 3 x + b\<close> on reduced coordinates.
  The argument \<open>i\<close> is the inverse of the denominator of the slope.
\<close>

definition tangent_slope :: "int \<Rightarrow> int \<Rightarrow> int" where
  "tangent_slope X i = (((X * X mod prime_p - 1) mod prime_p * 3) mod prime_p * i) mod prime_p"

definition chord_slope :: "int \<Rightarrow> int \<Rightarrow> int \<Rightarrow> int" where
  "chord_slope Y1 Y2 i = ((Y1 - Y2) mod prime_p * i) mod prime_p"

definition third_x :: "int \<Rightarrow> int \<Rightarrow> int \<Rightarrow> int" where
  "third_x l X1 X2 = ((l * l mod prime_p - X1) mod prime_p - X2) mod prime_p"

definition third_y :: "int \<Rightarrow> int \<Rightarrow> int \<Rightarrow> int \<Rightarrow> int" where
  "third_y l X1 Y1 X3 = ((l * ((X1 - X3) mod prime_p)) mod prime_p - Y1) mod prime_p"

text \<open>No product of the computation makes \<open>fieldModP\<close> lose a carry.\<close>

definition double_safe :: "int \<Rightarrow> int \<Rightarrow> bool" where
  "double_safe X i = (let l = tangent_slope X i; c = (X * X mod prime_p - 1) mod prime_p in
     list_all (\<lambda>z. modp_safe (bn_of 16 z))
       [X * X, c * 3, (c * 3) mod prime_p * i, l * l, l * ((X - third_x l X X) mod prime_p)])"

definition add_safe :: "int \<Rightarrow> int \<Rightarrow> int \<Rightarrow> int \<Rightarrow> int \<Rightarrow> bool" where
  "add_safe X1 Y1 X2 Y2 i = (let l = chord_slope Y1 Y2 i in
     list_all (\<lambda>z. modp_safe (bn_of 16 z))
       [(Y1 - Y2) mod prime_p * i, l * l, l * ((X2 - third_x l X1 X2) mod prime_p)])"

lemma ec_double_val:
  assumes "red X" "red Y" "X \<noteq> 0 \<or> Y \<noteq> 0" "length Dx = 8" "length Dy = 8"
    and "red i" "(i * (2 * Y)) mod prime_p = 1" "double_safe X i"
  defines "l \<equiv> tangent_slope X i"
  shows "ec_double (bn_of 8 X) (bn_of 8 Y) Dx Dy =
    Some (bn_of 8 (third_x l X X), bn_of 8 (third_y l X Y (third_x l X X)))"
proof -
  have inf: "is_infinity (bn_of 8 X) (bn_of 8 Y) = Some False"
    using assms(1-3) by (simp add: is_infinity_val red_bn_val del: bn_val_bn_of)
  obtain y2 where y2: "fieldAdd (bn_of 8 Y) (bn_of 8 Y) ecc_prime_r (bn_of 8 3) = Some y2" "length y2 = 8"
      "bn_val y2 mod prime_p = (Y + Y) mod prime_p"
    using prime.add_exact [of "bn_of 8 Y" "bn_of 8 Y" "bn_of 8 3"] assms(2)
    by (auto simp: red_bn_val red_def simp del: bn_val_bn_of)
  have "(i * bn_val y2) mod prime_p = (i * (Y + Y)) mod prime_p"
    by (rule mod_mult_cong [OF refl y2(3)])
  then have i: "fieldInv y2 ecc_prime_m ecc_prime_r B = Some (bn_of 8 i)" if "length B = 8" for B
    using assms(6,7) y2(2) that by (intro fieldInv_red) simp_all
  have l: "red l" by (simp add: l_def tangent_slope_def)
  have x3: "red (third_x l X X)" by (simp add: third_x_def)
  show ?thesis
    using assms(1-6) assms(8) l x3
    unfolding ec_double_def inf bind.bind_lunit if_False double_safe_def Let_def l_def [symmetric]
    by (simp add: fieldMult_red fieldModP_red fieldSub_red small_words y2 i setZero_val
        tangent_slope_def [of X i, folded l_def, symmetric] third_x_def [symmetric] third_y_def [symmetric])
qed


lemma ec_add_val:
  assumes "red X1" "red Y1" "red X2" "red Y2" "X1 \<noteq> 0 \<or> Y1 \<noteq> 0" "X2 \<noteq> 0 \<or> Y2 \<noteq> 0" "X1 \<noteq> X2"
    and "length Sx = 8" "length Sy = 8"
    and "red i" "(i * (X1 - X2)) mod prime_p = 1" "add_safe X1 Y1 X2 Y2 i"
  defines "l \<equiv> chord_slope Y1 Y2 i"
  shows "ec_add (bn_of 8 X1) (bn_of 8 Y1) (bn_of 8 X2) (bn_of 8 Y2) Sx Sy =
    Some (bn_of 8 (third_x l X1 X2), bn_of 8 (third_y l X2 Y2 (third_x l X1 X2)))"
proof -
  have inf: "is_infinity (bn_of 8 X1) (bn_of 8 Y1) = Some False" "is_infinity (bn_of 8 X2) (bn_of 8 Y2) = Some False"
    using assms(1-6) by (simp_all add: is_infinity_val red_bn_val del: bn_val_bn_of)
  have same: "isSame (bn_of 8 X1) (bn_of 8 X2) 8 = Some False"
    using assms(1,3,7) by (simp add: isSame_val red_bn_val del: bn_val_bn_of)
  have "(i * bn_val (bn_of 8 ((X1 - X2) mod prime_p))) mod prime_p = 1"
    using assms(11) by (simp add: red_bn_val mod_mult_right_eq del: bn_val_bn_of)
  then have i: "fieldInv (bn_of 8 ((X1 - X2) mod prime_p)) ecc_prime_m ecc_prime_r B = Some (bn_of 8 i)"
    if "length B = 8" for B
    using assms(10) that by (intro fieldInv_red) simp_all
  have l: "red l" by (simp add: l_def chord_slope_def)
  have x3: "red (third_x l X1 X2)" by (simp add: third_x_def)
  show ?thesis
    using assms(1-4,8-10,12) l x3
    unfolding ec_add_def inf same bind.bind_lunit if_False add_safe_def Let_def l_def [symmetric]
    by (simp add: fieldMult_red fieldModP_red fieldSub_red i
        chord_slope_def [of Y1 Y2 i, folded l_def, symmetric] third_x_def [symmetric] third_y_def [symmetric])
qed

section \<open>Special points\<close>

lemma scalar_mult_1: "length x = 8 \<Longrightarrow> length y = 8 \<Longrightarrow> scalar_mult 1 (x, y) = Some (x, y)"
  by (simp add: scalar_mult.simps dbl_def ec_double_infinity plus_point_def ec_add_def is_infinity_val copy_val)

lemma ec_add_opposite:
  assumes "length px = 8" "length py = 8" "length qy = 8" "length Sx = 8" "length Sy = 8"
    and "py \<noteq> qy" "bn_val px \<noteq> 0"
  shows "ec_add px py px qy Sx Sy = Some (replicate 8 0, replicate 8 0)"
proof -
  have "bn_val py \<noteq> bn_val qy" using assms(2,3,6) bn_val_inject [of py qy] by auto
  then show ?thesis using assms by (simp add: ec_add_def is_infinity_val isSame_val setZero_val)
qed

section \<open>Signatures\<close>

lemma sign_zero_nonce: "length k = 8 \<Longrightarrow> bn_val k = 0 \<Longrightarrow> ecc_ecdsa_sign d e k r s = Some (- 1, r, s)"
  by (simp add: ecc_ecdsa_sign_def isZero_val)

lemma validate_zero_s:
  assumes "length s = 8" "bn_val s = 0"
  shows "ecc_ecdsa_validate x y e r s = None"
proof -
  have "s = replicate 8 0" using assms bn_of_bn_val [of s 8] by simp
  moreover have "fieldInv (replicate 8 0) ecc_order_m ecc_order_r (replicate 8 0) = None"
    by (rule inv_diverges) (simp_all add: order_n_def)
  ultimately show ?thesis by (simp add: ecc_ecdsa_validate_def)
qed

lemma is_valid_key_val:
  "length k = 8 \<Longrightarrow> ecc_is_valid_key k = Some (bn_val k < order_n)"
  by (simp add: ecc_is_valid_key_def isGreater_val sgn_if)

text \<open>Products of numbers below \<open>2 ^ 256\<close> and below the order are small enough for \<open>fieldModO\<close>.\<close>

lemma int_div_less: "0 < n \<Longrightarrow> a < n * b \<Longrightarrow> a div n < b" for a b n :: int
proof (rule ccontr)
  assume n: "0 < n" and lt: "a < n * b" and "\<not> a div n < b"
  then have "n * b \<le> n * (a div n)" by (intro mult_left_mono) auto
  moreover have "n * (a div n) + a mod n = a" by simp
  moreover have "0 \<le> a mod n" using n by simp
  ultimately show False using lt by linarith
qed

lemma order_reduce_product:
  assumes "length x = 8" "length y = 8" "bn_val x < order_n \<or> bn_val y < order_n" "length t = 16" "9 \<le> length z"
  shows "\<exists>p. fieldMult x y t 8 = Some p \<and> length p = 16 \<and>
    fieldModO (Arr p) z 16 = Some (bn_of 9 ((bn_val x * bn_val y) mod order_n) @ drop 9 z)"
proof -
  define p where "p = bn_of 16 (bn_val x * bn_val y)"
  have lt: "bn_val x * bn_val y < order_n * base_pow 8"
  proof -
    have b: "bn_val x < base_pow 8" "bn_val y < base_pow 8" "0 < order_n"
      using bn_val_8_less [OF assms(1)] bn_val_8_less [OF assms(2)] by (simp_all add: order_n_def)
    from assms(3) show ?thesis
    proof
      assume "bn_val x < order_n"
      then show ?thesis using b by (intro mult_strict_mono) auto
    next
      assume "bn_val y < order_n"
      then have "bn_val y * bn_val x < order_n * base_pow 8" using b by (intro mult_strict_mono) auto
      then show ?thesis by (simp only: mult.commute)
    qed
  qed
  have "order_n * base_pow 8 < base_pow 16" by (simp add: order_n_def)
  with lt have v: "bn_val p = bn_val x * bn_val y" by (simp add: p_def)
  have "bn_val p div order_n < base_pow 8"
    unfolding v using order_facts(1) lt by (rule int_div_less)
  then have "fieldModO (Arr p) z 16 = Some (bn_of 9 (bn_val p mod order_n) @ drop 9 z)"
    using fieldModO_val [of 16 "Arr p" z] assms(5) by (simp add: p_def)
  moreover have "fieldMult x y t 8 = Some p" using assms by (simp add: fieldMult_val p_def)
  moreover have "length p = 16" by (simp add: p_def)
  ultimately show ?thesis unfolding v by blast
qed

lemma order_reduced_words:
  "bn_val (bn_of 9 (a mod order_n)) = a mod order_n" "bn_val (take 8 (bn_of 9 (a mod order_n))) = a mod order_n"
proof -
  have "0 \<le> a mod order_n" "a mod order_n < base_pow 8" "a mod order_n < base_pow 9"
    using pos_mod_bound [of order_n a] order_facts by (simp_all add: order_n_def)
  then show "bn_val (bn_of 9 (a mod order_n)) = a mod order_n"
    "bn_val (take 8 (bn_of 9 (a mod order_n))) = a mod order_n"
    by (simp_all add: bn_val_take)
qed


text \<open>
  The equation of ECDSA: the pair that \<open>ecc_ecdsa_sign\<close> returns satisfies
  \<open>s * k = e + r * d\<close> modulo the order, where \<open>r\<close> is the first coordinate of \<open>k * G\<close>.
\<close>

lemma ecdsa_sign_val:
  assumes len: "length d = 8" "length e = 8" "length k = 8" "length r = 9" "length s = 9"
    and k: "bn_val k \<noteq> 0" "coprime (bn_val k) order_n"
    and pt: "scalar_mult (nat (bn_val k)) (ecc_g_point_x, ecc_g_point_y) = Some (x1, y1)"
    and x1: "0 < bn_val x1" "bn_val x1 < order_n"
  shows "\<exists>s'. ecc_ecdsa_sign d e k r s = Some (if bn_val s' = 0 then - 1 else 0, x1 @ drop 8 r, s') \<and>
    length s' = 9 \<and> bn_val s' < order_n \<and> (bn_val s' * bn_val k) mod order_n = (bn_val e + bn_val x1 * bn_val d) mod order_n"
proof -
  have lenG: "length ecc_g_point_x = 8" "length ecc_g_point_y = 8"
    by (simp_all add: ecc_g_point_x_def ecc_g_point_y_def)
  have len1: "length x1 = 8" "length y1 = 8"
    using scalar_mult_len [OF pt] lenG by auto
  have mult: "ecc_ec_mult ecc_g_point_x ecc_g_point_y k r (replicate 16 0) =
      Some (x1 @ drop 8 r, y1 @ replicate 8 0)"
    using ec_mult_val [of ecc_g_point_x ecc_g_point_y k r "replicate 16 0"] lenG len pt by simp
  have r: "fieldModO Res (x1 @ drop 8 r) 8 = Some (x1 @ drop 8 r)"
    using fieldModO_8_small [of Res "x1 @ drop 8 r"] len1 len x1 by simp
  have fm: "fieldMult (x1 @ drop 8 r) d (y1 @ replicate 8 0) 8 = fieldMult x1 d (y1 @ replicate 8 0) 8"
    using len len1 by (simp add: fieldMult_val)
  obtain p where p: "fieldMult x1 d (y1 @ replicate 8 0) 8 = Some p" "length p = 16"
    "fieldModO (Arr p) (replicate 9 0) 16 = Some (bn_of 9 ((bn_val x1 * bn_val d) mod order_n))"
    using order_reduce_product [of x1 d "y1 @ replicate 8 0" "replicate 9 0"] len len1 x1 by auto
  define rd where "rd = (bn_val x1 * bn_val d) mod order_n"
  define z where "z = bn_val e + rd"
  have z: "0 \<le> z" "z < 2 * base_pow 8"
  proof -
    have "0 \<le> rd" "rd < base_pow 8" using pos_mod_bound [of order_n "bn_val x1 * bn_val d"] order_facts
      by (simp_all add: rd_def order_n_def)
    moreover have "bn_val e < base_pow 8" using bn_val_8_less [OF len(2)] by simp
    ultimately show "0 \<le> z" "z < 2 * base_pow 8"
      using bn_val_nonneg [of e] unfolding z_def by linarith+
  qed
  define c where "c = (word_of_int (z div base_pow 8) :: u32)"
  define t1 where "t1 = bn_of 8 z @ c # drop 9 p"
  have a: "add (Arr e) (Arr (bn_of 9 rd)) p 8 = Some (c, bn_of 8 z @ drop 8 p)"
    using len p(2) order_reduced_words(2) [of "bn_val x1 * bn_val d"]
    by (simp add: add_at_val Let_def c_def z_def rd_def)
  have w: "wr (bn_of 8 z @ drop 8 p) 8 c = Some t1"
    using p(2) by (simp add: t1_def list_update_append Cons_nth_drop_Suc [symmetric])
  have t1: "length t1 = 16" "bn_val (take 9 t1) = z"
  proof -
    have "uint c = z div base_pow 8"
    proof -
      have "0 \<le> z div base_pow 8" "z div base_pow 8 < 2"
        using z by (simp_all add: pos_imp_zdiv_nonneg_iff int_div_less)
      then show ?thesis by (simp add: c_def uint_word_of_int_eq take_bit_eq_mod)
    qed
    then show "bn_val (take 9 t1) = z" by (simp add: t1_def bn_val_append)
  qed (use p(2) in \<open>simp add: t1_def\<close>)
  have m9: "fieldModO (Arr t1) (replicate 9 0) 9 = Some (bn_of 9 (z mod order_n))"
  proof -
    have "2 * base_pow 8 < order_n * base_pow 8" by (simp add: order_n_def)
    then have "z div order_n < base_pow 8" using z order_facts(1) by (intro int_div_less) linarith+
    then show ?thesis using fieldModO_val [of 9 "Arr t1" "replicate 9 0"] t1 by simp
  qed
  obtain v where v: "fieldInv k ecc_order_m ecc_order_r (bn_of 9 rd) = Some (v @ drop 8 (bn_of 9 rd))"
    "length v = 8" "bn_val v < order_n" "(bn_val v * bn_val k) mod order_n = 1"
    using order.inv_val [of k "bn_of 9 rd"] len k by auto
  define v9 where "v9 = v @ drop 8 (bn_of 9 rd)"
  have z8: "bn_val (take 8 (bn_of 9 (z mod order_n))) = z mod order_n"
    by (rule order_reduced_words)
  have fm2: "fieldMult v9 (bn_of 9 (z mod order_n)) t1 8 = fieldMult v (take 8 (bn_of 9 (z mod order_n))) t1 8"
    using v(2) t1(1) by (simp add: fieldMult_val v9_def)
  obtain q where q: "fieldMult v (take 8 (bn_of 9 (z mod order_n))) t1 8 = Some q" "length q = 16"
    "fieldModO (Arr q) s 16 = Some (bn_of 9 ((bn_val v * (z mod order_n)) mod order_n) @ drop 9 s)"
    using order_reduce_product [of v "take 8 (bn_of 9 (z mod order_n))" t1 s] v t1 len z8 by auto
  define s' where "s' = bn_of 9 ((bn_val v * (z mod order_n)) mod order_n)"
  have s': "length s' = 9" "bn_val s' = (bn_val v * z) mod order_n" "bn_val (take 8 s') = bn_val s'"
    unfolding s'_def order_reduced_words by (simp_all add: mod_mult_right_eq)
  have "(bn_val s' * bn_val k) mod order_n = ((bn_val v * bn_val k) * z) mod order_n"
    unfolding s'(2) mod_mult_left_eq by (simp add: mult_ac)
  also have "\<dots> = z mod order_n" using v(4) by (metis mod_mult_left_eq mult_1)
  also have "\<dots> = (bn_val e + bn_val x1 * bn_val d) mod order_n"
    by (simp add: z_def rd_def mod_add_right_eq)
  finally have eq: "(bn_val s' * bn_val k) mod order_n = (bn_val e + bn_val x1 * bn_val d) mod order_n" .
  have "ecc_ecdsa_sign d e k r s = Some (if bn_val s' = 0 then - 1 else 0, x1 @ drop 8 r, s')"
    using len len1 k(1) x1 mult r fm p a w m9 v(1) fm2 q s'(1,3)
    by (simp add: ecc_ecdsa_sign_def isZero_val rd_def [symmetric] v9_def [symmetric] s'_def [symmetric])
  moreover have "bn_val s' < order_n" unfolding s'(2) using order_facts(1) by simp
  ultimately show ?thesis using s'(1) eq by blast
qed

text \<open>What \<open>ecc_ecdsa_validate\<close> compares, for a signature value \<open>s\<close> that has an inverse.\<close>

lemma ecdsa_validate_val:
  assumes len: "length x = 8" "length y = 8" "length e = 8" "length r = 8" "length s = 8"
    and cop: "coprime (bn_val s) order_n"
  shows "\<exists>w. 0 \<le> w \<and> w < order_n \<and> (w * bn_val s) mod order_n = 1 \<and>
    ecc_ecdsa_validate x y e r s = do {
      P \<leftarrow> scalar_mult (nat ((bn_val e * w) mod order_n)) (ecc_g_point_x, ecc_g_point_y);
      Q \<leftarrow> scalar_mult (nat ((bn_val r * w) mod order_n)) (x, y);
      S \<leftarrow> plus_point P Q;
      Some (if bn_val (fst S) = bn_val r then 0 else - 1)
    }"
proof -
  have lenG: "length ecc_g_point_x = 8" "length ecc_g_point_y = 8"
    by (simp_all add: ecc_g_point_x_def ecc_g_point_y_def)
  obtain w where w: "fieldInv s ecc_order_m ecc_order_r (replicate 8 0) = Some w"
    "length w = 8" "bn_val w < order_n" "(bn_val w * bn_val s) mod order_n = 1"
    using order.inv_val [of s "replicate 8 0"] len cop by auto
  obtain p where p: "fieldMult e w (replicate 16 0) 8 = Some p" "length p = 16"
    "fieldModO (Arr p) (replicate 9 0) 16 = Some (bn_of 9 ((bn_val e * bn_val w) mod order_n))"
    using order_reduce_product [of e w "replicate 16 0" "replicate 9 0"] len w by auto
  obtain q where q: "fieldMult r w p 8 = Some q" "length q = 16"
    "fieldModO (Arr q) (replicate 9 0) 16 = Some (bn_of 9 ((bn_val r * bn_val w) mod order_n))"
    using order_reduce_product [of r w p "replicate 9 0"] len w p(2) by auto
  have m: "ecc_ec_mult a b (bn_of 9 (c mod order_n)) (replicate 8 0) (replicate 8 0) =
      map_option (\<lambda>(x, y). (x, y)) (scalar_mult (nat (c mod order_n)) (a, b))"
    if "length a = 8" "length b = 8" for a b c
    using that by (simp add: ec_mult_val order_reduced_words)
  have "ecc_ecdsa_validate x y e r s = do {
      P \<leftarrow> scalar_mult (nat ((bn_val e * bn_val w) mod order_n)) (ecc_g_point_x, ecc_g_point_y);
      Q \<leftarrow> scalar_mult (nat ((bn_val r * bn_val w) mod order_n)) (x, y);
      S \<leftarrow> plus_point P Q;
      Some (if bn_val (fst S) = bn_val r then 0 else - 1)
    }"
    (is "_ = (?P \<bind> (\<lambda>P. ?Q \<bind> (\<lambda>Q. plus_point P Q \<bind> ?ans)))")
  proof (cases ?P; cases ?Q)
    fix P Q
    assume PQ: "?P = Some P" "?Q = Some Q"
    obtain px py qx qy where P: "P = (px, py)" "Q = (qx, qy)" by fastforce
    have lens: "length px = 8 \<and> length py = 8" "length qx = 8 \<and> length qy = 8"
      using scalar_mult_len PQ P lenG len by auto
    then have "length (fst S) = 8" if "plus_point P Q = Some S" for S
      using that ec_add_len [of px py qx qy "replicate 8 0" "replicate 8 0" "fst S" "snd S"]
      by (simp add: plus_point_def P)
    then show ?thesis
      using PQ P len lenG w(1) p q m
      by (cases "plus_point P Q") (auto simp: ecc_ecdsa_validate_def plus_point_def isSame_val)
  qed (use len lenG w(1) p q m in \<open>auto simp: ecc_ecdsa_validate_def\<close>)
  with w show ?thesis by (intro exI [of _ "bn_val w"]) simp
qed

section \<open>Properties\<close>

text \<open>
  C10. The ECDSA equation: for a nonce with an inverse and a point whose first coordinate is
  below the order, the signature that \<open>ecc_ecdsa_sign\<close> returns satisfies \<open>s *
  k = e + r * d\<close> modulo the order, with \<open>r\<close> the coordinate and
  \<open>s\<close> reduced; it returns -1 exactly when \<open>s\<close> is zero.
\<close>

lemma ecdsa_sign_equation:
  assumes "length d = 8" "length e = 8" "length k = 8" "length r = 9" "length s = 9"
    and "bn_val k \<noteq> 0" "coprime (bn_val k) order_n"
    and "scalar_mult (nat (bn_val k)) (ecc_g_point_x, ecc_g_point_y) = Some (x1, y1)"
    and "0 < bn_val x1" "bn_val x1 < order_n"
  shows "\<exists>s'. ecc_ecdsa_sign d e k r s = Some (if bn_val s' = 0 then - 1 else 0, x1 @ drop 8 r, s') \<and>
    length s' = 9 \<and> bn_val s' < order_n \<and>
    (bn_val s' * bn_val k) mod order_n = (bn_val e + bn_val x1 * bn_val d) mod order_n"
  using assms by (rule ecdsa_sign_val)

lemma ecdsa_sign_equation_witness:
  "\<exists>s'. ecc_ecdsa_sign (bn_of 8 5) (bn_of 8 7) (bn_of 8 1) (replicate 9 0) (replicate 9 0) =
     Some (if bn_val s' = 0 then - 1 else 0, ecc_g_point_x @ [0], s') \<and>
    length s' = 9 \<and> bn_val s' < order_n \<and>
    (bn_val s' * 1) mod order_n = (7 + bn_val ecc_g_point_x * 5) mod order_n"
  using ecdsa_sign_equation [of "bn_of 8 5" "bn_of 8 7" "bn_of 8 1" "replicate 9 0" "replicate 9 0" ecc_g_point_x ecc_g_point_y]
    scalar_mult_1 [of ecc_g_point_x ecc_g_point_y]
  by (simp add: ecc_g_point_x_def ecc_g_point_y_def order_n_def)

text \<open>
  \<open>ec_double\<close> returns the point of the tangent: the slope \<open>l\<close>
  solves \<open>l * 2 y = 3 x^2 - 3\<close>, and the new coordinates are \<open>l^2 - 2
  x\<close> and \<open>l (x - x3) - y\<close> modulo the prime, provided no intermediate product
  makes \<open>fieldModP\<close> lose a carry.
\<close>

lemma ec_double_tangent:
  assumes "0 \<le> X" "X < prime_p" "0 \<le> Y" "Y < prime_p" "X \<noteq> 0 \<or> Y \<noteq> 0"
    and "length Dx = 8" "length Dy = 8"
    and "0 \<le> i" "i < prime_p" "(i * (2 * Y)) mod prime_p = 1" "double_safe X i"
  shows "\<exists>l x3 y3. ec_double (bn_of 8 X) (bn_of 8 Y) Dx Dy = Some (bn_of 8 x3, bn_of 8 y3) \<and>
    (l * (2 * Y)) mod prime_p = (3 * X ^ 2 - 3) mod prime_p \<and>
    x3 = (l ^ 2 - 2 * X) mod prime_p \<and> y3 = (l * (X - x3) - Y) mod prime_p"
proof -
  define l where "l = tangent_slope X i"
  have run: "ec_double (bn_of 8 X) (bn_of 8 Y) Dx Dy =
      Some (bn_of 8 (third_x l X X), bn_of 8 (third_y l X Y (third_x l X X)))"
    unfolding l_def using assms by (intro ec_double_val) (simp_all add: red_def)
  have "l = ((X * X - 1) * 3 * i) mod prime_p"
    unfolding l_def tangent_slope_def by (simp only: mod_simps)
  then have "(l * (2 * Y)) mod prime_p = ((X * X - 1) * 3 * (i * (2 * Y))) mod prime_p"
    by (simp only: mod_simps mult.assoc)
  also have "\<dots> = ((X * X - 1) * 3 * ((i * (2 * Y)) mod prime_p)) mod prime_p"
    by (simp only: mod_simps)
  also have "\<dots> = (3 * X ^ 2 - 3) mod prime_p"
    unfolding assms(10) by (simp add: algebra_simps power2_eq_square)
  finally have l: "(l * (2 * Y)) mod prime_p = (3 * X ^ 2 - 3) mod prime_p" .
  have "third_x l X X = (l ^ 2 - 2 * X) mod prime_p"
    unfolding third_x_def power2_eq_square mult_2 diff_diff_add [symmetric] by (simp only: mod_simps)
  moreover have "third_y l X Y c = (l * (X - c) - Y) mod prime_p" for c
    unfolding third_y_def by (simp only: mod_simps)
  ultimately show ?thesis using run l by auto
qed


text \<open>Instances where one product is large and the others are small numbers.\<close>

lemma modp_safe_bn_of: "length xs = 16 \<Longrightarrow> bn_val xs = z \<Longrightarrow> modp_safe xs \<Longrightarrow> modp_safe (bn_of 16 z)"
  using bn_of_bn_val [of xs 16] by simp

lemma modp_safe_small: "0 \<le> z \<Longrightarrow> z < 4294967296 \<Longrightarrow> modp_safe (bn_of 16 z)"
  by (rule modp_safe_bn_of [where xs = "word_of_int z # replicate 15 0"])
    (simp_all add: modp_safe_def uint_word_of_int_eq take_bit_eq_mod numeral_eq_Suc)

lemma modp_safe_instances:
  "modp_safe (bn_of 16 (9 * ((2 - 77) mod prime_p)))" "modp_safe (bn_of 16 (4 * ((2 - 11) mod prime_p)))"
proof -
  have "modp_safe (bn_of 16 1042128802893206238864277022544668161770775290737612827759802681779803880684884)"
    by (rule modp_safe_bn_of [where xs = "[0xfffffd54, 0xffffffff, 0xffffffff, 0x8, 0x0, 0x0, 0x9, 0xfffffff7, 0x8, 0x0, 0x0, 0x0, 0x0, 0x0, 0x0, 0x0]"])
      (simp_all add: modp_safe_def)
  then show "modp_safe (bn_of 16 (9 * ((2 - 77) mod prime_p)))" by (simp add: prime_p_def)
  have "modp_safe (bn_of 16 463168356841424995050789787797630294120344573661161256782134525235468391415768)"
    by (rule modp_safe_bn_of [where xs = "[0xffffffd8, 0xffffffff, 0xffffffff, 0x3, 0x0, 0x0, 0x4, 0xfffffffc, 0x3, 0x0, 0x0, 0x0, 0x0, 0x0, 0x0, 0x0]"])
      (simp_all add: modp_safe_def)
  then show "modp_safe (bn_of 16 (4 * ((2 - 11) mod prime_p)))" by (simp add: prime_p_def)
qed

lemma safe_instances: "double_safe 2 1" "add_safe 3 5 2 1 1"
proof -
  have m: "a mod prime_p = a" if "0 \<le> a" "a < 100" for a
    using that by (intro mod_pos_pos_trivial) (simp_all add: prime_p_def)
  have "tangent_slope 2 1 = 9" "third_x 9 2 2 = 77" "(2 * 2 mod prime_p - 1) mod prime_p = 3" "9 mod prime_p = 9"
    by (simp_all add: tangent_slope_def third_x_def m)
  then show "double_safe 2 1"
    using modp_safe_instances by (simp add: double_safe_def modp_safe_small)
  have "chord_slope 5 1 1 = 4" "third_x 4 3 2 = 11" "4 mod prime_p = 4"
    by (simp_all add: chord_slope_def third_x_def m)
  then show "add_safe 3 5 2 1 1"
    using modp_safe_instances by (simp add: add_safe_def modp_safe_small)
qed

lemma ec_double_tangent_witness:
  "\<exists>l x3 y3. ec_double (bn_of 8 2)
      (bn_of 8 57896044605178124381348723474703786765043071707645157097766815654433548926976)
      (replicate 8 0) (replicate 8 0) = Some (bn_of 8 x3, bn_of 8 y3) \<and>
    x3 = (l ^ 2 - 2 * 2) mod prime_p \<and>
    y3 = (l * (2 - x3) - 57896044605178124381348723474703786765043071707645157097766815654433548926976) mod prime_p"
proof -
  have "0 \<le> (2 :: int)" "2 < prime_p" "(0 :: int) \<le> 57896044605178124381348723474703786765043071707645157097766815654433548926976"
    "57896044605178124381348723474703786765043071707645157097766815654433548926976 < prime_p"
    "(2 :: int) \<noteq> 0 \<or> (57896044605178124381348723474703786765043071707645157097766815654433548926976 :: int) \<noteq> 0"
    "length (replicate 8 (0 :: u32)) = 8" "length (replicate 8 (0 :: u32)) = 8" "0 \<le> (1 :: int)" "1 < prime_p"
    "(1 * (2 * 57896044605178124381348723474703786765043071707645157097766815654433548926976)) mod prime_p = 1"
    by (simp_all add: prime_p_def)
  from ec_double_tangent [OF this safe_instances(1)] show ?thesis by blast
qed


text \<open>
  C9. The loop of \<open>ecc_ec_mult\<close> over the 256 bits is double-and-add on the scalar
  as a number, for every scalar and every point, and it fails to return exactly when one of
  those operations does.
\<close>

lemma ec_mult_double_and_add:
  assumes "length px = 8" "length py = 8" "8 \<le> length secret" "8 \<le> length rx" "8 \<le> length ry"
  shows "ecc_ec_mult px py secret rx ry =
    map_option (\<lambda>(x, y). (x @ drop 8 rx, y @ drop 8 ry)) (scalar_mult (nat (bn_val (take 8 secret))) (px, py))"
  using assms by (rule ec_mult_val)

lemma ec_mult_double_and_add_witness:
  "ecc_ec_mult ecc_g_point_x ecc_g_point_y (bn_of 8 1) (replicate 8 0) (replicate 8 0) =
   Some (ecc_g_point_x, ecc_g_point_y)"
  using ec_mult_double_and_add [of ecc_g_point_x ecc_g_point_y "bn_of 8 1" "replicate 8 0" "replicate 8 0"]
    scalar_mult_1 [of ecc_g_point_x ecc_g_point_y]
  by (simp add: ecc_g_point_x_def ecc_g_point_y_def)

text \<open>
  \<open>ecc_ecdsa_validate\<close> does not return on a signature whose \<open>s\<close> is
  zero: no range check precedes the inversion.
\<close>

lemma validate_zero_s_diverges:
  assumes "length s = 8" "bn_val s = 0"
  shows "ecc_ecdsa_validate x y e r s = None"
  using assms by (rule validate_zero_s)

lemma validate_zero_s_diverges_witness:
  "ecc_ecdsa_validate ecc_g_point_x ecc_g_point_y (bn_of 8 7) (bn_of 8 1) (replicate 8 0) = None"
  by (rule validate_zero_s_diverges) simp_all

text \<open>
  C25. \<open>fieldModP\<close> reduces a 512-bit number modulo the prime, provided six of its
  high words are not all ones.
\<close>

lemma fieldModP_reduces:
  assumes "length A = 8" "length B = 16" "modp_safe B"
  shows "fieldModP A B = Some (bn_of 8 (bn_val B mod prime_p))"
  using assms by (rule fieldModP_val)

lemma fieldModP_reduces_witness:
  "fieldModP (replicate 8 0) [9, 0, 0, 0, 0, 0, 0, 0, 1, 0, 0, 0, 0, 0, 0, 0] = Some (bn_of 8 ((2 ^ 256 + 9) mod prime_p))"
  using fieldModP_reduces [of "replicate 8 0" "[9, 0, 0, 0, 0, 0, 0, 0, 1, 0, 0, 0, 0, 0, 0, 0]"]
  by (simp add: modp_safe_def)



text \<open>
  C24. \<open>fieldInv\<close> terminates and inverts every number that is coprime to the order.
\<close>

lemma fieldInv_inverts:
  assumes "length A = 8" "length B = 8" and "coprime (bn_val A) order_n"
  shows "\<exists>w. fieldInv A ecc_order_m ecc_order_r B = Some w \<and> length w = 8 \<and> bn_val w < order_n \<and>
    (bn_val w * bn_val A) mod order_n = 1"
  using order.inv_val [of A B] assms by simp

lemma fieldInv_inverts_witness:
  "\<exists>w. fieldInv (bn_of 8 2) ecc_order_m ecc_order_r (replicate 8 0) = Some w \<and> length w = 8 \<and>
    bn_val w < order_n \<and> (bn_val w * 2) mod order_n = 1"
  using fieldInv_inverts [of "bn_of 8 2" "replicate 8 0"] by (simp add: order_n_def)

lemma bad_product_run:
  "fieldModP (replicate 8 0) [0, 0xffffffff, 0xffffffff, 0xffffffff, 0xfffffffd, 0xfffffffd, 0xffffffff, 0xffffffff,
     0xffffffff, 0, 0, 0, 0, 1, 0, 0] =
   Some [0xfffffffe, 0xfffffffe, 0xfffffffe, 1, 0xffffffff, 0xffffffff, 1, 0xfffffffd]"
  by code_simp

text \<open>
  Outside that proviso the fast reduction is wrong: a summand above the prime can make the
  addition carry twice, and only one carry is folded back. This input has a different residue.
\<close>

lemma fieldModP_lost_carry:
  "\<exists>B w. length B = 16 \<and> bn_val B < prime_p ^ 2 \<and> fieldModP (replicate 8 0) B = Some w \<and>
    bn_val w mod prime_p \<noteq> bn_val B mod prime_p"
proof -
  define B :: "u32 list" where "B = [0, 0xffffffff, 0xffffffff, 0xffffffff, 0xfffffffd, 0xfffffffd, 0xffffffff,
    0xffffffff, 0xffffffff, 0, 0, 0, 0, 1, 0, 0]"
  define w :: "u32 list" where
    "w = [0xfffffffe, 0xfffffffe, 0xfffffffe, 1, 0xffffffff, 0xffffffff, 1, 0xfffffffd]"
  have B: "bn_val B = 115792089183396302095546807154740558442726230374732231309511237476253714874367 +
      1461501637671185285124623296161210883013991202815 * prime_p"
    by (simp add: B_def prime_p_def)
  have "bn_val B mod prime_p = 115792089183396302095546807154740558442726230374732231309511237476253714874367"
    unfolding B mod_mult_self1 by (simp add: prime_p_def)
  moreover have "bn_val w mod prime_p = 115792089156436355434673269095460224119542389124381981465587284777207683088382"
    by (simp add: w_def prime_p_def)
  moreover have "bn_val B < prime_p ^ 2" by (simp add: B_def prime_p_def)
  ultimately show ?thesis
    using bad_product_run by (intro exI [of _ B] exI [of _ w]) (simp add: B_def [symmetric] w_def [symmetric], simp add: B_def)
qed

end
