(* ===== verification/Netq.thy ===== *)
theory Netq
  imports Prelude "HOL-Library.Multiset"
begin

text \<open>
  The packet queue of \<open>arduino/libraries/Dtls/netq.c\<close> on the linked lists of \<open>t_list.h\<close> and
  \<open>utlist.h\<close>. A heap maps addresses to nodes, a queue is its head pointer (\<open>None\<close> for
  \<open>NULL\<close>), and each routine follows and updates the \<open>next\<close> fields as the C code does. \<open>None\<close> as
  the result of a routine is the access through an invalid pointer or a loop that does not end.
  The predicate \<open>chain\<close> relates a heap and a head pointer to the list of nodes they represent.
\<close>

section \<open>Nodes and linked lists\<close>

type_synonym ptr = "nat option"

record netq_t =
  next_node :: ptr
  t :: u32
  timeout :: u32
  peer_id :: nat
  epoch :: u16
  msg_type :: u8
  retransmit_cnt :: u8
  data :: "u8 list"

type_synonym heap = "nat \<Rightarrow> netq_t option"

definition set_next :: "heap \<Rightarrow> nat \<Rightarrow> ptr \<Rightarrow> heap option" where
  "set_next h p q = do { n \<leftarrow> h p; Some (h(p \<mapsto> n\<lparr>next_node := q\<rparr>)) }"

definition list_head :: "ptr \<Rightarrow> ptr" where
  "list_head q = q"

definition list_item_next :: "heap \<Rightarrow> ptr \<Rightarrow> ptr option" where
  "list_item_next h p = (case p of None \<Rightarrow> Some None | Some a \<Rightarrow> map_option next_node (h a))"

definition list_push :: "heap \<Rightarrow> ptr \<Rightarrow> nat \<Rightarrow> (heap \<times> ptr) option" where
  "list_push h q item = do { h \<leftarrow> set_next h item q; Some (h, Some item) }"

definition list_insert :: "heap \<Rightarrow> ptr \<Rightarrow> ptr \<Rightarrow> nat \<Rightarrow> (heap \<times> ptr) option" where
  "list_insert h q previtem newitem = (case previtem of
     None \<Rightarrow> list_push h q newitem
   | Some p \<Rightarrow> do {
       nx \<leftarrow> map_option next_node (h p);
       h \<leftarrow> set_next h newitem nx;
       h \<leftarrow> set_next h p (Some newitem);
       Some (h, q)
     })"

text \<open>The search of \<open>LL_DELETE\<close>: the predecessor of the item, or the last node.\<close>

partial_function (option) find_prev :: "heap \<Rightarrow> nat \<Rightarrow> nat \<Rightarrow> nat option" where
  "find_prev h tmp item = do {
     nx \<leftarrow> map_option next_node (h tmp);
     case nx of None \<Rightarrow> Some tmp
     | Some a \<Rightarrow> if a = item then Some tmp else find_prev h a item
   }"

definition list_remove :: "heap \<Rightarrow> ptr \<Rightarrow> nat \<Rightarrow> (heap \<times> ptr) option" where
  "list_remove h q item =
     (if q = Some item then do { nx \<leftarrow> map_option next_node (h item); Some (h, nx) }
      else do {
        a \<leftarrow> q;
        tmp \<leftarrow> find_prev h a item;
        nx \<leftarrow> map_option next_node (h tmp);
        case nx of None \<Rightarrow> Some (h, q)
        | Some _ \<Rightarrow> do {
            inx \<leftarrow> map_option next_node (h item);
            h \<leftarrow> set_next h tmp inx;
            Some (h, q)
          }
      })"

definition list_pop :: "heap \<Rightarrow> ptr \<Rightarrow> (heap \<times> ptr \<times> ptr) option" where
  "list_pop h q = (case q of
     None \<Rightarrow> Some (h, q, None)
   | Some l \<Rightarrow> do { (h, q') \<leftarrow> list_remove h q l; Some (h, q', Some l) })"

section \<open>The queue\<close>

partial_function (option) insert_walk :: "heap \<Rightarrow> nat \<Rightarrow> u32 \<Rightarrow> nat option" where
  "insert_walk h p time = do {
     n \<leftarrow> h p;
     if t n \<le> time then
       (case next_node n of None \<Rightarrow> Some p | Some a \<Rightarrow> insert_walk h a time)
     else Some p
   }"

definition netq_insert_node :: "heap \<Rightarrow> ptr \<Rightarrow> nat \<Rightarrow> (heap \<times> ptr) option" where
  "netq_insert_node h q node = (case list_head q of
     None \<Rightarrow> list_push h q node
   | Some p \<Rightarrow> do {
       n \<leftarrow> h node;
       p \<leftarrow> insert_walk h p (t n);
       list_insert h q (Some p) node
     })"

definition netq_head :: "ptr \<Rightarrow> ptr" where
  "netq_head q = list_head q"

definition netq_next :: "heap \<Rightarrow> ptr \<Rightarrow> ptr option" where
  "netq_next h p = (if p = None then Some None else list_item_next h p)"

definition netq_remove :: "heap \<Rightarrow> ptr \<Rightarrow> ptr \<Rightarrow> (heap \<times> ptr) option" where
  "netq_remove h q p = (case p of None \<Rightarrow> Some (h, q) | Some a \<Rightarrow> list_remove h q a)"

definition netq_pop_first :: "heap \<Rightarrow> ptr \<Rightarrow> (heap \<times> ptr \<times> ptr) option" where
  "netq_pop_first h q = list_pop h q"

text \<open>
  \<open>netq_node_new\<close> clears the fixed part of a node; the allocator is the argument \<open>addr\<close>, the
  address \<open>malloc\<close> returns, and the \<open>size\<close> bytes of data it leaves as they are.
\<close>

definition netq_node_new :: "heap \<Rightarrow> ptr \<Rightarrow> u8 list \<Rightarrow> heap \<times> ptr" where
  "netq_node_new h addr garbage = (case addr of
     None \<Rightarrow> (h, None)
   | Some a \<Rightarrow> (h(a \<mapsto> \<lparr>next_node = None, t = 0, timeout = 0, peer_id = 0, epoch = 0, msg_type = 0,
        retransmit_cnt = 0, data = garbage\<rparr>), Some a))"

definition netq_node_free :: "heap \<Rightarrow> ptr \<Rightarrow> heap" where
  "netq_node_free h p = (case p of None \<Rightarrow> h | Some a \<Rightarrow> h(a := None))"

partial_function (option) netq_delete_all :: "heap \<Rightarrow> ptr \<Rightarrow> (heap \<times> ptr) option" where
  "netq_delete_all h q = do {
     (h, q, p) \<leftarrow> list_pop h q;
     case p of None \<Rightarrow> Some (h, q)
     | Some a \<Rightarrow> netq_delete_all (netq_node_free h p) q
   }"

section \<open>What a heap represents\<close>

fun chain :: "heap \<Rightarrow> ptr \<Rightarrow> nat list \<Rightarrow> bool" where
  "chain h q [] \<longleftrightarrow> q = None"
| "chain h q (a # as) \<longleftrightarrow> q = Some a \<and> (\<exists>n. h a = Some n \<and> chain h (next_node n) as)"

definition queue :: "heap \<Rightarrow> ptr \<Rightarrow> nat list \<Rightarrow> bool" where
  "queue h q as \<longleftrightarrow> chain h q as \<and> distinct as"

text \<open>The time stamp of a node, and where \<open>netq_insert_node\<close> puts a node.\<close>

definition time_of :: "heap \<Rightarrow> nat \<Rightarrow> u32" where
  "time_of h a = (case h a of None \<Rightarrow> 0 | Some n \<Rightarrow> t n)"

fun place :: "('a \<Rightarrow> u32) \<Rightarrow> 'a \<Rightarrow> 'a list \<Rightarrow> 'a list" where
  "place f x [] = [x]"
| "place f x (y # ys) = (if f y \<le> f x \<and> ys \<noteq> [] then y # place f x ys else y # x # ys)"

lemma chain_update_other: "b \<notin> set as \<Longrightarrow> chain (h(b := v)) q as = chain h q as"
  by (induction as arbitrary: q) auto

lemma chain_cong: "chain h q as \<Longrightarrow> (\<And>a. a \<in> set as \<Longrightarrow> h' a = h a) \<Longrightarrow> chain h' q as"
  by (induction as arbitrary: q) auto

lemma chain_dom: "chain h q as \<Longrightarrow> a \<in> set as \<Longrightarrow> h a \<noteq> None"
  by (induction as arbitrary: q) auto

lemma time_of_update: "h b = Some m \<Longrightarrow> t n = t m \<Longrightarrow> time_of (h(b \<mapsto> n)) = time_of h"
  by (auto simp: time_of_def fun_eq_iff)

text \<open>A new node is linked after \<open>b\<close>; a node is unlinked after \<open>b\<close>.\<close>

lemma chain_insert_after:
  assumes "chain h q (xs @ b # ys)" "distinct (xs @ b # ys)" "node \<notin> set (xs @ b # ys)"
    and "h b = Some nb"
  shows "chain (h(node \<mapsto> n\<lparr>next_node := next_node nb\<rparr>, b \<mapsto> nb\<lparr>next_node := Some node\<rparr>)) q (xs @ b # node # ys)"
  using assms
proof (induction xs arbitrary: q)
  case Nil
  then show ?case by (auto elim: chain_cong)
qed auto

lemma chain_remove_after:
  assumes "chain h q (xs @ b # a # ys)" "distinct (xs @ b # a # ys)" "h b = Some nb" "h a = Some na"
  shows "chain (h(b \<mapsto> nb\<lparr>next_node := next_node na\<rparr>)) q (xs @ b # ys)"
  using assms
proof (induction xs arbitrary: q)
  case Nil
  then show ?case by (auto elim: chain_cong)
qed auto

section \<open>The operations on the represented list\<close>

lemma insert_walk_val:
  assumes "chain h (Some a) (a # as)" and "f x = time" and "\<And>b. b \<in> set (a # as) \<Longrightarrow> f b = time_of h b"
  shows "\<exists>xs b ys. a # as = xs @ b # ys \<and> insert_walk h a time = Some b \<and> place f x (a # as) = xs @ b # x # ys"
  using assms
proof (induction as arbitrary: a)
  case Nil
  then obtain n where "h a = Some n" "next_node n = None" by auto
  then have "insert_walk h a time = Some a" by (subst insert_walk.simps) simp
  then show ?case by (intro exI [of _ "[]"] exI [of _ a]) simp
next
  case (Cons c as)
  from Cons.prems(1) obtain n where n: "h a = Some n" "next_node n = Some c" "chain h (Some c) (c # as)" by auto
  show ?case
  proof (cases "t n \<le> time")
    case False
    then have "insert_walk h a time = Some a" using n by (subst insert_walk.simps) simp
    moreover have "\<not> f a \<le> f x" using False n Cons.prems(2,3) by (simp add: time_of_def)
    ultimately show ?thesis by (intro exI [of _ "[]"] exI [of _ a] exI [of _ "c # as"]) simp
  next
    case True
    then have "insert_walk h a time = insert_walk h c time" using n by (subst insert_walk.simps) simp
    moreover have "f a \<le> f x" using True n Cons.prems(2,3) by (simp add: time_of_def)
    moreover obtain xs b ys where "c # as = xs @ b # ys" "insert_walk h c time = Some b"
        "place f x (c # as) = xs @ b # x # ys"
      using Cons.IH [OF n(3) Cons.prems(2)] Cons.prems(3) by (meson list.set_intros(2))
    ultimately show ?thesis by (intro exI [of _ "a # xs"] exI [of _ b] exI [of _ ys]) simp
  qed
qed

lemma netq_insert_node_val:
  assumes q: "queue h q as" and node: "h node = Some n" "node \<notin> set as"
  shows "\<exists>h' q'. netq_insert_node h q node = Some (h', q') \<and>
    queue h' q' (place (time_of h) node as) \<and> time_of h' = time_of h \<and> dom h' = dom h"
proof (cases as)
  case Nil
  then have "netq_insert_node h q node = Some (h(node \<mapsto> n\<lparr>next_node := None\<rparr>), Some node)"
    using assms by (simp add: netq_insert_node_def queue_def list_head_def list_push_def set_next_def)
  then show ?thesis
    using Nil node by (auto simp: queue_def time_of_update dom_def)
next
  case (Cons a as')
  then have c: "chain h (Some a) (a # as')" "q = Some a" "distinct as"
    using q by (auto simp: queue_def)
  have tn: "time_of h node = t n" using node by (simp add: time_of_def)
  obtain xs b ys where s: "a # as' = xs @ b # ys" "insert_walk h a (t n) = Some b"
      "place (time_of h) node (a # as') = xs @ b # node # ys"
    using insert_walk_val [OF c(1), of "time_of h" node "t n"] tn by metis
  then obtain nb where nb: "h b = Some nb" using chain_dom [OF c(1), of b] s(1) by auto
  define h' where "h' = h(node \<mapsto> n\<lparr>next_node := next_node nb\<rparr>, b \<mapsto> nb\<lparr>next_node := Some node\<rparr>)"
  have bn: "b \<noteq> node" using node(2) Cons s(1) by auto
  have "netq_insert_node h q node = Some (h', q)"
    using c(2) node(1) s(2) nb bn
    by (simp add: netq_insert_node_def list_head_def list_insert_def set_next_def h'_def)
  moreover have "chain h' q (xs @ b # node # ys)"
    unfolding h'_def using c s(1) node(2) Cons nb by (intro chain_insert_after) auto
  moreover have "distinct (xs @ b # node # ys)" using c(3) Cons s(1) node(2) by auto
  moreover have "time_of h' = time_of h"
    unfolding h'_def using node(1) nb bn by (auto simp: time_of_def fun_eq_iff)
  moreover have "dom h' = dom h" using node(1) nb by (auto simp: h'_def)
  ultimately show ?thesis using s(3) Cons by (auto simp: queue_def)
qed

lemma find_prev_val:
  assumes "chain h (Some a) (a # as)" "distinct (a # as)" "item \<noteq> a"
  shows "if item \<in> set as then \<exists>xs b ys. a # as = xs @ b # item # ys \<and> find_prev h a item = Some b
    else \<exists>b n. find_prev h a item = Some b \<and> h b = Some n \<and> next_node n = None"
  using assms
proof (induction as arbitrary: a)
  case Nil
  then show ?case by (subst find_prev.simps) auto
next
  case (Cons c as)
  from Cons.prems(1) obtain n where n: "h a = Some n" "next_node n = Some c" "chain h (Some c) (c # as)" by auto
  show ?case
  proof (cases "c = item")
    case True
    then have "find_prev h a item = Some a" using n by (subst find_prev.simps) simp
    moreover have "a # c # as = [] @ a # item # as" using True by simp
    ultimately show ?thesis using True by (metis list.set_intros(1))
  next
    case False
    then have "find_prev h a item = find_prev h c item" using n by (subst find_prev.simps) simp
    moreover have IH: "if item \<in> set as then \<exists>xs b ys. c # as = xs @ b # item # ys \<and> find_prev h c item = Some b
        else \<exists>b n. find_prev h c item = Some b \<and> h b = Some n \<and> next_node n = None"
      using Cons.IH [OF n(3)] Cons.prems(2) False by auto
    ultimately show ?thesis using False by (cases "item \<in> set as") (auto, metis append_Cons)
  qed
qed

lemma list_remove_val:
  assumes "queue h q as" "as \<noteq> []" "item \<in> set as \<or> h item \<noteq> None"
  shows "\<exists>h' q'. list_remove h q item = Some (h', q') \<and> queue h' q' (remove1 item as) \<and>
    time_of h' = time_of h \<and> dom h' = dom h"
proof -
  obtain a as' where as: "as = a # as'" using assms(2) by (cases as) auto
  then have c: "chain h (Some a) (a # as')" "q = Some a" "distinct (a # as')"
    using assms(1) by (auto simp: queue_def)
  obtain na where na: "h a = Some na" "chain h (next_node na) as'" using c(1) by auto
  show ?thesis
  proof (cases "item = a")
    case True
    then show ?thesis using na c as by (auto simp: list_remove_def queue_def)
  next
    case False
    show ?thesis
    proof (cases "item \<in> set as'")
      case True
      then obtain xs b ys where s: "a # as' = xs @ b # item # ys" "find_prev h a item = Some b"
        using find_prev_val [OF c(1,3) False] by auto
      obtain nb ni where n: "h b = Some nb" "h item = Some ni"
        using chain_dom [OF c(1), of b] chain_dom [OF c(1), of item] s(1) by auto
      have "next_node nb \<noteq> None"
      proof -
        have "chain h q (xs @ b # item # ys)" using c s(1) by simp
        then show ?thesis using n(1) by (induction xs arbitrary: q) auto
      qed
      then have "list_remove h q item = Some (h(b \<mapsto> nb\<lparr>next_node := next_node ni\<rparr>), q)"
        using c(2) False s(2) n by (auto simp: list_remove_def set_next_def)
      moreover have "chain (h(b \<mapsto> nb\<lparr>next_node := next_node ni\<rparr>)) q (xs @ b # ys)"
        using chain_remove_after [of h q xs b item ys nb ni] c s(1) n by auto
      moreover have "remove1 item as = xs @ b # ys"
        using c(3) s(1) as by (auto simp: remove1_append)
      moreover have "distinct (xs @ b # ys)" using c(3) s(1) by auto
      ultimately show ?thesis using n by (auto simp: queue_def time_of_update)
    next
      case nin: False
      then obtain b n where "find_prev h a item = Some b" "h b = Some n" "next_node n = None"
        using find_prev_val [OF c(1,3) False] by auto
      then have "list_remove h q item = Some (h, q)" using c(2) False by (auto simp: list_remove_def)
      moreover have "remove1 item as = as" using nin False as by (simp add: remove1_idem)
      ultimately show ?thesis using assms(1) by auto
    qed
  qed
qed

lemma netq_pop_first_val:
  assumes "queue h q as"
  shows "\<exists>h' q'. netq_pop_first h q = Some (h', q', case as of [] \<Rightarrow> None | a # _ \<Rightarrow> Some a) \<and>
    queue h' q' (tl as) \<and> time_of h' = time_of h \<and> dom h' = dom h"
proof (cases as)
  case Nil
  then show ?thesis using assms by (auto simp: netq_pop_first_def list_pop_def queue_def)
next
  case (Cons a as')
  then have "list_remove h q a = Some (h, next_node (the (h a)))" "q = Some a"
    using assms by (auto simp: list_remove_def queue_def)
  then show ?thesis
    using Cons assms by (auto simp: netq_pop_first_def list_pop_def queue_def)
qed

lemma netq_delete_all_val:
  assumes "queue h q as"
  shows "netq_delete_all h q = Some (h |` (- set as), None)"
  using assms
proof (induction as arbitrary: h q)
  case Nil
  then show ?case by (subst netq_delete_all.simps) (auto simp: list_pop_def queue_def)
next
  case (Cons a as)
  then obtain n where n: "q = Some a" "h a = Some n" "chain h (next_node n) as" "distinct (a # as)"
    by (auto simp: queue_def)
  then have "queue (h(a := None)) (next_node n) as" by (auto simp: queue_def chain_update_other)
  from Cons.IH [OF this] have "netq_delete_all (h(a := None)) (next_node n) = Some (h |` (- set (a # as)), None)"
    by (simp add: restrict_map_def fun_upd_def) (metis (no_types, opaque_lifting))
  then show ?case using n
    by (subst netq_delete_all.simps) (simp add: list_pop_def list_remove_def netq_node_free_def)
qed

section \<open>Where a node is placed\<close>

lemma mset_place [simp]: "mset (place f x xs) = add_mset x (mset xs)"
  by (induction f x xs rule: place.induct) auto

lemma set_place [simp]: "set (place f x xs) = insert x (set xs)"
  using mset_place [of f x xs] by (metis set_mset_add_mset_insert set_mset_mset)

lemma place_last: "\<forall>y\<in>set xs. f y \<le> f x \<Longrightarrow> place f x xs = xs @ [x]"
  by (induction f x xs rule: place.induct) auto

lemma place_sorted_iff:
  assumes "sorted_wrt (\<lambda>a b. f a \<le> f b) xs"
  shows "sorted_wrt (\<lambda>a b. f a \<le> f b) (place f x xs) \<longleftrightarrow> (\<forall>y\<in>set xs. f y \<le> f x)"
  using assms
proof (induction f x xs rule: place.induct)
  case (2 f x y ys)
  then show ?case by (cases "ys = []") (auto intro: order_trans)
qed simp

section \<open>The interface the rest of the code relies on\<close>

fun insert_all :: "('s \<Rightarrow> 'a \<Rightarrow> 's option) \<Rightarrow> 's \<Rightarrow> 'a list \<Rightarrow> 's option" where
  "insert_all ins s [] = Some s"
| "insert_all ins s (x # xs) = do { s \<leftarrow> ins s x; insert_all ins s xs }"

fun drain :: "('s \<Rightarrow> ('s \<times> 'a option) option) \<Rightarrow> nat \<Rightarrow> 's \<Rightarrow> 'a list option" where
  "drain pop 0 s = Some []"
| "drain pop (Suc n) s = do {
     (s, x) \<leftarrow> pop s;
     case x of None \<Rightarrow> Some [] | Some x \<Rightarrow> do { xs \<leftarrow> drain pop n s; Some (x # xs) }
   }"

text \<open>
  A queue holds every packet that was inserted exactly once, in some order, and gives them back
  one by one. \<open>alloc\<close> says which items may be inserted.
\<close>

locale packet_queue =
  fixes repr :: "'s \<Rightarrow> 'a list \<Rightarrow> bool"
    and alloc :: "'s \<Rightarrow> 'a \<Rightarrow> bool"
    and ins :: "'s \<Rightarrow> 'a \<Rightarrow> 's option"
    and pop :: "'s \<Rightarrow> ('s \<times> 'a option) option"
  assumes ins_law: "repr s xs \<Longrightarrow> alloc s x \<Longrightarrow> x \<notin> set xs \<Longrightarrow>
      \<exists>s' ys. ins s x = Some s' \<and> repr s' ys \<and> mset ys = add_mset x (mset xs) \<and> alloc s' = alloc s"
    and pop_law: "repr s xs \<Longrightarrow>
      \<exists>s'. pop s = Some (s', case xs of [] \<Rightarrow> None | x # _ \<Rightarrow> Some x) \<and> repr s' (tl xs)"
begin

lemma drain_all: "repr s xs \<Longrightarrow> length xs \<le> n \<Longrightarrow> drain pop n s = Some xs"
proof (induction xs arbitrary: s n)
  case Nil
  then show ?case using pop_law [OF Nil(1)] by (cases n) auto
next
  case (Cons x xs)
  obtain s' where s': "pop s = Some (s', Some x)" "repr s' xs" using pop_law [OF Cons(2)] by auto
  obtain n' where "n = Suc n'" using Cons.prems(2) by (cases n) auto
  then show ?case using s' Cons by simp
qed

lemma insert_all_repr:
  assumes "repr s xs" "\<forall>z\<in>set zs. alloc s z" "distinct (zs @ xs)"
  shows "\<exists>s' ys. insert_all ins s zs = Some s' \<and> repr s' ys \<and> mset ys = mset zs + mset xs"
  using assms
proof (induction zs arbitrary: s xs)
  case (Cons z zs)
  obtain s1 ys1 where 1: "ins s z = Some s1" "repr s1 ys1" "mset ys1 = add_mset z (mset xs)" "alloc s1 = alloc s"
    using ins_law [OF Cons.prems(1), of z] Cons.prems by auto
  have "set ys1 = insert z (set xs)" using 1(3) by (metis set_mset_add_mset_insert set_mset_mset)
  moreover have "distinct ys1"
  proof -
    have "distinct (z # xs)" using Cons.prems(3) by simp
    moreover have "mset ys1 = mset (z # xs)" using 1(3) by simp
    ultimately show ?thesis using mset_eq_imp_distinct_iff by blast
  qed
  ultimately have "distinct (zs @ ys1)" using Cons.prems(3) by auto
  then show ?case using Cons.IH [OF 1(2)] 1 Cons.prems(2) by auto
qed auto

text \<open>No packet is lost, none is duplicated.\<close>

lemma insert_drain:
  assumes "repr s []" "\<forall>z\<in>set zs. alloc s z" "distinct zs"
  shows "\<exists>s' ys. insert_all ins s zs = Some s' \<and> drain pop (length zs) s' = Some ys \<and> mset ys = mset zs"
proof -
  obtain s' ys where s': "insert_all ins s zs = Some s'" "repr s' ys" "mset ys = mset zs"
    using insert_all_repr [OF assms(1), of zs] assms by auto
  then have "length ys = length zs" using mset_eq_length by blast
  then show ?thesis using s' drain_all by auto
qed

end

definition sendqueue_insert :: "heap \<times> ptr \<Rightarrow> nat \<Rightarrow> (heap \<times> ptr) option" where
  "sendqueue_insert = (\<lambda>(h, q) a. netq_insert_node h q a)"

definition sendqueue_pop :: "heap \<times> ptr \<Rightarrow> ((heap \<times> ptr) \<times> nat option) option" where
  "sendqueue_pop = (\<lambda>(h, q). do { (h, q, p) \<leftarrow> netq_pop_first h q; Some ((h, q), p) })"

interpretation netq: packet_queue "\<lambda>(h, q) as. queue h q as" "\<lambda>(h, q) a. a \<in> dom h" sendqueue_insert sendqueue_pop
proof (unfold_locales, goal_cases)
  case (1 s xs x)
  obtain h q where s: "s = (h, q)" by fastforce
  obtain n where "h x = Some n" using 1 s by auto
  then obtain h' q' where "netq_insert_node h q x = Some (h', q')" "queue h' q' (place (time_of h) x xs)" "dom h' = dom h"
    using netq_insert_node_val [of h q xs x n] 1 s by auto
  then show ?case
    using s mset_place [of "time_of h" x xs]
    by (intro exI [of _ "(h', q')"] exI [of _ "place (time_of h) x xs"]) (simp add: sendqueue_insert_def)
next
  case (2 s xs)
  obtain h q where s: "s = (h, q)" by fastforce
  then show ?case using netq_pop_first_val [of h q xs] 2 by (auto simp: sendqueue_pop_def)
qed

section \<open>Properties\<close>

text \<open>
  C32. \<open>netq_insert_node\<close> refines insertion into a list: on every well-formed linked list it ends,
  keeps the list well-formed, keeps every time stamp, and the new list is the old one with the
  node added exactly once, after the first node that is later or at the end.
\<close>

lemma netq_insert_refines:
  assumes "queue h q as" "h node = Some n" "node \<notin> set as"
  shows "\<exists>h' q' as'. netq_insert_node h q node = Some (h', q') \<and> queue h' q' as' \<and>
    as' = place (time_of h) node as \<and> mset as' = add_mset node (mset as) \<and> time_of h' = time_of h"
  using netq_insert_node_val [OF assms] by auto

definition example_node :: "u32 \<Rightarrow> netq_t" where
  "example_node time = \<lparr>next_node = None, t = time, timeout = 0, peer_id = 0, epoch = 0, msg_type = 22,
     retransmit_cnt = 0, data = []\<rparr>"

lemma netq_insert_refines_witness:
  "\<exists>h' q' as'. netq_insert_node [1 \<mapsto> example_node 5, 2 \<mapsto> example_node 7] (Some 1) 2 = Some (h', q') \<and>
    queue h' q' as' \<and> as' = [1, 2]"
  using netq_insert_refines [of "[1 \<mapsto> example_node 5, 2 \<mapsto> example_node 7]" "Some 1" "[1]" 2 "example_node 7"]
  by (auto simp: queue_def example_node_def time_of_def)

text \<open>
  The queue stays ordered by time exactly when the inserted packet is not earlier than any
  packet in it. An earlier packet is put after the first later one instead of before it, so the
  order that \<open>netq.h\<close> promises is lost.
\<close>

lemma netq_insert_sorted_iff:
  assumes "queue h q as" "sorted_wrt (\<lambda>a b. time_of h a \<le> time_of h b) as" "h node = Some n" "node \<notin> set as"
  shows "\<exists>h' q' as'. netq_insert_node h q node = Some (h', q') \<and> queue h' q' as' \<and>
    (sorted_wrt (\<lambda>a b. time_of h' a \<le> time_of h' b) as' \<longleftrightarrow> (\<forall>a\<in>set as. time_of h a \<le> t n))"
proof -
  have tn: "time_of h node = t n" using assms(3) by (simp add: time_of_def)
  obtain h' q' where r: "netq_insert_node h q node = Some (h', q')" "queue h' q' (place (time_of h) node as)"
      "time_of h' = time_of h"
    using netq_insert_node_val [OF assms(1,3,4)] by auto
  show ?thesis
    unfolding tn [symmetric]
    by (intro exI [of _ h'] exI [of _ q'] exI [of _ "place (time_of h) node as"] conjI)
      (simp_all only: r place_sorted_iff [OF assms(2)])
qed

lemma netq_insert_sorted_iff_witness:
  "\<exists>h' q' as'. netq_insert_node [1 \<mapsto> example_node 7, 2 \<mapsto> example_node 5] (Some 1) 2 = Some (h', q') \<and>
    queue h' q' as' \<and> \<not> sorted_wrt (\<lambda>a b. time_of h' a \<le> time_of h' b) as'"
proof -
  have q: "queue [1 \<mapsto> example_node 7, 2 \<mapsto> example_node 5] (Some 1) [1]"
    by (simp add: queue_def example_node_def)
  show ?thesis
    using netq_insert_sorted_iff [OF q, of 2 "example_node 5"]
    by (auto simp: example_node_def time_of_def)
qed

text \<open>
  Packets that are inserted one after the other and then popped until the queue is empty come
  back as a permutation: none is lost, none is duplicated.
\<close>

lemma netq_insert_drain:
  assumes "\<forall>a\<in>set as. a \<in> dom h" "distinct as"
  shows "\<exists>s ys. insert_all sendqueue_insert (h, None) as = Some s \<and>
    drain sendqueue_pop (length as) s = Some ys \<and> mset ys = mset as"
  using netq.insert_drain [of "(h, None)" as] assms by (simp add: queue_def)

lemma netq_insert_drain_witness:
  "\<exists>s ys. insert_all sendqueue_insert ([1 \<mapsto> example_node 7, 2 \<mapsto> example_node 5], None) [1, 2] = Some s \<and>
    drain sendqueue_pop 2 s = Some ys \<and> mset ys = {#1, 2#}"
  using netq_insert_drain [of "[1, 2]" "[1 \<mapsto> example_node 7, 2 \<mapsto> example_node 5]"]
  by (simp add: numeral_2_eq_2)

end
