(* ===== verification/Sha2.thy ===== *)
theory Sha2
  imports Prelude
begin

text \<open>
  SHA-256 of \<open>arduino/libraries/Dtls/sha2/sha2.c\<close> on a little-endian machine, the loop version of the
  transform (\<open>SHA2_UNROLL_TRANSFORM\<close> is not defined). The schedule \<open>W256\<close> is a view of the
  context's buffer, so the transform leaves the last sixteen schedule words in the buffer. SHA-384 and
  SHA-512 are compiled out (\<open>WITH_SHA384\<close>, \<open>WITH_SHA512\<close>). \<open>None\<close> is an access outside an
  array.
\<close>

section \<open>Memory words\<close>

fun le_load :: "u8 list \<Rightarrow> 'a::len word" where
  "le_load [] = 0"
| "le_load (b # bs) = ucast b OR push_bit 8 (le_load bs)"

fun le_store :: "nat \<Rightarrow> 'a::len word \<Rightarrow> u8 list" where
  "le_store 0 w = []"
| "le_store (Suc n) w = ucast w # le_store n (drop_bit 8 w)"

definition REVERSE32 :: "u32 \<Rightarrow> u32" where
  "REVERSE32 w =
     (let tmp = drop_bit 16 w OR push_bit 16 w in
      drop_bit 8 (tmp AND 0xff00ff00) OR push_bit 8 (tmp AND 0x00ff00ff))"

definition REVERSE64 :: "u64 \<Rightarrow> u64" where
  "REVERSE64 w =
     (let tmp = drop_bit 32 w OR push_bit 32 w;
          tmp = drop_bit 8 (tmp AND 0xff00ff00ff00ff00) OR push_bit 8 (tmp AND 0x00ff00ff00ff00ff) in
      drop_bit 16 (tmp AND 0xffff0000ffff0000) OR push_bit 16 (tmp AND 0x0000ffff0000ffff))"

section \<open>The logical functions\<close>

definition S32 :: "nat \<Rightarrow> u32 \<Rightarrow> u32" where
  "S32 b x = drop_bit b x OR push_bit (32 - b) x"

definition Ch :: "u32 \<Rightarrow> u32 \<Rightarrow> u32 \<Rightarrow> u32" where
  "Ch x y z = (x AND y) XOR (NOT x AND z)"

definition Maj :: "u32 \<Rightarrow> u32 \<Rightarrow> u32 \<Rightarrow> u32" where
  "Maj x y z = (x AND y) XOR (x AND z) XOR (y AND z)"

definition Sigma0_256 :: "u32 \<Rightarrow> u32" where
  "Sigma0_256 x = S32 2 x XOR S32 13 x XOR S32 22 x"

definition Sigma1_256 :: "u32 \<Rightarrow> u32" where
  "Sigma1_256 x = S32 6 x XOR S32 11 x XOR S32 25 x"

definition sigma0_256 :: "u32 \<Rightarrow> u32" where
  "sigma0_256 x = S32 7 x XOR S32 18 x XOR drop_bit 3 x"

definition sigma1_256 :: "u32 \<Rightarrow> u32" where
  "sigma1_256 x = S32 17 x XOR S32 19 x XOR drop_bit 10 x"

text \<open>The round constants and the initial value, in decimal.\<close>

definition K256 :: "u32 list" where
  "K256 = [
     1116352408, 1899447441, 3049323471, 3921009573, 961987163, 1508970993, 2453635748, 2870763221,
     3624381080, 310598401, 607225278, 1426881987, 1925078388, 2162078206, 2614888103, 3248222580,
     3835390401, 4022224774, 264347078, 604807628, 770255983, 1249150122, 1555081692, 1996064986,
     2554220882, 2821834349, 2952996808, 3210313671, 3336571891, 3584528711, 113926993, 338241895,
     666307205, 773529912, 1294757372, 1396182291, 1695183700, 1986661051, 2177026350, 2456956037,
     2730485921, 2820302411, 3259730800, 3345764771, 3516065817, 3600352804, 4094571909, 275423344,
     430227734, 506948616, 659060556, 883997877, 958139571, 1322822218, 1537002063, 1747873779,
     1955562222, 2024104815, 2227730452, 2361852424, 2428436474, 2756734187, 3204031479, 3329325298]"

definition sha256_initial_hash_value :: "u32 list" where
  "sha256_initial_hash_value = [1779033703, 3144134277, 1013904242, 2773480762, 1359893119, 2600822924, 528734635, 1541459225]"

section \<open>The context and the transform\<close>

record sha256_ctx =
  state :: "u32 list"
  bitcount :: u64
  buffer :: "u8 list"

type_synonym sha256_regs = "u32 \<times> u32 \<times> u32 \<times> u32 \<times> u32 \<times> u32 \<times> u32 \<times> u32"

definition SHA256_Init :: sha256_ctx where
  "SHA256_Init = \<lparr>state = sha256_initial_hash_value, bitcount = 0, buffer = replicate 64 0\<rparr>"

fun sha256_round :: "u32 \<Rightarrow> u32 \<Rightarrow> sha256_regs \<Rightarrow> sha256_regs" where
  "sha256_round k w (a, b, c, d, e, f, g, h) =
     (let T1 = h + Sigma1_256 e + Ch e f g + k + w;
          T2 = Sigma0_256 a + Maj a b c in
      (T1 + T2, a, b, c, d + T1, e, f, g))"

text \<open>\<open>do { REVERSE32 (*data++, W256[j]); ... j++; } while (j < 16)\<close>, the first argument is \<open>16 - j\<close>.\<close>

fun sha256_load :: "nat \<Rightarrow> nat \<Rightarrow> u8 list \<Rightarrow> u32 list \<Rightarrow> sha256_regs \<Rightarrow> (u32 list \<times> sha256_regs) option" where
  "sha256_load 0 j data W r = Some (W, r)"
| "sha256_load (Suc n) j data W r = do {
     x \<leftarrow> slice data (4 * j) 4;
     let w = REVERSE32 (le_load x);
     W \<leftarrow> wr W j w;
     k \<leftarrow> rd K256 j;
     sha256_load n (j + 1) data W (sha256_round k w r)
   }"

text \<open>The loop for \<open>j < 64\<close>, the first argument is \<open>64 - j\<close>.\<close>

fun sha256_expand :: "nat \<Rightarrow> nat \<Rightarrow> u32 list \<Rightarrow> sha256_regs \<Rightarrow> (u32 list \<times> sha256_regs) option" where
  "sha256_expand 0 j W r = Some (W, r)"
| "sha256_expand (Suc n) j W r = do {
     s0 \<leftarrow> rd W ((j + 1) mod 16);
     s1 \<leftarrow> rd W ((j + 14) mod 16);
     w9 \<leftarrow> rd W ((j + 9) mod 16);
     w0 \<leftarrow> rd W (j mod 16);
     let w = w0 + (sigma1_256 s1 + w9 + sigma0_256 s0);
     W \<leftarrow> wr W (j mod 16) w;
     k \<leftarrow> rd K256 j;
     sha256_expand n (j + 1) W (sha256_round k w r)
   }"

definition get_regs :: "u32 list \<Rightarrow> sha256_regs option" where
  "get_regs s = do {
     a \<leftarrow> rd s 0; b \<leftarrow> rd s 1; c \<leftarrow> rd s 2; d \<leftarrow> rd s 3;
     e \<leftarrow> rd s 4; f \<leftarrow> rd s 5; g \<leftarrow> rd s 6; h \<leftarrow> rd s 7;
     Some (a, b, c, d, e, f, g, h)
   }"

fun add_regs :: "u32 list \<Rightarrow> sha256_regs \<Rightarrow> u32 list" where
  "add_regs s (a, b, c, d, e, f, g, h) = map2 (+) s [a, b, c, d, e, f, g, h]"

fun words_at :: "nat \<Rightarrow> u8 list \<Rightarrow> u32 list" where
  "words_at 0 b = []"
| "words_at (Suc n) b = le_load (take 4 b) # words_at n (drop 4 b)"

definition SHA256_Transform :: "sha256_ctx \<Rightarrow> u8 list \<Rightarrow> sha256_ctx option" where
  "SHA256_Transform ctx data = do {
     r \<leftarrow> get_regs (state ctx);
     (W, r) \<leftarrow> sha256_load 16 0 data (words_at 16 (buffer ctx)) r;
     (W, r) \<leftarrow> sha256_expand 48 16 W r;
     Some (ctx\<lparr>state := add_regs (state ctx) r, buffer := concat (map (le_store 4) W)\<rparr>)
   }"

section \<open>Hashing a message\<close>

definition usedspace :: "u64 \<Rightarrow> nat" where
  "usedspace bits = unat (drop_bit 3 bits) mod 64"

definition add_bits :: "nat \<Rightarrow> sha256_ctx \<Rightarrow> sha256_ctx" where
  "add_bits n ctx = ctx\<lparr>bitcount := bitcount ctx + of_nat (8 * n)\<rparr>"

function sha256_blocks :: "sha256_ctx \<Rightarrow> u8 list \<Rightarrow> (sha256_ctx \<times> u8 list) option" where
  "sha256_blocks ctx data =
     (if 64 \<le> length data then do {
        ctx \<leftarrow> SHA256_Transform ctx (take 64 data);
        sha256_blocks (add_bits 64 ctx) (drop 64 data)
      } else Some (ctx, data))"
  by pat_completeness auto

termination
  by (relation "measure (\<lambda>(ctx, data). length data)") auto

declare sha256_blocks.simps [simp del]

text \<open>The pointer \<open>data\<close> and the length \<open>len\<close> are the list of the bytes that remain.\<close>

definition sha256_rest :: "sha256_ctx \<Rightarrow> u8 list \<Rightarrow> sha256_ctx option" where
  "sha256_rest ctx data = do {
     (ctx, data) \<leftarrow> sha256_blocks ctx data;
     if 0 < length data then do {
       b \<leftarrow> mcopy (buffer ctx) 0 data 0 (length data);
       Some (add_bits (length data) (ctx\<lparr>buffer := b\<rparr>))
     } else Some ctx
   }"

definition SHA256_Update :: "sha256_ctx \<Rightarrow> u8 list \<Rightarrow> sha256_ctx option" where
  "SHA256_Update ctx data =
     (if length data = 0 then Some ctx
      else let used = usedspace (bitcount ctx) in
       if 0 < used then
         let free = 64 - used in
         if free \<le> length data then do {
           b \<leftarrow> mcopy (buffer ctx) used data 0 free;
           let ctx = add_bits free (ctx\<lparr>buffer := b\<rparr>);
           ctx \<leftarrow> SHA256_Transform ctx (buffer ctx);
           sha256_rest ctx (drop free data)
         } else do {
           b \<leftarrow> mcopy (buffer ctx) used data 0 (length data);
           Some (add_bits (length data) (ctx\<lparr>buffer := b\<rparr>))
         }
       else sha256_rest ctx data)"

definition sha256_pad :: "sha256_ctx \<Rightarrow> sha256_ctx option" where
  "sha256_pad ctx = do {
     let used = usedspace (bitcount ctx);
     let ctx = ctx\<lparr>bitcount := REVERSE64 (bitcount ctx)\<rparr>;
     if 0 < used then do {
       b \<leftarrow> wr (buffer ctx) used 0x80;
       let used = used + 1;
       if used \<le> 56 then do {
         b \<leftarrow> mset_at b used 0 (56 - used);
         Some (ctx\<lparr>buffer := b\<rparr>)
       } else do {
         b \<leftarrow> (if used < 64 then mset_at b used 0 (64 - used) else Some b);
         ctx \<leftarrow> SHA256_Transform (ctx\<lparr>buffer := b\<rparr>) b;
         b \<leftarrow> mset_at (buffer ctx) 0 0 56;
         Some (ctx\<lparr>buffer := b\<rparr>)
       }
     } else do {
       b \<leftarrow> mset_at (buffer ctx) 0 0 56;
       b \<leftarrow> wr b 0 0x80;
       Some (ctx\<lparr>buffer := b\<rparr>)
     }
   }"

text \<open>The digest and the cleared context.\<close>

definition SHA256_Final :: "sha256_ctx \<Rightarrow> (u8 list \<times> sha256_ctx) option" where
  "SHA256_Final ctx = do {
     ctx \<leftarrow> sha256_pad ctx;
     b \<leftarrow> mcopy (buffer ctx) 56 (le_store 8 (bitcount ctx)) 0 8;
     ctx \<leftarrow> SHA256_Transform (ctx\<lparr>buffer := b\<rparr>) b;
     let digest = concat (map (\<lambda>w. le_store 4 (REVERSE32 w)) (state ctx));
     Some (digest, \<lparr>state = replicate 8 0, bitcount = 0, buffer = replicate 64 0\<rparr>)
   }"

definition sha2_hex_digits :: string where
  "sha2_hex_digits = ''0123456789abcdef''"

fun hex_loop :: "u8 list \<Rightarrow> string" where
  "hex_loop [] = []"
| "hex_loop (d # ds) =
     sha2_hex_digits ! unat (drop_bit 4 (d AND 0xf0)) # sha2_hex_digits ! unat (d AND 0x0f) # hex_loop ds"

text \<open>The string without its terminating zero.\<close>

definition SHA256_End :: "sha256_ctx \<Rightarrow> (string \<times> sha256_ctx) option" where
  "SHA256_End ctx = do { (digest, ctx) \<leftarrow> SHA256_Final ctx; Some (hex_loop digest, ctx) }"

definition SHA256_Data :: "u8 list \<Rightarrow> string option" where
  "SHA256_Data data = do {
     ctx \<leftarrow> SHA256_Update SHA256_Init data;
     (s, ctx) \<leftarrow> SHA256_End ctx;
     Some s
   }"

end
