(* ===== verification/Sha2_Laws.thy ===== *)
theory Sha2_Laws
  imports Sha2
begin

text \<open>
  SHA-256 as FIPS 180-4 defines it (\<open>sha256\<close>, on whole messages), the proof that the transform of the
  code with its circular schedule computes the compression function, and that a context that is fed
  piece by piece stands for the message so far (\<open>sha_rep\<close>), up to the digest.
\<close>

section \<open>Byte order\<close>

lemma bit_byte: "bit (b :: u8) n \<Longrightarrow> n < 8"
  by (auto dest: bit_imp_le_length)

lemma length_le_store [simp]: "length (le_store n w) = n"
  by (induction n arbitrary: w) simp_all

lemma nth_le_store: "i < n \<Longrightarrow> le_store n w ! i = ucast (drop_bit (8 * i) w)"
proof (induction n arbitrary: w i)
  case (Suc n)
  then show ?case by (cases i) (simp_all add: drop_bit_drop_bit add.commute)
qed simp

lemma bit_le_load_Cons:
  "bit (le_load (b # bs) :: 'a::len word) n \<longleftrightarrow> n < LENGTH('a) \<and> (if n < 8 then bit b n else bit (le_load bs :: 'a word) (n - 8))"
  by (auto simp: bit_simps dest: bit_byte bit_imp_le_length)

lemma bit_le_load: "bit (le_load bs :: 'a::len word) n \<longleftrightarrow> n < LENGTH('a) \<and> n div 8 < length bs \<and> bit (bs ! (n div 8)) (n mod 8)"
proof (induction bs arbitrary: n)
  case (Cons b bs)
  show ?case
  proof (cases "n < 8")
    case False
    then have "n div 8 = Suc ((n - 8) div 8)" "n mod 8 = (n - 8) mod 8" by (simp_all add: le_div_geq le_mod_geq)
    then show ?thesis using False unfolding bit_le_load_Cons Cons.IH by auto
  qed (simp add: bit_le_load_Cons del: le_load.simps)
qed simp

definition be_word :: "u8 list \<Rightarrow> u32" where
  "be_word bs = le_load (rev bs)"

definition be_store :: "nat \<Rightarrow> 'a::len word \<Rightarrow> u8 list" where
  "be_store n w = rev (le_store n w)"

lemma length_be_store [simp]: "length (be_store n w) = n"
  by (simp add: be_store_def)

lemma no_bit_32: "32 \<le> n \<Longrightarrow> \<not> bit (w :: u32) n"
  by (auto dest: bit_imp_le_length)

lemma bit_REVERSE32: "n < 32 \<Longrightarrow> bit (REVERSE32 w) n \<longleftrightarrow> bit w (8 * (3 - n div 8) + n mod 8)"
proof -
  assume "n < 32"
  have m: "(0xff00ff00 :: u32) = push_bit 24 (mask 8) OR push_bit 8 (mask 8)" "(0x00ff00ff :: u32) = push_bit 16 (mask 8) OR mask 8"
    by (simp_all add: mask_eq_exp_minus_1)
  have "n \<in> set (upt 0 32)" using \<open>n < 32\<close> by simp
  then show ?thesis unfolding REVERSE32_def m Let_def by (simp add: upt_rec, (elim disjE; simp add: bit_simps no_bit_32)) (simp_all add: eval_nat_numeral)
qed

lemma no_bit_64: "64 \<le> n \<Longrightarrow> \<not> bit (w :: u64) n"
  by (auto dest: bit_imp_le_length)

lemma bit_REVERSE64: "n < 64 \<Longrightarrow> bit (REVERSE64 w) n \<longleftrightarrow> bit w (8 * (7 - n div 8) + n mod 8)"
proof -
  assume "n < 64"
  have m: "(0xff00ff00ff00ff00 :: u64) = push_bit 56 (mask 8) OR push_bit 40 (mask 8) OR push_bit 24 (mask 8) OR push_bit 8 (mask 8)"
    "(0x00ff00ff00ff00ff :: u64) = push_bit 48 (mask 8) OR push_bit 32 (mask 8) OR push_bit 16 (mask 8) OR mask 8"
    "(0xffff0000ffff0000 :: u64) = push_bit 48 (mask 16) OR push_bit 16 (mask 16)" "(0x0000ffff0000ffff :: u64) = push_bit 32 (mask 16) OR mask 16"
    by (simp_all add: mask_eq_exp_minus_1)
  have "n \<in> set (upt 0 64)" using \<open>n < 64\<close> by simp
  then show ?thesis unfolding REVERSE64_def m Let_def by (simp add: upt_rec, (elim disjE; simp add: bit_simps no_bit_64)) (simp_all add: eval_nat_numeral)
qed

lemma byte_index: "i < k \<Longrightarrow> n < 8 \<Longrightarrow> (n + 8 * i) div 8 = i \<and> (n + 8 * i) mod 8 = n" for i n :: nat
  by simp

lemma REVERSE32_store: "le_store 4 (REVERSE32 w) = be_store 4 w"
proof (rule nth_equalityI)
  fix i assume "i < length (le_store 4 (REVERSE32 w))"
  then have i: "i < 4" by simp
  show "le_store 4 (REVERSE32 w) ! i = be_store 4 w ! i"
  proof (rule bit_word_eqI)
    fix n assume "n < LENGTH(8)"
    then have n: "n < 8" by simp
    have "8 * i + n < 32" "(8 * i + n) div 8 = i" "(8 * i + n) mod 8 = n" using i n by auto
    then show "bit (le_store 4 (REVERSE32 w) ! i) n = bit (be_store 4 w ! i) n"
      using i n by (simp add: be_store_def rev_nth nth_le_store bit_simps bit_REVERSE32)
  qed
qed simp

lemma REVERSE64_store: "le_store 8 (REVERSE64 w) = be_store 8 w"
proof (rule nth_equalityI)
  fix i assume "i < length (le_store 8 (REVERSE64 w))"
  then have i: "i < 8" by simp
  show "le_store 8 (REVERSE64 w) ! i = be_store 8 w ! i"
  proof (rule bit_word_eqI)
    fix n assume "n < LENGTH(8)"
    then have n: "n < 8" by simp
    have "8 * i + n < 64" "(8 * i + n) div 8 = i" "(8 * i + n) mod 8 = n" using i n by auto
    then show "bit (le_store 8 (REVERSE64 w) ! i) n = bit (be_store 8 w ! i) n"
      using i n by (simp add: be_store_def rev_nth nth_le_store bit_simps bit_REVERSE64)
  qed
qed simp

lemma REVERSE32_load: "length bs = 4 \<Longrightarrow> REVERSE32 (le_load bs) = be_word bs"
proof (rule bit_word_eqI)
  fix n assume l: "length bs = 4" and "n < LENGTH(32)"
  then have n: "n < 32" "n div 8 < 4" by auto
  have "8 * (3 - n div 8) + n mod 8 < 32" "(8 * (3 - n div 8) + n mod 8) div 8 = 3 - n div 8" "(8 * (3 - n div 8) + n mod 8) mod 8 = n mod 8"
    using n by auto
  then show "bit (REVERSE32 (le_load bs)) n = bit (be_word bs) n"
    using n l by (simp add: bit_REVERSE32 bit_le_load be_word_def rev_nth)
qed

section \<open>The hash function of FIPS 180-4\<close>

text \<open>The message schedule of a block, the compression and the padding, on lists and without a context.\<close>

fun schedule :: "(nat \<Rightarrow> u32) \<Rightarrow> nat \<Rightarrow> u32" where
  "schedule M t = (if t < 16 then M t
     else sigma1_256 (schedule M (t - 2)) + schedule M (t - 7) + sigma0_256 (schedule M (t - 15)) + schedule M (t - 16))"

declare schedule.simps [simp del]

definition block_words :: "u8 list \<Rightarrow> nat \<Rightarrow> u32" where
  "block_words data i = be_word (take 4 (drop (4 * i) data))"

definition rounds :: "nat list \<Rightarrow> u8 list \<Rightarrow> sha256_regs \<Rightarrow> sha256_regs" where
  "rounds ts data r = foldl (\<lambda>r t. sha256_round (K256 ! t) (schedule (block_words data) t) r) r ts"

definition regs_of :: "u32 list \<Rightarrow> sha256_regs" where
  "regs_of s = (s ! 0, s ! 1, s ! 2, s ! 3, s ! 4, s ! 5, s ! 6, s ! 7)"

definition compress :: "u32 list \<Rightarrow> u8 list \<Rightarrow> u32 list" where
  "compress s data = add_regs s (rounds [0..<64] data (regs_of s))"

function hash_blocks :: "u32 list \<Rightarrow> u8 list \<Rightarrow> u32 list" where
  "hash_blocks s m = (if 64 \<le> length m then hash_blocks (compress s (take 64 m)) (drop 64 m) else s)"
  by pat_completeness auto

termination
  by (relation "measure (\<lambda>(s, m). length m)") auto

declare hash_blocks.simps [simp del]

definition sha_padding :: "nat \<Rightarrow> u8 list" where
  "sha_padding n = 0x80 # replicate ((119 - n mod 64) mod 64) 0 @ be_store 8 (of_nat (8 * n) :: u64)"

definition sha256 :: "u8 list \<Rightarrow> u8 list" where
  "sha256 m = concat (map (be_store 4) (hash_blocks sha256_initial_hash_value (m @ sha_padding (length m))))"

section \<open>The transform\<close>

lemma length_K256 [simp]: "length K256 = 64"
  by (simp add: K256_def)

lemma rounds_Nil: "rounds [] data r = r"
  by (simp add: rounds_def)

lemma rounds_Cons: "j < k \<Longrightarrow> rounds [j..<k] data r = rounds [Suc j..<k] data (sha256_round (K256 ! j) (schedule (block_words data) j) r)"
  by (simp add: rounds_def upt_conv_Cons del: upt_Suc)

lemma sha256_load_val:
  assumes "length W = 16" "64 \<le> length data" "j + n = 16"
  shows "sha256_load n j data W r = Some (take j W @ map (block_words data) [j..<16], rounds [j..<16] data r)"
  using assms
proof (induction n arbitrary: j W r)
  case (Suc n)
  then have j: "j < 16" by simp
  then have "rd K256 j = Some (K256 ! j)" "slice data (4 * j) 4 = Some (take 4 (drop (4 * j) data))"
    using Suc.prems by (simp_all add: rd_def slice_in)
  moreover have "REVERSE32 (le_load (take 4 (drop (4 * j) data))) = block_words data j"
    unfolding block_words_def using j Suc.prems by (intro REVERSE32_load) simp
  moreover have "schedule (block_words data) j = block_words data j" using j by (simp add: schedule.simps)
  ultimately show ?case
    using Suc.IH [of "W[j := block_words data j]" "j + 1"] Suc.prems j
    by (simp add: rounds_Cons upt_conv_Cons [of j 16, THEN arg_cong [of _ _ "map (block_words data)"]] take_Suc_conv_app_nth Let_def
      del: upt_Suc upt_rec_numeral sha256_round.simps)
qed (simp add: rounds_def)

lemma sha256_expand_val:
  assumes "length W = 16" "16 \<le> j" "j + n \<le> 64" "\<And>i. j - 16 \<le> i \<Longrightarrow> i < j \<Longrightarrow> W ! (i mod 16) = schedule (block_words data) i"
  shows "\<exists>W'. sha256_expand n j W r = Some (W', rounds [j..<j + n] data r) \<and> length W' = 16"
  using assms
proof (induction n arbitrary: j W r)
  case (Suc n)
  define w where "w = schedule (block_words data) j"
  have at: "rd W ((j + k) mod 16) = Some (schedule (block_words data) (j + k - 16))" if "k < 16" for k
  proof -
    have "(j + k) mod 16 = (j + k - 16) mod 16" using Suc.prems(2) that by (simp add: le_mod_geq)
    then show ?thesis using Suc.prems(1,2) Suc.prems(4) [of "j + k - 16"] that by (simp add: rd_def)
  qed
  have w: "schedule (block_words data) (j - 16) + (sigma1_256 (schedule (block_words data) (j - 2)) + schedule (block_words data) (j - 7) +
      sigma0_256 (schedule (block_words data) (j - 15))) = w"
    using schedule.simps [of "block_words data" j] Suc.prems(2) unfolding w_def by (simp add: add_ac)
  have step: "sha256_expand (Suc n) j W r = sha256_expand n (j + 1) (W[j mod 16 := w]) (sha256_round (K256 ! j) w r)"
    using at [of 0] at [of 1] at [of 9] at [of 14] Suc.prems w by (simp add: rd_def wr_def Let_def)
  have "(W[j mod 16 := w]) ! (i mod 16) = schedule (block_words data) i" if "j + 1 - 16 \<le> i" "i < j + 1" for i
  proof (cases "i = j")
    case False
    then have "\<not> 16 dvd j - i" using that by (auto dest: dvd_imp_le)
    then have "i mod 16 \<noteq> j mod 16" using that mod_eq_dvd_iff_nat [of i j 16] by auto
    then show ?thesis using Suc.prems(4) [of i] that False by simp
  qed (use Suc.prems(1) in \<open>simp add: w_def\<close>)
  then show ?case
    using Suc.IH [of "W[j mod 16 := w]" "j + 1" "sha256_round (K256 ! j) w r"] Suc.prems(1-3) unfolding step
    by (simp add: rounds_Cons w_def del: upt_Suc sha256_round.simps)
qed (simp add: rounds_Nil)

lemma length_words_at [simp]: "length (words_at n b) = n"
  by (induction n arbitrary: b) simp_all

lemma rounds_append: "rounds (ts @ us) data r = rounds us data (rounds ts data r)"
  by (simp add: rounds_def)

lemma length_concat_le_store: "length (concat (map (le_store n) W)) = n * length W"
  by (induction W) simp_all

lemma length_add_regs: "length s = 8 \<Longrightarrow> length (add_regs s r) = 8"
  by (cases "(s, r)" rule: add_regs.cases) simp

lemma length_compress [simp]: "length s = 8 \<Longrightarrow> length (compress s data) = 8"
  by (simp add: compress_def length_add_regs)

lemma SHA256_Transform_val:
  assumes "length (state ctx) = 8" "64 \<le> length data"
  shows "\<exists>b. SHA256_Transform ctx data = Some (ctx\<lparr>state := compress (state ctx) data, buffer := b\<rparr>) \<and> length b = 64"
proof -
  have "get_regs (state ctx) = Some (regs_of (state ctx))" using assms(1) by (simp add: get_regs_def regs_of_def rd_def)
  moreover have "sha256_load 16 0 data (words_at 16 (buffer ctx)) r = Some (map (block_words data) [0..<16], rounds [0..<16] data r)" for r
    using sha256_load_val [of "words_at 16 (buffer ctx)" data 0 16 r] assms(2) by simp
  moreover obtain W where "sha256_expand 48 16 (map (block_words data) [0..<16]) (rounds [0..<16] data r) = Some (W r, rounds [16..<64] data (rounds [0..<16] data r))"
    "length (W r) = 16" for r
  proof -
    have "\<exists>W'. sha256_expand 48 16 (map (block_words data) [0..<16]) (rounds [0..<16] data r) = Some (W', rounds [16..<64] data (rounds [0..<16] data r)) \<and> length W' = 16" for r
      using sha256_expand_val [of "map (block_words data) [0..<16]" 16 48 data] by (simp add: schedule.simps del: upt_rec_numeral)
    then show ?thesis using that by metis
  qed
  moreover have "[0..<16] @ [16..<64] = [0..<64]" using upt_add_eq_append [of 0 16 48] by (simp del: upt_rec_numeral)
  ultimately show ?thesis
    by (intro exI [of _ "concat (map (le_store 4) (W (regs_of (state ctx))))"])
      (simp add: SHA256_Transform_def compress_def rounds_append [symmetric] length_concat_le_store del: upt_rec_numeral)
qed

section \<open>Contexts and the messages they stand for\<close>

definition sha_rep :: "sha256_ctx \<Rightarrow> u8 list \<Rightarrow> bool" where
  "sha_rep ctx m \<longleftrightarrow> state ctx = hash_blocks sha256_initial_hash_value m \<and> bitcount ctx = of_nat (8 * length m) \<and>
     length (buffer ctx) = 64 \<and> take (length m mod 64) (buffer ctx) = drop (64 * (length m div 64)) m"

lemma length_hash_blocks [simp]: "length s = 8 \<Longrightarrow> length (hash_blocks s m) = 8"
proof (induction s m rule: hash_blocks.induct)
  case (1 s m)
  then show ?case by (subst hash_blocks.simps) simp
qed

lemma length_initial [simp]: "length sha256_initial_hash_value = 8"
  by (simp add: sha256_initial_hash_value_def)

lemma hash_blocks_short: "length m < 64 \<Longrightarrow> hash_blocks s m = s"
  by (simp add: hash_blocks.simps)

lemma hash_blocks_step: "64 \<le> length m \<Longrightarrow> hash_blocks s m = hash_blocks (compress s (take 64 m)) (drop 64 m)"
  by (simp add: hash_blocks.simps [of s m])

lemma hash_blocks_append: "64 dvd length m \<Longrightarrow> hash_blocks s (m @ d) = hash_blocks (hash_blocks s m) d"
proof (induction s m rule: hash_blocks.induct)
  case (1 s m)
  show ?case
  proof (cases "64 \<le> length m")
    case True
    then have "64 dvd length (drop 64 m)" using 1(2) by simp
    then show ?thesis using 1(1) True hash_blocks_step [of m s] hash_blocks_step [of "m @ d" s] by simp
  next
    case False
    then have "m = []" using 1(2) by (auto dest: dvd_imp_le)
    then show ?thesis by (simp add: hash_blocks_short)
  qed
qed

lemma hash_blocks_block: "length b = 64 \<Longrightarrow> hash_blocks s b = compress s b"
  by (simp add: hash_blocks.simps hash_blocks_short)

text \<open>The bytes in the buffer are the part of the message behind the last full block.\<close>

lemma hash_blocks_tail: "hash_blocks s m = hash_blocks s (take (64 * (length m div 64)) m)"
proof -
  have "length (drop (64 * (length m div 64)) m) < 64" by (simp add: minus_mult_div_eq_mod)
  then show ?thesis
    using hash_blocks_append [of "take (64 * (length m div 64)) m" s "drop (64 * (length m div 64)) m"] by (simp add: hash_blocks_short)
qed

lemma usedspace_val: "usedspace (of_nat (8 * n)) = n mod 64"
proof -
  have "unat (of_nat (8 * n) :: u64) = 8 * n mod (8 * 2 ^ 61)" by (simp only: unat_of_nat len_num1 len_bit0 len_bit1) simp
  also have "\<dots> = 8 * (n mod 2 ^ 61)" by (rule mult_mod_right [symmetric])
  finally have "unat (drop_bit 3 (of_nat (8 * n) :: u64)) = n mod 2 ^ 61" by (simp only: unat_drop_bit_eq) (simp only: drop_bit_eq_div, simp)
  then show ?thesis by (simp only: usedspace_def) (simp add: mod_mod_cancel)
qed

lemma bitcount_add: "bitcount (add_bits n ctx) = bitcount ctx + of_nat (8 * n)"
  by (simp add: add_bits_def)

text \<open>Whole blocks.\<close>

lemma sha_rep_aligned:
  "64 dvd length m \<Longrightarrow> sha_rep ctx m \<longleftrightarrow>
     state ctx = hash_blocks sha256_initial_hash_value m \<and> bitcount ctx = of_nat (8 * length m) \<and> length (buffer ctx) = 64"
  by (auto simp: sha_rep_def)

lemma transform_block:
  assumes "state ctx = hash_blocks sha256_initial_hash_value m" "64 dvd length m" "length b = 64"
  shows "\<exists>b'. SHA256_Transform ctx b = Some (ctx\<lparr>state := hash_blocks sha256_initial_hash_value (m @ b), buffer := b'\<rparr>) \<and> length b' = 64"
  using SHA256_Transform_val [of ctx b] assms by (simp add: hash_blocks_append hash_blocks_block)

lemma sha_rep_block:
  assumes "sha_rep ctx m" "64 dvd length m" "length b = 64"
  shows "\<exists>ctx'. SHA256_Transform ctx b = Some ctx' \<and> sha_rep (add_bits 64 ctx') (m @ b)"
proof -
  have "state ctx = hash_blocks sha256_initial_hash_value m" using assms(1) by (simp add: sha_rep_def)
  then obtain b' where "SHA256_Transform ctx b = Some (ctx\<lparr>state := hash_blocks sha256_initial_hash_value (m @ b), buffer := b'\<rparr>)" "length b' = 64"
    using transform_block assms(2,3) by blast
  then show ?thesis using assms by (auto simp: sha_rep_aligned add_bits_def)
qed

lemma sha256_blocks_val:
  assumes "sha_rep ctx m" "64 dvd length m"
  shows "\<exists>ctx'. sha256_blocks ctx d = Some (ctx', drop (64 * (length d div 64)) d) \<and> sha_rep ctx' (m @ take (64 * (length d div 64)) d)"
  using assms
proof (induction "length d" arbitrary: ctx d m rule: less_induct)
  case less
  show ?case
  proof (cases "64 \<le> length d")
    case True
    obtain c1 where c1: "SHA256_Transform ctx (take 64 d) = Some c1" "sha_rep (add_bits 64 c1) (m @ take 64 d)"
      using sha_rep_block [of ctx m "take 64 d"] less.prems True by auto
    have "64 * (length d div 64) = 64 + 64 * (length (drop 64 d) div 64)" using True by (simp add: le_div_geq)
    then show ?thesis
      using less.hyps [of "drop 64 d", OF _ c1(2)] True less.prems(2) c1
      by (subst sha256_blocks.simps) (fastforce simp: take_add drop_drop add.commute)
  qed (use less.prems in \<open>simp add: sha256_blocks.simps\<close>)
qed

lemma sha256_rest_val:
  assumes "sha_rep ctx m" "64 dvd length m"
  shows "\<exists>ctx'. sha256_rest ctx d = Some ctx' \<and> sha_rep ctx' (m @ d)"
proof -
  define k where "k = 64 * (length d div 64)"
  obtain c1 where c1: "sha256_blocks ctx d = Some (c1, drop k d)" "sha_rep c1 (m @ take k d)"
    using sha256_blocks_val [OF assms] unfolding k_def by blast
  have k: "length (drop k d) = length d mod 64" "64 dvd k" "k \<le> length d"
    by (simp_all add: k_def minus_mult_div_eq_mod)
  show ?thesis
  proof (cases "length d mod 64 = 0")
    case True
    then have "take k d = d" using k by simp
    then show ?thesis using c1 True k by (simp add: sha256_rest_def)
  next
    case False
    obtain q where q: "length m = 64 * q" using assms(2) by auto
    have l: "length (m @ d) div 64 = q + length d div 64" "length (m @ d) mod 64 = length d mod 64"
      by (simp_all add: q)
    have "length (m @ take k d) div 64 = q + length d div 64" "length (m @ take k d) mod 64 = 0"
      using k(3) by (simp_all add: q k_def)
    then have r: "state c1 = hash_blocks sha256_initial_hash_value (m @ take k d)" "bitcount c1 = of_nat (8 * (length m + k))" "length (buffer c1) = 64"
      using c1(2) k by (simp_all add: sha_rep_def)
    have "take k d = take (64 * (length d div 64)) d" by (simp add: k_def)
    then have s: "hash_blocks sha256_initial_hash_value (m @ d) = state c1"
      unfolding r(1) using hash_blocks_tail [of _ "m @ d"] unfolding l by (simp add: q k_def)
    define c2 where "c2 = add_bits (length (drop k d)) (c1\<lparr>buffer := put_at (buffer c1) 0 (drop k d)\<rparr>)"
    have rest: "sha256_rest ctx d = Some c2"
      using c1 False k r(3) mod_less_divisor [of 64 "length d"] by (simp add: sha256_rest_def c2_def mcopy_in)
    have "length m + k + length (drop k d) = length (m @ d)" using k by simp
    moreover have "bitcount c2 = bitcount c1 + of_nat (8 * length (drop k d))" by (simp add: c2_def add_bits_def)
    ultimately have n2: "bitcount c2 = of_nat (8 * length (m @ d))" by (simp only: r(2) of_nat_add [symmetric] distrib_left [symmetric])
    have "state c2 = state c1" "length (buffer c2) = 64" "take (length d mod 64) (buffer c2) = drop (64 * (q + length d div 64)) (m @ d)"
      using r k by (simp_all add: c2_def add_bits_def q k_def put_at_def distrib_left)
    then have "sha_rep c2 (m @ d)" unfolding sha_rep_def l s using n2 by simp
    then show ?thesis using rest by blast
  qed
qed

text \<open>Any sequence of bytes is added to the message that a context stands for.\<close>

lemma SHA256_Update_val:
  assumes "sha_rep ctx m"
  shows "\<exists>ctx'. SHA256_Update ctx d = Some ctx' \<and> sha_rep ctx' (m @ d)"
proof (cases "length d = 0")
  case False
  define used where "used = length m mod 64"
  define q where "q = length m div 64"
  have lm: "length m = 64 * q + used" "used < 64" by (simp_all add: q_def used_def)
  have r: "state ctx = hash_blocks sha256_initial_hash_value m" "bitcount ctx = of_nat (8 * length m)" "length (buffer ctx) = 64"
    "take used (buffer ctx) = drop (64 * q) m"
    using assms by (simp_all only: sha_rep_def used_def q_def)
  have u: "usedspace (bitcount ctx) = used" unfolding r(2) usedspace_val used_def ..
  show ?thesis
  proof (cases "used = 0")
    case True
    then show ?thesis using sha256_rest_val [OF assms, of d] False u lm by (simp add: SHA256_Update_def)
  next
    case used: False
    show ?thesis
    proof (cases "64 - used \<le> length d")
      case True
      define b where "b = drop (64 * q) m @ take (64 - used) d"
      define m1 where "m1 = m @ take (64 - used) d"
      have b: "length b = 64" "put_at (buffer ctx) used (take (64 - used) d) = b" "take (64 * q) m @ b = m1"
        using True r(3,4) lm by (simp_all add: b_def put_at_def m1_def)
      have l1: "length m1 = length m + (64 - used)" using True by (simp add: m1_def)
      then have d1: "64 dvd length m1" using lm by simp
      define c1 where "c1 = add_bits (64 - used) (ctx\<lparr>buffer := b\<rparr>)"
      have s1: "state c1 = hash_blocks sha256_initial_hash_value (take (64 * q) m)"
        using r(1) hash_blocks_tail [of _ m] by (simp add: c1_def add_bits_def q_def)
      have "bitcount c1 = of_nat (8 * length m) + of_nat (8 * (64 - used))" by (simp add: c1_def add_bits_def r(2))
      then have n1: "bitcount c1 = of_nat (8 * length m1)" by (simp only: l1 of_nat_add [symmetric] distrib_left [symmetric])
      obtain b' where c2: "SHA256_Transform c1 b = Some (c1\<lparr>state := hash_blocks sha256_initial_hash_value m1, buffer := b'\<rparr>)" "length b' = 64"
        using transform_block [OF s1 _ b(1)] lm(1) b(3) by auto
      then have "sha_rep (c1\<lparr>state := hash_blocks sha256_initial_hash_value m1, buffer := b'\<rparr>) m1"
        using d1 n1 by (simp add: sha_rep_aligned)
      then obtain c3 where "sha256_rest (c1\<lparr>state := hash_blocks sha256_initial_hash_value m1, buffer := b'\<rparr>) (drop (64 - used) d) = Some c3"
        "sha_rep c3 (m1 @ drop (64 - used) d)"
        using sha256_rest_val [OF _ d1] by blast
      moreover have "mcopy (buffer ctx) used d 0 (64 - used) = Some b" using b(2) True r(3) lm(2) by (simp add: mcopy_in)
      moreover have "buffer c1 = b" by (simp add: c1_def add_bits_def)
      ultimately show ?thesis using False u used True c2(1)
        by (simp add: SHA256_Update_def c1_def [symmetric] m1_def)
    next
      case short: False
      define c1 where "c1 = add_bits (length d) (ctx\<lparr>buffer := put_at (buffer ctx) used d\<rparr>)"
      have e: "length (m @ d) = (used + length d) + 64 * q" and lt: "used + length d < 64" using short lm by simp_all
      have l: "length (m @ d) div 64 = q" "length (m @ d) mod 64 = used + length d"
        unfolding e using lt by simp_all
      have "bitcount c1 = of_nat (8 * length m) + of_nat (8 * length d)" by (simp add: c1_def add_bits_def r(2))
      then have n1: "bitcount c1 = of_nat (8 * length (m @ d))" by (simp only: length_append of_nat_add [symmetric] distrib_left [symmetric])
      have "hash_blocks sha256_initial_hash_value (m @ d) = hash_blocks sha256_initial_hash_value (take (64 * q) m)"
        using hash_blocks_tail [of sha256_initial_hash_value "m @ d", unfolded l] lm(1) by (simp only: take_append) simp
      also have "\<dots> = state c1" using r(1) hash_blocks_tail [of sha256_initial_hash_value m] by (simp add: c1_def add_bits_def q_def)
      finally have "state c1 = hash_blocks sha256_initial_hash_value (m @ d)" ..
      moreover have "take (used + length d) (buffer c1) = drop (64 * q) (m @ d)" "length (buffer c1) = 64"
        using short r(3,4) lm by (simp_all add: c1_def add_bits_def put_at_def)
      ultimately have "sha_rep c1 (m @ d)" unfolding sha_rep_def l using n1 by simp
      then show ?thesis using False u used short r(3) lm(2) by (simp add: SHA256_Update_def c1_def mcopy_in)
    qed
  qed
qed (use assms in \<open>simp add: SHA256_Update_def\<close>)

section \<open>The last blocks\<close>

lemma mset_put: "p + n \<le> length b \<Longrightarrow> mset_at b p c n = Some (put_at b p (replicate n c))"
  by (simp add: mset_at_in put_at_def)

lemma sha256_pad_val:
  assumes "sha_rep ctx m"
  shows "\<exists>c1 pre. sha256_pad ctx = Some c1 \<and> 64 dvd length pre \<and> state c1 = hash_blocks sha256_initial_hash_value pre \<and> length (buffer c1) = 64 \<and>
    bitcount c1 = REVERSE64 (of_nat (8 * length m)) \<and> m @ sha_padding (length m) = pre @ take 56 (buffer c1) @ be_store 8 (of_nat (8 * length m) :: u64)"
proof -
  define used where "used = length m mod 64"
  define q where "q = length m div 64"
  define b where "b = buffer ctx"
  define mq where "mq = take (64 * q) m"
  define t where "t = take used b"
  have lm: "length m = 64 * q + used" "used < 64" by (simp_all add: q_def used_def)
  have r: "state ctx = hash_blocks sha256_initial_hash_value m" "bitcount ctx = of_nat (8 * length m)" "length b = 64" "t = drop (64 * q) m"
    using assms by (simp_all only: sha_rep_def used_def q_def b_def t_def)
  have m: "m = mq @ t" "length t = used" "64 dvd length mq" using r(3,4) lm by (simp_all add: mq_def t_def)
  have s: "state ctx = hash_blocks sha256_initial_hash_value mq" using r(1) hash_blocks_tail [of sha256_initial_hash_value m] by (simp only: mq_def q_def)
  have u: "usedspace (bitcount ctx) = used" unfolding r(2) usedspace_val used_def ..
  define L where "L = (of_nat (8 * length m) :: u64)"
  define c0 where "c0 = ctx\<lparr>bitcount := REVERSE64 L\<rparr>"
  have pad: "sha_padding (length m) = 0x80 # replicate ((119 - used) mod 64) 0 @ be_store 8 L" by (simp add: sha_padding_def used_def L_def)
  consider "used = 0" | "0 < used" "used < 56" | "56 \<le> used" by linarith
  then show ?thesis
  proof cases
    case 1
    define c1 where "c1 = c0\<lparr>buffer := 0x80 # replicate 55 0 @ drop 56 b\<rparr>"
    have "replicate 56 (0 :: u8) = 0 # replicate 55 0" by (simp flip: replicate_Suc)
    then have "mset_at b 0 0 56 = Some (0 # replicate 55 0 @ drop 56 b)" using r(3) by (simp add: mset_put put_at_def)
    then have "sha256_pad ctx = Some c1"
      using 1 u unfolding sha256_pad_def r(2) L_def [symmetric] by (simp add: c1_def c0_def b_def)
    moreover have "state c1 = hash_blocks sha256_initial_hash_value mq" "length (buffer c1) = 64" "bitcount c1 = REVERSE64 L"
      using s r(3) by (simp_all add: c1_def c0_def)
    moreover have "m @ sha_padding (length m) = mq @ take 56 (buffer c1) @ be_store 8 L"
      unfolding pad using m 1 by (simp add: c1_def)
    ultimately show ?thesis using m(3) unfolding L_def [symmetric] by blast
  next
    case 2
    define c1 where "c1 = c0\<lparr>buffer := t @ 0x80 # replicate (55 - used) 0 @ drop 56 b\<rparr>"
    have "put_at (b[used := 0x80]) (used + 1) (replicate (55 - used) 0) = t @ 0x80 # replicate (55 - used) 0 @ drop 56 b"
      using 2 r(3) by (simp add: put_at_def t_def upd_conv_take_nth_drop drop_Cons')
    then have "sha256_pad ctx = Some c1"
      using 2 r(3) u unfolding sha256_pad_def r(2) L_def [symmetric] by (simp add: c1_def c0_def b_def mset_put)
    moreover have "state c1 = hash_blocks sha256_initial_hash_value mq" "length (buffer c1) = 64" "bitcount c1 = REVERSE64 L"
      using s r(3) 2 m(2) by (simp_all add: c1_def c0_def)
    moreover have "(119 - used) mod 64 = 55 - used"
    proof -
      obtain v where "used + v = 55" using 2 le_Suc_ex [of used 55] by auto
      then have "119 - used = v + 64" "55 - used = v" "v < 64" by simp_all
      then show ?thesis by simp
    qed
    then have "m @ sha_padding (length m) = mq @ take 56 (buffer c1) @ be_store 8 L"
      unfolding pad using m 2 by (simp add: c1_def take_Cons')
    ultimately show ?thesis using m(3) unfolding L_def [symmetric] by blast
  next
    case 3
    define b1 where "b1 = t @ 0x80 # replicate (63 - used) 0"
    have b1: "length b1 = 64" using m(2) lm by (simp add: b1_def)
    have w: "(if used < 63 then mset_at (b[used := 0x80]) (Suc used) 0 (64 - Suc used) else Some (b[used := 0x80])) = Some b1"
      using 3 lm r(3) by (auto simp: mset_put put_at_def t_def upd_conv_take_nth_drop b1_def)
    have "state (c0\<lparr>buffer := b1\<rparr>) = hash_blocks sha256_initial_hash_value mq" using s by (simp add: c0_def)
    from transform_block [OF this m(3) b1] obtain b2 where b2:
      "SHA256_Transform (c0\<lparr>buffer := b1\<rparr>) b1 = Some (c0\<lparr>state := hash_blocks sha256_initial_hash_value (mq @ b1), buffer := b2\<rparr>)" "length b2 = 64"
      by auto
    define c1 where "c1 = c0\<lparr>state := hash_blocks sha256_initial_hash_value (mq @ b1), buffer := replicate 56 0 @ drop 56 b2\<rparr>"
    have "buffer c0 = b" by (simp add: c0_def b_def)
    then have "sha256_pad ctx = Some c1"
      using 3 lm r(3) u w b2 unfolding sha256_pad_def r(2) L_def [symmetric]
      by (simp add: c1_def c0_def [symmetric] b_def [symmetric] mset_put put_at_def Let_def)
    moreover have "state c1 = hash_blocks sha256_initial_hash_value (mq @ b1)" "length (buffer c1) = 64" "bitcount c1 = REVERSE64 L" "64 dvd length (mq @ b1)"
      using b2(2) m(3) b1 by (simp_all add: c1_def c0_def)
    moreover have "(119 - used) mod 64 = (63 - used) + 56" using 3 lm by simp
    then have "replicate ((119 - used) mod 64) (0 :: u8) = replicate (63 - used) 0 @ replicate 56 0" by (simp only: replicate_add)
    then have "m @ sha_padding (length m) = (mq @ b1) @ take 56 (buffer c1) @ be_store 8 L"
      unfolding pad using m by (simp only: c1_def b1_def append_assoc append_Cons) simp
    ultimately show ?thesis unfolding L_def [symmetric] by blast
  qed
qed

lemma SHA256_Final_val:
  assumes "sha_rep ctx m"
  shows "SHA256_Final ctx = Some (sha256 m, \<lparr>state = replicate 8 0, bitcount = 0, buffer = replicate 64 0\<rparr>)"
proof -
  obtain c1 pre where c1: "sha256_pad ctx = Some c1" "64 dvd length pre" "state c1 = hash_blocks sha256_initial_hash_value pre" "length (buffer c1) = 64"
    "bitcount c1 = REVERSE64 (of_nat (8 * length m))" "m @ sha_padding (length m) = pre @ take 56 (buffer c1) @ be_store 8 (of_nat (8 * length m) :: u64)"
    using sha256_pad_val [OF assms] by blast
  define b where "b = take 56 (buffer c1) @ be_store 8 (of_nat (8 * length m) :: u64)"
  have b: "length b = 64" "mcopy (buffer c1) 56 (le_store 8 (bitcount c1)) 0 8 = Some b"
    using c1(4,5) by (simp_all add: b_def mcopy_in put_at_def REVERSE64_store)
  have "state (c1\<lparr>buffer := b\<rparr>) = hash_blocks sha256_initial_hash_value pre" using c1(3) by simp
  from transform_block [OF this c1(2) b(1)] obtain b' where
    "SHA256_Transform (c1\<lparr>buffer := b\<rparr>) b = Some (c1\<lparr>state := hash_blocks sha256_initial_hash_value (pre @ b), buffer := b'\<rparr>)"
    by auto
  moreover have "pre @ b = m @ sha_padding (length m)" by (simp add: b_def c1(6))
  ultimately show ?thesis by (simp add: SHA256_Final_def c1(1) b(2) Let_def sha256_def REVERSE32_store)
qed

lemma sha_rep_init: "sha_rep SHA256_Init []"
  by (simp add: sha_rep_def SHA256_Init_def hash_blocks_short)

text \<open>Hashing in pieces.\<close>

fun SHA256_Updates :: "sha256_ctx \<Rightarrow> u8 list list \<Rightarrow> sha256_ctx option" where
  "SHA256_Updates ctx [] = Some ctx"
| "SHA256_Updates ctx (d # ds) = do { ctx \<leftarrow> SHA256_Update ctx d; SHA256_Updates ctx ds }"

lemma SHA256_Updates_val: "sha_rep ctx m \<Longrightarrow> \<exists>ctx'. SHA256_Updates ctx ds = Some ctx' \<and> sha_rep ctx' (m @ concat ds)"
proof (induction ds arbitrary: ctx m)
  case (Cons d ds)
  then show ?case using SHA256_Update_val [OF Cons.prems, of d] by fastforce
qed simp

text \<open>
  C11. However a message is cut into pieces, initialising a context, adding the pieces and finalising
  gives the SHA-256 digest of the whole message as FIPS 180-4 defines it, with every access inside the
  buffers, and a context without traces of the message.
\<close>
theorem sha256_streaming:
  "(do { ctx \<leftarrow> SHA256_Updates SHA256_Init ds; SHA256_Final ctx }) =
     Some (sha256 (concat ds), \<lparr>state = replicate 8 0, bitcount = 0, buffer = replicate 64 0\<rparr>)"
  using SHA256_Updates_val [OF sha_rep_init, of ds] SHA256_Final_val by auto

text \<open>The first test vector of FIPS 180.\<close>

lemma sha256_abc: "SHA256_Data [97, 98, 99] = Some ''ba7816bf8f01cfea414140de5dae2223b00361a396177a9cb410ff61f20015ad''"
  by code_simp

end
