(* ===== verification/Hmac.thy ===== *)
theory Hmac
  imports Sha2_Laws
begin

text \<open>
  HMAC with SHA-256: \<open>arduino/libraries/Dtls/hmac.c\<close> and the hash interface of \<open>hmac.h\<close>, against RFC
  2104 (\<open>hmac\<close>). A context stands for a key and the message so far (\<open>hmac_rep\<close>). \<open>malloc\<close> is an
  argument of \<open>dtls_hmac_new\<close>.
\<close>

section \<open>The code\<close>

abbreviation (input) DTLS_HMAC_BLOCKSIZE :: nat where "DTLS_HMAC_BLOCKSIZE \<equiv> 64"
abbreviation (input) DTLS_HMAC_DIGEST_SIZE :: nat where "DTLS_HMAC_DIGEST_SIZE \<equiv> 32"

record hmac_context =
  pad :: "u8 list"
  hdata :: sha256_ctx

definition dtls_hash_init :: sha256_ctx where
  "dtls_hash_init = SHA256_Init"

definition dtls_hash_update :: "sha256_ctx \<Rightarrow> u8 list \<Rightarrow> sha256_ctx option" where
  "dtls_hash_update ctx input = SHA256_Update ctx input"

text \<open>The digest, its length, the context.\<close>

definition dtls_hash_finalize :: "sha256_ctx \<Rightarrow> (u8 list \<times> nat \<times> sha256_ctx) option" where
  "dtls_hash_finalize ctx = do { (digest, ctx) \<leftarrow> SHA256_Final ctx; Some (digest, 32, ctx) }"

definition dtls_hmac_update :: "hmac_context \<Rightarrow> u8 list \<Rightarrow> hmac_context option" where
  "dtls_hmac_update ctx input = do { d \<leftarrow> dtls_hash_update (hdata ctx) input; Some (ctx\<lparr>hdata := d\<rparr>) }"

text \<open>\<open>for (i=0; i < DTLS_HMAC_BLOCKSIZE; ++i) ctx->pad[i] ^= c\<close>; the first argument is what is left of the loop.\<close>

fun pad_loop :: "nat \<Rightarrow> nat \<Rightarrow> u8 \<Rightarrow> u8 list \<Rightarrow> u8 list option" where
  "pad_loop 0 i c p = Some p"
| "pad_loop (Suc n) i c p = do { x \<leftarrow> rd p i; p \<leftarrow> wr p i (x XOR c); pad_loop n (Suc i) c p }"

definition dtls_hmac_init :: "u8 list \<Rightarrow> hmac_context option" where
  "dtls_hmac_init key = do {
     let ctx = \<lparr>pad = replicate 64 0, hdata = \<lparr>state = replicate 8 0, bitcount = 0, buffer = replicate 64 0\<rparr>\<rparr>;
     ctx \<leftarrow> (if length key > DTLS_HMAC_BLOCKSIZE then do {
         d \<leftarrow> dtls_hash_update dtls_hash_init key;
         (digest, n, d) \<leftarrow> dtls_hash_finalize d;
         p \<leftarrow> mcopy (pad ctx) 0 digest 0 32;
         Some (ctx\<lparr>pad := p, hdata := d\<rparr>)
       } else do {
         p \<leftarrow> mcopy (pad ctx) 0 key 0 (length key);
         Some (ctx\<lparr>pad := p\<rparr>)
       });
     p \<leftarrow> pad_loop DTLS_HMAC_BLOCKSIZE 0 0x36 (pad ctx);
     ctx \<leftarrow> dtls_hmac_update (ctx\<lparr>pad := p, hdata := dtls_hash_init\<rparr>) p;
     p \<leftarrow> pad_loop DTLS_HMAC_BLOCKSIZE 0 0x6A (pad ctx);
     Some (ctx\<lparr>pad := p\<rparr>)
   }"

text \<open>\<open>malloc\<close> succeeds or not; \<open>Some None\<close> is the null pointer.\<close>

definition dtls_hmac_new :: "bool \<Rightarrow> u8 list \<Rightarrow> hmac_context option option" where
  "dtls_hmac_new mem key = (if mem then do { ctx \<leftarrow> dtls_hmac_init key; Some (Some ctx) } else Some None)"

definition dtls_hmac_finalize :: "hmac_context \<Rightarrow> (u8 list \<times> nat \<times> hmac_context) option" where
  "dtls_hmac_finalize ctx = do {
     (buf, len, d) \<leftarrow> dtls_hash_finalize (hdata ctx);
     p \<leftarrow> slice (pad ctx) 0 DTLS_HMAC_BLOCKSIZE;
     d \<leftarrow> dtls_hash_update dtls_hash_init p;
     b \<leftarrow> slice buf 0 len;
     d \<leftarrow> dtls_hash_update d b;
     (result, len, d) \<leftarrow> dtls_hash_finalize d;
     Some (result, len, ctx\<lparr>hdata := d\<rparr>)
   }"

section \<open>HMAC of RFC 2104\<close>

definition hmac_key :: "u8 list \<Rightarrow> u8 list" where
  "hmac_key key = (let k = (if length key > 64 then sha256 key else key) in k @ replicate (64 - length k) 0)"

definition hmac :: "u8 list \<Rightarrow> u8 list \<Rightarrow> u8 list" where
  "hmac key m = sha256 (map ((XOR) 0x5c) (hmac_key key) @ sha256 (map ((XOR) 0x36) (hmac_key key) @ m))"

lemma length_sha256 [simp]: "length (sha256 m) = 32"
proof -
  have "length (concat (map (be_store 4) (W :: u32 list))) = 4 * length W" for W by (induction W) simp_all
  then show ?thesis by (simp add: sha256_def)
qed

lemma length_hmac_key [simp]: "length (hmac_key key) = 64"
  by (simp add: hmac_key_def Let_def)

lemma length_hmac [simp]: "length (hmac key m) = 32"
  by (simp add: hmac_def)

lemma pad_loop_val: "i + n = length p \<Longrightarrow> pad_loop n i c p = Some (take i p @ map ((XOR) c) (drop i p))"
proof (induction n arbitrary: i p)
  case (Suc n)
  then show ?case
    by (simp add: take_Suc_conv_app_nth Cons_nth_drop_Suc [symmetric, of i p] xor.commute)
qed simp

text \<open>The context that stands for a key and the message so far.\<close>

definition hmac_rep :: "hmac_context \<Rightarrow> u8 list \<Rightarrow> u8 list \<Rightarrow> bool" where
  "hmac_rep ctx key m \<longleftrightarrow> pad ctx = map ((XOR) 0x5c) (hmac_key key) \<and> sha_rep (hdata ctx) (map ((XOR) 0x36) (hmac_key key) @ m)"

lemma hash_finalize_val: "sha_rep d m \<Longrightarrow> \<exists>d'. dtls_hash_finalize d = Some (sha256 m, 32, d')"
  using SHA256_Final_val by (simp add: dtls_hash_finalize_def)

lemma hash_update_val: "sha_rep d m \<Longrightarrow> \<exists>d'. dtls_hash_update d x = Some d' \<and> sha_rep d' (m @ x)"
  using SHA256_Update_val by (simp add: dtls_hash_update_def)

lemma hash_init_val: "sha_rep dtls_hash_init []"
  by (simp add: dtls_hash_init_def sha_rep_init)

lemma hmac_update_val:
  "hmac_rep ctx key m \<Longrightarrow> \<exists>ctx'. dtls_hmac_update ctx d = Some ctx' \<and> hmac_rep ctx' key (m @ d)"
  using SHA256_Update_val [of "hdata ctx" _ d] by (fastforce simp: hmac_rep_def dtls_hmac_update_def dtls_hash_update_def)

lemma hmac_init_val: "\<exists>ctx. dtls_hmac_init key = Some ctx \<and> hmac_rep ctx key []"
proof -
  define c0 where "c0 = \<lparr>pad = replicate 64 0, hdata = \<lparr>state = replicate 8 0, bitcount = 0, buffer = replicate 64 0\<rparr>\<rparr>"
  have "\<exists>c1. (if length key > 64 then do {
         d \<leftarrow> dtls_hash_update dtls_hash_init key;
         (digest, n, d) \<leftarrow> dtls_hash_finalize d;
         p \<leftarrow> mcopy (pad c0) 0 digest 0 32;
         Some (c0\<lparr>pad := p, hdata := d\<rparr>)
       } else do {
         p \<leftarrow> mcopy (pad c0) 0 key 0 (length key);
         Some (c0\<lparr>pad := p\<rparr>)
       }) = Some c1 \<and> pad c1 = hmac_key key"
  proof (cases "length key > 64")
    case True
    obtain d d' where "dtls_hash_update dtls_hash_init key = Some d" "dtls_hash_finalize d = Some (sha256 key, 32, d')"
      using hash_update_val [OF hash_init_val, of key] hash_finalize_val by fastforce
    then show ?thesis using True by (simp add: c0_def mcopy_in put_at_def hmac_key_def)
  qed (simp add: c0_def mcopy_in put_at_def hmac_key_def)
  then obtain c1 where c1: "(if length key > 64 then do {
         d \<leftarrow> dtls_hash_update dtls_hash_init key;
         (digest, n, d) \<leftarrow> dtls_hash_finalize d;
         p \<leftarrow> mcopy (pad c0) 0 digest 0 32;
         Some (c0\<lparr>pad := p, hdata := d\<rparr>)
       } else do {
         p \<leftarrow> mcopy (pad c0) 0 key 0 (length key);
         Some (c0\<lparr>pad := p\<rparr>)
       }) = Some c1" "pad c1 = hmac_key key" by blast
  define ip where "ip = map ((XOR) 0x36) (hmac_key key)"
  have p1: "pad_loop 64 0 0x36 (hmac_key key) = Some ip" by (simp add: pad_loop_val ip_def)
  have "(0x6A :: u8) XOR (0x36 XOR x) = 0x5c XOR x" for x by (simp add: xor.assoc [symmetric])
  then have p2: "pad_loop 64 0 0x6A ip = Some (map ((XOR) 0x5c) (hmac_key key))" by (simp add: pad_loop_val ip_def)
  obtain d where d: "dtls_hash_update dtls_hash_init ip = Some d" "sha_rep d ip"
    using hash_update_val [OF hash_init_val, of ip] by auto
  have "dtls_hmac_init key = Some (c1\<lparr>pad := map ((XOR) 0x5c) (hmac_key key), hdata := d\<rparr>)"
    unfolding dtls_hmac_init_def Let_def c0_def [symmetric] c1(1) bind.bind_lunit c1(2) p1 by (simp add: dtls_hmac_update_def d(1) p2)
  then show ?thesis using d(2) by (simp add: hmac_rep_def ip_def)
qed

lemma hmac_finalize_val: "hmac_rep ctx key m \<Longrightarrow> \<exists>ctx'. dtls_hmac_finalize ctx = Some (hmac key m, 32, ctx')"
proof -
  assume r: "hmac_rep ctx key m"
  define op where "op = map ((XOR) 0x5c) (hmac_key key)"
  define inner where "inner = sha256 (map ((XOR) 0x36) (hmac_key key) @ m)"
  obtain d0 where d0: "dtls_hash_finalize (hdata ctx) = Some (inner, 32, d0)" using r hash_finalize_val by (auto simp: hmac_rep_def inner_def)
  obtain d1 where d1: "dtls_hash_update dtls_hash_init op = Some d1" "sha_rep d1 op"
    using hash_update_val [OF hash_init_val, of op] by auto
  obtain d2 where d2: "dtls_hash_update d1 inner = Some d2" "sha_rep d2 (op @ inner)"
    using hash_update_val [OF d1(2), of inner] by auto
  obtain d3 where d3: "dtls_hash_finalize d2 = Some (hmac key m, 32, d3)" using hash_finalize_val [OF d2(2)] by (auto simp: hmac_def op_def inner_def)
  have "slice (pad ctx) 0 64 = Some op" "slice inner 0 32 = Some inner"
    using r by (simp_all add: slice_in hmac_rep_def op_def inner_def)
  then show ?thesis by (simp add: dtls_hmac_finalize_def d0 d1(1) d2(1) d3)
qed

end
