(* ===== verification/Numeric.thy ===== *)
theory Numeric
  imports Prelude
begin

text \<open>
  The byte codecs of \<open>arduino/libraries/Dtls/numeric.h\<close>: integers of 8, 16, 24, 32, 48 and 64
  bits in network byte order. A field is a byte array with an offset; writing returns the updated
  array. A field outside the array is \<open>None\<close>.
\<close>

section \<open>Definitions\<close>

definition dtls_int_to_uint8 :: "u8 list \<Rightarrow> nat \<Rightarrow> u8 \<Rightarrow> u8 list option" where
  "dtls_int_to_uint8 f p v = wr f p (v AND 0xff)"

definition dtls_int_to_uint16 :: "u8 list \<Rightarrow> nat \<Rightarrow> u16 \<Rightarrow> u8 list option" where
  "dtls_int_to_uint16 f p v = do {
     f \<leftarrow> wr f p (ucast (drop_bit 8 v AND 0xff));
     wr f (p + 1) (ucast (v AND 0xff))
   }"

definition dtls_int_to_uint24 :: "u8 list \<Rightarrow> nat \<Rightarrow> u32 \<Rightarrow> u8 list option" where
  "dtls_int_to_uint24 f p v = do {
     f \<leftarrow> wr f p (ucast (drop_bit 16 v AND 0xff));
     f \<leftarrow> wr f (p + 1) (ucast (drop_bit 8 v AND 0xff));
     wr f (p + 2) (ucast (v AND 0xff))
   }"

definition dtls_int_to_uint32 :: "u8 list \<Rightarrow> nat \<Rightarrow> u32 \<Rightarrow> u8 list option" where
  "dtls_int_to_uint32 f p v = do {
     f \<leftarrow> wr f p (ucast (drop_bit 24 v AND 0xff));
     f \<leftarrow> wr f (p + 1) (ucast (drop_bit 16 v AND 0xff));
     f \<leftarrow> wr f (p + 2) (ucast (drop_bit 8 v AND 0xff));
     wr f (p + 3) (ucast (v AND 0xff))
   }"

definition dtls_int_to_uint48 :: "u8 list \<Rightarrow> nat \<Rightarrow> u64 \<Rightarrow> u8 list option" where
  "dtls_int_to_uint48 f p v = do {
     f \<leftarrow> wr f p (ucast (drop_bit 40 v AND 0xff));
     f \<leftarrow> wr f (p + 1) (ucast (drop_bit 32 v AND 0xff));
     f \<leftarrow> wr f (p + 2) (ucast (drop_bit 24 v AND 0xff));
     f \<leftarrow> wr f (p + 3) (ucast (drop_bit 16 v AND 0xff));
     f \<leftarrow> wr f (p + 4) (ucast (drop_bit 8 v AND 0xff));
     wr f (p + 5) (ucast (v AND 0xff))
   }"

definition dtls_int_to_uint64 :: "u8 list \<Rightarrow> nat \<Rightarrow> u64 \<Rightarrow> u8 list option" where
  "dtls_int_to_uint64 f p v = do {
     f \<leftarrow> wr f p (ucast (drop_bit 56 v AND 0xff));
     f \<leftarrow> wr f (p + 1) (ucast (drop_bit 48 v AND 0xff));
     f \<leftarrow> wr f (p + 2) (ucast (drop_bit 40 v AND 0xff));
     f \<leftarrow> wr f (p + 3) (ucast (drop_bit 32 v AND 0xff));
     f \<leftarrow> wr f (p + 4) (ucast (drop_bit 24 v AND 0xff));
     f \<leftarrow> wr f (p + 5) (ucast (drop_bit 16 v AND 0xff));
     f \<leftarrow> wr f (p + 6) (ucast (drop_bit 8 v AND 0xff));
     wr f (p + 7) (ucast (v AND 0xff))
   }"

definition dtls_uint8_to_int :: "u8 list \<Rightarrow> nat \<Rightarrow> u8 option" where
  "dtls_uint8_to_int f p = rd f p"

definition dtls_uint16_to_int :: "u8 list \<Rightarrow> nat \<Rightarrow> u16 option" where
  "dtls_uint16_to_int f p = do {
     a \<leftarrow> rd f p;
     b \<leftarrow> rd f (p + 1);
     Some (push_bit 8 (ucast a) OR ucast b)
   }"

definition dtls_uint24_to_int :: "u8 list \<Rightarrow> nat \<Rightarrow> u32 option" where
  "dtls_uint24_to_int f p = do {
     a \<leftarrow> rd f p;
     b \<leftarrow> rd f (p + 1);
     c \<leftarrow> rd f (p + 2);
     Some (push_bit 16 (ucast a) OR push_bit 8 (ucast b) OR ucast c)
   }"

definition dtls_uint32_to_int :: "u8 list \<Rightarrow> nat \<Rightarrow> u32 option" where
  "dtls_uint32_to_int f p = do {
     a \<leftarrow> rd f p;
     b \<leftarrow> rd f (p + 1);
     c \<leftarrow> rd f (p + 2);
     d \<leftarrow> rd f (p + 3);
     Some (push_bit 24 (ucast a) OR push_bit 16 (ucast b) OR push_bit 8 (ucast c) OR ucast d)
   }"

definition dtls_uint48_to_int :: "u8 list \<Rightarrow> nat \<Rightarrow> u64 option" where
  "dtls_uint48_to_int f p = do {
     a \<leftarrow> rd f p;
     b \<leftarrow> rd f (p + 1);
     c \<leftarrow> rd f (p + 2);
     d \<leftarrow> rd f (p + 3);
     e \<leftarrow> rd f (p + 4);
     g \<leftarrow> rd f (p + 5);
     Some (push_bit 40 (ucast a) OR push_bit 32 (ucast b) OR push_bit 24 (ucast c) OR
           push_bit 16 (ucast d) OR push_bit 8 (ucast e) OR ucast g)
   }"

definition dtls_uint64_to_int :: "u8 list \<Rightarrow> nat \<Rightarrow> u64 option" where
  "dtls_uint64_to_int f p = do {
     a \<leftarrow> rd f p;
     b \<leftarrow> rd f (p + 1);
     c \<leftarrow> rd f (p + 2);
     d \<leftarrow> rd f (p + 3);
     e \<leftarrow> rd f (p + 4);
     g \<leftarrow> rd f (p + 5);
     h \<leftarrow> rd f (p + 6);
     i \<leftarrow> rd f (p + 7);
     Some (push_bit 56 (ucast a) OR push_bit 48 (ucast b) OR push_bit 40 (ucast c) OR
           push_bit 32 (ucast d) OR push_bit 24 (ucast e) OR push_bit 16 (ucast g) OR
           push_bit 8 (ucast h) OR ucast i)
   }"

section \<open>Writing\<close>

text \<open>The bytes of a value, most significant first; each writer puts them in place.\<close>

fun be_bytes :: "nat \<Rightarrow> u64 \<Rightarrow> u8 list" where
  "be_bytes 0 v = []"
| "be_bytes (Suc n) v = ucast (drop_bit (8 * n) v) # be_bytes n v"

lemma length_be_bytes [simp]: "length (be_bytes n v) = n"
  by (induction n) auto

lemma byte_of: "ucast (v AND 0xff) = (ucast v :: u8)" for v :: "'a::len word"
proof -
  have "mask 8 = (0xff :: 'a word)" by (simp add: mask_eq_exp_minus_1)
  then have "v AND 0xff = take_bit 8 v" by (simp only: take_bit_eq_mask)
  then show ?thesis by (simp only:) (intro bit_word_eqI, auto simp: bit_simps)
qed

lemma ucast_drop_ucast:
  "ucast (drop_bit n (ucast (v :: 'a::len word) :: u64)) = (ucast (drop_bit n v) :: u8)"
  if "LENGTH('a) \<le> 64" for n
  using that by (intro bit_word_eqI) (auto simp: bit_simps dest: bit_imp_le_length)

lemma int_to_uint_val:
  "p < length f \<Longrightarrow> dtls_int_to_uint8 f p a = Some (put_at f p (be_bytes 1 (ucast a)))"
  "p + 2 \<le> length f \<Longrightarrow> dtls_int_to_uint16 f p b = Some (put_at f p (be_bytes 2 (ucast b)))"
  "p + 3 \<le> length f \<Longrightarrow> dtls_int_to_uint24 f p c = Some (put_at f p (be_bytes 3 (ucast c)))"
  "p + 4 \<le> length f \<Longrightarrow> dtls_int_to_uint32 f p c = Some (put_at f p (be_bytes 4 (ucast c)))"
  "p + 6 \<le> length f \<Longrightarrow> dtls_int_to_uint48 f p d = Some (put_at f p (be_bytes 6 d))"
  "p + 8 \<le> length f \<Longrightarrow> dtls_int_to_uint64 f p d = Some (put_at f p (be_bytes 8 d))"
  using byte_of [of a]
  by (simp_all add: dtls_int_to_uint8_def dtls_int_to_uint16_def dtls_int_to_uint24_def dtls_int_to_uint32_def
      dtls_int_to_uint48_def dtls_int_to_uint64_def put_at_Cons byte_of numeral_eq_Suc ucast_drop_ucast
      ucast_drop_ucast [of 0, simplified])

section \<open>Reading back\<close>

fun be_val :: "u8 list \<Rightarrow> u64" where
  "be_val [] = 0"
| "be_val (b # bs) = push_bit (8 * length bs) (ucast b) OR be_val bs"

lemma be_val_be_bytes: "n \<le> 8 \<Longrightarrow> be_val (be_bytes n v) = take_bit (8 * n) v"
proof (induction n)
  case (Suc n)
  then have "be_val (be_bytes (Suc n) v) = push_bit (8 * n) (ucast (ucast (drop_bit (8 * n) v) :: u8)) OR take_bit (8 * n) v"
    by simp
  also have "\<dots> = take_bit (8 * Suc n) v"
    by (rule bit_word_eqI) (auto simp: bit_simps)
  finally show ?case .
qed simp

lemma take_drop_list:
  "p < length f \<Longrightarrow> take 1 (drop p f) = [f ! p]"
  "p + 2 \<le> length f \<Longrightarrow> take 2 (drop p f) = [f ! p, f ! (p + 1)]"
  "p + 3 \<le> length f \<Longrightarrow> take 3 (drop p f) = [f ! p, f ! (p + 1), f ! (p + 2)]"
  "p + 4 \<le> length f \<Longrightarrow> take 4 (drop p f) = [f ! p, f ! (p + 1), f ! (p + 2), f ! (p + 3)]"
  "p + 6 \<le> length f \<Longrightarrow> take 6 (drop p f) = [f ! p, f ! (p + 1), f ! (p + 2), f ! (p + 3), f ! (p + 4), f ! (p + 5)]"
  "p + 8 \<le> length f \<Longrightarrow> take 8 (drop p f) =
    [f ! p, f ! (p + 1), f ! (p + 2), f ! (p + 3), f ! (p + 4), f ! (p + 5), f ! (p + 6), f ! (p + 7)]"
  by (simp_all add: numeral_eq_Suc Cons_nth_drop_Suc [symmetric])

lemma uint_to_int_val:
  "p < length f \<Longrightarrow> dtls_uint8_to_int f p = Some (ucast (be_val (take 1 (drop p f))))"
  "p + 2 \<le> length f \<Longrightarrow> dtls_uint16_to_int f p = Some (ucast (be_val (take 2 (drop p f))))"
  "p + 3 \<le> length f \<Longrightarrow> dtls_uint24_to_int f p = Some (ucast (be_val (take 3 (drop p f))))"
  "p + 4 \<le> length f \<Longrightarrow> dtls_uint32_to_int f p = Some (ucast (be_val (take 4 (drop p f))))"
  "p + 6 \<le> length f \<Longrightarrow> dtls_uint48_to_int f p = Some (be_val (take 6 (drop p f)))"
  "p + 8 \<le> length f \<Longrightarrow> dtls_uint64_to_int f p = Some (be_val (take 8 (drop p f)))"
  by (simp_all only: take_drop_list, simp_all add: dtls_uint8_to_int_def dtls_uint16_to_int_def
      dtls_uint24_to_int_def dtls_uint32_to_int_def dtls_uint48_to_int_def dtls_uint64_to_int_def or.assoc)
    (auto intro!: bit_word_eqI simp: bit_simps)

lemma be_bytes_roundtrip:
  "p + n \<le> length f \<Longrightarrow> n \<le> 8 \<Longrightarrow> be_val (take n (drop p (put_at f p (be_bytes n v)))) = take_bit (8 * n) v"
  using drop_take_put_at [of p "be_bytes n v" f] by (simp add: be_val_be_bytes)

lemma ucast_take_bit:
  "ucast (take_bit 16 (ucast (b :: u16) :: u64)) = b"
  "ucast (take_bit 24 (ucast (c :: u32) :: u64)) = take_bit 24 c"
  "ucast (take_bit 32 (ucast (c :: u32) :: u64)) = c"
  "ucast (take_bit 8 (ucast (a :: u8) :: u64)) = a"
  "take_bit 64 (d :: u64) = d"
  by (rule bit_word_eqI, auto simp: bit_simps)+

text \<open>
  Every integer that fits its field is read back as it was written: 16, 32 and 64 bits for all
  values, 24 and 48 bits for their low bits, wherever the field lies in the buffer.
\<close>

lemma uint_codec_roundtrip:
  assumes "p + 8 \<le> length f"
  shows "(dtls_int_to_uint16 f p b \<bind> (\<lambda>g. dtls_uint16_to_int g p)) = Some b \<and>
    (dtls_int_to_uint24 f p c \<bind> (\<lambda>g. dtls_uint24_to_int g p)) = Some (take_bit 24 c) \<and>
    (dtls_int_to_uint32 f p c \<bind> (\<lambda>g. dtls_uint32_to_int g p)) = Some c \<and>
    (dtls_int_to_uint48 f p d \<bind> (\<lambda>g. dtls_uint48_to_int g p)) = Some (take_bit 48 d) \<and>
    (dtls_int_to_uint64 f p d \<bind> (\<lambda>g. dtls_uint64_to_int g p)) = Some d"
  using assms
  by (simp add: int_to_uint_val uint_to_int_val be_bytes_roundtrip [where n = 2, simplified]
      be_bytes_roundtrip [where n = 3, simplified] be_bytes_roundtrip [where n = 4, simplified]
      be_bytes_roundtrip [where n = 6, simplified] be_bytes_roundtrip [where n = 8, simplified] ucast_take_bit)

lemma uint_codec_roundtrip_witness:
  "(dtls_int_to_uint16 (replicate 8 0) 0 0xFEFD \<bind> (\<lambda>g. dtls_uint16_to_int g 0)) = Some 0xFEFD"
  using uint_codec_roundtrip [where p = 0 and f = "replicate 8 0" and b = "0xFEFD"] by simp

end
