(* ===== verification/Ccm.thy ===== *)
theory Ccm
  imports Numeric
begin

text \<open>
  Counter mode with CBC-MAC (\<open>arduino/libraries/Dtls/ccm.c\<close>, with \<open>memxor\<close> and \<open>equals\<close> of
  \<open>global.h\<close>). The argument \<open>E\<close> is the block cipher under the key of the context: 16 bytes to
  16 bytes. The message buffer is transformed in place, so a routine returns the new buffer with
  the scratch blocks \<open>A\<close>, \<open>B\<close>, \<open>S\<close> and \<open>X\<close> it changes. Sizes are naturals; the counter is an
  \<open>unsigned long\<close> of 32 bits. Local blocks start as zeros: all of their bytes are overwritten
  before they are used.
\<close>

section \<open>Byte blocks\<close>

fun memxor :: "nat \<Rightarrow> u8 list \<Rightarrow> nat \<Rightarrow> u8 list \<Rightarrow> nat \<Rightarrow> u8 list option" where
  "memxor 0 x p y q = Some x"
| "memxor (Suc n) x p y q = do {
     a \<leftarrow> rd x p;
     b \<leftarrow> rd y q;
     x \<leftarrow> wr x p (a XOR b);
     memxor n x (Suc p) y (Suc q)
   }"

fun equals_loop :: "nat \<Rightarrow> u8 list \<Rightarrow> nat \<Rightarrow> u8 list \<Rightarrow> nat \<Rightarrow> bool \<Rightarrow> bool option" where
  "equals_loop 0 a p b q result = Some result"
| "equals_loop (Suc n) a p b q result = do {
     x \<leftarrow> rd a p;
     y \<leftarrow> rd b q;
     equals_loop n a (Suc p) b (Suc q) (result \<and> x = y)
   }"

definition equals :: "u8 list \<Rightarrow> nat \<Rightarrow> u8 list \<Rightarrow> nat \<Rightarrow> nat \<Rightarrow> bool option" where
  "equals a p b q len = equals_loop len a p b q True"

section \<open>The routines\<close>

definition CCM_FLAGS :: "nat \<Rightarrow> nat \<Rightarrow> nat \<Rightarrow> u8" where
  "CCM_FLAGS a M L = push_bit 6 (of_bool (a > 0)) OR push_bit 3 (of_nat ((M - 2) div 2)) OR of_nat (L - 1)"

definition MASK_L :: "nat \<Rightarrow> u32" where
  "MASK_L L = push_bit (8 * L) 1 - 1"

fun counter_loop :: "nat \<Rightarrow> nat \<Rightarrow> u32 \<Rightarrow> u8 list \<Rightarrow> u8 list option" where
  "counter_loop i L C A =
     (if C \<noteq> 0 \<and> i > L then do {
        a \<leftarrow> rd A i;
        A \<leftarrow> wr A i (a OR ucast (C AND 0xFF));
        counter_loop (i - 1) L (drop_bit 8 C) A
      } else Some A)"

declare counter_loop.simps [simp del]

definition SET_COUNTER :: "u8 list \<Rightarrow> nat \<Rightarrow> u32 \<Rightarrow> u8 list option" where
  "SET_COUNTER A L cnt = do {
     A \<leftarrow> mset_at A (16 - L) 0 L;
     counter_loop 15 L (cnt AND MASK_L L) A
   }"

fun length_loop :: "nat \<Rightarrow> nat \<Rightarrow> nat \<Rightarrow> u8 list \<Rightarrow> u8 list option" where
  "length_loop 0 i lm result = Some result"
| "length_loop (Suc n) i lm result = do {
     result \<leftarrow> wr result (15 - i) (of_nat lm AND 0xff);
     length_loop n (Suc i) (lm div 256) result
   }"

definition block0 :: "nat \<Rightarrow> nat \<Rightarrow> nat \<Rightarrow> nat \<Rightarrow> u8 list \<Rightarrow> u8 list \<Rightarrow> u8 list option" where
  "block0 M L la lm nonce result = do {
     result \<leftarrow> wr result 0 (CCM_FLAGS la M L);
     result \<leftarrow> mcopy result 1 nonce 0 (16 - L);
     length_loop L 0 lm result
   }"

text \<open>\<open>rijndael_encrypt (ctx, from, to)\<close> on whole blocks.\<close>

definition encrypt_block :: "(u8 list \<Rightarrow> u8 list) \<Rightarrow> u8 list \<Rightarrow> u8 list \<Rightarrow> u8 list option" where
  "encrypt_block E from to = do { b \<leftarrow> slice from 0 16; mcopy to 0 (E b) 0 16 }"

fun xor_bytes :: "nat \<Rightarrow> nat \<Rightarrow> u8 list \<Rightarrow> u8 list \<Rightarrow> u8 list \<Rightarrow> nat \<Rightarrow> u8 list option" where
  "xor_bytes 0 i B X msg p = Some B"
| "xor_bytes (Suc n) i B X msg p = do {
     x \<leftarrow> rd X i;
     m \<leftarrow> rd msg p;
     B \<leftarrow> wr B i (x XOR m);
     xor_bytes n (Suc i) B X msg (Suc p)
   }"

fun auth_loop ::
  "(u8 list \<Rightarrow> u8 list) \<Rightarrow> u8 list \<Rightarrow> nat \<Rightarrow> nat \<Rightarrow> u8 list \<Rightarrow> u8 list \<Rightarrow>
   (nat \<times> nat \<times> u8 list \<times> u8 list) option" where
  "auth_loop E msg p la B X =
     (if la > 16 then do {
        B \<leftarrow> xor_bytes 16 0 B X msg p;
        X \<leftarrow> encrypt_block E B X;
        auth_loop E msg (p + 16) (la - 16) B X
      } else Some (p, la, B, X))"

declare auth_loop.simps [simp del]

definition add_auth_data ::
  "(u8 list \<Rightarrow> u8 list) \<Rightarrow> u8 list \<Rightarrow> nat \<Rightarrow> u8 list \<Rightarrow> u8 list \<Rightarrow> (u8 list \<times> u8 list) option" where
  "add_auth_data E msg la B X = do {
     X \<leftarrow> encrypt_block E B X;
     B \<leftarrow> mset_at B 0 0 16;
     if la = 0 then Some (B, X)
     else do {
       (j, B) \<leftarrow> (if la < 0xFF00 then do { B \<leftarrow> dtls_int_to_uint16 B 0 (of_nat la); Some (2, B) }
         else if la \<le> 0xFFFFFFFF then do {
           B \<leftarrow> dtls_int_to_uint16 B 0 0xFFFE;
           B \<leftarrow> dtls_int_to_uint32 B 2 (of_nat la);
           Some (6, B)
         } else do {
           B \<leftarrow> dtls_int_to_uint16 B 0 0xFFFF;
           B \<leftarrow> dtls_int_to_uint64 B 2 (of_nat la);
           Some (10, B)
         });
       let i = min (16 - j) la;
       B \<leftarrow> mcopy B j msg 0 i;
       B \<leftarrow> memxor 16 B 0 X 0;
       X \<leftarrow> encrypt_block E B X;
       (p, la, B, X) \<leftarrow> auth_loop E msg i (la - i) B X;
       if la > 0 then do {
         B \<leftarrow> mset_at B 0 0 16;
         B \<leftarrow> mcopy B 0 msg p la;
         B \<leftarrow> memxor 16 B 0 X 0;
         X \<leftarrow> encrypt_block E B X;
         Some (B, X)
       } else Some (B, X)
     }
   }"

definition encrypt ::
  "(u8 list \<Rightarrow> u8 list) \<Rightarrow> nat \<Rightarrow> u32 \<Rightarrow> u8 list \<Rightarrow> nat \<Rightarrow> nat \<Rightarrow> u8 list \<Rightarrow> u8 list \<Rightarrow>
   (u8 list \<times> u8 list \<times> u8 list) option" where
  "encrypt E L counter msg p len A S = do {
     A \<leftarrow> SET_COUNTER A L counter;
     S \<leftarrow> encrypt_block E A S;
     msg \<leftarrow> memxor len msg p S 0;
     Some (msg, A, S)
   }"

definition mac ::
  "(u8 list \<Rightarrow> u8 list) \<Rightarrow> u8 list \<Rightarrow> nat \<Rightarrow> nat \<Rightarrow> u8 list \<Rightarrow> u8 list \<Rightarrow> (u8 list \<times> u8 list) option" where
  "mac E msg p len B X = do {
     B \<leftarrow> xor_bytes len 0 B X msg p;
     X \<leftarrow> encrypt_block E B X;
     Some (B, X)
   }"

fun enc_loop ::
  "(u8 list \<Rightarrow> u8 list) \<Rightarrow> nat \<Rightarrow> u32 \<Rightarrow> u8 list \<Rightarrow> nat \<Rightarrow> nat \<Rightarrow> u8 list \<Rightarrow> u8 list \<Rightarrow> u8 list \<Rightarrow> u8 list \<Rightarrow>
   (u32 \<times> u8 list \<times> nat \<times> nat \<times> u8 list \<times> u8 list \<times> u8 list \<times> u8 list) option" where
  "enc_loop E L counter msg p lm A B S X =
     (if lm \<ge> 16 then do {
        (B, X) \<leftarrow> mac E msg p 16 B X;
        (msg, A, S) \<leftarrow> encrypt E L counter msg p 16 A S;
        enc_loop E L (counter + 1) msg (p + 16) (lm - 16) A B S X
      } else Some (counter, msg, p, lm, A, B, S, X))"

declare enc_loop.simps [simp del]

fun dec_loop ::
  "(u8 list \<Rightarrow> u8 list) \<Rightarrow> nat \<Rightarrow> u32 \<Rightarrow> u8 list \<Rightarrow> nat \<Rightarrow> nat \<Rightarrow> u8 list \<Rightarrow> u8 list \<Rightarrow> u8 list \<Rightarrow> u8 list \<Rightarrow>
   (u32 \<times> u8 list \<times> nat \<times> nat \<times> u8 list \<times> u8 list \<times> u8 list \<times> u8 list) option" where
  "dec_loop E L counter msg p lm A B S X =
     (if lm \<ge> 16 then do {
        (msg, A, S) \<leftarrow> encrypt E L counter msg p 16 A S;
        (B, X) \<leftarrow> mac E msg p 16 B X;
        dec_loop E L (counter + 1) msg (p + 16) (lm - 16) A B S X
      } else Some (counter, msg, p, lm, A, B, S, X))"

declare dec_loop.simps [simp del]

fun tag_loop :: "nat \<Rightarrow> nat \<Rightarrow> u8 list \<Rightarrow> nat \<Rightarrow> u8 list \<Rightarrow> u8 list \<Rightarrow> u8 list option" where
  "tag_loop 0 i msg p X S = Some msg"
| "tag_loop (Suc n) i msg p X S = do {
     x \<leftarrow> rd X i;
     s \<leftarrow> rd S i;
     msg \<leftarrow> wr msg p (x XOR s);
     tag_loop n (Suc i) msg (Suc p) X S
   }"

definition dtls_ccm_encrypt_message ::
  "(u8 list \<Rightarrow> u8 list) \<Rightarrow> nat \<Rightarrow> nat \<Rightarrow> u8 list \<Rightarrow> u8 list \<Rightarrow> nat \<Rightarrow> u8 list \<Rightarrow> nat \<Rightarrow> (int \<times> u8 list) option" where
  "dtls_ccm_encrypt_message E M L nonce msg lm aad la = do {
     B \<leftarrow> block0 M L la lm nonce (replicate 16 0);
     (B, X) \<leftarrow> add_auth_data E aad la B (replicate 16 0);
     A \<leftarrow> wr (replicate 16 0) 0 (of_nat (L - 1));
     A \<leftarrow> mcopy A 1 nonce 0 (16 - L);
     (counter, msg, p, rest, A, B, S, X) \<leftarrow> enc_loop E L 1 msg 0 lm A B (replicate 16 0) X;
     (msg, p, A, S, X) \<leftarrow> (if rest > 0 then do {
         B \<leftarrow> mcopy B rest X rest (16 - rest);
         (B, X) \<leftarrow> mac E msg p rest B X;
         (msg, A, S) \<leftarrow> encrypt E L counter msg p rest A S;
         Some (msg, p + rest, A, S, X)
       } else Some (msg, p, A, S, X));
     A \<leftarrow> SET_COUNTER A L 0;
     S \<leftarrow> encrypt_block E A S;
     msg \<leftarrow> tag_loop M 0 msg p X S;
     Some (int lm + int M, msg)
   }"

definition dtls_ccm_decrypt_message ::
  "(u8 list \<Rightarrow> u8 list) \<Rightarrow> nat \<Rightarrow> nat \<Rightarrow> u8 list \<Rightarrow> u8 list \<Rightarrow> nat \<Rightarrow> u8 list \<Rightarrow> nat \<Rightarrow> (int \<times> u8 list) option" where
  "dtls_ccm_decrypt_message E M L nonce msg lm aad la =
     (if lm < M then Some (- 1, msg)
      else do {
        let len = lm;
        let lm = lm - M;
        B \<leftarrow> block0 M L la lm nonce (replicate 16 0);
        (B, X) \<leftarrow> add_auth_data E aad la B (replicate 16 0);
        A \<leftarrow> wr (replicate 16 0) 0 (of_nat (L - 1));
        A \<leftarrow> mcopy A 1 nonce 0 (16 - L);
        (counter, msg, p, rest, A, B, S, X) \<leftarrow> dec_loop E L 1 msg 0 lm A B (replicate 16 0) X;
        (msg, p, A, S, X) \<leftarrow> (if rest > 0 then do {
            (msg, A, S) \<leftarrow> encrypt E L counter msg p rest A S;
            B \<leftarrow> mcopy B rest X rest (16 - rest);
            (B, X) \<leftarrow> mac E msg p rest B X;
            Some (msg, p + rest, A, S, X)
          } else Some (msg, p, A, S, X));
        A \<leftarrow> SET_COUNTER A L 0;
        S \<leftarrow> encrypt_block E A S;
        msg \<leftarrow> memxor M msg p S 0;
        ok \<leftarrow> equals X 0 msg p M;
        if ok then Some (int len - int M, msg) else Some (- 1, msg)
      })"

end
