(* ===== verification/Ccm_Laws.thy ===== *)
theory Ccm_Laws
  imports Ccm
begin

text \<open>
  What \<open>dtls_ccm_encrypt_message\<close> and \<open>dtls_ccm_decrypt_message\<close> compute: the functions \<open>rfc_ccm\<close> and
  \<open>rfc_tag\<close> of RFC 3610, for every block cipher that maps 16 bytes to 16 bytes (locale
  \<open>block_cipher\<close>) and every length. Decryption inverts encryption and accepts nothing else.
\<close>

section \<open>What the loops compute\<close>

definition xorl :: "u8 list \<Rightarrow> u8 list \<Rightarrow> u8 list" where
  "xorl xs ys = map2 (XOR) xs ys"

lemma length_xorl [simp]: "length (xorl xs ys) = min (length xs) (length ys)"
  by (simp add: xorl_def)

lemma xorl_simps [simp]: "xorl [] ys = []" "xorl xs [] = []" "xorl (x # xs) (y # ys) = (x XOR y) # xorl xs ys"
  by (simp_all add: xorl_def)

lemma nth_xorl [simp]: "i < length xs \<Longrightarrow> i < length ys \<Longrightarrow> xorl xs ys ! i = xs ! i XOR ys ! i"
  by (simp add: xorl_def)

lemma xorl_commute: "xorl xs ys = xorl ys xs"
  by (rule nth_equalityI) (simp_all add: xor.commute)

lemma xorl_cancel: "length xs \<le> length ys \<Longrightarrow> xorl (xorl xs ys) ys = xs"
  by (rule nth_equalityI) (simp_all add: xor.assoc)

lemma take_xorl: "take n (xorl xs ys) = xorl (take n xs) (take n ys)"
  by (simp add: xorl_def take_map take_zip)

lemma take_drop_Suc: "p < length xs \<Longrightarrow> take (Suc n) (drop p xs) = xs ! p # take n (drop (Suc p) xs)"
  by (simp add: Cons_nth_drop_Suc [symmetric])

lemma memxor_val [mem_simps]:
  "p + n \<le> length x \<Longrightarrow> q + n \<le> length y \<Longrightarrow>
   memxor n x p y q = Some (put_at x p (xorl (take n (drop p x)) (take n (drop q y))))"
proof (induction n arbitrary: x p q)
  case (Suc n)
  then show ?case by (simp add: take_drop_Suc put_at_Cons)
qed simp

lemma xor_bytes_val [mem_simps]:
  "i + n \<le> length B \<Longrightarrow> i + n \<le> length X \<Longrightarrow> p + n \<le> length msg \<Longrightarrow>
   xor_bytes n i B X msg p = Some (put_at B i (xorl (take n (drop i X)) (take n (drop p msg))))"
proof (induction n arbitrary: B i p)
  case (Suc n)
  then show ?case by (simp add: take_drop_Suc put_at_Cons)
qed simp

lemma tag_loop_val [mem_simps]:
  "i + n \<le> length X \<Longrightarrow> i + n \<le> length S \<Longrightarrow> p + n \<le> length msg \<Longrightarrow>
   tag_loop n i msg p X S = Some (put_at msg p (xorl (take n (drop i X)) (take n (drop i S))))"
proof (induction n arbitrary: msg i p)
  case (Suc n)
  then show ?case by (simp add: take_drop_Suc put_at_Cons)
qed simp

lemma equals_loop_val:
  "p + n \<le> length a \<Longrightarrow> q + n \<le> length b \<Longrightarrow>
   equals_loop n a p b q r = Some (r \<and> take n (drop p a) = take n (drop q b))"
proof (induction n arbitrary: p q r)
  case (Suc n)
  then show ?case by (auto simp: take_drop_Suc)
qed simp

lemma equals_val [mem_simps]:
  "p + n \<le> length a \<Longrightarrow> q + n \<le> length b \<Longrightarrow>
   equals a p b q n = Some (take n (drop p a) = take n (drop q b))"
  by (simp add: equals_def equals_loop_val)

text \<open>The counter ends up in the last \<open>L\<close> bytes of the block.\<close>

lemma counter_loop_val:
  "i < length A \<Longrightarrow> counter_loop i L C A =
   Some (map (\<lambda>j. if L < j \<and> j \<le> i then A ! j OR ucast (drop_bit (8 * (i - j)) C) else A ! j) [0..<length A])"
proof (induction i arbitrary: C A)
  case 0
  then show ?case by (subst counter_loop.simps) (auto simp: map_nth intro: nth_equalityI)
next
  case (Suc i)
  show ?case
  proof (cases "C \<noteq> 0 \<and> Suc i > L")
    case False
    then show ?thesis by (subst counter_loop.simps) (auto intro!: nth_equalityI)
  next
    case True
    define A1 where "A1 = A[Suc i := A ! Suc i OR ucast (C AND 0xFF)]"
    have "counter_loop (Suc i) L C A = counter_loop i L (drop_bit 8 C) A1"
      using True Suc.prems by (subst counter_loop.simps) (simp add: A1_def)
    also have "\<dots> = Some (map (\<lambda>j. if L < j \<and> j \<le> i then A1 ! j OR ucast (drop_bit (8 * (i - j)) (drop_bit 8 C)) else A1 ! j)
        [0..<length A1])"
      using Suc.prems by (intro Suc.IH) (simp add: A1_def)
    also have "\<dots> = Some (map (\<lambda>j. if L < j \<and> j \<le> Suc i then A ! j OR ucast (drop_bit (8 * (Suc i - j)) C) else A ! j)
        [0..<length A])"
      using Suc.prems True
      by (auto intro!: nth_equalityI simp: A1_def nth_list_update byte_of le_Suc_eq drop_bit_drop_bit Suc_diff_le add.commute [of 8])
    finally show ?thesis .
  qed
qed

lemma nth_be_bytes: "i < n \<Longrightarrow> be_bytes n v ! i = ucast (drop_bit (8 * (n - Suc i)) v)"
proof (induction n arbitrary: i)
  case (Suc n)
  then show ?case by (cases i) auto
qed simp

lemma MASK_L_val: "L \<le> 3 \<Longrightarrow> c AND MASK_L L = take_bit (8 * L) c"
proof -
  assume "L \<le> 3"
  have "MASK_L L = mask (8 * L)" by (simp add: MASK_L_def mask_eq_exp_minus_1 push_bit_eq_mult)
  then show ?thesis by (simp add: take_bit_eq_mask)
qed

definition counter_bytes :: "nat \<Rightarrow> u32 \<Rightarrow> u8 list" where
  "counter_bytes L c = be_bytes L (ucast (take_bit (8 * L) c))"

lemma SET_COUNTER_val:
  assumes "1 \<le> L" "L \<le> 3" "length A = 16"
  shows "SET_COUNTER A L c = Some (take (16 - L) A @ counter_bytes L c)"
proof -
  define A0 where "A0 = put_at A (16 - L) (replicate L 0)"
  define C where "C = take_bit (8 * L) c"
  have A0: "length A0 = 16" "\<And>j. j < 16 \<Longrightarrow> A0 ! j = (if j < 16 - L then A ! j else 0)"
    using assms by (auto simp: A0_def nth_put_at)
  have "map (\<lambda>j. if L < j \<and> j \<le> 15 then A0 ! j OR ucast (drop_bit (8 * (15 - j)) C) else A0 ! j) [0..<16] =
      take (16 - L) A @ counter_bytes L c"
  proof (rule nth_equalityI)
    fix j assume "j < length (map (\<lambda>j. if L < j \<and> j \<le> 15 then A0 ! j OR ucast (drop_bit (8 * (15 - j)) C) else A0 ! j) [0..<16])"
    then have j: "j < 16" by simp
    show "map (\<lambda>j. if L < j \<and> j \<le> 15 then A0 ! j OR ucast (drop_bit (8 * (15 - j)) C) else A0 ! j) [0..<16] ! j =
      (take (16 - L) A @ counter_bytes L c) ! j"
    proof (cases "j < 16 - L")
      case True
      then have "drop_bit (8 * (15 - j)) C = 0"
        by (intro bit_word_eqI) (auto simp: C_def bit_simps)
      then show ?thesis using True j assms A0 by (simp add: nth_append)
    next
      case False
      have "ucast (drop_bit (8 * (15 - j)) C) = (ucast (drop_bit (8 * (15 - j)) (ucast C :: u64)) :: u8)"
        by (simp add: ucast_drop_ucast)
      moreover have "L < j" using False j assms by linarith
      ultimately show ?thesis using False j assms A0
        by (simp add: nth_append counter_bytes_def nth_be_bytes C_def)
    qed
  qed (use assms in \<open>simp add: counter_bytes_def\<close>)
  then show ?thesis
    using assms A0 by (simp add: SET_COUNTER_def mset_at_in A0_def [symmetric] counter_loop_val MASK_L_val C_def [symmetric])
qed


section \<open>Counter mode and CBC-MAC\<close>

text \<open>The key stream block of a counter value, counter mode and CBC-MAC as functions of the message.\<close>

definition key_block :: "(u8 list \<Rightarrow> u8 list) \<Rightarrow> u8 list \<Rightarrow> nat \<Rightarrow> u32 \<Rightarrow> u8 list" where
  "key_block E pre L c = E (pre @ counter_bytes L c)"

fun ctr :: "(u32 \<Rightarrow> u8 list) \<Rightarrow> u32 \<Rightarrow> u8 list \<Rightarrow> u8 list" where
  "ctr K c m = (if m = [] then [] else xorl (take 16 m) (K c) @ ctr K (c + 1) (drop 16 m))"

declare ctr.simps [simp del]

fun cbc :: "(u8 list \<Rightarrow> u8 list) \<Rightarrow> u8 list \<Rightarrow> u8 list \<Rightarrow> u8 list" where
  "cbc E X m = (if m = [] then X
     else cbc E (E (xorl X (take 16 m) @ drop (length m) X)) (drop 16 m))"

declare cbc.simps [simp del]

lemma ctr_Nil [simp]: "ctr K c [] = []" by (simp add: ctr.simps)
lemma cbc_Nil [simp]: "cbc E X [] = X" by (simp add: cbc.simps)

lemma length_ctr: "(\<And>c. length (K c) = 16) \<Longrightarrow> length (ctr K c m) = length m"
  by (induction K c m rule: ctr.induct) (subst ctr.simps, auto)

lemma ctr_ctr: "(\<And>c. length (K c) = 16) \<Longrightarrow> ctr K c (ctr K c m) = m"
proof (induction K c m rule: ctr.induct)
  case (1 K c m)
  show ?case
  proof (cases "m = []")
    case False
    define m1 where "m1 = xorl (take 16 m) (K c)"
    have m1: "length m1 = min 16 (length m)" using 1(2) by (simp add: m1_def)
    have u: "ctr K c m = m1 @ ctr K (c + 1) (drop 16 m)" using False by (subst ctr.simps) (simp add: m1_def)
    have "take 16 (ctr K c m) = m1 \<and> drop 16 (ctr K c m) = ctr K (c + 1) (drop 16 m)"
      using m1 length_ctr [of K "c + 1" "drop 16 m", OF 1(2)] by (cases "length m \<le> 16") (simp_all add: u)
    moreover have "ctr K c m \<noteq> []" using False m1 u by (auto simp: min_def split: if_splits)
    ultimately have "ctr K c (ctr K c m) = xorl m1 (K c) @ ctr K (c + 1) (ctr K (c + 1) (drop 16 m))"
      by (subst ctr.simps) simp
    then show ?thesis
      using 1(1) [OF False 1(2)] xorl_cancel [of "take 16 m" "K c"] 1(2) by (simp add: m1_def)
  qed simp
qed

locale block_cipher =
  fixes E :: "u8 list \<Rightarrow> u8 list"
  assumes cipher_len: "length b = 16 \<Longrightarrow> length (E b) = 16"
begin

lemma key_block_len: "length pre + L = 16 \<Longrightarrow> length (key_block E pre L c) = 16"
  by (simp add: key_block_def cipher_len counter_bytes_def)

lemma encrypt_block_val: "length b = 16 \<Longrightarrow> length r = 16 \<Longrightarrow> encrypt_block E b r = Some (E b)"
  by (simp add: encrypt_block_def slice_in mcopy_in put_at_def cipher_len)

lemma encrypt_val:
  assumes "1 \<le> L" "L \<le> 3" "length A = 16" "length S = 16" "len \<le> 16" "p + len \<le> length msg"
  shows "\<exists>A' S'. encrypt E L c msg p len A S =
      Some (put_at msg p (xorl (take len (drop p msg)) (key_block E (take (16 - L) A) L c)), A', S') \<and>
    length A' = 16 \<and> length S' = 16 \<and> take (16 - L) A' = take (16 - L) A"
proof -
  define A' where "A' = take (16 - L) A @ counter_bytes L c"
  have A': "length A' = 16" "take (16 - L) A' = take (16 - L) A"
    using assms by (simp_all add: A'_def counter_bytes_def)
  have S': "E A' = key_block E (take (16 - L) A) L c" by (simp add: A'_def key_block_def)
  have "xorl (take len (drop p msg)) (take len (E A')) = xorl (take len (drop p msg)) (E A')"
    using assms by (intro nth_equalityI) (auto simp: cipher_len A')
  then show ?thesis
    using assms A' SET_COUNTER_val [OF assms(1-3), of c]
    by (simp add: encrypt_def A'_def [symmetric] encrypt_block_val memxor_val cipher_len S' [symmetric])
qed

lemma mac_val:
  assumes "length B = 16" "length X = 16" "len \<le> 16" "p + len \<le> length msg"
  shows "mac E msg p len B X = Some (xorl X (take len (drop p msg)) @ drop len B, E (xorl X (take len (drop p msg)) @ drop len B))"
proof -
  have "xorl (take len X) (take len (drop p msg)) = xorl X (take len (drop p msg))"
    using assms by (intro nth_equalityI) auto
  then show ?thesis
    using assms by (simp add: mac_def xor_bytes_val encrypt_block_val put_at_def)
qed

lemma enc_loop_val:
  assumes "1 \<le> L" "L \<le> 3" "length A = 16" "length B = 16" "length S = 16" "length X = 16" "p + lm \<le> length msg"
  defines "K \<equiv> key_block E (take (16 - L) A) L"
  shows "\<exists>A' B' S' X'. enc_loop E L c msg p lm A B S X =
      Some (c + of_nat (lm div 16), put_at msg p (ctr K c (take (16 * (lm div 16)) (drop p msg))),
        p + 16 * (lm div 16), lm mod 16, A', B', S', X') \<and>
    length A' = 16 \<and> length B' = 16 \<and> length S' = 16 \<and> length X' = 16 \<and> take (16 - L) A' = take (16 - L) A \<and>
    X' = cbc E X (take (16 * (lm div 16)) (drop p msg))"
  using assms(1-7) unfolding K_def
proof (induction lm arbitrary: c msg p A B S X rule: less_induct)
  case (less lm)
  note pr = less.prems
  show ?case
  proof (cases "lm \<ge> 16")
    case False
    then show ?thesis by (subst enc_loop.simps) (simp add: pr)
  next
    case True
    define b where "b = take 16 (drop p msg)"
    define K where "K = key_block E (take (16 - L) A) L"
    define k where "k = 16 * ((lm - 16) div 16)"
    have k: "16 * (lm div 16) = 16 + k" "lm div 16 = Suc ((lm - 16) div 16)" "(lm - 16) mod 16 = lm mod 16"
      using True by (simp_all add: k_def le_div_geq le_mod_geq)
    have b: "length b = 16" using True pr(7) by (simp add: b_def)
    have Klen: "length (K c) = 16" for c unfolding K_def using pr by (intro key_block_len) simp
    obtain A1 S1 where e: "encrypt E L c msg p 16 A S = Some (put_at msg p (xorl b (K c)), A1, S1)"
      "length A1 = 16" "length S1 = 16" "take (16 - L) A1 = take (16 - L) A"
      using encrypt_val [of L A S 16 p msg c] pr True by (auto simp: b_def K_def)
    define B1 where "B1 = xorl X b"
    have B1: "length B1 = 16" using pr b by (simp add: B1_def)
    have m: "mac E msg p 16 B X = Some (B1, E B1)"
      using mac_val [of B X 16 p msg] pr True by (simp add: B1_def b_def)
    define msg1 where "msg1 = put_at msg p (xorl b (K c))"
    have m1: "length msg1 = length msg" "take n (drop (p + 16) msg1) = take n (drop (p + 16) msg)" for n
      using b Klen [of c] pr True drop_put_at [of p "xorl b (K c)" msg] by (simp_all add: msg1_def)
    have step: "enc_loop E L c msg p lm A B S X = enc_loop E L (c + 1) msg1 (p + 16) (lm - 16) A1 B1 S1 (E B1)"
      using True m e by (subst enc_loop.simps) (simp add: msg1_def)
    have len: "length A1 = 16" "length B1 = 16" "length S1 = 16" "length (E B1) = 16" "p + 16 + (lm - 16) \<le> length msg1"
      using e B1 pr True m1 by (simp_all add: cipher_len)
    have "lm - 16 < lm" using True by simp
    from less.IH [OF this pr(1,2) len, of "c + 1"]
    obtain A' B' S' X' where IH: "enc_loop E L (c + 1) msg1 (p + 16) (lm - 16) A1 B1 S1 (E B1) =
        Some (c + 1 + of_nat ((lm - 16) div 16), put_at msg1 (p + 16) (ctr K (c + 1) (take k (drop (p + 16) msg))),
          p + 16 + k, lm mod 16, A', B', S', X')"
      "length A' = 16" "length B' = 16" "length S' = 16" "length X' = 16" "take (16 - L) A' = take (16 - L) A"
      "X' = cbc E (E B1) (take k (drop (p + 16) msg))"
      by (auto simp: K_def e(4) k_def [symmetric] k(3) m1(2))
    have split: "take (16 + k) (drop p msg) = b @ take k (drop (p + 16) msg)"
      unfolding b_def take_add drop_drop by (simp only: add.commute)
    have c1: "ctr K c (take (16 + k) (drop p msg)) = xorl b (K c) @ ctr K (c + 1) (take k (drop (p + 16) msg))"
      unfolding split using b by (subst ctr.simps) auto
    have c2: "cbc E X (take (16 + k) (drop p msg)) = cbc E (E B1) (take k (drop (p + 16) msg))"
      unfolding split using b pr(6) by (subst cbc.simps) (auto simp: B1_def)
    have put: "put_at msg1 (p + 16) ys = put_at msg p (xorl b (K c) @ ys)" if "length ys \<le> k" for ys
    proof -
      have "k \<le> lm - 16" by (simp add: k_def)
      then show ?thesis
        using put_at_put_at_adjacent [of p "xorl b (K c)" ys msg] that b Klen [of c] pr(7) True
        by (simp add: msg1_def)
    qed
    have "length (ctr K (c + 1) (take k (drop (p + 16) msg))) \<le> k"
      by (simp add: length_ctr Klen)
    from put [OF this] show ?thesis
      using IH c1 c2 unfolding step k(1) K_def [symmetric]
      by (simp add: k(2) add.assoc)
  qed
qed

lemma dec_loop_val:
  assumes "1 \<le> L" "L \<le> 3" "length A = 16" "length B = 16" "length S = 16" "length X = 16" "p + lm \<le> length msg"
  defines "K \<equiv> key_block E (take (16 - L) A) L"
  shows "\<exists>A' B' S' X'. dec_loop E L c msg p lm A B S X =
      Some (c + of_nat (lm div 16), put_at msg p (ctr K c (take (16 * (lm div 16)) (drop p msg))),
        p + 16 * (lm div 16), lm mod 16, A', B', S', X') \<and>
    length A' = 16 \<and> length B' = 16 \<and> length S' = 16 \<and> length X' = 16 \<and> take (16 - L) A' = take (16 - L) A \<and>
    X' = cbc E X (ctr K c (take (16 * (lm div 16)) (drop p msg)))"
  using assms(1-7) unfolding K_def
proof (induction lm arbitrary: c msg p A B S X rule: less_induct)
  case (less lm)
  note pr = less.prems
  show ?case
  proof (cases "lm \<ge> 16")
    case False
    then show ?thesis by (subst dec_loop.simps) (simp add: pr)
  next
    case True
    define K where "K = key_block E (take (16 - L) A) L"
    define b where "b = xorl (take 16 (drop p msg)) (K c)"
    define k where "k = 16 * ((lm - 16) div 16)"
    have k: "16 * (lm div 16) = 16 + k" "lm div 16 = Suc ((lm - 16) div 16)" "(lm - 16) mod 16 = lm mod 16"
      using True by (simp_all add: k_def le_div_geq le_mod_geq)
    have Klen: "length (K c) = 16" for c unfolding K_def using pr by (intro key_block_len) simp
    have b: "length b = 16" using True pr(7) Klen by (simp add: b_def)
    obtain A1 S1 where e: "encrypt E L c msg p 16 A S = Some (put_at msg p b, A1, S1)"
      "length A1 = 16" "length S1 = 16" "take (16 - L) A1 = take (16 - L) A"
      using encrypt_val [of L A S 16 p msg c] pr True by (auto simp: b_def K_def)
    define msg1 where "msg1 = put_at msg p b"
    have m1: "length msg1 = length msg" "take n (drop (p + 16) msg1) = take n (drop (p + 16) msg)"
      "take 16 (drop p msg1) = b" for n
      using b pr True drop_put_at [of p b msg] drop_take_put_at [of p b msg] by (simp_all add: msg1_def)
    define B1 where "B1 = xorl X b"
    have B1: "length B1 = 16" using pr b by (simp add: B1_def)
    have m: "mac E msg1 p 16 B X = Some (B1, E B1)"
      using mac_val [of B X 16 p msg1] pr True m1 by (simp add: B1_def)
    have step: "dec_loop E L c msg p lm A B S X = dec_loop E L (c + 1) msg1 (p + 16) (lm - 16) A1 B1 S1 (E B1)"
      using True m e by (subst dec_loop.simps) (simp add: msg1_def)
    have len: "length A1 = 16" "length B1 = 16" "length S1 = 16" "length (E B1) = 16" "p + 16 + (lm - 16) \<le> length msg1"
      using e B1 pr True m1 by (simp_all add: cipher_len)
    have "lm - 16 < lm" using True by simp
    from less.IH [OF this pr(1,2) len, of "c + 1"]
    obtain A' B' S' X' where IH: "dec_loop E L (c + 1) msg1 (p + 16) (lm - 16) A1 B1 S1 (E B1) =
        Some (c + 1 + of_nat ((lm - 16) div 16), put_at msg1 (p + 16) (ctr K (c + 1) (take k (drop (p + 16) msg))),
          p + 16 + k, lm mod 16, A', B', S', X')"
      "length A' = 16" "length B' = 16" "length S' = 16" "length X' = 16" "take (16 - L) A' = take (16 - L) A"
      "X' = cbc E (E B1) (ctr K (c + 1) (take k (drop (p + 16) msg)))"
      by (auto simp: K_def e(4) k_def [symmetric] k(3) m1(2))
    have split: "take (16 + k) (drop p msg) = take 16 (drop p msg) @ take k (drop (p + 16) msg)"
      unfolding take_add drop_drop by (simp only: add.commute)
    have c1: "ctr K c (take (16 + k) (drop p msg)) = b @ ctr K (c + 1) (take k (drop (p + 16) msg))"
      unfolding split using pr(7) True by (subst ctr.simps) (auto simp: b_def)
    have c2: "cbc E X (ctr K c (take (16 + k) (drop p msg))) = cbc E (E B1) (ctr K (c + 1) (take k (drop (p + 16) msg)))"
      unfolding c1 using b pr(6) by (subst cbc.simps) (auto simp: B1_def)
    have put: "put_at msg1 (p + 16) ys = put_at msg p (b @ ys)" if "length ys \<le> k" for ys
    proof -
      have "k \<le> lm - 16" by (simp add: k_def)
      then show ?thesis
        using put_at_put_at_adjacent [of p b ys msg] that b pr(7) True by (simp add: msg1_def)
    qed
    have "length (ctr K (c + 1) (take k (drop (p + 16) msg))) \<le> k"
      by (simp add: length_ctr Klen)
    from put [OF this] show ?thesis
      using IH c1 c2 unfolding step k(1) K_def [symmetric]
      by (simp add: k(2) add.assoc)
  qed
qed

end

section \<open>The authentication blocks\<close>

fun be_nat :: "nat \<Rightarrow> nat \<Rightarrow> u8 list" where
  "be_nat 0 v = []"
| "be_nat (Suc n) v = be_nat n (v div 256) @ [of_nat v]"

lemma length_be_nat [simp]: "length (be_nat n v) = n"
  by (induction n arbitrary: v) auto

lemma and_ff: "w AND 0xff = (w :: u8)"
  using byte_of [of w] by simp

lemma length_loop_val:
  "length r = 16 \<Longrightarrow> i + n \<le> 16 \<Longrightarrow>
   length_loop n i lm r = Some (take (16 - i - n) r @ be_nat n lm @ drop (16 - i) r)"
proof (induction n arbitrary: i lm r)
  case (Suc n)
  have "length_loop (Suc n) i lm r = length_loop n (Suc i) (lm div 256) (r[15 - i := of_nat lm])"
    using Suc.prems by (simp add: and_ff)
  also have "\<dots> = Some (take (16 - Suc i - n) (r[15 - i := of_nat lm]) @ be_nat n (lm div 256) @
      drop (16 - Suc i) (r[15 - i := of_nat lm]))"
    using Suc.prems by (intro Suc.IH) auto
  also have "drop (16 - Suc i) (r[15 - i := of_nat lm]) = of_nat lm # drop (16 - i) r"
    using Suc.prems Suc_diff_le [of i 15] by (simp add: drop_update_swap Cons_nth_drop_Suc [symmetric] Suc_diff_le)
  finally show ?case using Suc.prems by simp
qed simp

lemma block0_val:
  assumes "1 \<le> L" "L \<le> 15" "16 - L \<le> length nonce" "length r = 16"
  shows "block0 M L la lm nonce r = Some (CCM_FLAGS la M L # take (15 - L) nonce @ be_nat L lm)"
proof -
  define r1 where "r1 = put_at (r[0 := CCM_FLAGS la M L]) 1 (take (16 - L) nonce)"
  have "16 - L = Suc (15 - L)" using assms by simp
  then have "take (16 - L) r1 = CCM_FLAGS la M L # take (15 - L) nonce"
    using assms by (cases r) (simp_all add: r1_def put_at_def)
  moreover have "length r1 = 16" using assms by (simp add: r1_def)
  moreover have "block0 M L la lm nonce r = length_loop L 0 lm r1"
    using assms by (simp add: block0_def mcopy_in r1_def)
  ultimately show ?thesis using assms by (simp add: length_loop_val)
qed

lemma xorl_zero_pad:
  "length c \<le> 16 \<Longrightarrow> length X = 16 \<Longrightarrow> xorl (c @ replicate (16 - length c) 0) X = xorl X c @ drop (length c) X"
  by (rule nth_equalityI) (auto simp: nth_append xor.commute)

lemma cbc_step: "length X = 16 \<Longrightarrow> length c = 16 \<Longrightarrow> cbc E X (c @ m) = cbc E (E (xorl X c)) m"
  by (subst cbc.simps) auto

lemma cbc_last: "c \<noteq> [] \<Longrightarrow> length c \<le> 16 \<Longrightarrow> cbc E X c = E (xorl X c @ drop (length c) X)"
  by (subst cbc.simps) auto

text \<open>The encoding of the length of the additional data.\<close>

definition aad_header :: "nat \<Rightarrow> u8 list" where
  "aad_header la = (if la = 0 then [] else if la < 0xFF00 then be_bytes 2 (ucast (of_nat la :: u16))
     else if la \<le> 0xFFFFFFFF then be_bytes 2 0xFFFE @ be_bytes 4 (ucast (of_nat la :: u32))
     else be_bytes 2 0xFFFF @ be_bytes 8 (of_nat la))"

context block_cipher begin

lemma auth_loop_val:
  assumes "length B = 16" "length X = 16" "p + la \<le> length msg"
  shows "\<exists>p' la' B' X'. auth_loop E msg p la B X = Some (p', la', B', X') \<and> length B' = 16 \<and> length X' = 16 \<and>
    la' \<le> 16 \<and> p' + la' = p + la \<and> cbc E X (take la (drop p msg)) = cbc E X' (take la' (drop p' msg))"
  using assms
proof (induction la arbitrary: p B X rule: less_induct)
  case (less la)
  show ?case
  proof (cases "la > 16")
    case False
    then show ?thesis using less.prems by (subst auth_loop.simps) simp
  next
    case True
    define b where "b = take 16 (drop p msg)"
    have b: "length b = 16" using True less.prems by (simp add: b_def)
    have "auth_loop E msg p la B X = auth_loop E msg (p + 16) (la - 16) (xorl X b) (E (xorl X b))"
      using True less.prems b
      by (subst auth_loop.simps) (simp add: xor_bytes_val encrypt_block_val put_at_def b_def)
    moreover have "take la (drop p msg) = b @ take (la - 16) (drop (p + 16) msg)"
      using True take_add [of 16 "la - 16" "drop p msg"] by (simp add: b_def add.commute)
    moreover have "la - 16 < la" using True by simp
    ultimately show ?thesis
      using less.IH [of "la - 16" "xorl X b" "E (xorl X b)" "p + 16"] less.prems True b
      by (simp add: cbc_step cipher_len)
  qed
qed

lemma first_block:
  assumes "length h + n \<le> 16" "n \<le> length msg" "length X = 16" "length B = 16" "h \<noteq> []"
  defines "B1 \<equiv> put_at (replicate 16 0) 0 h"
  shows "(do { B \<leftarrow> mcopy B1 (length h) msg 0 n; B \<leftarrow> memxor 16 B 0 X 0; X \<leftarrow> encrypt_block E B X; Some (B, X) }) =
    Some (xorl X (h @ take n msg) @ drop (length h + n) X, cbc E X (h @ take n msg))"
proof -
  have B1: "B1 = h @ replicate (16 - length h) 0" using assms by (simp add: B1_def put_at_def)
  have "mcopy B1 (length h) msg 0 n = Some ((h @ take n msg) @ replicate (16 - length (h @ take n msg)) 0)"
    using assms by (simp add: mcopy_in put_at_def B1)
  moreover have "length (h @ take n msg) \<le> 16" using assms by simp
  ultimately show ?thesis
    using assms xorl_zero_pad [of "h @ take n msg" X] cbc_last [of "h @ take n msg" E X]
    by (simp add: memxor_val encrypt_block_val put_at_def)
qed

lemma add_auth_data_val:
  assumes "length B = 16" "length X = 16" "la \<le> length msg"
  shows "\<exists>B'. add_auth_data E msg la B X = Some (B', cbc E (E B) (aad_header la @ take la msg)) \<and> length B' = 16"
proof (cases "la = 0")
  case True
  then show ?thesis using assms
    by (simp add: add_auth_data_def encrypt_block_val mset_at_in put_at_def aad_header_def)
next
  case False
  define h where "h = aad_header la"
  define n where "n = min (16 - length h) la"
  have hl: "length h = 2 \<or> length h = 6 \<or> length h = 10" using False by (simp add: h_def aad_header_def)
  then have h: "h \<noteq> []" "length h \<le> 10" by auto
  define B0 where "B0 = replicate 16 (0 :: u8)"
  define B1 where "B1 = put_at B0 0 h"
  have B0_len: "length B0 = 16" by (simp add: B0_def)
  have adj: "put_at (put_at B0 0 x) 2 y = put_at B0 0 (x @ y)" if "length x = 2" "length y \<le> 14" for x y
    using put_at_put_at_adjacent [of 0 x y B0] that by (simp add: B0_def numeral_2_eq_2)
  have hdr: "(if la < 0xFF00 then do { B \<leftarrow> dtls_int_to_uint16 B0 0 (of_nat la); Some (2, B) }
         else if la \<le> 0xFFFFFFFF then do {
           B \<leftarrow> dtls_int_to_uint16 B0 0 0xFFFE;
           B \<leftarrow> dtls_int_to_uint32 B 2 (of_nat la);
           Some (6, B)
         } else do {
           B \<leftarrow> dtls_int_to_uint16 B0 0 0xFFFF;
           B \<leftarrow> dtls_int_to_uint64 B 2 (of_nat la);
           Some (10, B)
         }) = Some (length h, B1)"
    using False by (simp add: int_to_uint_val adj B1_def h_def aad_header_def B0_len)
  have nle: "length h + n \<le> 16" "n \<le> length msg" "n \<le> la" using h(2) assms(3) by (simp_all add: n_def)
  define X1 where "X1 = cbc E (E B) (h @ take n msg)"
  define B2 where "B2 = xorl (E B) (h @ take n msg) @ drop (length h + n) (E B)"
  obtain Bm where f: "mcopy B1 (length h) msg 0 n = Some Bm" "memxor 16 Bm 0 (E B) 0 = Some B2"
      "encrypt_block E B2 (E B) = Some X1"
    using first_block [of h n msg "E B" B] nle assms h(1)
    by (auto simp: bind_eq_Some_conv B1_def B0_def X1_def B2_def cipher_len)
  have len2: "length B2 = 16" "length X1 = 16"
    using nle assms by (simp_all add: B2_def X1_def cbc_last h cipher_len)
  obtain p' la' B' X' where l: "auth_loop E msg n (la - n) B2 X1 = Some (p', la', B', X')" "length B' = 16"
      "length X' = 16" "la' \<le> 16" "p' + la' = la"
      "cbc E X1 (take (la - n) (drop n msg)) = cbc E X' (take la' (drop p' msg))"
    using auth_loop_val [of B2 X1 n "la - n" msg] len2 assms nle by auto
  define c where "c = take la' (drop p' msg)"
  have c: "length c = la'" using l(5) assms(3) by (simp add: c_def)
  have total: "cbc E (E B) (h @ take la msg) = cbc E X' c"
  proof (cases "n = la")
    case True
    then show ?thesis using l(6) by (simp add: X1_def c_def)
  next
    case False
    then have "length (h @ take n msg) = 16" using nle by (auto simp: n_def min_def split: if_splits)
    moreover have "h @ take la msg = (h @ take n msg) @ take (la - n) (drop n msg)"
      using nle take_add [of n "la - n" msg] by simp
    ultimately show ?thesis
      using cbc_step [of "E B" "h @ take n msg" E "take (la - n) (drop n msg)"]
        cbc_last [of "h @ take n msg" E "E B"] assms h l(6)
      by (simp add: cipher_len X1_def c_def)
  qed
  have tail: "\<exists>B''. (if la' > 0 then do {
         B \<leftarrow> mset_at B' 0 0 16; B \<leftarrow> mcopy B 0 msg p' la'; B \<leftarrow> memxor 16 B 0 X' 0;
         X \<leftarrow> encrypt_block E B X'; Some (B, X) } else Some (B', X')) = Some (B'', cbc E X' c) \<and> length B'' = 16"
  proof (cases "la' = 0")
    case True
    then show ?thesis using l c by simp
  next
    case False
    then have "c \<noteq> []" using c by auto
    then show ?thesis
      using False l c assms xorl_zero_pad [of c X'] cbc_last [of c E X']
      by (simp add: mset_at_in mcopy_in put_at_def memxor_val encrypt_block_val c_def [symmetric])
  qed
  have ms: "mset_at B 0 0 16 = Some B0" using assms by (simp add: mset_at_in put_at_def B0_def)
  show ?thesis
    using tail
    by (simp only: add_auth_data_def encrypt_block_val [OF assms(1,2)] ms False if_False bind.bind_lunit hdr prod.case
        Let_def n_def [symmetric] h_def [symmetric] f l(1) total)
qed

end

text \<open>
  RFC 3610: the counter for the key stream of the message starts at 1, the tag is the CBC-MAC over
  the first block, the encoded additional data and the message, masked with key block 0.
\<close>

definition rfc_mac :: "(u8 list \<Rightarrow> u8 list) \<Rightarrow> nat \<Rightarrow> nat \<Rightarrow> u8 list \<Rightarrow> u8 list \<Rightarrow> u8 list \<Rightarrow> u8 list" where
  "rfc_mac E M L nonce a m =
     cbc E (cbc E (E (CCM_FLAGS (length a) M L # take (15 - L) nonce @ be_nat L (length m)))
       (aad_header (length a) @ a)) m"

definition rfc_key :: "(u8 list \<Rightarrow> u8 list) \<Rightarrow> nat \<Rightarrow> u8 list \<Rightarrow> u32 \<Rightarrow> u8 list" where
  "rfc_key E L nonce = key_block E (of_nat (L - 1) # take (15 - L) nonce) L"

definition rfc_tag :: "(u8 list \<Rightarrow> u8 list) \<Rightarrow> nat \<Rightarrow> nat \<Rightarrow> u8 list \<Rightarrow> u8 list \<Rightarrow> u8 list \<Rightarrow> u8 list" where
  "rfc_tag E M L nonce a m = take M (xorl (rfc_mac E M L nonce a m) (rfc_key E L nonce 0))"

definition rfc_ccm :: "(u8 list \<Rightarrow> u8 list) \<Rightarrow> nat \<Rightarrow> nat \<Rightarrow> u8 list \<Rightarrow> u8 list \<Rightarrow> u8 list \<Rightarrow> u8 list" where
  "rfc_ccm E M L nonce a m = ctr (rfc_key E L nonce) 1 m @ rfc_tag E M L nonce a m"

lemma ctr_append:
  "length m1 = 16 * k \<Longrightarrow> (\<And>c. length (K c) = 16) \<Longrightarrow> ctr K c (m1 @ m2) = ctr K c m1 @ ctr K (c + of_nat k) m2"
proof (induction k arbitrary: m1 c)
  case (Suc k)
  have 1: "length (drop 16 m1) = 16 * k" "m1 \<noteq> []" using Suc.prems by auto
  have "ctr K c (m1 @ m2) = xorl (take 16 m1) (K c) @ ctr K (c + 1) (drop 16 m1 @ m2)"
    using Suc.prems 1 by (subst ctr.simps) simp
  also have "\<dots> = xorl (take 16 m1) (K c) @ ctr K (c + 1) (drop 16 m1) @ ctr K (c + 1 + of_nat k) m2"
    using Suc.IH [OF 1(1) Suc.prems(2)] by simp
  also have "\<dots> = ctr K c m1 @ ctr K (c + of_nat (Suc k)) m2"
    using 1(2) by (subst (2) ctr.simps) (simp add: add.assoc)
  finally show ?case .
qed simp

context block_cipher begin

lemma cbc_append: "length m1 = 16 * k \<Longrightarrow> length X = 16 \<Longrightarrow> cbc E X (m1 @ m2) = cbc E (cbc E X m1) m2"
proof (induction k arbitrary: m1 X)
  case (Suc k)
  define b where "b = take 16 m1"
  have b: "m1 = b @ drop 16 m1" "length b = 16" "length (drop 16 m1) = 16 * k"
    using Suc.prems by (simp_all add: b_def)
  have "cbc E X (m1 @ m2) = cbc E (E (xorl X b)) (drop 16 m1 @ m2)"
    using cbc_step [OF Suc.prems(2) b(2), of E "drop 16 m1 @ m2"] b(1) by (metis append.assoc)
  also have "\<dots> = cbc E (cbc E (E (xorl X b)) (drop 16 m1)) m2"
    using Suc.prems b by (intro Suc.IH) (simp_all add: cipher_len)
  also have "cbc E (E (xorl X b)) (drop 16 m1) = cbc E X m1"
    using cbc_step [OF Suc.prems(2) b(2), of E "drop 16 m1"] b(1) by metis
  finally show ?case .
qed simp

lemma rfc_key_len: "1 \<le> L \<Longrightarrow> L \<le> 3 \<Longrightarrow> 16 - L \<le> length nonce \<Longrightarrow> length (rfc_key E L nonce c) = 16"
  unfolding rfc_key_def by (intro key_block_len) simp

lemma cbc_len: "length X = 16 \<Longrightarrow> length (cbc E X m) = 16"
proof (induction "length m" arbitrary: X m rule: less_induct)
  case less
  show ?case
  proof (cases "m = []")
    case False
    have "length (E (xorl X (take 16 m) @ drop (length m) X)) = 16"
      using less.prems by (intro cipher_len) auto
    with False show ?thesis by (subst cbc.simps) (auto intro: less.hyps)
  qed (simp add: less.prems)
qed

text \<open>The last, partial block and the tag: common to both directions.\<close>

lemma partial_mac:
  assumes "length B = 16" "length X = 16" "0 < r" "r < 16" "p + r \<le> length msg"
  shows "(do { B \<leftarrow> mcopy B r X r (16 - r); (B, X) \<leftarrow> mac E msg p r B X; f B X }) =
    f (xorl X (take r (drop p msg)) @ drop r X) (cbc E X (take r (drop p msg)))"
proof -
  have "take r (drop p msg) \<noteq> []" using assms by auto
  moreover have "put_at B r (take (16 - r) (drop r X)) = take r B @ drop r X"
    using assms by (simp add: put_at_def)
  ultimately show ?thesis
    using assms cbc_last [of "take r (drop p msg)" E X]
    by (simp add: mcopy_in mac_val)
qed

lemma first_counter_block:
  fixes nonce :: "u8 list"
  assumes "1 \<le> L" "L \<le> 3" "16 - L \<le> length nonce"
  shows "\<exists>A. (wr (replicate 16 0) 0 (of_nat (L - 1)) \<bind> (\<lambda>A. mcopy A 1 nonce 0 (16 - L))) = Some A \<and>
    length A = 16 \<and> take (16 - L) A = of_nat (L - 1) # take (15 - L) nonce"
proof -
  have "16 - L = Suc (15 - L)" using assms by simp
  moreover have "take (Suc 0) ((replicate 16 (0 :: u8))[0 := x]) = [x]" for x
    by (simp add: take_Suc_conv_app_nth)
  ultimately show ?thesis using assms by (simp add: mcopy_in put_at_def)
qed

lemma encrypt_message_val:
  assumes L: "1 \<le> L" "L \<le> 3" and nonce: "16 - L \<le> length nonce" and la: "la \<le> length aad"
    and M: "M \<le> 16" and msg: "lm + M \<le> length msg"
  shows "dtls_ccm_encrypt_message E M L nonce msg lm aad la =
    Some (int lm + int M, put_at msg 0 (rfc_ccm E M L nonce (take la aad) (take lm msg)))"
proof -
  define K where "K = rfc_key E L nonce"
  define m where "m = take lm msg"
  define k where "k = lm div 16"
  define m1 where "m1 = take (16 * k) m"
  define m2 where "m2 = drop (16 * k) m"
  have k: "16 * k \<le> lm" "lm - 16 * k = lm mod 16" by (simp_all add: k_def minus_mult_div_eq_mod)
  have kr: "16 * k + lm mod 16 = lm" by (simp add: k_def)
  have m: "m = m1 @ m2" by (simp add: m1_def m2_def)
  have lens: "length m = lm" "length m1 = 16 * k" "length m2 = lm mod 16" "m = m1 @ m2"
    "take (16 * k) (drop 0 msg) = m1" "take (lm mod 16) (drop (16 * k) msg) = m2"
    using msg k m by (simp_all add: m_def m1_def m2_def drop_take)
  define B0 where "B0 = CCM_FLAGS la M L # take (15 - L) nonce @ be_nat L lm"
  have b0: "block0 M L la lm nonce (replicate 16 0) = Some B0" "length B0 = 16"
    using block0_val [of L nonce "replicate 16 0" M la lm] L nonce by (simp_all add: B0_def)
  define X0 where "X0 = cbc E (E B0) (aad_header la @ take la aad)"
  obtain B1 where add: "add_auth_data E aad la B0 (replicate 16 0) = Some (B1, X0)" "length B1 = 16"
    using add_auth_data_val [of B0 "replicate 16 0" la aad] b0 la by (auto simp: X0_def)
  have X0: "length X0 = 16" using b0 by (simp add: X0_def cbc_len cipher_len)
  obtain A where A: "(wr (replicate 16 0) 0 (of_nat (L - 1)) \<bind> (\<lambda>A. mcopy A 1 nonce 0 (16 - L))) = Some A"
      "length A = 16" "take (16 - L) A = of_nat (L - 1) # take (15 - L) nonce"
    using first_counter_block [OF L nonce] by blast
  have K: "key_block E (take (16 - L) A) L = K" by (simp add: K_def rfc_key_def A(3))
  have Klen: "length (K c) = 16" for c unfolding K_def using L nonce by (rule rfc_key_len)
  define msg1 where "msg1 = put_at msg 0 (ctr K 1 m1)"
  obtain A1 B2 S1 where loop: "enc_loop E L 1 msg 0 lm A B1 (replicate 16 0) X0 =
      Some (1 + of_nat k, msg1, 16 * k, lm mod 16, A1, B2, S1, cbc E X0 m1)"
    and len1: "length A1 = 16" "length B2 = 16" "length S1 = 16" "take (16 - L) A1 = take (16 - L) A"
    using enc_loop_val [OF L A(2) add(2) _ X0, of "replicate 16 0" 0 lm msg 1] msg
    by (auto simp: k_def [symmetric] lens(5)[simplified] K msg1_def)
  define X2 where "X2 = cbc E X0 m"
  define msg2 where "msg2 = put_at msg 0 (ctr K 1 m)"
  have X1: "length (cbc E X0 m1) = 16" by (simp add: cbc_len X0)
  have c1: "length (ctr K 1 m1) = 16 * k" by (simp add: length_ctr Klen lens(2))
  have msg1: "length msg1 = length msg" "take (lm mod 16) (drop (16 * k) msg1) = m2"
    using c1 msg k lens(6) by (simp_all add: msg1_def put_at_def)
  have c2: "ctr K 1 m = ctr K 1 m1 @ xorl m2 (K (1 + of_nat k))"
  proof -
    have "ctr K c m2 = xorl m2 (K c)" for c
    proof (cases "m2 = []")
      case False
      then show ?thesis using lens(3) by (subst ctr.simps) simp
    qed simp
    then show ?thesis using ctr_append [OF lens(2), of K 1 m2] Klen lens(4) by simp
  qed
  have x2: "X2 = cbc E (cbc E X0 m1) m2" using cbc_append [OF lens(2) X0, of m2] lens(4) by (simp add: X2_def)
  have tail: "\<exists>A2 S2. (if lm mod 16 > 0 then do {
         B \<leftarrow> mcopy B2 (lm mod 16) (cbc E X0 m1) (lm mod 16) (16 - lm mod 16);
         (B, X) \<leftarrow> mac E msg1 (16 * k) (lm mod 16) B (cbc E X0 m1);
         (msg, A, S) \<leftarrow> encrypt E L (1 + of_nat k) msg1 (16 * k) (lm mod 16) A1 S1;
         Some (msg, 16 * k + lm mod 16, A, S, X)
       } else Some (msg1, 16 * k, A1, S1, cbc E X0 m1)) = Some (msg2, lm, A2, S2, X2) \<and>
    length A2 = 16 \<and> length S2 = 16 \<and> take (16 - L) A2 = take (16 - L) A"
  proof (cases "lm mod 16 = 0")
    case True
    then have "m2 = []" using lens(3) by simp
    moreover have "16 * k = lm" using k(2) True k(1) by simp
    ultimately show ?thesis using True len1 c2 x2 by (simp add: msg1_def msg2_def)
  next
    case False
    obtain A2 S2 where e: "encrypt E L (1 + of_nat k) msg1 (16 * k) (lm mod 16) A1 S1 =
        Some (put_at msg1 (16 * k) (xorl m2 (K (1 + of_nat k))), A2, S2)"
      "length A2 = 16" "length S2 = 16" "take (16 - L) A2 = take (16 - L) A"
      using encrypt_val [OF L len1(1,3), of "lm mod 16" "16 * k" msg1 "1 + of_nat k"] msg1 kr msg
      by (auto simp: len1(4) K)
    have "put_at msg1 (16 * k) (xorl m2 (K (1 + of_nat k))) = msg2"
      using put_at_put_at_adjacent [of 0 "ctr K 1 m1" "xorl m2 (K (1 + of_nat k))" msg] c1 lens(3) kr msg Klen
      unfolding msg2_def c2 by (simp add: msg1_def)
    then show ?thesis
      using False e msg1 msg x2 by (simp add: partial_mac [OF len1(2) X1] kr)
  qed
  then obtain A2 S2 where tail: "(if lm mod 16 > 0 then do {
         B \<leftarrow> mcopy B2 (lm mod 16) (cbc E X0 m1) (lm mod 16) (16 - lm mod 16);
         (B, X) \<leftarrow> mac E msg1 (16 * k) (lm mod 16) B (cbc E X0 m1);
         (msg, A, S) \<leftarrow> encrypt E L (1 + of_nat k) msg1 (16 * k) (lm mod 16) A1 S1;
         Some (msg, 16 * k + lm mod 16, A, S, X)
       } else Some (msg1, 16 * k, A1, S1, cbc E X0 m1)) = Some (msg2, lm, A2, S2, X2)"
    "length A2 = 16" "length S2 = 16" "take (16 - L) A2 = take (16 - L) A" by blast
  have msg2: "length msg2 = length msg" "length (ctr K 1 m) = lm"
    using msg lens(1) by (simp_all add: msg2_def length_ctr Klen)
  have X2: "length X2 = 16" by (simp add: X2_def cbc_len X0)
  have fin: "(do { A \<leftarrow> SET_COUNTER A2 L 0; S \<leftarrow> encrypt_block E A S2; msg \<leftarrow> tag_loop M 0 msg2 lm X2 S;
      Some (int lm + int M, msg) }) = Some (int lm + int M, put_at msg2 lm (take M (xorl X2 (K 0))))"
    using SET_COUNTER_val [OF L tail(2), of 0] tail(2-4) A(2) L M msg msg2 X2 Klen [of 0]
    by (simp add: encrypt_block_val counter_bytes_def K [symmetric] key_block_def tag_loop_val take_xorl)
  have spec: "rfc_ccm E M L nonce (take la aad) m = ctr K 1 m @ take M (xorl X2 (K 0))"
    using la lens(1) by (simp add: rfc_ccm_def rfc_tag_def rfc_mac_def K_def X2_def X0_def B0_def min_def)
  have put: "put_at msg2 lm (take M (xorl X2 (K 0))) = put_at msg 0 (rfc_ccm E M L nonce (take la aad) m)"
    using put_at_put_at_adjacent [of 0 "ctr K 1 m" "take M (xorl X2 (K 0))" msg] msg msg2 M X2 Klen [of 0]
    unfolding spec by (simp add: msg2_def)
  show ?thesis
    unfolding dtls_ccm_encrypt_message_def b0(1) bind.bind_lunit add(1) prod.case
    using A(1) loop tail(1) fin put
    by (auto simp: bind_eq_Some_conv Option.bind_assoc m_def)
qed

lemma decrypt_message_val:
  assumes L: "1 \<le> L" "L \<le> 3" and nonce: "16 - L \<le> length nonce" and la: "la \<le> length aad"
    and M: "M \<le> 16" and msg: "M \<le> n" "n \<le> length msg"
  defines "K \<equiv> rfc_key E L nonce" and "m \<equiv> ctr (rfc_key E L nonce) 1 (take (n - M) msg)"
    and "tag \<equiv> take M (drop (n - M) msg)"
  shows "dtls_ccm_decrypt_message E M L nonce msg n aad la =
    Some (if tag = rfc_tag E M L nonce (take la aad) m then int n - int M else - 1,
      put_at msg 0 (m @ xorl tag (take M (K 0))))"
proof -
  define lm where "lm = n - M"
  have lm: "lm + M = n" "lm + M \<le> length msg" "lm \<le> length msg" using msg by (simp_all add: lm_def)
  define c where "c = take lm msg"
  define k where "k = lm div 16"
  define c1 where "c1 = take (16 * k) c"
  define c2 where "c2 = drop (16 * k) c"
  have k: "16 * k \<le> lm" "lm - 16 * k = lm mod 16" by (simp_all add: k_def minus_mult_div_eq_mod)
  have kr: "16 * k + lm mod 16 = lm" by (simp add: k_def)
  have c: "c = c1 @ c2" by (simp add: c1_def c2_def)
  have lens: "length c = lm" "length c1 = 16 * k" "length c2 = lm mod 16"
    "take (16 * k) (drop 0 msg) = c1" "take (lm mod 16) (drop (16 * k) msg) = c2"
    using lm k c by (simp_all add: c_def c1_def c2_def drop_take)
  define B0 where "B0 = CCM_FLAGS la M L # take (15 - L) nonce @ be_nat L lm"
  have b0: "block0 M L la lm nonce (replicate 16 0) = Some B0" "length B0 = 16"
    using block0_val [of L nonce "replicate 16 0" M la lm] L nonce by (simp_all add: B0_def)
  define X0 where "X0 = cbc E (E B0) (aad_header la @ take la aad)"
  obtain B1 where add: "add_auth_data E aad la B0 (replicate 16 0) = Some (B1, X0)" "length B1 = 16"
    using add_auth_data_val [of B0 "replicate 16 0" la aad] b0 la by (auto simp: X0_def)
  have X0: "length X0 = 16" using b0 by (simp add: X0_def cbc_len cipher_len)
  obtain A where A: "(wr (replicate 16 0) 0 (of_nat (L - 1)) \<bind> (\<lambda>A. mcopy A 1 nonce 0 (16 - L))) = Some A"
      "length A = 16" "take (16 - L) A = of_nat (L - 1) # take (15 - L) nonce"
    using first_counter_block [OF L nonce] by blast
  have K: "key_block E (take (16 - L) A) L = K" by (simp add: K_def rfc_key_def A(3))
  have Klen: "length (K c) = 16" for c unfolding K_def using L nonce by (rule rfc_key_len)
  have m_eq: "m = ctr K 1 c" by (simp add: m_def K_def c_def lm_def)
  define m1 where "m1 = ctr K 1 c1"
  define m2 where "m2 = xorl c2 (K (1 + of_nat k))"
  have m12: "m = m1 @ m2"
  proof -
    have "ctr K x c2 = xorl c2 (K x)" for x
    proof (cases "c2 = []")
      case False
      then show ?thesis using lens(3) by (subst ctr.simps) simp
    qed simp
    then show ?thesis using ctr_append [OF lens(2), of K 1 c2] Klen c by (simp add: m1_def m2_def m_eq)
  qed
  have mlen: "length m1 = 16 * k" "length m2 = lm mod 16" "length m = lm"
    using lens Klen by (simp_all add: m1_def m2_def m_eq length_ctr)
  define msg1 where "msg1 = put_at msg 0 m1"
  obtain A1 B2 S1 where loop: "dec_loop E L 1 msg 0 lm A B1 (replicate 16 0) X0 =
      Some (1 + of_nat k, msg1, 16 * k, lm mod 16, A1, B2, S1, cbc E X0 m1)"
    and len1: "length A1 = 16" "length B2 = 16" "length S1 = 16" "take (16 - L) A1 = take (16 - L) A"
    using dec_loop_val [OF L A(2) add(2) _ X0, of "replicate 16 0" 0 lm msg 1] lm
    by (auto simp: k_def [symmetric] lens(4)[simplified] K msg1_def m1_def)
  define X2 where "X2 = cbc E X0 m"
  define msg2 where "msg2 = put_at msg 0 m"
  have X1: "length (cbc E X0 m1) = 16" by (simp add: cbc_len X0)
  have msg1: "length msg1 = length msg" "take (lm mod 16) (drop (16 * k) msg1) = c2"
    using mlen lm k lens(5) by (simp_all add: msg1_def put_at_def)
  have x2: "X2 = cbc E (cbc E X0 m1) m2" using cbc_append [OF mlen(1) X0, of m2] by (simp add: X2_def m12)
  have msg2: "length msg2 = length msg" "put_at msg1 (16 * k) m2 = msg2"
    "take (lm mod 16) (drop (16 * k) msg2) = m2" "take M (drop lm msg2) = tag"
  proof -
    show "length msg2 = length msg" using mlen lm by (simp add: msg2_def)
    show "put_at msg1 (16 * k) m2 = msg2"
      using put_at_put_at_adjacent [of 0 m1 m2 msg] mlen kr lm unfolding msg2_def m12 by (simp add: msg1_def)
    then show "take (lm mod 16) (drop (16 * k) msg2) = m2"
      using drop_take_put_at [of "16 * k" m2 msg1] mlen msg1 kr lm by simp
    show "take M (drop lm msg2) = tag"
      using drop_put_at [of 0 m msg] mlen lm by (simp add: msg2_def tag_def lm_def)
  qed
  have "\<exists>A2 S2. (if lm mod 16 > 0 then do {
         (msg, A, S) \<leftarrow> encrypt E L (1 + of_nat k) msg1 (16 * k) (lm mod 16) A1 S1;
         B \<leftarrow> mcopy B2 (lm mod 16) (cbc E X0 m1) (lm mod 16) (16 - lm mod 16);
         (B, X) \<leftarrow> mac E msg (16 * k) (lm mod 16) B (cbc E X0 m1);
         Some (msg, 16 * k + lm mod 16, A, S, X)
       } else Some (msg1, 16 * k, A1, S1, cbc E X0 m1)) = Some (msg2, lm, A2, S2, X2) \<and>
    length A2 = 16 \<and> length S2 = 16 \<and> take (16 - L) A2 = take (16 - L) A"
  proof (cases "lm mod 16 = 0")
    case True
    then have "m2 = []" using mlen(2) by simp
    moreover have "16 * k = lm" using k(2) True k(1) by simp
    ultimately show ?thesis using True len1 x2 m12 by (simp add: msg1_def msg2_def)
  next
    case False
    obtain A2 S2 where e: "encrypt E L (1 + of_nat k) msg1 (16 * k) (lm mod 16) A1 S1 = Some (msg2, A2, S2)"
      "length A2 = 16" "length S2 = 16" "take (16 - L) A2 = take (16 - L) A"
      using encrypt_val [OF L len1(1,3), of "lm mod 16" "16 * k" msg1 "1 + of_nat k"] msg1 kr lm msg2(2)
      by (auto simp: len1(4) K m2_def)
    then show ?thesis
      using False msg2 lm x2 by (simp add: partial_mac [OF len1(2) X1] kr)
  qed
  then obtain A2 S2 where tail: "(if lm mod 16 > 0 then do {
         (msg, A, S) \<leftarrow> encrypt E L (1 + of_nat k) msg1 (16 * k) (lm mod 16) A1 S1;
         B \<leftarrow> mcopy B2 (lm mod 16) (cbc E X0 m1) (lm mod 16) (16 - lm mod 16);
         (B, X) \<leftarrow> mac E msg (16 * k) (lm mod 16) B (cbc E X0 m1);
         Some (msg, 16 * k + lm mod 16, A, S, X)
       } else Some (msg1, 16 * k, A1, S1, cbc E X0 m1)) = Some (msg2, lm, A2, S2, X2)"
    "length A2 = 16" "length S2 = 16" "take (16 - L) A2 = take (16 - L) A" by blast
  have X2: "length X2 = 16" by (simp add: X2_def cbc_len X0)
  define t where "t = xorl tag (take M (K 0))"
  have tl: "length t = M" "length tag = M" using msg Klen [of 0] M lm by (simp_all add: t_def tag_def lm_def)
  have fin: "(do { A \<leftarrow> SET_COUNTER A2 L 0; S \<leftarrow> encrypt_block E A S2; msg \<leftarrow> memxor M msg2 lm S 0;
      ok \<leftarrow> equals X2 0 msg lm M; if ok then Some (int n - int M, msg) else Some (- 1, msg) }) =
    Some (if take M X2 = t then int n - int M else - 1, put_at msg2 lm t)"
    using SET_COUNTER_val [OF L tail(2), of 0] tail(2-4) A(2) L M lm msg2 X2 Klen [of 0] tl drop_take_put_at [of lm t msg2]
    by (simp add: encrypt_block_val counter_bytes_def K [symmetric] key_block_def memxor_val equals_val t_def)
  have "take M X2 = t \<longleftrightarrow> tag = rfc_tag E M L nonce (take la aad) m"
  proof -
    have "rfc_tag E M L nonce (take la aad) m = xorl (take M X2) (take M (K 0))"
      using la mlen(3) by (simp add: rfc_tag_def rfc_mac_def K_def X2_def X0_def B0_def min_def take_xorl)
    moreover have "xorl (xorl (take M X2) (take M (K 0))) (take M (K 0)) = take M X2" "xorl t (take M (K 0)) = tag"
      using X2 Klen [of 0] M tl(2) by (simp_all add: xorl_cancel t_def)
    ultimately show ?thesis unfolding t_def by metis
  qed
  moreover have "put_at msg2 lm t = put_at msg 0 (m @ t)"
    using put_at_put_at_adjacent [of 0 m t msg] lm mlen tl by (simp add: msg2_def)
  ultimately have fin': "(do { A \<leftarrow> SET_COUNTER A2 L 0; S \<leftarrow> encrypt_block E A S2; msg \<leftarrow> memxor M msg2 lm S 0;
      ok \<leftarrow> equals X2 0 msg lm M; if ok then Some (int n - int M, msg) else Some (- 1, msg) }) =
    Some (if tag = rfc_tag E M L nonce (take la aad) m then int n - int M else - 1,
      put_at msg 0 (m @ xorl tag (take M (K 0))))"
    using fin by (simp only: t_def)
  obtain A00 where A00: "wr (replicate 16 0) 0 (of_nat (L - 1)) = Some A00" "mcopy A00 1 nonce 0 (16 - L) = Some A"
    using A(1) by (auto simp: bind_eq_Some_conv)
  have "\<not> n < M" using msg by simp
  then show ?thesis
    by (simp only: dtls_ccm_decrypt_message_def if_False Let_def lm_def [symmetric] b0(1) add(1) A00 bind.bind_lunit
        prod.case loop tail(1) fin')
qed

text \<open>Decryption of what encryption produced, and only of that, is accepted.\<close>

lemma ccm_roundtrip:
  assumes "1 \<le> L" "L \<le> 3" "16 - L \<le> length nonce" "la \<le> length aad" "M \<le> 16" "lm + M \<le> length msg"
  shows "\<exists>buf buf'. dtls_ccm_encrypt_message E M L nonce msg lm aad la = Some (int lm + int M, buf) \<and>
    length buf = length msg \<and> dtls_ccm_decrypt_message E M L nonce buf (lm + M) aad la = Some (int lm, buf') \<and>
    take lm buf' = take lm msg \<and> drop (lm + M) buf' = drop (lm + M) msg"
proof -
  define K where "K = rfc_key E L nonce"
  define a where "a = take la aad"
  define m where "m = take lm msg"
  define ct where "ct = ctr K 1 m"
  define buf where "buf = put_at msg 0 (rfc_ccm E M L nonce a m)"
  have Klen: "length (K c) = 16" for c unfolding K_def using assms by (intro rfc_key_len)
  have lens: "length m = lm" "length ct = lm" using assms by (simp_all add: m_def ct_def length_ctr Klen)
  have "length (rfc_mac E M L nonce a m) = 16"
    using assms by (simp add: rfc_mac_def cbc_len cipher_len)
  then have taglen: "length (rfc_tag E M L nonce a m) = M"
    using assms Klen [of 0] by (simp add: rfc_tag_def K_def)
  have ccm: "rfc_ccm E M L nonce a m = ct @ rfc_tag E M L nonce a m" by (simp add: rfc_ccm_def ct_def K_def)
  have buf: "length buf = length msg" "take lm buf = ct" "take M (drop lm buf) = rfc_tag E M L nonce a m"
    "drop (lm + M) buf = drop (lm + M) msg"
    using assms lens taglen unfolding buf_def ccm by (simp_all add: put_at_def)
  have enc: "dtls_ccm_encrypt_message E M L nonce msg lm aad la = Some (int lm + int M, buf)"
    using encrypt_message_val [OF assms] by (simp add: buf_def a_def m_def)
  have "ctr K 1 (take lm buf) = m" using ctr_ctr [of K 1 m] Klen by (simp add: buf ct_def)
  then have dec: "dtls_ccm_decrypt_message E M L nonce buf (lm + M) aad la =
      Some (int lm, put_at buf 0 (m @ xorl (rfc_tag E M L nonce a m) (take M (K 0))))"
    using decrypt_message_val [OF assms(1-5), of "lm + M" buf] assms(6) buf by (simp add: K_def a_def)
  show ?thesis
    using enc dec buf lens taglen Klen [of 0] assms
    by (intro exI [of _ buf] exI conjI) (assumption | simp add: put_at_def m_def)+
qed

lemma ccm_authentic:
  assumes "1 \<le> L" "L \<le> 3" "16 - L \<le> length nonce" "la \<le> length aad" "M \<le> 16" "M \<le> n" "n \<le> length msg"
  shows "\<exists>ret buf. dtls_ccm_decrypt_message E M L nonce msg n aad la = Some (ret, buf) \<and>
    (ret = - 1 \<or> ret = int n - int M) \<and>
    (0 \<le> ret \<longrightarrow> take n msg = rfc_ccm E M L nonce (take la aad) (take (n - M) buf)) \<and>
    (ret = - 1 \<longrightarrow> (\<forall>m. length m = n - M \<longrightarrow> take n msg \<noteq> rfc_ccm E M L nonce (take la aad) m))"
proof -
  define K where "K = rfc_key E L nonce"
  define c where "c = take (n - M) msg"
  define m where "m = ctr K 1 c"
  define tag where "tag = take M (drop (n - M) msg)"
  define buf where "buf = put_at msg 0 (m @ xorl tag (take M (K 0)))"
  have Klen: "length (K c) = 16" for c unfolding K_def using assms by (intro rfc_key_len)
  have lens: "length c = n - M" "length m = n - M" "length tag = M"
    using assms by (simp_all add: c_def m_def tag_def length_ctr Klen)
  have dec: "dtls_ccm_decrypt_message E M L nonce msg n aad la =
      Some (if tag = rfc_tag E M L nonce (take la aad) m then int n - int M else - 1, buf)"
    using decrypt_message_val [OF assms] by (simp add: K_def c_def m_def tag_def buf_def)
  have split: "take n msg = c @ tag"
    using assms take_add [of "n - M" M msg] by (simp add: c_def tag_def)
  have cm: "ctr K 1 m = c" by (simp add: m_def ctr_ctr Klen)
  have bm: "take (n - M) buf = m" using lens by (simp add: buf_def put_at_def)
  have iff: "take n msg = rfc_ccm E M L nonce (take la aad) x \<longleftrightarrow> x = m \<and> tag = rfc_tag E M L nonce (take la aad) m"
    if "length x = n - M" for x
  proof -
    have "length (ctr K 1 x) = length c" using that lens by (simp add: length_ctr Klen)
    then have "take n msg = rfc_ccm E M L nonce (take la aad) x \<longleftrightarrow> c = ctr K 1 x \<and> tag = rfc_tag E M L nonce (take la aad) x"
      unfolding split rfc_ccm_def K_def by auto
    moreover have "c = ctr K 1 x \<longleftrightarrow> x = m" using ctr_ctr [of K 1 x] cm Klen by (auto simp: m_def)
    ultimately show ?thesis by auto
  qed
  show ?thesis using dec iff [of m] iff lens assms(6) by (auto simp: bm)
qed

end

end
