(* ===== verification/Rijndael.thy ===== *)
theory Rijndael
  imports Rijndael_Tables
begin

text \<open>
  The AES routines of \<open>arduino/libraries/Dtls/aes/rijndael.c\<close> (software path: no
  \<open>FULL_UNROLL\<close>, no \<open>HW_ENCRYPTION_ATMEGA128RFA1\<close>; the functions under \<open>WITH_AES_DECRYPT\<close> are
  included). The pointer \<open>rk\<close> into the key schedule is an array with a position. \<open>None\<close> is an
  access outside an array; the table indices are bytes and the tables have 256 entries.
\<close>

section \<open>Bytes of a word\<close>

definition GETU32 :: "u8 list \<Rightarrow> nat \<Rightarrow> u32 option" where
  "GETU32 pt p = do {
     a \<leftarrow> rd pt p;
     b \<leftarrow> rd pt (p + 1);
     c \<leftarrow> rd pt (p + 2);
     d \<leftarrow> rd pt (p + 3);
     Some (push_bit 24 (ucast a) XOR push_bit 16 (ucast b) XOR push_bit 8 (ucast c) XOR ucast d)
   }"

definition PUTU32 :: "u8 list \<Rightarrow> nat \<Rightarrow> u32 \<Rightarrow> u8 list option" where
  "PUTU32 ct p st = do {
     ct \<leftarrow> wr ct p (ucast (drop_bit 24 st));
     ct \<leftarrow> wr ct (p + 1) (ucast (drop_bit 16 st));
     ct \<leftarrow> wr ct (p + 2) (ucast (drop_bit 8 st));
     wr ct (p + 3) (ucast st)
   }"

text \<open>The table indices \<open>(w >> 24)\<close>, \<open>(w >> 16) & 0xff\<close>, \<open>(w >> 8) & 0xff\<close> and \<open>w & 0xff\<close>.\<close>

definition i3 :: "u32 \<Rightarrow> nat" where "i3 w = unat (drop_bit 24 w)"
definition i2 :: "u32 \<Rightarrow> nat" where "i2 w = unat (drop_bit 16 w AND 0xff)"
definition i1 :: "u32 \<Rightarrow> nat" where "i1 w = unat (drop_bit 8 w AND 0xff)"
definition i0 :: "u32 \<Rightarrow> nat" where "i0 w = unat (w AND 0xff)"

text \<open>Four bytes through the S-box, put together from the four masked columns of a table.\<close>

definition sub_bytes4 :: "u32 list \<Rightarrow> nat \<Rightarrow> nat \<Rightarrow> nat \<Rightarrow> nat \<Rightarrow> u32" where
  "sub_bytes4 T a b c d =
     (T ! a AND 0xff000000) XOR (T ! b AND 0x00ff0000) XOR (T ! c AND 0x0000ff00) XOR (T ! d AND 0x000000ff)"

section \<open>Key schedule\<close>

partial_function (option) key_loop_128 :: "u32 list \<Rightarrow> nat \<Rightarrow> nat \<Rightarrow> (int \<times> u32 list) option" where
  "key_loop_128 rk p i = do {
     temp \<leftarrow> rd rk (p + 3);
     k0 \<leftarrow> rd rk p;
     rc \<leftarrow> rd rcon i;
     rk \<leftarrow> wr rk (p + 4) (k0 XOR sub_bytes4 Te4 (i2 temp) (i1 temp) (i0 temp) (i3 temp) XOR rc);
     a \<leftarrow> rd rk (p + 1); b \<leftarrow> rd rk (p + 4); rk \<leftarrow> wr rk (p + 5) (a XOR b);
     a \<leftarrow> rd rk (p + 2); b \<leftarrow> rd rk (p + 5); rk \<leftarrow> wr rk (p + 6) (a XOR b);
     a \<leftarrow> rd rk (p + 3); b \<leftarrow> rd rk (p + 6); rk \<leftarrow> wr rk (p + 7) (a XOR b);
     if i + 1 = 10 then Some (10, rk) else key_loop_128 rk (p + 4) (i + 1)
   }"

partial_function (option) key_loop_192 :: "u32 list \<Rightarrow> nat \<Rightarrow> nat \<Rightarrow> (int \<times> u32 list) option" where
  "key_loop_192 rk p i = do {
     temp \<leftarrow> rd rk (p + 5);
     k0 \<leftarrow> rd rk p;
     rc \<leftarrow> rd rcon i;
     rk \<leftarrow> wr rk (p + 6) (k0 XOR sub_bytes4 Te4 (i2 temp) (i1 temp) (i0 temp) (i3 temp) XOR rc);
     a \<leftarrow> rd rk (p + 1); b \<leftarrow> rd rk (p + 6); rk \<leftarrow> wr rk (p + 7) (a XOR b);
     a \<leftarrow> rd rk (p + 2); b \<leftarrow> rd rk (p + 7); rk \<leftarrow> wr rk (p + 8) (a XOR b);
     a \<leftarrow> rd rk (p + 3); b \<leftarrow> rd rk (p + 8); rk \<leftarrow> wr rk (p + 9) (a XOR b);
     if i + 1 = 8 then Some (12, rk)
     else do {
       a \<leftarrow> rd rk (p + 4); b \<leftarrow> rd rk (p + 9); rk \<leftarrow> wr rk (p + 10) (a XOR b);
       a \<leftarrow> rd rk (p + 5); b \<leftarrow> rd rk (p + 10); rk \<leftarrow> wr rk (p + 11) (a XOR b);
       key_loop_192 rk (p + 6) (i + 1)
     }
   }"

partial_function (option) key_loop_256 :: "u32 list \<Rightarrow> nat \<Rightarrow> nat \<Rightarrow> (int \<times> u32 list) option" where
  "key_loop_256 rk p i = do {
     temp \<leftarrow> rd rk (p + 7);
     k0 \<leftarrow> rd rk p;
     rc \<leftarrow> rd rcon i;
     rk \<leftarrow> wr rk (p + 8) (k0 XOR sub_bytes4 Te4 (i2 temp) (i1 temp) (i0 temp) (i3 temp) XOR rc);
     a \<leftarrow> rd rk (p + 1); b \<leftarrow> rd rk (p + 8); rk \<leftarrow> wr rk (p + 9) (a XOR b);
     a \<leftarrow> rd rk (p + 2); b \<leftarrow> rd rk (p + 9); rk \<leftarrow> wr rk (p + 10) (a XOR b);
     a \<leftarrow> rd rk (p + 3); b \<leftarrow> rd rk (p + 10); rk \<leftarrow> wr rk (p + 11) (a XOR b);
     if i + 1 = 7 then Some (14, rk)
     else do {
       temp \<leftarrow> rd rk (p + 11);
       k4 \<leftarrow> rd rk (p + 4);
       rk \<leftarrow> wr rk (p + 12) (k4 XOR sub_bytes4 Te4 (i3 temp) (i2 temp) (i1 temp) (i0 temp));
       a \<leftarrow> rd rk (p + 5); b \<leftarrow> rd rk (p + 12); rk \<leftarrow> wr rk (p + 13) (a XOR b);
       a \<leftarrow> rd rk (p + 6); b \<leftarrow> rd rk (p + 13); rk \<leftarrow> wr rk (p + 14) (a XOR b);
       a \<leftarrow> rd rk (p + 7); b \<leftarrow> rd rk (p + 14); rk \<leftarrow> wr rk (p + 15) (a XOR b);
       key_loop_256 rk (p + 8) (i + 1)
     }
   }"

definition rijndaelKeySetupEnc :: "u32 list \<Rightarrow> u8 list \<Rightarrow> int \<Rightarrow> (int \<times> u32 list) option" where
  "rijndaelKeySetupEnc rk cipherKey keyBits = do {
     k \<leftarrow> GETU32 cipherKey 0; rk \<leftarrow> wr rk 0 k;
     k \<leftarrow> GETU32 cipherKey 4; rk \<leftarrow> wr rk 1 k;
     k \<leftarrow> GETU32 cipherKey 8; rk \<leftarrow> wr rk 2 k;
     k \<leftarrow> GETU32 cipherKey 12; rk \<leftarrow> wr rk 3 k;
     if keyBits = 128 then key_loop_128 rk 0 0
     else do {
       k \<leftarrow> GETU32 cipherKey 16; rk \<leftarrow> wr rk 4 k;
       k \<leftarrow> GETU32 cipherKey 20; rk \<leftarrow> wr rk 5 k;
       if keyBits = 192 then key_loop_192 rk 0 0
       else do {
         k \<leftarrow> GETU32 cipherKey 24; rk \<leftarrow> wr rk 6 k;
         k \<leftarrow> GETU32 cipherKey 28; rk \<leftarrow> wr rk 7 k;
         if keyBits = 256 then key_loop_256 rk 0 0
         else Some (0, rk)
       }
     }
   }"

definition swap_words :: "u32 list \<Rightarrow> nat \<Rightarrow> nat \<Rightarrow> u32 list option" where
  "swap_words rk i j = do {
     temp \<leftarrow> rd rk i;
     b \<leftarrow> rd rk j;
     rk \<leftarrow> wr rk i b;
     wr rk j temp
   }"

fun invert_loop :: "u32 list \<Rightarrow> nat \<Rightarrow> nat \<Rightarrow> u32 list option" where
  "invert_loop rk i j =
     (if i < j then do {
        rk \<leftarrow> swap_words rk i j;
        rk \<leftarrow> swap_words rk (i + 1) (j + 1);
        rk \<leftarrow> swap_words rk (i + 2) (j + 2);
        rk \<leftarrow> swap_words rk (i + 3) (j + 3);
        invert_loop rk (i + 4) (j - 4)
      } else Some rk)"

declare invert_loop.simps [simp del]

definition inv_mix_word :: "u32 \<Rightarrow> u32" where
  "inv_mix_word w = Td0 ! i0 (Te4 ! i3 w) XOR Td1 ! i0 (Te4 ! i2 w) XOR Td2 ! i0 (Te4 ! i1 w) XOR Td3 ! i0 (Te4 ! i0 w)"

definition inv_mix_at :: "u32 list \<Rightarrow> nat \<Rightarrow> u32 list option" where
  "inv_mix_at rk p = do { w \<leftarrow> rd rk p; wr rk p (inv_mix_word w) }"

text \<open>\<open>for (i = 1; i < Nr; i++) { rk += 4; ... }\<close>; the first argument is \<open>Nr - i\<close>.\<close>

fun inv_mix_loop :: "nat \<Rightarrow> u32 list \<Rightarrow> nat \<Rightarrow> u32 list option" where
  "inv_mix_loop 0 rk p = Some rk"
| "inv_mix_loop (Suc n) rk p = do {
     rk \<leftarrow> inv_mix_at rk (p + 4);
     rk \<leftarrow> inv_mix_at rk (p + 5);
     rk \<leftarrow> inv_mix_at rk (p + 6);
     rk \<leftarrow> inv_mix_at rk (p + 7);
     inv_mix_loop n rk (p + 4)
   }"

definition rijndaelKeySetupDec :: "u32 list \<Rightarrow> u8 list \<Rightarrow> int \<Rightarrow> (int \<times> u32 list) option" where
  "rijndaelKeySetupDec rk cipherKey keyBits = do {
     (Nr, rk) \<leftarrow> rijndaelKeySetupEnc rk cipherKey keyBits;
     rk \<leftarrow> invert_loop rk 0 (4 * nat Nr);
     rk \<leftarrow> inv_mix_loop (nat Nr - 1) rk 0;
     Some (Nr, rk)
   }"

section \<open>Encryption\<close>

type_synonym aes_state = "u32 \<times> u32 \<times> u32 \<times> u32"

definition add_key :: "u8 list \<Rightarrow> u32 list \<Rightarrow> aes_state option" where
  "add_key pt rk = do {
     a \<leftarrow> GETU32 pt 0; k0 \<leftarrow> rd rk 0;
     b \<leftarrow> GETU32 pt 4; k1 \<leftarrow> rd rk 1;
     c \<leftarrow> GETU32 pt 8; k2 \<leftarrow> rd rk 2;
     d \<leftarrow> GETU32 pt 12; k3 \<leftarrow> rd rk 3;
     Some (a XOR k0, b XOR k1, c XOR k2, d XOR k3)
   }"

definition te_word :: "u32 \<Rightarrow> u32 \<Rightarrow> u32 \<Rightarrow> u32 \<Rightarrow> u32" where
  "te_word a b c d = Te0 ! i3 a XOR Te1 ! i2 b XOR Te2 ! i1 c XOR Te3 ! i0 d"

definition enc_round :: "u32 list \<Rightarrow> nat \<Rightarrow> aes_state \<Rightarrow> aes_state option" where
  "enc_round rk p = (\<lambda>(s0, s1, s2, s3). do {
     k0 \<leftarrow> rd rk p; k1 \<leftarrow> rd rk (p + 1); k2 \<leftarrow> rd rk (p + 2); k3 \<leftarrow> rd rk (p + 3);
     Some (te_word s0 s1 s2 s3 XOR k0, te_word s1 s2 s3 s0 XOR k1,
           te_word s2 s3 s0 s1 XOR k2, te_word s3 s0 s1 s2 XOR k3)
   })"

partial_function (option) enc_rounds :: "u32 list \<Rightarrow> int \<Rightarrow> nat \<Rightarrow> aes_state \<Rightarrow> (nat \<times> aes_state) option" where
  "enc_rounds rk r p s = do {
     t \<leftarrow> enc_round rk (p + 4) s;
     if r - 1 = 0 then Some (p + 8, t)
     else do { s \<leftarrow> enc_round rk (p + 8) t; enc_rounds rk (r - 1) (p + 8) s }
   }"

definition rijndaelEncrypt :: "u32 list \<Rightarrow> int \<Rightarrow> u8 list \<Rightarrow> u8 list \<Rightarrow> u8 list option" where
  "rijndaelEncrypt rk Nr pt ct = do {
     s \<leftarrow> add_key pt rk;
     (p, t0, t1, t2, t3) \<leftarrow> enc_rounds rk (Nr div 2) 0 s;
     k \<leftarrow> rd rk p; ct \<leftarrow> PUTU32 ct 0 (sub_bytes4 Te4 (i3 t0) (i2 t1) (i1 t2) (i0 t3) XOR k);
     k \<leftarrow> rd rk (p + 1); ct \<leftarrow> PUTU32 ct 4 (sub_bytes4 Te4 (i3 t1) (i2 t2) (i1 t3) (i0 t0) XOR k);
     k \<leftarrow> rd rk (p + 2); ct \<leftarrow> PUTU32 ct 8 (sub_bytes4 Te4 (i3 t2) (i2 t3) (i1 t0) (i0 t1) XOR k);
     k \<leftarrow> rd rk (p + 3); PUTU32 ct 12 (sub_bytes4 Te4 (i3 t3) (i2 t0) (i1 t1) (i0 t2) XOR k)
   }"

section \<open>Decryption\<close>

definition td_word :: "u32 \<Rightarrow> u32 \<Rightarrow> u32 \<Rightarrow> u32 \<Rightarrow> u32" where
  "td_word a b c d = Td0 ! i3 a XOR Td1 ! i2 b XOR Td2 ! i1 c XOR Td3 ! i0 d"

definition dec_round :: "u32 list \<Rightarrow> nat \<Rightarrow> aes_state \<Rightarrow> aes_state option" where
  "dec_round rk p = (\<lambda>(s0, s1, s2, s3). do {
     k0 \<leftarrow> rd rk p; k1 \<leftarrow> rd rk (p + 1); k2 \<leftarrow> rd rk (p + 2); k3 \<leftarrow> rd rk (p + 3);
     Some (td_word s0 s3 s2 s1 XOR k0, td_word s1 s0 s3 s2 XOR k1,
           td_word s2 s1 s0 s3 XOR k2, td_word s3 s2 s1 s0 XOR k3)
   })"

partial_function (option) dec_rounds :: "u32 list \<Rightarrow> int \<Rightarrow> nat \<Rightarrow> aes_state \<Rightarrow> (nat \<times> aes_state) option" where
  "dec_rounds rk r p s = do {
     t \<leftarrow> dec_round rk (p + 4) s;
     if r - 1 = 0 then Some (p + 8, t)
     else do { s \<leftarrow> dec_round rk (p + 8) t; dec_rounds rk (r - 1) (p + 8) s }
   }"

definition rijndaelDecrypt :: "u32 list \<Rightarrow> int \<Rightarrow> u8 list \<Rightarrow> u8 list \<Rightarrow> u8 list option" where
  "rijndaelDecrypt rk Nr ct pt = do {
     s \<leftarrow> add_key ct rk;
     (p, t0, t1, t2, t3) \<leftarrow> dec_rounds rk (Nr div 2) 0 s;
     k \<leftarrow> rd rk p; pt \<leftarrow> PUTU32 pt 0 (sub_bytes4 Td4 (i3 t0) (i2 t3) (i1 t2) (i0 t1) XOR k);
     k \<leftarrow> rd rk (p + 1); pt \<leftarrow> PUTU32 pt 4 (sub_bytes4 Td4 (i3 t1) (i2 t0) (i1 t3) (i0 t2) XOR k);
     k \<leftarrow> rd rk (p + 2); pt \<leftarrow> PUTU32 pt 8 (sub_bytes4 Td4 (i3 t2) (i2 t1) (i1 t0) (i0 t3) XOR k);
     k \<leftarrow> rd rk (p + 3); PUTU32 pt 12 (sub_bytes4 Td4 (i3 t3) (i2 t2) (i1 t1) (i0 t0) XOR k)
   }"

section \<open>Contexts\<close>

record rijndael_ctx =
  enc_only :: bool
  Nr :: int
  ek :: "u32 list"
  dk :: "u32 list"

definition AES_MAXROUNDS :: nat where
  "AES_MAXROUNDS = 10"

definition rijndael_set_key_enc_only :: "rijndael_ctx \<Rightarrow> u8 list \<Rightarrow> int \<Rightarrow> (int \<times> rijndael_ctx) option" where
  "rijndael_set_key_enc_only ctx key bits = do {
     (rounds, e) \<leftarrow> rijndaelKeySetupEnc (ek ctx) key bits;
     let ctx = ctx\<lparr>ek := e\<rparr>;
     if rounds = 0 then Some (- 1, ctx) else Some (0, ctx\<lparr>Nr := rounds, enc_only := True\<rparr>)
   }"

definition rijndael_set_key :: "rijndael_ctx \<Rightarrow> u8 list \<Rightarrow> int \<Rightarrow> (int \<times> rijndael_ctx) option" where
  "rijndael_set_key ctx key bits = do {
     (rounds, e) \<leftarrow> rijndaelKeySetupEnc (ek ctx) key bits;
     let ctx = ctx\<lparr>ek := e\<rparr>;
     if rounds = 0 then Some (- 1, ctx)
     else do {
       (rounds', d) \<leftarrow> rijndaelKeySetupDec (dk ctx) key bits;
       let ctx = ctx\<lparr>dk := d\<rparr>;
       if rounds' \<noteq> rounds then Some (- 1, ctx)
       else Some (0, ctx\<lparr>Nr := rounds, enc_only := False\<rparr>)
     }
   }"

definition rijndael_encrypt :: "rijndael_ctx \<Rightarrow> u8 list \<Rightarrow> u8 list \<Rightarrow> u8 list option" where
  "rijndael_encrypt ctx src dst = rijndaelEncrypt (ek ctx) (Nr ctx) src dst"

definition rijndael_decrypt :: "rijndael_ctx \<Rightarrow> u8 list \<Rightarrow> u8 list \<Rightarrow> u8 list option" where
  "rijndael_decrypt ctx src dst = rijndaelDecrypt (dk ctx) (Nr ctx) src dst"

end
