(* ===== verification/Rijndael_Laws.thy ===== *)
theory Rijndael_Laws
  imports Rijndael
begin

text \<open>
  AES as FIPS 197 defines it (SubBytes, ShiftRows, MixColumns and AddRoundKey on columns) and the
  proof that the table-driven routines of \<open>rijndael.c\<close> compute it: every table entry is the
  S-box followed by a column of the MixColumns matrix, a round is a round of the standard, the key
  schedule fills its array, and decryption inverts encryption.
\<close>

section \<open>Words as four bytes\<close>

definition pack :: "u8 \<Rightarrow> u8 \<Rightarrow> u8 \<Rightarrow> u8 \<Rightarrow> u32" where
  "pack a b c d = push_bit 24 (ucast a) XOR push_bit 16 (ucast b) XOR push_bit 8 (ucast c) XOR ucast d"

definition b3 :: "u32 \<Rightarrow> u8" where "b3 w = ucast (drop_bit 24 w)"
definition b2 :: "u32 \<Rightarrow> u8" where "b2 w = ucast (drop_bit 16 w)"
definition b1 :: "u32 \<Rightarrow> u8" where "b1 w = ucast (drop_bit 8 w)"
definition b0 :: "u32 \<Rightarrow> u8" where "b0 w = ucast w"

lemmas byte_defs = pack_def b3_def b2_def b1_def b0_def

lemma pack_bytes: "pack (b3 w) (b2 w) (b1 w) (b0 w) = w"
proof (rule bit_word_eqI)
  fix n assume n: "n < LENGTH(32)"
  consider "n < 8" | "8 \<le> n" "n < 16" | "16 \<le> n" "n < 24" | "24 \<le> n" "n < 32" using n by fastforce
  then show "bit (pack (b3 w) (b2 w) (b1 w) (b0 w)) n = bit w n"
  proof cases
    case 2
    then have "n - 8 < 8" by linarith
    with 2 show ?thesis by (simp add: byte_defs bit_simps)
  next
    case 3
    then have "n - 16 < 8" "\<not> n - 8 < 8" by linarith+
    with 3 show ?thesis by (simp add: byte_defs bit_simps)
  next
    case 4
    then have "n - 24 < 8" "\<not> n - 16 < 8" "\<not> n - 8 < 8" by linarith+
    with 4 show ?thesis by (simp add: byte_defs bit_simps)
  qed (simp add: byte_defs bit_simps)
qed

lemma bytes_pack [simp]:
  "b3 (pack a b c d) = a" "b2 (pack a b c d) = b" "b1 (pack a b c d) = c" "b0 (pack a b c d) = d"
proof -
  have "\<not> bit (x :: u8) (n + 8)" "\<not> bit x (n + 16)" "\<not> bit x (n + 24)" "\<not> bit x (8 + n)" "\<not> bit x (16 + n)" "\<not> bit x (24 + n)" for x n
    by (simp_all add: bit_word.rep_eq) 
  then show "b3 (pack a b c d) = a" "b2 (pack a b c d) = b" "b1 (pack a b c d) = c" "b0 (pack a b c d) = d"
    by (auto intro!: bit_word_eqI simp: byte_defs bit_simps)
qed

lemma bytes_xor [simp]:
  "b3 (v XOR w) = b3 v XOR b3 w" "b2 (v XOR w) = b2 v XOR b2 w"
  "b1 (v XOR w) = b1 v XOR b1 w" "b0 (v XOR w) = b0 v XOR b0 w"
  by (auto intro!: bit_word_eqI simp: byte_defs bit_simps)

lemma pack_xor: "pack a b c d XOR pack a' b' c' d' = pack (a XOR a') (b XOR b') (c XOR c') (d XOR d')"
  by (rule bit_word_eqI) (auto simp: byte_defs bit_simps)

lemma byte_of32: "w AND 0xff = (ucast (ucast w :: u8) :: u32)"
proof -
  have "(0xff :: u32) = mask 8" by (simp add: mask_eq_exp_minus_1)
  then have "w AND 0xff = take_bit 8 w" by (simp only: take_bit_eq_mask)
  then show ?thesis by (simp only:) (intro bit_word_eqI, auto simp: bit_simps)
qed

lemma unat8_less: "unat (x :: u8) < 256"
proof -
  have "unat x < 2 ^ LENGTH(8)" by (rule unsigned_less)
  then show ?thesis by simp
qed

lemma unat_ucast8: "unat (ucast (x :: u8) :: u32) = unat x"
  using unat8_less [of x] by (simp add: unsigned_ucast_eq take_bit_nat_eq_self_iff)

lemma indices: "i3 w = unat (b3 w)" "i2 w = unat (b2 w)" "i1 w = unat (b1 w)" "i0 w = unat (b0 w)"
proof -
  have "drop_bit 24 w = ucast (b3 w)"
    by (rule bit_word_eqI) (auto simp: byte_defs bit_simps dest: bit_imp_le_length)
  then show "i3 w = unat (b3 w)" by (simp add: i3_def unat_ucast8)
qed (simp_all add: i2_def i1_def i0_def byte_of32 unat_ucast8 b2_def b1_def b0_def)

section \<open>Multiplication by x\<close>

definition xt :: "u8 \<Rightarrow> u8" where
  "xt b = push_bit 1 b XOR (if bit b 7 then 0x1b else 0)"

lemma xt_xor: "xt (a XOR b) = xt a XOR xt b"
  by (rule bit_word_eqI) (auto simp: xt_def bit_simps)

definition x2 :: "u32 \<Rightarrow> u32" where
  "x2 s = (if s < 128 then 2 * s else (2 * s - 256) XOR 27)"

definition bytes4 :: "u32 \<Rightarrow> u32 \<Rightarrow> u32 \<Rightarrow> u32 \<Rightarrow> u32" where
  "bytes4 a b c d = a * 0x1000000 + b * 0x10000 + c * 0x100 + d"

definition low :: "u32 \<Rightarrow> u32" where "low w = w AND 0xff"

lemma upt_256: "[0..<256] = 0 # 1 # [2..<256]" by (simp add: upt_conv_Cons)

lemma x2_xt: "x2 (ucast b) = ucast (xt b)"
proof -
  have "list_all (\<lambda>n. x2 (of_nat n) = ucast (xt (of_nat n))) [0..<256]"
    by (simp add: upt_256 upt_rec_numeral x2_def xt_def)
  then have "\<forall>n\<in>set [0..<256]. x2 (of_nat n) = ucast (xt (of_nat n))" by (simp only: list_all_iff)
  then have "x2 (of_nat (unat b)) = ucast (xt (of_nat (unat b)))"
    by (rule bspec) (use unat8_less [of b] in simp)
  moreover have "of_nat (unat b) = b" "(of_nat (unat b) :: u32) = ucast b" by simp_all
  ultimately show ?thesis by (simp only:)
qed

lemma bytes4_pack: "bytes4 (ucast a) (ucast b) (ucast c) (ucast d) = pack a b c d"
proof -
  have 1: "push_bit 24 (ucast a) + push_bit 16 (ucast b) = (push_bit 24 (ucast a) XOR push_bit 16 (ucast b) :: u32)"
    by (rule disjunctive_add_eq_xor, rule bit_word_eqI) (auto simp: bit_simps dest: bit_imp_le_length)
  have 2: "(push_bit 24 (ucast a) XOR push_bit 16 (ucast b)) + push_bit 8 (ucast c) =
      ((push_bit 24 (ucast a) XOR push_bit 16 (ucast b)) XOR push_bit 8 (ucast c) :: u32)"
    by (rule disjunctive_add_eq_xor, rule bit_word_eqI) (auto simp: bit_simps dest: bit_imp_le_length)
  have 3: "((push_bit 24 (ucast a) XOR push_bit 16 (ucast b)) XOR push_bit 8 (ucast c)) + ucast d =
      (((push_bit 24 (ucast a) XOR push_bit 16 (ucast b)) XOR push_bit 8 (ucast c)) XOR ucast d :: u32)"
    by (rule disjunctive_add_eq_xor, rule bit_word_eqI) (auto simp: bit_simps dest: bit_imp_le_length)
  have "bytes4 (ucast a) (ucast b) (ucast c) (ucast d) =
      push_bit 24 (ucast a) + push_bit 16 (ucast b) + push_bit 8 (ucast c) + ucast d"
    by (simp add: bytes4_def push_bit_eq_mult)
  then show ?thesis by (simp only: 1 2 3) (simp only: pack_def xor.assoc)
qed

lemma low_byte: "low w = ucast (b0 w)"
  by (simp add: low_def byte_of32 b0_def)

section \<open>The tables are what the source says\<close>

definition sbox :: "u8 \<Rightarrow> u8" where
  "sbox x = b0 (Te4 ! unat x)"

definition inv_sbox :: "u8 \<Rightarrow> u8" where
  "inv_sbox x = b0 (Td4 ! unat x)"

lemma Te4_tab: "Te4 = map (\<lambda>w. let s = low w in bytes4 s s s s) Te4"
  by (simp add: Te4_def bytes4_def low_def)

lemma Te0_tab: "Te0 = map (\<lambda>w. let s = low w; s2 = x2 s; s3 = x2 s XOR s in bytes4 s2 s s s3) Te4"
  by (simp add: Te4_def Te0_def bytes4_def low_def x2_def)

lemma Te1_tab: "Te1 = map (\<lambda>w. let s = low w; s2 = x2 s; s3 = x2 s XOR s in bytes4 s3 s2 s s) Te4"
  by (simp add: Te4_def Te1_def bytes4_def low_def x2_def)

lemma Te2_tab: "Te2 = map (\<lambda>w. let s = low w; s2 = x2 s; s3 = x2 s XOR s in bytes4 s s3 s2 s) Te4"
  by (simp add: Te4_def Te2_def bytes4_def low_def x2_def)

lemma Te3_tab: "Te3 = map (\<lambda>w. let s = low w; s2 = x2 s; s3 = x2 s XOR s in bytes4 s s s3 s2) Te4"
  by (simp add: Te4_def Te3_def bytes4_def low_def x2_def)

lemma Td4_tab: "Td4 = map (\<lambda>w. let s = low w in bytes4 s s s s) Td4"
  by (simp add: Td4_def bytes4_def low_def)

lemma Td0_tab: "Td0 = map (\<lambda>w. let s = low w; s2 = x2 s; s4 = x2 s2; s8 = x2 s4 in
    bytes4 (s8 XOR s4 XOR s2) (s8 XOR s) (s8 XOR s4 XOR s) (s8 XOR s2 XOR s)) Td4"
  by (simp add: Td4_def Td0_def bytes4_def low_def x2_def)

lemma Td1_tab: "Td1 = map (\<lambda>w. let s = low w; s2 = x2 s; s4 = x2 s2; s8 = x2 s4 in
    bytes4 (s8 XOR s2 XOR s) (s8 XOR s4 XOR s2) (s8 XOR s) (s8 XOR s4 XOR s)) Td4"
  by (simp add: Td4_def Td1_def bytes4_def low_def x2_def)

lemma Td2_tab: "Td2 = map (\<lambda>w. let s = low w; s2 = x2 s; s4 = x2 s2; s8 = x2 s4 in
    bytes4 (s8 XOR s4 XOR s) (s8 XOR s2 XOR s) (s8 XOR s4 XOR s2) (s8 XOR s)) Td4"
  by (simp add: Td4_def Td2_def bytes4_def low_def x2_def)

lemma Td3_tab: "Td3 = map (\<lambda>w. let s = low w; s2 = x2 s; s4 = x2 s2; s8 = x2 s4 in
    bytes4 (s8 XOR s) (s8 XOR s4 XOR s) (s8 XOR s2 XOR s) (s8 XOR s4 XOR s2)) Td4"
  by (simp add: Td4_def Td3_def bytes4_def low_def x2_def)

lemma S_boxes_tab: "map (\<lambda>w. low (Td4 ! unat (low w))) Te4 = map of_nat [0..<256]"
  by (simp add: Te4_def Td4_def low_def upt_256 upt_rec_numeral)

lemma length_tables: "length Te4 = 256" "length Td4 = 256"
  by (simp_all add: Te4_def Td4_def)

text \<open>The same for one entry, with bytes.\<close>

lemma table_entry: "T = map f U \<Longrightarrow> length U = 256 \<Longrightarrow> T ! unat (x :: u8) = f (U ! unat x)"
  using unat8_less [of x] by simp

lemma let_words:
  "bytes4 (ucast a) (ucast b) (ucast c) (ucast d) = pack a b c d"
  "x2 (ucast a) = ucast (xt a)"
  "ucast a XOR ucast b = (ucast (a XOR b) :: u32)" for a b c d :: u8
  by (simp_all add: bytes4_pack x2_xt unsigned_xor_eq)

lemma Te_entry:
  "Te4 ! unat x = (let s = sbox x in pack s s s s)"
  "Te0 ! unat x = (let s = sbox x in pack (xt s) s s (xt s XOR s))"
  "Te1 ! unat x = (let s = sbox x in pack (xt s XOR s) (xt s) s s)"
  "Te2 ! unat x = (let s = sbox x in pack s (xt s XOR s) (xt s) s)"
  "Te3 ! unat x = (let s = sbox x in pack s s (xt s XOR s) (xt s))"
  using table_entry [OF Te4_tab length_tables(1), of x] table_entry [OF Te0_tab length_tables(1), of x]
    table_entry [OF Te1_tab length_tables(1), of x] table_entry [OF Te2_tab length_tables(1), of x]
    table_entry [OF Te3_tab length_tables(1), of x]
  by (simp_all add: low_byte let_words sbox_def Let_def)

definition m9 :: "u8 \<Rightarrow> u8" where "m9 s = xt (xt (xt s)) XOR s"
definition m11 :: "u8 \<Rightarrow> u8" where "m11 s = xt (xt (xt s)) XOR xt s XOR s"
definition m13 :: "u8 \<Rightarrow> u8" where "m13 s = xt (xt (xt s)) XOR xt (xt s) XOR s"
definition m14 :: "u8 \<Rightarrow> u8" where "m14 s = xt (xt (xt s)) XOR xt (xt s) XOR xt s"

lemma Td_entry:
  "Td4 ! unat x = (let s = inv_sbox x in pack s s s s)"
  "Td0 ! unat x = (let s = inv_sbox x in pack (m14 s) (m9 s) (m13 s) (m11 s))"
  "Td1 ! unat x = (let s = inv_sbox x in pack (m11 s) (m14 s) (m9 s) (m13 s))"
  "Td2 ! unat x = (let s = inv_sbox x in pack (m13 s) (m11 s) (m14 s) (m9 s))"
  "Td3 ! unat x = (let s = inv_sbox x in pack (m9 s) (m13 s) (m11 s) (m14 s))"
  using table_entry [OF Td4_tab length_tables(2), of x] table_entry [OF Td0_tab length_tables(2), of x]
    table_entry [OF Td1_tab length_tables(2), of x] table_entry [OF Td2_tab length_tables(2), of x]
    table_entry [OF Td3_tab length_tables(2), of x]
  by (simp_all add: low_byte let_words inv_sbox_def Let_def m9_def m11_def m13_def m14_def)

lemma inv_sbox_sbox: "inv_sbox (sbox x) = x"
proof -
  have "map (\<lambda>w. low (Td4 ! unat (low w))) Te4 ! unat x = map of_nat [0..<256] ! unat x"
    by (simp only: S_boxes_tab)
  then have "low (Td4 ! unat (low (Te4 ! unat x))) = ucast x"
    using unat8_less [of x] length_tables by simp
  then have "ucast (inv_sbox (sbox x)) = (ucast x :: u32)"
    by (simp add: low_byte inv_sbox_def sbox_def unat_ucast8)
  then have "b0 (ucast (inv_sbox (sbox x))) = b0 (ucast x)" by (simp only:)
  moreover have "b0 (ucast a) = a" for a :: u8
    by (rule bit_word_eqI) (auto simp: b0_def bit_simps)
  ultimately show ?thesis by (simp only:)
qed

section \<open>Columns\<close>

text \<open>MixColumns of FIPS 197 and its inverse, on one column.\<close>

definition mix_column :: "u32 \<Rightarrow> u32" where
  "mix_column w = (let p = b3 w; q = b2 w; r = b1 w; s = b0 w in
     pack (xt p XOR (xt q XOR q) XOR r XOR s) (p XOR xt q XOR (xt r XOR r) XOR s)
          (p XOR q XOR xt r XOR (xt s XOR s)) ((xt p XOR p) XOR q XOR r XOR xt s))"

definition inv_mix_column :: "u32 \<Rightarrow> u32" where
  "inv_mix_column w = (let p = b3 w; q = b2 w; r = b1 w; s = b0 w in
     pack (m14 p XOR m11 q XOR m13 r XOR m9 s) (m9 p XOR m14 q XOR m11 r XOR m13 s)
          (m13 p XOR m9 q XOR m14 r XOR m11 s) (m11 p XOR m13 q XOR m9 r XOR m14 s))"

lemmas m_xor = m9_def m11_def m13_def m14_def xt_xor

lemma inv_mix_column_xor: "inv_mix_column (v XOR w) = inv_mix_column v XOR inv_mix_column w"
  by (simp add: inv_mix_column_def Let_def pack_xor m_xor ac_simps)

lemma inv_mix_mix: "inv_mix_column (mix_column w) = w"
proof -
  have c: "a XOR (a XOR b) = b" for a b :: u8 by (simp add: xor.assoc [symmetric])
  have "inv_mix_column (mix_column w) = pack (b3 w) (b2 w) (b1 w) (b0 w)"
    by (simp add: inv_mix_column_def mix_column_def Let_def m_xor ac_simps c)
  then show ?thesis by (simp only: pack_bytes)
qed

text \<open>SubBytes after ShiftRows: the four bytes come from four columns.\<close>

definition sub_row :: "u32 \<Rightarrow> u32 \<Rightarrow> u32 \<Rightarrow> u32 \<Rightarrow> u32" where
  "sub_row a b c d = pack (sbox (b3 a)) (sbox (b2 b)) (sbox (b1 c)) (sbox (b0 d))"

definition inv_sub_row :: "u32 \<Rightarrow> u32 \<Rightarrow> u32 \<Rightarrow> u32 \<Rightarrow> u32" where
  "inv_sub_row a b c d = pack (inv_sbox (b3 a)) (inv_sbox (b2 b)) (inv_sbox (b1 c)) (inv_sbox (b0 d))"

lemma te_word_val: "te_word a b c d = mix_column (sub_row a b c d)"
  by (simp add: te_word_def indices Te_entry Let_def pack_xor mix_column_def sub_row_def ac_simps)

lemma td_word_val: "td_word a b c d = inv_mix_column (inv_sub_row a b c d)"
  by (simp add: td_word_def indices Td_entry Let_def pack_xor inv_mix_column_def inv_sub_row_def ac_simps)

lemma mask_pack:
  "pack a b c d AND 0xff000000 = pack a 0 0 0" "pack a b c d AND 0xff0000 = pack 0 b 0 0"
  "pack a b c d AND 0xff00 = pack 0 0 c 0" "pack a b c d AND 0xff = pack 0 0 0 d"
proof -
  have m: "(0xff000000 :: u32) = push_bit 24 (mask 8)" "(0xff0000 :: u32) = push_bit 16 (mask 8)"
    "(0xff00 :: u32) = push_bit 8 (mask 8)" "(0xff :: u32) = mask 8"
    by (simp_all add: mask_eq_exp_minus_1)
  show "pack a b c d AND 0xff000000 = pack a 0 0 0" "pack a b c d AND 0xff0000 = pack 0 b 0 0"
    "pack a b c d AND 0xff00 = pack 0 0 c 0" "pack a b c d AND 0xff = pack 0 0 0 d"
    unfolding m by (rule bit_word_eqI, auto simp: pack_def bit_simps dest: bit_imp_le_length)+
qed

lemma sub_bytes4_val:
  "sub_bytes4 Te4 (i3 a) (i2 b) (i1 c) (i0 d) = sub_row a b c d"
  "sub_bytes4 Td4 (i3 a) (i2 b) (i1 c) (i0 d) = inv_sub_row a b c d"
  by (simp_all add: sub_bytes4_def indices Te_entry Td_entry Let_def mask_pack pack_xor sub_row_def inv_sub_row_def)

lemma inv_mix_word_val: "inv_mix_word w = inv_mix_column w"
proof -
  have "td_word x x x x = inv_mix_column w" if "x = pack (sbox (b3 w)) (sbox (b2 w)) (sbox (b1 w)) (sbox (b0 w))" for x
    unfolding td_word_val that by (simp add: inv_sub_row_def inv_sbox_sbox pack_bytes)
  then show ?thesis
    by (simp add: inv_mix_word_def td_word_def indices Te_entry Let_def)
qed

lemma inv_sub_row_sub_row:
  assumes "t0 = sub_row s0 s1 s2 s3" "t1 = sub_row s1 s2 s3 s0" "t2 = sub_row s2 s3 s0 s1" "t3 = sub_row s3 s0 s1 s2"
  shows "inv_sub_row t0 t3 t2 t1 = s0" "inv_sub_row t1 t0 t3 t2 = s1"
    "inv_sub_row t2 t1 t0 t3 = s2" "inv_sub_row t3 t2 t1 t0 = s3"
  by (simp_all add: assms inv_sub_row_def sub_row_def inv_sbox_sbox pack_bytes)

section \<open>The cipher as rounds on columns\<close>

text \<open>
  The specification: \<open>n\<close> full rounds with the round keys that start at position \<open>p\<close>, and the
  inverse rounds with a function that gives the round keys.
\<close>

definition round_key :: "u32 list \<Rightarrow> nat \<Rightarrow> aes_state" where
  "round_key rk p = (rk ! p, rk ! (p + 1), rk ! (p + 2), rk ! (p + 3))"

fun xor_state :: "aes_state \<Rightarrow> aes_state \<Rightarrow> aes_state" where
  "xor_state (a, b, c, d) (k0, k1, k2, k3) = (a XOR k0, b XOR k1, c XOR k2, d XOR k3)"

fun map_state :: "(u32 \<Rightarrow> u32) \<Rightarrow> aes_state \<Rightarrow> aes_state" where
  "map_state f (a, b, c, d) = (f a, f b, f c, f d)"

fun sub_shift :: "aes_state \<Rightarrow> aes_state" where
  "sub_shift (a, b, c, d) = (sub_row a b c d, sub_row b c d a, sub_row c d a b, sub_row d a b c)"

fun inv_sub_shift :: "aes_state \<Rightarrow> aes_state" where
  "inv_sub_shift (a, b, c, d) = (inv_sub_row a d c b, inv_sub_row b a d c, inv_sub_row c b a d, inv_sub_row d c b a)"

lemma inv_sub_shift_sub_shift: "inv_sub_shift (sub_shift s) = s"
  by (cases s) (simp add: inv_sub_row_sub_row)

lemma xor_state_cancel: "xor_state (xor_state s k) k = s"
  by (cases s; cases k) (simp add: xor.assoc)

lemma inv_mix_state: "map_state inv_mix_column (map_state mix_column s) = s"
  by (cases s) (simp add: inv_mix_mix)

lemma inv_mix_state_xor:
  "map_state inv_mix_column (xor_state s k) = xor_state (map_state inv_mix_column s) (map_state inv_mix_column k)"
  by (cases s; cases k) (simp add: inv_mix_column_xor)

fun cipher_rounds :: "nat \<Rightarrow> (nat \<Rightarrow> aes_state) \<Rightarrow> nat \<Rightarrow> aes_state \<Rightarrow> aes_state" where
  "cipher_rounds 0 K i s = s"
| "cipher_rounds (Suc n) K i s = cipher_rounds n K (Suc i) (xor_state (map_state mix_column (sub_shift s)) (K i))"

fun inv_cipher_rounds :: "nat \<Rightarrow> (nat \<Rightarrow> aes_state) \<Rightarrow> nat \<Rightarrow> aes_state \<Rightarrow> aes_state" where
  "inv_cipher_rounds 0 K i s = s"
| "inv_cipher_rounds (Suc n) K i s =
     inv_cipher_rounds n K (Suc i) (xor_state (map_state inv_mix_column (inv_sub_shift s)) (K i))"

text \<open>FIPS 197: round key 0, \<open>Nr - 1\<close> full rounds, a last round without MixColumns.\<close>

definition cipher :: "nat \<Rightarrow> (nat \<Rightarrow> aes_state) \<Rightarrow> aes_state \<Rightarrow> aes_state" where
  "cipher n K s = xor_state (sub_shift (cipher_rounds (n - 1) K 1 (xor_state s (K 0)))) (K n)"

definition inv_cipher :: "nat \<Rightarrow> (nat \<Rightarrow> aes_state) \<Rightarrow> aes_state \<Rightarrow> aes_state" where
  "inv_cipher n K s = xor_state (inv_sub_shift (inv_cipher_rounds (n - 1) K 1 (xor_state s (K 0)))) (K n)"

lemma cipher_rounds_Suc:
  "cipher_rounds (Suc n) K i s =
   xor_state (map_state mix_column (sub_shift (cipher_rounds n K i s))) (K (i + n))"
  by (induction n arbitrary: i s) simp_all

lemma inv_rounds_undo:
  assumes "\<And>j. j < n \<Longrightarrow> D (d + j) = map_state inv_mix_column (K (i + n - 1 - j))"
  shows "inv_cipher_rounds n D d (sub_shift (cipher_rounds n K i s)) = sub_shift s"
  using assms
proof (induction n arbitrary: d)
  case (Suc n)
  define t where "t = cipher_rounds n K i s"
  have "xor_state (map_state inv_mix_column (inv_sub_shift (sub_shift (cipher_rounds (Suc n) K i s)))) (D d) =
      map_state inv_mix_column (map_state mix_column (sub_shift t))"
    unfolding inv_sub_shift_sub_shift cipher_rounds_Suc t_def [symmetric] inv_mix_state_xor
    using Suc.prems [of 0] by (simp add: xor_state_cancel)
  also have "\<dots> = sub_shift t" by (rule inv_mix_state)
  finally have "inv_cipher_rounds (Suc n) D d (sub_shift (cipher_rounds (Suc n) K i s)) =
      inv_cipher_rounds n D (Suc d) (sub_shift t)"
    by (simp only: inv_cipher_rounds.simps)
  also have "\<dots> = sub_shift s"
    unfolding t_def using Suc.prems [of "Suc j" for j] by (intro Suc.IH) simp
  finally show ?case .
qed simp

lemma inv_cipher_cipher:
  assumes "0 < n" "D 0 = K n" "D n = K 0" "\<And>j. 0 < j \<Longrightarrow> j < n \<Longrightarrow> D j = map_state inv_mix_column (K (n - j))"
  shows "inv_cipher n D (cipher n K s) = s"
proof -
  have "inv_cipher_rounds (n - 1) D 1 (sub_shift (cipher_rounds (n - 1) K 1 t)) = sub_shift t" for t
    using assms(4) [of "Suc j" for j] by (intro inv_rounds_undo) (simp add: assms)
  then show ?thesis
    by (simp add: inv_cipher_def cipher_def assms(2,3) xor_state_cancel inv_sub_shift_sub_shift)
qed

section \<open>The code computes the cipher\<close>

lemma enc_round_val:
  "p + 3 < length rk \<Longrightarrow>
   enc_round rk p s = Some (xor_state (map_state mix_column (sub_shift s)) (round_key rk p))"
  by (cases s) (simp add: enc_round_def te_word_val round_key_def)

lemma dec_round_val:
  "p + 3 < length rk \<Longrightarrow>
   dec_round rk p s = Some (xor_state (map_state inv_mix_column (inv_sub_shift s)) (round_key rk p))"
  by (cases s) (simp add: dec_round_def td_word_val round_key_def)

abbreviation keys :: "u32 list \<Rightarrow> nat \<Rightarrow> aes_state" where
  "keys rk \<equiv> \<lambda>i. round_key rk (4 * i)"

lemma enc_rounds_val:
  "8 * r + 4 * i \<le> length rk \<Longrightarrow> 0 < r \<Longrightarrow>
   enc_rounds rk (int r) (4 * i) s = Some (8 * r + 4 * i, cipher_rounds (2 * r - 1) (keys rk) (Suc i) s)"
proof (induction r arbitrary: i s)
  case (Suc r)
  define t where "t = xor_state (map_state mix_column (sub_shift s)) (round_key rk (4 * i + 4))"
  have t: "enc_round rk (4 * i + 4) s = Some t"
    unfolding t_def using Suc.prems by (intro enc_round_val) simp
  show ?case
  proof (cases "r = 0")
    case True
    then show ?thesis using t by (subst enc_rounds.simps) (simp add: t_def add.commute)
  next
    case False
    define u where "u = xor_state (map_state mix_column (sub_shift t)) (round_key rk (4 * i + 8))"
    have u: "enc_round rk (4 * i + 8) t = Some u"
      unfolding u_def using Suc.prems False by (intro enc_round_val) simp
    have "enc_rounds rk (int (Suc r)) (4 * i) s = enc_rounds rk (int r) (4 * (i + 2)) u"
      using False t u by (subst enc_rounds.simps) (simp add: add.commute)
    also have "\<dots> = Some (8 * r + 4 * (i + 2), cipher_rounds (2 * r - 1) (keys rk) (Suc (i + 2)) u)"
      using Suc.prems False by (intro Suc.IH) auto
    also have "cipher_rounds (2 * r - 1) (keys rk) (Suc (i + 2)) u = cipher_rounds (Suc (Suc (2 * r - 1))) (keys rk) (Suc i) s"
      by (simp add: t_def u_def add.commute)
    also have "Suc (Suc (2 * r - 1)) = 2 * Suc r - 1" using False by simp
    finally show ?thesis by simp
  qed
qed simp

lemma dec_rounds_val:
  "8 * r + 4 * i \<le> length rk \<Longrightarrow> 0 < r \<Longrightarrow>
   dec_rounds rk (int r) (4 * i) s = Some (8 * r + 4 * i, inv_cipher_rounds (2 * r - 1) (keys rk) (Suc i) s)"
proof (induction r arbitrary: i s)
  case (Suc r)
  define t where "t = xor_state (map_state inv_mix_column (inv_sub_shift s)) (round_key rk (4 * i + 4))"
  have t: "dec_round rk (4 * i + 4) s = Some t"
    unfolding t_def using Suc.prems by (intro dec_round_val) simp
  show ?case
  proof (cases "r = 0")
    case True
    then show ?thesis using t by (subst dec_rounds.simps) (simp add: t_def add.commute)
  next
    case False
    define u where "u = xor_state (map_state inv_mix_column (inv_sub_shift t)) (round_key rk (4 * i + 8))"
    have u: "dec_round rk (4 * i + 8) t = Some u"
      unfolding u_def using Suc.prems False by (intro dec_round_val) simp
    have "dec_rounds rk (int (Suc r)) (4 * i) s = dec_rounds rk (int r) (4 * (i + 2)) u"
      using False t u by (subst dec_rounds.simps) (simp add: add.commute)
    also have "\<dots> = Some (8 * r + 4 * (i + 2), inv_cipher_rounds (2 * r - 1) (keys rk) (Suc (i + 2)) u)"
      using Suc.prems False by (intro Suc.IH) auto
    also have "inv_cipher_rounds (2 * r - 1) (keys rk) (Suc (i + 2)) u =
        inv_cipher_rounds (Suc (Suc (2 * r - 1))) (keys rk) (Suc i) s"
      by (simp add: t_def u_def add.commute)
    also have "Suc (Suc (2 * r - 1)) = 2 * Suc r - 1" using False by simp
    finally show ?thesis by simp
  qed
qed simp

section \<open>Round keys\<close>

fun upd_key :: "u32 list \<Rightarrow> nat \<Rightarrow> aes_state \<Rightarrow> u32 list" where
  "upd_key rk p (a, b, c, d) = rk[p := a, p + 1 := b, p + 2 := c, p + 3 := d]"

lemma length_upd_key [simp]: "length (upd_key rk p s) = length rk"
  by (cases s) simp

lemma round_key_upd:
  "4 * i + 3 < length rk \<Longrightarrow> keys (upd_key rk (4 * i) s) m = (if m = i then s else keys rk m)"
proof -
  assume l: "4 * i + 3 < length rk"
  have ne: "m \<noteq> i \<Longrightarrow> 4 * i + x \<noteq> 4 * m + y \<and> 4 * m + y \<noteq> 4 * i + x" if "x < 4" "y < 4" for x y
    using that by presburger
  show ?thesis
    using l ne [of 0 0] ne [of 0 1] ne [of 0 2] ne [of 0 3] ne [of 1 0] ne [of 1 1] ne [of 1 2] ne [of 1 3]
      ne [of 2 0] ne [of 2 1] ne [of 2 2] ne [of 2 3] ne [of 3 0] ne [of 3 1] ne [of 3 2] ne [of 3 3]
    by (cases s) (auto simp: round_key_def nth_list_update)
qed

text \<open>FIPS 197, section 5.2, for a key of four words.\<close>

definition rot_sub :: "u32 \<Rightarrow> u32" where
  "rot_sub w = pack (sbox (b2 w)) (sbox (b1 w)) (sbox (b0 w)) (sbox (b3 w))"

primrec rcon_byte :: "nat \<Rightarrow> u8" where
  "rcon_byte 0 = 1"
| "rcon_byte (Suc i) = xt (rcon_byte i)"

definition round_const :: "nat \<Rightarrow> u32" where
  "round_const i = pack (rcon_byte i) 0 0 0"

fun next_key :: "nat \<Rightarrow> aes_state \<Rightarrow> aes_state" where
  "next_key i (a, b, c, d) =
     (let a' = a XOR rot_sub d XOR round_const i; b' = b XOR a'; c' = c XOR b'; d' = d XOR c' in (a', b', c', d'))"

primrec expand_key :: "aes_state \<Rightarrow> nat \<Rightarrow> aes_state" where
  "expand_key k 0 = k"
| "expand_key k (Suc i) = next_key i (expand_key k i)"

lemma rcon_tab: "rcon = map (\<lambda>b. pack b 0 0 0) [1, 2, 4, 8, 16, 32, 64, 128, 27, 54]"
  by (simp add: rcon_def pack_def)

lemma rcon_byte_numeral: "rcon_byte (numeral n) = xt (rcon_byte (pred_numeral n))"
  by (simp add: numeral_eq_Suc)

lemma rcon_val: "i < 10 \<Longrightarrow> rcon ! i = round_const i"
proof -
  assume i: "i < 10"
  have "[0..<10] = [0, 1, 2, 3, 4, 5, 6, 7, 8, 9]" by (simp add: upt_rec_numeral upt_conv_Cons)
  then have "map rcon_byte [0..<10] = [1, 2, 4, 8, 16, 32, 64, 128, 27, 54]"
    by (simp add: rcon_byte_numeral xt_def)
  then have "rcon = map (\<lambda>b. pack b 0 0 0) (map rcon_byte [0..<10])"
    by (simp only: rcon_tab)
  then have "rcon ! i = map (\<lambda>b. pack b 0 0 0) (map rcon_byte [0..<10]) ! i" by (simp only:)
  then show ?thesis using i by (simp add: round_const_def)
qed

lemma length_rcon: "length rcon = 10" by (simp add: rcon_def)

lemma rot_sub_val: "sub_bytes4 Te4 (i2 w) (i1 w) (i0 w) (i3 w) = rot_sub w"
  by (simp add: sub_bytes4_def indices Te_entry Let_def mask_pack pack_xor rot_sub_def)

lemma key_loop_128_step:
  assumes "4 * i + 7 < length rk" "i < 10"
  shows "key_loop_128 rk (4 * i) i =
    (let rk' = upd_key rk (4 * Suc i) (next_key i (keys rk i)) in
     if i = 9 then Some (10, rk') else key_loop_128 rk' (4 * Suc i) (Suc i))"
proof -
  have "i + 1 = 10 \<longleftrightarrow> i = 9" by auto
  then show ?thesis
    using assms
    by (subst key_loop_128.simps)
      (simp add: length_rcon rcon_val rot_sub_val round_key_def Let_def nth_list_update xor.assoc add.commute)
qed

lemma expand_key_10: "expand_key k 10 = next_key 9 (expand_key k 9)"
  using expand_key.simps(2) [of k 9] by simp

lemma key_loop_128_val:
  assumes "length rk = 44" "i < 10" "\<And>j. j \<le> i \<Longrightarrow> keys rk j = expand_key k j"
  shows "\<exists>rk'. key_loop_128 rk (4 * i) i = Some (10, rk') \<and> length rk' = 44 \<and> (\<forall>j \<le> 10. keys rk' j = expand_key k j)"
  using assms
proof (induction "9 - i" arbitrary: rk i)
  case (0 i)
  define rk' where "rk' = upd_key rk (4 * Suc i) (next_key i (keys rk i))"
  have i: "i = 9" using 0 by simp
  have "keys rk' j = expand_key k j" if "j \<le> Suc i" for j
    unfolding rk'_def using that 0 by (subst round_key_upd) auto
  moreover have "Suc i = 10" using i by simp
  ultimately have "\<forall>j \<le> 10. keys rk' j = expand_key k j" by metis
  moreover have "key_loop_128 rk (4 * i) i = Some (10, rk')"
    using 0 i unfolding rk'_def by (subst key_loop_128_step) (simp_all add: Let_def)
  moreover have "length rk' = 44" using 0 by (simp add: rk'_def)
  ultimately show ?case by blast
next
  case (Suc n i)
  define rk' where "rk' = upd_key rk (4 * Suc i) (next_key i (keys rk i))"
  have ks: "keys rk' j = expand_key k j" if "j \<le> Suc i" for j
    unfolding rk'_def using that Suc.prems Suc.hyps by (subst round_key_upd) auto
  have "key_loop_128 rk (4 * i) i = key_loop_128 rk' (4 * Suc i) (Suc i)"
    using Suc.prems Suc.hyps(2) by (subst key_loop_128_step) (auto simp: Let_def rk'_def)
  moreover have "length rk' = 44" using Suc.prems by (simp add: rk'_def)
  moreover have "n = 9 - Suc i" "Suc i < 10" using Suc.hyps(2) by auto
  ultimately show ?case using Suc.hyps(1) [of "Suc i" rk'] ks by metis
qed

section \<open>Blocks of bytes\<close>

definition words_of :: "u8 list \<Rightarrow> aes_state" where
  "words_of b = (pack (b ! 0) (b ! 1) (b ! 2) (b ! 3), pack (b ! 4) (b ! 5) (b ! 6) (b ! 7),
     pack (b ! 8) (b ! 9) (b ! 10) (b ! 11), pack (b ! 12) (b ! 13) (b ! 14) (b ! 15))"

definition word_bytes :: "u32 \<Rightarrow> u8 list" where
  "word_bytes w = [b3 w, b2 w, b1 w, b0 w]"

fun bytes_of :: "aes_state \<Rightarrow> u8 list" where
  "bytes_of (a, b, c, d) = word_bytes a @ word_bytes b @ word_bytes c @ word_bytes d"

lemma length_word_bytes [simp]: "length (word_bytes w) = 4" by (simp add: word_bytes_def)

lemma length_bytes_of [simp]: "length (bytes_of s) = 16" by (cases s) simp

lemma words_of_bytes_of [simp]: "words_of (bytes_of s) = s"
  by (cases s) (simp add: words_of_def word_bytes_def pack_bytes)

lemma bytes_of_words_of: "length b = 16 \<Longrightarrow> bytes_of (words_of b) = b"
  by (auto simp: words_of_def word_bytes_def length_Suc_conv eval_nat_numeral)

lemma GETU32_val: "p + 3 < length b \<Longrightarrow> GETU32 b p = Some (pack (b ! p) (b ! (p + 1)) (b ! (p + 2)) (b ! (p + 3)))"
  by (simp add: GETU32_def pack_def)

lemma PUTU32_val: "p + 3 < length b \<Longrightarrow> PUTU32 b p w = Some (put_at b p (word_bytes w))"
  by (simp add: PUTU32_def word_bytes_def put_at_Cons byte_defs eval_nat_numeral)

lemma add_key_val:
  "16 \<le> length pt \<Longrightarrow> 4 \<le> length rk \<Longrightarrow> add_key pt rk = Some (xor_state (words_of pt) (keys rk 0))"
  by (cases "rk = []") (simp_all add: add_key_def GETU32_val words_of_def round_key_def numeral_2_eq_2)

lemma put_block:
  assumes "length ct = 16"
  shows "put_at (put_at (put_at (put_at ct 0 (word_bytes a)) 4 (word_bytes b)) 8 (word_bytes c)) 12 (word_bytes d) =
    bytes_of (a, b, c, d)"
  by (simp add: put_at_def assms)

text \<open>The two routines on a schedule of \<open>4 (Nr + 1)\<close> words, \<open>Nr\<close> even.\<close>

lemma rijndaelEncrypt_val:
  assumes "length pt = 16" "length ct = 16" "4 * (2 * r + 1) \<le> length rk" "0 < r"
  shows "rijndaelEncrypt rk (int (2 * r)) pt ct = Some (bytes_of (cipher (2 * r) (keys rk) (words_of pt)))"
proof -
  define s where "s = cipher_rounds (2 * r - 1) (keys rk) 1 (xor_state (words_of pt) (keys rk 0))"
  obtain t0 t1 t2 t3 where t: "s = (t0, t1, t2, t3)" by (cases s)
  have rounds: "enc_rounds rk (int r) 0 (xor_state (words_of pt) (keys rk 0)) = Some (8 * r, t0, t1, t2, t3)"
    using enc_rounds_val [of r 0 rk] assms t by (simp add: s_def)
  have l: "8 * r + 3 < length rk" using assms by simp
  have c: "cipher (2 * r) (keys rk) (words_of pt) =
      (sub_row t0 t1 t2 t3 XOR rk ! (8 * r), sub_row t1 t2 t3 t0 XOR rk ! (8 * r + 1),
       sub_row t2 t3 t0 t1 XOR rk ! (8 * r + 2), sub_row t3 t0 t1 t2 XOR rk ! (8 * r + 3))"
    using t by (simp add: cipher_def s_def round_key_def)
  show ?thesis
    unfolding rijndaelEncrypt_def
    using assms l by (simp add: add_key_val rounds [simplified] PUTU32_val sub_bytes4_val put_block c)
qed

lemma rijndaelDecrypt_val:
  assumes "length pt = 16" "length ct = 16" "4 * (2 * r + 1) \<le> length rk" "0 < r"
  shows "rijndaelDecrypt rk (int (2 * r)) pt ct = Some (bytes_of (inv_cipher (2 * r) (keys rk) (words_of pt)))"
proof -
  define s where "s = inv_cipher_rounds (2 * r - 1) (keys rk) 1 (xor_state (words_of pt) (keys rk 0))"
  obtain t0 t1 t2 t3 where t: "s = (t0, t1, t2, t3)" by (cases s)
  have rounds: "dec_rounds rk (int r) 0 (xor_state (words_of pt) (keys rk 0)) = Some (8 * r, t0, t1, t2, t3)"
    using dec_rounds_val [of r 0 rk] assms t by (simp add: s_def)
  have l: "8 * r + 3 < length rk" using assms by simp
  have c: "inv_cipher (2 * r) (keys rk) (words_of pt) =
      (inv_sub_row t0 t3 t2 t1 XOR rk ! (8 * r), inv_sub_row t1 t0 t3 t2 XOR rk ! (8 * r + 1),
       inv_sub_row t2 t1 t0 t3 XOR rk ! (8 * r + 2), inv_sub_row t3 t2 t1 t0 XOR rk ! (8 * r + 3))"
    using t by (simp add: inv_cipher_def s_def round_key_def)
  show ?thesis
    unfolding rijndaelDecrypt_def
    using assms l by (simp add: add_key_val rounds [simplified] PUTU32_val sub_bytes4_val put_block c)
qed

section \<open>The key schedules of a context\<close>

lemma rijndaelKeySetupEnc_val:
  assumes "length rk = 44" "16 \<le> length key"
  shows "\<exists>rk'. rijndaelKeySetupEnc rk key 128 = Some (10, rk') \<and> length rk' = 44 \<and>
    (\<forall>j \<le> 10. keys rk' j = expand_key (words_of key) j)"
proof -
  define rk0 where "rk0 = upd_key rk (4 * 0) (words_of key)"
  have "rijndaelKeySetupEnc rk key 128 = key_loop_128 rk0 (4 * 0) 0"
    using assms by (simp add: rijndaelKeySetupEnc_def GETU32_val rk0_def words_of_def numeral_2_eq_2)
  moreover have "length rk0 = 44" using assms by (simp add: rk0_def)
  moreover have "keys rk0 j = expand_key (words_of key) j" if "j \<le> 0" for j
    using that assms unfolding rk0_def by (subst round_key_upd) simp_all
  ultimately show ?thesis using key_loop_128_val [of rk0 0 "words_of key"] by simp
qed

lemma swap_words_val:
  "i < length rk \<Longrightarrow> j < length rk \<Longrightarrow> swap_words rk i j = Some (rk[i := rk ! j, j := rk ! i])"
  by (simp add: swap_words_def)

lemma swap_group:
  assumes "i < j" "4 * j + 3 < length rk"
  shows "do {
     rk \<leftarrow> swap_words rk (4 * i) (4 * j);
     rk \<leftarrow> swap_words rk (4 * i + 1) (4 * j + 1);
     rk \<leftarrow> swap_words rk (4 * i + 2) (4 * j + 2);
     swap_words rk (4 * i + 3) (4 * j + 3)
   } = Some (upd_key (upd_key rk (4 * i) (keys rk j)) (4 * j) (keys rk i))"
proof -
  have ne: "4 * i + x \<noteq> 4 * j + y \<and> 4 * j + y \<noteq> 4 * i + x" if "x < 4" "y < 4" for x y
    using that assms by presburger
  note ne = ne [of 0 0] ne [of 0 1] ne [of 0 2] ne [of 0 3] ne [of 1 0] ne [of 1 1] ne [of 1 2] ne [of 1 3]
      ne [of 2 0] ne [of 2 1] ne [of 2 2] ne [of 2 3] ne [of 3 0] ne [of 3 1] ne [of 3 2] ne [of 3 3]
  show ?thesis
    using assms ne by (simp add: swap_words_val round_key_def list_update_swap)
qed

lemma invert_loop_val:
  assumes "i \<le> j" "4 * j + 3 < length rk"
  shows "\<exists>rk'. invert_loop rk (4 * i) (4 * j) = Some rk' \<and> length rk' = length rk \<and>
    (\<forall>m. keys rk' m = (if i \<le> m \<and> m \<le> j then keys rk (i + j - m) else keys rk m))"
  using assms
proof (induction "j - i" arbitrary: i j rk rule: less_induct)
  case less
  show ?case
  proof (cases "i = j")
    case True
    then show ?thesis by (subst invert_loop.simps) auto
  next
    case False
    then have ij: "i < j" using less.prems by simp
    define rk1 where "rk1 = upd_key (upd_key rk (4 * i) (keys rk j)) (4 * j) (keys rk i)"
    have rk1: "keys rk1 m = (if m = j then keys rk i else if m = i then keys rk j else keys rk m)" for m
      unfolding rk1_def using ij less.prems by (simp add: round_key_upd)
    have step: "invert_loop rk (4 * i) (4 * j) = invert_loop rk1 (4 * Suc i) (4 * (j - 1))"
      using swap_group [OF ij less.prems(2)] ij
      by (subst invert_loop.simps) (simp add: rk1_def diff_mult_distrib2 add.commute [of 4] flip: bind_assoc)
    have keep: "(if i \<le> m \<and> m \<le> j then keys rk (i + j - m) else keys rk m) =
        (if Suc i \<le> m \<and> m \<le> j - 1 then keys rk1 (Suc i + (j - 1) - m) else keys rk1 m)" for m
      unfolding rk1 using ij by (auto intro!: arg_cong [where f = "keys rk"])
    show ?thesis
    proof (cases "Suc i \<le> j - 1")
      case True
      then show ?thesis
        unfolding step keep using less.hyps [of "j - 1" "Suc i" rk1] less.prems ij by (simp add: rk1_def)
    next
      case gap: False
      have "invert_loop rk1 (4 * Suc i) (4 * (j - 1)) = Some rk1"
        using gap by (subst invert_loop.simps) auto
      moreover have "length rk1 = length rk" by (simp add: rk1_def)
      ultimately show ?thesis unfolding step keep using gap by auto
    qed
  qed
qed

lemma inv_mix_at_val: "p < length rk \<Longrightarrow> inv_mix_at rk p = Some (rk[p := inv_mix_column (rk ! p)])"
  by (simp add: inv_mix_at_def inv_mix_word_val)

lemma inv_mix_loop_val:
  assumes "4 * (n + p) + 3 < length rk"
  shows "\<exists>rk'. inv_mix_loop n rk (4 * p) = Some rk' \<and> length rk' = length rk \<and>
    (\<forall>m. keys rk' m = (if p < m \<and> m \<le> p + n then map_state inv_mix_column (keys rk m) else keys rk m))"
  using assms
proof (induction n arbitrary: p rk)
  case (Suc n)
  define rk1 where "rk1 = upd_key rk (4 * Suc p) (map_state inv_mix_column (keys rk (Suc p)))"
  have rk1: "keys rk1 m = (if m = Suc p then map_state inv_mix_column (keys rk (Suc p)) else keys rk m)" for m
    unfolding rk1_def using Suc.prems by (subst round_key_upd) auto
  have "inv_mix_loop (Suc n) rk (4 * p) = inv_mix_loop n rk1 (4 * Suc p)"
    using Suc.prems by (simp add: inv_mix_at_val rk1_def round_key_def add.commute)
  moreover have "(if p < m \<and> m \<le> p + Suc n then map_state inv_mix_column (keys rk m) else keys rk m) =
      (if Suc p < m \<and> m \<le> Suc p + n then map_state inv_mix_column (keys rk1 m) else keys rk1 m)" for m
    unfolding rk1 by auto
  moreover have "length rk1 = length rk" by (simp add: rk1_def)
  ultimately show ?case using Suc.IH [of "Suc p" rk1] Suc.prems by simp
qed auto

text \<open>The inverse schedule: reversed, with InvMixColumns on all keys but the first and the last.\<close>

lemma rijndaelKeySetupDec_val:
  assumes "length rk = 44" "16 \<le> length key"
  shows "\<exists>rk'. rijndaelKeySetupDec rk key 128 = Some (10, rk') \<and> length rk' = 44 \<and>
    (\<forall>j \<le> 10. keys rk' j =
      (let k = expand_key (words_of key) (10 - j) in if 0 < j \<and> j < 10 then map_state inv_mix_column k else k))"
proof -
  obtain rk1 where rk1: "rijndaelKeySetupEnc rk key 128 = Some (10, rk1)" "length rk1 = 44"
    "\<And>j. j \<le> 10 \<Longrightarrow> keys rk1 j = expand_key (words_of key) j"
    using rijndaelKeySetupEnc_val [OF assms] by blast
  obtain rk2 where rk2: "invert_loop rk1 0 40 = Some rk2" "length rk2 = 44"
    "\<And>j. keys rk2 j = (if j \<le> 10 then keys rk1 (10 - j) else keys rk1 j)"
    using invert_loop_val [of 0 10 rk1] rk1(2) by auto
  obtain rk3 where rk3: "inv_mix_loop 9 rk2 0 = Some rk3" "length rk3 = 44"
    "\<And>j. keys rk3 j = (if 0 < j \<and> j \<le> 9 then map_state inv_mix_column (keys rk2 j) else keys rk2 j)"
    using inv_mix_loop_val [of 9 0 rk2] rk2(2) by auto
  have "keys rk3 j =
      (let k = expand_key (words_of key) (10 - j) in if 0 < j \<and> j < 10 then map_state inv_mix_column k else k)"
    if "j \<le> 10" for j
    unfolding rk3(3) rk2(3) using that rk1(3) [of "10 - j"] rk1(3) [of 0] rk1(3) [of 10] by (auto simp: Let_def)
  moreover have "rijndaelKeySetupDec rk key 128 = Some (10, rk3)"
    using rk3 rk2 rk1 by (simp add: rijndaelKeySetupDec_def)
  ultimately show ?thesis using rk3(2) by blast
qed

section \<open>The S-box is inversion in GF(256) and an affine map\<close>

fun gf_sum :: "nat list \<Rightarrow> u8 \<Rightarrow> u8 \<Rightarrow> u8" where
  "gf_sum [] a b = 0"
| "gf_sum (i # is) a b = (if bit b i then a else 0) XOR gf_sum is (xt a) b"

definition gf_mult :: "u8 \<Rightarrow> u8 \<Rightarrow> u8" where
  "gf_mult = gf_sum [0, 1, 2, 3, 4, 5, 6, 7]"

definition affine :: "u8 \<Rightarrow> u8" where
  "affine y = y XOR (push_bit 1 y OR drop_bit 7 y) XOR (push_bit 2 y OR drop_bit 6 y) XOR
     (push_bit 3 y OR drop_bit 5 y) XOR (push_bit 4 y OR drop_bit 4 y) XOR 0x63"

definition gf_inverses :: "u8 list" where
  "gf_inverses = [
     0, 1, 141, 246, 203, 82, 123, 209, 232, 79, 41, 192, 176, 225, 229, 199, 116, 180, 170, 75,
     153, 43, 96, 95, 88, 63, 253, 204, 255, 64, 238, 178, 58, 110, 90, 241, 85, 77, 168, 201, 193,
     10, 152, 21, 48, 68, 162, 194, 44, 69, 146, 108, 243, 57, 102, 66, 242, 53, 32, 111, 119, 187,
     89, 25, 29, 254, 55, 103, 45, 49, 245, 105, 167, 100, 171, 19, 84, 37, 233, 9, 237, 92, 5, 202,
     76, 36, 135, 191, 24, 62, 34, 240, 81, 236, 97, 23, 22, 94, 175, 211, 73, 166, 54, 67, 244, 71,
     145, 223, 51, 147, 33, 59, 121, 183, 151, 133, 16, 181, 186, 60, 182, 112, 208, 6, 161, 250,
     129, 130, 131, 126, 127, 128, 150, 115, 190, 86, 155, 158, 149, 217, 247, 2, 185, 164, 222,
     106, 50, 109, 216, 138, 132, 114, 42, 20, 159, 136, 249, 220, 137, 154, 251, 124, 46, 195, 143,
     184, 101, 72, 38, 200, 18, 74, 206, 231, 210, 98, 12, 224, 31, 239, 17, 117, 120, 113, 165,
     142, 118, 61, 189, 188, 134, 87, 11, 40, 47, 163, 218, 212, 228, 15, 169, 39, 83, 4, 27, 252,
     172, 230, 122, 7, 174, 99, 197, 219, 226, 234, 148, 139, 196, 213, 157, 248, 144, 107, 177, 13,
     214, 235, 198, 14, 207, 173, 8, 78, 215, 227, 93, 80, 30, 179, 91, 35, 56, 52, 104, 70, 3, 140,
     221, 156, 125, 160, 205, 26, 65, 28]"

lemma gf_inverses_tab: "list_all (\<lambda>z. z = 1) (map2 gf_mult (map of_nat [1..<256]) (tl gf_inverses))"
  by (simp add: gf_inverses_def gf_mult_def upt_rec_numeral upt_conv_Cons xt_def)

lemma sbox_tab: "map affine gf_inverses = map b0 Te4"
  by (simp add: gf_inverses_def affine_def Te4_def b0_def)

lemma length_gf_inverses: "length gf_inverses = 256" by (simp add: gf_inverses_def)

text \<open>FIPS 197, section 5.1.1: the S-box is the affine map applied to the inverse of the byte.\<close>

lemma sbox_inverse:
  "\<exists>y. sbox x = affine y \<and> (if x = 0 then y = 0 else gf_mult x y = 1)"
proof -
  define y where "y = gf_inverses ! unat x"
  have "map affine gf_inverses ! unat x = map b0 Te4 ! unat x" by (simp only: sbox_tab)
  then have "sbox x = affine y"
    using unat8_less [of x] by (simp add: y_def sbox_def length_gf_inverses length_tables)
  moreover have "y = 0" if "x = 0"
    using that by (simp add: y_def gf_inverses_def)
  moreover have "gf_mult x y = 1" if "x \<noteq> 0"
  proof -
    have 0: "0 < unat x" using that by (simp add: unat_gt_0)
    have "map2 gf_mult (map of_nat [1..<256]) (tl gf_inverses) ! (unat x - 1) = gf_mult x y"
      using unat8_less [of x] 0 by (simp add: y_def nth_tl length_gf_inverses del: upt_rec_numeral)
    moreover have "map2 gf_mult (map of_nat [1..<256]) (tl gf_inverses) ! (unat x - 1)
        \<in> set (map2 gf_mult (map of_nat [1..<256]) (tl gf_inverses))"
      using unat8_less [of x] 0 by (intro nth_mem) (simp add: length_gf_inverses)
    ultimately show ?thesis using gf_inverses_tab by (simp only: list_all_iff)
  qed
  ultimately show ?thesis by auto
qed

end
