(* ===== verification/Aes.thy ===== *)
theory Aes
  imports Rijndael_Laws
begin

text \<open>
  AES with a 128-bit key as the callers of \<open>rijndael.c\<close> use it: a context whose key has been set
  encrypts every block as FIPS 197 says, decryption gives the block back, and the schedule has no room
  for longer keys.
\<close>

section \<open>AES with a 128-bit key\<close>

lemma cipher_rounds_cong:
  "(\<And>j. i \<le> j \<Longrightarrow> j < i + n \<Longrightarrow> K j = K' j) \<Longrightarrow> cipher_rounds n K i s = cipher_rounds n K' i s"
  by (induction n arbitrary: i s) simp_all

lemma cipher_cong: "0 < n \<Longrightarrow> (\<And>j. j \<le> n \<Longrightarrow> K j = K' j) \<Longrightarrow> cipher n K s = cipher n K' s"
  using cipher_rounds_cong [of 1 "n - 1" K K'] by (simp add: cipher_def)

text \<open>AES-128 of FIPS 197 on a block of 16 bytes.\<close>

definition aes128 :: "u8 list \<Rightarrow> u8 list \<Rightarrow> u8 list" where
  "aes128 key b = bytes_of (cipher 10 (expand_key (words_of key)) (words_of b))"

definition fresh_ctx :: "rijndael_ctx \<Rightarrow> bool" where
  "fresh_ctx ctx \<longleftrightarrow> length (ek ctx) = 4 * (AES_MAXROUNDS + 1) \<and> length (dk ctx) = 4 * (AES_MAXROUNDS + 1)"

lemma set_key_enc_only_val:
  assumes "fresh_ctx ctx" "16 \<le> length key"
  shows "\<exists>ctx'. rijndael_set_key_enc_only ctx key 128 = Some (0, ctx') \<and> Nr ctx' = 10 \<and> length (ek ctx') = 44 \<and>
    (\<forall>j \<le> 10. keys (ek ctx') j = expand_key (words_of key) j)"
  using rijndaelKeySetupEnc_val [of "ek ctx" key] assms
  by (auto simp: rijndael_set_key_enc_only_def fresh_ctx_def AES_MAXROUNDS_def)

lemma set_key_val:
  assumes "fresh_ctx ctx" "16 \<le> length key"
  shows "\<exists>ctx'. rijndael_set_key ctx key 128 = Some (0, ctx') \<and> Nr ctx' = 10 \<and> length (ek ctx') = 44 \<and> length (dk ctx') = 44 \<and>
    (\<forall>j \<le> 10. keys (ek ctx') j = expand_key (words_of key) j) \<and>
    (\<forall>j \<le> 10. keys (dk ctx') j =
      (let k = expand_key (words_of key) (10 - j) in if 0 < j \<and> j < 10 then map_state inv_mix_column k else k))"
proof -
  obtain e where e: "rijndaelKeySetupEnc (ek ctx) key 128 = Some (10, e)" "length e = 44"
    "\<And>j. j \<le> 10 \<Longrightarrow> keys e j = expand_key (words_of key) j"
    using rijndaelKeySetupEnc_val [of "ek ctx" key] assms by (auto simp: fresh_ctx_def AES_MAXROUNDS_def)
  obtain d where d: "rijndaelKeySetupDec (dk ctx) key 128 = Some (10, d)" "length d = 44"
    "\<And>j. j \<le> 10 \<Longrightarrow> keys d j =
      (let k = expand_key (words_of key) (10 - j) in if 0 < j \<and> j < 10 then map_state inv_mix_column k else k)"
    using rijndaelKeySetupDec_val [of "dk ctx" key] assms by (auto simp: fresh_ctx_def AES_MAXROUNDS_def)
  show ?thesis using e d by (simp add: rijndael_set_key_def)
qed

lemma rijndael_encrypt_val:
  assumes "Nr ctx = 10" "length (ek ctx) = 44" "\<forall>j \<le> 10. keys (ek ctx) j = expand_key (words_of key) j"
    "length src = 16" "length dst = 16"
  shows "rijndael_encrypt ctx src dst = Some (aes128 key src)"
  using rijndaelEncrypt_val [of src dst 5 "ek ctx"] assms
    cipher_cong [of 10 "keys (ek ctx)" "expand_key (words_of key)" "words_of src"]
  by (simp add: rijndael_encrypt_def aes128_def)

lemma rijndael_decrypt_val:
  assumes "Nr ctx = 10" "length (dk ctx) = 44" "\<forall>j \<le> 10. keys (dk ctx) j =
      (let k = expand_key (words_of key) (10 - j) in if 0 < j \<and> j < 10 then map_state inv_mix_column k else k)"
    "length src = 16" "length dst = 16"
  shows "rijndael_decrypt ctx (aes128 key src) dst = Some src"
proof -
  have "inv_cipher 10 (keys (dk ctx)) (cipher 10 (expand_key (words_of key)) (words_of src)) = words_of src"
    using assms(3) [rule_format, of 0] assms(3) [rule_format, of 10] assms(3)
    by (intro inv_cipher_cipher) (simp_all add: Let_def)
  then show ?thesis
    using rijndaelDecrypt_val [of "aes128 key src" dst 5 "dk ctx"] assms
    by (simp add: rijndael_decrypt_def aes128_def bytes_of_words_of)
qed

text \<open>
  C8. After \<open>rijndael_set_key_enc_only\<close> with a 128-bit key, \<open>rijndael_encrypt\<close> succeeds on every block
  and its result is the block that AES-128 of FIPS 197 gives: key expansion, initial round key, nine
  rounds of SubBytes, ShiftRows, MixColumns and AddRoundKey, and the last round without MixColumns.
\<close>
theorem rijndael_encrypt_is_aes128:
  assumes "fresh_ctx ctx" "16 \<le> length key"
  shows "\<exists>ctx'. rijndael_set_key_enc_only ctx key 128 = Some (0, ctx') \<and>
    (\<forall>src dst. length src = 16 \<longrightarrow> length dst = 16 \<longrightarrow> rijndael_encrypt ctx' src dst = Some (aes128 key src))"
  using set_key_enc_only_val [OF assms] rijndael_encrypt_val by blast

definition blank_ctx :: rijndael_ctx where
  "blank_ctx = \<lparr>enc_only = False, Nr = 0, ek = replicate 44 0, dk = replicate 44 0\<rparr>"

lemma fresh_blank: "fresh_ctx blank_ctx"
  by (simp add: fresh_ctx_def blank_ctx_def AES_MAXROUNDS_def)

theorem rijndael_encrypt_is_aes128_witness:
  "\<exists>ctx'. rijndael_set_key_enc_only blank_ctx (replicate 16 0x2b) 128 = Some (0, ctx') \<and>
    rijndael_encrypt ctx' (replicate 16 0x32) (replicate 16 0) = Some (aes128 (replicate 16 0x2b) (replicate 16 0x32))"
  using rijndael_encrypt_is_aes128 [OF fresh_blank, of "replicate 16 0x2b"] by auto

text \<open>
  After \<open>rijndael_set_key\<close> with a 128-bit key, \<open>rijndael_decrypt\<close> gives back the block that
  \<open>rijndael_encrypt\<close> encrypted.
\<close>
theorem rijndael_roundtrip:
  assumes "fresh_ctx ctx" "16 \<le> length key" "length src = 16" "length dst = 16" "length dst' = 16"
  shows "\<exists>ctx' c. rijndael_set_key ctx key 128 = Some (0, ctx') \<and> rijndael_encrypt ctx' src dst = Some c \<and>
    rijndael_decrypt ctx' c dst' = Some src"
  using set_key_val [OF assms(1,2)] rijndael_encrypt_val [OF _ _ _ assms(3,4)] rijndael_decrypt_val [OF _ _ _ assms(3,5)]
  by blast

theorem rijndael_roundtrip_witness:
  "\<exists>ctx' c. rijndael_set_key blank_ctx (replicate 16 0x2b) 128 = Some (0, ctx') \<and>
    rijndael_encrypt ctx' (replicate 16 0x32) (replicate 16 0) = Some c \<and>
    rijndael_decrypt ctx' c (replicate 16 1) = Some (replicate 16 0x32)"
  by (rule rijndael_roundtrip [OF fresh_blank]) simp_all

section \<open>Keys of 192 and 256 bits\<close>

lemma key_loop_192_step:
  assumes "p + 11 < length rk" "i < 7"
  shows "\<exists>rk'. length rk' = length rk \<and> key_loop_192 rk p i = key_loop_192 rk' (p + 6) (i + 1)"
  using assms
  by (subst key_loop_192.simps) (simp add: length_rcon, rule exI, rule conjI [rotated], rule refl, simp)

lemma key_loop_256_step:
  assumes "p + 15 < length rk" "i < 6"
  shows "\<exists>rk'. length rk' = length rk \<and> key_loop_256 rk p i = key_loop_256 rk' (p + 8) (i + 1)"
  using assms
  by (subst key_loop_256.simps) (simp add: length_rcon, rule exI, rule conjI [rotated], rule refl, simp)

lemma key_loop_192_short:
  "length rk = 44 \<Longrightarrow> i \<le> 6 \<Longrightarrow> key_loop_192 rk (6 * i) i = None"
proof (induction "6 - i" arbitrary: rk i)
  case 0
  then have "i = 6" by simp
  then show ?case using 0 by (subst key_loop_192.simps) (simp add: length_rcon wr_def rd_def)
next
  case (Suc n)
  then have "6 * i + 11 < length rk" "i < 7" by auto
  then obtain rk' where "length rk' = 44" "key_loop_192 rk (6 * i) i = key_loop_192 rk' (6 * i + 6) (i + 1)"
    using key_loop_192_step [of "6 * i" rk i] Suc.prems by metis
  then show ?case using Suc.hyps(1) [of "i + 1" rk'] Suc.hyps(2) by (simp add: add.commute)
qed

lemma key_loop_256_short:
  "length rk = 44 \<Longrightarrow> i \<le> 4 \<Longrightarrow> key_loop_256 rk (8 * i) i = None"
proof (induction "4 - i" arbitrary: rk i)
  case 0
  then have "i = 4" by simp
  then show ?case using 0 by (subst key_loop_256.simps) (simp add: length_rcon wr_def rd_def)
next
  case (Suc n)
  then have "8 * i + 15 < length rk" "i < 6" by auto
  then obtain rk' where "length rk' = 44" "key_loop_256 rk (8 * i) i = key_loop_256 rk' (8 * i + 8) (i + 1)"
    using key_loop_256_step [of "8 * i" rk i] Suc.prems by metis
  then show ?case using Suc.hyps(1) [of "i + 1" rk'] Suc.hyps(2) by (simp add: add.commute)
qed

text \<open>
  The schedule of a context has room for the round keys of a 128-bit key only: setting a key of
  192 or 256 bits, which \<open>rijndael.h\<close> announces with \<open>AES_MAXKEYBITS\<close>, writes behind the array.
\<close>
theorem long_keys_overflow:
  assumes "fresh_ctx ctx" "32 \<le> length key" "bits = 192 \<or> bits = 256"
  shows "rijndael_set_key_enc_only ctx key bits = None \<and> rijndael_set_key ctx key bits = None"
proof -
  have l: "length (ek ctx) = 44" using assms by (simp add: fresh_ctx_def AES_MAXROUNDS_def)
  have "rijndaelKeySetupEnc (ek ctx) key bits = None"
    using assms l key_loop_192_short [of _ 0] key_loop_256_short [of _ 0]
    by (auto simp: rijndaelKeySetupEnc_def GETU32_val)
  then show ?thesis
    by (simp add: rijndael_set_key_enc_only_def rijndael_set_key_def)
qed

theorem long_keys_overflow_witness:
  "rijndael_set_key_enc_only blank_ctx (replicate 32 0) 256 = None \<and> rijndael_set_key blank_ctx (replicate 32 0) 256 = None"
  by (rule long_keys_overflow [OF fresh_blank]) simp_all

end
