(* ===== verification/Crypto.thy ===== *)
theory Crypto
  imports Hmac Ccm_Laws Aes
begin

text \<open>
  The cryptographic services of the DTLS library: \<open>arduino/libraries/Dtls/crypto.c\<close> with
  \<open>DTLS_PSK\<close> and without \<open>DTLS_ECC\<close>, on the table-driven AES (\<open>ANCIENNE_IMPLE_AES\<close>). Here the contract
  \<open>block_cipher\<close> of CCM is met by the cipher of a key context. \<open>mem_a\<close> and \<open>mem_p\<close> say if the two
  calls of \<open>malloc\<close> succeed. \<open>None\<close> is an access outside a buffer.
\<close>

section \<open>The pseudorandom function\<close>

fun seed_update :: "hmac_context \<Rightarrow> u8 list option \<Rightarrow> hmac_context option" where
  "seed_update ctx None = Some ctx"
| "seed_update ctx (Some s) = dtls_hmac_update ctx s"

fun seeds_update :: "hmac_context \<Rightarrow> u8 list option list \<Rightarrow> hmac_context option" where
  "seeds_update ctx [] = Some ctx"
| "seeds_update ctx (s # ss) = do { ctx \<leftarrow> seed_update ctx s; seeds_update ctx ss }"

text \<open>The loop; \<open>len\<close> is also the offset of \<open>buf\<close>, and the digest length \<open>dlen\<close> is 32.\<close>

function p_hash_loop ::
  "u8 list \<Rightarrow> u8 list option list \<Rightarrow> u8 list \<Rightarrow> u8 list \<Rightarrow> nat \<Rightarrow> nat \<Rightarrow> (u8 list \<times> u8 list \<times> nat) option"
where
  "p_hash_loop key seeds A buf len buflen =
     (if len + 32 < buflen then do {
        p \<leftarrow> dtls_hmac_init key;
        p \<leftarrow> dtls_hmac_update p A;
        p \<leftarrow> seeds_update p seeds;
        (tmp, n, p) \<leftarrow> dtls_hmac_finalize p;
        buf \<leftarrow> mcopy buf len tmp 0 32;
        a \<leftarrow> dtls_hmac_init key;
        a \<leftarrow> dtls_hmac_update a A;
        (A, n, a) \<leftarrow> dtls_hmac_finalize a;
        p_hash_loop key seeds A buf (len + 32) buflen
      } else Some (A, buf, len))"
  by pat_completeness auto

termination
  by (relation "measure (\<lambda>(key, seeds, A, buf, len, buflen). buflen - len)") auto

declare p_hash_loop.simps [simp del]

definition dtls_p_hash :: "bool \<Rightarrow> bool \<Rightarrow> u8 list \<Rightarrow> u8 list option list \<Rightarrow> u8 list \<Rightarrow> nat \<Rightarrow> (nat \<times> u8 list) option" where
  "dtls_p_hash mem_a mem_p key seeds buf buflen = do {
     a \<leftarrow> dtls_hmac_new mem_a key;
     case a of
       None \<Rightarrow> Some (0, buf)
     | Some a \<Rightarrow> do {
         a \<leftarrow> seeds_update a seeds;
         (A, dlen, a) \<leftarrow> dtls_hmac_finalize a;
         p \<leftarrow> dtls_hmac_new mem_p key;
         case p of
           None \<Rightarrow> Some (buflen, buf)
         | Some p \<Rightarrow> do {
             (A, buf, len) \<leftarrow> p_hash_loop key seeds A buf 0 buflen;
             p \<leftarrow> dtls_hmac_init key;
             p \<leftarrow> dtls_hmac_update p A;
             p \<leftarrow> seeds_update p seeds;
             (tmp, n, p) \<leftarrow> dtls_hmac_finalize p;
             buf \<leftarrow> mcopy buf len tmp 0 (buflen - len);
             Some (buflen, buf)
           }
       }
   }"

definition dtls_prf ::
  "bool \<Rightarrow> bool \<Rightarrow> u8 list option \<Rightarrow> u8 list option \<Rightarrow> u8 list option \<Rightarrow> u8 list option \<Rightarrow> u8 list \<Rightarrow> nat \<Rightarrow> (nat \<times> u8 list) option"
where
  "dtls_prf mem_a mem_p key label random1 random2 buf buflen =
     (case key of
        None \<Rightarrow> Some (0, buf)
      | Some k \<Rightarrow> do {
          buf \<leftarrow> mset_at buf 0 0 buflen;
          dtls_p_hash mem_a mem_p k [label, random1, random2] buf buflen
        })"

definition dtls_mac :: "hmac_context \<Rightarrow> u8 list \<Rightarrow> u8 list \<Rightarrow> nat \<Rightarrow> u8 list \<Rightarrow> (u8 list \<times> hmac_context) option" where
  "dtls_mac ctx rec_hdr packet n buf = do {
     L \<leftarrow> dtls_int_to_uint16 (replicate 2 0) 0 (of_nat n);
     x \<leftarrow> slice rec_hdr 3 8;
     ctx \<leftarrow> dtls_hmac_update ctx x;
     x \<leftarrow> slice rec_hdr 0 3;
     ctx \<leftarrow> dtls_hmac_update ctx x;
     ctx \<leftarrow> dtls_hmac_update ctx L;
     x \<leftarrow> slice packet 0 n;
     ctx \<leftarrow> dtls_hmac_update ctx x;
     (result, k, ctx) \<leftarrow> dtls_hmac_finalize ctx;
     buf \<leftarrow> mcopy buf 0 result 0 32;
     Some (buf, ctx)
   }"

definition dtls_psk_pre_master_secret :: "u8 list \<Rightarrow> nat \<Rightarrow> u8 list \<Rightarrow> nat \<Rightarrow> (int \<times> u8 list) option" where
  "dtls_psk_pre_master_secret key keylen result result_len =
     (if result_len < 2 * (2 + keylen) then Some (- 1, result)
      else do {
        r \<leftarrow> dtls_int_to_uint16 result 0 (of_nat keylen);
        r \<leftarrow> mset_at r 2 0 keylen;
        x \<leftarrow> slice r 0 2;
        r \<leftarrow> mcopy r (2 + keylen) x 0 2;
        r \<leftarrow> mcopy r (4 + keylen) key 0 keylen;
        Some (int (2 * (2 + keylen)), r)
      })"

section \<open>Authenticated encryption\<close>

text \<open>The block cipher of a context as CCM calls it.\<close>

definition ctx_cipher :: "rijndael_ctx \<Rightarrow> u8 list \<Rightarrow> u8 list" where
  "ctx_cipher ctx b = (case rijndael_encrypt ctx b (replicate 16 0) of Some c \<Rightarrow> c | None \<Rightarrow> replicate 16 0)"

definition dtls_ccm_encrypt :: "rijndael_ctx \<Rightarrow> nat \<Rightarrow> u8 list \<Rightarrow> u8 list \<Rightarrow> u8 list \<Rightarrow> nat \<Rightarrow> (int \<times> u8 list) option" where
  "dtls_ccm_encrypt ctx srclen buf nounce aad la = dtls_ccm_encrypt_message (ctx_cipher ctx) 8 (max 2 (15 - 12)) nounce buf srclen aad la"

definition dtls_ccm_decrypt :: "rijndael_ctx \<Rightarrow> nat \<Rightarrow> u8 list \<Rightarrow> u8 list \<Rightarrow> u8 list \<Rightarrow> nat \<Rightarrow> (int \<times> u8 list) option" where
  "dtls_ccm_decrypt ctx srclen buf nounce aad la = dtls_ccm_decrypt_message (ctx_cipher ctx) 8 (max 2 (15 - 12)) nounce buf srclen aad la"

text \<open>
  The context is the static \<open>cipher_context\<close>; \<open>src\<close> is \<open>None\<close> when it is \<open>buf\<close>. A schedule on which the
  cipher itself is undefined makes the call undefined, which the first two lines behind the key setup say.
\<close>

definition dtls_encrypt ::
  "rijndael_ctx \<Rightarrow> u8 list option \<Rightarrow> nat \<Rightarrow> u8 list \<Rightarrow> u8 list \<Rightarrow> u8 list \<Rightarrow> nat \<Rightarrow> u8 list \<Rightarrow> nat \<Rightarrow> (int \<times> u8 list \<times> rijndael_ctx) option"
where
  "dtls_encrypt ctx src n buf nounce key keylen aad la = do {
     (ret, ctx) \<leftarrow> rijndael_set_key_enc_only ctx key (int (8 * keylen));
     if ret < 0 then Some (ret, buf, ctx)
     else do {
       _ \<leftarrow> rijndael_encrypt ctx (replicate 16 0) (replicate 16 0);
       buf \<leftarrow> (case src of Some s \<Rightarrow> mcopy buf 0 s 0 n | None \<Rightarrow> Some buf);
       (ret, buf) \<leftarrow> dtls_ccm_encrypt ctx n buf nounce aad la;
       Some (ret, buf, ctx)
     }
   }"

definition dtls_decrypt ::
  "rijndael_ctx \<Rightarrow> u8 list option \<Rightarrow> nat \<Rightarrow> u8 list \<Rightarrow> u8 list \<Rightarrow> u8 list \<Rightarrow> nat \<Rightarrow> u8 list \<Rightarrow> nat \<Rightarrow> (int \<times> u8 list \<times> rijndael_ctx) option"
where
  "dtls_decrypt ctx src n buf nounce key keylen aad la = do {
     (ret, ctx) \<leftarrow> rijndael_set_key_enc_only ctx key (int (8 * keylen));
     if ret < 0 then Some (ret, buf, ctx)
     else do {
       _ \<leftarrow> rijndael_encrypt ctx (replicate 16 0) (replicate 16 0);
       buf \<leftarrow> (case src of Some s \<Rightarrow> mcopy buf 0 s 0 n | None \<Rightarrow> Some buf);
       (ret, buf) \<leftarrow> dtls_ccm_decrypt ctx n buf nounce aad la;
       Some (ret, buf, ctx)
     }
   }"

section \<open>The pseudorandom function of RFC 5246\<close>

fun p_stream :: "nat \<Rightarrow> u8 list \<Rightarrow> u8 list \<Rightarrow> u8 list \<Rightarrow> u8 list" where
  "p_stream 0 key seed A = []"
| "p_stream (Suc n) key seed A = hmac key (A @ seed) @ p_stream n key seed (hmac key A)"

definition P_SHA256 :: "u8 list \<Rightarrow> u8 list \<Rightarrow> nat \<Rightarrow> u8 list" where
  "P_SHA256 key seed n = take n (p_stream (n div 32 + 1) key seed (hmac key seed))"

definition seed_bytes :: "u8 list option list \<Rightarrow> u8 list" where
  "seed_bytes ss = concat (map (\<lambda>s. case s of Some x \<Rightarrow> x | None \<Rightarrow> []) ss)"

lemma seeds_update_val: "hmac_rep ctx key m \<Longrightarrow> \<exists>ctx'. seeds_update ctx ss = Some ctx' \<and> hmac_rep ctx' key (m @ seed_bytes ss)"
proof (induction ss arbitrary: ctx m)
  case (Cons s ss)
  obtain c1 where c1: "seed_update ctx s = Some c1" "hmac_rep c1 key (m @ (case s of Some x \<Rightarrow> x | None \<Rightarrow> []))"
    using Cons.prems hmac_update_val by (cases s) fastforce+
  then show ?case using Cons.IH [OF c1(2)] by (auto simp: seed_bytes_def)
qed (simp add: seed_bytes_def)

lemma length_p_stream [simp]: "length (p_stream n key seed A) = 32 * n"
  by (induction n arbitrary: A) simp_all

text \<open>One HMAC of the loop.\<close>

lemma hmac_run:
  "\<exists>p q r c. dtls_hmac_init key = Some p \<and> dtls_hmac_update p A = Some q \<and> seeds_update q ss = Some r \<and>
    dtls_hmac_finalize r = Some (hmac key (A @ seed_bytes ss), 32, c)"
proof -
  obtain p where p: "dtls_hmac_init key = Some p" "hmac_rep p key []" using hmac_init_val by blast
  obtain q where q: "dtls_hmac_update p A = Some q" "hmac_rep q key A" using hmac_update_val [OF p(2), of A] by auto
  obtain r where r: "seeds_update q ss = Some r" "hmac_rep r key (A @ seed_bytes ss)" using seeds_update_val [OF q(2)] by auto
  show ?thesis using p(1) q(1) r(1) hmac_finalize_val [OF r(2)] by auto
qed

lemma hmac_run_A: "\<exists>p q c. dtls_hmac_init key = Some p \<and> dtls_hmac_update p A = Some q \<and> dtls_hmac_finalize q = Some (hmac key A, 32, c)"
  using hmac_run [of key A "[]"] by (auto simp: seed_bytes_def)

lemma p_hash_loop_val:
  assumes "buflen \<le> length buf" "len \<le> buflen"
  shows "\<exists>n. p_hash_loop key ss A buf len buflen =
      Some ((hmac key ^^ n) A, put_at buf len (p_stream n key (seed_bytes ss) A), len + 32 * n) \<and>
    len + 32 * n \<le> buflen \<and> buflen \<le> len + 32 * n + 32"
  using assms
proof (induction key ss A buf len buflen rule: p_hash_loop.induct)
  case (1 key ss A buf len buflen)
  show ?case
  proof (cases "len + 32 < buflen")
    case True
    define h where "h = hmac key (A @ seed_bytes ss)"
    obtain p q r c where 2: "dtls_hmac_init key = Some p" "dtls_hmac_update p A = Some q" "seeds_update q ss = Some r" "dtls_hmac_finalize r = Some (h, 32, c)"
      using hmac_run unfolding h_def by blast
    obtain c' where 3: "dtls_hmac_finalize q = Some (hmac key A, 32, c')" using hmac_run_A [of key A] 2(1,2) by auto
    have b: "mcopy buf len h 0 32 = Some (put_at buf len h)" "length h = 32" using True 1(2) by (simp_all add: mcopy_in h_def)
    have rec: "p_hash_loop key ss A buf len buflen = p_hash_loop key ss (hmac key A) (put_at buf len h) (len + 32) buflen"
      using True by (subst p_hash_loop.simps) (simp add: 2 3 b)
    obtain n where n: "p_hash_loop key ss (hmac key A) (put_at buf len h) (len + 32) buflen =
        Some ((hmac key ^^ n) (hmac key A), put_at (put_at buf len h) (len + 32) (p_stream n key (seed_bytes ss) (hmac key A)), len + 32 + 32 * n)"
      "len + 32 + 32 * n \<le> buflen" "buflen \<le> len + 32 + 32 * n + 32"
      using 1(1) [OF True 2(1,2,3,4) _ _ b(1) 2(1,2) 3] True 1(2) b(2) by force
    have "put_at (put_at buf len h) (len + 32) (p_stream n key (seed_bytes ss) (hmac key A)) = put_at buf len (p_stream (Suc n) key (seed_bytes ss) A)"
      using put_at_put_at_adjacent [of len h "p_stream n key (seed_bytes ss) (hmac key A)" buf] n(2) 1(2) b(2) by (simp add: h_def)
    then show ?thesis using n by (intro exI [of _ "Suc n"]) (simp add: rec funpow_swap1)
  qed (use 1 in \<open>auto simp: p_hash_loop.simps intro!: exI [of _ 0]\<close>)
qed

lemma put_at_put_at: "p + length a \<le> length b \<Longrightarrow> q = p + length a \<Longrightarrow> q + length c \<le> length b \<Longrightarrow> put_at (put_at b p a) q c = put_at b p (a @ c)"
  using put_at_put_at_adjacent by simp

lemma p_stream_append: "p_stream (n + k) key s B = p_stream n key s B @ p_stream k key s ((hmac key ^^ n) B)"
  by (induction n arbitrary: B) (simp_all add: funpow_swap1)

lemma length_P_SHA256 [simp]: "length (P_SHA256 key s n) = n"
proof -
  have "n < 32 * (n div 32 + 1)" by presburger
  then show ?thesis by (simp add: P_SHA256_def)
qed

lemma dtls_p_hash_val:
  assumes "buflen \<le> length buf"
  shows "dtls_p_hash True True key ss buf buflen = Some (buflen, put_at buf 0 (P_SHA256 key (seed_bytes ss) buflen))"
proof -
  define s where "s = seed_bytes ss"
  define A where "A = hmac key s"
  obtain p where p: "dtls_hmac_init key = Some p" "hmac_rep p key []" using hmac_init_val by blast
  obtain r c where r: "seeds_update p ss = Some r" "dtls_hmac_finalize r = Some (A, 32, c)"
    using seeds_update_val [OF p(2), of ss] hmac_finalize_val unfolding A_def s_def by fastforce
  obtain n where n: "p_hash_loop key ss A buf 0 buflen = Some ((hmac key ^^ n) A, put_at buf 0 (p_stream n key s A), 32 * n)"
    "32 * n \<le> buflen" "buflen \<le> 32 * n + 32"
    using p_hash_loop_val [of buflen buf 0 key ss A] assms unfolding s_def by auto
  define t where "t = hmac key ((hmac key ^^ n) A @ s)"
  obtain q u v where q: "dtls_hmac_update p ((hmac key ^^ n) A) = Some q" "seeds_update q ss = Some u" "dtls_hmac_finalize u = Some (t, 32, v)"
    using hmac_run [of key "(hmac key ^^ n) A" ss] p(1) unfolding t_def s_def by auto
  have lt: "length t = 32" by (simp add: t_def)
  have m: "mcopy (put_at buf 0 (p_stream n key s A)) (32 * n) t 0 (buflen - 32 * n) = Some (put_at buf 0 (p_stream n key s A @ take (buflen - 32 * n) t))"
    using n assms lt by (simp add: mcopy_in put_at_put_at)
  have e: "p_stream (n + 1) key s A = p_stream n key s A @ t" unfolding p_stream_append by (simp add: t_def)
  have "p_stream n key s A @ take (buflen - 32 * n) t = take buflen (p_stream (n + 1) key s A)"
    using n(2,3) lt unfolding e by simp
  also have "\<dots> = P_SHA256 key s buflen"
  proof (cases "buflen = 32 * n + 32")
    case True
    then have d: "buflen div 32 + 1 = (n + 1) + 1" by simp
    have "p_stream ((n + 1) + 1) key s A = p_stream (n + 1) key s A @ p_stream 1 key s ((hmac key ^^ (n + 1)) A)"
      by (rule p_stream_append)
    then have "take buflen (p_stream ((n + 1) + 1) key s A) = take buflen (p_stream (n + 1) key s A)"
      using True by (simp only: take_append length_p_stream) simp
    then show ?thesis unfolding P_SHA256_def A_def [symmetric] d by simp
  next
    case False
    then have "buflen div 32 = n" using n(2,3) by (intro div_nat_eqI) simp_all
    then show ?thesis by (simp add: P_SHA256_def A_def)
  qed
  finally have "put_at buf 0 (p_stream n key s A @ take (buflen - 32 * n) t) = put_at buf 0 (P_SHA256 key s buflen)" by simp
  then show ?thesis
    by (simp add: dtls_p_hash_def dtls_hmac_new_def p(1) r n(1) q m s_def [symmetric])
qed

text \<open>
  C12. With memory available, \<open>dtls_prf\<close> fills the first \<open>buflen\<close> bytes of the buffer with the output of
  P_SHA256 of RFC 5246 on the key and the seed that consists of the label and the two random values,
  of any length, and leaves the rest of the buffer alone. Without a key it does nothing.
\<close>
theorem prf_is_p_sha256:
  assumes "buflen \<le> length buf"
  shows "dtls_prf True True (Some key) label r1 r2 buf buflen = Some (buflen, put_at buf 0 (P_SHA256 key (seed_bytes [label, r1, r2]) buflen)) \<and>
    dtls_prf True True None label r1 r2 buf buflen = Some (0, buf)"
proof -
  define b where "b = put_at buf 0 (replicate buflen 0)"
  have "mset_at buf 0 0 buflen = Some b" using assms by (simp add: mset_at_in b_def put_at_def)
  moreover have "put_at b 0 (P_SHA256 key s buflen) = put_at buf 0 (P_SHA256 key s buflen)" for s
    using assms by (simp add: put_at_def b_def)
  ultimately show ?thesis using dtls_p_hash_val [of buflen b] assms by (simp add: dtls_prf_def b_def)
qed

theorem prf_is_p_sha256_witness:
  "dtls_prf True True (Some [1, 2, 3]) (Some [4]) (Some [5]) None (replicate 40 7) 33 =
     Some (33, put_at (replicate 40 7) 0 (P_SHA256 [1, 2, 3] [4, 5] 33))"
  using prf_is_p_sha256 [of 33 "replicate 40 7" "[1, 2, 3]" "Some [4]" "Some [5]" None] by (simp add: seed_bytes_def)

section \<open>AES-CCM\<close>

lemma PUTU32_length: "PUTU32 ct p w = Some c \<Longrightarrow> length c = length ct"
  by (auto simp: PUTU32_def bind_eq_Some_conv wr_Some_iff)

lemma rijndael_encrypt_length: "rijndael_encrypt ctx src dst = Some c \<Longrightarrow> length c = length dst"
  by (auto simp: rijndael_encrypt_def rijndaelEncrypt_def bind_eq_Some_conv dest!: PUTU32_length)

text \<open>The cipher of any context meets the contract of CCM, which gives the laws of \<open>block_cipher\<close> for it.\<close>

interpretation rijndael: block_cipher "ctx_cipher ctx" for ctx
  by unfold_locales (auto simp: ctx_cipher_def dest: rijndael_encrypt_length split: option.splits)

lemma cbc_cong:
  assumes "\<And>b. length b = 16 \<Longrightarrow> E b = F b" "\<And>b. length b = 16 \<Longrightarrow> length (F b) = 16" "length X = 16"
  shows "cbc E X m = cbc F X m"
  using assms(3)
proof (induction "length m" arbitrary: X m rule: less_induct)
  case less
  show ?case
  proof (cases "m = []")
    case False
    have b: "length (xorl X (take 16 m) @ drop (length m) X) = 16" using less.prems by (simp add: min_def)
    have "cbc E X m = cbc E (F (xorl X (take 16 m) @ drop (length m) X)) (drop 16 m)" using False assms(1) [OF b] by (subst cbc.simps) simp
    also have "\<dots> = cbc F (F (xorl X (take 16 m) @ drop (length m) X)) (drop 16 m)" using False assms(2) [OF b] by (intro less.hyps) simp_all
    also have "\<dots> = cbc F X m" using False by (subst (2) cbc.simps) simp
    finally show ?thesis .
  qed simp
qed

lemma rfc_ccm_cong:
  assumes E: "\<And>b. length b = 16 \<Longrightarrow> E b = F b" and F: "\<And>b. length b = 16 \<Longrightarrow> length (F b) = 16"
    and L: "1 \<le> L" "L \<le> 15" "15 - L \<le> length nonce"
  shows "rfc_ccm E M L nonce a m = rfc_ccm F M L nonce a m"
proof -
  have k: "rfc_key E L nonce = rfc_key F L nonce" using L by (intro ext) (simp add: rfc_key_def key_block_def counter_bytes_def E)
  have b: "length (CCM_FLAGS (length a) M L # take (15 - L) nonce @ be_nat L (length m)) = 16" using L by simp
  have c: "length (cbc F X m) = 16" if "length X = 16" for X m using that block_cipher.cbc_len [of F X m] F by (simp add: block_cipher_def)
  show ?thesis
    unfolding rfc_ccm_def rfc_tag_def rfc_mac_def k E [OF b]
    by (simp add: cbc_cong [OF E F] c F [OF b])
qed

lemma rfc_ccm_length:
  assumes "\<And>b. length b = 16 \<Longrightarrow> length (E b) = 16" "1 \<le> L" "L \<le> 3" "16 - L \<le> length nonce" "M \<le> 16"
  shows "length (rfc_ccm E M L nonce a m) = length m + M"
proof -
  have E: "block_cipher E" using assms(1) by unfold_locales
  show ?thesis
    using assms block_cipher.rfc_key_len [OF E, of L nonce] by (simp add: rfc_ccm_def rfc_tag_def rfc_mac_def length_ctr block_cipher.cbc_len [OF E])
qed

lemma length_aes128 [simp]: "length (aes128 key b) = 16"
  by (simp add: aes128_def)

lemma keyed:
  assumes "fresh_ctx ctx" "16 \<le> length key"
  shows "\<exists>ctx'. rijndael_set_key_enc_only ctx key 128 = Some (0, ctx') \<and> rijndael_encrypt ctx' (replicate 16 0) (replicate 16 0) \<noteq> None \<and>
    (\<forall>b. length b = 16 \<longrightarrow> ctx_cipher ctx' b = aes128 key b) \<and> fresh_ctx ctx'"
proof -
  obtain c1 where c1: "rijndael_set_key_enc_only ctx key 128 = Some (0, c1)" "Nr c1 = 10" "length (ek c1) = 44"
    "\<forall>j \<le> 10. keys (ek c1) j = expand_key (words_of key) j"
    using set_key_enc_only_val [OF assms] by blast
  have e: "rijndael_encrypt c1 b (replicate 16 0) = Some (aes128 key b)" if "length b = 16" for b
    using rijndael_encrypt_val [OF c1(2-4) that] by simp
  have "dk c1 = dk ctx" using c1(1) by (auto simp: rijndael_set_key_enc_only_def bind_eq_Some_conv Let_def split: if_splits)
  then have "fresh_ctx c1" using assms(1) c1(3) by (simp add: fresh_ctx_def AES_MAXROUNDS_def)
  then show ?thesis using c1(1) e by (simp add: ctx_cipher_def)
qed

lemma dtls_encrypt_val:
  assumes "fresh_ctx ctx" "16 \<le> length key" "13 \<le> length nonce" "la \<le> length aad" "n + 8 \<le> length buf"
  shows "\<exists>ctx'. dtls_encrypt ctx None n buf nonce key 16 aad la =
      Some (int n + 8, put_at buf 0 (rfc_ccm (aes128 key) 8 3 nonce (take la aad) (take n buf)), ctx') \<and> fresh_ctx ctx'"
proof -
  obtain c1 where c1: "rijndael_set_key_enc_only ctx key 128 = Some (0, c1)" "rijndael_encrypt c1 (replicate 16 0) (replicate 16 0) \<noteq> None"
    "\<And>b. length b = 16 \<Longrightarrow> ctx_cipher c1 b = aes128 key b" "fresh_ctx c1"
    using keyed [OF assms(1,2)] by blast
  have "rfc_ccm (ctx_cipher c1) 8 3 nonce a m = rfc_ccm (aes128 key) 8 3 nonce a m" for a m
    using c1(3) assms(3) by (intro rfc_ccm_cong) simp_all
  then show ?thesis
    using c1 rijndael.encrypt_message_val [of 3 nonce la aad 8 n buf c1] assms by (auto simp: dtls_encrypt_def dtls_ccm_encrypt_def)
qed

text \<open>
  C4. \<open>dtls_decrypt\<close> under the same 128-bit key, nonce and additional data turns the output of
  \<open>dtls_encrypt\<close>, which is the AES-128-CCM-8 ciphertext of RFC 3610 and 6655, back into the message, and
  a buffer is accepted only if it is such a ciphertext: no message has another one, and every other
  buffer is refused.
\<close>
theorem aead_sound:
  assumes "fresh_ctx ctx" "16 \<le> length key" "13 \<le> length nonce" "la \<le> length aad"
  shows "(n + 8 \<le> length buf \<longrightarrow> (\<exists>c1 b1 c2 b2. dtls_encrypt ctx None n buf nonce key 16 aad la = Some (int n + 8, b1, c1) \<and>
      take (n + 8) b1 = rfc_ccm (aes128 key) 8 3 nonce (take la aad) (take n buf) \<and>
      dtls_decrypt c1 None (n + 8) b1 nonce key 16 aad la = Some (int n, b2, c2) \<and> take n b2 = take n buf)) \<and>
    (8 \<le> k \<and> k \<le> length buf \<longrightarrow> (\<exists>ret b c. dtls_decrypt ctx None k buf nonce key 16 aad la = Some (ret, b, c) \<and>
      (if \<exists>m. take k buf = rfc_ccm (aes128 key) 8 3 nonce (take la aad) m
       then ret = int k - 8 \<and> take k buf = rfc_ccm (aes128 key) 8 3 nonce (take la aad) (take (k - 8) b) else ret = - 1)))"
proof (intro conjI impI)
  assume n: "n + 8 \<le> length buf"
  obtain c1 where c1: "dtls_encrypt ctx None n buf nonce key 16 aad la =
      Some (int n + 8, put_at buf 0 (rfc_ccm (aes128 key) 8 3 nonce (take la aad) (take n buf)), c1)" "fresh_ctx c1"
    using dtls_encrypt_val [OF assms n] by blast
  obtain k1 where k1: "rijndael_set_key_enc_only ctx key 128 = Some (0, k1)" "\<And>b. length b = 16 \<Longrightarrow> ctx_cipher k1 b = aes128 key b"
    using keyed [OF assms(1,2)] by blast
  obtain k2 where k2: "rijndael_set_key_enc_only c1 key 128 = Some (0, k2)" "rijndael_encrypt k2 (replicate 16 0) (replicate 16 0) \<noteq> None"
    "\<And>b. length b = 16 \<Longrightarrow> ctx_cipher k2 b = aes128 key b"
    using keyed [OF c1(2) assms(2)] by blast
  have cc: "rfc_ccm (ctx_cipher k2) 8 3 nonce a m = rfc_ccm (aes128 key) 8 3 nonce a m" for a m
    using k2(3) assms(3) by (intro rfc_ccm_cong) simp_all
  define b1 where "b1 = put_at buf 0 (rfc_ccm (aes128 key) 8 3 nonce (take la aad) (take n buf))"
  obtain buf1 b2 where r: "dtls_ccm_encrypt_message (ctx_cipher k2) 8 3 nonce buf n aad la = Some (int n + 8, buf1)"
    "dtls_ccm_decrypt_message (ctx_cipher k2) 8 3 nonce buf1 (n + 8) aad la = Some (int n, b2)" "take n b2 = take n buf"
    using rijndael.ccm_roundtrip [of 3 nonce la aad 8 n buf k2] assms(3,4) n by auto
  have "buf1 = b1"
    using r(1) rijndael.encrypt_message_val [of 3 nonce la aad 8 n buf k2] assms(3,4) n by (simp add: b1_def cc)
  then have "dtls_decrypt c1 None (n + 8) b1 nonce key 16 aad la = Some (int n, b2, k2)"
    using k2(1,2) r(2) by (auto simp: dtls_decrypt_def dtls_ccm_decrypt_def)
  moreover have "take (n + 8) b1 = rfc_ccm (aes128 key) 8 3 nonce (take la aad) (take n buf)"
    using n rfc_ccm_length [of "aes128 key" 3 nonce 8] assms(3) by (simp add: b1_def put_at_def)
  ultimately show "\<exists>c1 b1 c2 b2. dtls_encrypt ctx None n buf nonce key 16 aad la = Some (int n + 8, b1, c1) \<and>
      take (n + 8) b1 = rfc_ccm (aes128 key) 8 3 nonce (take la aad) (take n buf) \<and>
      dtls_decrypt c1 None (n + 8) b1 nonce key 16 aad la = Some (int n, b2, c2) \<and> take n b2 = take n buf"
    using c1(1) r(3) unfolding b1_def [symmetric] by blast
next
  assume k: "8 \<le> k \<and> k \<le> length buf"
  obtain k2 where k2: "rijndael_set_key_enc_only ctx key 128 = Some (0, k2)" "rijndael_encrypt k2 (replicate 16 0) (replicate 16 0) \<noteq> None"
    "\<And>b. length b = 16 \<Longrightarrow> ctx_cipher k2 b = aes128 key b"
    using keyed [OF assms(1,2)] by blast
  have cc: "rfc_ccm (ctx_cipher k2) 8 3 nonce a m = rfc_ccm (aes128 key) 8 3 nonce a m" for a m
    using k2(3) assms(3) by (intro rfc_ccm_cong) simp_all
  obtain ret b where r: "dtls_ccm_decrypt_message (ctx_cipher k2) 8 3 nonce buf k aad la = Some (ret, b)" "ret = - 1 \<or> ret = int k - 8"
    "0 \<le> ret \<Longrightarrow> take k buf = rfc_ccm (aes128 key) 8 3 nonce (take la aad) (take (k - 8) b)"
    "ret = - 1 \<Longrightarrow> \<forall>m. length m = k - 8 \<longrightarrow> take k buf \<noteq> rfc_ccm (aes128 key) 8 3 nonce (take la aad) m"
    using rijndael.ccm_authentic [of 3 nonce la aad 8 k buf k2] assms(3,4) k unfolding cc by auto
  have d: "dtls_decrypt ctx None k buf nonce key 16 aad la = Some (ret, b, k2)"
    using k2(1,2) r(1) by (auto simp: dtls_decrypt_def dtls_ccm_decrypt_def)
  have len: "length m = k - 8" if "take k buf = rfc_ccm (aes128 key) 8 3 nonce (take la aad) m" for m
    using arg_cong [OF that, of length] rfc_ccm_length [of "aes128 key" 3 nonce 8 "take la aad" m] assms(3) k by simp
  have "if \<exists>m. take k buf = rfc_ccm (aes128 key) 8 3 nonce (take la aad) m
       then ret = int k - 8 \<and> take k buf = rfc_ccm (aes128 key) 8 3 nonce (take la aad) (take (k - 8) b) else ret = - 1"
  proof (cases "ret = - 1")
    case True
    then have "\<nexists>m. take k buf = rfc_ccm (aes128 key) 8 3 nonce (take la aad) m" using r(4) len by blast
    then show ?thesis using True by (simp only: if_False)
  next
    case False
    then have ret: "ret = int k - 8" using r(2) by blast
    then have "take k buf = rfc_ccm (aes128 key) 8 3 nonce (take la aad) (take (k - 8) b)" using r(3) k by simp
    then show ?thesis using ret by metis
  qed
  then show "\<exists>ret b c. dtls_decrypt ctx None k buf nonce key 16 aad la = Some (ret, b, c) \<and>
      (if \<exists>m. take k buf = rfc_ccm (aes128 key) 8 3 nonce (take la aad) m
       then ret = int k - 8 \<and> take k buf = rfc_ccm (aes128 key) 8 3 nonce (take la aad) (take (k - 8) b) else ret = - 1)"
    using d by blast
qed

theorem aead_sound_witness:
  "\<exists>c1 b1 c2 b2. dtls_encrypt blank_ctx None 3 (replicate 11 5) (replicate 16 1) (replicate 16 9) 16 [] 0 = Some (11, b1, c1) \<and>
     dtls_decrypt c1 None 11 b1 (replicate 16 1) (replicate 16 9) 16 [] 0 = Some (3, b2, c2) \<and> take 3 b2 = [5, 5, 5]"
proof -
  define buf :: "u8 list" where "buf = replicate 11 5"
  define key :: "u8 list" where "key = replicate 16 9"
  define nonce :: "u8 list" where "nonce = replicate 16 1"
  have l: "16 \<le> length key" "13 \<le> length nonce" "0 \<le> length ([] :: u8 list)" "3 + 8 \<le> length buf" "take 3 buf = [5, 5, 5]"
    by (simp_all add: buf_def key_def nonce_def numeral_eq_Suc)
  obtain c1 b1 c2 b2 where "dtls_encrypt blank_ctx None 3 buf nonce key 16 [] 0 = Some (int 3 + 8, b1, c1)"
    "dtls_decrypt c1 None (3 + 8) b1 nonce key 16 [] 0 = Some (int 3, b2, c2)" "take 3 b2 = take 3 buf"
    using aead_sound [OF fresh_blank l(1,2,3), of 3 buf 0] l(4) by blast
  then show ?thesis unfolding l(5) buf_def [symmetric] key_def [symmetric] nonce_def [symmetric]
    by (intro exI [of _ c1] exI [of _ b1] exI [of _ c2] exI [of _ b2]) simp
qed

text \<open>The pre-master secret of RFC 4279: the length, zeros, the length, the key.\<close>

lemma pre_master_val:
  assumes "keylen \<le> length key" "2 * (2 + keylen) \<le> length result" "result_len \<le> length result"
  shows "dtls_psk_pre_master_secret key keylen result result_len =
    (if result_len < 4 + 2 * keylen then Some (- 1, result)
     else Some (int (4 + 2 * keylen), put_at result 0 (be_bytes 2 (ucast (of_nat keylen :: u16)) @ replicate keylen 0 @ be_bytes 2 (ucast (of_nat keylen :: u16)) @ take keylen key)))"
proof -
  define L where "L = be_bytes 2 (ucast (of_nat keylen :: u16))"
  have L: "length L = 2" by (simp add: L_def)
  have "take 2 (put_at result 0 (L @ replicate keylen 0)) = L" using assms(2) L by (simp add: put_at_def)
  then show ?thesis
    using assms L by (auto simp: dtls_psk_pre_master_secret_def int_to_uint_val L_def [symmetric] mset_at_in slice_in mcopy_in put_at_put_at)
qed

end
