(* ===== verification/Dtls_Record.thy ===== *)
theory Dtls_Record
  imports Crypto
begin

text \<open>
  The record layer of \<open>Dtls/dtls.c\<close> (the security parameters of \<open>peer.h\<close>, the key block and its offsets of \<open>crypto.h\<close>, and the functions
  that make and open a record), followed by the wire format it implements and the lemmas that run the
  code on a buffer cut into its fields. A C pointer into the packet is an offset, \<open>None\<close> an access
  outside the object.
\<close>

section \<open>State\<close>

datatype dtls_cipher = TLS_NULL_WITH_NULL_NULL | TLS_PSK_WITH_AES_128_CCM_8 | TLS_ECDHE_ECDSA_WITH_AES_128_CCM_8

datatype dtls_peer_type = DTLS_CLIENT | DTLS_SERVER

record dtls_security =
  scipher :: dtls_cipher
  epoch :: u16
  rseq :: u64
  kblock :: "u8 list"

record dtls_peer =
  role :: dtls_peer_type
  sec0 :: "dtls_security option"
  sec1 :: "dtls_security option"

text \<open>\<open>tmp\<close> is the union of the two random values and the master secret.\<close>

record dtls_handshake =
  tmp :: "u8 list"
  hcipher :: dtls_cipher

abbreviation (input) DTLS_RH_LENGTH :: nat where "DTLS_RH_LENGTH \<equiv> 13"
abbreviation (input) DTLS_VERSION :: u16 where "DTLS_VERSION \<equiv> 0xfefd"
abbreviation (input) MAX_KEYBLOCK_LENGTH :: nat where "MAX_KEYBLOCK_LENGTH \<equiv> 40"
abbreviation (input) DTLS_ALERT_INTERNAL_ERROR :: int where "DTLS_ALERT_INTERNAL_ERROR \<equiv> 80"

definition dtls_alert_create :: "int \<Rightarrow> int \<Rightarrow> int" where
  "dtls_alert_create level desc = - (push_bit 8 level OR desc)"

definition dtls_alert_fatal_create :: "int \<Rightarrow> int" where
  "dtls_alert_fatal_create desc = dtls_alert_create 2 desc"

section \<open>Security parameters\<close>

text \<open>\<open>mem\<close> says if \<open>malloc\<close> succeeds.\<close>

definition dtls_security_new :: "bool \<Rightarrow> dtls_security option" where
  "dtls_security_new mem =
     (if mem then Some \<lparr>scipher = TLS_NULL_WITH_NULL_NULL, epoch = 0, rseq = 0, kblock = replicate MAX_KEYBLOCK_LENGTH 0\<rparr> else None)"

definition dtls_new_peer :: "bool \<Rightarrow> bool \<Rightarrow> dtls_peer option" where
  "dtls_new_peer mem mem' =
     (if mem then
        (case dtls_security_new mem' of
           None \<Rightarrow> None
         | Some s \<Rightarrow> Some \<lparr>role = DTLS_CLIENT, sec0 = Some s, sec1 = None\<rparr>)
      else None)"

definition dtls_security_params_epoch :: "dtls_peer \<Rightarrow> u16 \<Rightarrow> dtls_security option" where
  "dtls_security_params_epoch p e =
     (if (case sec0 p of Some s \<Rightarrow> epoch s = e | None \<Rightarrow> False) then sec0 p
      else if (case sec1 p of Some s \<Rightarrow> epoch s = e | None \<Rightarrow> False) then sec1 p
      else None)"

definition dtls_security_params_next :: "bool \<Rightarrow> dtls_peer \<Rightarrow> dtls_peer option" where
  "dtls_security_params_next mem p =
     (case dtls_security_new mem of
        None \<Rightarrow> Some (p\<lparr>sec1 := None\<rparr>)
      | Some s \<Rightarrow> do { s0 \<leftarrow> sec0 p; Some (p\<lparr>sec1 := Some (s\<lparr>epoch := epoch s0 + 1\<rparr>)\<rparr>) })"

definition dtls_security_params_free_other :: "dtls_peer \<Rightarrow> dtls_peer" where
  "dtls_security_params_free_other p =
     (case (sec0 p, sec1 p) of
        (Some s0, Some s1) \<Rightarrow> if epoch s0 < epoch s1 then p else p\<lparr>sec1 := None\<rparr>
      | _ \<Rightarrow> p)"

definition dtls_security_params_switch :: "dtls_peer \<Rightarrow> dtls_peer" where
  "dtls_security_params_switch p = p\<lparr>sec0 := sec1 p, sec1 := sec0 p\<rparr>"

section \<open>The key block\<close>

text \<open>The macros are offsets into the key block; the MAC keys have length zero.\<close>

definition dtls_kb_client_write_key :: nat where "dtls_kb_client_write_key = 0"
definition dtls_kb_server_write_key :: nat where "dtls_kb_server_write_key = dtls_kb_client_write_key + 16"
definition dtls_kb_client_iv :: nat where "dtls_kb_client_iv = dtls_kb_server_write_key + 16"
definition dtls_kb_server_iv :: nat where "dtls_kb_server_iv = dtls_kb_client_iv + 4"
definition dtls_kb_size :: nat where "dtls_kb_size = 2 * (0 + 16 + 4)"

definition dtls_kb_remote_write_key :: "dtls_peer_type \<Rightarrow> nat" where
  "dtls_kb_remote_write_key r = (if r = DTLS_SERVER then dtls_kb_client_write_key else dtls_kb_server_write_key)"

definition dtls_kb_local_write_key :: "dtls_peer_type \<Rightarrow> nat" where
  "dtls_kb_local_write_key r = (if r = DTLS_CLIENT then dtls_kb_client_write_key else dtls_kb_server_write_key)"

definition dtls_kb_remote_iv :: "dtls_peer_type \<Rightarrow> nat" where
  "dtls_kb_remote_iv r = (if r = DTLS_SERVER then dtls_kb_client_iv else dtls_kb_server_iv)"

definition dtls_kb_local_iv :: "dtls_peer_type \<Rightarrow> nat" where
  "dtls_kb_local_iv r = (if r = DTLS_CLIENT then dtls_kb_client_iv else dtls_kb_server_iv)"

definition prf_label_master :: "u8 list" where
  "prf_label_master = [109, 97, 115, 116, 101, 114, 32, 115, 101, 99, 114, 101, 116]"

definition prf_label_key :: "u8 list" where
  "prf_label_key = [107, 101, 121, 32, 101, 120, 112, 97, 110, 115, 105, 111, 110]"

text \<open>
  \<open>psk\<close> is what the callback \<open>get_psk_info\<close> returns and writes into the buffer of 32 bytes; \<open>mem\<close>
  gives the outcomes of the calls of \<open>malloc\<close>. The session is only passed to the callback.
\<close>

definition calculate_key_block ::
  "(nat \<Rightarrow> bool) \<Rightarrow> int \<times> u8 list \<Rightarrow> dtls_handshake \<Rightarrow> dtls_peer \<Rightarrow> (int \<times> dtls_handshake \<times> dtls_peer) option"
where
  "calculate_key_block mem psk h p = do {
     p \<leftarrow> dtls_security_params_next (mem 0) p;
     case sec1 p of
       None \<Rightarrow> Some (dtls_alert_fatal_create DTLS_ALERT_INTERNAL_ERROR, h, p)
     | Some s \<Rightarrow>
         (case hcipher h of
            TLS_PSK_WITH_AES_128_CCM_8 \<Rightarrow>
              if fst psk < 0 then Some (fst psk, h, p)
              else do {
                (pre_len, kb) \<leftarrow> dtls_psk_pre_master_secret (snd psk) (nat (fst psk)) (kblock s) MAX_KEYBLOCK_LENGTH;
                let p = p\<lparr>sec1 := Some (s\<lparr>kblock := kb\<rparr>)\<rparr>;
                if pre_len < 0 then Some (dtls_alert_fatal_create DTLS_ALERT_INTERNAL_ERROR, h, p)
                else do {
                  pre \<leftarrow> slice kb 0 (nat pre_len);
                  client \<leftarrow> slice (tmp h) 0 32;
                  server \<leftarrow> slice (tmp h) 32 32;
                  (n, ms) \<leftarrow> dtls_prf (mem 1) (mem 2) (Some pre) (Some prf_label_master) (Some client) (Some server) (replicate 48 0) 48;
                  (n, kb) \<leftarrow> dtls_prf (mem 3) (mem 4) (Some ms) (Some prf_label_key) (Some server) (Some client) kb dtls_kb_size;
                  t \<leftarrow> mcopy (tmp h) 0 ms 0 48;
                  Some (0, h\<lparr>tmp := t\<rparr>, p\<lparr>sec1 := Some (s\<lparr>kblock := kb, scipher := hcipher h, rseq := 0\<rparr>)\<rparr>)
                }
              }
          | _ \<Rightarrow> Some (dtls_alert_fatal_create DTLS_ALERT_INTERNAL_ERROR, h, p))
   }"

section \<open>Records\<close>

definition is_record :: "u8 list \<Rightarrow> nat \<Rightarrow> nat option" where
  "is_record msg msglen =
     (if msglen \<ge> DTLS_RH_LENGTH then do {
        a \<leftarrow> rd msg 1;
        b \<leftarrow> rd msg 2;
        if a = 0xfe \<and> b = 0xfd then do {
          n \<leftarrow> dtls_uint16_to_int msg 11;
          let rlen = DTLS_RH_LENGTH + unat n;
          Some (if rlen > msglen then 0 else rlen)
        } else Some 0
      } else Some 0)"

definition dtls_set_record_header ::
  "u8 \<Rightarrow> dtls_security option \<Rightarrow> u8 list \<Rightarrow> (u8 list \<times> dtls_security option) option"
where
  "dtls_set_record_header type security buf = do {
     buf \<leftarrow> dtls_int_to_uint8 buf 0 type;
     buf \<leftarrow> dtls_int_to_uint16 buf 1 DTLS_VERSION;
     (buf, security) \<leftarrow> (case security of
         Some s \<Rightarrow> do {
           buf \<leftarrow> dtls_int_to_uint16 buf 3 (epoch s);
           buf \<leftarrow> dtls_int_to_uint48 buf 5 (rseq s);
           Some (buf, Some (s\<lparr>rseq := rseq s + 1\<rparr>))
         }
       | None \<Rightarrow> do { buf \<leftarrow> mset_at buf 3 0 8; Some (buf, None) });
     buf \<leftarrow> mset_at buf 11 0 2;
     Some (buf, security)
   }"

text \<open>The copy of the data: \<open>None\<close> inside is \<open>send buffer too small\<close>.\<close>

fun copy_data :: "nat \<Rightarrow> nat \<Rightarrow> nat \<Rightarrow> u8 list list \<Rightarrow> u8 list \<Rightarrow> (u8 list \<times> nat option) option" where
  "copy_data rlen p res [] buf = Some (buf, Some res)"
| "copy_data rlen p res (d # ds) buf =
     (if rlen < res + DTLS_RH_LENGTH + length d then Some (buf, None)
      else do { buf \<leftarrow> mcopy buf p d 0 (length d); copy_data rlen (p + length d) (res + length d) ds buf })"

text \<open>The two branches of \<open>dtls_prepare_record\<close> behind the header.\<close>

definition plain_record ::
  "rijndael_ctx \<Rightarrow> dtls_security option \<Rightarrow> u8 list list \<Rightarrow> u8 list \<Rightarrow> nat \<Rightarrow> (int \<times> u8 list \<times> nat \<times> dtls_security option \<times> rijndael_ctx) option"
where
  "plain_record ctx security data_array buf rlen = do {
     (buf, res) \<leftarrow> copy_data rlen 13 0 data_array buf;
     case res of
       None \<Rightarrow> Some (dtls_alert_fatal_create DTLS_ALERT_INTERNAL_ERROR, buf, rlen, security, ctx)
     | Some res \<Rightarrow> do {
         buf \<leftarrow> dtls_int_to_uint16 buf 11 (of_nat res);
         Some (0, buf, DTLS_RH_LENGTH + res, security, ctx)
       }
   }"

definition ccm_record ::
  "rijndael_ctx \<Rightarrow> dtls_peer_type \<Rightarrow> dtls_security \<Rightarrow> u8 list list \<Rightarrow> u8 list \<Rightarrow> nat \<Rightarrow> (int \<times> u8 list \<times> nat \<times> dtls_security option \<times> rijndael_ctx) option"
where
  "ccm_record ctx r s data_array buf rlen = do {
     e \<leftarrow> slice buf 3 8;
     buf \<leftarrow> mcopy buf 13 e 0 8;
     (buf, res) \<leftarrow> copy_data rlen (13 + 8) 8 data_array buf;
     case res of
       None \<Rightarrow> Some (dtls_alert_fatal_create DTLS_ALERT_INTERNAL_ERROR, buf, rlen, Some s, ctx)
     | Some res \<Rightarrow> do {
         iv \<leftarrow> slice (kblock s) (dtls_kb_local_iv r) 4;
         nonce \<leftarrow> mcopy (replicate 16 0) 0 iv 0 4;
         e \<leftarrow> slice buf 13 8;
         nonce \<leftarrow> mcopy nonce 4 e 0 8;
         e \<leftarrow> slice buf 3 8;
         a \<leftarrow> mcopy (replicate 13 0) 0 e 0 8;
         e \<leftarrow> slice buf 0 3;
         a \<leftarrow> mcopy a 8 e 0 3;
         a \<leftarrow> dtls_int_to_uint16 a 11 (of_nat (res - 8));
         (ret, b, ctx) \<leftarrow> dtls_encrypt ctx None (res - 8) (drop 21 buf) nonce (drop (dtls_kb_local_write_key r) (kblock s)) 16 a 13;
         let buf = take 21 buf @ b;
         if ret < 0 then Some (ret, buf, rlen, Some s, ctx)
         else do {
           let res = nat ret + 8;
           buf \<leftarrow> dtls_int_to_uint16 buf 11 (of_nat res);
           Some (0, buf, DTLS_RH_LENGTH + res, Some s, ctx)
         }
       }
   }"

definition dtls_prepare_record ::
  "rijndael_ctx \<Rightarrow> dtls_peer_type \<Rightarrow> dtls_security option \<Rightarrow> u8 \<Rightarrow> u8 list list \<Rightarrow> u8 list \<Rightarrow> nat \<Rightarrow>
   (int \<times> u8 list \<times> nat \<times> dtls_security option \<times> rijndael_ctx) option"
where
  "dtls_prepare_record ctx r security type data_array buf rlen =
     (if rlen < DTLS_RH_LENGTH then Some (dtls_alert_fatal_create DTLS_ALERT_INTERNAL_ERROR, buf, rlen, security, ctx)
      else do {
        (buf, security) \<leftarrow> dtls_set_record_header type security buf;
        case security of
          Some s \<Rightarrow> if scipher s = TLS_NULL_WITH_NULL_NULL then plain_record ctx (Some s) data_array buf rlen
                    else ccm_record ctx r s data_array buf rlen
        | None \<Rightarrow> plain_record ctx None data_array buf rlen
      })"

text \<open>The length of the clear text, its offset in the packet, the packet, the peer and the context.\<close>

definition decrypt_verify ::
  "rijndael_ctx \<Rightarrow> dtls_peer \<Rightarrow> u8 list \<Rightarrow> nat \<Rightarrow> (int \<times> nat \<times> u8 list \<times> dtls_peer \<times> rijndael_ctx) option"
where
  "decrypt_verify ctx p packet n = do {
     e \<leftarrow> dtls_uint16_to_int packet 3;
     let clen = int n - int DTLS_RH_LENGTH;
     case dtls_security_params_epoch p e of
       None \<Rightarrow> Some (- 1, 13, packet, p, ctx)
     | Some s \<Rightarrow>
         if scipher s = TLS_NULL_WITH_NULL_NULL then Some (clen, 13, packet, p, ctx)
         else if clen < 16 then Some (- 1, 13, packet, p, ctx)
         else do {
           iv \<leftarrow> slice (kblock s) (dtls_kb_remote_iv (role p)) 4;
           nonce \<leftarrow> mcopy (replicate 16 0) 0 iv 0 4;
           e \<leftarrow> slice packet 13 8;
           nonce \<leftarrow> mcopy nonce 4 e 0 8;
           let clen = clen - 8;
           e \<leftarrow> slice packet 3 8;
           a \<leftarrow> mcopy (replicate 13 0) 0 e 0 8;
           e \<leftarrow> slice packet 0 3;
           a \<leftarrow> mcopy a 8 e 0 3;
           a \<leftarrow> dtls_int_to_uint16 a 11 (word_of_int (clen - 8));
           (ret, b, ctx) \<leftarrow> dtls_decrypt ctx None (nat clen) (drop 21 packet) nonce (drop (dtls_kb_remote_write_key (role p)) (kblock s)) 16 a 13;
           let packet = take 21 packet @ b;
           if ret < 0 then Some (ret, 21, packet, p, ctx)
           else Some (ret, 21, packet, dtls_security_params_free_other p, ctx)
         }
   }"

section \<open>The wire format of a protected record\<close>

definition epoch_seq :: "dtls_security \<Rightarrow> u8 list" where
  "epoch_seq s = be_bytes 2 (ucast (epoch s)) @ be_bytes 6 (rseq s)"

definition u16_bytes :: "nat \<Rightarrow> u8 list" where
  "u16_bytes n = be_bytes 2 (ucast (of_nat n :: u16))"

definition sealed_body :: "u8 list \<Rightarrow> u8 list \<Rightarrow> u8 list \<Rightarrow> u8 \<Rightarrow> u8 list \<Rightarrow> u8 list" where
  "sealed_body key iv es type m =
     rfc_ccm (aes128 key) 8 3 (iv @ es @ replicate 4 0) (es @ [type, 0xfe, 0xfd] @ u16_bytes (length m)) m"

definition sealed :: "dtls_peer_type \<Rightarrow> dtls_security \<Rightarrow> u8 \<Rightarrow> u8 list \<Rightarrow> u8 list" where
  "sealed r s type m = [type, 0xfe, 0xfd] @ epoch_seq s @ u16_bytes (16 + length m) @ epoch_seq s @
     sealed_body (drop (dtls_kb_local_write_key r) (kblock s)) (take 4 (drop (dtls_kb_local_iv r) (kblock s))) (epoch_seq s) type m"

lemma length_epoch_seq [simp]: "length (epoch_seq s) = 8"
  by (simp add: epoch_seq_def)

lemma length_u16_bytes [simp]: "length (u16_bytes n) = 2"
  by (simp add: u16_bytes_def)

lemma be_bytes_1: "be_bytes 1 w = [ucast w]" "be_bytes (Suc 0) w = [ucast w]"
  by simp_all

lemma version_bytes: "be_bytes 2 (ucast DTLS_VERSION) = [0xfe, 0xfd]"
  by code_simp

lemma byte_word_byte: "ucast (ucast (b :: u8) :: u64) = b"
  by (rule bit_word_eqI) (auto simp: bit_simps)

lemma set_header_val:
  assumes "13 \<le> length buf"
  shows "dtls_set_record_header type (Some s) buf =
    Some ([type, 0xfe, 0xfd] @ epoch_seq s @ [0, 0] @ drop 13 buf, Some (s\<lparr>rseq := rseq s + 1\<rparr>))"
proof -
  define b1 where "b1 = put_at buf 0 [type]"
  define b2 where "b2 = put_at b1 1 [0xfe, 0xfd]"
  define b3 where "b3 = put_at b2 3 (be_bytes 2 (ucast (epoch s)))"
  define b4 where "b4 = put_at b3 5 (be_bytes 6 (rseq s))"
  define b5 where "b5 = put_at b4 11 (replicate 2 0)"
  have l: "length b1 = length buf" "length b2 = length buf" "length b3 = length buf" "length b4 = length buf"
    using assms by (simp_all add: b1_def b2_def b3_def b4_def)
  have "dtls_int_to_uint8 buf 0 type = Some b1" "dtls_int_to_uint16 b1 1 DTLS_VERSION = Some b2"
    "dtls_int_to_uint16 b2 3 (epoch s) = Some b3" "dtls_int_to_uint48 b3 5 (rseq s) = Some b4" "mset_at b4 11 0 2 = Some b5"
    using assms l unfolding b1_def [symmetric]
    by (simp_all only: int_to_uint_val mset_at_in version_bytes be_bytes_1) (simp_all add: b1_def b2_def b3_def b4_def b5_def int_to_uint_val mset_at_in version_bytes byte_word_byte)
  moreover have "b5 = put_at buf 0 ([type, 0xfe, 0xfd] @ epoch_seq s @ replicate 2 0)"
    using assms unfolding b5_def b4_def b3_def b2_def b1_def by (simp add: put_at_put_at epoch_seq_def)
  moreover have "replicate 2 (0 :: u8) = [0, 0]" by (simp add: numeral_2_eq_2)
  ultimately show ?thesis using assms unfolding dtls_set_record_header_def by (simp add: put_at_def)
qed

lemma copy_data_ok:
  "res + 13 + length (concat ds) \<le> rlen \<Longrightarrow> rlen \<le> length buf \<Longrightarrow> p = 13 + res \<Longrightarrow>
   copy_data rlen p res ds buf = Some (put_at buf p (concat ds), Some (res + length (concat ds)))"
proof (induction ds arbitrary: p res buf)
  case (Cons d ds)
  then show ?case using Cons.IH [of "res + length d" "put_at buf p d" "p + length d"] by (simp add: mcopy_in put_at_put_at add.assoc)
qed simp

lemma kb_ranges: "dtls_kb_local_iv r + 4 \<le> 40" "dtls_kb_local_write_key r + 16 \<le> 40" "dtls_kb_remote_iv r + 4 \<le> 40" "dtls_kb_remote_write_key r + 16 \<le> 40"
  by (cases r; simp add: dtls_kb_local_iv_def dtls_kb_local_write_key_def dtls_kb_remote_iv_def dtls_kb_remote_write_key_def
    dtls_kb_client_iv_def dtls_kb_server_iv_def dtls_kb_client_write_key_def dtls_kb_server_write_key_def)+

lemma length_sealed_body [simp]: "length iv = 4 \<Longrightarrow> length es = 8 \<Longrightarrow> length (sealed_body key iv es type m) = length m + 8"
  unfolding sealed_body_def by (subst rfc_ccm_length) simp_all

lemma length_sealed [simp]: "length (kblock s) = 40 \<Longrightarrow> length (sealed r s type m) = 29 + length m"
  using kb_ranges [of r] by (simp add: sealed_def)

text \<open>The nonce and the additional data as the code puts them together.\<close>

lemma nonce_val:
  assumes "length iv = 4" "length es = 8"
  shows "mcopy (replicate 16 0) 0 iv 0 4 = Some (iv @ replicate 12 0)" "mcopy (iv @ replicate 12 0) 4 es 0 8 = Some (iv @ es @ replicate 4 0)"
  using assms by (simp_all add: mcopy_in put_at_def)

lemma aad_val:
  assumes "length es = 8" "length h = 3"
  shows "mcopy (replicate 13 0) 0 es 0 8 = Some (es @ replicate 5 0)" "mcopy (es @ replicate 5 0) 8 h 0 3 = Some (es @ h @ replicate 2 0)"
    "dtls_int_to_uint16 (es @ h @ replicate 2 0) 11 v = Some (es @ h @ be_bytes 2 (ucast v))"
  using assms by (simp_all add: mcopy_in put_at_def int_to_uint_val)

text \<open>Accesses to a buffer that is a concatenation of its parts.\<close>

lemma slice_part: "length a = p \<Longrightarrow> length b = n \<Longrightarrow> slice (a @ b @ c) p n = Some b"
  by (auto simp: slice_in)

lemma mcopy_part: "length a = p \<Longrightarrow> length b' = n \<Longrightarrow> length b = n \<Longrightarrow> mcopy (a @ b @ c) p b' 0 n = Some (a @ b' @ c)"
  by (auto simp: mcopy_in put_at_def)

lemma put_part: "length a = p \<Longrightarrow> length b' = length b \<Longrightarrow> put_at (a @ b @ c) p b' = a @ b' @ c"
  by (auto simp: put_at_def)

lemma uint16_part: "length a = p \<Longrightarrow> length b = 2 \<Longrightarrow> dtls_int_to_uint16 (a @ b @ c) p v = Some (a @ be_bytes 2 (ucast v) @ c)"
  by (simp add: int_to_uint_val put_part)

lemma split_buffer: "n \<le> length xs \<Longrightarrow> \<exists>a b. xs = a @ b \<and> length a = n"
  by (metis append_take_drop_id length_take min.absorb2)

lemma split_record:
  assumes "16 + n \<le> length b"
  shows "\<exists>x y tg w. b = x @ y @ tg @ w \<and> length x = 8 \<and> length y = n \<and> length tg = 8"
proof -
  obtain x b1 where 1: "b = x @ b1" "length x = 8" using split_buffer [of 8 b] assms by auto
  obtain y b2 where 2: "b1 = y @ b2" "length y = n" using split_buffer [of n b1] assms 1 by auto
  obtain tg w where 3: "b2 = tg @ w" "length tg = 8" using split_buffer [of 8 b2] assms 1 2 by auto
  show ?thesis using 1 2 3 by blast
qed

lemma ccm_record_val:
  assumes "fresh_ctx ctx" "length (kblock s) = 40" "length hd3 = 3" "length es = 8" "length z = 2" "hd3 = [type, 0xfe, 0xfd]"
    "length x = 8" "length y = length (concat ds)" "length tg = 8" "rlen \<le> 29 + length (concat ds) + length w" "21 + length (concat ds) \<le> rlen"
  shows "\<exists>c1. ccm_record ctx r s ds (hd3 @ es @ z @ x @ y @ tg @ w) rlen = Some (0, hd3 @ es @ u16_bytes (16 + length (concat ds)) @ es @
      sealed_body (drop (dtls_kb_local_write_key r) (kblock s)) (take 4 (drop (dtls_kb_local_iv r) (kblock s))) es type (concat ds) @ w,
      29 + length (concat ds), Some s, c1) \<and> fresh_ctx c1"
proof -
  define m where "m = concat ds"
  define iv where "iv = take 4 (drop (dtls_kb_local_iv r) (kblock s))"
  define key where "key = drop (dtls_kb_local_write_key r) (kblock s)"
  have len: "length iv = 4" "16 \<le> length key" "length y = length m"
    using assms(2,8) kb_ranges [of r] by (simp_all add: iv_def key_def m_def)
  have 1: "slice (hd3 @ es @ z @ x @ y @ tg @ w) 3 8 = Some es"
    using assms(3,4) by (intro slice_part) simp_all
  have 2: "mcopy (hd3 @ es @ z @ x @ y @ tg @ w) 13 es 0 8 = Some (hd3 @ es @ z @ es @ y @ tg @ w)"
    using assms(3-5,7) mcopy_part [of "hd3 @ es @ z" 13 es 8 x "y @ tg @ w"] by simp
  have 3: "copy_data rlen (13 + 8) 8 ds (hd3 @ es @ z @ es @ y @ tg @ w) = Some (hd3 @ es @ z @ es @ m @ tg @ w, Some (8 + length m))"
  proof -
    have "length (hd3 @ es @ z @ es @ y @ tg @ w) = 29 + length m + length w" using assms(3-5,9) len(3) by simp
    then have l: "rlen \<le> length (hd3 @ es @ z @ es @ y @ tg @ w)" using assms(10) by (simp add: m_def)
    have "length (hd3 @ es @ z @ es) = 21" using assms(3-5) by simp
    from put_part [OF this len(3) [symmetric], of "tg @ w"]
    have p: "put_at (hd3 @ es @ z @ es @ y @ tg @ w) 21 m = hd3 @ es @ z @ es @ m @ tg @ w" by simp
    have "8 + 13 + length (concat ds) \<le> rlen" using assms(11) by simp
    from copy_data_ok [OF this l, of 21] show ?thesis unfolding m_def [symmetric] p by simp
  qed
  have 4: "slice (kblock s) (dtls_kb_local_iv r) 4 = Some iv" using assms(2) kb_ranges [of r] by (simp add: iv_def slice_in)
  have 5: "slice (hd3 @ es @ z @ es @ m @ tg @ w) 13 8 = Some es" "slice (hd3 @ es @ z @ es @ m @ tg @ w) 3 8 = Some es" "slice (hd3 @ es @ z @ es @ m @ tg @ w) 0 3 = Some hd3"
    using assms(3-5) slice_part [of "hd3 @ es @ z" 13 es 8 "m @ tg @ w"] slice_part [of hd3 3 es 8 "z @ es @ m @ tg @ w"] slice_part [of "[]" 0 hd3 3 "es @ z @ es @ m @ tg @ w"]
    by simp_all
  have 6: "drop 21 (hd3 @ es @ z @ es @ m @ tg @ w) = m @ tg @ w" "take 21 (hd3 @ es @ z @ es @ m @ tg @ w) = hd3 @ es @ z @ es"
    using assms(3-5) by simp_all
  have nn: "13 \<le> length (iv @ es @ replicate 4 0)" "13 \<le> length (es @ hd3 @ u16_bytes (length m))" "length m + 8 \<le> length (m @ tg @ w)"
    using assms(3,4,9) len by simp_all
  obtain k1 where k1: "dtls_encrypt ctx None (length m) (m @ tg @ w) (iv @ es @ replicate 4 0) key 16 (es @ hd3 @ u16_bytes (length m)) 13 =
      Some (int (length m) + 8, put_at (m @ tg @ w) 0 (rfc_ccm (aes128 key) 8 3 (iv @ es @ replicate 4 0) (take 13 (es @ hd3 @ u16_bytes (length m))) (take (length m) (m @ tg @ w))), k1)" "fresh_ctx k1"
    using dtls_encrypt_val [OF assms(1) len(2) nn] by blast
  have aad: "take 13 (es @ hd3 @ u16_bytes (length m)) = es @ [type, 0xfe, 0xfd] @ u16_bytes (length m)" using assms(3,4,6) by simp
  have body: "put_at (m @ tg @ w) 0 (sealed_body key iv es type m) = sealed_body key iv es type m @ w"
    using len assms(4,9) by (simp add: put_at_def)
  have enc: "dtls_encrypt ctx None (length m) (m @ tg @ w) (iv @ es @ replicate 4 0) key 16 (es @ hd3 @ be_bytes 2 (ucast (of_nat (length m) :: u16))) 13 =
      Some (int (length m) + 8, sealed_body key iv es type m @ w, k1)"
    using k1(1) unfolding aad u16_bytes_def [symmetric] body [symmetric] by (simp add: sealed_body_def)
  have 7: "dtls_int_to_uint16 (hd3 @ es @ z @ es @ sealed_body key iv es type m @ w) 11 (of_nat (16 + length m)) =
      Some (hd3 @ es @ u16_bytes (16 + length m) @ es @ sealed_body key iv es type m @ w)"
    using uint16_part [of "hd3 @ es" 11 z "es @ sealed_body key iv es type m @ w" "of_nat (16 + length m)"] assms(3-5) by (simp add: u16_bytes_def)
  have n1: "nat (int (length m) + 8) + 8 = 16 + length m" by simp
  have "ccm_record ctx r s ds (hd3 @ es @ z @ x @ y @ tg @ w) rlen =
      Some (0, hd3 @ es @ u16_bytes (16 + length m) @ es @ sealed_body key iv es type m @ w, 13 + (16 + length m), Some s, k1)"
    unfolding ccm_record_def 1 2 3 bind.bind_lunit prod.case option.case 4 5 6 nonce_val [OF len(1) assms(4)] aad_val [OF assms(4,3)]
      diff_add_inverse key_def [symmetric] enc Let_def append_assoc n1 7
    by simp
  then show ?thesis using k1(2) unfolding m_def [symmetric] iv_def [symmetric] key_def [symmetric] by simp
qed

lemma prepare_val:
  assumes "fresh_ctx ctx" "length (kblock s) = 40" "scipher s \<noteq> TLS_NULL_WITH_NULL_NULL" "21 + length (concat ds) \<le> rlen" "rlen \<le> length buf" "29 + length (concat ds) \<le> length buf"
  shows "\<exists>c1. dtls_prepare_record ctx r (Some s) type ds buf rlen =
      Some (0, sealed r s type (concat ds) @ drop (29 + length (concat ds)) buf, 29 + length (concat ds), Some (s\<lparr>rseq := rseq s + 1\<rparr>), c1) \<and> fresh_ctx c1"
proof -
  define s1 where "s1 = s\<lparr>rseq := rseq s + 1\<rparr>"
  have s1: "kblock s1 = kblock s" "scipher s1 = scipher s" by (simp_all add: s1_def)
  obtain x y tg w where b: "drop 13 buf = x @ y @ tg @ w" "length x = 8" "length y = length (concat ds)" "length tg = 8"
    using split_record [of "length (concat ds)" "drop 13 buf"] assms(6) by (auto simp: le_diff_conv2)
  have w: "length buf = 29 + length (concat ds) + length w" using arg_cong [OF b(1), of length] assms(6) b(2-4) by simp
  have wd: "drop (29 + length (concat ds)) buf = w"
    using arg_cong [OF b(1), of "drop (16 + length (concat ds))"] b(2-4) by (simp add: add.commute)
  have hdr: "dtls_set_record_header type (Some s) buf = Some ([type, 0xfe, 0xfd] @ epoch_seq s @ [0, 0] @ x @ y @ tg @ w, Some s1)"
    using set_header_val [of buf type s] assms(6) unfolding b(1) s1_def by simp
  obtain c1 where c1: "ccm_record ctx r s1 ds ([type, 0xfe, 0xfd] @ epoch_seq s @ [0, 0] @ x @ y @ tg @ w) rlen =
      Some (0, sealed r s type (concat ds) @ w, 29 + length (concat ds), Some s1, c1)" "fresh_ctx c1"
    using ccm_record_val [of ctx s1 "[type, 0xfe, 0xfd]" "epoch_seq s" "[0, 0]" type x y ds tg rlen w r] assms b w s1 unfolding sealed_def by auto
  have "\<not> rlen < 13" using assms(4) by simp
  then have "dtls_prepare_record ctx r (Some s) type ds buf rlen = Some (0, sealed r s type (concat ds) @ w, 29 + length (concat ds), Some s1, c1)"
    unfolding dtls_prepare_record_def if_False hdr bind.bind_lunit prod.case option.case s1(2) using c1(1) assms(3) by simp
  then show ?thesis using c1(2) unfolding wd s1_def by blast
qed

end
