(* ===== verification/Dtls_Record_Laws.thy ===== *)
theory Dtls_Record_Laws
  imports Dtls_Record
begin

text \<open>
  What the record layer guarantees: a sealed record opens again on the other side, the key block is the one
  of the RFCs, and the space the send buffer lacks for the authentication tag.
\<close>

section \<open>Opening a protected record\<close>

lemma dtls_decrypt_val:
  assumes "fresh_ctx ctx" "16 \<le> length key" "13 \<le> length nonce" "la \<le> length aad"
  shows "\<exists>x c1. dtls_decrypt ctx None (length m + 8) (rfc_ccm (aes128 key) 8 3 nonce (take la aad) m @ w) nonce key 16 aad la =
      Some (int (length m), m @ x @ w, c1) \<and> length x = 8 \<and> fresh_ctx c1"
proof -
  define ct where "ct = rfc_ccm (aes128 key) 8 3 nonce (take la aad) m"
  have lct: "length ct = length m + 8" using rfc_ccm_length [of "aes128 key" 3 nonce 8] assms(3) by (simp add: ct_def)
  obtain c1 where c1: "rijndael_set_key_enc_only ctx key 128 = Some (0, c1)" "rijndael_encrypt c1 (replicate 16 0) (replicate 16 0) \<noteq> None"
    "\<And>b. length b = 16 \<Longrightarrow> ctx_cipher c1 b = aes128 key b" "fresh_ctx c1"
    using keyed [OF assms(1,2)] by blast
  define E where "E = ctx_cipher c1"
  define K where "K = rfc_key E 3 nonce"
  have cc: "rfc_ccm (aes128 key) 8 3 nonce a m = rfc_ccm E 8 3 nonce a m" for a m
    unfolding E_def using c1(3) assms(3) by (intro rfc_ccm_cong) simp_all
  have Kl: "length (K c) = 16" for c unfolding K_def E_def rfc_key_def using assms(3) by (intro rijndael.key_block_len) simp
  define tag where "tag = rfc_tag E 8 3 nonce (take la aad) m"
  have ct: "ct = ctr K 1 m @ tag" unfolding ct_def cc by (simp add: rfc_ccm_def K_def tag_def)
  have lc: "length (ctr K 1 m) = length m" by (simp add: length_ctr Kl)
  have lt: "length tag = 8" using lct lc by (simp add: ct)
  have m: "ctr K 1 (take (length m + 8 - 8) (ct @ w)) = m"
    using ctr_ctr [of K 1 m] Kl lc by (simp add: ct)
  have t: "take 8 (drop (length m + 8 - 8) (ct @ w)) = tag" using lc lt by (simp add: ct)
  define x where "x = xorl tag (take 8 (K 0))"
  have x: "length x = 8" using lt Kl by (simp add: x_def)
  have "dtls_ccm_decrypt_message E 8 3 nonce (ct @ w) (length m + 8) aad la = Some (int (length m), put_at (ct @ w) 0 (m @ x))"
    using rijndael.decrypt_message_val [of 3 nonce la aad 8 "length m + 8" "ct @ w" c1] assms(3,4) lct m t
    unfolding E_def [symmetric] K_def [symmetric] x_def tag_def by simp
  moreover have "put_at (ct @ w) 0 (m @ x) = m @ x @ w" using lct x by (simp add: put_at_def)
  ultimately have "dtls_decrypt ctx None (length m + 8) (ct @ w) nonce key 16 aad la = Some (int (length m), m @ x @ w, c1)"
    using c1(1,2) by (auto simp: dtls_decrypt_def dtls_ccm_decrypt_def E_def)
  then show ?thesis using x c1(4) unfolding ct_def by blast
qed

lemma uint16_read: "length a = p \<Longrightarrow> dtls_uint16_to_int (a @ be_bytes 2 (ucast v) @ c) p = Some v"
  by (simp add: uint_to_int_val be_val_be_bytes ucast_take_bit)

lemma local_remote:
  assumes "r \<noteq> r'"
  shows "dtls_kb_remote_write_key r' = dtls_kb_local_write_key r" "dtls_kb_remote_iv r' = dtls_kb_local_iv r"
  using assms by (cases r; cases r'; simp add: dtls_kb_remote_write_key_def dtls_kb_local_write_key_def dtls_kb_remote_iv_def dtls_kb_local_iv_def)+

lemma decrypt_verify_val:
  assumes "fresh_ctx ctx" "dtls_security_params_epoch p (epoch s) = Some s'" "kblock s' = kblock s" "length (kblock s) = 40"
    "scipher s' \<noteq> TLS_NULL_WITH_NULL_NULL" "role p \<noteq> r"
  shows "\<exists>x c1. decrypt_verify ctx p (sealed r s type m @ w) (29 + length m) =
      Some (int (length m), 21, take 21 (sealed r s type m) @ m @ x @ w, dtls_security_params_free_other p, c1) \<and> fresh_ctx c1"
proof -
  define es where "es = epoch_seq s"
  define z where "z = u16_bytes (16 + length m)"
  define iv where "iv = take 4 (drop (dtls_kb_local_iv r) (kblock s))"
  define key where "key = drop (dtls_kb_local_write_key r) (kblock s)"
  define body where "body = sealed_body key iv es type m"
  define h where "h = [type, 0xfe, 0xfd]"
  have len: "length iv = 4" "16 \<le> length key" "length es = 8" "length z = 2" "length h = 3"
    using assms(4) kb_ranges [of r] by (simp_all add: iv_def key_def es_def z_def h_def)
  have lb: "length body = length m + 8" using len by (simp add: body_def)
  have pkt: "sealed r s type m = h @ es @ z @ es @ body"
    by (simp add: sealed_def es_def z_def iv_def key_def body_def h_def)
  have rd3: "dtls_uint16_to_int (h @ es @ z @ es @ body @ w) 3 = Some (epoch s)"
    using uint16_read [of h 3 "epoch s" "be_bytes 6 (rseq s) @ z @ es @ body @ w"] len by (simp add: es_def epoch_seq_def)
  have iv: "slice (kblock s) (dtls_kb_local_iv r) 4 = Some iv" using assms(4) kb_ranges [of r] by (simp add: iv_def slice_in)
  have sl: "slice (h @ es @ z @ es @ body @ w) 13 8 = Some es" "slice (h @ es @ z @ es @ body @ w) 3 8 = Some es" "slice (h @ es @ z @ es @ body @ w) 0 3 = Some h"
    using len slice_part [of "h @ es @ z" 13 es 8 "body @ w"] slice_part [of h 3 es 8 "z @ es @ body @ w"] slice_part [of "[]" 0 h 3 "es @ z @ es @ body @ w"]
    by simp_all
  have cut: "drop 21 (h @ es @ z @ es @ body @ w) = body @ w" "take 21 (h @ es @ z @ es @ body @ w) = h @ es @ z @ es"
    using len by simp_all
  have n: "int (29 + length m) - int 13 - 8 - 8 = int (length m)" "nat (int (29 + length m) - int 13 - 8) = length m + 8"
    "\<not> int (29 + length m) - int 13 < 16" by simp_all
  define a where "a = es @ h @ be_bytes 2 (ucast (word_of_int (int (length m)) :: u16))"
  have a: "length a = 13" "a = es @ [type, 0xfe, 0xfd] @ u16_bytes (length m)" using len by (simp_all add: a_def h_def u16_bytes_def)
  have nn: "13 \<le> length (iv @ es @ replicate 4 0)" "13 \<le> length a" using len a by simp_all
  obtain x c1 where d: "dtls_decrypt ctx None (length m + 8) (body @ w) (iv @ es @ replicate 4 0) key 16 a 13 = Some (int (length m), m @ x @ w, c1)"
    "fresh_ctx c1"
    using dtls_decrypt_val [OF assms(1) len(2) nn, of m w] a by (auto simp: body_def sealed_body_def)
  have "decrypt_verify ctx p (h @ es @ z @ es @ body @ w) (29 + length m) =
      Some (int (length m), 21, (h @ es @ z @ es) @ m @ x @ w, dtls_security_params_free_other p, c1)"
    unfolding decrypt_verify_def rd3 bind.bind_lunit prod.case option.case assms(2,3) local_remote [OF assms(6) [symmetric]] iv sl Let_def n cut if_False
      nonce_val [OF len(1,3)] aad_val [OF len(3,5)] key_def [symmetric] a_def [symmetric] d
    using assms(5) by simp
  then show ?thesis using d(2) cut(2) len unfolding pkt by auto
qed

lemma is_record_val:
  assumes "16 + length m < 65536" "length (kblock s) = 40" "29 + length m + length w \<le> n"
  shows "is_record (sealed r s type m @ w) n = Some (29 + length m)"
proof -
  have "dtls_uint16_to_int (sealed r s type m @ w) 11 = Some (of_nat (16 + length m))"
    using uint16_read [of "[type, 0xfe, 0xfd] @ epoch_seq s" 11 "of_nat (16 + length m)"] by (simp add: sealed_def u16_bytes_def)
  moreover have "rd (sealed r s type m @ w) 1 = Some 0xfe" "rd (sealed r s type m @ w) 2 = Some 0xfd"
    using assms(2) by (simp_all add: sealed_def)
  moreover have "unat (of_nat (16 + length m) :: u16) = 16 + length m" using assms(1) by (simp only: unat_of_nat) simp
  ultimately show ?thesis using assms(3) by (simp add: is_record_def)
qed

section \<open>Sealing and opening\<close>

text \<open>
  C5. A record that \<open>dtls_prepare_record\<close> seals for application data under a PSK or ECDHE cipher suite is
  recognised by the other side's \<open>is_record\<close> at its full length, and \<open>decrypt_verify\<close> of a peer of the
  opposite role that holds the same key block under that epoch finds the data again at offset 21;
  the sequence number is one higher afterwards.
\<close>
theorem record_roundtrip:
  assumes "fresh_ctx ctx" "fresh_ctx ctx'" "length (kblock s) = 40" "scipher s \<noteq> TLS_NULL_WITH_NULL_NULL"
    and "length (concat ds) + 29 \<le> rlen" "rlen \<le> length buf" "length (concat ds) + 16 < 65536"
    and "dtls_security_params_epoch p (epoch s) = Some s'" "kblock s' = kblock s" "scipher s' = scipher s" "role p \<noteq> r"
  shows "\<exists>buf1 c1 packet c2. dtls_prepare_record ctx r (Some s) type ds buf rlen =
      Some (0, buf1, 29 + length (concat ds), Some (s\<lparr>rseq := rseq s + 1\<rparr>), c1) \<and>
    is_record buf1 (length buf1) = Some (29 + length (concat ds)) \<and>
    decrypt_verify ctx' p buf1 (29 + length (concat ds)) =
      Some (int (length (concat ds)), 21, packet, dtls_security_params_free_other p, c2) \<and>
    take (length (concat ds)) (drop 21 packet) = concat ds"
proof -
  define w where "w = drop (29 + length (concat ds)) buf"
  define buf1 where "buf1 = sealed r s type (concat ds) @ w"
  obtain c1 where c1: "dtls_prepare_record ctx r (Some s) type ds buf rlen = Some (0, buf1, 29 + length (concat ds), Some (s\<lparr>rseq := rseq s + 1\<rparr>), c1)"
    using prepare_val [of ctx s ds rlen buf r type] assms(1,3-6) le_trans [OF assms(5,6)] unfolding buf1_def w_def by (auto simp: add.commute)
  have 2: "is_record buf1 (length buf1) = Some (29 + length (concat ds))"
    unfolding buf1_def using assms(3,7) by (intro is_record_val) simp_all
  have "scipher s' \<noteq> TLS_NULL_WITH_NULL_NULL" using assms(4,10) by simp
  from decrypt_verify_val [OF assms(2,8,9,3) this assms(11), of type "concat ds" w]
  obtain x c2 where c2: "decrypt_verify ctx' p buf1 (29 + length (concat ds)) =
      Some (int (length (concat ds)), 21, take 21 (sealed r s type (concat ds)) @ concat ds @ x @ w, dtls_security_params_free_other p, c2)"
    unfolding buf1_def by blast
  have "take (length (concat ds)) (drop 21 (take 21 (sealed r s type (concat ds)) @ concat ds @ x @ w)) = concat ds"
    using assms(3) by simp
  then show ?thesis using c1 2 c2 by blast
qed

theorem record_roundtrip_witness:
  "\<exists>buf1 c1 packet c2. dtls_prepare_record blank_ctx DTLS_CLIENT
      (Some \<lparr>scipher = TLS_PSK_WITH_AES_128_CCM_8, epoch = 1, rseq = 0, kblock = replicate 40 7\<rparr>) 23 [[1, 2], [3]] (replicate 128 0) 128 =
      Some (0, buf1, 32, Some \<lparr>scipher = TLS_PSK_WITH_AES_128_CCM_8, epoch = 1, rseq = 1, kblock = replicate 40 7\<rparr>, c1) \<and>
    decrypt_verify blank_ctx \<lparr>role = DTLS_SERVER, sec0 = Some \<lparr>scipher = TLS_PSK_WITH_AES_128_CCM_8, epoch = 1, rseq = 9, kblock = replicate 40 7\<rparr>, sec1 = None\<rparr>
      buf1 32 = Some (3, 21, packet, \<lparr>role = DTLS_SERVER, sec0 = Some \<lparr>scipher = TLS_PSK_WITH_AES_128_CCM_8, epoch = 1, rseq = 9, kblock = replicate 40 7\<rparr>, sec1 = None\<rparr>, c2) \<and>
    take 3 (drop 21 packet) = [1, 2, 3]"
  using record_roundtrip [OF fresh_blank fresh_blank, of "\<lparr>scipher = TLS_PSK_WITH_AES_128_CCM_8, epoch = 1, rseq = 0, kblock = replicate 40 7\<rparr>"
      "[[1, 2], [3]]" 128 "replicate 128 0"
      "\<lparr>role = DTLS_SERVER, sec0 = Some \<lparr>scipher = TLS_PSK_WITH_AES_128_CCM_8, epoch = 1, rseq = 9, kblock = replicate 40 7\<rparr>, sec1 = None\<rparr>"
      "\<lparr>scipher = TLS_PSK_WITH_AES_128_CCM_8, epoch = 1, rseq = 9, kblock = replicate 40 7\<rparr>" DTLS_CLIENT 23]
  by (auto simp: dtls_security_params_epoch_def dtls_security_params_free_other_def numeral_3_eq_3)

section \<open>The send buffer\<close>

lemma memxor_length: "memxor n x p y q = Some z \<Longrightarrow> length z = length x"
proof (induction n x p y q arbitrary: z rule: memxor.induct)
  case (2 n x p y q)
  then show ?case by (fastforce simp: bind_eq_Some_conv wr_Some_iff)
qed simp

lemma encrypt_keeps_length: "encrypt E L c msg p n A S = Some (m, A', S') \<Longrightarrow> length m = length msg"
  by (auto simp: encrypt_def bind_eq_Some_conv dest: memxor_length)

lemma enc_loop_position:
  "enc_loop E L c msg p lm A B S X = Some (c', m, p', rest, A', B', S', X') \<Longrightarrow> length m = length msg \<and> p' + rest = p + lm"
proof (induction lm arbitrary: c msg p A B S X rule: less_induct)
  case (less lm)
  show ?case
  proof (cases "16 \<le> lm")
    case True
    obtain B1 X1 m1 A1 S1 where 1: "encrypt E L c msg p 16 A S = Some (m1, A1, S1)"
      "enc_loop E L (c + 1) m1 (p + 16) (lm - 16) A1 B1 S1 X1 = Some (c', m, p', rest, A', B', S', X')"
      using less.prems True by (subst (asm) enc_loop.simps) (auto simp: bind_eq_Some_conv)
    show ?thesis using less.IH [OF _ 1(2)] encrypt_keeps_length [OF 1(1)] True by simp
  next
    case False
    then show ?thesis using less.prems by (subst (asm) enc_loop.simps) simp
  qed
qed

lemma tag_loop_room: "tag_loop n i msg p X S = Some m \<Longrightarrow> 0 < n \<Longrightarrow> p + n \<le> length msg"
proof (induction n i msg p X S rule: tag_loop.induct)
  case (2 n i msg p X S)
  then show ?case by (cases n) (fastforce simp: bind_eq_Some_conv wr_Some_iff)+
qed simp

lemma encrypt_message_room:
  assumes "dtls_ccm_encrypt_message E M L nonce msg lm aad la = Some r" "0 < M"
  shows "lm + M \<le> length msg"
  using assms
  by (auto simp: dtls_ccm_encrypt_message_def bind_eq_Some_conv split: if_splits
      dest!: enc_loop_position encrypt_keeps_length tag_loop_room)

lemma dtls_encrypt_overflow:
  "rijndael_set_key_enc_only ctx key (int (8 * k)) = Some (0, c) \<Longrightarrow> length buf < n + 8 \<Longrightarrow> dtls_encrypt ctx None n buf nonce key k aad la = None"
  using encrypt_message_room [of "ctx_cipher c" 8 3 nonce buf n aad la]
  by (cases "dtls_ccm_encrypt_message (ctx_cipher c) 8 3 nonce buf n aad la")
    (auto simp: dtls_encrypt_def dtls_ccm_encrypt_def bind_eq_None_conv)

lemma ccm_record_overflow:
  assumes "fresh_ctx ctx" "length (kblock s) = 40" "8 + 13 + length (concat ds) \<le> rlen" "rlen \<le> length buf" "length buf < 29 + length (concat ds)"
  shows "ccm_record ctx r s ds buf rlen = None"
proof -
  define e where "e = take 8 (drop 3 buf)"
  define b1 where "b1 = put_at buf 13 e"
  define b2 where "b2 = put_at b1 21 (concat ds)"
  have l: "length e = 8" "length b1 = length buf" "length b2 = length buf" using assms(3,4) by (simp_all add: e_def b1_def b2_def)
  have "take 8 e = e" using l(1) by simp
  then have 1: "slice buf 3 8 = Some e" "mcopy buf 13 e 0 8 = Some b1"
    using assms(3,4) l(1) by (simp_all add: slice_in mcopy_in b1_def) (simp add: e_def)
  have 2: "copy_data rlen (13 + 8) 8 ds b1 = Some (b2, Some (8 + length (concat ds)))"
    using copy_data_ok [of 8 ds rlen b1 "13 + 8"] assms(3,4) l(2) unfolding b2_def by simp
  have "16 \<le> length (drop (dtls_kb_local_write_key r) (kblock s))" using assms(2) kb_ranges(2) [of r] by simp
  then obtain c where "rijndael_set_key_enc_only ctx (drop (dtls_kb_local_write_key r) (kblock s)) 128 = Some (0, c)"
    using keyed [OF assms(1)] by blast
  then have 3: "dtls_encrypt ctx None (8 + length (concat ds) - 8) (drop 21 b2) nonce (drop (dtls_kb_local_write_key r) (kblock s)) 16 a 13 = None" for nonce a
    using dtls_encrypt_overflow [of ctx _ 16 c "drop 21 b2"] assms(5) l by simp
  show ?thesis unfolding ccm_record_def 1 2 bind.bind_lunit prod.case option.case 3 by (simp only: bind.bind_lzero Option.bind_rzero)
qed

text \<open>
  C37. The size check of \<open>dtls_prepare_record\<close> counts the header, the explicit nonce and the data but not the
  eight bytes of the authentication tag: for data that leave less than eight bytes free the call is
  accepted and makes a record longer than the space it was given; when the buffer ends there, as
  \<open>sendbuf\<close> of \<open>dtls_send_multi\<close> does, the tag is written behind its end.
\<close>
theorem record_overflow:
  assumes "fresh_ctx ctx" "length (kblock s) = 40" "scipher s \<noteq> TLS_NULL_WITH_NULL_NULL"
    and "21 + length (concat ds) \<le> rlen" "rlen < 29 + length (concat ds)" "29 + length (concat ds) \<le> length buf"
  shows "(\<exists>b sec c. dtls_prepare_record ctx r (Some s) type ds buf rlen = Some (0, b, 29 + length (concat ds), sec, c)) \<and>
    dtls_prepare_record ctx r (Some s) type ds (take rlen buf) rlen = None"
proof
  have "rlen \<le> length buf" using assms(5,6) by simp
  from prepare_val [OF assms(1-4) this assms(6)]
  show "\<exists>b sec c. dtls_prepare_record ctx r (Some s) type ds buf rlen = Some (0, b, 29 + length (concat ds), sec, c)" by blast
  define s1 where "s1 = s\<lparr>rseq := rseq s + 1\<rparr>"
  define b where "b = [type, 0xfe, 0xfd] @ epoch_seq s @ [0, 0] @ drop 13 (take rlen buf)"
  have hdr: "dtls_set_record_header type (Some s) (take rlen buf) = Some (b, Some s1)"
    using set_header_val [of "take rlen buf" type s] assms(4) \<open>rlen \<le> length buf\<close> unfolding b_def s1_def by simp
  have l: "length b = rlen" using assms(4) \<open>rlen \<le> length buf\<close> by (simp add: b_def)
  have "ccm_record ctx r s1 ds b rlen = None"
    using assms l by (intro ccm_record_overflow) (simp_all add: s1_def)
  moreover have "\<not> rlen < 13" "scipher s1 \<noteq> TLS_NULL_WITH_NULL_NULL" using assms(3,4) by (simp_all add: s1_def)
  ultimately show "dtls_prepare_record ctx r (Some s) type ds (take rlen buf) rlen = None"
    unfolding dtls_prepare_record_def hdr bind.bind_lunit prod.case option.case by simp
qed

theorem record_overflow_witness:
  "dtls_prepare_record blank_ctx DTLS_CLIENT (Some \<lparr>scipher = TLS_PSK_WITH_AES_128_CCM_8, epoch = 1, rseq = 0, kblock = replicate 40 7\<rparr>)
     23 [replicate 100 1] (take 128 (replicate 129 0)) 128 = None"
  using record_overflow [OF fresh_blank, of "\<lparr>scipher = TLS_PSK_WITH_AES_128_CCM_8, epoch = 1, rseq = 0, kblock = replicate 40 7\<rparr>" "[replicate 100 1]" 128 "replicate 129 0" DTLS_CLIENT 23]
  by simp

section \<open>The key block\<close>

lemma dtls_prf_val:
  "buflen \<le> length buf \<Longrightarrow> dtls_prf True True (Some key) label r1 r2 buf buflen = Some (buflen, put_at buf 0 (P_SHA256 key (seed_bytes [label, r1, r2]) buflen))"
  using dtls_p_hash_val [of buflen "replicate buflen 0 @ drop buflen buf"]
  by (simp add: dtls_prf_def mset_at_in put_at_def length_P_SHA256)

text \<open>The pre-master secret of a preshared key (RFC 4279), and the keys derived from it (RFC 5246).\<close>

definition psk_premaster :: "u8 list \<Rightarrow> u8 list" where
  "psk_premaster k = u16_bytes (length k) @ replicate (length k) 0 @ u16_bytes (length k) @ k"

definition psk_master :: "u8 list \<Rightarrow> u8 list \<Rightarrow> u8 list \<Rightarrow> u8 list" where
  "psk_master k client server = P_SHA256 (psk_premaster k) (prf_label_master @ client @ server) 48"

definition psk_key_block :: "u8 list \<Rightarrow> u8 list \<Rightarrow> u8 list \<Rightarrow> u8 list" where
  "psk_key_block k client server = P_SHA256 (psk_master k client server) (prf_label_key @ server @ client) 40"

text \<open>
  C27. For a preshared key of at most 18 bytes \<open>calculate_key_block\<close> installs, under the next epoch, the key
  block that RFC 5246 derives from the pre-master secret of RFC 4279 and the two random values, which is
  the same on both sides, and keeps the master secret for the Finished messages. A longer key is refused
  with an internal error although the buffer it is read into and the callback allow 32 bytes.
\<close>
theorem key_block_derivation:
  assumes "sec0 p = Some s0" "hcipher h = TLS_PSK_WITH_AES_128_CCM_8" "length (tmp h) = 64" "n \<le> length psk" "n \<le> 32"
  shows "\<exists>h' p'. calculate_key_block (\<lambda>_. True) (int n, psk) h p = Some (if n \<le> 18 then 0 else - 592, h', p') \<and>
    (if n \<le> 18 then h' = h\<lparr>tmp := psk_master (take n psk) (take 32 (tmp h)) (drop 32 (tmp h)) @ drop 48 (tmp h)\<rparr> \<and>
       p' = p\<lparr>sec1 := Some \<lparr>scipher = TLS_PSK_WITH_AES_128_CCM_8, epoch = epoch s0 + 1, rseq = 0,
         kblock = psk_key_block (take n psk) (take 32 (tmp h)) (drop 32 (tmp h))\<rparr>\<rparr>
     else h' = h \<and> (\<exists>s. sec1 p' = Some s \<and> scipher s = TLS_NULL_WITH_NULL_NULL))"
proof -
  define s where "s = \<lparr>scipher = TLS_NULL_WITH_NULL_NULL, epoch = epoch s0 + 1, rseq = 0, kblock = replicate 40 0\<rparr>"
  define p1 where "p1 = p\<lparr>sec1 := Some s\<rparr>"
  define k where "k = take n psk"
  define cl where "cl = take 32 (tmp h)"
  define sv where "sv = drop 32 (tmp h)"
  have next1: "dtls_security_params_next True p = Some p1" using assms(1) by (simp add: dtls_security_params_next_def dtls_security_new_def p1_def s_def)
  have s1: "sec1 p1 = Some s" by (simp add: p1_def)
  have k: "length k = n" using assms(4) by (simp add: k_def)
  have neg: "\<not> int n < 0" by simp
  show ?thesis
  proof (cases "n \<le> 18")
    case True
    have pre: "dtls_psk_pre_master_secret psk n (kblock s) 40 = Some (int (4 + 2 * n), put_at (replicate 40 0) 0 (psk_premaster k))"
      using pre_master_val [of n psk "kblock s" 40] True assms(4) k by (simp add: s_def psk_premaster_def u16_bytes_def k_def [symmetric])
    define kb where "kb = put_at (replicate 40 (0 :: u8)) 0 (psk_premaster k)"
    have lp: "length (psk_premaster k) = 4 + 2 * n" using k by (simp add: psk_premaster_def)
    have kb: "length kb = 40" "slice kb 0 (4 + 2 * n) = Some (psk_premaster k)"
      using True lp by (simp_all add: kb_def slice_in put_at_def)
    have sl: "slice (tmp h) 0 32 = Some cl" "slice (tmp h) 32 32 = Some sv" using assms(3) by (simp_all add: slice_in cl_def sv_def)
    have m: "dtls_prf True True (Some (psk_premaster k)) (Some prf_label_master) (Some cl) (Some sv) (replicate 48 0) 48 = Some (48, psk_master k cl sv)"
      using dtls_prf_val [of 48 "replicate 48 0"] by (simp add: psk_master_def seed_bytes_def put_at_def length_P_SHA256)
    have b: "dtls_prf True True (Some (psk_master k cl sv)) (Some prf_label_key) (Some sv) (Some cl) kb 40 = Some (40, psk_key_block k cl sv)"
      using dtls_prf_val [of 40 kb] kb by (simp add: psk_key_block_def seed_bytes_def put_at_def length_P_SHA256)
    have t: "mcopy (tmp h) 0 (psk_master k cl sv) 0 48 = Some (psk_master k cl sv @ drop 48 (tmp h))"
      using assms(3) by (simp add: mcopy_in put_at_def psk_master_def length_P_SHA256)
    have nn: "\<not> int (4 + 2 * n) < 0" "nat (int (4 + 2 * n)) = 4 + 2 * n" "dtls_kb_size = 40" by (simp_all add: dtls_kb_size_def)
    have "calculate_key_block (\<lambda>_. True) (int n, psk) h p = Some (0, h\<lparr>tmp := psk_master k cl sv @ drop 48 (tmp h)\<rparr>,
        p1\<lparr>sec1 := Some (s\<lparr>kblock := psk_key_block k cl sv, scipher := TLS_PSK_WITH_AES_128_CCM_8, rseq := 0\<rparr>)\<rparr>)"
      unfolding calculate_key_block_def next1 s1 bind.bind_lunit prod.case option.case assms(2) dtls_cipher.case fst_conv snd_conv neg if_False nat_int
        pre kb_def [symmetric] Let_def nn kb sl m b t dtls_peer.update_convs
      by (simp add: p1_def)
    then show ?thesis using True unfolding k_def [symmetric] cl_def [symmetric] sv_def [symmetric] by (simp add: p1_def s_def)
  next
    case False
    have pre: "dtls_psk_pre_master_secret psk n (kblock s) 40 = Some (- 1, kblock s)"
      using False by (simp add: dtls_psk_pre_master_secret_def)
    have "calculate_key_block (\<lambda>_. True) (int n, psk) h p = Some (- 592, h, p1\<lparr>sec1 := Some s\<rparr>)"
      unfolding calculate_key_block_def next1 s1 bind.bind_lunit prod.case option.case assms(2) dtls_cipher.case fst_conv snd_conv neg if_False nat_int pre Let_def
      by (simp add: dtls_alert_fatal_create_def dtls_alert_create_def push_bit_eq_mult)
    then show ?thesis using False by (simp add: p1_def s_def)
  qed
qed

theorem key_block_derivation_witness:
  "\<exists>h' p'. calculate_key_block (\<lambda>_. True) (3, [1, 2, 3]) \<lparr>tmp = replicate 64 5, hcipher = TLS_PSK_WITH_AES_128_CCM_8\<rparr>
      \<lparr>role = DTLS_SERVER, sec0 = Some \<lparr>scipher = TLS_NULL_WITH_NULL_NULL, epoch = 0, rseq = 4, kblock = replicate 40 0\<rparr>, sec1 = None\<rparr> = Some (0, h', p')"
  using key_block_derivation [of "\<lparr>role = DTLS_SERVER, sec0 = Some \<lparr>scipher = TLS_NULL_WITH_NULL_NULL, epoch = 0, rseq = 4, kblock = replicate 40 0\<rparr>, sec1 = None\<rparr>"
      "\<lparr>scipher = TLS_NULL_WITH_NULL_NULL, epoch = 0, rseq = 4, kblock = replicate 40 0\<rparr>"
      "\<lparr>tmp = replicate 64 5, hcipher = TLS_PSK_WITH_AES_128_CCM_8\<rparr>" 3 "[1, 2, 3]"]
  by auto

end
