(* ===== verification/Coap_Option.thy ===== *)
theory Coap_Option
  imports Prelude
begin

text \<open>
  The CoAP options of the slave: class \<open>option\<close> of \<open>arduino/libraries/Casan/option.cpp\<close>. An object
  keeps the value in a block of its own (\<open>optval\<close>) or, when it and its terminating zero fit, in the
  array \<open>staticval\<close> of 9 bytes. \<open>unsigned long\<close> has 32 bits on the AVR. The class variable
  \<open>errno_\<close> is passed and returned. \<open>None\<close> is an access outside an array, in particular a copy with a
  negative length. \<open>print\<close> is left out (debug output).
\<close>

section \<open>Codes and table\<close>

abbreviation (input) MO_None :: int where "MO_None \<equiv> 0"
abbreviation (input) MO_If_Match :: int where "MO_If_Match \<equiv> 1"
abbreviation (input) MO_Uri_Host :: int where "MO_Uri_Host \<equiv> 3"
abbreviation (input) MO_Etag :: int where "MO_Etag \<equiv> 4"
abbreviation (input) MO_If_None_Match :: int where "MO_If_None_Match \<equiv> 5"
abbreviation (input) MO_Observe :: int where "MO_Observe \<equiv> 6"
abbreviation (input) MO_Uri_Port :: int where "MO_Uri_Port \<equiv> 7"
abbreviation (input) MO_Location_Path :: int where "MO_Location_Path \<equiv> 8"
abbreviation (input) MO_Uri_Path :: int where "MO_Uri_Path \<equiv> 11"
abbreviation (input) MO_Content_Format :: int where "MO_Content_Format \<equiv> 12"
abbreviation (input) MO_Max_Age :: int where "MO_Max_Age \<equiv> 14"
abbreviation (input) MO_Uri_Query :: int where "MO_Uri_Query \<equiv> 15"
abbreviation (input) MO_Accept :: int where "MO_Accept \<equiv> 16"
abbreviation (input) MO_Location_Query :: int where "MO_Location_Query \<equiv> 20"
abbreviation (input) MO_Proxy_Uri :: int where "MO_Proxy_Uri \<equiv> 35"
abbreviation (input) MO_Proxy_Scheme :: int where "MO_Proxy_Scheme \<equiv> 39"
abbreviation (input) MO_Size1 :: int where "MO_Size1 \<equiv> 60"

datatype optfmt = OF_NONE | OF_OPAQUE | OF_STRING | OF_EMPTY | OF_UINT

definition optdesc :: "(int \<times> optfmt \<times> int \<times> int) list" where
  "optdesc = [
     (MO_Content_Format, OF_OPAQUE, 0, 8),
     (MO_Etag, OF_OPAQUE, 1, 8),
     (MO_Location_Path, OF_STRING, 0, 255),
     (MO_Location_Query, OF_STRING, 0, 255),
     (MO_Max_Age, OF_UINT, 0, 4),
     (MO_Proxy_Uri, OF_STRING, 1, 1034),
     (MO_Proxy_Scheme, OF_STRING, 1, 255),
     (MO_Uri_Host, OF_STRING, 1, 255),
     (MO_Uri_Path, OF_STRING, 0, 255),
     (MO_Uri_Port, OF_UINT, 0, 2),
     (MO_Uri_Query, OF_STRING, 0, 255),
     (MO_Accept, OF_UINT, 0, 2),
     (MO_If_None_Match, OF_EMPTY, 0, 0),
     (MO_If_Match, OF_OPAQUE, 0, 8),
     (MO_Observe, OF_UINT, 0, 3)]"

text \<open>The macros \<open>CHK_OPTCODE\<close> and \<open>CHK_OPTLEN\<close>: is there an error?\<close>

definition CHK_OPTCODE :: "int \<Rightarrow> bool" where
  "CHK_OPTCODE c \<longleftrightarrow> \<not> list_ex (\<lambda>(code, _, _, _). code = c) optdesc"

definition CHK_OPTLEN :: "int \<Rightarrow> int \<Rightarrow> bool" where
  "CHK_OPTLEN c l \<longleftrightarrow> \<not> list_ex (\<lambda>(code, _, lo, hi). code = c \<and> lo \<le> l \<and> l \<le> hi) optdesc"

definition OPT_ERR_OPTCODE :: u8 where "OPT_ERR_OPTCODE = 1"
definition OPT_ERR_OPTLEN :: u8 where "OPT_ERR_OPTLEN = 2"

section \<open>Objects\<close>

record coap_option =
  optcode :: int
  optlen :: int
  optval :: "u8 list option"
  staticval :: "u8 list"

text \<open>\<open>RESET\<close> leaves \<open>staticval\<close> alone; a new object gets zeros there, which nobody reads.\<close>

definition opt_RESET :: "coap_option \<Rightarrow> coap_option" where
  "opt_RESET o1 = o1\<lparr>optcode := MO_None, optlen := 0, optval := None\<rparr>"

definition option_new :: coap_option where
  "option_new = \<lparr>optcode = MO_None, optlen = 0, optval = None, staticval = replicate 9 0\<rparr>"

definition OPTVAL :: "coap_option \<Rightarrow> u8 list" where
  "OPTVAL o1 = (case optval o1 of Some b \<Rightarrow> b | None \<Rightarrow> staticval o1)"

definition COPY_VAL :: "coap_option \<Rightarrow> u8 list \<Rightarrow> coap_option option" where
  "COPY_VAL o1 p =
     (if optlen o1 < 0 then None
      else do {
        v \<leftarrow> slice p 0 (nat (optlen o1));
        if optlen o1 + 1 > 9 then Some (o1\<lparr>optval := Some (v @ [0])\<rparr>)
        else do {
          s \<leftarrow> mcopy (staticval o1) 0 v 0 (length v);
          s \<leftarrow> wr s (length v) 0;
          Some (o1\<lparr>optval := None, staticval := s\<rparr>)
        }
      })"

fun uint_to_byte_loop :: "nat \<Rightarrow> 'a::len word \<Rightarrow> u8 list \<Rightarrow> u8 list" where
  "uint_to_byte_loop 0 val stbin = stbin"
| "uint_to_byte_loop (Suc shft) val stbin =
     (let b = ucast (drop_bit (8 * shft) val AND 0xff) in
      uint_to_byte_loop shft val (if stbin \<noteq> [] \<or> b \<noteq> 0 then stbin @ [b] else stbin))"

lemma uint_to_byte_numeral:
  "uint_to_byte_loop (numeral k) val stbin =
     (let b = ucast (drop_bit (8 * pred_numeral k) val AND 0xff) in
      uint_to_byte_loop (pred_numeral k) val (if stbin \<noteq> [] \<or> b \<noteq> 0 then stbin @ [b] else stbin))"
  by (simp add: numeral_eq_Suc)

definition uint_to_byte :: "u32 \<Rightarrow> u8 list" where
  "uint_to_byte val = uint_to_byte_loop 4 val []"

definition option_code :: "u8 \<Rightarrow> int \<Rightarrow> u8 \<times> coap_option" where
  "option_code errno c =
     ((if CHK_OPTCODE c then OPT_ERR_OPTCODE else errno), option_new\<lparr>optcode := c\<rparr>)"

text \<open>The constructors set \<open>errno_\<close> and go on.\<close>

definition option_opaque :: "u8 \<Rightarrow> int \<Rightarrow> u8 list \<Rightarrow> int \<Rightarrow> (u8 \<times> coap_option) option" where
  "option_opaque errno c v len = do {
     let errno = (if CHK_OPTCODE c then OPT_ERR_OPTCODE else errno);
     let errno = (if CHK_OPTLEN c len then OPT_ERR_OPTLEN else errno);
     o1 \<leftarrow> COPY_VAL (option_new\<lparr>optcode := c, optlen := len\<rparr>) v;
     Some (errno, o1)
   }"

definition option_uint :: "u8 \<Rightarrow> int \<Rightarrow> u32 \<Rightarrow> (u8 \<times> coap_option) option" where
  "option_uint errno c v = do {
     let stbin = uint_to_byte v;
     let errno = (if CHK_OPTCODE c then OPT_ERR_OPTCODE else errno);
     let errno = (if CHK_OPTLEN c (int (length stbin)) then OPT_ERR_OPTLEN else errno);
     o1 \<leftarrow> COPY_VAL (option_new\<lparr>optcode := c, optlen := int (length stbin)\<rparr>) stbin;
     Some (errno, o1)
   }"

text \<open>Copying: the bytes of the object, then a block of its own for the value.\<close>

definition option_copy :: "coap_option \<Rightarrow> coap_option option" where
  "option_copy o1 = (case optval o1 of None \<Rightarrow> Some o1 | Some b \<Rightarrow> COPY_VAL o1 b)"

definition opt_less :: "coap_option \<Rightarrow> coap_option \<Rightarrow> bool" where
  "opt_less a b \<longleftrightarrow> optcode a < optcode b"

definition opt_ge :: "coap_option \<Rightarrow> coap_option \<Rightarrow> bool" where
  "opt_ge a b \<longleftrightarrow> optcode a \<ge> optcode b"

definition opt_eq :: "coap_option \<Rightarrow> coap_option \<Rightarrow> bool" where
  "opt_eq a b \<longleftrightarrow> optcode a = optcode b"

section \<open>Accessors and mutators\<close>

text \<open>\<open>optval (void)\<close> as it is written: \<open>v = (v << 8) & b [i]\<close>.\<close>

fun optval_loop :: "nat \<Rightarrow> nat \<Rightarrow> u8 list \<Rightarrow> u32 \<Rightarrow> u32 option" where
  "optval_loop 0 i b v = Some v"
| "optval_loop (Suc n) i b v = do {
     x \<leftarrow> rd b i;
     optval_loop n (Suc i) b (push_bit 8 v AND ucast x)
   }"

definition optval_uint :: "coap_option \<Rightarrow> u32 option" where
  "optval_uint o1 = optval_loop (nat (optlen o1)) 0 (OPTVAL o1) 0"

definition set_optcode :: "coap_option \<Rightarrow> int \<Rightarrow> coap_option" where
  "set_optcode o1 c = o1\<lparr>optcode := c\<rparr>"

definition set_optval :: "coap_option \<Rightarrow> u8 list \<Rightarrow> int \<Rightarrow> coap_option option" where
  "set_optval o1 val len = COPY_VAL (o1\<lparr>optlen := len\<rparr>) val"

definition set_optval_uint :: "u8 \<Rightarrow> coap_option \<Rightarrow> u32 \<Rightarrow> (u8 \<times> coap_option) option" where
  "set_optval_uint errno o1 val = do {
     let stbin = uint_to_byte val;
     if CHK_OPTLEN (optcode o1) (int (length stbin)) then Some (OPT_ERR_OPTLEN, o1)
     else do {
       o1 \<leftarrow> COPY_VAL (o1\<lparr>optlen := int (length stbin)\<rparr>) stbin;
       Some (errno, o1)
     }
   }"

section \<open>Representation invariant and value\<close>

definition wf_option :: "coap_option \<Rightarrow> bool" where
  "wf_option o1 \<longleftrightarrow> 0 \<le> optlen o1 \<and> length (staticval o1) = 9 \<and>
     (case optval o1 of
        None \<Rightarrow> optlen o1 \<le> 8 \<and> staticval o1 ! nat (optlen o1) = 0
      | Some b \<Rightarrow> 8 < optlen o1 \<and> int (length b) = optlen o1 + 1 \<and> b ! nat (optlen o1) = 0)"

definition opt_value :: "coap_option \<Rightarrow> u8 list" where
  "opt_value o1 = take (nat (optlen o1)) (OPTVAL o1)"

lemma wf_new [simp]: "wf_option option_new"
  by (simp add: wf_option_def option_new_def)

lemma option_new_sel [simp]: "optcode option_new = 0" "optlen option_new = 0" "length (staticval option_new) = 9"
  by (simp_all add: option_new_def)

lemma length_opt_value: "wf_option o1 \<Longrightarrow> int (length (opt_value o1)) = optlen o1"
  by (auto simp: wf_option_def opt_value_def OPTVAL_def min_def split: option.splits)

lemma OPTVAL_slice: "wf_option o1 \<Longrightarrow> slice (OPTVAL o1) 0 (nat (optlen o1)) = Some (opt_value o1)"
  by (auto simp: wf_option_def opt_value_def OPTVAL_def slice_in split: option.splits)

lemma COPY_VAL_val:
  assumes "0 \<le> optlen o1" "nat (optlen o1) \<le> length p" "length (staticval o1) = 9"
  shows "\<exists>o2. COPY_VAL o1 p = Some o2 \<and> wf_option o2 \<and> opt_value o2 = take (nat (optlen o1)) p \<and>
    optcode o2 = optcode o1 \<and> optlen o2 = optlen o1"
proof (cases "optlen o1 + 1 > 9")
  case True
  then show ?thesis
    using assms
    by (simp add: COPY_VAL_def slice_in wf_option_def opt_value_def OPTVAL_def nth_append)
next
  case False
  define n where "n = nat (optlen o1)"
  have n: "optlen o1 = int n" "n \<le> 8" "n \<le> length p" using assms False by (simp_all add: n_def)
  show ?thesis
    using n assms(3) by (simp add: COPY_VAL_def slice_in mcopy_in put_at_def wf_option_def opt_value_def OPTVAL_def min_def)
qed

lemma COPY_VAL_neg: "optlen o1 < 0 \<Longrightarrow> COPY_VAL o1 p = None"
  by (simp add: COPY_VAL_def)

lemma option_opaque_val:
  assumes "0 \<le> len" "nat len \<le> length v"
  shows "\<exists>errno' o1. option_opaque errno c v len = Some (errno', o1) \<and> wf_option o1 \<and> optcode o1 = c \<and>
    opt_value o1 = take (nat len) v"
  using COPY_VAL_val [of "option_new\<lparr>optcode := c, optlen := len\<rparr>" v] assms
  by (auto simp: option_opaque_def)

lemma set_optval_val:
  assumes "wf_option o1" "0 \<le> len" "nat len \<le> length v"
  shows "\<exists>o2. set_optval o1 v len = Some o2 \<and> wf_option o2 \<and> optcode o2 = optcode o1 \<and> opt_value o2 = take (nat len) v"
  using COPY_VAL_val [of "o1\<lparr>optlen := len\<rparr>" v] assms
  by (auto simp: set_optval_def wf_option_def)

lemma length_uint_to_byte_loop: "length (uint_to_byte_loop n v st) \<le> n + length st"
  by (induction n v st rule: uint_to_byte_loop.induct) (auto simp: Let_def intro: le_SucI order_trans)

lemma option_uint_val:
  "\<exists>errno' o1. option_uint errno c v = Some (errno', o1) \<and> wf_option o1 \<and> optcode o1 = c \<and> opt_value o1 = uint_to_byte v"
  using COPY_VAL_val [of "option_new\<lparr>optcode := c, optlen := int (length (uint_to_byte v))\<rparr>" "uint_to_byte v"]
  by (auto simp: option_uint_def)

lemma option_copy_val:
  assumes "wf_option o1"
  shows "\<exists>o2. option_copy o1 = Some o2 \<and> wf_option o2 \<and> optcode o2 = optcode o1 \<and> opt_value o2 = opt_value o1"
proof (cases "optval o1")
  case None
  then show ?thesis using assms by (simp add: option_copy_def)
next
  case (Some b)
  then have b: "0 \<le> optlen o1" "nat (optlen o1) \<le> length b" "length (staticval o1) = 9"
    using assms by (simp_all add: wf_option_def nat_le_iff)
  have "opt_value o1 = take (nat (optlen o1)) b" using Some by (simp add: opt_value_def OPTVAL_def)
  then show ?thesis
    using COPY_VAL_val [OF b] Some by (auto simp: option_copy_def)
qed

section \<open>Properties\<close>



lemma optval_loop_zero: "i + n \<le> length b \<Longrightarrow> optval_loop n i b 0 = Some 0"
  by (induction n arbitrary: i) simp_all

text \<open>
  Reading the integer value of an option gives 0 for every option, whatever value was stored: the
  loop combines the bytes with \<open>&\<close> instead of \<open>|\<close>.
\<close>
theorem optval_always_zero:
  assumes "wf_option o1"
  shows "optval_uint o1 = Some 0"
  using assms by (auto simp: optval_uint_def wf_option_def OPTVAL_def intro!: optval_loop_zero split: option.splits)

theorem optval_always_zero_witness:
  "\<exists>e o1. option_uint 0 MO_Max_Age 60 = Some (e, o1) \<and> opt_value o1 = [60] \<and> optval_uint o1 = Some 0"
proof -
  obtain e o1 where "option_uint 0 MO_Max_Age 60 = Some (e, o1)" "wf_option o1" "opt_value o1 = uint_to_byte 60"
    using option_uint_val [of 0 MO_Max_Age 60] by blast
  moreover have "uint_to_byte 60 = [60]" by (simp add: uint_to_byte_def uint_to_byte_numeral Let_def)
  ultimately show ?thesis using optval_always_zero [of o1] by auto
qed

end
