(* ===== verification/Slave_Msg.thy ===== *)
theory Slave_Msg
  imports Coap_Option
begin

text \<open>
  Tokens and messages of the slave: \<open>arduino/libraries/Casan/token.cpp\<close> and \<open>msg.cpp\<close>. On the AVR
  \<open>int\<close> and \<open>size_t\<close> have 16 bits. The option list is the list of the objects its nodes own; a
  position in it (\<open>curopt_\<close>) is the list that starts there. The layer 2 network is an argument: the
  largest payload it takes, the outcome of a transmission, the buffer of a reception. The unused field
  \<open>optlen_\<close>, \<open>print\<close> and the copy constructor (\<open>msgcopy\<close>) are left out.
\<close>

section \<open>Tokens\<close>

definition COAP_MAX_TOKLEN :: nat where "COAP_MAX_TOKLEN = 8"

record coap_token =
  toklen :: int
  tokval :: "u8 list"

definition Token_new :: coap_token where
  "Token_new = \<lparr>toklen = 0, tokval = replicate COAP_MAX_TOKLEN 0\<rparr>"

fun Token_str_loop :: "nat \<Rightarrow> u8 list \<Rightarrow> nat \<Rightarrow> u8 list \<Rightarrow> (nat \<times> u8 list) option" where
  "Token_str_loop 0 str i t = do { c \<leftarrow> rd str i; Some (i, t) }"
| "Token_str_loop (Suc n) str i t = do {
     c \<leftarrow> rd str i;
     if c \<noteq> 0 then do { t \<leftarrow> wr t i c; Token_str_loop n str (i + 1) t } else Some (i, t)
   }"

text \<open>\<open>Token (char *)\<close>: the loop stops at the zero or when \<open>i\<close> is 8.\<close>

definition Token_str :: "u8 list \<Rightarrow> coap_token option" where
  "Token_str str = do {
     (i, t) \<leftarrow> Token_str_loop COAP_MAX_TOKLEN str 0 (replicate COAP_MAX_TOKLEN 0);
     Some \<lparr>toklen = int i, tokval = t\<rparr>
   }"

definition Token_val :: "u8 list \<Rightarrow> nat \<Rightarrow> coap_token option" where
  "Token_val val len =
     (if 0 < len \<and> len < COAP_MAX_TOKLEN then do {
        t \<leftarrow> mcopy (tokval Token_new) 0 val 0 len;
        Some \<lparr>toklen = int len, tokval = t\<rparr>
      } else Some Token_new)"

definition token_eq :: "coap_token \<Rightarrow> coap_token \<Rightarrow> bool option" where
  "token_eq a b = (if toklen a = toklen b then memeq (tokval a) (tokval b) (nat (toklen a)) else Some False)"

definition token_ne :: "coap_token \<Rightarrow> coap_token \<Rightarrow> bool option" where
  "token_ne a b = (if toklen a \<noteq> toklen b then Some True else map_option Not (memeq (tokval a) (tokval b) (nat (toklen a))))"

definition token_reset :: "coap_token \<Rightarrow> coap_token" where
  "token_reset t = t\<lparr>toklen := 0\<rparr>"

section \<open>Messages\<close>

abbreviation (input) COAP_CODE_EMPTY :: u8 where "COAP_CODE_EMPTY \<equiv> 0"
abbreviation (input) COAP_CODE_GET :: u8 where "COAP_CODE_GET \<equiv> 1"
abbreviation (input) COAP_CODE_POST :: u8 where "COAP_CODE_POST \<equiv> 2"
abbreviation (input) COAP_TYPE_CON :: u8 where "COAP_TYPE_CON \<equiv> 0"
abbreviation (input) COAP_TYPE_NON :: u8 where "COAP_TYPE_NON \<equiv> 1"
abbreviation (input) COAP_TYPE_ACK :: u8 where "COAP_TYPE_ACK \<equiv> 2"
abbreviation (input) COAP_TYPE_RST :: u8 where "COAP_TYPE_RST \<equiv> 3"

record slave_msg =
  encoded :: "u8 list option"
  enclen :: nat
  mtype :: u8
  mcode :: u8
  mid :: u16
  mtoken :: coap_token
  paylen :: u16
  payload :: "u8 list option"
  optlist :: "coap_option list"
  curopt :: "coap_option list"
  curopt_initialized :: bool

definition msg_new :: slave_msg where
  "msg_new = \<lparr>encoded = None, enclen = 0, mtype = 0, mcode = 0, mid = 0, mtoken = Token_new, paylen = 0,
     payload = None, optlist = [], curopt = [], curopt_initialized = False\<rparr>"

text \<open>\<open>reset\<close> frees everything and clears the object.\<close>

definition msg_reset :: "slave_msg \<Rightarrow> slave_msg" where
  "msg_reset m = msg_new"

definition msg_eq :: "slave_msg \<Rightarrow> slave_msg \<Rightarrow> bool" where
  "msg_eq a b \<longleftrightarrow> mid a = mid b"

definition set_payload :: "slave_msg \<Rightarrow> u8 list \<Rightarrow> u16 \<Rightarrow> slave_msg option" where
  "set_payload m p n = do {
     b \<leftarrow> slice p 0 (unat n);
     Some (m\<lparr>paylen := n, payload := Some b\<rparr>)
   }"

subsection \<open>Options\<close>

definition pop_option :: "slave_msg \<Rightarrow> coap_option option \<times> slave_msg" where
  "pop_option m = (case optlist m of [] \<Rightarrow> (None, m) | o1 # os \<Rightarrow> (Some o1, m\<lparr>optlist := os\<rparr>))"

fun insert_option :: "coap_option \<Rightarrow> coap_option list \<Rightarrow> coap_option list" where
  "insert_option n [] = [n]"
| "insert_option n (c # cs) = (if opt_ge n c then c # insert_option n cs else n # c # cs)"

definition push_option :: "slave_msg \<Rightarrow> coap_option \<Rightarrow> slave_msg option" where
  "push_option m o1 = do {
     newo \<leftarrow> option_copy o1;
     Some (m\<lparr>optlist := insert_option newo (optlist m)\<rparr>)
   }"

definition reset_next_option :: "slave_msg \<Rightarrow> slave_msg" where
  "reset_next_option m = m\<lparr>curopt_initialized := False\<rparr>"

definition next_option :: "slave_msg \<Rightarrow> coap_option option \<times> slave_msg" where
  "next_option m =
     (let m = (if curopt_initialized m then m else m\<lparr>curopt := optlist m, curopt_initialized := True\<rparr>) in
      case curopt m of
        [] \<Rightarrow> (None, m\<lparr>curopt_initialized := False\<rparr>)
      | o1 # os \<Rightarrow> (Some o1, m\<lparr>curopt := os\<rparr>))"

definition search_option :: "slave_msg \<Rightarrow> int \<Rightarrow> coap_option option" where
  "search_option m c = find (\<lambda>o1. optcode o1 = c) (optlist m)"

text \<open>The state a complete loop over the options leaves (lemma \<open>iterate_from\<close>).\<close>

definition after_loop :: "slave_msg \<Rightarrow> slave_msg" where
  "after_loop m = m\<lparr>curopt := [], curopt_initialized := False\<rparr>"

subsection \<open>Encoding\<close>

definition CASAN_VERSION :: u8 where "CASAN_VERSION = 1"

definition FORMAT_BYTE0 :: "u8 \<Rightarrow> u8 \<Rightarrow> int \<Rightarrow> u8" where
  "FORMAT_BYTE0 ver type tkl =
     push_bit 6 (ver AND 3) OR push_bit 4 (type AND 3) OR (word_of_int tkl AND 7)"

definition BYTE_HIGH :: "int \<Rightarrow> u8" where
  "BYTE_HIGH n = word_of_int (drop_bit 8 (n AND 0xff00))"

definition BYTE_LOW :: "int \<Rightarrow> u8" where
  "BYTE_LOW n = word_of_int (n AND 0xff)"

fun size_loop :: "coap_option list \<Rightarrow> int \<Rightarrow> int \<Rightarrow> int" where
  "size_loop [] opt_nb sz = sz"
| "size_loop (o1 # os) opt_nb sz =
     (let opt_delta = optcode o1 - opt_nb;
          sz = sz + 1;
          sz = (if opt_delta \<ge> 269 then sz + 2 else if opt_delta \<ge> 13 then sz + 1 else sz);
          sz = (if optlen o1 \<ge> 269 then sz + 2 else if optlen o1 \<ge> 13 then sz + 1 else sz)
      in size_loop os (optcode o1 mod 65536) (sz + optlen o1))"

definition coap_size :: "slave_msg \<Rightarrow> bool \<Rightarrow> int" where
  "coap_size m emulpayload =
     (let sz = size_loop (optlist m) 0 (4 + toklen (mtoken m));
          sz = (if paylen m > 0 \<or> emulpayload then sz + 1 + uint (paylen m) else sz)
      in sz mod 65536)"

definition avail_space :: "nat \<Rightarrow> slave_msg \<Rightarrow> nat" where
  "avail_space maxpayload m =
     (let sz = nat (coap_size m True) in if sz \<le> maxpayload then maxpayload - sz else 0)"

definition or_at :: "u8 list \<Rightarrow> nat \<Rightarrow> u8 \<Rightarrow> u8 list option" where
  "or_at b i v = do { x \<leftarrow> rd b i; wr b i (x OR v) }"

text \<open>The body of the loop over the options: the bytes of one option.\<close>

definition encode_option :: "u8 list \<Rightarrow> nat \<Rightarrow> int \<Rightarrow> coap_option \<Rightarrow> (u8 list \<times> nat) option" where
  "encode_option sbuf i opt_nb o1 = do {
     let posoptheader = i;
     sbuf \<leftarrow> wr sbuf posoptheader 0;
     let i = i + 1;
     let opt_delta = optcode o1 - opt_nb;
     (sbuf, i) \<leftarrow>
       (if opt_delta \<ge> 269 then do {
          let opt_delta = opt_delta - 269;
          sbuf \<leftarrow> wr sbuf i (BYTE_HIGH opt_delta);
          sbuf \<leftarrow> wr sbuf (i + 1) (BYTE_LOW opt_delta);
          sbuf \<leftarrow> or_at sbuf posoptheader 0xe0;
          Some (sbuf, i + 2)
        } else if opt_delta \<ge> 13 then do {
          let opt_delta = opt_delta - 13;
          sbuf \<leftarrow> wr sbuf i (BYTE_LOW opt_delta);
          sbuf \<leftarrow> or_at sbuf posoptheader 0xd0;
          Some (sbuf, i + 1)
        } else do {
          sbuf \<leftarrow> or_at sbuf posoptheader (word_of_int (push_bit 4 opt_delta));
          Some (sbuf, i)
        });
     let opt_len = optlen o1;
     (sbuf, i) \<leftarrow>
       (if opt_len \<ge> 269 then do {
          let opt_len = opt_len - 269;
          sbuf \<leftarrow> wr sbuf i (BYTE_HIGH opt_len);
          sbuf \<leftarrow> wr sbuf (i + 1) (BYTE_LOW opt_len);
          sbuf \<leftarrow> or_at sbuf posoptheader 0x0e;
          Some (sbuf, i + 2)
        } else if opt_len \<ge> 13 then do {
          sbuf \<leftarrow> wr sbuf i (BYTE_LOW opt_len);
          sbuf \<leftarrow> or_at sbuf posoptheader 0x0d;
          Some (sbuf, i + 1)
        } else do {
          sbuf \<leftarrow> or_at sbuf posoptheader (word_of_int opt_len);
          Some (sbuf, i)
        });
     v \<leftarrow> slice (OPTVAL o1) 0 (nat (optlen o1));
     sbuf \<leftarrow> mcopy sbuf i v 0 (length v);
     Some (sbuf, i + length v)
   }"

fun encode_options :: "coap_option list \<Rightarrow> u8 list \<Rightarrow> nat \<Rightarrow> int \<Rightarrow> (u8 list \<times> nat) option" where
  "encode_options [] sbuf i opt_nb = Some (sbuf, i)"
| "encode_options (o1 # os) sbuf i opt_nb = do {
     (sbuf, i) \<leftarrow> encode_option sbuf i opt_nb o1;
     encode_options os sbuf i (optcode o1 mod 65536)
   }"

text \<open>The result: success, the buffer, the length of the encoded message, the message.\<close>

definition coap_encode :: "slave_msg \<Rightarrow> u8 list \<Rightarrow> nat \<Rightarrow> (bool \<times> u8 list \<times> nat \<times> slave_msg) option" where
  "coap_encode m sbuf sbuflen = do {
     let sz = nat (coap_size m False);
     let m = after_loop m;
     if sz \<le> sbuflen then do {
       let sbuflen = sz;
       sbuf \<leftarrow> wr sbuf 0 (FORMAT_BYTE0 CASAN_VERSION (mtype m) (toklen (mtoken m)));
       sbuf \<leftarrow> wr sbuf 1 (mcode m);
       sbuf \<leftarrow> wr sbuf 2 (BYTE_HIGH (uint (mid m)));
       sbuf \<leftarrow> wr sbuf 3 (BYTE_LOW (uint (mid m)));
       let i = 4;
       (sbuf, i) \<leftarrow> (if toklen (mtoken m) > 0 then do {
           sbuf \<leftarrow> mcopy sbuf i (tokval (mtoken m)) 0 (nat (toklen (mtoken m)));
           Some (sbuf, i + nat (toklen (mtoken m)))
         } else Some (sbuf, i));
       (sbuf, i) \<leftarrow> encode_options (optlist m) sbuf i 0;
       sbuf \<leftarrow> (if paylen m > 0 then do {
           sbuf \<leftarrow> wr sbuf i 0xff;
           p \<leftarrow> payload m;
           mcopy sbuf (i + 1) p 0 (unat (paylen m))
         } else Some sbuf);
       Some (True, sbuf, sbuflen, after_loop m)
     } else Some (False, sbuf, sbuflen, m)
   }"

text \<open>
  \<open>send\<close>: \<open>maxpayload\<close> is what layer 2 takes and \<open>l2send\<close> says if it accepts a frame. The result holds
  the frame that was given to layer 2.
\<close>

definition msg_send :: "nat \<Rightarrow> (u8 list \<Rightarrow> bool) \<Rightarrow> slave_msg \<Rightarrow> (bool \<times> u8 list option \<times> slave_msg) option" where
  "msg_send maxpayload l2send m = do {
     (success, m) \<leftarrow> (case encoded m of
         Some _ \<Rightarrow> Some (True, m)
       | None \<Rightarrow> do {
           (success, sbuf, n, m) \<leftarrow> coap_encode m (replicate maxpayload 0) maxpayload;
           Some (success, m\<lparr>encoded := Some sbuf, enclen := n\<rparr>)
         });
     if success then do {
       e \<leftarrow> encoded m;
       frame \<leftarrow> slice e 0 (enclen m);
       Some (l2send frame, Some frame, m)
     } else Some (False, None, m\<lparr>encoded := None\<rparr>)
   }"

subsection \<open>Decoding\<close>

definition int16 :: "int \<Rightarrow> int" where
  "int16 z = (z + 32768) mod 65536 - 32768"

text \<open>The two \<open>switch\<close> statements: the value of a nibble, the next position, no failure.\<close>

definition read_ext :: "u8 list \<Rightarrow> nat \<Rightarrow> int \<Rightarrow> (int \<times> nat \<times> bool) option" where
  "read_ext rbuf i n =
     (if n = 13 then do { x \<leftarrow> rd rbuf i; Some (uint x + 13, i + 1, True) }
      else if n = 14 then do {
        x \<leftarrow> rd rbuf i;
        y \<leftarrow> rd rbuf (i + 1);
        Some (int16 (int16 (push_bit 8 (uint x)) + uint y + 269), i + 2, True)
      } else if n = 15 then Some (n, i, False)
      else Some (n, i, True))"

definition decode_option :: "u8 list \<Rightarrow> nat \<Rightarrow> int \<Rightarrow> slave_msg \<Rightarrow> (bool \<times> nat \<times> int \<times> slave_msg) option" where
  "decode_option rbuf i opt_nb m = do {
     x \<leftarrow> rd rbuf i;
     let opt_delta = uint (drop_bit 4 x AND 0x0f);
     let opt_len = uint (x AND 0x0f);
     let i = i + 1;
     (opt_delta, i, ok1) \<leftarrow> read_ext rbuf i opt_delta;
     let opt_nb = int16 (opt_nb + opt_delta);
     (opt_len, i, ok2) \<leftarrow> read_ext rbuf i opt_len;
     if ok1 \<and> ok2 then do {
       o1 \<leftarrow> set_optval (set_optcode option_new opt_nb) (drop i rbuf) opt_len;
       m \<leftarrow> push_option m o1;
       Some (True, i + nat opt_len, opt_nb, m)
     } else Some (False, i, opt_nb, m)
   }"

lemma read_ext_pos: "read_ext rbuf i n = Some (v, j, ok) \<Longrightarrow> i \<le> j"
  by (auto simp: read_ext_def bind_eq_Some_conv split: if_splits)

lemma decode_option_pos: "decode_option rbuf i nb m = Some (ok, j, nb', m') \<Longrightarrow> i < j"
  by (auto simp: decode_option_def bind_eq_Some_conv Let_def dest!: read_ext_pos split: if_splits)

function decode_options :: "u8 list \<Rightarrow> nat \<Rightarrow> nat \<Rightarrow> int \<Rightarrow> slave_msg \<Rightarrow> (bool \<times> nat \<times> slave_msg) option" where
  "decode_options rbuf len i opt_nb m =
     (if i < len then do {
        x \<leftarrow> rd rbuf i;
        if x \<noteq> 0xff then do {
          (success, i, opt_nb, m) \<leftarrow> decode_option rbuf i opt_nb m;
          if success then decode_options rbuf len i opt_nb m else Some (False, i, m)
        } else Some (True, i, m)
      } else Some (True, i, m))"
  by pat_completeness auto

termination
  by (relation "measure (\<lambda>(rbuf, len, i, opt_nb, m). len - i)") (auto dest!: decode_option_pos)

declare decode_options.simps [simp del]

text \<open>The token, and what happens behind the options.\<close>

definition decode_token :: "u8 list \<Rightarrow> nat \<Rightarrow> slave_msg \<Rightarrow> (slave_msg \<times> nat) option" where
  "decode_token rbuf n m =
     (let i = 4 in
      if n > 0 then do {
        t \<leftarrow> mcopy (tokval (mtoken m)) 0 rbuf i n;
        Some (m\<lparr>mtoken := (mtoken m)\<lparr>tokval := t\<rparr>\<rparr>, i + n)
      } else Some (m, i))"

definition decode_payload :: "u8 list \<Rightarrow> nat \<Rightarrow> bool \<Rightarrow> bool \<Rightarrow> nat \<Rightarrow> slave_msg \<Rightarrow> (bool \<times> slave_msg) option" where
  "decode_payload rbuf len truncated success i m =
     (let m = m\<lparr>paylen := of_nat len - of_nat i\<rparr> in
      if \<not> truncated \<and> success \<and> paylen m > 0 then do {
        x \<leftarrow> rd rbuf i;
        if x \<noteq> 0xff then Some (False, m)
        else do { m \<leftarrow> set_payload m (drop (i + 1) rbuf) (paylen m); Some (True, m) }
      } else Some (success, m\<lparr>paylen := 0\<rparr>))"

definition coap_decode :: "u8 list \<Rightarrow> nat \<Rightarrow> bool \<Rightarrow> slave_msg \<Rightarrow> (bool \<times> slave_msg) option" where
  "coap_decode rbuf len truncated m = do {
     let m = msg_reset m;
     b0 \<leftarrow> rd rbuf 0;
     if drop_bit 6 b0 AND 3 \<noteq> CASAN_VERSION then Some (False, m)
     else do {
       b1 \<leftarrow> rd rbuf 1;
       b2 \<leftarrow> rd rbuf 2;
       b3 \<leftarrow> rd rbuf 3;
       let n = unat (b0 AND 0x0f);
       let m = m\<lparr>mtype := drop_bit 4 b0 AND 3, mtoken := (mtoken m)\<lparr>toklen := int n\<rparr>, mcode := b1,
                  mid := push_bit 8 (ucast b2) OR ucast b3\<rparr>;
       (m, i) \<leftarrow> decode_token rbuf n m;
       (success, i, m) \<leftarrow> (if truncated then Some (True, i, m) else decode_options rbuf len i 0 m);
       decode_payload rbuf len truncated success i m
     }
   }"

datatype l2_recv = RECV_EMPTY | RECV_WRONG_TYPE | RECV_WRONG_DEST | RECV_TRUNCATED | RECV_OK

text \<open>\<open>recv\<close> with what layer 2 received: a status, the memory of its buffer, the length of the payload.\<close>

definition msg_recv :: "l2_recv \<times> u8 list \<times> nat \<Rightarrow> slave_msg \<Rightarrow> (l2_recv \<times> slave_msg) option" where
  "msg_recv l2 m = (case l2 of (r, rbuf, len) \<Rightarrow>
     if r = RECV_OK \<or> r = RECV_TRUNCATED then do {
       (ok, m) \<leftarrow> coap_decode rbuf len (r = RECV_TRUNCATED) (msg_reset m);
       Some (if ok then r else RECV_EMPTY, m)
     } else Some (r, msg_reset m))"

subsection \<open>Options with a meaning\<close>

definition get_content_format :: "slave_msg \<Rightarrow> int option" where
  "get_content_format m = (case search_option m MO_Content_Format of
     None \<Rightarrow> Some (- 1)
   | Some o1 \<Rightarrow> map_option (\<lambda>v. int16 (uint v)) (optval_uint o1))"

text \<open>The first option with code \<open>c\<close> gets the value \<open>v\<close>; without one the fresh option is pushed.\<close>

fun reset_option :: "u8 \<Rightarrow> int \<Rightarrow> u32 \<Rightarrow> coap_option list \<Rightarrow> (u8 \<times> coap_option list) option" where
  "reset_option errno c v [] = Some (errno, [])"
| "reset_option errno c v (o1 # os) =
     (if optcode o1 = c then do { (errno, o1) \<leftarrow> set_optval_uint errno o1 v; Some (errno, o1 # os) }
      else do { (errno, os) \<leftarrow> reset_option errno c v os; Some (errno, o1 # os) })"

definition set_content_format :: "u8 \<Rightarrow> bool \<Rightarrow> u32 \<Rightarrow> slave_msg \<Rightarrow> (u8 \<times> slave_msg) option" where
  "set_content_format errno reset cf m = (case search_option m MO_Content_Format of
     Some _ \<Rightarrow> if reset then do {
         (errno, os) \<leftarrow> reset_option errno MO_Content_Format cf (optlist m);
         Some (errno, m\<lparr>optlist := os\<rparr>)
       } else Some (errno, m)
   | None \<Rightarrow> do {
       (errno, ocf) \<leftarrow> option_uint errno MO_Content_Format 0;
       m \<leftarrow> push_option m ocf;
       Some (errno, m)
     })"

definition get_max_age :: "slave_msg \<Rightarrow> u32 option" where
  "get_max_age m = (case search_option m MO_Max_Age of None \<Rightarrow> Some 0 | Some o1 \<Rightarrow> optval_uint o1)"

definition set_max_age :: "u8 \<Rightarrow> bool \<Rightarrow> u32 \<Rightarrow> slave_msg \<Rightarrow> (u8 \<times> slave_msg) option" where
  "set_max_age errno reset dur m = (case search_option m MO_Max_Age of
     Some _ \<Rightarrow> if reset then do {
         (errno, os) \<leftarrow> reset_option errno MO_Max_Age dur (optlist m);
         Some (errno, m\<lparr>optlist := os\<rparr>)
       } else Some (errno, m)
   | None \<Rightarrow> do {
       (errno, ocf) \<leftarrow> option_uint errno MO_Max_Age dur;
       m \<leftarrow> push_option m ocf;
       Some (errno, m)
     })"

end
