(* ===== verification/Coap_Spec.thy ===== *)
theory Coap_Spec
  imports Prelude
begin

text \<open>
  The wire format of CoAP messages (RFC 7252, section 3) as the two CASAN codecs produce it: a header
  of four bytes, the token, the options as differences of their codes, the payload behind the byte
  0xff. Both codecs write the length of an option between 13 and 268 bytes without subtracting 13;
  \<open>len_bytes\<close> is what they write and \<open>ext_bytes\<close> is what the standard says.
\<close>

section \<open>The format\<close>

definition ext_nibble :: "int \<Rightarrow> int" where
  "ext_nibble v = (if v \<ge> 269 then 14 else if v \<ge> 13 then 13 else v)"

definition ext_bytes :: "int \<Rightarrow> u8 list" where
  "ext_bytes v =
     (if v \<ge> 269 then [word_of_int ((v - 269) div 256), word_of_int (v - 269)]
      else if v \<ge> 13 then [word_of_int (v - 13)] else [])"

definition len_bytes :: "int \<Rightarrow> u8 list" where
  "len_bytes v =
     (if v \<ge> 269 then [word_of_int ((v - 269) div 256), word_of_int (v - 269)]
      else if v \<ge> 13 then [word_of_int v] else [])"

definition opt_frame_with :: "(int \<Rightarrow> u8 list) \<Rightarrow> int \<Rightarrow> int \<times> u8 list \<Rightarrow> u8 list" where
  "opt_frame_with lb prev = (\<lambda>(c, v).
     word_of_int (16 * ext_nibble (c - prev) + ext_nibble (int (length v))) #
     ext_bytes (c - prev) @ lb (int (length v)) @ v)"

fun opts_frame_with :: "(int \<Rightarrow> u8 list) \<Rightarrow> int \<Rightarrow> (int \<times> u8 list) list \<Rightarrow> u8 list" where
  "opts_frame_with lb prev [] = []"
| "opts_frame_with lb prev (cv # os) = opt_frame_with lb prev cv @ opts_frame_with lb (fst cv) os"

abbreviation opt_frame :: "int \<Rightarrow> int \<times> u8 list \<Rightarrow> u8 list" where
  "opt_frame \<equiv> opt_frame_with len_bytes"

abbreviation opts_frame :: "int \<Rightarrow> (int \<times> u8 list) list \<Rightarrow> u8 list" where
  "opts_frame \<equiv> opts_frame_with len_bytes"

abbreviation rfc_opts_frame :: "int \<Rightarrow> (int \<times> u8 list) list \<Rightarrow> u8 list" where
  "rfc_opts_frame \<equiv> opts_frame_with ext_bytes"

definition header_frame :: "u8 \<Rightarrow> u8 \<Rightarrow> u16 \<Rightarrow> u8 list \<Rightarrow> u8 list" where
  "header_frame type code mid tok =
     [0x40 OR push_bit 4 (type AND 3) OR (of_nat (length tok) AND 7), code, ucast (drop_bit 8 mid), ucast mid] @ tok"

definition payload_frame :: "u8 list \<Rightarrow> u8 list" where
  "payload_frame p = (if p = [] then [] else 0xff # p)"

text \<open>Ascending codes that fit into 16 bits.\<close>

fun ascending :: "int \<Rightarrow> (int \<times> u8 list) list \<Rightarrow> bool" where
  "ascending prev [] \<longleftrightarrow> True"
| "ascending prev (cv # os) \<longleftrightarrow> prev \<le> fst cv \<and> fst cv < 32768 \<and> ascending (fst cv) os"

text \<open>The lengths that survive the transfer.\<close>

definition sound_len :: "nat \<Rightarrow> bool" where
  "sound_len n \<longleftrightarrow> n < 13 \<or> 269 \<le> n \<and> n < 32768"

lemma length_len_bytes: "length (len_bytes v) = length (ext_bytes v)"
  by (simp add: len_bytes_def ext_bytes_def)

lemma len_bytes_sound: "sound_len n \<Longrightarrow> len_bytes (int n) = ext_bytes (int n)"
  by (auto simp: sound_len_def len_bytes_def ext_bytes_def)

lemma opts_frame_rfc:
  "list_all (\<lambda>cv. sound_len (length (snd cv))) os \<Longrightarrow> opts_frame prev os = rfc_opts_frame prev os"
  by (induction os arbitrary: prev) (auto simp: opt_frame_with_def len_bytes_sound split: prod.splits)

section \<open>Bytes\<close>

lemma or_nibbles: "0 \<le> l \<Longrightarrow> l < 16 \<Longrightarrow> (word_of_int (16 * d) OR word_of_int l :: 'a::len word) = word_of_int (16 * d + l)"
proof -
  assume "0 \<le> l" "l < 16"
  then have l: "take_bit 4 l = l" by (simp add: take_bit_int_eq_self_iff)
  have "16 * d + l = push_bit 4 d + take_bit 4 l" by (simp add: l push_bit_eq_mult)
  also have "\<dots> = push_bit 4 d OR take_bit 4 l"
    by (rule disjunctive_add) (auto simp: bit_simps)
  finally have "16 * d + l = 16 * d OR l" by (simp only: l) (simp add: push_bit_eq_mult mult.commute)
  then show ?thesis by (simp add: of_int_or_eq)
qed

lemma nibbles_of_header:
  assumes "0 \<le> d" "d < 16" "0 \<le> l" "l < 16"
  shows "uint (drop_bit 4 (word_of_int (16 * d + l) :: u8) AND 0x0f) = d" "uint ((word_of_int (16 * d + l) :: u8) AND 0x0f) = l"
proof -
  have m: "(0x0f :: u8) = mask 4" by (simp add: mask_eq_exp_minus_1)
  have u: "uint (word_of_int (16 * d + l) :: u8) = 16 * d + l"
    using assms unfolding uint_word_of_int by simp
  show "uint (drop_bit 4 (word_of_int (16 * d + l) :: u8) AND 0x0f) = d"
    unfolding m take_bit_eq_mask [symmetric] unsigned_take_bit_eq unsigned_drop_bit_eq u
    using assms by (simp add: take_bit_eq_mod drop_bit_eq_div)
  show "uint ((word_of_int (16 * d + l) :: u8) AND 0x0f) = l"
    unfolding m take_bit_eq_mask [symmetric] unsigned_take_bit_eq u
    using assms by (simp add: take_bit_eq_mod)
qed

lemma ext_nibble_range: "0 \<le> v \<Longrightarrow> 0 \<le> ext_nibble v" "ext_nibble v < 15"
  by (simp_all add: ext_nibble_def)

lemma uint_byte: "uint (word_of_int z :: u8) = z mod 256"
  by (simp add: uint_word_of_int)

text \<open>The header byte is never the payload marker.\<close>

lemma opt_frame_head:
  assumes "0 \<le> d"
  shows "(word_of_int (16 * ext_nibble d + ext_nibble (int n)) :: u8) \<noteq> 0xff"
proof
  define z where "z = 16 * ext_nibble d + ext_nibble (int n)"
  assume "(word_of_int (16 * ext_nibble d + ext_nibble (int n)) :: u8) = 0xff"
  then have "uint (word_of_int z :: u8) = uint (0xff :: u8)" by (simp only: z_def)
  then have "z mod 256 = 255" by (simp add: uint_byte)
  then show False
    using ext_nibble_range [of d] ext_nibble_range [of "int n"] assms by (simp add: z_def)
qed

end
