(* ===== verification/Slave_Msg_Laws.thy ===== *)
theory Slave_Msg_Laws
  imports Slave_Msg Coap_Spec
begin

text \<open>
  The codec of the slave against the wire format: the encoder writes exactly the bytes of
  \<open>Coap_Spec\<close>, the decoder reads them back, and where it does not (the byte behind the payload, option
  lengths from 13 to 268, tokens of more than 8 bytes). Also the iterator over the options and the
  order of the option list.
\<close>

section \<open>The iterator\<close>

text \<open>Calls of \<open>next_option\<close> until it returns a null pointer.\<close>

fun iterate_options :: "nat \<Rightarrow> slave_msg \<Rightarrow> (coap_option list \<times> slave_msg) option" where
  "iterate_options 0 m = None"
| "iterate_options (Suc n) m = (case next_option m of
     (None, m) \<Rightarrow> Some ([], m)
   | (Some o1, m) \<Rightarrow> do { (os, m) \<leftarrow> iterate_options n m; Some (o1 # os, m) })"

lemma iterate_from:
  "curopt_initialized m \<Longrightarrow> length (curopt m) < n \<Longrightarrow> iterate_options n m = Some (curopt m, after_loop m)"
proof (induction n arbitrary: m)
  case (Suc n)
  then show ?case
    by (cases "curopt m") (auto simp: next_option_def after_loop_def)
qed simp

text \<open>
  After \<open>reset_next_option\<close>, calling \<open>next_option\<close> until it returns a null pointer yields every
  option of the list exactly once and in order, and leaves the iterator ready for the next loop.
\<close>
theorem iterate_all:
  assumes "length (optlist m) < n"
  shows "iterate_options n (reset_next_option m) = Some (optlist m, after_loop m)"
proof -
  obtain k where n: "n = Suc k" using assms by (cases n) auto
  show ?thesis
  proof (cases "optlist m")
    case Nil
    then show ?thesis by (simp add: n next_option_def reset_next_option_def after_loop_def)
  next
    case (Cons o1 os)
    define m1 where "m1 = m\<lparr>curopt_initialized := True, curopt := os\<rparr>"
    have "iterate_options k m1 = Some (os, after_loop m1)"
      using iterate_from [of m1 k] assms Cons n by (simp add: m1_def)
    then show ?thesis using Cons by (simp add: n next_option_def reset_next_option_def m1_def after_loop_def)
  qed
qed

theorem iterate_all_witness:
  "iterate_options 3 (reset_next_option (msg_new\<lparr>optlist := [option_new, option_new\<lparr>optcode := 11\<rparr>], curopt_initialized := True\<rparr>)) =
   Some ([option_new, option_new\<lparr>optcode := 11\<rparr>],
     after_loop (msg_new\<lparr>optlist := [option_new, option_new\<lparr>optcode := 11\<rparr>], curopt_initialized := True\<rparr>))"
  using iterate_all [of "msg_new\<lparr>optlist := [option_new, option_new\<lparr>optcode := 11\<rparr>], curopt_initialized := True\<rparr>" 3] by simp

definition opt_pair :: "coap_option \<Rightarrow> int \<times> u8 list" where
  "opt_pair o1 = (optcode o1, opt_value o1)"

lemma opt_pair_sel [simp]: "fst (opt_pair o1) = optcode o1" "snd (opt_pair o1) = opt_value o1"
  by (simp_all add: opt_pair_def)

section \<open>The option list\<close>

lemma insert_option_sorted:
  "sorted (map optcode os) \<Longrightarrow> sorted (map optcode (insert_option n os)) \<and>
    set (insert_option n os) = insert n (set os) \<and> length (insert_option n os) = Suc (length os) \<and>
    filter (\<lambda>o1. optcode o1 = c) (insert_option n os) = filter (\<lambda>o1. optcode o1 = c) os @ (if optcode n = c then [n] else [])"
proof (induction os)
  case (Cons a os)
  have "filter (\<lambda>o1. optcode o1 = optcode n) os = []" if "optcode n < optcode a"
    using that Cons.prems by (force simp: filter_empty_conv)
  then show ?case using Cons by (auto simp: opt_ge_def)
qed simp

text \<open>
  C31. Adding an option keeps the list in ascending order of the codes, which the encoder needs, and
  puts it behind the options with the same code, so that the segments of a path stay in order. The
  list owns a copy with the same code and value.
\<close>
theorem push_option_sorted:
  assumes "sorted (map optcode (optlist m))" "wf_option o1"
  shows "\<exists>o2 m'. push_option m o1 = Some m' \<and> sorted (map optcode (optlist m')) \<and> opt_pair o2 = opt_pair o1 \<and> wf_option o2 \<and>
    filter (\<lambda>o3. optcode o3 = optcode o1) (optlist m') = filter (\<lambda>o3. optcode o3 = optcode o1) (optlist m) @ [o2] \<and>
    (\<forall>c. c \<noteq> optcode o1 \<longrightarrow> filter (\<lambda>o3. optcode o3 = c) (optlist m') = filter (\<lambda>o3. optcode o3 = c) (optlist m))"
proof -
  obtain o2 where "option_copy o1 = Some o2" "wf_option o2" "optcode o2 = optcode o1" "opt_value o2 = opt_value o1"
    using option_copy_val [OF assms(2)] by blast
  then show ?thesis
    using insert_option_sorted [OF assms(1), of o2] by (intro exI [of _ o2]) (simp add: push_option_def opt_pair_def)
qed

theorem push_option_sorted_witness:
  "\<exists>o2 m'. push_option msg_new (option_new\<lparr>optcode := MO_Uri_Path\<rparr>) = Some m' \<and> filter (\<lambda>o3. optcode o3 = MO_Uri_Path) (optlist m') = [o2]"
  using push_option_sorted [of msg_new "option_new\<lparr>optcode := MO_Uri_Path\<rparr>"]
  by (auto simp: msg_new_def wf_option_def option_new_def)

section \<open>Encoding\<close>

lemma opt_frame_pair:
  "opt_frame_with lb nb (opt_pair o1) =
    word_of_int (16 * ext_nibble (optcode o1 - nb) + ext_nibble (int (length (opt_value o1)))) #
    ext_bytes (optcode o1 - nb) @ lb (int (length (opt_value o1))) @ opt_value o1"
  by (simp add: opt_frame_with_def opt_pair_def)

lemma BYTE_HIGH_val: "0 \<le> n \<Longrightarrow> n < 65536 \<Longrightarrow> BYTE_HIGH n = word_of_int (n div 256)"
proof -
  assume n: "0 \<le> n" "n < 65536"
  have "drop_bit 8 (n AND 0xff00) = drop_bit 8 n AND 0xff" by (simp add: drop_bit_and)
  also have "\<dots> = take_bit 8 (n div 256)" by (simp add: take_bit_eq_mask mask_eq_exp_minus_1 drop_bit_eq_div)
  also have "\<dots> = n div 256" using n by (auto simp: take_bit_int_eq_self_iff)
  finally show ?thesis by (simp only: BYTE_HIGH_def)
qed

lemma BYTE_LOW_val: "BYTE_LOW n = word_of_int n"
proof -
  have "n AND 0xff = take_bit 8 n" by (simp add: take_bit_eq_mask mask_eq_exp_minus_1)
  then show ?thesis unfolding BYTE_LOW_def by (auto intro!: bit_word_eqI simp: bit_simps)
qed

lemma or_at_head: "p + length bs < length f \<Longrightarrow> or_at (put_at f p (b # bs)) p v = Some (put_at f p ((b OR v) # bs))"
  by (simp add: or_at_def rd_put_at_head wr_put_at_head del: rd_in wr_in)

lemma wr_next: "j = i + length bs \<Longrightarrow> j < length f \<Longrightarrow> wr (put_at f i bs) j c = Some (put_at f i (bs @ [c]))"
  by (simp add: wr_put_at_next del: wr_in)

lemma mcopy_next:
  "j = i + length bs \<Longrightarrow> j + length v \<le> length f \<Longrightarrow> mcopy (put_at f i bs) j v 0 (length v) = Some (put_at f i (bs @ v))"
  by (simp add: mcopy_put_at_next)

lemma put_at_two: "j = i + length xs \<Longrightarrow> j + length ys \<le> length f \<Longrightarrow> put_at (put_at f i xs) j ys = put_at f i (xs @ ys)"
  by (simp add: put_at_put_at_adjacent)

lemma wr_first: "i < length f \<Longrightarrow> wr f i c = Some (put_at f i [c])"
  by (simp add: put_at_Cons)

lemma delta_part:
  assumes "0 \<le> d" "d < 65536" "i + Suc (length (ext_bytes d)) \<le> length sbuf"
  shows "(if d \<ge> 269 then do {
        let d = d - 269;
        sbuf \<leftarrow> wr (put_at sbuf i [0]) (i + 1) (BYTE_HIGH d);
        sbuf \<leftarrow> wr sbuf (i + 1 + 1) (BYTE_LOW d);
        sbuf \<leftarrow> or_at sbuf i 0xe0;
        Some (sbuf, i + 1 + 2)
      } else if d \<ge> 13 then do {
        let d = d - 13;
        sbuf \<leftarrow> wr (put_at sbuf i [0]) (i + 1) (BYTE_LOW d);
        sbuf \<leftarrow> or_at sbuf i 0xd0;
        Some (sbuf, i + 1 + 1)
      } else do {
        sbuf \<leftarrow> or_at (put_at sbuf i [0]) i (word_of_int (push_bit 4 d));
        Some (sbuf, i + 1)
      }) = Some (put_at sbuf i (word_of_int (16 * ext_nibble d) # ext_bytes d), i + 1 + length (ext_bytes d))"
proof -
  consider "d \<ge> 269" | "13 \<le> d" "d < 269" | "d < 13" by linarith
  then show ?thesis
  proof cases
    case 1
    then show ?thesis
      using assms by (simp add: Let_def ext_bytes_def ext_nibble_def wr_next or_at_head BYTE_HIGH_val BYTE_LOW_val del: wr_in)
  next
    case 2
    then show ?thesis
      using assms by (simp add: Let_def ext_bytes_def ext_nibble_def wr_next or_at_head BYTE_LOW_val del: wr_in)
  next
    case 3
    then show ?thesis
      using assms by (simp add: ext_bytes_def ext_nibble_def or_at_head push_bit_eq_mult mult.commute)
  qed
qed

lemma len_part:
  assumes "0 \<le> l" "l < 65536" "i + Suc (length bs + length (len_bytes l)) \<le> length sbuf" "j = i + 1 + length bs"
  shows "(if l \<ge> 269 then do {
        let l = l - 269;
        sbuf \<leftarrow> wr (put_at sbuf i (word_of_int (16 * d) # bs)) j (BYTE_HIGH l);
        sbuf \<leftarrow> wr sbuf (j + 1) (BYTE_LOW l);
        sbuf \<leftarrow> or_at sbuf i 0x0e;
        Some (sbuf, j + 2)
      } else if l \<ge> 13 then do {
        sbuf \<leftarrow> wr (put_at sbuf i (word_of_int (16 * d) # bs)) j (BYTE_LOW l);
        sbuf \<leftarrow> or_at sbuf i 0x0d;
        Some (sbuf, j + 1)
      } else do {
        sbuf \<leftarrow> or_at (put_at sbuf i (word_of_int (16 * d) # bs)) i (word_of_int l);
        Some (sbuf, j)
      }) = Some (put_at sbuf i (word_of_int (16 * d + ext_nibble l) # bs @ len_bytes l), j + length (len_bytes l))"
proof -
  have o: "(word_of_int (16 * d) OR 0x0e :: u8) = word_of_int (16 * d + 14)" "(word_of_int (16 * d) OR 0x0d :: u8) = word_of_int (16 * d + 13)"
    using or_nibbles [of 14 d] or_nibbles [of 13 d] by simp_all
  consider "l \<ge> 269" | "13 \<le> l" "l < 269" | "l < 13" by linarith
  then show ?thesis
  proof cases
    case 1
    then show ?thesis
      using assms o by (simp add: Let_def len_bytes_def ext_nibble_def wr_next or_at_head BYTE_HIGH_val BYTE_LOW_val
          del: wr_in of_int_add of_int_mult)
  next
    case 2
    then show ?thesis
      using assms o by (simp add: Let_def len_bytes_def ext_nibble_def wr_next or_at_head BYTE_LOW_val
          del: wr_in of_int_add of_int_mult)
  next
    case 3
    define z where "z = 16 * d"
    have "(word_of_int z OR word_of_int l :: u8) = word_of_int (z + l)"
      using or_nibbles [of l d] 3 assms(1) by (simp only: z_def) simp
    then show ?thesis
      using 3 assms unfolding z_def [symmetric] by (simp add: len_bytes_def ext_nibble_def or_at_head del: of_int_add)
  qed
qed

lemma encode_option_val:
  assumes "wf_option o1" "0 \<le> optcode o1 - nb" "optcode o1 - nb < 65536" "optlen o1 < 65536"
    "i + length (opt_frame nb (opt_pair o1)) \<le> length sbuf"
  shows "encode_option sbuf i nb o1 =
    Some (put_at sbuf i (opt_frame nb (opt_pair o1)), i + length (opt_frame nb (opt_pair o1)))"
proof -
  define d where "d = optcode o1 - nb"
  define l where "l = optlen o1"
  define v where "v = opt_value o1"
  have v: "int (length v) = l" "slice (OPTVAL o1) 0 (nat l) = Some v"
    using assms(1) by (simp_all add: v_def l_def length_opt_value OPTVAL_slice)
  have d: "0 \<le> d" "d < 65536" "0 \<le> l" "l < 65536" using assms v by (simp_all add: d_def l_def)
  have frame: "opt_frame nb (opt_pair o1) =
      word_of_int (16 * ext_nibble d + ext_nibble l) # ext_bytes d @ len_bytes l @ v"
    by (simp add: opt_frame_with_def opt_pair_def d_def v v_def [symmetric])
  have fits: "i + Suc (length (ext_bytes d) + length (len_bytes l) + length v) \<le> length sbuf"
    using assms(5) unfolding frame by simp
  have 0: "wr sbuf i 0 = Some (put_at sbuf i [0])" using fits by (intro wr_first) simp
  have 1: "i + Suc (length (ext_bytes d)) \<le> length sbuf"
    "i + Suc (length (ext_bytes d) + length (len_bytes l)) \<le> length sbuf" using fits by simp_all
  show ?thesis
    unfolding encode_option_def Let_def d_def [symmetric] l_def [symmetric] 0 bind.bind_lunit
      delta_part [OF d(1,2) 1(1), unfolded Let_def] prod.case
    unfolding len_part [OF d(3,4) 1(2), unfolded Let_def, OF refl] bind.bind_lunit prod.case v(2)
    unfolding frame using fits
    by (subst mcopy_next) (simp_all add: add_ac)
qed


lemma encode_options_val:
  assumes "list_all wf_option os" "list_all (\<lambda>o1. optlen o1 < 65536) os" "0 \<le> nb" "ascending nb (map opt_pair os)"
    "i + length (opts_frame nb (map opt_pair os)) \<le> length sbuf"
  shows "encode_options os sbuf i nb =
    Some (put_at sbuf i (opts_frame nb (map opt_pair os)), i + length (opts_frame nb (map opt_pair os)))"
  using assms
proof (induction os arbitrary: sbuf i nb)
  case (Cons o1 os)
  define f where "f = opt_frame nb (opt_pair o1)"
  define fs where "fs = opts_frame (optcode o1) (map opt_pair os)"
  have c: "nb \<le> optcode o1" "optcode o1 < 32768" "ascending (optcode o1) (map opt_pair os)"
    using Cons.prems(4) by simp_all
  have fit: "i + length f + length fs \<le> length sbuf"
    using Cons.prems(5) by (simp add: f_def fs_def)
  have 1: "encode_option sbuf i nb o1 = Some (put_at sbuf i f, i + length f)"
    using Cons.prems fit c unfolding f_def by (intro encode_option_val) auto
  have 2: "encode_options os (put_at sbuf i f) (i + length f) (optcode o1) =
      Some (put_at (put_at sbuf i f) (i + length f) fs, i + length f + length fs)"
    using Cons.prems(1-3) c fit unfolding fs_def by (intro Cons.IH) simp_all
  show ?case
    using 1 2 c fit Cons.prems(3) by (simp add: put_at_put_at_adjacent f_def fs_def)
qed simp

lemma length_ext_bytes: "length (ext_bytes v) = (if v \<ge> 269 then 2 else if v \<ge> 13 then 1 else 0)"
  by (simp add: ext_bytes_def)

lemma size_loop_val:
  assumes "list_all wf_option os" "0 \<le> nb" "ascending nb (map opt_pair os)"
  shows "size_loop os nb sz = sz + int (length (opts_frame nb (map opt_pair os)))"
  using assms
proof (induction os arbitrary: nb sz)
  case (Cons o1 os)
  have c: "nb \<le> optcode o1" "optcode o1 < 32768" "ascending (optcode o1) (map opt_pair os)"
    using Cons.prems(3) by simp_all
  have IH: "size_loop os (optcode o1) z = z + int (length (opts_frame (optcode o1) (map opt_pair os)))" for z
    using Cons.prems c by (intro Cons.IH) simp_all
  have l: "int (length (opt_value o1)) = optlen o1" using Cons.prems(1) by (simp add: length_opt_value)
  have m: "optcode o1 mod 65536 = optcode o1" using c Cons.prems(2) by simp
  show ?case
    using l by (auto simp: Let_def m IH opt_frame_pair length_ext_bytes length_len_bytes)
qed simp

section \<open>The whole message\<close>

text \<open>What the encoder relies on, and the bytes it has to produce.\<close>

definition wf_token :: "coap_token \<Rightarrow> bool" where
  "wf_token t \<longleftrightarrow> 0 \<le> toklen t \<and> toklen t \<le> 8 \<and> length (tokval t) = 8"

definition wf_msg :: "slave_msg \<Rightarrow> bool" where
  "wf_msg m \<longleftrightarrow> wf_token (mtoken m) \<and> list_all wf_option (optlist m) \<and> ascending 0 (map opt_pair (optlist m)) \<and>
     (paylen m > 0 \<longrightarrow> (\<exists>p. payload m = Some p \<and> length p = unat (paylen m)))"

definition token_bytes :: "coap_token \<Rightarrow> u8 list" where
  "token_bytes t = take (nat (toklen t)) (tokval t)"

definition msg_payload :: "slave_msg \<Rightarrow> u8 list" where
  "msg_payload m = (if paylen m > 0 then case payload m of Some p \<Rightarrow> p | None \<Rightarrow> [] else [])"

definition msg_frame :: "slave_msg \<Rightarrow> u8 list" where
  "msg_frame m = header_frame (mtype m) (mcode m) (mid m) (token_bytes (mtoken m)) @
     opts_frame 0 (map opt_pair (optlist m)) @ payload_frame (msg_payload m)"

lemma length_token_bytes: "wf_token t \<Longrightarrow> int (length (token_bytes t)) = toklen t"
  by (auto simp: wf_token_def token_bytes_def min_def)

lemma length_msg_payload: "wf_msg m \<Longrightarrow> length (msg_payload m) = unat (paylen m)"
  by (auto simp: wf_msg_def msg_payload_def word_gt_0)

lemma coap_size_val:
  assumes "wf_msg m"
  shows "coap_size m False = int (length (msg_frame m)) mod 65536"
proof -
  have t: "int (length (token_bytes (mtoken m))) = toklen (mtoken m)"
    using assms by (intro length_token_bytes) (simp add: wf_msg_def)
  have s: "size_loop (optlist m) 0 z = z + int (length (opts_frame 0 (map opt_pair (optlist m))))" for z
    using assms by (intro size_loop_val) (simp_all add: wf_msg_def)
  have p: "int (length (payload_frame (msg_payload m))) = (if paylen m > 0 then 1 + uint (paylen m) else 0)"
    using length_msg_payload [OF assms] by (auto simp: payload_frame_def word_gt_0 unat_eq_zero)
  show ?thesis
    using t p by (auto simp: coap_size_def msg_frame_def header_frame_def s Let_def algebra_simps)
qed

lemma option_length_le: "o1 \<in> set os \<Longrightarrow> length (opt_value o1) \<le> length (opts_frame nb (map opt_pair os))"
  by (induction os arbitrary: nb) (auto simp: opt_frame_with_def opt_pair_def le_SucI trans_le_add1 trans_le_add2)

lemma option_lengths:
  assumes "list_all wf_option os" "length (opts_frame nb (map opt_pair os)) < 65536"
  shows "list_all (\<lambda>o1. optlen o1 < 65536) os"
proof -
  have "optlen o1 < 65536" if "o1 \<in> set os" for o1
    using option_length_le [OF that, of nb] length_opt_value [of o1] assms that by (auto simp: list_all_iff)
  then show ?thesis by (simp add: list_all_iff)
qed

lemma uint_u16_less: "uint (w :: u16) < 65536"
  using uint_bounded [of w] by simp

lemma header_bytes:
  "FORMAT_BYTE0 CASAN_VERSION t n = 0x40 OR push_bit 4 (t AND 3) OR (word_of_int n AND 7)"
  "BYTE_HIGH (uint (w :: u16)) = ucast (drop_bit 8 w)" "BYTE_LOW (uint w) = ucast w"
proof -
  have "push_bit 6 (CASAN_VERSION AND 3) = 0x40" by (simp add: CASAN_VERSION_def)
  then show "FORMAT_BYTE0 CASAN_VERSION t n = 0x40 OR push_bit 4 (t AND 3) OR (word_of_int n AND 7)"
    by (simp only: FORMAT_BYTE0_def or.assoc)
  show "BYTE_HIGH (uint w) = ucast (drop_bit 8 w)"
    using uint_u16_less [of w] by (simp add: BYTE_HIGH_val drop_bit_eq_div uint_div word_uint_eq_iff unsigned_ucast_eq uint_word_of_int take_bit_eq_mod)
  show "BYTE_LOW (uint w) = ucast w" by (simp add: BYTE_LOW_val)
qed


lemma put_header: "4 \<le> length f \<Longrightarrow> f[0 := a, 1 := b, 2 := c, 3 := d] = put_at f 0 [a, b, c, d]"
  by (auto simp: put_at_def numeral_eq_Suc Suc_le_length_iff)

lemma wr_header:
  "4 \<le> length f \<Longrightarrow>
   do { f \<leftarrow> wr f 0 a; f \<leftarrow> wr f 1 b; f \<leftarrow> wr f 2 c; f \<leftarrow> wr f 3 d; k f } = k (put_at f 0 [a, b, c, d])"
  by (cases "f = []") (simp_all add: put_header [unfolded One_nat_def])

lemma after_loop_sel [simp]:
  "encoded (after_loop m) = encoded m" "enclen (after_loop m) = enclen m" "mtype (after_loop m) = mtype m"
  "mcode (after_loop m) = mcode m" "mid (after_loop m) = mid m" "mtoken (after_loop m) = mtoken m"
  "paylen (after_loop m) = paylen m" "payload (after_loop m) = payload m" "optlist (after_loop m) = optlist m"
  "after_loop (after_loop m) = after_loop m"
  by (simp_all add: after_loop_def)

lemma coap_encode_val:
  assumes m: "wf_msg m" and small: "length (msg_frame m) < 65536" and n: "n \<le> length sbuf"
  shows "coap_encode m sbuf n =
    (if length (msg_frame m) \<le> n
     then Some (True, put_at sbuf 0 (msg_frame m), length (msg_frame m), after_loop m)
     else Some (False, sbuf, n, after_loop m))"
proof (cases "length (msg_frame m) \<le> n")
  case True
  define tk where "tk = token_bytes (mtoken m)"
  define h where "h = [0x40 OR push_bit 4 (mtype m AND 3) OR (of_nat (length tk) AND 7), mcode m, ucast (drop_bit 8 (mid m)), ucast (mid m)]"
  define fs where "fs = opts_frame 0 (map opt_pair (optlist m))"
  define pf where "pf = payload_frame (msg_payload m)"
  have frame: "msg_frame m = h @ tk @ fs @ pf"
    by (simp add: msg_frame_def header_frame_def h_def tk_def fs_def pf_def)
  have fit: "length h + length tk + length fs + length pf \<le> length sbuf" using True n by (simp add: frame)
  have tok: "int (length tk) = toklen (mtoken m)" using m unfolding tk_def by (intro length_token_bytes) (simp add: wf_msg_def)
  have h4: "length h = 4" by (simp add: h_def)
  have head: "[FORMAT_BYTE0 CASAN_VERSION (mtype m) (toklen (mtoken m)), mcode m, BYTE_HIGH (uint (mid m)), BYTE_LOW (uint (mid m))] = h"
    using tok by (simp add: header_bytes h_def flip: tok)
  have opts: "encode_options (optlist m) (put_at sbuf 0 (h @ tk)) (length h + length tk) 0 =
      Some (put_at sbuf 0 (h @ tk @ fs), length h + length tk + length fs)"
    using m small fit unfolding fs_def
    by (subst encode_options_val) (auto intro: option_lengths [of _ 0] simp: wf_msg_def frame fs_def put_at_two)
  have tkcopy: "(if toklen (mtoken m) > 0 then do {
           sbuf \<leftarrow> mcopy (put_at sbuf 0 h) 4 (tokval (mtoken m)) 0 (nat (toklen (mtoken m)));
           Some (sbuf, 4 + nat (toklen (mtoken m)))
         } else Some (put_at sbuf 0 h, 4)) = Some (put_at sbuf 0 (h @ tk), length h + length tk)"
    using tok fit h4 m by (auto simp: mcopy_in put_at_two tk_def token_bytes_def wf_msg_def wf_token_def)
  have pay: "(if paylen m > 0 then do {
           sbuf \<leftarrow> wr (put_at sbuf 0 (h @ tk @ fs)) (length h + length tk + length fs) 0xff;
           p \<leftarrow> payload m;
           mcopy sbuf (length h + length tk + length fs + 1) p 0 (unat (paylen m))
         } else Some (put_at sbuf 0 (h @ tk @ fs))) = Some (put_at sbuf 0 (h @ tk @ fs @ pf))"
  proof (cases "paylen m > 0")
    case True
    then obtain p where p: "payload m = Some p" "length p = unat (paylen m)" using m by (auto simp: wf_msg_def)
    then have "p \<noteq> []" using True by (auto simp: word_gt_0 unat_eq_zero)
    then have pf: "pf = 0xff # p" using True p by (simp add: pf_def payload_frame_def msg_payload_def)
    then show ?thesis
      using True p fit by (simp add: wr_next mcopy_next flip: p(2) del: wr_in)
  next
    case False
    then show ?thesis by (simp add: pf_def payload_frame_def msg_payload_def)
  qed
  have sz: "int (length (msg_frame m)) mod 65536 = int (length (msg_frame m))" using small by simp
  have fit4: "4 \<le> length sbuf" using fit h4 by simp
  show ?thesis
    unfolding coap_encode_def Let_def coap_size_val [OF m] after_loop_sel frame [symmetric]
    by (simp only: sz True if_True wr_header [OF fit4] head tkcopy bind.bind_lunit prod.case opts pay frame [symmetric] nat_int)
next
  case False
  then show ?thesis using m small by (simp add: coap_encode_def coap_size_val)
qed


section \<open>Decoding what the format says\<close>

lemma int16_id: "- 32768 \<le> z \<Longrightarrow> z < 32768 \<Longrightarrow> int16 z = z"
  by (simp add: int16_def)

lemma read_ext_0:
  assumes "0 \<le> v" "v < 13"
  shows "read_ext b i (ext_nibble v) = Some (v, i, True)"
  using assms by (simp add: read_ext_def ext_nibble_def)

lemma read_ext_1:
  assumes "13 \<le> v" "v < 269" "drop i b = x # xs"
  shows "read_ext b i (ext_nibble v) = Some (uint x + 13, i + 1, True)"
  using assms rd_at [OF assms(3)] by (simp add: read_ext_def ext_nibble_def)

lemma read_ext_2:
  assumes "269 \<le> v" "v < 32768" "drop i b = word_of_int ((v - 269) div 256) # word_of_int (v - 269) # xs"
  shows "read_ext b i (ext_nibble v) = Some (v, i + 2, True)"
proof -
  have "rd b i = Some (word_of_int ((v - 269) div 256))" "rd b (i + 1) = Some (word_of_int (v - 269))"
    using rd_at [OF assms(3)] rd_at [of "Suc i" b] drop_SucI [OF assms(3)] by simp_all
  moreover define z where "z = v - 269"
  moreover have "uint (word_of_int (z div 256) :: u8) = z div 256" "uint (word_of_int z :: u8) = z mod 256"
    using assms by (simp_all add: z_def uint_byte del: of_int_diff)
  moreover have "256 * (z div 256) + z mod 256 = z" by simp
  moreover have "0 \<le> 256 * (z div 256)" "256 * (z div 256) \<le> z" using assms by (simp_all add: z_def)
  ultimately show ?thesis
    using assms by (simp add: read_ext_def ext_nibble_def push_bit_eq_mult int16_id mult.commute)
qed

lemma read_ext_val:
  assumes "0 \<le> v" "v < 32768" "drop i b = ext_bytes v @ xs"
  shows "read_ext b i (ext_nibble v) = Some (v, i + length (ext_bytes v), True)"
proof -
  consider "v < 13" | "13 \<le> v" "v < 269" | "269 \<le> v" by linarith
  then show ?thesis
  proof cases
    case 1
    then show ?thesis using assms by (simp add: read_ext_0 ext_bytes_def)
  next
    case 2
    then have "drop i b = word_of_int (v - 13) # xs" using assms(3) by (simp add: ext_bytes_def)
    then show ?thesis using 2 by (simp add: read_ext_1 uint_byte ext_bytes_def del: of_int_diff)
  next
    case 3
    then have "drop i b = word_of_int ((v - 269) div 256) # word_of_int (v - 269) # xs" using assms(3) by (simp add: ext_bytes_def)
    then show ?thesis using 3 assms(2) by (simp add: read_ext_2 ext_bytes_def)
  qed
qed

text \<open>The length that is read when \<open>l\<close> has been written.\<close>

definition read_len :: "nat \<Rightarrow> nat" where
  "read_len l = (if 13 \<le> l \<and> l < 269 then l mod 256 + 13 else l)"

lemma read_len_sound: "sound_len l \<Longrightarrow> read_len l = l"
  by (auto simp: sound_len_def read_len_def)

lemma read_len_val:
  assumes "l < 32768" "drop i b = len_bytes (int l) @ xs"
  shows "read_ext b i (ext_nibble (int l)) = Some (int (read_len l), i + length (len_bytes (int l)), True)"
proof (cases "13 \<le> l \<and> l < 269")
  case True
  then have "drop i b = word_of_int (int l) # xs" using assms(2) by (simp add: len_bytes_def)
  then show ?thesis using True by (simp add: read_ext_1 read_len_def len_bytes_def unsigned_of_nat take_bit_eq_mod zmod_int)
next
  case False
  then have "len_bytes (int l) = ext_bytes (int l)" by (auto simp: len_bytes_def ext_bytes_def)
  then show ?thesis using assms False read_ext_val [of "int l" i b xs] by (auto simp: read_len_def)
qed

lemma insert_option_last: "list_all (\<lambda>o1. optcode o1 \<le> optcode n) os \<Longrightarrow> insert_option n os = os @ [n]"
  by (induction os) (auto simp: opt_ge_def)

lemma push_option_last:
  assumes "wf_option o1" "list_all (\<lambda>o2. optcode o2 \<le> optcode o1) (optlist m)"
  shows "\<exists>o2. push_option m o1 = Some (m\<lparr>optlist := optlist m @ [o2]\<rparr>) \<and> wf_option o2 \<and> opt_pair o2 = opt_pair o1"
  using option_copy_val [OF assms(1)] assms(2) by (auto simp: push_option_def insert_option_last opt_pair_def)

lemma decode_option_val:
  assumes d: "drop i b = opt_frame nb (c, v) @ rest"
    and c: "0 \<le> nb" "nb \<le> c" "c < 32768" and l: "length v < 32768" "read_len (length v) \<le> length v + length rest"
    and m: "list_all (\<lambda>o1. optcode o1 \<le> nb) (optlist m)"
  shows "\<exists>o2. decode_option b i nb m =
      Some (True, i + length (opt_frame nb (c, v)) - length v + read_len (length v), c, m\<lparr>optlist := optlist m @ [o2]\<rparr>) \<and>
    wf_option o2 \<and> opt_pair o2 = (c, take (read_len (length v)) (v @ rest))"
proof -
  define dn where "dn = ext_nibble (c - nb)"
  define ln where "ln = ext_nibble (int (length v))"
  define h where "h = (word_of_int (16 * dn + ln) :: u8)"
  define j where "j = i + 1 + length (ext_bytes (c - nb))"
  define k where "k = j + length (len_bytes (int (length v)))"
  have n: "0 \<le> dn" "dn < 16" "0 \<le> ln" "ln < 16"
    using ext_nibble_range [of "c - nb"] ext_nibble_range [of "int (length v)"] c by (simp_all add: dn_def ln_def)
  have d0: "drop i b = h # ext_bytes (c - nb) @ len_bytes (int (length v)) @ v @ rest"
    using d by (simp add: opt_frame_with_def h_def dn_def ln_def)
  have d1: "drop (i + 1) b = ext_bytes (c - nb) @ len_bytes (int (length v)) @ v @ rest"
    using drop_SucI [OF d0] by simp
  then have d2: "drop j b = len_bytes (int (length v)) @ v @ rest"
    unfolding j_def by (metis append_eq_conv_conj drop_drop add.commute)
  then have d3: "drop k b = v @ rest"
    unfolding k_def by (metis append_eq_conv_conj drop_drop add.commute)
  have r1: "read_ext b (i + 1) dn = Some (c - nb, j, True)"
    unfolding dn_def j_def using c d1 by (intro read_ext_val) auto
  have r2: "read_ext b j ln = Some (int (read_len (length v)), k, True)"
    unfolding ln_def k_def using l(1) d2 by (intro read_len_val)
  obtain o1 where o1: "set_optval (set_optcode option_new c) (drop k b) (int (read_len (length v))) = Some o1" "wf_option o1"
    "opt_pair o1 = (c, take (read_len (length v)) (v @ rest))"
    using set_optval_val [of "set_optcode option_new c" "int (read_len (length v))" "drop k b"] l(2)
    by (auto simp: d3 set_optcode_def wf_option_def option_new_def opt_pair_def)
  then have "optcode o1 = c" by (simp add: opt_pair_def)
  then obtain o2 where o2: "push_option m o1 = Some (m\<lparr>optlist := optlist m @ [o2]\<rparr>)" "wf_option o2" "opt_pair o2 = opt_pair o1"
    using push_option_last [OF o1(2), of m] m c(2) by (fastforce simp: list_all_iff)
  have "k + length v = i + length (opt_frame nb (c, v))" by (simp add: k_def j_def opt_frame_with_def)
  then have k: "k + read_len (length v) = i + length (opt_frame nb (c, v)) - length v + read_len (length v)" by simp
  have nib: "uint (drop_bit 4 h AND 15) = dn" "uint (h AND 15) = ln" using nibbles_of_header [OF n] by (simp_all only: h_def)
  have "int16 (nb + (c - nb)) = c" using c by (simp add: int16_id)
  then show ?thesis
    using o2 o1 n r1 r2 rd_at [OF d0]
    by (intro exI [of _ o2]) (simp add: decode_option_def nib flip: k)
qed


lemma decode_options_val:
  assumes "drop i b = opts_frame nb os @ rest" "i \<le> length b" "0 \<le> nb" "ascending nb os"
    "list_all (\<lambda>cv. sound_len (length (snd cv))) os" "list_all (\<lambda>o1. optcode o1 \<le> nb) (optlist m)"
    "n = i + length (opts_frame nb os) \<or> i + length (opts_frame nb os) < n \<and> (\<exists>xs. rest = 0xff # xs)"
  shows "\<exists>ol. decode_options b n i nb m = Some (True, i + length (opts_frame nb os), m\<lparr>optlist := optlist m @ ol\<rparr>) \<and>
    list_all wf_option ol \<and> map opt_pair ol = os"
  using assms
proof (induction os arbitrary: i nb m)
  case Nil
  then show ?case by (auto simp: decode_options.simps [of b n i] dest!: rd_at intro!: exI [of _ "[]"])
next
  case (Cons cv os)
  obtain c v where cv: "cv = (c, v)" by (cases cv)
  define f where "f = opt_frame nb (c, v)"
  define fs where "fs = opts_frame c os"
  have l: "sound_len (length v)" "read_len (length v) = length v" using Cons.prems(5) cv by (simp_all add: read_len_sound)
  have c: "nb \<le> c" "c < 32768" "ascending c os" using Cons.prems(4) cv by simp_all
  have d: "drop i b = f @ (fs @ rest)" using Cons.prems(1) by (simp add: f_def fs_def cv)
  obtain x where x: "f = x # tl f" "x \<noteq> 0xff"
    using opt_frame_head [of "c - nb" "length v"] c by (simp add: f_def opt_frame_with_def)
  obtain o2 where o2: "decode_option b i nb m = Some (True, i + length f, c, m\<lparr>optlist := optlist m @ [o2]\<rparr>)"
    "wf_option o2" "opt_pair o2 = (c, v)"
    using decode_option_val [of i b nb c v "fs @ rest" m] d c l Cons.prems(3,6) unfolding f_def
    by (auto simp: opt_frame_with_def sound_len_def)
  have co: "optcode o2 = c" using o2(3) by (simp add: opt_pair_def)
  have "i \<le> length b" by fact
  then have d2: "drop (i + length f) b = fs @ rest" and ib: "i + length f \<le> length b"
    using slice_at [OF d] d by (auto simp: slice_def split: if_splits)
  obtain ol where ol: "decode_options b n (i + length f) c (m\<lparr>optlist := optlist m @ [o2]\<rparr>) =
      Some (True, i + length f + length fs, m\<lparr>optlist := optlist m @ [o2] @ ol\<rparr>)" "list_all wf_option ol" "map opt_pair ol = os"
    using Cons.IH [of "i + length f" c "m\<lparr>optlist := optlist m @ [o2]\<rparr>"] d2 ib c Cons.prems(3,5-7) co
    by (force simp: fs_def f_def cv list_all_iff)
  have "i < n" using Cons.prems(7) x by (auto simp: cv f_def [symmetric])
  moreover have "rd b i = Some x" using d x(1) by (metis append_Cons rd_at)
  ultimately show ?case
    using ol o2 x(2) by (intro exI [of _ "o2 # ol"]) (simp add: decode_options.simps [of b n i] cv f_def fs_def)
qed


lemma header_fields:
  fixes t :: u8 and n :: nat
  defines "h \<equiv> 0x40 OR push_bit 4 (t AND 3) OR (of_nat n AND 7)"
  shows "drop_bit 6 h AND 3 = CASAN_VERSION" "drop_bit 4 h AND 3 = t AND 3" "h AND 0x0f = of_nat n AND 7"
proof -
  have b: "i < 8 \<Longrightarrow> i = 0 \<or> i = 1 \<or> i = 2 \<or> i = 3 \<or> i = 4 \<or> i = 5 \<or> i = 6 \<or> i = 7" for i :: nat by linarith
  show "drop_bit 6 h AND 3 = CASAN_VERSION"
    by (rule bit_word_eqI) (auto simp: h_def CASAN_VERSION_def bit_simps dest!: b)
  show "drop_bit 4 h AND 3 = t AND 3"
    by (rule bit_word_eqI) (auto simp: h_def bit_simps dest!: b)
  show "h AND 0x0f = of_nat n AND 7"
    by (rule bit_word_eqI) (auto simp: h_def bit_simps dest!: b)
qed

lemma mid_bytes: "push_bit 8 (ucast (ucast (drop_bit 8 w) :: u8)) OR ucast (ucast w :: u8) = (w :: u16)"
  by (rule bit_word_eqI) (auto simp: bit_simps)

lemma token_nibble: "n < 8 \<Longrightarrow> unat (of_nat n AND 7 :: u8) = n"
proof -
  assume n: "n < 8"
  have "(7 :: u8) = mask 3" by (simp add: mask_eq_exp_minus_1)
  then have "of_nat n AND 7 = (take_bit 3 (of_nat n) :: u8)" by (simp only: take_bit_eq_mask)
  also have "unat \<dots> = n" unfolding unsigned_take_bit_eq using n by (simp add: unat_of_nat take_bit_eq_mod)
  finally show ?thesis .
qed

lemma coap_decode_val:
  assumes m: "wf_msg m" "toklen (mtoken m) < 8" and s: "list_all (\<lambda>o1. sound_len (length (opt_value o1))) (optlist m)"
    and p: "msg_payload m \<noteq> [] \<longrightarrow> junk \<noteq> [] \<and> length (msg_payload m) < 65535"
  shows "\<exists>ol t. coap_decode (msg_frame m @ junk) (length (msg_frame m)) False m0 = Some (True,
      msg_new\<lparr>mtype := mtype m AND 3, mcode := mcode m, mid := mid m, mtoken := \<lparr>toklen = toklen (mtoken m), tokval = t\<rparr>,
        optlist := ol, paylen := (if msg_payload m = [] then 0 else paylen m + 1),
        payload := (if msg_payload m = [] then None else Some (msg_payload m @ [hd junk]))\<rparr>) \<and>
    list_all wf_option ol \<and> map opt_pair ol = map opt_pair (optlist m) \<and>
    take (nat (toklen (mtoken m))) t = token_bytes (mtoken m)"
proof -
  define tk where "tk = token_bytes (mtoken m)"
  define h where "h = 0x40 OR push_bit 4 (mtype m AND 3) OR (of_nat (length tk) AND 7)"
  define os where "os = map opt_pair (optlist m)"
  define fs where "fs = opts_frame 0 os"
  define pf where "pf = payload_frame (msg_payload m)"
  define b where "b = msg_frame m @ junk"
  have frame: "msg_frame m = [h, mcode m, ucast (drop_bit 8 (mid m)), ucast (mid m)] @ tk @ fs @ pf"
    by (simp add: msg_frame_def header_frame_def h_def tk_def fs_def pf_def os_def)
  have tok: "int (length tk) = toklen (mtoken m)" using m unfolding tk_def by (intro length_token_bytes) (simp add: wf_msg_def)
  then have tk7: "length tk < 8" using m by simp
  have hd4: "rd b 0 = Some h" "rd b 1 = Some (mcode m)" "rd b 2 = Some (ucast (drop_bit 8 (mid m)))" "rd b 3 = Some (ucast (mid m))"
    by (simp_all add: b_def frame nth_Cons)
  have n: "unat (h AND 0x0f) = length tk" unfolding h_def header_fields using tk7 by (rule token_nibble)
  have n1: "h AND 0x0f = of_nat (length tk)" "unat (of_nat (length tk) :: u8) = length tk" "uint (of_nat (length tk) :: u8) = int (length tk)"
    using n tk7 by (simp_all add: word_unat_eq_iff unsigned_of_nat take_bit_nat_eq_self take_bit_int_eq_self)
  have tkc: "mcopy (replicate 8 0) 0 b 4 (length tk) = Some (tk @ replicate (8 - length tk) 0)"
    using tk7 by (simp add: mcopy_in b_def frame put_at_def)
  have d: "drop (4 + length tk) b = fs @ (pf @ junk)" by (simp add: b_def frame numeral_eq_Suc)
  have len: "length (msg_frame m) = 4 + length tk + length fs + length pf" by (simp add: frame)
  define m1 where "m1 = msg_new\<lparr>mtype := mtype m AND 3, mtoken := \<lparr>toklen = int (length tk),
    tokval = tk @ replicate (8 - length tk) 0\<rparr>, mcode := mcode m, mid := mid m\<rparr>"
  obtain ol where ol: "decode_options b (length (msg_frame m)) (4 + length tk) 0 m1 =
      Some (True, 4 + length tk + length fs, m1\<lparr>optlist := ol\<rparr>)" "list_all wf_option ol" "map opt_pair ol = os"
  proof -
    have pfe: "length pf = 0 \<or> 0 < length pf \<and> (\<exists>xs. pf @ junk = 0xff # xs)"
      by (auto simp: pf_def payload_frame_def)
    show ?thesis
      using decode_options_val [OF d [unfolded fs_def], of m1 "length (msg_frame m)"] m(1) s pfe that
      by (force simp: b_def frame m1_def msg_new_def wf_msg_def os_def fs_def list_all_iff)
  qed
  have dec: "drop_bit 6 h AND 3 = CASAN_VERSION" "drop_bit 4 h AND 3 = mtype m AND 3"
    unfolding h_def by (rule header_fields)+
  have left: "of_nat (length (msg_frame m)) - of_nat (4 + length tk + length fs) = (of_nat (length pf) :: u16)"
    by (simp add: len)
  have pre: "coap_decode b (length (msg_frame m)) False m0 =
     (let m = m1\<lparr>optlist := ol, paylen := of_nat (length pf)\<rparr> in
       if paylen m > 0 then do {
         x \<leftarrow> rd b (4 + length tk + length fs);
         if x \<noteq> 0xff then Some (False, m)
         else do { m \<leftarrow> set_payload m (drop (4 + length tk + length fs + 1) b) (paylen m); Some (True, m) }
       } else Some (True, m\<lparr>paylen := 0\<rparr>))"
    using hd4 n1 tkc ol(1) dec mid_bytes [of "mid m"] left [simplified]
    by (cases "tk = []")
      (simp_all add: coap_decode_def decode_token_def decode_payload_def Let_def msg_reset_def msg_new_def m1_def Token_new_def COAP_MAX_TOKLEN_def cong: if_cong)
  have t: "take (nat (toklen (mtoken m))) (tk @ replicate (8 - length tk) 0) = tk"
    by (simp flip: tok)
  show ?thesis
  proof (cases "msg_payload m = []")
    case True
    then have "pf = []" by (simp add: pf_def payload_frame_def)
    then show ?thesis
      unfolding b_def [symmetric] pre using True ol t tok
      by (simp add: Let_def m1_def msg_new_def os_def tk_def)
  next
    case False
    define q where "q = msg_payload m"
    have pf: "pf = 0xff # q" using False by (simp add: pf_def q_def payload_frame_def)
    obtain j js where j: "junk = j # js" using False p by (cases junk) auto
    have q: "length q = unat (paylen m)" "length q < 65535" using False p length_msg_payload [OF m(1)] by (simp_all add: q_def)
    then have pl: "of_nat (length pf) = paylen m + 1" "unat (paylen m + 1) = length q + 1"
      by (simp_all add: pf unat_plus_simple [THEN iffD1] unat_word_ariths)
    have at: "drop (4 + length tk + length fs) b = 0xff # q @ junk"
      by (simp add: b_def frame pf numeral_eq_Suc)
    have "slice (drop (4 + length tk + length fs + 1) b) 0 (length q + 1) = Some (q @ [j])"
      using drop_SucI [OF at] by (simp add: slice_def j)
    moreover have "paylen m + 1 > 0" using pl(2) by (auto simp: word_gt_0)
    ultimately show ?thesis
      unfolding b_def [symmetric] pre using False ol t tok rd_at [OF at]
      by (simp add: Let_def pl set_payload_def m1_def msg_new_def os_def tk_def q_def j)
  qed
qed


section \<open>Properties\<close>

text \<open>A request for the witnesses: a POST to \<open>/t\<close> with the payload \<open>hi\<close> and a token of two bytes.\<close>

definition sample_msg :: slave_msg where
  "sample_msg = msg_new\<lparr>mcode := 2, mid := 0x1234, mtoken := \<lparr>toklen = 2, tokval = [1, 2, 0, 0, 0, 0, 0, 0]\<rparr>,
     paylen := 2, payload := Some [0x68, 0x69],
     optlist := [option_new\<lparr>optcode := MO_Uri_Path, optlen := 1, staticval := [0x74, 0, 0, 0, 0, 0, 0, 0, 0]\<rparr>]\<rparr>"

lemma sample_msg_wf: "wf_msg sample_msg"
  by (simp add: sample_msg_def wf_msg_def wf_token_def wf_option_def msg_new_def option_new_def)

lemma sample_msg_frame: "msg_frame sample_msg = [0x42, 2, 0x12, 0x34, 1, 2, 0xb1, 0x74, 0xff, 0x68, 0x69]"
  by (simp add: sample_msg_def msg_frame_def header_frame_def token_bytes_def opt_frame_with_def opt_pair_def opt_value_def OPTVAL_def
      option_new_def msg_new_def msg_payload_def payload_frame_def ext_bytes_def len_bytes_def ext_nibble_def drop_bit_eq_div)

text \<open>
  C15. Encoding is exact and stays inside the buffer: when the message fits into the space it is given,
  the buffer starts with the wire format of the message (header, token, options in the order of the
  list, payload), the reported length is its length and no byte behind it changes; otherwise the call
  fails and the buffer is untouched. The message itself only loses its iterator.
\<close>
theorem slave_encode_exact:
  assumes "wf_msg m" "length (msg_frame m) < 65536" "n \<le> length sbuf"
  shows "coap_encode m sbuf n =
    (if length (msg_frame m) \<le> n
     then Some (True, msg_frame m @ drop (length (msg_frame m)) sbuf, length (msg_frame m), after_loop m)
     else Some (False, sbuf, n, after_loop m))"
  using coap_encode_val [OF assms] by (simp add: put_at_def)

theorem slave_encode_exact_witness:
  "coap_encode sample_msg (replicate 12 0) 12 =
     Some (True, [0x42, 2, 0x12, 0x34, 1, 2, 0xb1, 0x74, 0xff, 0x68, 0x69, 0], 11, after_loop sample_msg)"
  using slave_encode_exact [of sample_msg 12 "replicate 12 0"] sample_msg_wf by (simp add: sample_msg_frame)



text \<open>
  An option value of 13 to 242 bytes does not survive: the encoder writes its length without
  subtracting 13 and the decoder adds 13, so the value that is read runs 13 bytes into what follows.
\<close>
theorem option_value_runs_over:
  assumes "13 \<le> length v" "length v < 243" "13 \<le> length rest" "0 \<le> nb" "nb \<le> c" "c < 32768"
    and "drop i b = opt_frame nb (c, v) @ rest" "optlist m = []"
  shows "\<exists>o2 m'. decode_option b i nb m = Some (True, i + length (opt_frame nb (c, v)) + 13, c, m') \<and>
    optlist m' = [o2] \<and> opt_value o2 = v @ take 13 rest \<and> opt_value o2 \<noteq> v"
proof -
  have r: "read_len (length v) = length v + 13" using assms(1,2) by (simp add: read_len_def)
  have len: "length v \<le> length (opt_frame nb (c, v))" by (simp add: opt_frame_with_def)
  have ne: "take 13 rest \<noteq> []" using assms(3) by (cases rest) auto
  have "i + length (opt_frame nb (c, v)) - length v + (length v + 13) = i + length (opt_frame nb (c, v)) + 13"
    using len by simp
  then show ?thesis
    using decode_option_val [OF assms(7) assms(4-6), of m] assms(1-3,8) ne
    unfolding r by (auto simp: opt_pair_def)
qed

theorem option_value_runs_over_witness:
  "\<exists>o2 m'. decode_option (opt_frame 0 (MO_Uri_Query, replicate 13 0x61) @ replicate 13 0) 0 0 msg_new = Some (True, 29, MO_Uri_Query, m') \<and>
     optlist m' = [o2] \<and> opt_value o2 = replicate 13 0x61 @ replicate 13 0"
  using option_value_runs_over [of "replicate 13 0x61" "replicate 13 0" 0 MO_Uri_Query 0
      "opt_frame 0 (MO_Uri_Query, replicate 13 0x61) @ replicate 13 0" msg_new]
  by (auto simp: msg_new_def opt_frame_with_def ext_bytes_def len_bytes_def)

text \<open>
  A received message whose header announces a token of more than 8 bytes makes the decoder write
  past the token array of the message.
\<close>
theorem long_token_overflows:
  assumes "rd b 0 = Some h" "drop_bit 6 h AND 3 = CASAN_VERSION" "unat (h AND 0x0f) > 8" "4 \<le> length b"
  shows "coap_decode b n truncated m = None"
proof -
  define k where "k = unat (h AND 0x0f)"
  have "mcopy (replicate 8 0 :: u8 list) 0 b 4 k = None" using assms(3) by (simp add: mcopy_def k_def)
  moreover have "0 < k" using assms(3) by (simp add: k_def)
  ultimately show ?thesis
    using assms(1,2,4) by (simp add: coap_decode_def decode_token_def k_def [symmetric] msg_reset_def msg_new_def Token_new_def COAP_MAX_TOKLEN_def)
qed

theorem long_token_overflows_witness: "coap_decode [0x49, 1, 0, 0] 4 False msg_new = None"
  by (rule long_token_overflows [where h = "0x49"]) (simp_all add: CASAN_VERSION_def drop_bit_eq_div)

end
