(* ===== verification/Slave_Time.thy ===== *)
theory Slave_Time
  imports Slave_Msg
begin

text \<open>
  Time, timers and retransmissions of the slave: \<open>arduino/libraries/Casan/time.cpp\<close> and
  \<open>retrans.cpp\<close>. \<open>time_t\<close> has 64 bits, \<open>millis ()\<close> has 32 and its values are arguments. The queue of
  messages to retransmit is the list of its nodes, first node first; what layer 2 is given is part of
  the result. The sum with the floating-point constant 3000.0 in \<open>add\<close> is exact below 2 to the 24th
  milliseconds at least; it is modelled as exact. \<open>print_time\<close> is left out.
\<close>

section \<open>Current time\<close>

definition TIME_HIGH :: "u64 \<Rightarrow> u32" where
  "TIME_HIGH t = ucast (drop_bit 32 t AND 0xffffffff)"

definition TIME_LOW :: "u64 \<Rightarrow> u32" where
  "TIME_LOW t = ucast (t AND 0xffffffff)"

definition MK_TIME :: "u32 \<Rightarrow> u32 \<Rightarrow> u64" where
  "MK_TIME n ms = push_bit 32 (ucast n) OR ucast ms"

definition sync_time :: "u32 \<Rightarrow> u64 \<Rightarrow> u64" where
  "sync_time ms cur =
     (let n = TIME_HIGH cur;
          n = (if ms < TIME_LOW cur then n + 1 else n)
      in MK_TIME n ms)"

section \<open>Timers\<close>

definition TIMER_WAIT_START :: u64 where "TIMER_WAIT_START = 1 * 1000"
definition TIMER_WAIT_INC :: u64 where "TIMER_WAIT_INC = 1 * 1000"
definition TIMER_WAIT_INC_MAX :: u64 where "TIMER_WAIT_INC_MAX = 10 * 1000"
definition TIMER_WAIT_MAX :: u64 where "TIMER_WAIT_MAX = 30 * 1000"
definition TIMER_RENEW_MIN :: u64 where "TIMER_RENEW_MIN = 500"

record twait =
  tw_next :: u64
  tw_inc :: u64
  tw_limit :: u64

definition Twait_init :: "u64 \<Rightarrow> twait" where
  "Twait_init cur = \<lparr>tw_next = cur + TIMER_WAIT_START, tw_inc = TIMER_WAIT_START, tw_limit = cur + TIMER_WAIT_MAX\<rparr>"

definition Twait_next :: "u64 \<Rightarrow> twait \<Rightarrow> bool \<times> twait" where
  "Twait_next cur t =
     (if cur \<ge> tw_next t then
        let inc = tw_inc t + TIMER_WAIT_INC;
            inc = (if inc > TIMER_WAIT_INC_MAX then TIMER_WAIT_INC_MAX else inc)
        in (True, t\<lparr>tw_inc := inc, tw_next := tw_next t + inc\<rparr>)
      else (False, t))"

definition Twait_expired :: "u64 \<Rightarrow> twait \<Rightarrow> bool" where
  "Twait_expired cur t \<longleftrightarrow> cur \<ge> tw_limit t"

record trenew =
  tr_inc :: u64
  tr_next :: u64
  tr_limit :: u64

definition Trenew_init :: "u64 \<Rightarrow> u64 \<Rightarrow> trenew" where
  "Trenew_init cur sttl = \<lparr>tr_inc = sttl div 2, tr_next = cur + sttl div 2, tr_limit = cur + sttl\<rparr>"

definition Trenew_next :: "u64 \<Rightarrow> trenew \<Rightarrow> bool \<times> trenew" where
  "Trenew_next cur t =
     (if cur \<ge> tr_next t then
        let inc = tr_inc t div 2;
            inc = (if inc \<le> TIMER_RENEW_MIN then TIMER_RENEW_MIN else inc)
        in (True, t\<lparr>tr_inc := inc, tr_next := tr_next t + inc\<rparr>)
      else (False, t))"

definition Trenew_renew :: "u64 \<Rightarrow> trenew \<Rightarrow> bool \<times> trenew" where
  "Trenew_renew cur t = Trenew_next cur t"

definition Trenew_expired :: "u64 \<Rightarrow> trenew \<Rightarrow> bool" where
  "Trenew_expired cur t \<longleftrightarrow> cur \<ge> tr_limit t"

section \<open>Retransmissions\<close>

definition ACK_TIMEOUT :: u64 where "ACK_TIMEOUT = 2000"
definition MAX_RETRANSMIT :: u8 where "MAX_RETRANSMIT = 4"

record retransq =
  rmsg :: slave_msg
  timelast :: u64
  timenext :: u64
  ntrans :: u8

definition Retrans_reset :: "retransq list \<Rightarrow> retransq list" where
  "Retrans_reset q = []"

text \<open>\<open>ALEA (ACK_TIMEOUT * ACK_RANDOM_FACTOR)\<close> is 2000 * 1.5. The result holds \<open>curtime\<close> and the queue.\<close>

definition Retrans_add :: "u32 \<Rightarrow> u64 \<Rightarrow> slave_msg \<Rightarrow> retransq list \<Rightarrow> u64 \<times> retransq list" where
  "Retrans_add ms curtime m q =
     (let curtime = sync_time ms curtime in
      (curtime, \<lparr>rmsg = m, timelast = curtime, timenext = curtime + 3 * ACK_TIMEOUT div 2, ntrans = 0\<rparr> # q))"

text \<open>\<open>get\<close> finds the first node with the message id, \<open>del\<close> takes a node out.\<close>

fun Retrans_get :: "slave_msg \<Rightarrow> retransq list \<Rightarrow> nat option" where
  "Retrans_get m [] = None"
| "Retrans_get m (r # q) = (if mid (rmsg r) = mid m then Some 0 else map_option Suc (Retrans_get m q))"

definition Retrans_del_at :: "nat \<Rightarrow> retransq list \<Rightarrow> retransq list" where
  "Retrans_del_at i q = take i q @ drop (Suc i) q"

definition Retrans_del :: "slave_msg \<Rightarrow> retransq list \<Rightarrow> retransq list" where
  "Retrans_del m q = (case Retrans_get m q of None \<Rightarrow> q | Some i \<Rightarrow> Retrans_del_at i q)"

definition check_msg_received :: "slave_msg \<Rightarrow> retransq list \<Rightarrow> retransq list" where
  "check_msg_received m q = (if mtype m = COAP_TYPE_ACK then Retrans_del m q else q)"

definition check_msg_sent :: "u32 \<Rightarrow> u64 \<Rightarrow> slave_msg \<Rightarrow> retransq list \<Rightarrow> u64 \<times> retransq list" where
  "check_msg_sent ms curtime m q = (if mtype m = COAP_TYPE_CON then Retrans_add ms curtime m q else (curtime, q))"

text \<open>
  The walk through the queue: \<open>send\<close> is the transmission of a message to the master, \<open>ms\<close> the value
  \<open>millis ()\<close> has there. The frames that are handed to layer 2 and the queue.
\<close>

fun Retrans_walk ::
  "(slave_msg \<Rightarrow> (bool \<times> u8 list option \<times> slave_msg) option) \<Rightarrow> u32 \<Rightarrow> u64 \<Rightarrow> retransq list \<Rightarrow> (u8 list list \<times> retransq list) option"
where
  "Retrans_walk send ms curtime [] = Some ([], [])"
| "Retrans_walk send ms curtime (r # q) =
     (if ntrans r \<ge> MAX_RETRANSMIT then Retrans_walk send ms curtime q
      else if timenext r < curtime then do {
        (ok, frame, m) \<leftarrow> send (rmsg r);
        let r = r\<lparr>rmsg := m, ntrans := ntrans r + 1, timenext := timenext r + 2 * (timenext r - timelast r),
                  timelast := sync_time ms (timelast r)\<rparr>;
        (fs, q) \<leftarrow> Retrans_walk send ms curtime q;
        Some (case frame of None \<Rightarrow> fs | Some f \<Rightarrow> f # fs, r # q)
      } else do {
        (fs, q) \<leftarrow> Retrans_walk send ms curtime q;
        Some (fs, r # q)
      })"

definition Retrans_loop ::
  "bool \<Rightarrow> (slave_msg \<Rightarrow> (bool \<times> u8 list option \<times> slave_msg) option) \<Rightarrow> u32 \<Rightarrow> u64 \<Rightarrow> retransq list \<Rightarrow> (u8 list list \<times> retransq list) option"
where
  "Retrans_loop master_known send ms curtime q =
     (if \<not> master_known then Some ([], Retrans_reset q) else Retrans_walk send ms curtime q)"

section \<open>Laws\<close>

lemma ucast_of_nat_32: "ucast (of_nat k :: u64) = (of_nat k :: u32)"
  by (auto intro!: bit_word_eqI simp: bit_simps)

lemma TIME_of_nat:
  assumes "t < 2 ^ 64"
  shows "TIME_HIGH (of_nat t) = of_nat (t div 2 ^ 32)" "TIME_LOW (of_nat t) = of_nat t"
proof -
  have u: "unat (of_nat t :: u64) = t" using assms by (simp add: unat_of_nat)
  have "unat (drop_bit 32 (of_nat t :: u64)) = t div 2 ^ 32"
    unfolding unsigned_drop_bit_eq u using assms by (simp add: drop_bit_eq_div take_bit_nat_eq_self)
  moreover have "unat (of_nat (t div 2 ^ 32) :: u64) = t div 2 ^ 32"
    using assms by (simp add: unat_of_nat)
  ultimately have "drop_bit 32 (of_nat t :: u64) = of_nat (t div 2 ^ 32)"
    by (simp only: word_unat_eq_iff)
  then show "TIME_HIGH (of_nat t) = of_nat (t div 2 ^ 32)"
    unfolding TIME_HIGH_def ucast_and_mask32 by (simp add: ucast_of_nat_32)
  show "TIME_LOW (of_nat t) = of_nat t"
    unfolding TIME_LOW_def ucast_and_mask32 by (simp add: ucast_of_nat_32)
qed

lemma unat32_less: "unat (n :: u32) < 4294967296"
  using uint32_less [of n] unfolding unat_eq_nat_uint by linarith

lemma unat_ucast_32_64: "unat (ucast (n :: u32) :: u64) = unat n"
  by (simp only: unat_eq_nat_uint uint_ucast_32_64)

lemma unat_MK_TIME: "unat (MK_TIME n ms) = 2 ^ 32 * unat n + unat ms"
proof -
  have "push_bit 32 (ucast n :: u64) OR ucast ms = push_bit 32 (ucast n) + ucast ms"
    by (rule disjunctive_add [symmetric]) (auto simp: bit_simps dest: bit_imp_le_length)
  moreover have "unat (push_bit 32 (ucast n :: u64)) = 2 ^ 32 * unat n"
    using unat32_less [of n] by (simp add: push_bit_eq_mult unat_word_ariths unat_ucast_32_64)
  moreover have "unat (ucast ms :: u64) = unat ms" by (simp add: unat_ucast_32_64)
  ultimately show ?thesis
    using unat32_less [of n] unat32_less [of ms] by (simp add: MK_TIME_def unat_word_ariths)
qed

text \<open>
  C33. The 64-bit time follows the true time through every rollover of the 32-bit counter \<open>millis ()\<close>,
  provided that less than 2 to the 32nd milliseconds (49.7 days) pass between two calls.
\<close>
theorem sync_time_follows:
  assumes "t0 \<le> t" "t < t0 + 2 ^ 32" "t < 2 ^ 64"
  shows "sync_time (of_nat t) (of_nat t0) = of_nat t"
proof -
  have t0: "t0 < 2 ^ 64" using assms by simp
  define q where "q = t0 div 2 ^ 32"
  have q: "q < 2 ^ 32" using t0 by (simp add: q_def)
  have split: "t = 2 ^ 32 * (t div 2 ^ 32) + t mod 2 ^ 32" "t0 = 2 ^ 32 * q + t0 mod 2 ^ 32" by (simp_all add: q_def)
  have lt: "(of_nat t :: u32) < TIME_LOW (of_nat t0) \<longleftrightarrow> t mod 2 ^ 32 < t0 mod 2 ^ 32"
    by (simp add: TIME_of_nat [OF t0] word_less_nat_alt unat_of_nat)
  have "t div 2 ^ 32 = q \<or> t div 2 ^ 32 = q + 1"
  proof -
    have "q \<le> t div 2 ^ 32" unfolding q_def using assms(1) by (rule div_le_mono)
    moreover have "t div 2 ^ 32 \<le> (t0 + 2 ^ 32) div 2 ^ 32" using assms(2) by (intro div_le_mono) simp
    moreover have "(t0 + 2 ^ 32) div 2 ^ 32 = q + 1" by (simp add: q_def)
    ultimately show ?thesis by linarith
  qed
  then have tq: "t div 2 ^ 32 = (if t mod 2 ^ 32 < t0 mod 2 ^ 32 then q + 1 else q)"
  proof
    assume "t div 2 ^ 32 = q"
    then have "t = 2 ^ 32 * q + t mod 2 ^ 32" using split(1) by metis
    then have "t0 mod 2 ^ 32 \<le> t mod 2 ^ 32" using split(2) assms(1) by linarith
    then show ?thesis using \<open>t div 2 ^ 32 = q\<close> by simp
  next
    assume a: "t div 2 ^ 32 = q + 1"
    then have "t = 2 ^ 32 * (q + 1) + t mod 2 ^ 32" using split(1) by metis
    then have "t mod 2 ^ 32 < t0 mod 2 ^ 32" using split(2) assms(2) unfolding distrib_left mult_1_right by linarith
    then show ?thesis using a by simp
  qed
  have tb: "t div 2 ^ 32 < 2 ^ 32" using assms(3) by (simp add: less_mult_imp_div_less)
  have hi: "(if (of_nat t :: u32) < TIME_LOW (of_nat t0) then TIME_HIGH (of_nat t0) + 1 else TIME_HIGH (of_nat t0)) = of_nat (t div 2 ^ 32)"
    unfolding lt tq TIME_of_nat(1) [OF t0] q_def by simp
  have "unat (sync_time (of_nat t) (of_nat t0)) = 2 ^ 32 * (t div 2 ^ 32) + t mod 2 ^ 32"
    unfolding sync_time_def Let_def hi unat_MK_TIME using tb by (simp add: unat_of_nat)
  then have "unat (sync_time (of_nat t) (of_nat t0)) = unat (of_nat t :: u64)"
    using assms(3) split(1) by (simp add: unat_of_nat)
  then show ?thesis by (simp only: word_unat_eq_iff)
qed

theorem sync_time_follows_witness: "sync_time 5 0x1FFFFFFF0 = 0x200000005"
proof -
  have "sync_time (of_nat 8589934597) (of_nat 8589934576) = of_nat 8589934597" by (rule sync_time_follows) simp_all
  moreover have "(of_nat 8589934597 :: u32) = 5" by (simp add: word_unat_eq_iff unat_of_nat)
  ultimately show ?thesis by (simp only: of_nat_numeral)
qed

text \<open>What the entries of the queue may still send.\<close>

definition budget :: "retransq list \<Rightarrow> nat" where
  "budget q = sum_list (map (\<lambda>r. 4 - unat (ntrans r)) q)"

lemma Retrans_walk_budget:
  "Retrans_walk send ms cur q = Some (fs, q') \<Longrightarrow> length fs + budget q' \<le> budget q \<and> length q' \<le> length q"
proof (induction q arbitrary: fs q')
  case (Cons r q)
  have n: "unat (ntrans r + 1) = unat (ntrans r) + 1 \<and> unat (ntrans r) < 4" if "ntrans r < MAX_RETRANSMIT"
    using that by (simp add: MAX_RETRANSMIT_def word_less_nat_alt unat_word_ariths)
  from Cons show ?case
    by (fastforce simp: budget_def not_le bind_eq_Some_conv Let_def dest!: n split: if_splits option.splits)
qed (simp add: budget_def)

text \<open>Several calls of \<open>loop\<close>, each with the time it is called at and the master it finds.\<close>

fun Retrans_calls ::
  "(slave_msg \<Rightarrow> (bool \<times> u8 list option \<times> slave_msg) option) \<Rightarrow> (bool \<times> u32 \<times> u64) list \<Rightarrow> retransq list \<Rightarrow> (u8 list list \<times> retransq list) option"
where
  "Retrans_calls send [] q = Some ([], q)"
| "Retrans_calls send ((k, ms, cur) # cs) q = do {
     (fs, q) \<leftarrow> Retrans_loop k send ms cur q;
     (gs, q) \<leftarrow> Retrans_calls send cs q;
     Some (fs @ gs, q)
   }"

lemma Retrans_calls_budget:
  "Retrans_calls send cs q = Some (fs, q') \<Longrightarrow> length fs + budget q' \<le> budget q \<and> length q' \<le> length q"
proof (induction send cs q arbitrary: fs q' rule: Retrans_calls.induct)
  case (2 send k ms cur cs q)
  then obtain f1 q1 f2 where s: "Retrans_loop k send ms cur q = Some (f1, q1)" "Retrans_calls send cs q1 = Some (f2, q')" "fs = f1 @ f2"
    by (auto simp: bind_eq_Some_conv)
  have "length f1 + budget q1 \<le> budget q \<and> length q1 \<le> length q"
    using s(1) Retrans_walk_budget by (auto simp: Retrans_loop_def Retrans_reset_def budget_def split: if_splits)
  then show ?case using 2(1) [OF s(1) refl s(2)] s(3) by simp
qed simp

lemma Retrans_walk_length:
  "Retrans_walk send ms cur q = Some (fs, q') \<Longrightarrow> length q' = length (filter (\<lambda>r. ntrans r < MAX_RETRANSMIT) q)"
  by (induction q arbitrary: fs q') (fastforce simp: bind_eq_Some_conv Let_def not_less split: if_splits option.splits)+

text \<open>
  However often and however late the loop is called, a queue of messages that have just been added
  causes at most four transmissions for each of its messages, and every message that has had its four
  transmissions is dropped by the next call.
\<close>
theorem retransmissions_bounded:
  assumes "Retrans_calls send cs q = Some (fs, q')"
  shows "length fs \<le> 4 * length q \<and> length q' \<le> length q \<and>
    (\<forall>ms cur gs q2. Retrans_walk send ms cur q' = Some (gs, q2) \<longrightarrow> length q2 = length (filter (\<lambda>r. ntrans r < MAX_RETRANSMIT) q'))"
proof -
  have "budget q \<le> 4 * length q" by (induction q) (auto simp: budget_def)
  then show ?thesis using Retrans_calls_budget [OF assms] Retrans_walk_length by fastforce
qed


theorem retransmissions_bounded_witness:
  "\<exists>fs q'. Retrans_calls (\<lambda>m. Some (True, Some [1], m)) [(True, 0, 7), (True, 0, 9)]
      [\<lparr>rmsg = msg_new, timelast = 5, timenext = 6, ntrans = 0\<rparr>] = Some (fs, q') \<and> fs = [[1], [1]] \<and> length fs \<le> 4 * 1"
proof -
  have "\<exists>q'. Retrans_calls (\<lambda>m. Some (True, Some [1], m)) [(True, 0, 7), (True, 0, 9)]
      [\<lparr>rmsg = msg_new, timelast = 5, timenext = 6, ntrans = 0\<rparr>] = Some ([[1], [1]], q')"
    by (simp add: Retrans_loop_def MAX_RETRANSMIT_def word_le_nat_alt)
  then show ?thesis using retransmissions_bounded by fastforce
qed

section \<open>The discover timer\<close>

lemma unat_of_nat_64: "n < 2 ^ 64 \<Longrightarrow> unat (of_nat n :: u64) = n"
  by (simp add: unat_of_nat)

lemma time_small: "z \<le> 8 * 9 \<Longrightarrow> t0 < 2 ^ 63 \<Longrightarrow> t0 + 500 * z < (2 :: nat) ^ 64"
  by simp

text \<open>How often the timer fires when it is asked at the times \<open>cs\<close>.\<close>

fun Twait_run :: "u64 list \<Rightarrow> twait \<Rightarrow> nat \<times> twait" where
  "Twait_run [] t = (0, t)"
| "Twait_run (c # cs) t =
     (let (b, t) = Twait_next c t; (n, t) = Twait_run cs t in (if b then n + 1 else n, t))"

lemma Twait_run_bound:
  assumes "tw_next t = of_nat (t0 + 500 * ((k + 1) * (k + 2)))" "tw_inc t = of_nat (1000 * (k + 1))" "k \<le> 7" "t0 < 2 ^ 63"
    "list_all (\<lambda>c. c < of_nat (t0 + 30000)) cs"
  shows "fst (Twait_run cs t) + k \<le> 7"
  using assms
proof (induction cs arbitrary: t k)
  case (Cons c cs)
  show ?case
  proof (cases "c \<ge> tw_next t")
    case True
    have k8: "(k + 1) * (k + 2) \<le> 8 * 9" using Cons.prems(3) by (intro mult_le_mono) auto
    have "unat (tw_next t) = t0 + 500 * ((k + 1) * (k + 2))"
      unfolding Cons.prems(1) using k8 Cons.prems(4) by (intro unat_of_nat_64 time_small)
    moreover have "unat (of_nat (t0 + 30000) :: u64) = t0 + 30000" using Cons.prems(4) by (intro unat_of_nat_64) simp
    ultimately have "500 * ((k + 1) * (k + 2)) < 30000"
      using True Cons.prems(5) by (simp add: word_le_nat_alt word_less_nat_alt)
    then have "(k + 1) * (k + 2) < 60" by linarith
    then have k6: "k \<le> 6"
      using mult_le_mono [of 8 "k + 1" 9 "k + 2"] by (cases "k \<le> 6") auto
    define t' where "t' = t\<lparr>tw_inc := of_nat (1000 * (k + 2)), tw_next := tw_next t + of_nat (1000 * (k + 2))\<rparr>"
    have "unat (of_nat (1000 * (k + 2)) :: u64) = 1000 * (k + 2)" using k6 by (intro unat_of_nat_64) simp
    then have "of_nat (1000 * (k + 2)) \<le> TIMER_WAIT_INC_MAX"
      using k6 unfolding word_le_nat_alt TIMER_WAIT_INC_MAX_def by (simp only:) simp
    moreover have "tw_inc t + TIMER_WAIT_INC = of_nat (1000 * (k + 2))"
      by (simp add: Cons.prems(2) TIMER_WAIT_INC_def algebra_simps)
    ultimately have n: "Twait_next c t = (True, t')"
      using True by (simp add: Twait_next_def Let_def t'_def)
    have "tw_next t' = of_nat (t0 + 500 * (((k + 1) + 1) * ((k + 1) + 2)))"
      by (simp add: t'_def Cons.prems(1) algebra_simps)
    moreover have "tw_inc t' = of_nat (1000 * ((k + 1) + 1))" by (simp add: t'_def)
    ultimately have "fst (Twait_run cs t') + (k + 1) \<le> 7"
      using k6 Cons.prems(4,5) by (intro Cons.IH) auto
    then show ?thesis by (simp add: n case_prod_beta)
  next
    case False
    then show ?thesis using Cons.IH [OF Cons.prems(1-4)] Cons.prems(5) by (simp add: Twait_next_def split: prod.splits)
  qed
qed simp

text \<open>
  While the slave waits for a known master (30 seconds), the discover timer fires at most seven
  times, however the loop is scheduled; asked right after 1, 3, 6, 10, 15, 21 and 28 seconds it fires
  exactly then.
\<close>
theorem discovers_bounded:
  assumes "t0 < 2 ^ 63" "list_all (\<lambda>c. \<not> Twait_expired c (Twait_init (of_nat t0))) cs"
  shows "fst (Twait_run cs (Twait_init (of_nat t0))) \<le> 7 \<and>
    fst (Twait_run (map (\<lambda>n. of_nat (t0 + 1000 * n)) [1, 3, 6, 10, 15, 21, 28]) (Twait_init (of_nat t0))) = 7"
proof
  have i: "tw_limit (Twait_init (of_nat t0)) = of_nat (t0 + 30000)"
    by (simp add: Twait_init_def TIMER_WAIT_MAX_def)
  show "fst (Twait_run cs (Twait_init (of_nat t0))) \<le> 7"
  proof -
    have "tw_next (Twait_init (of_nat t0)) = of_nat (t0 + 500 * ((0 + 1) * (0 + 2)))" "tw_inc (Twait_init (of_nat t0)) = of_nat (1000 * (0 + 1))"
      by (simp_all add: Twait_init_def TIMER_WAIT_START_def)
    moreover have "list_all (\<lambda>c. c < of_nat (t0 + 30000)) cs" using assms(2) by (simp only: Twait_expired_def i not_le)
    ultimately have "fst (Twait_run cs (Twait_init (of_nat t0))) + 0 \<le> 7" using assms(1) by (intro Twait_run_bound) auto
    then show ?thesis by simp
  qed
  show "fst (Twait_run (map (\<lambda>n. of_nat (t0 + 1000 * n)) [1, 3, 6, 10, 15, 21, 28]) (Twait_init (of_nat t0))) = 7"
  proof -
    define x where "x = (of_nat t0 :: u64)"
    have "map (\<lambda>n. of_nat (t0 + 1000 * n)) [1, 3, 6, 10, 15, 21, 28] = [x + 1000, x + 3000, x + 6000, x + 10000, x + 15000, x + 21000, x + 28000]"
      by (simp add: x_def add.commute [of _ "of_nat t0"])
    then show ?thesis
      unfolding x_def [symmetric]
      by (simp add: Twait_init_def Twait_next_def TIMER_WAIT_START_def TIMER_WAIT_INC_def TIMER_WAIT_INC_MAX_def add.commute [of _ x])
  qed
qed

theorem discovers_bounded_witness:
  "fst (Twait_run [1000, 29999] (Twait_init 0)) \<le> 7 \<and> fst (Twait_run [1000, 3000, 6000, 10000, 15000, 21000, 28000] (Twait_init 0)) = 7"
  using discovers_bounded [of 0 "[1000, 29999]"] by (simp add: Twait_expired_def Twait_init_def TIMER_WAIT_MAX_def)

end
