(* ===== verification/C_Text.thy ===== *)
theory C_Text
  imports Prelude "HOL-Library.Sublist"
begin

text \<open>
  C strings as both programs use them: character constants as bytes, strings that end at the first
  zero byte, \<open>%ld\<close> of \<open>snprintf\<close> and of \<open>sscanf\<close>. A number that does not fit into a \<open>long\<close> makes
  \<open>sscanf\<close> undefined (\<open>None\<close>); \<open>Some None\<close> is a conversion that fails.
\<close>

definition bytes :: "string \<Rightarrow> u8 list" where
  "bytes s = map of_char s"

text \<open>The string that starts at a pointer; without a zero the C library reads on.\<close>

definition cstr :: "u8 list \<Rightarrow> u8 list option" where
  "cstr b = (if 0 \<in> set b then Some (takeWhile (\<lambda>c. c \<noteq> 0) b) else None)"

definition isspace :: "u8 \<Rightarrow> bool" where
  "isspace c \<longleftrightarrow> c = 32 \<or> 9 \<le> c \<and> c \<le> 13"

definition isdigit :: "u8 \<Rightarrow> bool" where
  "isdigit c \<longleftrightarrow> 48 \<le> c \<and> c \<le> 57"

fun dec_nat :: "nat \<Rightarrow> u8 list" where
  "dec_nat n = (if n < 10 then [48 + of_nat n] else dec_nat (n div 10) @ [48 + of_nat (n mod 10)])"

declare dec_nat.simps [simp del]

definition show_ld :: "int \<Rightarrow> u8 list" where
  "show_ld n = (if n < 0 then 45 # dec_nat (nat (- n)) else dec_nat (nat n))"

definition num_of :: "u8 list \<Rightarrow> int" where
  "num_of ds = foldl (\<lambda>v d. 10 * v + (uint d - 48)) 0 ds"

text \<open>\<open>%ld\<close> with a \<open>long\<close> of \<open>w\<close> bits.\<close>

definition scan_ld :: "nat \<Rightarrow> u8 list \<Rightarrow> int option option" where
  "scan_ld w s =
     (let s = dropWhile isspace s;
          neg = (s \<noteq> [] \<and> hd s = 45);
          s = (if s \<noteq> [] \<and> (hd s = 45 \<or> hd s = 43) then tl s else s);
          ds = takeWhile isdigit s;
          v = (if neg then - num_of ds else num_of ds)
      in if ds = [] then Some None
         else if - (2 ^ (w - 1)) \<le> v \<and> v < 2 ^ (w - 1) then Some (Some v) else None)"

text \<open>A format that is a prefix followed by \<open>%ld\<close>.\<close>

definition sscanf_ld :: "nat \<Rightarrow> u8 list \<Rightarrow> u8 list \<Rightarrow> int option option" where
  "sscanf_ld w p s = (if prefix p s then scan_ld w (drop (length p) s) else Some None)"

section \<open>Laws\<close>

lemma length_bytes [simp]: "length (bytes s) = length s"
  by (simp add: bytes_def)

lemma bytes_simps [simp]: "bytes [] = []" "bytes (c # s) = of_char c # bytes s" "bytes (s @ t) = bytes s @ bytes t"
  by (simp_all add: bytes_def)

lemma cstr_append_zero: "0 \<notin> set s \<Longrightarrow> cstr (s @ 0 # r) = Some s"
  by (induction s) (auto simp: cstr_def)

lemma digit_byte: "d < 10 \<Longrightarrow> unat (48 + of_nat d :: u8) = 48 + d"
  by (simp add: unat_word_ariths unat_of_nat)

lemma isdigit_digit: "d < 10 \<Longrightarrow> isdigit (48 + of_nat d)"
  using digit_byte [of d] by (simp add: isdigit_def word_le_nat_alt)

lemma isdigit_nonzero: "isdigit c \<Longrightarrow> c \<noteq> 0 \<and> \<not> isspace c \<and> c \<noteq> 43 \<and> c \<noteq> 45"
  by (auto simp: isdigit_def isspace_def word_le_nat_alt)

lemma dec_nat_digits: "list_all isdigit (dec_nat n) \<and> dec_nat n \<noteq> []"
proof (induction n rule: less_induct)
  case (less n)
  then show ?case
    by (subst dec_nat.simps, subst dec_nat.simps) (auto simp: isdigit_digit simp del: dec_nat.simps)
qed

lemma num_of_snoc: "num_of (ds @ [d]) = 10 * num_of ds + (uint d - 48)"
  by (simp add: num_of_def)

lemma num_of_dec_nat: "num_of (dec_nat n) = int n"
proof (induction n rule: less_induct)
  case (less n)
  have d: "uint (48 + of_nat d :: u8) - 48 = int d" if "d < 10" for d
    using digit_byte [OF that] by (simp add: uint_nat)
  show ?case
  proof (cases "n < 10")
    case True
    then show ?thesis using d [OF True] by (subst dec_nat.simps) (simp add: num_of_def)
  next
    case False
    then have "num_of (dec_nat n) = 10 * num_of (dec_nat (n div 10)) + (uint (48 + of_nat (n mod 10) :: u8) - 48)"
      by (subst dec_nat.simps) (simp add: num_of_snoc)
    also have "\<dots> = 10 * int (n div 10) + int (n mod 10)"
      using less.IH [of "n div 10"] False d [of "n mod 10"] by simp
    also have "\<dots> = int (10 * (n div 10) + n mod 10)" by (simp only: of_nat_add of_nat_mult of_nat_numeral)
    finally show ?thesis by simp
  qed
qed

lemma show_ld_chars: "c \<in> set (show_ld n) \<Longrightarrow> isdigit c \<or> c = 45"
  using dec_nat_digits by (auto simp: show_ld_def list_all_iff split: if_splits)

lemma show_ld_no_zero: "0 \<notin> set (show_ld n)"
  using show_ld_chars [of 0 n] isdigit_nonzero [of 0] by auto

text \<open>Reading a number that has been printed.\<close>

lemma scan_show:
  assumes "- (2 ^ (w - 1)) \<le> n" "n < 2 ^ (w - 1)" "r = [] \<or> \<not> isdigit (hd r)"
  shows "scan_ld w (show_ld n @ r) = Some (Some n)"
proof -
  define ds where "ds = dec_nat (nat \<bar>n\<bar>)"
  have ds: "list_all isdigit ds" "ds \<noteq> []" "num_of ds = \<bar>n\<bar>"
    using dec_nat_digits [of "nat \<bar>n\<bar>"] by (simp_all add: ds_def num_of_dec_nat)
  have tw: "takeWhile isdigit (ds @ r) = ds"
    using ds(1) assms(3) by (cases r) (auto simp: takeWhile_append list_all_iff)
  obtain d ds' where d: "ds = d # ds'" "isdigit d" using ds by (cases ds) auto
  show ?thesis
  proof (cases "n < 0")
    case True
    then have "show_ld n = 45 # ds" by (simp add: show_ld_def ds_def)
    then show ?thesis
      using True tw ds assms by (simp add: scan_ld_def isspace_def word_le_nat_alt Let_def)
  next
    case False
    then have s: "show_ld n = ds" by (simp add: show_ld_def ds_def)
    have "dropWhile isspace (ds @ r) = ds @ r" using d isdigit_nonzero [of d] by simp
    then show ?thesis
      using False tw ds assms d isdigit_nonzero [of d] unfolding s by (simp add: scan_ld_def Let_def)
  qed
qed

lemma sscanf_show:
  assumes "- (2 ^ (w - 1)) \<le> n" "n < 2 ^ (w - 1)" "r = [] \<or> \<not> isdigit (hd r)"
  shows "sscanf_ld w p (p @ show_ld n @ r) = Some (Some n)"
  using scan_show [OF assms] by (simp add: sscanf_ld_def)

end
