(* ===== verification/Slave_Resource.thy ===== *)
theory Slave_Resource
  imports Slave_Msg C_Text
begin

text \<open>
  Resources of the slave: \<open>arduino/libraries/Casan/resource.cpp\<close>. The application's handlers are
  functions on the application's state, of type \<open>'w\<close>. \<open>None\<close> is a call through a null pointer or an
  access outside an array. The name, the title and the type are C strings without their zero. The
  serial number and the token have no initial value in the code; \<open>ohandler\<close> and \<open>observed\<close> set them
  before they are read. \<open>print\<close> is left out.
\<close>

type_synonym 'w handler = "slave_msg option \<Rightarrow> slave_msg \<Rightarrow> 'w \<Rightarrow> u8 \<times> slave_msg \<times> 'w"

record 'w resource =
  handlers :: "'w handler option list"
  res_name :: "u8 list"
  res_title :: "u8 list"
  res_rt :: "u8 list"
  observed_flag :: bool
  obs_reg :: "(slave_msg \<Rightarrow> 'w \<Rightarrow> 'w) option"
  obs_dereg :: "('w \<Rightarrow> 'w) option"
  obs_trig :: "('w \<Rightarrow> bool \<times> 'w) option"
  obs_serial :: u32
  obs_token :: coap_token

definition Resource_new :: "u8 list \<Rightarrow> u8 list \<Rightarrow> u8 list \<Rightarrow> 'w resource" where
  "Resource_new name title rt = \<lparr>handlers = replicate 5 None, res_name = name, res_title = title, res_rt = rt,
     observed_flag = False, obs_reg = None, obs_dereg = None, obs_trig = None, obs_serial = 0, obs_token = Token_new\<rparr>"

definition set_handler :: "nat \<Rightarrow> 'w handler option \<Rightarrow> 'w resource \<Rightarrow> 'w resource option" where
  "set_handler op h r = do { hs \<leftarrow> wr (handlers r) op h; Some (r\<lparr>handlers := hs\<rparr>) }"

definition get_handler :: "nat \<Rightarrow> 'w resource \<Rightarrow> 'w handler option option" where
  "get_handler op r = rd (handlers r) op"

definition ohandler ::
  "(slave_msg \<Rightarrow> 'w \<Rightarrow> 'w) option \<Rightarrow> ('w \<Rightarrow> 'w) option \<Rightarrow> ('w \<Rightarrow> bool \<times> 'w) option \<Rightarrow> 'w resource \<Rightarrow> 'w resource"
where
  "ohandler reg dereg trig r =
     r\<lparr>observed_flag := False, obs_reg := reg, obs_dereg := dereg, obs_trig := trig, obs_serial := 0\<rparr>"

text \<open>\<open>observed (onoff, m)\<close>: the message is given exactly when \<open>onoff\<close> is true.\<close>

definition observed :: "slave_msg option \<Rightarrow> 'w resource \<Rightarrow> 'w \<Rightarrow> ('w resource \<times> 'w) option" where
  "observed reg r w =
     (if obs_trig r \<noteq> None then do {
        w \<leftarrow> (if observed_flag r \<and> obs_trig r \<noteq> None then do { f \<leftarrow> obs_dereg r; Some (f w) } else Some w);
        let r = r\<lparr>observed_flag := (reg \<noteq> None)\<rparr>;
        case reg of
          Some m \<Rightarrow>
            let w = (case obs_reg r of Some f \<Rightarrow> f m w | None \<Rightarrow> w) in
            Some (r\<lparr>obs_serial := 1, obs_token := mtoken m\<rparr>, w)
        | None \<Rightarrow> Some (r, w)
      } else Some (r, w))"

definition check_trigger :: "'w resource \<Rightarrow> 'w \<Rightarrow> bool \<times> 'w" where
  "check_trigger r w =
     (if observed_flag r then (case obs_trig r of Some f \<Rightarrow> f w | None \<Rightarrow> (False, w)) else (False, w))"

definition next_serial :: "'w resource \<Rightarrow> u32 \<times> 'w resource" where
  "next_serial r = (obs_serial r + 1, r\<lparr>obs_serial := obs_serial r + 1\<rparr>)"

text \<open>
  \<open>well_known\<close> at an offset of the buffer: the length with the zero, or \<open>- 1\<close> when the text does not
  fit into \<open>maxlen\<close> bytes. The format has 18 bytes without its arguments, as \<open>sizeof\<close> says.
\<close>

definition well_known_text :: "'w resource \<Rightarrow> u8 list" where
  "well_known_text r = bytes ''<'' @ res_name r @ bytes ''>;title='' @ [34] @ res_title r @ [34] @ bytes '';rt='' @ [34] @ res_rt r @ [34] @
     (if obs_trig r = None then [] else bytes '';obs'')"

definition well_known :: "'w resource \<Rightarrow> u8 list \<Rightarrow> nat \<Rightarrow> nat \<Rightarrow> (int \<times> u8 list) option" where
  "well_known r buf off maxlen =
     (let obs = (if obs_trig r = None then [] else bytes '';obs'');
          len = 18 + length (res_name r) + length (res_title r) + length (res_rt r) + length obs
      in if len > maxlen then Some (- 1, buf)
         else do {
           buf \<leftarrow> mcopy buf off (well_known_text r @ [0]) 0 (length (well_known_text r) + 1);
           Some (int len, buf)
         })"

section \<open>Laws\<close>

lemma length_well_known_text:
  "length (well_known_text r) + 1 = 18 + length (res_name r) + length (res_title r) + length (res_rt r) +
    length (if obs_trig r = None then [] else bytes '';obs'')"
  by (simp add: well_known_text_def)

lemma well_known_val:
  assumes "off + maxlen \<le> length buf"
  shows "well_known r buf off maxlen =
    (if length (well_known_text r) < maxlen
     then Some (int (length (well_known_text r)) + 1, put_at buf off (well_known_text r @ [0]))
     else Some (- 1, buf))"
proof -
  define n where "n = length (well_known_text r)"
  have n: "18 + length (res_name r) + length (res_title r) + length (res_rt r) +
      length (if obs_trig r = None then [] else bytes '';obs'') = n + 1"
    using length_well_known_text [of r] by (simp add: n_def)
  show ?thesis
    using assms unfolding well_known_def Let_def n n_def [symmetric] by (auto simp: mcopy_in n_def)
qed

end
