(* ===== verification/Slave_Engine.thy ===== *)
theory Slave_Engine
  imports Slave_Time Slave_Resource
begin

text \<open>
  The engine of the slave: class \<open>Casan\<close> of \<open>arduino/libraries/Casan/casan.cpp\<close>. Layer 2 is an argument:
  the broadcast address, the largest payload for an MTU, the outcome of a transmission; a call of
  \<open>loop\<close> gets the values of \<open>millis ()\<close> and the result of the reception. The state holds the global
  \<open>curtime\<close>, the MTU of the layer 2 object, the application's state \<open>world\<close> and, in \<open>sent\<close>, what has
  been handed to layer 2 so far, in order. A long has 32 bits and an int 16. \<open>None\<close> is undefined
  behaviour, in particular \<open>*master_\<close> when there is no master. The class variable \<open>errno_\<close> of the
  options is written only and left out, as are the printing functions.
\<close>

section \<open>State\<close>

datatype slave_status = SL_COLDSTART | SL_WAITING_UNKNOWN | SL_RUNNING | SL_RENEW | SL_WAITING_KNOWN

type_synonym l2addr = "u8 list"

record l2net =
  bcastaddr :: l2addr
  maxpayload :: "int \<Rightarrow> nat"
  l2send :: "l2addr \<Rightarrow> u8 list \<Rightarrow> bool"

record 'w casan =
  reslist :: "'w resource list"
  ctime :: u64
  retrans :: "retransq list"
  master :: "l2addr option"
  l2mtu :: int
  defmtu :: int
  curmtu :: int
  slaveid :: int
  status :: slave_status
  sttl :: u64
  hlid :: int
  curid :: int
  twt :: twait
  trn :: trenew
  world :: 'w
  sent :: "(l2addr \<times> u8 list) list"

record loop_in =
  in_ms :: u32
  re_ms :: u32
  rx :: "l2_recv \<times> u8 list \<times> nat"
  src :: l2addr

abbreviation (input) COAP_CODE_OK :: u8 where "COAP_CODE_OK \<equiv> 0x45"
abbreviation (input) COAP_CODE_BAD_REQUEST :: u8 where "COAP_CODE_BAD_REQUEST \<equiv> 0x80"
abbreviation (input) COAP_CODE_NOT_FOUND :: u8 where "COAP_CODE_NOT_FOUND \<equiv> 0x84"
abbreviation (input) COAP_CODE_TOO_LARGE :: u8 where "COAP_CODE_TOO_LARGE \<equiv> 0x8d"

definition casan_namespace :: "u8 list list" where
  "casan_namespace = [bytes ''.well-known'', bytes ''casan'']"

section \<open>MTU and master\<close>

definition negociate_mtu :: "int \<Rightarrow> 'w casan \<Rightarrow> 'w casan" where
  "negociate_mtu mtu c =
     (let n = (if mtu > 0 \<and> mtu \<le> defmtu c then mtu else defmtu c) in c\<lparr>curmtu := n, l2mtu := n\<rparr>)"

definition reset_mtu :: "'w casan \<Rightarrow> 'w casan" where
  "reset_mtu c = negociate_mtu 0 c"

definition reset_master :: "'w casan \<Rightarrow> 'w casan" where
  "reset_master c = reset_mtu (c\<lparr>master := None, hlid := - 1\<rparr>)"

definition same_master :: "l2addr \<Rightarrow> 'w casan \<Rightarrow> bool" where
  "same_master a c \<longleftrightarrow> master c \<noteq> None \<and> a = the (master c)"

text \<open>\<open>newmaster\<close> is the source of the received frame.\<close>

definition change_master :: "l2addr \<Rightarrow> int \<Rightarrow> int \<Rightarrow> 'w casan \<Rightarrow> 'w casan" where
  "change_master newmaster hl mtu c =
     (let c = (case master c of
           Some a \<Rightarrow> if newmaster = a then (if hl \<noteq> - 1 then c\<lparr>hlid := hl\<rparr> else c)
                     else c\<lparr>master := Some newmaster, hlid := hl\<rparr>
         | None \<Rightarrow> c\<lparr>master := Some newmaster, hlid := hl\<rparr>)
      in if mtu \<noteq> - 1 then negociate_mtu mtu c else c)"

text \<open>
  The constructor: the MTU of the layer 2 object, the MTU the user wants, the slave id, the time; the
  fields the constructor fills with zeros and a first application state.
\<close>

definition Casan_new :: "int \<Rightarrow> int \<Rightarrow> int \<Rightarrow> u32 \<Rightarrow> 'w \<Rightarrow> 'w casan" where
  "Casan_new netmtu mtu sid ms w =
     (let dm = (if mtu > 0 \<and> mtu < netmtu then mtu else netmtu) in
      (reset_master \<lparr>reslist = [], ctime = sync_time ms 0, retrans = [], master = None, l2mtu = netmtu, defmtu = dm,
         curmtu = 0, slaveid = sid, status = SL_COLDSTART, sttl = 0, hlid = - 1, curid = 1,
         twt = \<lparr>tw_next = 0, tw_inc = 0, tw_limit = 0\<rparr>, trn = \<lparr>tr_inc = 0, tr_next = 0, tr_limit = 0\<rparr>,
         world = w, sent = []\<rparr>))"

definition casan_reset :: "'w casan \<Rightarrow> 'w casan" where
  "casan_reset c = reset_master (c\<lparr>status := SL_COLDSTART, curid := 1, reslist := [], retrans := []\<rparr>)"

definition register_resource :: "'w resource \<Rightarrow> 'w casan \<Rightarrow> 'w casan" where
  "register_resource r c = c\<lparr>reslist := reslist c @ [r]\<rparr>"

section \<open>Sending\<close>

definition send_to :: "l2net \<Rightarrow> l2addr \<Rightarrow> slave_msg \<Rightarrow> 'w casan \<Rightarrow> (bool \<times> 'w casan) option" where
  "send_to l2 dest m c = do {
     (ok, frame, m) \<leftarrow> msg_send (maxpayload l2 (l2mtu c)) (l2send l2 dest) m;
     Some (ok, c\<lparr>sent := sent c @ (case frame of None \<Rightarrow> [] | Some f \<Rightarrow> [(dest, f)])\<rparr>)
   }"

definition push_opaque :: "int \<Rightarrow> u8 list \<Rightarrow> slave_msg \<Rightarrow> slave_msg option" where
  "push_opaque code v m = do {
     (errno, o1) \<leftarrow> option_opaque 0 code v (int (length v));
     push_option m o1
   }"

definition push_uint :: "int \<Rightarrow> u32 \<Rightarrow> slave_msg \<Rightarrow> slave_msg option" where
  "push_uint code v m = do {
     (errno, o1) \<leftarrow> option_uint 0 code v;
     push_option m o1
   }"

fun mk_ctl_loop :: "u8 list list \<Rightarrow> slave_msg \<Rightarrow> slave_msg option" where
  "mk_ctl_loop [] m = Some m"
| "mk_ctl_loop (p # ps) m = do { m \<leftarrow> push_opaque MO_Uri_Path p m; mk_ctl_loop ps m }"

definition mk_ctl_msg :: "slave_msg \<Rightarrow> slave_msg option" where
  "mk_ctl_msg m = mk_ctl_loop casan_namespace m"

definition discover_msg :: "'w casan \<Rightarrow> slave_msg option" where
  "discover_msg c = do {
     let out = msg_new\<lparr>mid := word_of_int (curid c), mtype := COAP_TYPE_NON, mcode := COAP_CODE_POST\<rparr>;
     out \<leftarrow> mk_ctl_msg out;
     out \<leftarrow> push_opaque MO_Uri_Query (bytes ''slave='' @ show_ld (slaveid c)) out;
     push_opaque MO_Uri_Query (bytes ''mtu='' @ show_ld (defmtu c)) out
   }"

definition send_discover :: "l2net \<Rightarrow> 'w casan \<Rightarrow> 'w casan option" where
  "send_discover l2 c = do {
     out \<leftarrow> discover_msg c;
     let dest = (case master c of Some a \<Rightarrow> a | None \<Rightarrow> bcastaddr l2);
     let c = c\<lparr>curid := int16 (curid c + 1)\<rparr>;
     (ok, c) \<leftarrow> send_to l2 dest out c;
     Some c
   }"

section \<open>The list of resources\<close>

text \<open>The buffer has \<open>avail\<close> bytes; the result is the length of the text, the buffer and if all fit.\<close>

fun well_known_loop :: "'w resource list \<Rightarrow> nat \<Rightarrow> nat \<Rightarrow> u8 list \<Rightarrow> (nat \<times> u8 list \<times> bool) option" where
  "well_known_loop [] avail sz buf = Some (sz, buf, True)"
| "well_known_loop (r # rs) avail sz buf = do {
     (go, sz, buf) \<leftarrow> (if sz > 0 then
         if sz + 2 < avail then do {
           buf \<leftarrow> wr buf sz 44;
           buf \<leftarrow> wr buf (sz + 1) 0;
           Some (True, sz + 1, buf)
         } else Some (False, sz, buf)
       else Some (True, sz, buf));
     if go then do {
       (len, buf) \<leftarrow> well_known r buf sz (avail - sz);
       if len = - 1 then Some (sz, buf, False)
       else well_known_loop rs avail (sz + nat (len - 1)) buf
     } else Some (sz, buf, False)
   }"

definition get_well_known :: "l2net \<Rightarrow> slave_msg \<Rightarrow> 'w casan \<Rightarrow> (bool \<times> slave_msg) option" where
  "get_well_known l2 out c = do {
     (errno, out) \<leftarrow> set_content_format 0 False 0 out;
     let avail = avail_space (maxpayload l2 (l2mtu c)) out;
     (sz, buf, all) \<leftarrow> well_known_loop (reslist c) avail 0 (replicate avail 0);
     out \<leftarrow> set_payload out buf (of_nat sz);
     Some (all, out)
   }"

definition send_assoc_answer :: "l2net \<Rightarrow> l2addr \<Rightarrow> slave_msg \<Rightarrow> 'w casan \<Rightarrow> 'w casan option" where
  "send_assoc_answer l2 dest m c = do {
     let out = msg_new\<lparr>mtype := COAP_TYPE_ACK, mcode := COAP_CODE_OK, mid := mid m\<rparr>;
     (all, out) \<leftarrow> get_well_known l2 out c;
     (ok, c) \<leftarrow> send_to l2 dest out c;
     Some c
   }"

section \<open>Requests\<close>

text \<open>The position in the list of the first resource with the name.\<close>

fun find_resource :: "u8 list \<Rightarrow> 'w resource list \<Rightarrow> nat option" where
  "find_resource name [] = None"
| "find_resource name (r # rs) = (if name = res_name r then Some 0 else map_option Suc (find_resource name rs))"

definition get_resource :: "u8 list \<Rightarrow> 'w casan \<Rightarrow> nat option" where
  "get_resource name c = find_resource name (reslist c)"

definition request_resource :: "slave_msg option \<Rightarrow> slave_msg \<Rightarrow> nat \<Rightarrow> 'w casan \<Rightarrow> (slave_msg \<times> 'w casan) option" where
  "request_resource pin pout k c = do {
     r \<leftarrow> rd (reslist c) k;
     let op = (case pin of None \<Rightarrow> COAP_CODE_GET | Some m \<Rightarrow> mcode m);
     h \<leftarrow> get_handler (unat op) r;
     case h of
       None \<Rightarrow> Some (pout\<lparr>mcode := COAP_CODE_BAD_REQUEST\<rparr>, c)
     | Some f \<Rightarrow> do {
         (errno, pout) \<leftarrow> set_content_format 0 False 0 pout;
         let (code, pout, w) = f pin pout (world c);
         Some (pout\<lparr>mcode := code\<rparr>, c\<lparr>world := w\<rparr>)
       }
   }"

definition answer_to :: "slave_msg \<Rightarrow> slave_msg \<Rightarrow> slave_msg" where
  "answer_to m out = out\<lparr>mtype := COAP_TYPE_ACK, mid := mid m, mtoken := mtoken m\<rparr>"

definition process_request :: "l2net \<Rightarrow> slave_msg \<Rightarrow> slave_msg \<Rightarrow> 'w casan \<Rightarrow> (slave_msg \<times> 'w casan) option" where
  "process_request l2 m out c =
     (case search_option m MO_Uri_Path of
        None \<Rightarrow> Some ((answer_to m out)\<lparr>mcode := COAP_CODE_NOT_FOUND\<rparr>, c)
      | Some o1 \<Rightarrow> do {
          all \<leftarrow> (if optlen o1 = 9 then memeq (OPTVAL o1) (bytes ''resources'') 9 else Some False);
          if all then do {
            (ok, out) \<leftarrow> get_well_known l2 ((answer_to m out)\<lparr>mcode := COAP_CODE_OK\<rparr>) c;
            Some (out, c)
          } else do {
            name \<leftarrow> cstr (OPTVAL o1);
            case get_resource name c of
              None \<Rightarrow> Some ((answer_to m out)\<lparr>mcode := COAP_CODE_NOT_FOUND\<rparr>, c)
            | Some k \<Rightarrow> do {
                on \<leftarrow> (case search_option m MO_Observe of
                   None \<Rightarrow> Some False
                 | Some ob \<Rightarrow> do { v \<leftarrow> optval_uint ob; Some (v = 0) });
                r \<leftarrow> rd (reslist c) k;
                (r, w) \<leftarrow> observed (if on then Some m else None) r (world c);
                let out = answer_to m out;
                (r, out) \<leftarrow> (if on then do {
                     let (s, r) = next_serial r;
                     out \<leftarrow> push_uint MO_Observe s out;
                     Some (r, out)
                   } else Some (r, out));
                request_resource (Some m) out k (c\<lparr>reslist := (reslist c)[k := r], world := w\<rparr>)
              }
          }
        })"

text \<open>The message for one resource that has been triggered.\<close>

definition notify_observer :: "l2net \<Rightarrow> nat \<Rightarrow> 'w resource \<Rightarrow> 'w casan \<Rightarrow> 'w casan option" where
  "notify_observer l2 k r c = do {
     let out = msg_new\<lparr>mtype := COAP_TYPE_ACK, mtoken := obs_token r, mid := word_of_int (curid c), mcode := COAP_CODE_OK\<rparr>;
     let (s, r) = next_serial r;
     out \<leftarrow> push_uint MO_Observe s out;
     (out, c) \<leftarrow> request_resource None out k (c\<lparr>curid := int16 (curid c + 1), reslist := (reslist c)[k := r]\<rparr>);
     dest \<leftarrow> master c;
     (ok, c) \<leftarrow> send_to l2 dest out c;
     Some c
   }"

fun check_observed_loop :: "l2net \<Rightarrow> nat list \<Rightarrow> 'w casan \<Rightarrow> 'w casan option" where
  "check_observed_loop l2 [] c = Some c"
| "check_observed_loop l2 (k # ks) c = do {
     r \<leftarrow> rd (reslist c) k;
     let (b, w) = check_trigger r (world c);
     c \<leftarrow> (if b then notify_observer l2 k r (c\<lparr>world := w\<rparr>) else Some (c\<lparr>world := w\<rparr>));
     check_observed_loop l2 ks c
   }"

definition check_observed_resources :: "l2net \<Rightarrow> 'w casan \<Rightarrow> 'w casan option" where
  "check_observed_resources l2 c = check_observed_loop l2 [0..<length (reslist c)] c"

section \<open>Control messages\<close>

fun ctl_loop :: "nat \<Rightarrow> coap_option list \<Rightarrow> bool option" where
  "ctl_loop i [] = Some (i = length casan_namespace)"
| "ctl_loop i (o1 # os) =
     (if optcode o1 = MO_Uri_Path then
        if i \<ge> length casan_namespace then Some False
        else if int (length (casan_namespace ! i)) \<noteq> optlen o1 then Some False
        else do {
          eq \<leftarrow> memeq (casan_namespace ! i) (OPTVAL o1) (nat (optlen o1));
          if eq then ctl_loop (i + 1) os else Some False
        }
      else ctl_loop i os)"

definition is_ctl_msg :: "slave_msg \<Rightarrow> bool option" where
  "is_ctl_msg m = ctl_loop 0 (optlist m)"

text \<open>The last hello id among the queries, if there is one.\<close>

fun hello_loop :: "coap_option list \<Rightarrow> int option \<Rightarrow> int option option" where
  "hello_loop [] h = Some h"
| "hello_loop (o1 # os) h =
     (if optcode o1 = MO_Uri_Query then do {
        s \<leftarrow> cstr (OPTVAL o1);
        r \<leftarrow> sscanf_ld 32 (bytes ''hello='') s;
        hello_loop os (if r \<noteq> None then r else h)
      } else hello_loop os h)"

definition is_hello :: "slave_msg \<Rightarrow> int option option" where
  "is_hello m = (if mtype m = COAP_TYPE_NON \<and> mcode m = COAP_CODE_POST then hello_loop (optlist m) None else Some None)"

text \<open>Is there a TTL, the value of \<open>sttl_\<close> after the loop, the MTU if there is one (an int).\<close>

fun assoc_loop :: "coap_option list \<Rightarrow> bool \<Rightarrow> u64 \<Rightarrow> int option \<Rightarrow> (bool \<times> u64 \<times> int option) option" where
  "assoc_loop [] found_ttl ttl mtu = Some (found_ttl, ttl, mtu)"
| "assoc_loop (o1 # os) found_ttl ttl mtu =
     (if optcode o1 = MO_Uri_Query then do {
        s \<leftarrow> cstr (OPTVAL o1);
        r \<leftarrow> sscanf_ld 32 (bytes ''ttl='') s;
        (case r of
           Some n \<Rightarrow> assoc_loop os True (word_of_int n * 1000) mtu
         | None \<Rightarrow> do {
             r \<leftarrow> sscanf_ld 32 (bytes ''mtu='') s;
             (case r of
                Some n \<Rightarrow> assoc_loop os found_ttl ttl (Some (int16 n))
              | None \<Rightarrow> Some (found_ttl, ttl, mtu))
           })
      } else assoc_loop os found_ttl ttl mtu)"

text \<open>The MTU when the message is complete, and the state with the value that \<open>sttl_\<close> gets in any case.\<close>

definition is_assoc :: "slave_msg \<Rightarrow> 'w casan \<Rightarrow> (int option \<times> 'w casan) option" where
  "is_assoc m c =
     (if mtype m = COAP_TYPE_CON \<and> mcode m = COAP_CODE_POST then do {
        (found_ttl, ttl, mtu) \<leftarrow> assoc_loop (optlist m) False (sttl c) None;
        Some (if found_ttl then mtu else None, c\<lparr>sttl := ttl\<rparr>)
      } else Some (None, c))"

section \<open>The loop\<close>

definition start_running :: "'w casan \<Rightarrow> 'w casan" where
  "start_running c = c\<lparr>trn := Trenew_init (ctime c) (sttl c), status := SL_RUNNING\<rparr>"

definition wait_from :: "slave_status \<Rightarrow> 'w casan \<Rightarrow> 'w casan" where
  "wait_from s c = c\<lparr>twt := Twait_init (ctime c), status := s\<rparr>"

text \<open>A frame in one of the waiting states: the two cases differ in what a hello does to the timer.\<close>

definition waiting_frame :: "l2net \<Rightarrow> loop_in \<Rightarrow> slave_msg \<Rightarrow> 'w casan \<Rightarrow> 'w casan option" where
  "waiting_frame l2 i m c = do {
     let c = c\<lparr>retrans := check_msg_received m (retrans c)\<rparr>;
     ctl \<leftarrow> is_ctl_msg m;
     if ctl then do {
       h \<leftarrow> is_hello m;
       case h of
         Some hl \<Rightarrow>
           let c' = change_master (src i) hl (- 1) c in
           Some (if status c = SL_WAITING_UNKNOWN then wait_from SL_WAITING_KNOWN c' else c')
       | None \<Rightarrow> do {
           (a, c) \<leftarrow> is_assoc m c;
           case a of
             Some mtu \<Rightarrow> do {
               c \<leftarrow> send_assoc_answer l2 (src i) m (change_master (src i) (- 1) mtu c);
               Some (start_running c)
             }
           | None \<Rightarrow> Some c
         }
     } else Some c
   }"

definition running_frame :: "l2net \<Rightarrow> loop_in \<Rightarrow> slave_msg \<Rightarrow> 'w casan \<Rightarrow> 'w casan option" where
  "running_frame l2 i m c = do {
     let c = c\<lparr>retrans := check_msg_received m (retrans c)\<rparr>;
     ctl \<leftarrow> is_ctl_msg m;
     if ctl then do {
       h \<leftarrow> is_hello m;
       case h of
         Some hl \<Rightarrow>
           if \<not> same_master (src i) c \<or> hl \<noteq> hlid c then
             let oldhlid = int16 (hlid c);
                 c = change_master (src i) hl 0 c
             in Some (if oldhlid \<noteq> - 1 then wait_from SL_WAITING_KNOWN c else c)
           else Some c
       | None \<Rightarrow> do {
           (a, c) \<leftarrow> is_assoc m c;
           case a of
             Some mtu \<Rightarrow>
               if same_master (src i) c then do {
                 c \<leftarrow> send_assoc_answer l2 (src i) m (negociate_mtu mtu c);
                 Some (start_running c)
               } else Some c
           | None \<Rightarrow> Some c
         }
     } else do {
       (out, c) \<leftarrow> process_request l2 m msg_new c;
       dest \<leftarrow> master c;
       (ok, c) \<leftarrow> send_to l2 dest out c;
       Some c
     }
   }"

definition truncated_frame :: "l2net \<Rightarrow> slave_msg \<Rightarrow> 'w casan \<Rightarrow> 'w casan option" where
  "truncated_frame l2 m c = do {
     out \<leftarrow> push_uint MO_Size1 (word_of_int (l2mtu c)) (answer_to m msg_new);
     dest \<leftarrow> master c;
     (ok, c) \<leftarrow> send_to l2 dest (out\<lparr>mcode := COAP_CODE_TOO_LARGE\<rparr>) c;
     Some c
   }"

definition lose_master :: "l2net \<Rightarrow> 'w casan \<Rightarrow> 'w casan option" where
  "lose_master l2 c = do {
     c \<leftarrow> send_discover l2 (reset_master c);
     Some (wait_from SL_WAITING_UNKNOWN c)
   }"

definition renew_timers :: "l2net \<Rightarrow> 'w casan \<Rightarrow> 'w casan option" where
  "renew_timers l2 c = do {
     c \<leftarrow> (if status c = SL_RUNNING then
         let (b, t) = Trenew_renew (ctime c) (trn c); c = c\<lparr>trn := t\<rparr> in
         if b then do { c \<leftarrow> send_discover l2 c; Some (c\<lparr>status := SL_RENEW\<rparr>) } else Some c
       else Some c);
     c \<leftarrow> (if status c = SL_RENEW then
         let (b, t) = Trenew_next (ctime c) (trn c); c = c\<lparr>trn := t\<rparr> in
         if b then send_discover l2 c else Some c
       else Some c);
     if status c = SL_RENEW \<and> Trenew_expired (ctime c) (trn c) then lose_master l2 c else Some c
   }"

definition wait_timer :: "l2net \<Rightarrow> 'w casan \<Rightarrow> 'w casan option" where
  "wait_timer l2 c =
     (let (b, t) = Twait_next (ctime c) (twt c); c = c\<lparr>twt := t\<rparr> in
      if b then send_discover l2 c else Some c)"

text \<open>The switch over the state, with the result of the reception.\<close>

definition casan_switch :: "l2net \<Rightarrow> loop_in \<Rightarrow> l2_recv \<Rightarrow> slave_msg \<Rightarrow> 'w casan \<Rightarrow> 'w casan option" where
  "casan_switch l2 i ret m c = (case status c of
       SL_COLDSTART \<Rightarrow> do {
         c \<leftarrow> send_discover l2 c;
         Some (wait_from SL_WAITING_UNKNOWN c)
       }
     | SL_WAITING_UNKNOWN \<Rightarrow> do {
         c \<leftarrow> (if ret = RECV_OK then waiting_frame l2 i m c else Some c);
         if status c = SL_WAITING_UNKNOWN then wait_timer l2 c else Some c
       }
     | SL_WAITING_KNOWN \<Rightarrow> do {
         c \<leftarrow> (if ret = RECV_OK then waiting_frame l2 i m c else Some c);
         if status c = SL_WAITING_KNOWN then
           if Twait_expired (ctime c) (twt c) then lose_master l2 c else wait_timer l2 c
         else Some c
       }
     | _ \<Rightarrow> do {
         c \<leftarrow> (if ret = RECV_OK then running_frame l2 i m c
               else if ret = RECV_TRUNCATED then truncated_frame l2 m c else Some c);
         c \<leftarrow> check_observed_resources l2 c;
         renew_timers l2 c
       })"

definition casan_loop :: "l2net \<Rightarrow> loop_in \<Rightarrow> 'w casan \<Rightarrow> 'w casan option" where
  "casan_loop l2 i c = do {
     let c = c\<lparr>ctime := sync_time (in_ms i) (ctime c)\<rparr>;
     (fs, q) \<leftarrow> Retrans_loop (master c \<noteq> None) (msg_send (maxpayload l2 (l2mtu c)) (l2send l2 (the (master c)))) (re_ms i)
                  (ctime c) (retrans c);
     let c = c\<lparr>retrans := q, sent := sent c @ map (Pair (the (master c))) fs\<rparr>;
     (ret, m) \<leftarrow> msg_recv (rx i) msg_new;
     casan_switch l2 i ret m c
   }"

end
