(* ===== verification/Slave_Msg_Safe.thy ===== *)
theory Slave_Msg_Safe
  imports Slave_Msg_Laws Slave_Engine
begin

text \<open>
  Messages that can be sent without undefined behaviour: a bound on the encoded size that is additive
  in the options, and that every way the engine builds a message keeps it. What the decoder promises
  about the messages it accepts. The text of the resource list.
\<close>

section \<open>Messages that can be sent\<close>

definition size_bound :: "slave_msg \<Rightarrow> nat" where
  "size_bound m = 13 + sum_list (map (\<lambda>o1. 5 + length (opt_value o1)) (optlist m)) + unat (paylen m)"

definition ok_msg :: "slave_msg \<Rightarrow> bool" where
  "ok_msg m \<longleftrightarrow> wf_msg m \<and> encoded m = None"

lemma length_ext_bytes_le: "length (ext_bytes v) \<le> 2"
  by (simp add: length_ext_bytes)

lemma length_opts_frame_le:
  "length (opts_frame nb (map opt_pair os)) \<le> sum_list (map (\<lambda>o1. 5 + length (opt_value o1)) os)"
proof (induction os arbitrary: nb)
  case (Cons o1 os)
  show ?case
    using Cons.IH [of "optcode o1"] length_ext_bytes_le [of "optcode o1 - nb"] length_ext_bytes_le [of "int (length (opt_value o1))"]
    by (simp add: opt_frame_pair length_len_bytes)
qed simp

lemma length_msg_frame_le: "wf_msg m \<Longrightarrow> length (msg_frame m) \<le> size_bound m"
proof -
  assume m: "wf_msg m"
  then have "length (token_bytes (mtoken m)) \<le> 8"
    using length_token_bytes [of "mtoken m"] by (simp add: wf_msg_def wf_token_def)
  moreover have "length (payload_frame (msg_payload m)) \<le> 1 + unat (paylen m)"
    using length_msg_payload [OF m] by (simp add: payload_frame_def)
  ultimately show ?thesis
    using length_opts_frame_le [of 0 "optlist m"] by (simp add: msg_frame_def header_frame_def size_bound_def)
qed

lemma msg_send_ok:
  assumes "ok_msg m" "size_bound m < 65536"
  shows "\<exists>r. msg_send mp acc m = Some r"
proof -
  have m: "wf_msg m" "encoded m = None" using assms(1) by (simp_all add: ok_msg_def)
  have l: "length (msg_frame m) < 65536" using length_msg_frame_le [OF m(1)] assms(2) by simp
  show ?thesis
    using coap_encode_val [OF m(1) l, of mp "replicate mp 0"] m(2) by (cases "length (msg_frame m) \<le> mp") (auto simp: msg_send_def slice_def)
qed

text \<open>What a transmission hands to layer 2: the frame, when it fits.\<close>

lemma msg_send_val:
  assumes "ok_msg m" "size_bound m < 65536" "length (msg_frame m) \<le> mp"
  shows "\<exists>m'. msg_send mp acc m = Some (acc (msg_frame m), Some (msg_frame m), m')"
proof -
  have m: "wf_msg m" "encoded m = None" using assms(1) by (simp_all add: ok_msg_def)
  have l: "length (msg_frame m) < 65536" using length_msg_frame_le [OF m(1)] assms(2) by simp
  show ?thesis
    using coap_encode_val [OF m(1) l, of mp "replicate mp 0"] m(2) assms(3) by (simp add: msg_send_def slice_def put_at_def)
qed

subsection \<open>Building them\<close>

lemma ascending_sorted:
  "ascending nb os \<longleftrightarrow> sorted (map fst os) \<and> (\<forall>c \<in> set (map fst os). nb \<le> c \<and> c < 32768)"
  by (induction os arbitrary: nb) (auto intro: order_trans)

lemma insert_option_ok:
  assumes "list_all wf_option os" "wf_option n" "ascending 0 (map opt_pair os)" "0 \<le> optcode n" "optcode n < 32768"
  shows "list_all wf_option (insert_option n os)" "ascending 0 (map opt_pair (insert_option n os))"
    "sum_list (map f (insert_option n os)) = f n + (sum_list (map f os) :: nat)"
proof -
  have f: "map fst (map opt_pair xs) = map optcode xs" for xs by simp
  have s: "sorted (map optcode os)" using assms(3) by (simp add: ascending_sorted comp_def)
  note i = insert_option_sorted [OF s, of n]
  show "list_all wf_option (insert_option n os)" using i assms(1,2) by (auto simp: list_all_iff)
  show "ascending 0 (map opt_pair (insert_option n os))"
    using i assms(3-5) by (auto simp: ascending_sorted comp_def)
  show "sum_list (map f (insert_option n os)) = f n + sum_list (map f os)"
    by (induction os) auto
qed

lemma push_option_ok:
  assumes "ok_msg m" "wf_option o1" "0 \<le> optcode o1" "optcode o1 < 32768"
  shows "\<exists>os. push_option m o1 = Some (m\<lparr>optlist := os\<rparr>) \<and> ok_msg (m\<lparr>optlist := os\<rparr>) \<and>
    size_bound (m\<lparr>optlist := os\<rparr>) = size_bound m + 5 + length (opt_value o1)"
proof -
  obtain o2 where o2: "option_copy o1 = Some o2" "wf_option o2" "optcode o2 = optcode o1" "opt_value o2 = opt_value o1"
    using option_copy_val [OF assms(2)] by blast
  have m: "list_all wf_option (optlist m)" "ascending 0 (map opt_pair (optlist m))" using assms(1) by (simp_all add: ok_msg_def wf_msg_def)
  note i = insert_option_ok [OF m(1) o2(2) m(2)]
  show ?thesis
    using o2 i(1,2) i(3) [of "\<lambda>o1. 5 + length (opt_value o1)"] assms(1,3,4)
    by (intro exI [of _ "insert_option o2 (optlist m)"]) (simp add: push_option_def ok_msg_def wf_msg_def size_bound_def)
qed

lemma push_opaque_ok:
  assumes "ok_msg m" "0 \<le> c" "c < 32768"
  shows "\<exists>os. push_opaque c v m = Some (m\<lparr>optlist := os\<rparr>) \<and> ok_msg (m\<lparr>optlist := os\<rparr>) \<and>
    size_bound (m\<lparr>optlist := os\<rparr>) = size_bound m + 5 + length v"
proof -
  obtain e o1 where "option_opaque 0 c v (int (length v)) = Some (e, o1)" "wf_option o1" "optcode o1 = c" "opt_value o1 = v"
    using option_opaque_val [of "int (length v)" v 0 c] by auto
  then show ?thesis using push_option_ok [OF assms(1), of o1] assms(2,3) by (simp add: push_opaque_def)
qed

lemma length_uint_to_byte: "length (uint_to_byte (v :: u32)) \<le> 4"
  using length_uint_to_byte_loop [of 4 v "[]"] by (simp add: uint_to_byte_def)

lemma push_uint_ok:
  assumes "ok_msg m" "0 \<le> c" "c < 32768"
  shows "\<exists>os. push_uint c v m = Some (m\<lparr>optlist := os\<rparr>) \<and> ok_msg (m\<lparr>optlist := os\<rparr>) \<and>
    size_bound (m\<lparr>optlist := os\<rparr>) \<le> size_bound m + 9"
proof -
  obtain e o1 where "option_uint 0 c v = Some (e, o1)" "wf_option o1" "optcode o1 = c" "opt_value o1 = uint_to_byte v"
    using option_uint_val [of 0 c v] by auto
  moreover from this obtain os where "push_option m o1 = Some (m\<lparr>optlist := os\<rparr>)" "ok_msg (m\<lparr>optlist := os\<rparr>)"
      "size_bound (m\<lparr>optlist := os\<rparr>) = size_bound m + 5 + length (uint_to_byte v)"
    using push_option_ok [OF assms(1), of o1] assms(2,3) by auto
  ultimately show ?thesis
    using length_uint_to_byte [of v] by (intro exI [of _ os]) (simp add: push_uint_def)
qed

lemma content_format_ok:
  assumes "ok_msg m"
  shows "\<exists>e os. set_content_format 0 False 0 m = Some (e, m\<lparr>optlist := os\<rparr>) \<and> ok_msg (m\<lparr>optlist := os\<rparr>) \<and>
    size_bound (m\<lparr>optlist := os\<rparr>) \<le> size_bound m + 9"
proof (cases "search_option m MO_Content_Format")
  case None
  obtain e o1 where "option_uint 0 MO_Content_Format 0 = Some (e, o1)" "wf_option o1" "optcode o1 = MO_Content_Format" "opt_value o1 = uint_to_byte 0"
    using option_uint_val [of 0 MO_Content_Format 0] by auto
  moreover from this obtain os where "push_option m o1 = Some (m\<lparr>optlist := os\<rparr>)" "ok_msg (m\<lparr>optlist := os\<rparr>)"
      "size_bound (m\<lparr>optlist := os\<rparr>) = size_bound m + 5 + length (uint_to_byte 0)"
    using push_option_ok [OF assms, of o1] by auto
  ultimately show ?thesis
    using None length_uint_to_byte [of 0] by (intro exI [of _ e] exI [of _ os]) (simp add: set_content_format_def)
next
  case (Some o1)
  then have "set_content_format 0 False 0 m = Some (0, m\<lparr>optlist := optlist m\<rparr>)" by (simp add: set_content_format_def)
  then show ?thesis using assms by (intro exI [of _ 0] exI [of _ "optlist m"]) simp
qed

lemma set_payload_ok:
  assumes "ok_msg m" "n \<le> length b" "n < 65536"
  shows "\<exists>m'. set_payload m b (of_nat n) = Some m' \<and> ok_msg m' \<and> size_bound m' \<le> size_bound m + n \<and> optlist m' = optlist m \<and>
    mtype m' = mtype m \<and> mcode m' = mcode m \<and> mid m' = mid m \<and> mtoken m' = mtoken m \<and> msg_payload m' = take n b"
proof -
  have n: "unat (of_nat n :: u16) = n" using assms(3) by (simp add: unat_of_nat)
  have "(of_nat n :: u16) > 0 \<longleftrightarrow> n > 0" using n by (auto simp: word_gt_0 unat_eq_0 [symmetric])
  then show ?thesis
    using assms n by (auto simp: set_payload_def slice_def ok_msg_def wf_msg_def size_bound_def msg_payload_def)
qed

section \<open>The list of resources\<close>

text \<open>Texts separated by commas, added to what is there.\<close>

definition add_text :: "u8 list \<Rightarrow> u8 list \<Rightarrow> u8 list" where
  "add_text acc t = (if acc = [] then t else acc @ 44 # t)"

lemma well_known_loop_ok:
  assumes "length buf = avail" "take sz buf = acc" "length acc = sz" "0 < sz \<longrightarrow> sz < avail"
  shows "\<exists>sz' buf' k tr. well_known_loop rs avail sz buf = Some (sz', buf', k = length rs) \<and> sz' \<le> avail \<and> length buf' = avail \<and>
    k \<le> length rs \<and> take sz' buf' = foldl add_text acc (map well_known_text (take k rs)) @ (if tr then [44] else []) \<and> (tr \<longrightarrow> k < length rs) \<and>
    (tr \<longrightarrow> foldl add_text acc (map well_known_text (take k rs)) \<noteq> [])"
  using assms
proof (induction rs arbitrary: sz buf acc)
  case Nil
  then show ?case by (intro exI [of _ sz] exI [of _ buf] exI [of _ 0] exI [of _ False]) auto
next
  case (Cons r rs)
  define t where "t = well_known_text r"
  have t: "t \<noteq> []" by (simp add: t_def well_known_text_def)
  show ?case
  proof (cases "0 < sz \<and> avail \<le> sz + 2")
    case True
    then show ?thesis
      using Cons.prems by (intro exI [of _ sz] exI [of _ buf] exI [of _ 0] exI [of _ False]) auto
  next
    case False
    define acc1 where "acc1 = (if acc = [] then [] else acc @ [44])"
    define sz1 where "sz1 = length acc1"
    obtain buf1 where buf1: "(if sz > 0 then if sz + 2 < avail then do {
           buf \<leftarrow> wr buf sz 44; buf \<leftarrow> wr buf (sz + 1) 0; Some (True, sz + 1, buf)
         } else Some (False, sz, buf) else Some (True, sz, buf)) = Some (True, sz1, buf1)"
      "length buf1 = avail" "take sz1 buf1 = acc1" "sz1 \<le> avail"
    proof (cases "sz = 0")
      case True
      then show ?thesis using that [of buf] Cons.prems by (auto simp: sz1_def acc1_def)
    next
      case s: False
      have "take (sz + 1) (buf[sz := 44, sz + 1 := 0]) = acc @ [44]"
        using Cons.prems s False by (simp add: take_Suc_conv_app_nth)
      moreover have "acc \<noteq> []" using s Cons.prems(3) by auto
      then have "acc1 = acc @ [44]" "sz1 = sz + 1" using Cons.prems(3) by (simp_all add: acc1_def sz1_def)
      ultimately show ?thesis
        using s False Cons.prems(1,3) that [of "buf[sz := 44, sz + 1 := 0]"] by simp
    qed
    note wk = well_known_val [of sz1 "avail - sz1" buf1 r, folded t_def]
    show ?thesis
    proof (cases "length t < avail - sz1")
      case fits: True
      define buf2 where "buf2 = put_at buf1 sz1 (t @ [0])"
      have 2: "length buf2 = avail" "take (sz1 + length t) buf2 = add_text acc t" "length (add_text acc t) = sz1 + length t"
        "sz1 + length t < avail"
        using buf1 fits by (auto simp: buf2_def put_at_def add_text_def acc1_def sz1_def)
      obtain sz' buf' k tr where IH: "well_known_loop rs avail (sz1 + length t) buf2 = Some (sz', buf', k = length rs)" "sz' \<le> avail"
        "length buf' = avail" "k \<le> length rs" "tr \<longrightarrow> k < length rs"
        "tr \<longrightarrow> foldl add_text (add_text acc t) (map well_known_text (take k rs)) \<noteq> []"
        "take sz' buf' = foldl add_text (add_text acc t) (map well_known_text (take k rs)) @ (if tr then [44] else [])"
        using Cons.IH [of buf2 "sz1 + length t" "add_text acc t"] 2 by auto
      have "well_known_loop (r # rs) avail sz buf = Some (sz', buf', Suc k = length (r # rs))"
        using buf1(1,2) buf1(4) wk fits IH(1) by (simp add: buf2_def)
      then show ?thesis
        using IH(2-) by (intro exI [of _ sz'] exI [of _ buf'] exI [of _ "Suc k"] exI [of _ tr]) (simp add: t_def)
    next
      case no: False
      have "well_known_loop (r # rs) avail sz buf = Some (sz1, buf1, 0 = length (r # rs))"
        using buf1(1,2) buf1(4) wk no by simp
      then show ?thesis
        using buf1(2-) by (intro exI [of _ sz1] exI [of _ buf1] exI [of _ 0] exI [of _ "acc \<noteq> []"]) (auto simp: acc1_def)
    qed
  qed
qed


section \<open>What a decoded message promises\<close>

lemma set_optval_wf: "set_optval o1 v l = Some o2 \<Longrightarrow> length (staticval o1) = 9 \<Longrightarrow> wf_option o2"
  using COPY_VAL_val [of "o1\<lparr>optlen := l\<rparr>" v] COPY_VAL_neg [of "o1\<lparr>optlen := l\<rparr>" v]
  by (cases "0 \<le> l \<and> nat l \<le> length v") (auto simp: set_optval_def COPY_VAL_def slice_def split: if_splits)

lemma set_insert_option: "set (insert_option n os) = insert n (set os)"
  by (induction os) auto

lemma push_option_wf:
  "push_option m o1 = Some m' \<Longrightarrow> wf_option o1 \<Longrightarrow> list_all wf_option (optlist m) \<Longrightarrow>
   list_all wf_option (optlist m') \<and> mtoken m' = mtoken m"
  using option_copy_val [of o1] by (auto simp: push_option_def list_all_iff set_insert_option)

lemma decode_option_wf:
  "decode_option b i nb m = Some (ok, j, nb', m') \<Longrightarrow> list_all wf_option (optlist m) \<Longrightarrow>
   list_all wf_option (optlist m') \<and> mtoken m' = mtoken m"
  by (auto simp: decode_option_def bind_eq_Some_conv Let_def set_optcode_def dest!: set_optval_wf push_option_wf split: if_splits)

lemma decode_options_wf:
  "decode_options b n i nb m = Some (ok, j, m') \<Longrightarrow> list_all wf_option (optlist m) \<Longrightarrow>
   list_all wf_option (optlist m') \<and> mtoken m' = mtoken m"
proof (induction b n i nb m arbitrary: ok j m' rule: decode_options.induct)
  case (1 b n i nb m)
  show ?case
  proof (cases "i < n \<and> (\<exists>x. rd b i = Some x \<and> x \<noteq> 0xff)")
    case True
    then obtain x ok1 i1 nb1 m1 where s: "i < n" "rd b i = Some x" "x \<noteq> 0xff" "decode_option b i nb m = Some (ok1, i1, nb1, m1)"
      "(if ok1 then decode_options b n i1 nb1 m1 else Some (False, i1, m1)) = Some (ok, j, m')"
      using 1(2) by (auto simp: decode_options.simps [of b n i] bind_eq_Some_conv)
    have w: "list_all wf_option (optlist m1) \<and> mtoken m1 = mtoken m" by (rule decode_option_wf [OF s(4) 1(3)])
    show ?thesis
    proof (cases ok1)
      case True
      then have "decode_options b n i1 nb1 m1 = Some (ok, j, m')" using s(5) by simp
      then show ?thesis using 1(1) [OF s(1,2,3,4) refl refl refl True] w by simp
    next
      case False
      then show ?thesis using s(5) w by simp
    qed
  next
    case False
    then have "m' = m"
      using 1(2) unfolding decode_options.simps [of b n i nb m] by (cases "rd b i") (auto split: if_splits)
    then show ?thesis using 1(3) by simp
  qed
qed

lemma decode_payload_keeps:
  "decode_payload b n tr ok i m = Some (ok', m') \<Longrightarrow> optlist m' = optlist m \<and> mtoken m' = mtoken m"
  by (auto simp: decode_payload_def set_payload_def bind_eq_Some_conv Let_def split: if_splits)

lemma decode_token_wf:
  "decode_token b k (m\<lparr>mtoken := \<lparr>toklen = int k, tokval = replicate 8 0\<rparr>\<rparr>) = Some (m', i) \<Longrightarrow>
   wf_token (mtoken m') \<and> optlist m' = optlist m"
  by (auto simp: decode_token_def wf_token_def mcopy_def bind_eq_Some_conv split: if_splits)

lemma coap_decode_wf:
  assumes "coap_decode b n tr m0 = Some (ok, m)"
  shows "list_all wf_option (optlist m) \<and> wf_token (mtoken m)"
proof -
  obtain b0 where b0: "rd b 0 = Some b0" using assms by (cases "rd b 0") (simp_all add: coap_decode_def Let_def)
  show ?thesis
  proof (cases "drop_bit 6 b0 AND 3 = CASAN_VERSION")
    case False
    then have "m = msg_new" using assms b0 by (simp add: coap_decode_def msg_reset_def Let_def)
    then show ?thesis by (simp add: msg_new_def Token_new_def wf_token_def COAP_MAX_TOKLEN_def)
  next
    case True
    define k where "k = unat (b0 AND 0x0f)"
    obtain b1 b2 b3 where h: "rd b 1 = Some b1" "rd b 2 = Some b2" "rd b 3 = Some b3"
      using assms b0 True by (cases "rd b 1"; cases "rd b 2"; cases "rd b 3") (simp_all add: coap_decode_def Let_def)
    define m1 where "m1 = msg_new\<lparr>mtype := drop_bit 4 b0 AND 3, mcode := b1, mid := push_bit 8 (ucast b2) OR ucast b3\<rparr>"
    obtain m2 i ok1 j m3 where s: "decode_token b k (m1\<lparr>mtoken := \<lparr>toklen = int k, tokval = replicate 8 0\<rparr>\<rparr>) = Some (m2, i)"
      "(if tr then Some (True, i, m2) else decode_options b n i 0 m2) = Some (ok1, j, m3)"
      "decode_payload b n tr ok1 j m3 = Some (ok, m)"
      using assms b0 True h
      by (auto simp: coap_decode_def Let_def msg_reset_def k_def [symmetric] m1_def bind_eq_Some_conv msg_new_def Token_new_def COAP_MAX_TOKLEN_def)
    have w2: "wf_token (mtoken m2)" "optlist m2 = []"
      using decode_token_wf [OF s(1)] by (simp_all add: m1_def msg_new_def)
    have "list_all wf_option (optlist m3) \<and> mtoken m3 = mtoken m2"
      using s(2) w2(2) decode_options_wf [of b n i 0 m2] by (auto split: if_splits)
    then show ?thesis using decode_payload_keeps [OF s(3)] w2 by simp
  qed
qed

lemma msg_recv_wf: "msg_recv r m0 = Some (ret, m) \<Longrightarrow> list_all wf_option (optlist m) \<and> wf_token (mtoken m)"
  by (auto simp: msg_recv_def bind_eq_Some_conv msg_reset_def msg_new_def Token_new_def wf_token_def COAP_MAX_TOKLEN_def
      dest: coap_decode_wf split: prod.splits if_splits)

end
