(* ===== verification/Slave_Engine_Ops.thy ===== *)
theory Slave_Engine_Ops
  imports Slave_Msg_Safe
begin

text \<open>
  The operations of the engine under the contracts of its surroundings: each is defined (no access
  outside an array, no null pointer) and changes what it may change only. \<open>keeps\<close> is what sending and
  serving requests leave alone, \<open>casan_ok\<close> the invariant of the engine.
\<close>

section \<open>Contracts\<close>

text \<open>
  What the engine needs of its surroundings: frames of less than 64 KB, handlers that leave a message
  that can be encoded, an unregister function for every observable resource.
\<close>

definition net_ok :: "l2net \<Rightarrow> bool" where
  "net_ok l2 \<longleftrightarrow> (\<forall>mtu. maxpayload l2 mtu \<le> 60000)"

definition handler_ok :: "'w handler \<Rightarrow> bool" where
  "handler_ok f \<longleftrightarrow> (\<forall>pin m w. ok_msg m \<and> size_bound m \<le> 60 \<longrightarrow>
     (case f pin m w of (code, m', w') \<Rightarrow> ok_msg m' \<and> size_bound m' < 65536))"

definition resource_ok :: "'w resource \<Rightarrow> bool" where
  "resource_ok r \<longleftrightarrow> length (handlers r) = 5 \<and> (\<forall>f. Some f \<in> set (handlers r) \<longrightarrow> handler_ok f) \<and>
     (obs_trig r \<noteq> None \<longrightarrow> obs_dereg r \<noteq> None) \<and> wf_token (obs_token r)"

text \<open>The part of the invariant that does not depend on the state machine.\<close>

definition casan_base :: "'w casan \<Rightarrow> bool" where
  "casan_base c \<longleftrightarrow> retrans c = [] \<and> l2mtu c = curmtu c \<and> 0 < curmtu c \<and> curmtu c \<le> defmtu c \<and> defmtu c < 32768 \<and>
     - (2 ^ 31) \<le> slaveid c \<and> slaveid c < 2 ^ 31 \<and> list_all resource_ok (reslist c)"

text \<open>A master is known exactly in the states that use it.\<close>

definition casan_ok :: "'w casan \<Rightarrow> bool" where
  "casan_ok c \<longleftrightarrow> casan_base c \<and> (master c = None \<longleftrightarrow> status c \<in> {SL_COLDSTART, SL_WAITING_UNKNOWN})"

text \<open>Sending and serving requests changes the counter, the trace, the application and the observers.\<close>

definition keeps :: "'w casan \<Rightarrow> 'w casan \<Rightarrow> bool" where
  "keeps c c' \<longleftrightarrow> status c' = status c \<and> master c' = master c \<and> ctime c' = ctime c \<and> trn c' = trn c \<and> twt c' = twt c \<and>
     hlid c' = hlid c \<and> sttl c' = sttl c \<and> curmtu c' = curmtu c \<and> defmtu c' = defmtu c \<and> l2mtu c' = l2mtu c \<and>
     slaveid c' = slaveid c \<and> retrans c' = retrans c \<and> length (reslist c') = length (reslist c) \<and> prefix (sent c) (sent c') \<and>
     (list_all resource_ok (reslist c) \<longrightarrow> list_all resource_ok (reslist c'))"

lemma keeps_refl [simp]: "keeps c c"
  by (simp add: keeps_def)

lemma keeps_trans: "keeps a b \<Longrightarrow> keeps b c \<Longrightarrow> keeps a c"
  unfolding keeps_def by (auto intro: prefix_order.trans)

lemmas keepsD = keeps_def [THEN iffD1]

lemma keeps_base: "keeps c c' \<Longrightarrow> casan_base c \<Longrightarrow> casan_base c'"
  unfolding keeps_def casan_base_def by auto

lemma keeps_ok: "keeps c c' \<Longrightarrow> casan_ok c \<Longrightarrow> casan_ok c'"
  using keeps_base [of c c'] unfolding casan_ok_def keeps_def by auto

section \<open>Sending\<close>

lemma ok_msg_new [simp]: "ok_msg (msg_new\<lparr>mtype := t, mcode := k, mid := i\<rparr>)" "size_bound (msg_new\<lparr>mtype := t, mcode := k, mid := i\<rparr>) = 13"
  "ok_msg msg_new" "size_bound msg_new = 13"
  by (simp_all add: ok_msg_def wf_msg_def msg_new_def wf_token_def Token_new_def COAP_MAX_TOKLEN_def size_bound_def)

lemma ok_msg_header:
  "ok_msg m \<Longrightarrow> ok_msg (m\<lparr>mtype := t, mid := i\<rparr>)" "ok_msg (m\<lparr>mcode := k\<rparr>) = ok_msg m"
  "size_bound (m\<lparr>mcode := k\<rparr>) = size_bound m"
  by (simp_all add: ok_msg_def wf_msg_def size_bound_def)

lemma send_to_ok:
  assumes "ok_msg m" "size_bound m < 65536"
  shows "\<exists>ok c'. send_to l2 d m c = Some (ok, c') \<and> keeps c c'"
proof -
  obtain ok f m' where "msg_send (maxpayload l2 (l2mtu c)) (l2send l2 d) m = Some (ok, f, m')"
    using msg_send_ok [OF assms] by (metis prod_cases3)
  then show ?thesis
    by (cases f) (auto simp: send_to_def keeps_def)
qed

lemma length_dec_nat: "n < 10 ^ k \<Longrightarrow> 0 < k \<Longrightarrow> length (dec_nat n) \<le> k"
proof (induction k arbitrary: n)
  case (Suc k)
  show ?case
  proof (cases "n < 10")
    case False
    then have "0 < k" using Suc.prems by (cases k) auto
    moreover have "n div 10 < 10 ^ k" using Suc.prems by (simp add: less_mult_imp_div_less mult.commute)
    ultimately show ?thesis using Suc.IH [of "n div 10"] False by (subst dec_nat.simps) simp
  qed (subst dec_nat.simps, simp)
qed simp

lemma length_show_ld: "\<bar>n\<bar> < 10 ^ k \<Longrightarrow> 0 < k \<Longrightarrow> length (show_ld n) \<le> Suc k"
proof -
  assume n: "\<bar>n\<bar> < 10 ^ k" "0 < k"
  then have "nat \<bar>n\<bar> < 10 ^ k" by (simp add: nat_less_iff)
  then have "length (dec_nat (nat \<bar>n\<bar>)) \<le> k" using n by (intro length_dec_nat)
  then show ?thesis by (auto simp: show_ld_def abs_if split: if_splits)
qed

lemma discover_msg_ok:
  assumes "casan_base c"
  shows "\<exists>m. discover_msg c = Some m \<and> ok_msg m \<and> size_bound m < 200"
proof -
  have l: "length (show_ld (slaveid c)) \<le> 11" "length (show_ld (defmtu c)) \<le> 11"
    using assms by (auto intro!: length_show_ld [of _ 10, simplified] simp: casan_base_def)
  define m0 where "m0 = msg_new\<lparr>mid := word_of_int (curid c), mtype := COAP_TYPE_NON, mcode := COAP_CODE_POST\<rparr>"
  have 0: "ok_msg m0" "size_bound m0 = 13" by (simp_all add: m0_def ok_msg_def wf_msg_def msg_new_def wf_token_def Token_new_def COAP_MAX_TOKLEN_def size_bound_def)
  obtain m1 where 1: "push_opaque MO_Uri_Path (bytes ''.well-known'') m0 = Some m1" "ok_msg m1" "size_bound m1 = 29"
    using push_opaque_ok [OF 0(1), of MO_Uri_Path "bytes ''.well-known''"] 0(2) by auto
  obtain m2 where 2: "push_opaque MO_Uri_Path (bytes ''casan'') m1 = Some m2" "ok_msg m2" "size_bound m2 = 39"
    using push_opaque_ok [OF 1(2), of MO_Uri_Path "bytes ''casan''"] 1(3) by auto
  obtain m3 where 3: "push_opaque MO_Uri_Query (bytes ''slave='' @ show_ld (slaveid c)) m2 = Some m3" "ok_msg m3"
    "size_bound m3 = 50 + length (show_ld (slaveid c))"
    using push_opaque_ok [OF 2(2), of MO_Uri_Query "bytes ''slave='' @ show_ld (slaveid c)"] 2(3) by auto
  obtain m4 where 4: "push_opaque MO_Uri_Query (bytes ''mtu='' @ show_ld (defmtu c)) m3 = Some m4" "ok_msg m4"
    "size_bound m4 = size_bound m3 + 9 + length (show_ld (defmtu c))"
    using push_opaque_ok [OF 3(2), of MO_Uri_Query "bytes ''mtu='' @ show_ld (defmtu c)"] by auto
  show ?thesis
    using 1(1) 2(1) 3(1) 4 3(3) l
    by (simp add: discover_msg_def mk_ctl_msg_def casan_namespace_def m0_def [symmetric])
qed

lemma send_discover_ok:
  assumes "casan_base c"
  shows "\<exists>c'. send_discover l2 c = Some c' \<and> keeps c c'"
proof -
  obtain m where m: "discover_msg c = Some m" "ok_msg m" "size_bound m < 200" using discover_msg_ok [OF assms] by blast
  define c1 where "c1 = c\<lparr>curid := int16 (curid c + 1)\<rparr>"
  obtain ok c' where c': "send_to l2 (case master c of Some a \<Rightarrow> a | None \<Rightarrow> bcastaddr l2) m c1 = Some (ok, c')" "keeps c1 c'"
    using send_to_ok [OF m(2), of l2 "case master c of Some a \<Rightarrow> a | None \<Rightarrow> bcastaddr l2" c1] m(3) by auto
  have "keeps c c1" by (simp add: keeps_def c1_def)
  then show ?thesis using m(1) c' keeps_trans by (auto simp: send_discover_def c1_def)
qed

lemma get_well_known_ok:
  assumes "ok_msg out" "size_bound out \<le> 60" "net_ok l2"
  shows "\<exists>all out'. get_well_known l2 out c = Some (all, out') \<and> ok_msg out' \<and> size_bound out' < 65536 \<and>
    mtype out' = mtype out \<and> mcode out' = mcode out \<and> mid out' = mid out \<and> mtoken out' = mtoken out"
proof -
  obtain e os where m1: "set_content_format 0 False 0 out = Some (e, out\<lparr>optlist := os\<rparr>)" "ok_msg (out\<lparr>optlist := os\<rparr>)"
    "size_bound (out\<lparr>optlist := os\<rparr>) \<le> size_bound out + 9"
    using content_format_ok [OF assms(1)] by blast
  define avail where "avail = avail_space (maxpayload l2 (l2mtu c)) (out\<lparr>optlist := os\<rparr>)"
  have a: "avail \<le> 60000" using assms(3) by (auto simp: avail_def avail_space_def Let_def net_ok_def intro: diff_le_self le_trans)
  obtain sz buf all where w: "well_known_loop (reslist c) avail 0 (replicate avail 0) = Some (sz, buf, all)" "sz \<le> avail" "length buf = avail"
    using well_known_loop_ok [of "replicate avail 0" avail 0 "[]" "reslist c"] by auto
  obtain m2 where m2: "set_payload (out\<lparr>optlist := os\<rparr>) buf (of_nat sz) = Some m2" "ok_msg m2"
    "size_bound m2 \<le> size_bound (out\<lparr>optlist := os\<rparr>) + sz" "mtype m2 = mtype out" "mcode m2 = mcode out" "mid m2 = mid out" "mtoken m2 = mtoken out"
    using set_payload_ok [OF m1(2), of sz buf] w a by auto
  show ?thesis
    using m1 w m2 a assms(2) by (simp add: get_well_known_def avail_def [symmetric])
qed


lemma send_assoc_answer_ok:
  assumes "net_ok l2"
  shows "\<exists>c'. send_assoc_answer l2 d m c = Some c' \<and> keeps c c'"
proof -
  obtain all out where o: "get_well_known l2 (msg_new\<lparr>mtype := COAP_TYPE_ACK, mcode := COAP_CODE_OK, mid := mid m\<rparr>) c = Some (all, out)"
    "ok_msg out" "size_bound out < 65536"
    using get_well_known_ok [of "msg_new\<lparr>mtype := COAP_TYPE_ACK, mcode := COAP_CODE_OK, mid := mid m\<rparr>" l2 c] assms by auto
  obtain ok c' where "send_to l2 d out c = Some (ok, c')" "keeps c c'" using send_to_ok [OF o(2,3)] by blast
  then show ?thesis using o(1) by (simp add: send_assoc_answer_def)
qed

section \<open>Requests\<close>

text \<open>What an incoming message has to satisfy: the decoder promises the first two.\<close>

definition long_fits :: "coap_option \<Rightarrow> bool" where
  "long_fits o1 \<longleftrightarrow> optcode o1 \<noteq> MO_Uri_Query \<or> (case cstr (OPTVAL o1) of None \<Rightarrow> True | Some s \<Rightarrow>
     sscanf_ld 32 (bytes ''hello='') s \<noteq> None \<and> sscanf_ld 32 (bytes ''ttl='') s \<noteq> None \<and> sscanf_ld 32 (bytes ''mtu='') s \<noteq> None)"

definition longs_fit :: "slave_msg \<Rightarrow> bool" where
  "longs_fit m \<longleftrightarrow> list_all long_fits (optlist m)"

definition in_ok :: "slave_msg \<Rightarrow> bool" where
  "in_ok m \<longleftrightarrow> list_all wf_option (optlist m) \<and> wf_token (mtoken m) \<and> longs_fit m \<and> unat (mcode m) < 5"

lemma OPTVAL_zero: "wf_option o1 \<Longrightarrow> optlen o1 < int (length (OPTVAL o1)) \<and> OPTVAL o1 ! nat (optlen o1) = 0 \<and> 0 \<le> optlen o1"
  by (auto simp: wf_option_def OPTVAL_def split: option.splits)

lemma cstr_OPTVAL: "wf_option o1 \<Longrightarrow> \<exists>s. cstr (OPTVAL o1) = Some s"
proof -
  assume "wf_option o1"
  then have "nat (optlen o1) < length (OPTVAL o1)" "OPTVAL o1 ! nat (optlen o1) = 0" using OPTVAL_zero [of o1] by auto
  then have "0 \<in> set (OPTVAL o1)" by (metis nth_mem)
  then show ?thesis by (simp add: cstr_def)
qed

lemma memeq_OPTVAL: "wf_option o1 \<Longrightarrow> int (length p) = optlen o1 \<Longrightarrow> n = length p \<Longrightarrow> \<exists>b. memeq p (OPTVAL o1) n = Some b"
  using OPTVAL_zero [of o1] by (auto simp: memeq_def)

lemma optval_uint_zero: "wf_option o1 \<Longrightarrow> optval_uint o1 = Some 0"
  by (auto simp: optval_uint_def wf_option_def OPTVAL_def intro!: optval_loop_zero split: option.splits)

lemma find_SomeD: "find P xs = Some x \<Longrightarrow> x \<in> set xs \<and> P x"
  by (induction xs) (auto split: if_splits)

lemma search_option_wf: "search_option m k = Some o1 \<Longrightarrow> list_all wf_option (optlist m) \<Longrightarrow> wf_option o1"
  using find_SomeD by (fastforce simp: search_option_def list_all_iff)

lemma find_resource_less: "find_resource name rs = Some k \<Longrightarrow> k < length rs"
  by (induction rs arbitrary: k) (auto split: if_splits)

lemma answer_to_ok: "wf_token (mtoken m) \<Longrightarrow> ok_msg (answer_to m msg_new) \<and> size_bound (answer_to m msg_new) = 13"
  by (simp add: answer_to_def ok_msg_def wf_msg_def msg_new_def size_bound_def)

lemma request_resource_ok:
  assumes "ok_msg out" "size_bound out \<le> 40" "k < length (reslist c)" "list_all resource_ok (reslist c)"
    "case pin of None \<Rightarrow> True | Some m \<Rightarrow> unat (mcode m) < 5"
  shows "\<exists>out' c'. request_resource pin out k c = Some (out', c') \<and> ok_msg out' \<and> size_bound out' < 65536 \<and> keeps c c'"
proof -
  define r where "r = reslist c ! k"
  define op where "op = unat (case pin of None \<Rightarrow> COAP_CODE_GET | Some m \<Rightarrow> mcode m)"
  have r: "resource_ok r" using assms(3,4) by (simp add: r_def list_all_length)
  then have op: "op < length (handlers r)" using assms(5) by (auto simp: op_def resource_ok_def split: option.splits)
  then have q: "request_resource pin out k c = (case handlers r ! op of
       None \<Rightarrow> Some (out\<lparr>mcode := COAP_CODE_BAD_REQUEST\<rparr>, c)
     | Some f \<Rightarrow> do {
         (errno, out) \<leftarrow> set_content_format 0 False 0 out;
         let (code, out, w) = f pin out (world c);
         Some (out\<lparr>mcode := code\<rparr>, c\<lparr>world := w\<rparr>)
       })"
    using assms(3) by (simp only: request_resource_def get_handler_def r_def op_def Let_def rd_in bind.bind_lunit)
  show ?thesis
  proof (cases "handlers r ! op")
    case None
    then show ?thesis using assms(1,2) by (simp add: q ok_msg_header)
  next
    case (Some f)
    then have "Some f \<in> set (handlers r)" using op nth_mem by metis
    then have f: "handler_ok f" using r by (simp add: resource_ok_def)
    obtain e os where cf: "set_content_format 0 False 0 out = Some (e, out\<lparr>optlist := os\<rparr>)" "ok_msg (out\<lparr>optlist := os\<rparr>)"
      "size_bound (out\<lparr>optlist := os\<rparr>) \<le> size_bound out + 9"
      using content_format_ok [OF assms(1)] by blast
    obtain code out' w where h: "f pin (out\<lparr>optlist := os\<rparr>) (world c) = (code, out', w)" by (cases "f pin (out\<lparr>optlist := os\<rparr>) (world c)")
    have "size_bound (out\<lparr>optlist := os\<rparr>) \<le> 60" using cf(3) assms(2) by simp
    then have "ok_msg out' \<and> size_bound out' < 65536"
      using f [unfolded handler_ok_def, rule_format, of "out\<lparr>optlist := os\<rparr>" pin "world c"] cf(2) h by simp
    then show ?thesis
      using Some cf(1) h by (simp add: q ok_msg_header keeps_def)
  qed
qed

lemma keeps_update:
  "k < length (reslist c) \<Longrightarrow> (list_all resource_ok (reslist c) \<Longrightarrow> resource_ok r) \<Longrightarrow> keeps c (c\<lparr>reslist := (reslist c)[k := r], world := w\<rparr>)"
  by (auto simp: keeps_def list_all_iff dest!: set_update_subset_insert [THEN subsetD])

lemma observed_ok:
  assumes "resource_ok r" "case reg of None \<Rightarrow> True | Some m \<Rightarrow> wf_token (mtoken m)"
  shows "\<exists>r' w'. observed reg r w = Some (r', w') \<and> resource_ok r'"
  using assms by (auto simp: observed_def resource_ok_def split: option.splits)

lemma process_request_ok:
  assumes "in_ok m" "casan_base c" "net_ok l2"
  shows "\<exists>out c'. process_request l2 m msg_new c = Some (out, c') \<and> ok_msg out \<and> size_bound out < 65536 \<and> keeps c c'"
proof (cases "search_option m MO_Uri_Path")
  case None
  then show ?thesis using answer_to_ok [of m] assms(1) by (simp add: process_request_def in_ok_def ok_msg_header)
next
  case (Some o1)
  have m: "list_all wf_option (optlist m)" "wf_token (mtoken m)" "unat (mcode m) < 5" using assms(1) by (simp_all add: in_ok_def)
  have res: "list_all resource_ok (reslist c)" using assms(2) by (simp add: casan_base_def)
  have o1: "wf_option o1" using search_option_wf [OF Some m(1)] .
  obtain all where all: "(if optlen o1 = 9 then memeq (OPTVAL o1) (bytes ''resources'') 9 else Some False) = Some all"
    using OPTVAL_zero [OF o1] by (cases "optlen o1 = 9") (simp_all add: memeq_def)
  obtain name where name: "cstr (OPTVAL o1) = Some name" using cstr_OPTVAL [OF o1] by blast
  note a = answer_to_ok [OF m(2)]
  show ?thesis
  proof (cases all)
    case True
    obtain b out where "get_well_known l2 ((answer_to m msg_new)\<lparr>mcode := COAP_CODE_OK\<rparr>) c = Some (b, out)" "ok_msg out" "size_bound out < 65536"
      using get_well_known_ok [of "(answer_to m msg_new)\<lparr>mcode := COAP_CODE_OK\<rparr>" l2 c] a assms(3) by (auto simp: ok_msg_header)
    then show ?thesis using Some all True by (simp add: process_request_def)
  next
    case False
    show ?thesis
    proof (cases "get_resource name c")
      case None
      then show ?thesis using Some all False name a by (simp add: process_request_def ok_msg_header)
    next
      case k: (Some k)
      then have kl: "k < length (reslist c)" using find_resource_less by (auto simp: get_resource_def)
      then have rk: "resource_ok (reslist c ! k)" using res by (simp add: list_all_length)
      obtain on where on: "(case search_option m MO_Observe of None \<Rightarrow> Some False | Some ob \<Rightarrow> do { v \<leftarrow> optval_uint ob; Some (v = 0) }) = Some on"
        using search_option_wf [OF _ m(1)] optval_uint_zero by (cases "search_option m MO_Observe") auto
      obtain r w where r: "observed (if on then Some m else None) (reslist c ! k) (world c) = Some (r, w)" "resource_ok r"
        using observed_ok [OF rk, of "if on then Some m else None" "world c"] m(2) by (cases on) auto
      obtain r2 out where o: "(if on then do {
                     let (s, r) = next_serial r;
                     out \<leftarrow> push_uint MO_Observe s (answer_to m msg_new);
                     Some (r, out)
                   } else Some (r, answer_to m msg_new)) = Some (r2, out)" "resource_ok r2" "ok_msg out" "size_bound out \<le> 40"
      proof (cases on)
        case True
        obtain os where "push_uint MO_Observe (obs_serial r + 1) (answer_to m msg_new) = Some ((answer_to m msg_new)\<lparr>optlist := os\<rparr>)"
          "ok_msg ((answer_to m msg_new)\<lparr>optlist := os\<rparr>)" "size_bound ((answer_to m msg_new)\<lparr>optlist := os\<rparr>) \<le> 22"
          using push_uint_ok [of "answer_to m msg_new" MO_Observe "obs_serial r + 1"] a by auto
        then show ?thesis using True r(2) that by (simp add: next_serial_def resource_ok_def)
      next
        case False
        then show ?thesis using that [OF _ r(2)] a by simp
      qed
      define c1 where "c1 = c\<lparr>reslist := (reslist c)[k := r2], world := w\<rparr>"
      have c1: "keeps c c1" unfolding c1_def using kl o(2) by (intro keeps_update)
      have "k < length (reslist c1)" "list_all resource_ok (reslist c1)" using c1 kl res by (simp_all add: keeps_def)
      then obtain out' c' where q: "request_resource (Some m) out k c1 = Some (out', c')" "ok_msg out'" "size_bound out' < 65536" "keeps c1 c'"
        using request_resource_ok [OF o(3,4), of k c1 "Some m"] m(3) by auto
      show ?thesis
        using Some all False name k kl on r(1) o(1) q c1 keeps_trans
        by (simp add: process_request_def Let_def c1_def [symmetric]) blast
    qed
  qed
qed


lemma notify_observer_ok:
  assumes "master c = Some d" "list_all resource_ok (reslist c)" "k < length (reslist c)" "resource_ok r"
  shows "\<exists>c'. notify_observer l2 k r c = Some c' \<and> keeps c c'"
proof -
  define m0 where "m0 = msg_new\<lparr>mtype := COAP_TYPE_ACK, mtoken := obs_token r, mid := word_of_int (curid c), mcode := COAP_CODE_OK\<rparr>"
  have m0: "ok_msg m0" "size_bound m0 = 13"
    using assms(4) by (simp_all add: m0_def ok_msg_def wf_msg_def msg_new_def size_bound_def resource_ok_def)
  obtain os where m1: "push_uint MO_Observe (obs_serial r + 1) m0 = Some (m0\<lparr>optlist := os\<rparr>)" "ok_msg (m0\<lparr>optlist := os\<rparr>)"
    "size_bound (m0\<lparr>optlist := os\<rparr>) \<le> 40"
    using push_uint_ok [OF m0(1), of MO_Observe "obs_serial r + 1"] m0(2) by auto
  define r2 where "r2 = r\<lparr>obs_serial := obs_serial r + 1\<rparr>"
  define c3 where "c3 = c\<lparr>curid := int16 (curid c + 1), reslist := (reslist c)[k := r2]\<rparr>"
  have "resource_ok r2" using assms(4) by (simp add: r2_def resource_ok_def)
  then have c3: "keeps c c3" by (auto simp: c3_def keeps_def list_all_iff dest!: set_update_subset_insert [THEN subsetD])
  have "k < length (reslist c3)" "list_all resource_ok (reslist c3)" using c3 assms(2,3) by (simp_all add: keeps_def)
  then obtain out c4 where q: "request_resource None (m0\<lparr>optlist := os\<rparr>) k c3 = Some (out, c4)" "ok_msg out" "size_bound out < 65536" "keeps c3 c4"
    using request_resource_ok [OF m1(2,3), of k c3 None] by auto
  have d4: "master c4 = Some d" using q(4) c3 assms(1) by (simp add: keeps_def)
  obtain ok c5 where s: "send_to l2 d out c4 = Some (ok, c5)" "keeps c4 c5" using send_to_ok [OF q(2,3)] by blast
  have "notify_observer l2 k r c = Some c5"
    unfolding notify_observer_def m0_def [symmetric] next_serial_def Let_def prod.case r2_def [symmetric] c3_def [symmetric]
    by (simp only: m1(1) q(1) d4 s(1) bind.bind_lunit prod.case)
  then show ?thesis using c3 q(4) s(2) keeps_trans by blast
qed

lemma check_observed_ok:
  assumes "master c \<noteq> None" "list_all resource_ok (reslist c)" "list_all (\<lambda>k. k < length (reslist c)) ks"
  shows "\<exists>c'. check_observed_loop l2 ks c = Some c' \<and> keeps c c'"
  using assms
proof (induction ks arbitrary: c)
  case (Cons k ks)
  have k: "k < length (reslist c)" "resource_ok (reslist c ! k)" using Cons.prems by (simp_all add: list_all_iff)
  obtain b w where b: "check_trigger (reslist c ! k) (world c) = (b, w)" by (cases "check_trigger (reslist c ! k) (world c)")
  have c1: "keeps c (c\<lparr>world := w\<rparr>)" by (simp add: keeps_def)
  obtain c2 where c2: "(if b then notify_observer l2 k (reslist c ! k) (c\<lparr>world := w\<rparr>) else Some (c\<lparr>world := w\<rparr>)) = Some c2" "keeps c c2"
  proof (cases b)
    case True
    obtain d where "master (c\<lparr>world := w\<rparr>) = Some d" using Cons.prems(1) by auto
    then obtain c2 where "notify_observer l2 k (reslist c ! k) (c\<lparr>world := w\<rparr>) = Some c2" "keeps (c\<lparr>world := w\<rparr>) c2"
      using notify_observer_ok [of "c\<lparr>world := w\<rparr>" d k "reslist c ! k" l2] Cons.prems(2) k by auto
    then show ?thesis using that True keeps_trans [OF c1] by simp
  qed (use that c1 in simp)
  have "master c2 \<noteq> None" "list_all resource_ok (reslist c2)" "list_all (\<lambda>k. k < length (reslist c2)) ks"
    using c2(2) Cons.prems by (simp_all add: keeps_def)
  then obtain c' where c': "check_observed_loop l2 ks c2 = Some c'" "keeps c2 c'" using Cons.IH by blast
  have "check_observed_loop l2 (k # ks) c = Some c'" using k(1) b c2(1) c'(1) by simp
  then show ?case using keeps_trans [OF c2(2) c'(2)] by blast
qed simp

section \<open>Control messages\<close>

lemma ctl_loop_ok: "list_all wf_option os \<Longrightarrow> \<exists>b. ctl_loop i os = Some b"
proof (induction os arbitrary: i)
  case (Cons o1 os)
  have w: "wf_option o1" "list_all wf_option os" using Cons.prems by simp_all
  show ?case
  proof (cases "optcode o1 = MO_Uri_Path \<and> i < length casan_namespace \<and> int (length (casan_namespace ! i)) = optlen o1")
    case True
    then obtain b where "memeq (casan_namespace ! i) (OPTVAL o1) (nat (optlen o1)) = Some b"
      using memeq_OPTVAL [OF w(1), of "casan_namespace ! i" "nat (optlen o1)"] by (metis nat_int)
    then show ?thesis using True Cons.IH [OF w(2)] by (cases b) auto
  next
    case False
    then show ?thesis using Cons.IH [OF w(2)] by auto
  qed
qed simp

lemma hello_loop_ok:
  "list_all wf_option os \<Longrightarrow> list_all long_fits os \<Longrightarrow> \<exists>r. hello_loop os h = Some r"
proof (induction os arbitrary: h)
  case (Cons o1 os)
  then obtain s where "cstr (OPTVAL o1) = Some s" using cstr_OPTVAL by force
  then show ?case using Cons by (auto simp: long_fits_def)
qed simp

lemma assoc_loop_ok:
  "list_all wf_option os \<Longrightarrow> list_all long_fits os \<Longrightarrow> \<exists>r. assoc_loop os a b d = Some r"
proof (induction os arbitrary: a b d)
  case (Cons o1 os)
  then obtain s where "cstr (OPTVAL o1) = Some s" using cstr_OPTVAL by force
  then show ?case using Cons by (auto simp: long_fits_def split: option.split)
qed simp

lemma is_ctl_msg_ok: "in_ok m \<Longrightarrow> \<exists>b. is_ctl_msg m = Some b"
  using ctl_loop_ok by (auto simp: is_ctl_msg_def in_ok_def)

lemma is_hello_ok: "in_ok m \<Longrightarrow> \<exists>h. is_hello m = Some h"
  using hello_loop_ok [of "optlist m" None] by (auto simp: is_hello_def in_ok_def longs_fit_def)

lemma is_assoc_ok: "in_ok m \<Longrightarrow> \<exists>a t. is_assoc m c = Some (a, c\<lparr>sttl := t\<rparr>)"
proof (cases "mtype m = COAP_TYPE_CON \<and> mcode m = COAP_CODE_POST")
  case True
  moreover assume "in_ok m"
  then obtain r where "assoc_loop (optlist m) False (sttl c) None = Some r"
    using assoc_loop_ok [of "optlist m" False "sttl c" None] by (auto simp: in_ok_def longs_fit_def)
  ultimately show ?thesis by (cases r) (auto simp: is_assoc_def)
next
  case False
  then have "is_assoc m c = Some (None, c\<lparr>sttl := sttl c\<rparr>)" by (auto simp: is_assoc_def)
  then show ?thesis by blast
qed

end
