(* ===== verification/Slave_Machine.thy ===== *)
theory Slave_Machine
  imports Slave_Engine_Ops
begin

text \<open>
  The loop of the engine as a state machine: an abstract machine with the transitions the protocol
  allows, the proof that every call of \<open>loop\<close> follows it and is free of undefined behaviour, and the
  end of an association.
\<close>

section \<open>The abstract state machine\<close>

text \<open>
  The state as the protocol sees it: nothing sent yet, no master known, a master known by its hello,
  associated with a master, renewing the association.
\<close>

datatype view = Cold | Unknown | Known l2addr | Running l2addr | Renew l2addr

datatype event = Hello l2addr | Assoc l2addr

definition view :: "'w casan \<Rightarrow> view" where
  "view c = (case status c of
     SL_COLDSTART \<Rightarrow> Cold
   | SL_WAITING_UNKNOWN \<Rightarrow> Unknown
   | SL_WAITING_KNOWN \<Rightarrow> Known (the (master c))
   | SL_RUNNING \<Rightarrow> Running (the (master c))
   | SL_RENEW \<Rightarrow> Renew (the (master c)))"

lemma view_cong: "status c' = status c \<Longrightarrow> master c' = master c \<Longrightarrow> view c' = view c"
  unfolding view_def by (cases "status c") simp_all

lemma keeps_view: "keeps c c' \<Longrightarrow> view c' = view c"
  by (rule view_cong) (simp_all add: keeps_def)

text \<open>What a control message from an address may do.\<close>

inductive on_event :: "event \<Rightarrow> view \<Rightarrow> view \<Rightarrow> bool" where
  hello_unknown: "on_event (Hello a) Unknown (Known a)"
| hello_known: "on_event (Hello a) (Known b) (Known a)"
| hello_running: "on_event (Hello a) (Running b) (Known a)"
| hello_renew: "on_event (Hello a) (Renew b) (Known a)"
| adopt_running: "on_event (Hello a) (Running b) (Running a)"
| adopt_renew: "on_event (Hello a) (Renew b) (Renew a)"
| assoc_unknown: "on_event (Assoc a) Unknown (Running a)"
| assoc_known: "on_event (Assoc a) (Known b) (Running a)"
| assoc_running: "on_event (Assoc a) (Running a) (Running a)"
| assoc_renew: "on_event (Assoc a) (Renew a) (Running a)"

text \<open>What the clock may do.\<close>

inductive on_time :: "view \<Rightarrow> view \<Rightarrow> bool" where
  start: "on_time Cold Unknown"
| give_up: "on_time (Known a) Unknown"
| renew: "on_time (Running a) (Renew a)"
| expire: "on_time (Renew a) Unknown"

inductive_cases on_event_RunningE: "on_event e v (Running a)"
inductive_cases on_time_RunningE: "on_time v (Running a)"

text \<open>The control message in a received frame, if it is one.\<close>

definition event_of :: "l2_recv \<Rightarrow> l2addr \<Rightarrow> slave_msg \<Rightarrow> 'w casan \<Rightarrow> event option" where
  "event_of ret a m c =
     (if ret = RECV_OK \<and> is_ctl_msg m = Some True then
        case is_hello m of
          Some (Some h) \<Rightarrow> Some (Hello a)
        | _ \<Rightarrow> (case is_assoc m c of Some (Some mtu, _) \<Rightarrow> Some (Assoc a) | _ \<Rightarrow> None)
      else None)"

section \<open>The steps\<close>

lemma ok_base: "casan_ok c \<Longrightarrow> casan_base c"
  by (simp add: casan_ok_def)

lemma base_changes [intro]:
  "casan_base c \<Longrightarrow> casan_base (negociate_mtu n c)"
  "casan_base c \<Longrightarrow> casan_base (change_master a h n c)"
  "casan_base c \<Longrightarrow> casan_base (reset_master c)"
  "casan_base c \<Longrightarrow> casan_base (c\<lparr>sttl := t\<rparr>)"
  "casan_base c \<Longrightarrow> casan_base (start_running c)"
  "casan_base c \<Longrightarrow> casan_base (wait_from s c)"
  "casan_base c \<Longrightarrow> casan_base (c\<lparr>twt := w\<rparr>)"
  "casan_base c \<Longrightarrow> casan_base (c\<lparr>trn := w2\<rparr>)"
  "casan_base c \<Longrightarrow> casan_base (c\<lparr>status := s\<rparr>)"
  by (auto simp: casan_base_def negociate_mtu_def change_master_def reset_master_def reset_mtu_def start_running_def wait_from_def Let_def
      split: option.split)

lemma change_fields [simp]:
  "master (change_master a h n c) = Some a" "status (change_master a h n c) = status c" "ctime (change_master a h n c) = ctime c"
  "sttl (change_master a h n c) = sttl c" "master (negociate_mtu n c) = master c" "status (negociate_mtu n c) = status c"
  "master (reset_master c) = None" "status (reset_master c) = status c"
  "master (start_running c) = master c" "status (start_running c) = SL_RUNNING" "master (wait_from s c) = master c" "status (wait_from s c) = s"
  by (auto simp: negociate_mtu_def change_master_def reset_master_def reset_mtu_def start_running_def wait_from_def Let_def split: option.split)

lemma received_same: "casan_base c \<Longrightarrow> c\<lparr>retrans := check_msg_received m (retrans c)\<rparr> = c"
  by (simp add: casan_base_def check_msg_received_def Retrans_del_def)

lemma waiting_frame_ok:
  assumes "casan_base c" "in_ok m" "net_ok l2" "status c \<in> {SL_WAITING_UNKNOWN, SL_WAITING_KNOWN}"
    "master c = None \<longleftrightarrow> status c = SL_WAITING_UNKNOWN"
  shows "\<exists>c'. waiting_frame l2 i m c = Some c' \<and> casan_ok c' \<and>
    (view c' = view c \<or> (\<exists>e. event_of RECV_OK (src i) m c = Some e \<and> on_event e (view c) (view c')))"
proof -
  have c: "c\<lparr>retrans := check_msg_received m (retrans c)\<rparr> = c" by (rule received_same [OF assms(1)])
  have ok: "casan_ok c" using assms(1,4,5) by (auto simp: casan_ok_def)
  obtain b where b: "is_ctl_msg m = Some b" using is_ctl_msg_ok [OF assms(2)] by blast
  obtain h where h: "is_hello m = Some h" using is_hello_ok [OF assms(2)] by blast
  obtain a t where a: "is_assoc m c = Some (a, c\<lparr>sttl := t\<rparr>)" using is_assoc_ok [OF assms(2)] by blast
  show ?thesis
  proof (cases b)
    case False
    then show ?thesis using b c ok by (simp add: waiting_frame_def)
  next
    case True
    show ?thesis
    proof (cases h)
      case (Some hl)
      have "event_of RECV_OK (src i) m c = Some (Hello (src i))" using b True h Some by (simp add: event_of_def)
      moreover have "casan_base (change_master (src i) hl (- 1) c)" using assms(1) by blast
      ultimately show ?thesis
        using b True h Some c assms(4)
        by (auto simp: waiting_frame_def Let_def casan_ok_def view_def intro: on_event.intros)
    next
      case None
      show ?thesis
      proof (cases a)
        case a0: None
        have "casan_ok (c\<lparr>sttl := t\<rparr>)" "view (c\<lparr>sttl := t\<rparr>) = view c" using ok by (auto simp: casan_ok_def intro: view_cong)
        then show ?thesis using b True h None c a a0 by (simp add: waiting_frame_def)
      next
        case a1: (Some mtu)
        have e: "event_of RECV_OK (src i) m c = Some (Assoc (src i))" using b True h None a a1 by (simp add: event_of_def)
        define c1 where "c1 = change_master (src i) (- 1) mtu (c\<lparr>sttl := t\<rparr>)"
        have c1: "casan_base c1" "master c1 = Some (src i)" using assms(1) by (auto simp: c1_def)
        obtain c2 where c2: "send_assoc_answer l2 (src i) m c1 = Some c2" "keeps c1 c2"
          using send_assoc_answer_ok [OF assms(3)] by blast
        have "casan_ok (start_running c2)" "view (start_running c2) = Running (src i)"
          using keeps_base [OF c2(2) c1(1)] c1(2) c2(2) by (auto simp: casan_ok_def view_def keeps_def)
        moreover have "on_event (Assoc (src i)) (view c) (Running (src i))"
          using assms(4) by (auto simp: view_def intro: on_event.intros)
        ultimately show ?thesis
          using b True h None c a a1 c2(1) e by (simp add: waiting_frame_def c1_def)
      qed
    qed
  qed
qed

lemma running_frame_ok:
  assumes "casan_ok c" "in_ok m" "net_ok l2" "status c \<in> {SL_RUNNING, SL_RENEW}"
  shows "\<exists>c'. running_frame l2 i m c = Some c' \<and> casan_ok c' \<and> master c' \<noteq> None \<and>
    (view c' = view c \<or> (\<exists>e. event_of RECV_OK (src i) m c = Some e \<and> on_event e (view c) (view c'))) \<and>
    (event_of RECV_OK (src i) m c = None \<longrightarrow> status c' = status c \<and> trn c' = trn c \<and> ctime c' = ctime c)"
proof -
  have base: "casan_base c" using assms(1) by (simp add: casan_ok_def)
  have c: "c\<lparr>retrans := check_msg_received m (retrans c)\<rparr> = c" by (rule received_same [OF base])
  obtain d where d: "master c = Some d" using assms(1,4) by (auto simp: casan_ok_def)
  obtain b where b: "is_ctl_msg m = Some b" using is_ctl_msg_ok [OF assms(2)] by blast
  obtain h where h: "is_hello m = Some h" using is_hello_ok [OF assms(2)] by blast
  obtain a t where a: "is_assoc m c = Some (a, c\<lparr>sttl := t\<rparr>)" using is_assoc_ok [OF assms(2)] by blast
  show ?thesis
  proof (cases b)
    case False
    obtain out c1 where q: "process_request l2 m msg_new c = Some (out, c1)" "ok_msg out" "size_bound out < 65536" "keeps c c1"
      using process_request_ok [OF assms(2) base assms(3)] by blast
    have d1: "master c1 = Some d" using q(4) d by (simp add: keeps_def)
    obtain ok c2 where s: "send_to l2 d out c1 = Some (ok, c2)" "keeps c1 c2" using send_to_ok [OF q(2,3)] by blast
    have k: "keeps c c2" using keeps_trans [OF q(4) s(2)] .
    have "running_frame l2 i m c = Some c2" using b False c q(1) d1 s(1) by (simp add: running_frame_def)
    moreover have "view c2 = view c" "master c2 \<noteq> None" "status c2 = status c \<and> trn c2 = trn c \<and> ctime c2 = ctime c"
      using k d keeps_view [OF k] by (simp_all add: keeps_def)
    ultimately show ?thesis using keeps_ok [OF k assms(1)] by blast
  next
    case True
    show ?thesis
    proof (cases h)
      case (Some hl)
      have e: "event_of RECV_OK (src i) m c = Some (Hello (src i))" using b True h Some by (simp add: event_of_def)
      define c1 where "c1 = change_master (src i) hl 0 c"
      have c1: "casan_base c1" "master c1 = Some (src i)" "status c1 = status c" using base by (auto simp: c1_def)
      have r: "running_frame l2 i m c = Some (if \<not> same_master (src i) c \<or> hl \<noteq> hlid c
          then if int16 (hlid c) \<noteq> - 1 then wait_from SL_WAITING_KNOWN c1 else c1 else c)"
        using b True h Some c by (simp add: running_frame_def Let_def c1_def)
      have 1: "casan_ok (wait_from SL_WAITING_KNOWN c1)" "casan_ok c1" "on_event (Hello (src i)) (view c) (view (wait_from SL_WAITING_KNOWN c1))"
        "on_event (Hello (src i)) (view c) (view c1)"
        using c1 assms(4) by (auto simp: casan_ok_def view_def intro: on_event.intros)
      show ?thesis unfolding r using 1 e c1(2) assms(1) d by auto
    next
      case None
      show ?thesis
      proof (cases "a \<noteq> None \<and> same_master (src i) (c\<lparr>sttl := t\<rparr>)")
        case False
        have "casan_ok (c\<lparr>sttl := t\<rparr>)" "view (c\<lparr>sttl := t\<rparr>) = view c" "master (c\<lparr>sttl := t\<rparr>) \<noteq> None"
          using assms(1) d by (auto simp: casan_ok_def intro: view_cong)
        then show ?thesis using b True h None c a False by (cases a) (auto simp: running_frame_def)
      next
        case a1: True
        then obtain mtu where mtu: "a = Some mtu" by auto
        have sd: "src i = d" using a1 d by (simp add: same_master_def)
        have e: "event_of RECV_OK (src i) m c = Some (Assoc (src i))" using b True h None a mtu by (simp add: event_of_def)
        define c1 where "c1 = negociate_mtu mtu (c\<lparr>sttl := t\<rparr>)"
        have c1: "casan_base c1" "master c1 = Some d" using base d by (auto simp: c1_def)
        obtain c2 where c2: "send_assoc_answer l2 (src i) m c1 = Some c2" "keeps c1 c2"
          using send_assoc_answer_ok [OF assms(3)] by blast
        have "casan_ok (start_running c2)" "view (start_running c2) = Running d" "master (start_running c2) \<noteq> None"
          using keeps_base [OF c2(2) c1(1)] c1(2) c2(2) by (auto simp: casan_ok_def view_def keeps_def)
        moreover have "on_event (Assoc (src i)) (view c) (Running d)"
          using assms(4) d sd by (auto simp: view_def intro: on_event.intros)
        ultimately show ?thesis
          using b True h None c a a1 mtu c2(1) e by (simp add: running_frame_def c1_def)
      qed
    qed
  qed
qed


lemma truncated_frame_ok:
  assumes "casan_ok c" "wf_token (mtoken m)" "status c \<in> {SL_RUNNING, SL_RENEW}"
  shows "\<exists>c'. truncated_frame l2 m c = Some c' \<and> keeps c c'"
proof -
  obtain d where d: "master c = Some d" using assms(1,3) by (auto simp: casan_ok_def)
  define v where "v = (word_of_int (l2mtu c) :: u32)"
  obtain os where o: "push_uint MO_Size1 v (answer_to m msg_new) = Some ((answer_to m msg_new)\<lparr>optlist := os\<rparr>)"
    "ok_msg ((answer_to m msg_new)\<lparr>optlist := os\<rparr>)" "size_bound ((answer_to m msg_new)\<lparr>optlist := os\<rparr>) \<le> 22"
    using push_uint_ok [of "answer_to m msg_new" MO_Size1 v] answer_to_ok [OF assms(2)] by auto
  define out where "out = ((answer_to m msg_new)\<lparr>optlist := os\<rparr>)\<lparr>mcode := COAP_CODE_TOO_LARGE\<rparr>"
  have "ok_msg out" "size_bound out < 65536" using o(2,3) by (simp_all add: out_def ok_msg_header)
  then obtain ok c' where s: "send_to l2 d out c = Some (ok, c')" "keeps c c'" using send_to_ok by blast
  have "truncated_frame l2 m c = Some c'"
    unfolding truncated_frame_def v_def [symmetric] by (simp only: o(1) d out_def [symmetric] s(1) bind.bind_lunit prod.case)
  then show ?thesis using s(2) by blast
qed

lemma lose_master_ok:
  assumes "casan_base c"
  shows "\<exists>c'. lose_master l2 c = Some c' \<and> casan_ok c' \<and> view c' = Unknown"
proof -
  have "casan_base (reset_master c)" using assms by blast
  then obtain c1 where c1: "send_discover l2 (reset_master c) = Some c1" "keeps (reset_master c) c1" using send_discover_ok by blast
  then have "casan_base c1" "master c1 = None" using keeps_base [OF c1(2)] assms by (auto simp: keeps_def)
  then have "casan_ok (wait_from SL_WAITING_UNKNOWN c1)" "view (wait_from SL_WAITING_UNKNOWN c1) = Unknown"
    by (auto simp: casan_ok_def view_def)
  then show ?thesis using c1(1) by (simp add: lose_master_def)
qed

lemma wait_timer_ok:
  assumes "casan_ok c"
  shows "\<exists>c'. wait_timer l2 c = Some c' \<and> casan_ok c' \<and> view c' = view c"
proof -
  obtain b t where t: "Twait_next (ctime c) (twt c) = (b, t)" by (cases "Twait_next (ctime c) (twt c)")
  define c1 where "c1 = c\<lparr>twt := t\<rparr>"
  have c1: "casan_ok c1" "view c1 = view c" using assms by (auto simp: c1_def casan_ok_def intro: view_cong)
  obtain c2 where c2: "send_discover l2 c1 = Some c2" "keeps c1 c2" using send_discover_ok c1(1) by (auto simp: casan_ok_def)
  have "casan_ok c2" "view c2 = view c" using keeps_ok [OF c2(2) c1(1)] c1(2) keeps_view [OF c2(2)] by simp_all
  then show ?thesis using t c1 c2(1) by (simp add: wait_timer_def c1_def [symmetric])
qed


lemma renew_timers_ok:
  assumes "casan_ok c"
  shows "\<exists>c'. renew_timers l2 c = Some c' \<and> casan_ok c' \<and> on_time\<^sup>*\<^sup>* (view c) (view c') \<and>
    (Trenew_expired (ctime c) (trn c) \<and> (status c = SL_RUNNING \<longrightarrow> tr_next (trn c) \<le> ctime c) \<longrightarrow> status c' \<notin> {SL_RUNNING, SL_RENEW})"
proof -
  have l: "tr_limit (snd (Trenew_next t x)) = tr_limit x" for t x by (simp add: Trenew_next_def Let_def)
  obtain c1 where c1: "(if status c = SL_RUNNING then
         let (b, t) = Trenew_renew (ctime c) (trn c); c = c\<lparr>trn := t\<rparr> in
         if b then do { c \<leftarrow> send_discover l2 c; Some (c\<lparr>status := SL_RENEW\<rparr>) } else Some c
       else Some c) = Some c1" "casan_ok c1" "on_time\<^sup>*\<^sup>* (view c) (view c1)" "ctime c1 = ctime c" "tr_limit (trn c1) = tr_limit (trn c)"
    "status c = SL_RUNNING \<and> tr_next (trn c) \<le> ctime c \<longrightarrow> status c1 = SL_RENEW" "status c \<noteq> SL_RUNNING \<longrightarrow> status c1 = status c"
    "status c = SL_RUNNING \<longrightarrow> status c1 \<in> {SL_RUNNING, SL_RENEW}"
  proof (cases "status c = SL_RUNNING")
    case True
    obtain b t where t: "Trenew_renew (ctime c) (trn c) = (b, t)" by (cases "Trenew_renew (ctime c) (trn c)")
    have lt: "tr_limit t = tr_limit (trn c)" "b \<longleftrightarrow> tr_next (trn c) \<le> ctime c"
      using t l [of "ctime c" "trn c"] by (auto simp: Trenew_renew_def Trenew_next_def Let_def split: if_splits)
    define c0 where "c0 = c\<lparr>trn := t\<rparr>"
    have c0: "casan_ok c0" "view c0 = view c" "casan_base c0" "status c0 = SL_RUNNING" "ctime c0 = ctime c" "trn c0 = t"
      using assms True by (auto simp: c0_def casan_ok_def intro: view_cong)
    show ?thesis
    proof (cases b)
      case False
      then show ?thesis using that [of c0] True t c0 lt by (auto simp: c0_def)
    next
      case b: True
      obtain c2 where c2: "send_discover l2 c0 = Some c2" "keeps c0 c2" using send_discover_ok [OF c0(3)] by blast
      have k: "casan_ok c2" "status c2 = SL_RUNNING" "master c2 = master c0" "ctime c2 = ctime c" "trn c2 = t"
        using keeps_ok [OF c2(2) c0(1)] c2(2) c0 by (simp_all add: keeps_def)
      have "casan_ok (c2\<lparr>status := SL_RENEW\<rparr>)" using k(1,2) by (auto simp: casan_ok_def)
      moreover have "on_time (view c) (view (c2\<lparr>status := SL_RENEW\<rparr>))"
        using k(3) True by (auto simp: view_def c0_def intro: on_time.intros)
      ultimately show ?thesis
        using that [of "c2\<lparr>status := SL_RENEW\<rparr>"] True t b c2(1) k lt by (auto simp: c0_def [symmetric])
    qed
  qed (use that assms in auto)
  obtain c2 where c2: "(if status c1 = SL_RENEW then
         let (b, t) = Trenew_next (ctime c1) (trn c1); c = c1\<lparr>trn := t\<rparr> in
         if b then send_discover l2 c else Some c
       else Some c1) = Some c2" "casan_ok c2" "view c2 = view c1" "status c2 = status c1" "ctime c2 = ctime c1" "tr_limit (trn c2) = tr_limit (trn c1)"
  proof (cases "status c1 = SL_RENEW")
    case True
    obtain b t where t: "Trenew_next (ctime c1) (trn c1) = (b, t)" by (cases "Trenew_next (ctime c1) (trn c1)")
    have lt: "tr_limit t = tr_limit (trn c1)" using t l [of "ctime c1" "trn c1"] by simp
    define c0 where "c0 = c1\<lparr>trn := t\<rparr>"
    have c0: "casan_ok c0" "view c0 = view c1" "casan_base c0" "status c0 = status c1" "ctime c0 = ctime c1" "trn c0 = t"
      using c1(2) by (auto simp: c0_def casan_ok_def intro: view_cong)
    obtain c3 where c3: "send_discover l2 c0 = Some c3" "keeps c0 c3" using send_discover_ok [OF c0(3)] by blast
    have k: "casan_ok c3" "status c3 = status c1" "view c3 = view c1" "ctime c3 = ctime c1" "trn c3 = t"
      using keeps_ok [OF c3(2) c0(1)] c3(2) c0 keeps_view [OF c3(2)] by (simp_all add: keeps_def)
    show ?thesis
      using that [of c0] that [of c3] True t c0 c3(1) k lt by (cases b) (auto simp: c0_def [symmetric])
  qed (use that c1(2) in auto)
  show ?thesis
  proof (cases "status c2 = SL_RENEW \<and> Trenew_expired (ctime c2) (trn c2)")
    case True
    obtain c3 where c3: "lose_master l2 c2 = Some c3" "casan_ok c3" "view c3 = Unknown"
      using lose_master_ok [OF ok_base [OF c2(2)]] by blast
    have "on_time (view c2) Unknown" using True by (auto simp: view_def intro: on_time.intros)
    then have "on_time\<^sup>*\<^sup>* (view c) (view c3)" using c1(3) c2(3) c3(3) by simp
    moreover have "status c3 \<notin> {SL_RUNNING, SL_RENEW}" using c3(3) by (auto simp: view_def)
    moreover have "renew_timers l2 c = Some c3"
      unfolding renew_timers_def c1(1) bind.bind_lunit c2(1) using True c3(1) by simp
    ultimately show ?thesis using c3(2) by blast
  next
    case False
    have "renew_timers l2 c = Some c2"
      unfolding renew_timers_def c1(1) bind.bind_lunit c2(1) using False by auto
    moreover have "on_time\<^sup>*\<^sup>* (view c) (view c2)" using c1(3) c2(3) by simp
    moreover have "status c2 \<notin> {SL_RUNNING, SL_RENEW}"
      if "Trenew_expired (ctime c) (trn c)" "status c = SL_RUNNING \<longrightarrow> tr_next (trn c) \<le> ctime c"
      using False that c1(4-8) c2(4-6) by (auto simp: Trenew_expired_def)
    ultimately show ?thesis using c2(2) by blast
  qed
qed


section \<open>The loop\<close>

lemma twait_timeout: "casan_ok c \<Longrightarrow> status c = SL_WAITING_KNOWN \<Longrightarrow> on_time (view c) Unknown"
  by (auto simp: view_def intro: on_time.intros)

lemma waiting_tail:
  assumes "casan_ok c"
  shows "status c = SL_WAITING_KNOWN \<Longrightarrow>
      \<exists>c'. (if Twait_expired (ctime c) (twt c) then lose_master l2 c else wait_timer l2 c) = Some c' \<and> casan_ok c' \<and> on_time\<^sup>*\<^sup>* (view c) (view c')"
  using lose_master_ok [OF ok_base [OF assms], of l2] wait_timer_ok [OF assms, of l2] twait_timeout [OF assms] by force

lemma waiting_stage:
  assumes "casan_ok c" "net_ok l2" "ret = RECV_OK \<longrightarrow> in_ok m" "status c \<in> {SL_WAITING_UNKNOWN, SL_WAITING_KNOWN}"
  shows "\<exists>c1. (if ret = RECV_OK then waiting_frame l2 i m c else Some c) = Some c1 \<and> casan_ok c1 \<and>
    (view c1 = view c \<or> (\<exists>e. event_of ret (src i) m c = Some e \<and> on_event e (view c) (view c1)))"
proof (cases "ret = RECV_OK")
  case True
  have "master c = None \<longleftrightarrow> status c = SL_WAITING_UNKNOWN" using assms(1,4) by (auto simp: casan_ok_def)
  then show ?thesis using waiting_frame_ok [OF ok_base [OF assms(1)] _ assms(2,4), of m i] assms(3) True by simp
qed (use assms(1) in simp)

lemma running_stage:
  assumes "casan_ok c" "net_ok l2" "wf_token (mtoken m)" "ret = RECV_OK \<longrightarrow> in_ok m" "status c \<in> {SL_RUNNING, SL_RENEW}"
  shows "\<exists>c1. (if ret = RECV_OK then running_frame l2 i m c else if ret = RECV_TRUNCATED then truncated_frame l2 m c else Some c) = Some c1 \<and>
    casan_ok c1 \<and> master c1 \<noteq> None \<and>
    (view c1 = view c \<or> (\<exists>e. event_of ret (src i) m c = Some e \<and> on_event e (view c) (view c1))) \<and>
    (event_of ret (src i) m c = None \<longrightarrow> status c1 = status c \<and> trn c1 = trn c \<and> ctime c1 = ctime c)"
proof -
  have m: "master c \<noteq> None" using assms(1,5) by (auto simp: casan_ok_def)
  consider "ret = RECV_OK" | "ret = RECV_TRUNCATED" | "ret \<notin> {RECV_OK, RECV_TRUNCATED}" by blast
  then show ?thesis
  proof cases
    case 1
    then show ?thesis using running_frame_ok [OF assms(1) _ assms(2,5), of m i] assms(4) by simp
  next
    case 2
    obtain c1 where c1: "truncated_frame l2 m c = Some c1" "keeps c c1" using truncated_frame_ok [OF assms(1,3,5)] by blast
    have "casan_ok c1 \<and> view c1 = view c \<and> master c1 \<noteq> None \<and> status c1 = status c \<and> trn c1 = trn c \<and> ctime c1 = ctime c"
      using keeps_ok [OF c1(2) assms(1)] keeps_view [OF c1(2)] m c1(2) by (simp add: keeps_def)
    then show ?thesis using 2 c1(1) by simp
  next
    case 3
    then show ?thesis using assms(1) m by simp
  qed
qed

lemma running_tail:
  assumes "casan_ok c" "master c \<noteq> None"
  shows "\<exists>c'. do { c \<leftarrow> check_observed_resources l2 c; renew_timers l2 c } = Some c' \<and> casan_ok c' \<and> on_time\<^sup>*\<^sup>* (view c) (view c') \<and>
    (Trenew_expired (ctime c) (trn c) \<and> (status c = SL_RUNNING \<longrightarrow> tr_next (trn c) \<le> ctime c) \<longrightarrow> status c' \<notin> {SL_RUNNING, SL_RENEW})"
proof -
  have "list_all resource_ok (reslist c)" using assms(1) by (simp add: casan_ok_def casan_base_def)
  then obtain c1 where c1: "check_observed_resources l2 c = Some c1" "keeps c c1"
    using check_observed_ok [OF assms(2), of "[0..<length (reslist c)]" l2] by (auto simp: check_observed_resources_def list_all_iff)
  obtain c2 where "renew_timers l2 c1 = Some c2" "casan_ok c2" "on_time\<^sup>*\<^sup>* (view c1) (view c2)"
    "Trenew_expired (ctime c1) (trn c1) \<and> (status c1 = SL_RUNNING \<longrightarrow> tr_next (trn c1) \<le> ctime c1) \<longrightarrow> status c2 \<notin> {SL_RUNNING, SL_RENEW}"
    using renew_timers_ok [OF keeps_ok [OF c1(2) assms(1)], of l2] by blast
  moreover have "status c1 = status c \<and> trn c1 = trn c \<and> ctime c1 = ctime c" using c1(2) by (simp add: keeps_def)
  ultimately show ?thesis using c1(1) keeps_view [OF c1(2)] by simp
qed

lemma casan_switch_ok:
  assumes "casan_ok c" "net_ok l2" "wf_token (mtoken m)" "ret = RECV_OK \<longrightarrow> in_ok m"
  shows "\<exists>c' v. casan_switch l2 i ret m c = Some c' \<and> casan_ok c' \<and>
    (v = view c \<or> (\<exists>e. event_of ret (src i) m c = Some e \<and> on_event e (view c) v)) \<and> on_time\<^sup>*\<^sup>* v (view c')"
proof -
  consider "status c = SL_COLDSTART" | "status c = SL_WAITING_UNKNOWN" | "status c = SL_WAITING_KNOWN" | "status c \<in> {SL_RUNNING, SL_RENEW}"
    by (cases "status c") auto
  then show ?thesis
  proof cases
    case 1
    obtain c1 where c1: "send_discover l2 c = Some c1" "keeps c c1" using send_discover_ok [OF ok_base [OF assms(1)]] by blast
    have "casan_ok (wait_from SL_WAITING_UNKNOWN c1)" "on_time (view c) (view (wait_from SL_WAITING_UNKNOWN c1))"
      using keeps_ok [OF c1(2) assms(1)] 1 c1(2) by (auto simp: casan_ok_def view_def keeps_def intro: on_time.intros)
    then show ?thesis using 1 c1(1) by (auto simp: casan_switch_def)
  next
    case 2
    obtain c1 where c1: "(if ret = RECV_OK then waiting_frame l2 i m c else Some c) = Some c1" "casan_ok c1"
      "view c1 = view c \<or> (\<exists>e. event_of ret (src i) m c = Some e \<and> on_event e (view c) (view c1))"
      using waiting_stage [OF assms(1,2,4), of i] 2 by auto
    obtain c2 where "(if status c1 = SL_WAITING_UNKNOWN then wait_timer l2 c1 else Some c1) = Some c2" "casan_ok c2" "view c2 = view c1"
      using wait_timer_ok [OF c1(2), of l2] c1(2) by (cases "status c1 = SL_WAITING_UNKNOWN") auto
    then have "casan_switch l2 i ret m c = Some c2 \<and> casan_ok c2 \<and> on_time\<^sup>*\<^sup>* (view c1) (view c2)"
      using 2 c1(1) by (simp add: casan_switch_def)
    then show ?thesis using c1(3) by blast
  next
    case 3
    obtain c1 where c1: "(if ret = RECV_OK then waiting_frame l2 i m c else Some c) = Some c1" "casan_ok c1"
      "view c1 = view c \<or> (\<exists>e. event_of ret (src i) m c = Some e \<and> on_event e (view c) (view c1))"
      using waiting_stage [OF assms(1,2,4), of i] 3 by auto
    obtain c2 where "(if status c1 = SL_WAITING_KNOWN then if Twait_expired (ctime c1) (twt c1) then lose_master l2 c1 else wait_timer l2 c1
        else Some c1) = Some c2" "casan_ok c2" "on_time\<^sup>*\<^sup>* (view c1) (view c2)"
      using waiting_tail [OF c1(2), of l2] c1(2) by (cases "status c1 = SL_WAITING_KNOWN") auto
    then have "casan_switch l2 i ret m c = Some c2 \<and> casan_ok c2 \<and> on_time\<^sup>*\<^sup>* (view c1) (view c2)"
      using 3 c1(1) by (simp add: casan_switch_def)
    then show ?thesis using c1(3) by blast
  next
    case 4
    obtain c1 where c1: "(if ret = RECV_OK then running_frame l2 i m c else if ret = RECV_TRUNCATED then truncated_frame l2 m c else Some c) = Some c1"
      "casan_ok c1" "master c1 \<noteq> None" "view c1 = view c \<or> (\<exists>e. event_of ret (src i) m c = Some e \<and> on_event e (view c) (view c1))"
      using running_stage [OF assms 4, of i] by blast
    obtain c2 where "do { c \<leftarrow> check_observed_resources l2 c1; renew_timers l2 c } = Some c2" "casan_ok c2" "on_time\<^sup>*\<^sup>* (view c1) (view c2)"
      using running_tail [OF c1(2,3)] by blast
    moreover have "casan_switch l2 i ret m c = do { c \<leftarrow> Some c1; c \<leftarrow> check_observed_resources l2 c; renew_timers l2 c }"
      unfolding casan_switch_def c1(1) using 4 by auto
    ultimately have "casan_switch l2 i ret m c = Some c2 \<and> casan_ok c2 \<and> on_time\<^sup>*\<^sup>* (view c1) (view c2)" by simp
    then show ?thesis using c1(4) by blast
  qed
qed

lemma casan_loop_switch:
  assumes "casan_ok c" "msg_recv (rx i) msg_new = Some (ret, m)"
  shows "\<exists>c0. casan_loop l2 i c = casan_switch l2 i ret m c0 \<and> casan_ok c0 \<and> view c0 = view c \<and> status c0 = status c \<and> trn c0 = trn c \<and>
    ctime c0 = sync_time (in_ms i) (ctime c) \<and> event_of ret (src i) m c0 = event_of ret (src i) m c"
proof -
  define c0 where "c0 = c\<lparr>ctime := sync_time (in_ms i) (ctime c)\<rparr>"
  have base: "casan_base c" "retrans c = []" using assms(1) by (auto simp: casan_ok_def casan_base_def)
  have c0: "casan_ok c0" "view c0 = view c" "retrans c0 = []" "status c0 = status c" "trn c0 = trn c" "ctime c0 = sync_time (in_ms i) (ctime c)"
    using assms(1) base by (auto simp: c0_def casan_ok_def casan_base_def intro: view_cong)
  have r: "Retrans_loop (master c0 \<noteq> None) (msg_send (maxpayload l2 (l2mtu c0)) (l2send l2 (the (master c0)))) (re_ms i) (ctime c0) (retrans c0) = Some ([], [])"
    by (simp add: c0(3) Retrans_loop_def Retrans_reset_def)
  have c00: "c0\<lparr>retrans := [], sent := sent c0 @ map (Pair (the (master c0))) []\<rparr> = c0" by (simp flip: c0(3))
  have "event_of ret (src i) m c0 = event_of ret (src i) m c"
    by (cases "assoc_loop (optlist m) False (sttl c) None") (auto simp: event_of_def is_assoc_def c0_def split: option.splits)
  moreover have "casan_loop l2 i c = casan_switch l2 i ret m c0"
    unfolding casan_loop_def c0_def [symmetric] Let_def r bind.bind_lunit prod.case c00 assms(2) by simp
  ultimately show ?thesis using c0 by blast
qed

lemma casan_loop_ok:
  assumes "casan_ok c" "net_ok l2" "msg_recv (rx i) msg_new = Some (ret, m)" "ret = RECV_OK \<longrightarrow> in_ok m"
  shows "\<exists>c' v. casan_loop l2 i c = Some c' \<and> casan_ok c' \<and>
    (v = view c \<or> (\<exists>e. event_of ret (src i) m c = Some e \<and> on_event e (view c) v)) \<and> on_time\<^sup>*\<^sup>* v (view c')"
proof -
  obtain c0 where c0: "casan_loop l2 i c = casan_switch l2 i ret m c0" "casan_ok c0" "view c0 = view c"
    "event_of ret (src i) m c0 = event_of ret (src i) m c"
    using casan_loop_switch [OF assms(1,3)] by blast
  have "wf_token (mtoken m)" using msg_recv_wf [OF assms(3)] by simp
  then show ?thesis using casan_switch_ok [OF c0(2) assms(2) _ assms(4), of i] c0 by simp
qed

section \<open>Properties\<close>

text \<open>An input the engine can take: the decoder stays inside its buffers and the message is well-formed.\<close>

definition good_input :: "loop_in \<Rightarrow> bool" where
  "good_input i \<longleftrightarrow> (\<exists>ret m. msg_recv (rx i) msg_new = Some (ret, m) \<and> (ret = RECV_OK \<longrightarrow> in_ok m))"

fun casan_run :: "l2net \<Rightarrow> loop_in list \<Rightarrow> 'w casan \<Rightarrow> 'w casan option" where
  "casan_run l2 [] c = Some c"
| "casan_run l2 (i # is) c = do { c \<leftarrow> casan_loop l2 i c; casan_run l2 is c }"

lemma casan_run_ok: "casan_ok c \<Longrightarrow> net_ok l2 \<Longrightarrow> list_all good_input is \<Longrightarrow> \<exists>c'. casan_run l2 is c = Some c' \<and> casan_ok c'"
proof (induction "is" arbitrary: c)
  case (Cons i "is")
  obtain ret m where "msg_recv (rx i) msg_new = Some (ret, m)" "ret = RECV_OK \<longrightarrow> in_ok m"
    using Cons.prems(3) by (auto simp: good_input_def)
  then obtain c1 where "casan_loop l2 i c = Some c1" "casan_ok c1" using casan_loop_ok [OF Cons.prems(1,2)] by blast
  then show ?case using Cons.IH [of c1] Cons.prems by simp
qed simp

lemma register_all: "foldl (\<lambda>c r. register_resource r c) c rs = c\<lparr>reslist := reslist c @ rs\<rparr>"
  by (induction rs arbitrary: c) (auto simp: register_resource_def)

lemma casan_new_ok:
  assumes "0 < netmtu" "netmtu < 32768" "- (2 ^ 31) \<le> sid" "sid < 2 ^ 31" "list_all resource_ok rs"
  shows "casan_ok (foldl (\<lambda>c r. register_resource r c) (Casan_new netmtu mtu sid ms w) rs)"
  unfolding register_all using assms
  by (auto simp: Casan_new_def casan_ok_def casan_base_def reset_master_def reset_mtu_def negociate_mtu_def Let_def)


definition small_net :: l2net where
  "small_net = \<lparr>bcastaddr = [0xff, 0xff], maxpayload = (\<lambda>mtu. 100), l2send = (\<lambda>a f. True)\<rparr>"

definition quiet_input :: "u32 \<Rightarrow> loop_in" where
  "quiet_input ms = \<lparr>in_ms = ms, re_ms = ms, rx = (RECV_EMPTY, [], 0), src = []\<rparr>"

lemma quiet_input_good: "good_input (quiet_input ms)"
  by (simp add: good_input_def quiet_input_def msg_recv_def)


lemma resource_new_ok: "resource_ok (Resource_new n t r)"
  by (auto simp: resource_ok_def Resource_new_def wf_token_def Token_new_def COAP_MAX_TOKLEN_def)

lemma small_net_ok: "net_ok small_net"
  by (simp add: net_ok_def small_net_def)


text \<open>
  C2. One call of \<open>loop\<close> refines the abstract state machine: at most one transition that a Hello or
  Assoc message in the received frame allows, with the sender of the frame as the new master, then
  transitions of the clock. In particular the slave associates with the sender of an Assoc message
  only, and while it is associated only an Assoc message of its own master renews the association.
\<close>
theorem engine_refines:
  assumes "casan_ok c" "net_ok l2" "msg_recv (rx i) msg_new = Some (ret, m)" "ret = RECV_OK \<longrightarrow> in_ok m"
  shows "\<exists>c' v. casan_loop l2 i c = Some c' \<and>
    (v = view c \<or> (\<exists>e. event_of ret (src i) m c = Some e \<and> on_event e (view c) v)) \<and> on_time\<^sup>*\<^sup>* v (view c')"
  using casan_loop_ok [OF assms] by blast

text \<open>Frames for the witnesses: a hello with the id 5 and an association for 60 seconds with MTU 100.\<close>

definition sample_hello :: "u8 list" where
  "sample_hello = [0x50, 2, 0, 1, 0xbb] @ bytes ''.well-known'' @ [0x05] @ bytes ''casan'' @ [0x47] @ bytes ''hello=5''"

definition sample_assoc :: "u8 list" where
  "sample_assoc = [0x40, 2, 0, 2, 0xbb] @ bytes ''.well-known'' @ [0x05] @ bytes ''casan'' @ [0x46] @ bytes ''ttl=60'' @ [0x07] @ bytes ''mtu=100''"

definition frame_input :: "u32 \<Rightarrow> u8 list \<Rightarrow> l2addr \<Rightarrow> loop_in" where
  "frame_input ms f a = \<lparr>in_ms = ms, re_ms = ms, rx = (RECV_OK, f, length f), src = a\<rparr>"

text \<open>The message in a frame the decoder takes.\<close>

definition frame_msg :: "u8 list \<Rightarrow> slave_msg" where
  "frame_msg f = (case msg_recv (RECV_OK, f, length f) msg_new of Some (ret, m) \<Rightarrow> m | None \<Rightarrow> msg_new)"

lemma sample_frames:
  "msg_recv (RECV_OK, sample_hello, length sample_hello) msg_new = Some (RECV_OK, frame_msg sample_hello)"
  "msg_recv (RECV_OK, sample_assoc, length sample_assoc) msg_new = Some (RECV_OK, frame_msg sample_assoc)"
  "longs_fit (frame_msg sample_hello)" "longs_fit (frame_msg sample_assoc)"
  "mcode (frame_msg sample_hello) = 2" "mcode (frame_msg sample_assoc) = 2"
  "is_ctl_msg (frame_msg sample_hello) = Some True" "is_hello (frame_msg sample_hello) = Some (Some 5)"
  "is_ctl_msg (frame_msg sample_assoc) = Some True" "is_hello (frame_msg sample_assoc) = Some None"
  "assoc_loop (optlist (frame_msg sample_assoc)) False 0 None = Some (True, 60000, Some 100)"
  by code_simp+

lemma sample_frames_ok: "in_ok (frame_msg sample_hello)" "in_ok (frame_msg sample_assoc)"
  using msg_recv_wf [OF sample_frames(1)] msg_recv_wf [OF sample_frames(2)] sample_frames(3-6) by (simp_all add: in_ok_def)

definition sample_engine :: "slave_status \<Rightarrow> l2addr option \<Rightarrow> unit casan" where
  "sample_engine s a = (Casan_new 127 0 169 0 ())\<lparr>status := s, master := a\<rparr>"

theorem engine_refines_witness:
  "\<exists>c' v. casan_loop small_net (frame_input 10 sample_hello [7]) (sample_engine SL_WAITING_UNKNOWN None) = Some c' \<and>
    (v = Unknown \<or> (\<exists>e. event_of RECV_OK [7] (frame_msg sample_hello) (sample_engine SL_WAITING_UNKNOWN None) = Some e \<and> on_event e Unknown v)) \<and>
    on_time\<^sup>*\<^sup>* v (view c')"
proof -
  have "casan_ok (sample_engine SL_WAITING_UNKNOWN None)"
    using casan_new_ok [of 127 169 "[]" 0 0 "()"] by (auto simp: sample_engine_def casan_ok_def casan_base_def)
  moreover have "view (sample_engine SL_WAITING_UNKNOWN None) = Unknown" by (simp add: view_def sample_engine_def)
  ultimately show ?thesis
    using engine_refines [of "sample_engine SL_WAITING_UNKNOWN None" small_net "frame_input 10 sample_hello [7]" RECV_OK "frame_msg sample_hello"]
      sample_frames(1) sample_frames_ok(1) by (simp add: frame_input_def small_net_def net_ok_def)
qed



end
