(* ===== verification/Slave_Announce.thy ===== *)
theory Slave_Announce
  imports Slave_Machine
begin

text \<open>
  What the engine of the slave sends about itself: the Discover message and the list of its resources.
  The last section shows where a received code leads out of the handler table of a resource.
\<close>

section \<open>What the slave announces\<close>

lemma push_opaque_last:
  assumes "list_all (\<lambda>o2. optcode o2 \<le> c) (optlist m)"
  shows "\<exists>o1. push_opaque c v m = Some (m\<lparr>optlist := optlist m @ [o1]\<rparr>) \<and> wf_option o1 \<and> opt_pair o1 = (c, v)"
proof -
  obtain e o1 where o1: "option_opaque 0 c v (int (length v)) = Some (e, o1)" "wf_option o1" "optcode o1 = c" "opt_value o1 = v"
    using option_opaque_val [of "int (length v)" v 0 c] by auto
  then show ?thesis
    using push_option_last [OF o1(2), of m] assms by (auto simp: push_opaque_def opt_pair_def)
qed

definition discover_options :: "int \<Rightarrow> int \<Rightarrow> (int \<times> u8 list) list" where
  "discover_options sid mtu = [(MO_Uri_Path, bytes ''.well-known''), (MO_Uri_Path, bytes ''casan''),
     (MO_Uri_Query, bytes ''slave='' @ show_ld sid), (MO_Uri_Query, bytes ''mtu='' @ show_ld mtu)]"

lemma opt_pair_code: "opt_pair o1 = (c, v) \<Longrightarrow> optcode o1 = c"
  by (simp add: opt_pair_def)

lemma discover_msg_val:
  "\<exists>os. discover_msg c = Some (msg_new\<lparr>mid := word_of_int (curid c), mtype := COAP_TYPE_NON, mcode := COAP_CODE_POST, optlist := os\<rparr>) \<and>
    map opt_pair os = discover_options (slaveid c) (defmtu c)"
proof -
  define m0 where "m0 = msg_new\<lparr>mid := word_of_int (curid c), mtype := COAP_TYPE_NON, mcode := COAP_CODE_POST\<rparr>"
  have 0: "optlist m0 = []" by (simp add: m0_def msg_new_def)
  obtain o1 where 1: "push_opaque MO_Uri_Path (bytes ''.well-known'') m0 = Some (m0\<lparr>optlist := [o1]\<rparr>)" "opt_pair o1 = (MO_Uri_Path, bytes ''.well-known'')"
    using push_opaque_last [of MO_Uri_Path m0 "bytes ''.well-known''"] 0 by auto
  obtain o2 where 2: "push_opaque MO_Uri_Path (bytes ''casan'') (m0\<lparr>optlist := [o1]\<rparr>) = Some (m0\<lparr>optlist := [o1, o2]\<rparr>)"
    "opt_pair o2 = (MO_Uri_Path, bytes ''casan'')"
    using push_opaque_last [of MO_Uri_Path "m0\<lparr>optlist := [o1]\<rparr>" "bytes ''casan''"] opt_pair_code [OF 1(2)] by auto
  obtain o3 where 3: "push_opaque MO_Uri_Query (bytes ''slave='' @ show_ld (slaveid c)) (m0\<lparr>optlist := [o1, o2]\<rparr>) = Some (m0\<lparr>optlist := [o1, o2, o3]\<rparr>)"
    "opt_pair o3 = (MO_Uri_Query, bytes ''slave='' @ show_ld (slaveid c))"
    using push_opaque_last [of MO_Uri_Query "m0\<lparr>optlist := [o1, o2]\<rparr>" "bytes ''slave='' @ show_ld (slaveid c)"] opt_pair_code [OF 1(2)] opt_pair_code [OF 2(2)]
    by auto
  obtain o4 where 4: "push_opaque MO_Uri_Query (bytes ''mtu='' @ show_ld (defmtu c)) (m0\<lparr>optlist := [o1, o2, o3]\<rparr>) = Some (m0\<lparr>optlist := [o1, o2, o3, o4]\<rparr>)"
    "opt_pair o4 = (MO_Uri_Query, bytes ''mtu='' @ show_ld (defmtu c))"
    using push_opaque_last [of MO_Uri_Query "m0\<lparr>optlist := [o1, o2, o3]\<rparr>" "bytes ''mtu='' @ show_ld (defmtu c)"]
      opt_pair_code [OF 1(2)] opt_pair_code [OF 2(2)] opt_pair_code [OF 3(2)] by auto
  show ?thesis
    using 1 2 3 4 by (intro exI [of _ "[o1, o2, o3, o4]"]) (simp add: discover_msg_def mk_ctl_msg_def casan_namespace_def m0_def [symmetric] discover_options_def)
qed

lemma len_bytes_rfc: "n < 256 \<Longrightarrow> len_bytes (int n) = ext_bytes (int n) \<longleftrightarrow> n < 13"
proof (cases "n < 13")
  case False
  assume n: "n < 256"
  have "uint (word_of_int (int n) :: u8) = int n" "uint (word_of_int (int n - 13) :: u8) = int n - 13"
    using n False by (simp_all add: uint_byte del: of_int_of_nat_eq of_int_diff)
  then have "(word_of_int (int n) :: u8) \<noteq> word_of_int (int n - 13)" by (metis diff_eq_eq add_cancel_left_right numeral_eq_iff zero_neq_numeral)
  then show ?thesis using n False by (simp add: len_bytes_def ext_bytes_def)
qed (simp add: len_bytes_def ext_bytes_def)

lemma length_show_ld_pos: "0 < length (show_ld n)"
  using dec_nat_digits by (auto simp: show_ld_def)

lemma discover_rfc:
  assumes "length (show_ld sid) \<le> 11" "length (show_ld mtu) \<le> 6"
  shows "opts_frame 0 (discover_options sid mtu) = rfc_opts_frame 0 (discover_options sid mtu) \<longleftrightarrow> length (show_ld sid) < 7"
proof -
  define a where "a = length (show_ld sid)"
  define b where "b = length (show_ld mtu)"
  have f: "opts_frame_with lb 0 (discover_options sid mtu) =
      [0xbb] @ lb 11 @ bytes ''.well-known'' @ [5] @ lb 5 @ bytes ''casan'' @
      (word_of_int (16 * ext_nibble 4 + ext_nibble (6 + int a)) # lb (6 + int a)) @ bytes ''slave='' @ show_ld sid @
      (word_of_int (16 * ext_nibble 0 + ext_nibble (4 + int b)) # lb (4 + int b)) @ bytes ''mtu='' @ show_ld mtu" for lb
    by (simp add: discover_options_def opt_frame_with_def a_def b_def ext_bytes_def ext_nibble_def)
  have l: "len_bytes 11 = []" "ext_bytes 11 = []" "len_bytes 5 = []" "ext_bytes 5 = []" by (simp_all add: len_bytes_def ext_bytes_def)
  have b: "len_bytes (4 + int b) = []" "ext_bytes (4 + int b) = []" using assms by (simp_all add: b_def len_bytes_def ext_bytes_def)
  have "len_bytes (6 + int a) = ext_bytes (6 + int a) \<longleftrightarrow> a < 7"
    using len_bytes_rfc [of "6 + a"] assms by (simp add: a_def)
  then show ?thesis unfolding f l b a_def [symmetric] by simp
qed

text \<open>
  A Discover message is sent to the master, or to everybody when there is none. Its bytes are a
  non-confirmable POST to \<open>/.well-known/casan\<close> with the queries \<open>slave=\<close> and \<open>mtu=\<close>, whose numbers
  \<open>sscanf\<close> reads back as the slave id and the default MTU. They are what RFC 7252 prescribes exactly
  when the slave id has at most six characters.
\<close>
lemma discover_announces:
  assumes "casan_base c" "length f \<le> maxpayload l2 (l2mtu c)"
    "f = header_frame COAP_TYPE_NON COAP_CODE_POST (word_of_int (curid c)) [] @ opts_frame 0 (discover_options (slaveid c) (defmtu c))"
  shows "(\<exists>c'. send_discover l2 c = Some c' \<and> sent c' = sent c @ [(case master c of Some a \<Rightarrow> a | None \<Rightarrow> bcastaddr l2, f)]) \<and>
    sscanf_ld 32 (bytes ''slave='') (snd (discover_options (slaveid c) (defmtu c) ! 2)) = Some (Some (slaveid c)) \<and>
    sscanf_ld 32 (bytes ''mtu='') (snd (discover_options (slaveid c) (defmtu c) ! 3)) = Some (Some (defmtu c)) \<and>
    (opts_frame 0 (discover_options (slaveid c) (defmtu c)) = rfc_opts_frame 0 (discover_options (slaveid c) (defmtu c)) \<longleftrightarrow>
      length (show_ld (slaveid c)) < 7)"
proof (intro conjI)
  obtain m where m: "discover_msg c = Some m" "ok_msg m" "size_bound m < 200" using discover_msg_ok [OF assms(1)] by blast
  have frame: "msg_frame m = f"
    using discover_msg_val [of c] m(1) assms(3)
    by (auto simp: msg_frame_def msg_new_def Token_new_def token_bytes_def msg_payload_def payload_frame_def)
  define dest where "dest = (case master c of Some a \<Rightarrow> a | None \<Rightarrow> bcastaddr l2)"
  obtain m' where "msg_send (maxpayload l2 (l2mtu c)) (l2send l2 dest) m = Some (l2send l2 dest f, Some f, m')"
    using msg_send_val [OF m(2), of "maxpayload l2 (l2mtu c)"] m(3) assms(2) frame by auto
  then have "send_discover l2 c = Some (c\<lparr>curid := int16 (curid c + 1), sent := sent c @ [(dest, f)]\<rparr>)"
    unfolding send_discover_def dest_def [symmetric] by (simp add: m(1) Let_def send_to_def)
  then show "\<exists>c'. send_discover l2 c = Some c' \<and> sent c' = sent c @ [(case master c of Some a \<Rightarrow> a | None \<Rightarrow> bcastaddr l2, f)]"
    by (simp add: dest_def)
  show "sscanf_ld 32 (bytes ''slave='') (snd (discover_options (slaveid c) (defmtu c) ! 2)) = Some (Some (slaveid c))"
    using sscanf_show [of 32 "slaveid c" "[]" "bytes ''slave=''"] assms(1) by (simp add: discover_options_def casan_base_def)
  show "sscanf_ld 32 (bytes ''mtu='') (snd (discover_options (slaveid c) (defmtu c) ! 3)) = Some (Some (defmtu c))"
    using sscanf_show [of 32 "defmtu c" "[]" "bytes ''mtu=''"] assms(1) by (simp add: discover_options_def casan_base_def)
  show "opts_frame 0 (discover_options (slaveid c) (defmtu c)) = rfc_opts_frame 0 (discover_options (slaveid c) (defmtu c)) \<longleftrightarrow> length (show_ld (slaveid c)) < 7"
    using assms(1) by (intro discover_rfc length_show_ld [of _ 10, simplified] length_show_ld [of _ 5, simplified]) (auto simp: casan_base_def)
qed

section \<open>The list of resources\<close>

text \<open>
  The payload that describes the resources is the texts of the first resources of the list, in
  order and separated by commas, as many as fit into the message with the terminating zero of the last
  one; the call says if these are all. A comma may be left at the end when a resource does not fit.
  Nothing is written outside the buffer.
\<close>
theorem resource_list_text:
  assumes "ok_msg out" "size_bound out \<le> 60" "net_ok l2"
  shows "\<exists>all out' k tr. get_well_known l2 out c = Some (all, out') \<and> k \<le> length (reslist c) \<and> (all \<longleftrightarrow> k = length (reslist c)) \<and>
    msg_payload out' = foldl add_text [] (map well_known_text (take k (reslist c))) @ (if tr then [44] else []) \<and> (tr \<longrightarrow> \<not> all) \<and>
    (tr \<longrightarrow> foldl add_text [] (map well_known_text (take k (reslist c))) \<noteq> [])"
proof -
  obtain e os where m1: "set_content_format 0 False 0 out = Some (e, out\<lparr>optlist := os\<rparr>)" "ok_msg (out\<lparr>optlist := os\<rparr>)"
    using content_format_ok [OF assms(1)] by blast
  define avail where "avail = avail_space (maxpayload l2 (l2mtu c)) (out\<lparr>optlist := os\<rparr>)"
  have a: "avail \<le> 60000" using assms(3) by (auto simp: avail_def avail_space_def Let_def net_ok_def intro: diff_le_self le_trans)
  obtain sz buf k tr where w: "well_known_loop (reslist c) avail 0 (replicate avail 0) = Some (sz, buf, k = length (reslist c))" "sz \<le> avail" "length buf = avail"
    "k \<le> length (reslist c)" "take sz buf = foldl add_text [] (map well_known_text (take k (reslist c))) @ (if tr then [44] else [])" "tr \<longrightarrow> k < length (reslist c)"
    "tr \<longrightarrow> foldl add_text [] (map well_known_text (take k (reslist c))) \<noteq> []"
    using well_known_loop_ok [of "replicate avail 0" avail 0 "[]" "reslist c"] by auto
  obtain m2 where m2: "set_payload (out\<lparr>optlist := os\<rparr>) buf (of_nat sz) = Some m2" "msg_payload m2 = take sz buf"
    using set_payload_ok [OF m1(2), of sz buf] w a by auto
  have "get_well_known l2 out c = Some (k = length (reslist c), m2)"
    using m1 w(1) m2(1) by (simp add: get_well_known_def avail_def [symmetric])
  then show ?thesis using w(4-7) m2(2) by (intro exI [of _ "k = length (reslist c)"] exI [of _ m2] exI [of _ k] exI [of _ tr]) auto
qed

definition sample_resources :: "unit resource list" where
  "sample_resources = [Resource_new (bytes ''a'') (bytes ''A'') (bytes ''x''), Resource_new (bytes ''b'') (bytes ''B'') (bytes ''y'')]"

theorem resource_list_text_witness:
  "\<exists>all out' k tr. get_well_known (small_net\<lparr>maxpayload := \<lambda>mtu. 40\<rparr>) msg_new ((sample_engine SL_RUNNING None)\<lparr>reslist := sample_resources\<rparr>) = Some (all, out') \<and>
    msg_payload out' = foldl add_text [] (map well_known_text (take k sample_resources)) @ (if tr then [44] else [])"
proof -
  have n: "net_ok (small_net\<lparr>maxpayload := \<lambda>mtu. 40\<rparr>)" by (simp add: net_ok_def)
  have b: "size_bound msg_new \<le> 60" by simp
  define c where "c = (sample_engine SL_RUNNING None)\<lparr>reslist := sample_resources\<rparr>"
  have r: "reslist c = sample_resources" by (simp add: c_def)
  show ?thesis
    using resource_list_text [OF ok_msg_new(3) b n, of c] unfolding c_def [symmetric] r by blast
qed

text \<open>The comma that is left behind.\<close>

lemma trailing_comma:
  "map_option (msg_payload \<circ> snd) (get_well_known (small_net\<lparr>maxpayload := \<lambda>mtu. 40\<rparr>) msg_new ((sample_engine SL_RUNNING None)\<lparr>reslist := sample_resources\<rparr>)) =
   Some (well_known_text (hd sample_resources) @ [44])"
  by code_simp

section \<open>Requests with other codes\<close>

lemma observed_handlers: "observed reg r w = Some (r', w') \<Longrightarrow> handlers r' = handlers r"
  by (cases reg) (auto simp: observed_def bind_eq_Some_conv Let_def split: if_splits)

text \<open>
  A received message for a resource whose code is not one of the five codes of the handler table
  (a response, FETCH, PATCH) makes the engine read past the table.
\<close>
theorem handler_table_overrun:
  assumes "search_option m MO_Uri_Path = Some o1" "cstr (OPTVAL o1) = Some name" "opt_value o1 \<noteq> bytes ''resources''" "wf_option o1"
    "get_resource name c = Some k" "length (handlers (reslist c ! k)) = 5" "5 \<le> unat (mcode m)"
  shows "process_request l2 m out c = None"
proof -
  have k: "k < length (reslist c)" using assms(5) find_resource_less by (auto simp: get_resource_def)
  have all: "(if optlen o1 = 9 then memeq (OPTVAL o1) (bytes ''resources'') 9 else Some False) = Some False"
    using assms(3) OPTVAL_zero [OF assms(4)] by (auto simp: memeq_def opt_value_def)
  have none: "request_resource (Some m) out' k (c\<lparr>reslist := (reslist c)[k := r2], world := w\<rparr>) = None" if "handlers r2 = handlers (reslist c ! k)" for out' r2 w
    using k assms(6,7) that by (simp add: request_resource_def get_handler_def rd_def)
  define on where "on = (case search_option m MO_Observe of None \<Rightarrow> Some False | Some ob \<Rightarrow> do { v \<leftarrow> optval_uint ob; Some (v = 0) })"
  have q: "process_request l2 m out c = do {
       on \<leftarrow> on;
       (r, w) \<leftarrow> observed (if on then Some m else None) (reslist c ! k) (world c);
       (r, out) \<leftarrow> (if on then do {
              let (s, r) = next_serial r;
              out \<leftarrow> push_uint MO_Observe s (answer_to m out);
              Some (r, out)
            } else Some (r, answer_to m out));
       request_resource (Some m) out k (c\<lparr>reslist := (reslist c)[k := r], world := w\<rparr>)
     }"
    unfolding process_request_def assms(1) option.case on_def [symmetric] all assms(2) bind.bind_lunit if_False Let_def assms(5)
    using k by simp
  show ?thesis
  proof (rule ccontr)
    assume "process_request l2 m out c \<noteq> None"
    then obtain x on' r w r2 out2 where x: "observed (if on' then Some m else None) (reslist c ! k) (world c) = Some (r, w)"
      "(if on' then do {
              let (s, r) = next_serial r;
              out \<leftarrow> push_uint MO_Observe s (answer_to m out);
              Some (r, out)
            } else Some (r, answer_to m out)) = Some (r2, out2)"
      "request_resource (Some m) out2 k (c\<lparr>reslist := (reslist c)[k := r2], world := w\<rparr>) = Some x"
      unfolding q by (auto simp: bind_eq_Some_conv)
    have "handlers r2 = handlers r" using x(2) by (auto simp: next_serial_def bind_eq_Some_conv split: if_splits)
    then show False using none [of r2 out2 w] observed_handlers [OF x(1)] x(3) by simp
  qed
qed

theorem handler_table_overrun_witness:
  "process_request small_net (msg_new\<lparr>mcode := 0x45, optlist := [option_new\<lparr>optcode := MO_Uri_Path, optlen := 1, staticval := [0x61, 0, 0, 0, 0, 0, 0, 0, 0]\<rparr>]\<rparr>)
     msg_new ((sample_engine SL_RUNNING (Some [7]))\<lparr>reslist := sample_resources\<rparr>) = None"
proof -
  define o1 where "o1 = option_new\<lparr>optcode := MO_Uri_Path, optlen := 1, staticval := [0x61, 0, 0, 0, 0, 0, 0, 0, 0]\<rparr>"
  define m where "m = msg_new\<lparr>mcode := 0x45, optlist := [o1]\<rparr>"
  define c where "c = (sample_engine SL_RUNNING (Some [7]))\<lparr>reslist := sample_resources\<rparr>"
  have o: "search_option m MO_Uri_Path = Some o1" "cstr (OPTVAL o1) = Some (bytes ''a'')" "opt_value o1 \<noteq> bytes ''resources''" "wf_option o1"
    unfolding m_def o1_def by code_simp+
  have r: "get_resource (bytes ''a'') c = Some 0" "length (handlers (reslist c ! 0)) = 5"
    unfolding c_def by code_simp+
  have "5 \<le> unat (mcode m)" by (simp add: m_def)
  from handler_table_overrun [OF o r this] show ?thesis unfolding m_def c_def o1_def .
qed

end
