(* ===== verification/Master_Option.thy ===== *)
theory Master_Option
  imports Slave_Msg_Laws
begin

text \<open>
  The CoAP options of the C++ master: class \<open>option\<close> of \<open>c-master/casan/option.cc\<close>. An object has the
  members of the class of the slave, and \<open>COPY_VAL\<close> is the same macro, so the record and \<open>COPY_VAL\<close> of
  \<open>Coap_Option\<close> are used. The table, the checks, which throw here, and the 64-bit integers are its own.
  \<open>None\<close> is an access outside an array or an exception; nothing catches the exceptions, which end the
  process.
\<close>

section \<open>Table and errors\<close>

definition MAXOPT :: int where "MAXOPT = 256"

definition master_optdesc :: "(int \<times> optfmt \<times> int \<times> int) list" where
  "master_optdesc = [
     (MO_Content_Format, OF_OPAQUE, 0, 8),
     (MO_Etag, OF_OPAQUE, 1, 8),
     (MO_Location_Path, OF_STRING, 0, 255),
     (MO_Location_Query, OF_STRING, 0, 255),
     (MO_Max_Age, OF_UINT, 0, 4),
     (MO_Proxy_Uri, OF_STRING, 1, 1034),
     (MO_Proxy_Scheme, OF_STRING, 1, 255),
     (MO_Uri_Host, OF_STRING, 1, 255),
     (MO_Uri_Path, OF_STRING, 0, 255),
     (MO_Uri_Port, OF_UINT, 0, 2),
     (MO_Uri_Query, OF_STRING, 0, 255),
     (MO_Accept, OF_UINT, 0, 2),
     (MO_If_None_Match, OF_EMPTY, 0, 0),
     (MO_If_Match, OF_OPAQUE, 0, 8)]"

text \<open>\<open>Some False\<close> when the macro throws; the lengths of an entry that \<open>static_init\<close> does not set are not defined.\<close>

definition code_known :: "int \<Rightarrow> bool" where
  "code_known c \<longleftrightarrow> 0 \<le> c \<and> c < MAXOPT \<and> (\<exists>(code, _) \<in> set master_optdesc. code = c)"

definition len_allowed :: "int \<Rightarrow> int \<Rightarrow> bool" where
  "len_allowed c l \<longleftrightarrow> (\<exists>(code, _, lo, hi) \<in> set master_optdesc. code = c \<and> lo \<le> l \<and> l \<le> hi)"

section \<open>Objects\<close>

definition master_uint_to_byte :: "u64 \<Rightarrow> u8 list" where
  "master_uint_to_byte val = uint_to_byte_loop 8 val []"

definition master_option_code :: "int \<Rightarrow> coap_option option" where
  "master_option_code c = (if code_known c then Some (option_new\<lparr>optcode := c\<rparr>) else None)"

definition master_option_opaque :: "int \<Rightarrow> u8 list \<Rightarrow> int \<Rightarrow> coap_option option" where
  "master_option_opaque c v len =
     (if code_known c \<and> len_allowed c len then COPY_VAL (option_new\<lparr>optcode := c, optlen := len\<rparr>) v else None)"

definition master_option_uint :: "int \<Rightarrow> u64 \<Rightarrow> coap_option option" where
  "master_option_uint c v =
     (let stbin = master_uint_to_byte v; len = int (length stbin) in
      if code_known c \<and> len_allowed c len then COPY_VAL (option_new\<lparr>optcode := c, optlen := len\<rparr>) stbin else None)"

definition master_option_copy :: "coap_option \<Rightarrow> coap_option option" where
  "master_option_copy o1 = (case optval o1 of None \<Rightarrow> Some o1 | Some b \<Rightarrow> COPY_VAL o1 b)"

definition master_option_reset :: "coap_option \<Rightarrow> coap_option" where
  "master_option_reset o1 = o1\<lparr>optcode := MO_None, optlen := 0, optval := None\<rparr>"

definition master_option_less :: "coap_option \<Rightarrow> coap_option \<Rightarrow> bool" where
  "master_option_less a b \<longleftrightarrow> optcode a < optcode b"

definition master_option_eq :: "coap_option \<Rightarrow> coap_option \<Rightarrow> bool option" where
  "master_option_eq a b =
     (if optcode a = optcode b \<and> optlen a = optlen b then
        (case (optval a, optval b) of
           (Some x, Some y) \<Rightarrow> memeq x y (nat (optlen a))
         | _ \<Rightarrow> memeq (staticval a) (staticval b) (nat (optlen a)))
      else Some False)"

section \<open>Accessors and mutators\<close>

fun master_optval_loop :: "nat \<Rightarrow> nat \<Rightarrow> u8 list \<Rightarrow> u64 \<Rightarrow> u64 option" where
  "master_optval_loop 0 i b v = Some v"
| "master_optval_loop (Suc n) i b v = do {
     x \<leftarrow> rd b i;
     master_optval_loop n (Suc i) b (push_bit 8 v OR ucast x)
   }"

definition master_optval_uint :: "coap_option \<Rightarrow> u64 option" where
  "master_optval_uint o1 = master_optval_loop (nat (optlen o1)) 0 (OPTVAL o1) 0"

definition critical :: "coap_option \<Rightarrow> bool" where "critical o1 \<longleftrightarrow> optcode o1 AND 1 \<noteq> 0"
definition unsafe :: "coap_option \<Rightarrow> bool" where "unsafe o1 \<longleftrightarrow> optcode o1 AND 2 \<noteq> 0"
definition nocachekey :: "coap_option \<Rightarrow> bool" where "nocachekey o1 \<longleftrightarrow> optcode o1 AND 0x1e = 0x1c"

definition master_set_optcode :: "coap_option \<Rightarrow> int \<Rightarrow> coap_option" where
  "master_set_optcode o1 c = o1\<lparr>optcode := c\<rparr>"

definition master_set_optval :: "coap_option \<Rightarrow> u8 list \<Rightarrow> int \<Rightarrow> coap_option option" where
  "master_set_optval o1 val len = COPY_VAL (o1\<lparr>optlen := len\<rparr>) val"

definition master_set_optval_uint :: "coap_option \<Rightarrow> u64 \<Rightarrow> coap_option option" where
  "master_set_optval_uint o1 val =
     (let stbin = master_uint_to_byte val; len = int (length stbin) in
      if len_allowed (optcode o1) len then COPY_VAL (o1\<lparr>optval := None, optlen := len\<rparr>) stbin else None)"

section \<open>Laws\<close>

lemma master_option_opaque_val:
  assumes "code_known c" "len_allowed c len" "nat len \<le> length v" "0 \<le> len"
  shows "\<exists>o1. master_option_opaque c v len = Some o1 \<and> wf_option o1 \<and> optcode o1 = c \<and> opt_value o1 = take (nat len) v"
  using COPY_VAL_val [of "option_new\<lparr>optcode := c, optlen := len\<rparr>" v] assms by (auto simp: master_option_opaque_def)

lemma master_option_copy_eq: "master_option_copy = option_copy"
  by (rule ext) (simp add: master_option_copy_def option_copy_def)

lemma master_set_optval_eq: "master_set_optval = set_optval"
  by (intro ext) (simp add: master_set_optval_def set_optval_def)

text \<open>Two well-formed objects are equal exactly when their code and their value are.\<close>

lemma master_option_eq_val:
  assumes "wf_option a" "wf_option b"
  shows "master_option_eq a b = Some (opt_pair a = opt_pair b)"
proof (cases "optcode a = optcode b \<and> optlen a = optlen b")
  case True
  define n where "n = nat (optlen a)"
  have n: "optlen a = int n" "optlen b = int n" using assms True by (simp_all add: n_def wf_option_def)
  show ?thesis
    using assms True n
    by (auto simp: master_option_eq_def memeq_in wf_option_def opt_pair_def opt_value_def OPTVAL_def split: option.splits)
next
  case False
  then show ?thesis
    using length_opt_value [OF assms(1)] length_opt_value [OF assms(2)]
    by (auto simp: master_option_eq_def opt_pair_def)
qed

end
