(* ===== verification/Master_Msg.thy ===== *)
theory Master_Msg
  imports Master_Option C_Text
begin

text \<open>
  Messages of the C++ master: class \<open>msg\<close> of \<open>c-master/casan/msg.cc\<close>. The members \<open>msg_\<close>, \<open>msglen_\<close>,
  \<open>pktype_\<close>, \<open>payload_\<close>, \<open>paylen_\<close>, \<open>token_\<close>, \<open>toklen_\<close>, \<open>type_\<close>, \<open>code_\<close>, \<open>id_\<close>, \<open>optlist_\<close>,
  \<open>casantype_\<close>, \<open>timeout_\<close> and \<open>next_timeout_\<close> are the fields \<open>bin\<close>, \<open>binlen\<close>, \<open>pkt\<close>, \<open>pload\<close>,
  \<open>plen\<close>, \<open>tok\<close>, \<open>tlen\<close>, \<open>mty\<close>, \<open>mcd\<close>, \<open>ident\<close>, \<open>opts\<close>, \<open>ctype\<close>, \<open>rto\<close> and \<open>next_rto\<close>. Pointers to
  messages are addresses of a heap. A position of the option iterator is the list that starts there.
  An \<open>int\<close> has 32 bits, which no value here exceeds; a \<open>long\<close> has 64. Printing and the copy of whole
  messages, whose assignment operator calls itself without end, are left out.
\<close>

section \<open>State\<close>

datatype msgtype = MT_CON | MT_NON | MT_ACK | MT_RST
datatype pktype = PK_ME | PK_BCAST | PK_NONE
datatype casantype = CASAN_NONE | CASAN_DISCOVER | CASAN_ASSOC_REQUEST | CASAN_ASSOC_ANSWER | CASAN_HELLO | CASAN_UNKNOWN

abbreviation (input) MC_EMPTY :: int where "MC_EMPTY \<equiv> 0"
abbreviation (input) MC_GET :: int where "MC_GET \<equiv> 1"
abbreviation (input) MC_POST :: int where "MC_POST \<equiv> 2"

abbreviation (input) MAX_RETRANSMIT :: int where "MAX_RETRANSMIT \<equiv> 4"
abbreviation (input) ACK_TIMEOUT :: int where "ACK_TIMEOUT \<equiv> 1000"

text \<open>Milliseconds; the largest \<open>time_point\<close> of the 64-bit nanosecond clock.\<close>

type_synonym time = int

definition time_max :: time where "time_max = 9223372036854"

record master_msg =
  bin :: "u8 list option"
  binlen :: int
  pkt :: pktype
  peer :: "nat option"
  pload :: "u8 list option"
  plen :: int
  tok :: "u8 list"
  tlen :: int
  mty :: msgtype
  mcd :: int
  ident :: int
  opts :: "coap_option list"
  optiter :: "coap_option list"
  reqrep :: "nat option"
  ctype :: casantype
  expire :: time
  ntrans :: int
  rto :: time
  next_rto :: time
  waiter :: "nat option"

definition master_msg_new :: master_msg where
  "master_msg_new = \<lparr>bin = None, binlen = 0, pkt = PK_NONE, peer = None, pload = None, plen = 0,
     tok = replicate 8 0, tlen = 0, mty = MT_RST, mcd = MC_EMPTY, ident = 0, opts = [], optiter = [],
     reqrep = None, ctype = CASAN_UNKNOWN, expire = time_max, ntrans = 0, rto = 0,
     next_rto = time_max, waiter = None\<rparr>"

definition RESET_BINARY :: "master_msg \<Rightarrow> master_msg" where
  "RESET_BINARY m = (if bin m \<noteq> None then m\<lparr>bin := None, binlen := 0\<rparr> else m)"

definition RESET_VALUES :: "master_msg \<Rightarrow> master_msg" where
  "RESET_VALUES m = m\<lparr>peer := None, reqrep := None, bin := None, binlen := 0, pload := None, plen := 0,
     tlen := 0, ntrans := 0, rto := 0, next_rto := time_max, expire := time_max, pkt := PK_NONE,
     ctype := CASAN_UNKNOWN, ident := 0\<rparr>"

definition STOP_TRANSMIT :: "master_msg \<Rightarrow> master_msg" where
  "STOP_TRANSMIT m = m\<lparr>ntrans := MAX_RETRANSMIT\<rparr>"

text \<open>The operator \<open>==\<close>: the same bytes on the wire.\<close>

definition master_msg_eq :: "master_msg \<Rightarrow> master_msg \<Rightarrow> bool option" where
  "master_msg_eq a b = (case (bin a, bin b) of
     (Some x, Some y) \<Rightarrow> if binlen a = binlen b then memeq x y (nat (binlen a)) else Some False
   | _ \<Rightarrow> Some False)"

section \<open>Mutators and accessors\<close>

definition master_token :: "u8 list \<Rightarrow> nat \<Rightarrow> master_msg \<Rightarrow> master_msg option" where
  "master_token data len m = do {
     t \<leftarrow> mcopy (tok m) 0 data 0 len;
     Some (RESET_BINARY (m\<lparr>tok := t, tlen := int len\<rparr>))
   }"

definition master_id :: "int \<Rightarrow> master_msg \<Rightarrow> master_msg" where
  "master_id i m = RESET_BINARY (m\<lparr>ident := i\<rparr>)"

definition master_type :: "msgtype \<Rightarrow> master_msg \<Rightarrow> master_msg" where
  "master_type t m = RESET_BINARY (m\<lparr>mty := t\<rparr>)"

definition master_code :: "int \<Rightarrow> master_msg \<Rightarrow> master_msg" where
  "master_code c m = RESET_BINARY (m\<lparr>mcd := c\<rparr>)"

definition master_payload :: "u8 list \<Rightarrow> nat \<Rightarrow> master_msg \<Rightarrow> master_msg option" where
  "master_payload data len m = do {
     b \<leftarrow> slice data 0 len;
     Some (RESET_BINARY (m\<lparr>pload := Some (b @ [0]), plen := int len\<rparr>))
   }"

definition pushoption :: "coap_option \<Rightarrow> master_msg \<Rightarrow> master_msg option" where
  "pushoption o1 m = do { o2 \<leftarrow> master_option_copy o1; Some (m\<lparr>opts := opts m @ [o2]\<rparr>) }"

text \<open>\<open>front\<close> and \<open>pop_front\<close> of an empty list are undefined.\<close>

definition popoption :: "master_msg \<Rightarrow> (coap_option \<times> master_msg) option" where
  "popoption m = (case opts m of
     [] \<Rightarrow> None
   | o1 # os \<Rightarrow> do { o2 \<leftarrow> master_option_copy o1; Some (o2, m\<lparr>opts := os\<rparr>) })"

definition option_reset_iterator :: "master_msg \<Rightarrow> master_msg" where
  "option_reset_iterator m = m\<lparr>optiter := opts m\<rparr>"

definition option_next :: "master_msg \<Rightarrow> coap_option option \<times> master_msg" where
  "option_next m = (case optiter m of [] \<Rightarrow> (None, m) | o1 # os \<Rightarrow> (Some o1, m\<lparr>optiter := os\<rparr>))"

text \<open>\<open>sort\<close> of a list is stable.\<close>

definition option_sort :: "coap_option list \<Rightarrow> coap_option list" where
  "option_sort os = sort_key optcode os"

definition signed64 :: "u64 \<Rightarrow> int" where
  "signed64 w = sint w"

definition max_age :: "master_msg \<Rightarrow> int option" where
  "max_age m = (case find (\<lambda>o1. optcode o1 = MO_Max_Age) (opts m) of
     None \<Rightarrow> Some (- 1)
   | Some o1 \<Rightarrow> map_option signed64 (master_optval_uint o1))"

section \<open>Matching for the cache\<close>

lemma dropWhile_shorter: "x # xs = dropWhile P ys \<Longrightarrow> length xs < length ys"
  by (metis length_dropWhile_le length_Cons Suc_le_eq)

text \<open>The loop over two iterators; they never share a list.\<close>

function cache_match_loop :: "coap_option list \<Rightarrow> coap_option list \<Rightarrow> bool option" where
  "cache_match_loop ol1 ol2 =
     (let ol1 = dropWhile nocachekey ol1; ol2 = dropWhile nocachekey ol2 in
      case (ol1, ol2) of
        ([], []) \<Rightarrow> Some True
      | (a # as, b # bs) \<Rightarrow> do {
          eq \<leftarrow> master_option_eq a b;
          if eq then cache_match_loop as bs else Some False
        }
      | _ \<Rightarrow> Some False)"
  by pat_completeness auto

termination
  by (relation "measure (\<lambda>(ol1, ol2). length ol1)") (auto dest: dropWhile_shorter)

declare cache_match_loop.simps [simp del]

text \<open>Both option lists are sorted in place when the types agree.\<close>

definition cache_match :: "master_msg \<Rightarrow> master_msg \<Rightarrow> (bool \<times> master_msg \<times> master_msg) option" where
  "cache_match a b =
     (if mty a \<noteq> mty b then Some (False, a, b)
      else do {
        let a = a\<lparr>opts := option_sort (opts a)\<rparr>;
        let b = b\<lparr>opts := option_sort (opts b)\<rparr>;
        r \<leftarrow> cache_match_loop (opts a) (opts b);
        Some (r, a, b)
      })"

section \<open>Encoding\<close>

definition ty_byte :: "msgtype \<Rightarrow> u8" where
  "ty_byte t = (case t of MT_CON \<Rightarrow> 0 | MT_NON \<Rightarrow> 1 | MT_ACK \<Rightarrow> 2 | MT_RST \<Rightarrow> 3)"

fun master_size_loop :: "coap_option list \<Rightarrow> int \<Rightarrow> int \<Rightarrow> int" where
  "master_size_loop [] opt_nb sz = sz"
| "master_size_loop (o1 # os) opt_nb sz =
     (let sz = sz + 1;
          opt_delta = optcode o1 - opt_nb;
          sz = (if opt_delta \<ge> 269 then sz + 2 else if opt_delta \<ge> 13 then sz + 1 else sz);
          opt_len = optlen o1;
          sz = (if opt_len \<ge> 269 then sz + 2 else if opt_len \<ge> 13 then sz + 1 else sz)
      in master_size_loop os (optcode o1) (sz + optlen o1))"

definition master_encode_option :: "u8 list \<Rightarrow> nat \<Rightarrow> int \<Rightarrow> coap_option \<Rightarrow> (u8 list \<times> nat) option" where
  "master_encode_option sbuf i opt_nb o1 = do {
     let posoptheader = i;
     sbuf \<leftarrow> wr sbuf posoptheader 0;
     let i = i + 1;
     let opt_delta = optcode o1 - opt_nb;
     (sbuf, i) \<leftarrow>
       (if opt_delta \<ge> 269 then do {
          let opt_delta = opt_delta - 269;
          sbuf \<leftarrow> wr sbuf i (BYTE_HIGH opt_delta);
          sbuf \<leftarrow> wr sbuf (i + 1) (BYTE_LOW opt_delta);
          sbuf \<leftarrow> or_at sbuf posoptheader 0xe0;
          Some (sbuf, i + 2)
        } else if opt_delta \<ge> 13 then do {
          let opt_delta = opt_delta - 13;
          sbuf \<leftarrow> wr sbuf i (BYTE_LOW opt_delta);
          sbuf \<leftarrow> or_at sbuf posoptheader 0xd0;
          Some (sbuf, i + 1)
        } else do {
          sbuf \<leftarrow> or_at sbuf posoptheader (word_of_int (push_bit 4 opt_delta));
          Some (sbuf, i)
        });
     let opt_len = optlen o1;
     (sbuf, i) \<leftarrow>
       (if opt_len \<ge> 269 then do {
          let opt_len = opt_len - 269;
          sbuf \<leftarrow> wr sbuf i (BYTE_HIGH opt_len);
          sbuf \<leftarrow> wr sbuf (i + 1) (BYTE_LOW opt_len);
          sbuf \<leftarrow> or_at sbuf posoptheader 0x0e;
          Some (sbuf, i + 2)
        } else if opt_len \<ge> 13 then do {
          sbuf \<leftarrow> wr sbuf i (BYTE_LOW opt_len);
          sbuf \<leftarrow> or_at sbuf posoptheader 0x0d;
          Some (sbuf, i + 1)
        } else do {
          sbuf \<leftarrow> or_at sbuf posoptheader (word_of_int opt_len);
          Some (sbuf, i)
        });
     v \<leftarrow> slice (OPTVAL o1) 0 (nat (optlen o1));
     sbuf \<leftarrow> mcopy sbuf i v 0 (length v);
     Some (sbuf, i + length v)
   }"

fun master_encode_options :: "coap_option list \<Rightarrow> u8 list \<Rightarrow> nat \<Rightarrow> int \<Rightarrow> (u8 list \<times> nat) option" where
  "master_encode_options [] sbuf i opt_nb = Some (sbuf, i)"
| "master_encode_options (o1 # os) sbuf i opt_nb = do {
     (sbuf, i) \<leftarrow> master_encode_option sbuf i opt_nb o1;
     master_encode_options os sbuf i (optcode o1)
   }"

text \<open>\<open>global\<close> is the class variable \<open>global_message_id\<close>; \<open>new byte [n]\<close> is filled with \<open>fill\<close>.\<close>

definition default_id :: "int \<Rightarrow> master_msg \<Rightarrow> int \<times> master_msg" where
  "default_id global m =
     (if ident m = 0 then (if global + 1 > 0xffff then 1 else global + 1, m\<lparr>ident := global\<rparr>) else (global, m))"

definition master_coap_encode :: "u8 \<Rightarrow> int \<Rightarrow> master_msg \<Rightarrow> (int \<times> master_msg) option" where
  "master_coap_encode fill global m = do {
     let m = m\<lparr>opts := option_sort (opts m)\<rparr>;
     let len = master_size_loop (opts m) 0 (4 + tlen m);
     let len = (if plen m > 0 then len + (1 + plen m) else len);
     let (global, m) = default_id global m;
     let b = replicate (nat len) fill;
     b \<leftarrow> wr b 0 (FORMAT_BYTE0 CASAN_VERSION (ty_byte (mty m)) (tlen m));
     b \<leftarrow> wr b 1 (word_of_int (mcd m));
     b \<leftarrow> wr b 2 (BYTE_HIGH (ident m));
     b \<leftarrow> wr b 3 (BYTE_LOW (ident m));
     let i = 4;
     (b, i) \<leftarrow> (if tlen m > 0 then do {
         b \<leftarrow> mcopy b i (tok m) 0 (nat (tlen m));
         Some (b, i + nat (tlen m))
       } else Some (b, i));
     (b, i) \<leftarrow> master_encode_options (opts m) b i 0;
     b \<leftarrow> (if plen m > 0 then do {
         b \<leftarrow> wr b i 0xff;
         p \<leftarrow> pload m;
         mcopy b (i + 1) p 0 (nat (plen m))
       } else Some b);
     Some (global, m\<lparr>bin := Some b, binlen := len, ntrans := 0\<rparr>)
   }"

section \<open>Decoding\<close>

definition master_read_ext :: "u8 list \<Rightarrow> nat \<Rightarrow> int \<Rightarrow> (int \<times> nat \<times> bool) option" where
  "master_read_ext b i n =
     (if n = 13 then do { x \<leftarrow> rd b i; Some (uint x + 13, i + 1, True) }
      else if n = 14 then do {
        x \<leftarrow> rd b i;
        y \<leftarrow> rd b (i + 1);
        Some (push_bit 8 (uint x) + uint y + 269, i + 2, True)
      } else if n = 15 then Some (n, i, False)
      else Some (n, i, True))"

definition master_decode_option :: "u8 list \<Rightarrow> nat \<Rightarrow> int \<Rightarrow> master_msg \<Rightarrow> (bool \<times> nat \<times> int \<times> master_msg) option" where
  "master_decode_option b i opt_nb m = do {
     x \<leftarrow> rd b i;
     let opt_delta = uint (drop_bit 4 x AND 0x0f);
     let opt_len = uint (x AND 0x0f);
     let i = i + 1;
     (opt_delta, i, ok1) \<leftarrow> master_read_ext b i opt_delta;
     let opt_nb = opt_nb + opt_delta;
     (opt_len, i, ok2) \<leftarrow> master_read_ext b i opt_len;
     if ok1 \<and> ok2 then do {
       o1 \<leftarrow> master_set_optval (master_set_optcode option_new opt_nb) (drop i b) opt_len;
       m \<leftarrow> pushoption o1 m;
       Some (True, i + nat opt_len, opt_nb, m)
     } else Some (False, i, opt_nb, m)
   }"

lemma master_read_ext_pos: "master_read_ext b i n = Some (v, j, ok) \<Longrightarrow> i \<le> j"
  by (auto simp: master_read_ext_def bind_eq_Some_conv split: if_splits)

lemma master_decode_option_pos: "master_decode_option b i nb m = Some (ok, j, nb', m') \<Longrightarrow> i < j"
  by (auto simp: master_decode_option_def bind_eq_Some_conv Let_def dest!: master_read_ext_pos split: if_splits)

function master_decode_options :: "u8 list \<Rightarrow> int \<Rightarrow> nat \<Rightarrow> int \<Rightarrow> master_msg \<Rightarrow> (bool \<times> nat \<times> master_msg) option" where
  "master_decode_options b len i opt_nb m =
     (if int i < len then do {
        x \<leftarrow> rd b i;
        if x \<noteq> 0xff then do {
          (success, i, opt_nb, m) \<leftarrow> master_decode_option b i opt_nb m;
          if success then master_decode_options b len i opt_nb m else Some (False, i, m)
        } else Some (True, i, m)
      } else Some (True, i, m))"
  by pat_completeness auto

termination
  by (relation "measure (\<lambda>(b, len, i, opt_nb, m). nat len - i)") (auto dest!: master_decode_option_pos)

declare master_decode_options.simps [simp del]

definition master_decode_payload :: "u8 list \<Rightarrow> int \<Rightarrow> bool \<Rightarrow> nat \<Rightarrow> master_msg \<Rightarrow> (bool \<times> master_msg) option" where
  "master_decode_payload b len success i m =
     (let m = m\<lparr>plen := len - int i - 1\<rparr> in
      if success \<and> plen m > 0 then do {
        x \<leftarrow> rd b i;
        if x \<noteq> 0xff then Some (False, m)
        else do {
          p \<leftarrow> slice b (i + 1) (nat (plen m));
          Some (True, m\<lparr>pload := Some (p @ [0])\<rparr>)
        }
      } else Some (success, m\<lparr>plen := 0\<rparr>))"

definition ty_of :: "u8 \<Rightarrow> msgtype" where
  "ty_of b = (if b = 0 then MT_CON else if b = 1 then MT_NON else if b = 2 then MT_ACK else MT_RST)"

text \<open>\<open>b\<close> is the memory of the receive buffer, \<open>len\<close> the number of bytes received.\<close>

definition master_coap_decode :: "u8 list \<Rightarrow> int \<Rightarrow> master_msg \<Rightarrow> (bool \<times> master_msg) option" where
  "master_coap_decode b len m = do {
     b0 \<leftarrow> rd b 0;
     if drop_bit 6 b0 AND 3 \<noteq> CASAN_VERSION then Some (False, m)
     else do {
       b1 \<leftarrow> rd b 1;
       b2 \<leftarrow> rd b 2;
       b3 \<leftarrow> rd b 3;
       let n = unat (b0 AND 0x0f);
       let m = m\<lparr>mty := ty_of (drop_bit 4 b0 AND 3), tlen := int n, mcd := uint b1, ident := push_bit 8 (uint b2) OR uint b3\<rparr>;
       let i = 4;
       (m, i) \<leftarrow> (if n > 0 then do {
           t \<leftarrow> mcopy (tok m) 0 b i n;
           Some (m\<lparr>tok := t\<rparr>, i + n)
         } else Some (m, i));
       (success, i, m) \<leftarrow> master_decode_options b len i 0 m;
       master_decode_payload b len success i m
     }
   }"

text \<open>
  \<open>recv\<close>: what layer 2 delivers is the kind of packet, the memory of the buffer of \<open>mtu\<close> bytes, the
  length and the source address, which is returned when the packet is taken.
\<close>

definition master_recv :: "pktype \<times> u8 list \<times> int \<times> 'a \<Rightarrow> master_msg \<Rightarrow> ('a option \<times> master_msg) option" where
  "master_recv l2 m = (case l2 of (k, b, len, a) \<Rightarrow> do {
     let m = (RESET_VALUES (m\<lparr>opts := []\<rparr>))\<lparr>bin := Some b, pkt := k, binlen := len\<rparr>;
     if k = PK_ME \<or> k = PK_BCAST then do {
       (ok, m) \<leftarrow> master_coap_decode b len m;
       Some (if ok then Some a else None, m)
     } else Some (None, m)
   })"

section \<open>Control messages\<close>

type_synonym msg_heap = "nat \<Rightarrow> master_msg option"

definition master_namespace :: "u8 list list" where
  "master_namespace = [bytes ''.well-known'', bytes ''casan'']"

definition int32 :: "int \<Rightarrow> int" where
  "int32 z = (z + 2147483648) mod 4294967296 - 2147483648"

fun ctl_path_loop :: "coap_option list \<Rightarrow> nat \<Rightarrow> bool \<Rightarrow> (nat \<times> bool) option" where
  "ctl_path_loop [] i r = Some (i, r)"
| "ctl_path_loop (o1 # os) i r =
     (if optcode o1 = MO_Uri_Path then
        if i \<ge> length master_namespace then Some (i, False)
        else if int (length (master_namespace ! i)) \<noteq> optlen o1 then Some (i, False)
        else do {
          eq \<leftarrow> memeq (master_namespace ! i) (OPTVAL o1) (nat (optlen o1));
          if eq then ctl_path_loop os (i + 1) True else Some (i, False)
        }
      else ctl_path_loop os i r)"

definition is_casan_ctl_msg :: "master_msg \<Rightarrow> bool option" where
  "is_casan_ctl_msg m = do {
     (i, r) \<leftarrow> ctl_path_loop (opts m) 0 True;
     Some (r \<and> i = length master_namespace)
   }"

fun discover_loop :: "coap_option list \<Rightarrow> int \<Rightarrow> int \<Rightarrow> (int \<times> int) option" where
  "discover_loop [] sid mtu = Some (sid, mtu)"
| "discover_loop (o1 # os) sid mtu =
     (if optcode o1 = MO_Uri_Query then do {
        s \<leftarrow> cstr (OPTVAL o1);
        n \<leftarrow> sscanf_ld 64 (bytes ''slave='') s;
        case n of
          Some n \<Rightarrow> discover_loop os n mtu
        | None \<Rightarrow> do {
            n \<leftarrow> sscanf_ld 64 (bytes ''mtu='') s;
            case n of Some n \<Rightarrow> discover_loop os sid (int32 n) | None \<Rightarrow> Some (0, mtu)
          }
      } else discover_loop os sid mtu)"

definition is_casan_discover :: "master_msg \<Rightarrow> (bool \<times> int \<times> int \<times> master_msg) option" where
  "is_casan_discover m = do {
     ctl \<leftarrow> (if mty m = MT_NON \<and> mcd m = MC_POST then is_casan_ctl_msg m else Some False);
     (sid, mtu) \<leftarrow> (if ctl then discover_loop (opts m) 0 0 else Some (0, 0));
     let m = (if sid > 0 \<and> mtu \<ge> 0 then m\<lparr>ctype := CASAN_DISCOVER\<rparr> else m);
     Some (ctype m = CASAN_DISCOVER, sid, mtu, m)
   }"

fun associate_loop :: "coap_option list \<Rightarrow> bool \<Rightarrow> bool option" where
  "associate_loop [] found = Some found"
| "associate_loop (o1 # os) found =
     (if optcode o1 = MO_Uri_Query then do {
        s \<leftarrow> cstr (OPTVAL o1);
        n \<leftarrow> sscanf_ld 64 (bytes ''ttl='') s;
        case n of
          Some n \<Rightarrow> associate_loop os True
        | None \<Rightarrow> do {
            n \<leftarrow> sscanf_ld 64 (bytes ''mtu='') s;
            case n of Some n \<Rightarrow> associate_loop os True | None \<Rightarrow> Some False
          }
      } else associate_loop os found)"

definition is_casan_associate :: "master_msg \<Rightarrow> (bool \<times> master_msg) option" where
  "is_casan_associate m =
     (if ctype m = CASAN_UNKNOWN then do {
        ctl \<leftarrow> (if mty m = MT_CON \<and> mcd m = MC_POST then is_casan_ctl_msg m else Some False);
        found \<leftarrow> (if ctl then associate_loop (opts m) False else Some False);
        let m = (if found then m\<lparr>ctype := CASAN_ASSOC_REQUEST\<rparr> else m);
        Some (ctype m = CASAN_ASSOC_REQUEST, m)
      } else Some (ctype m = CASAN_ASSOC_REQUEST, m))"

text \<open>\<open>casan_type (false)\<close>, which does not look at the linked message.\<close>

definition casan_type_alone :: "master_msg \<Rightarrow> (casantype \<times> master_msg) option" where
  "casan_type_alone m =
     (if ctype m = CASAN_UNKNOWN then do {
        (d, sid, mtu, m) \<leftarrow> is_casan_discover m;
        (a, m) \<leftarrow> (if d then Some (True, m) else is_casan_associate m);
        let m = (if ctype m = CASAN_UNKNOWN then m\<lparr>ctype := CASAN_NONE\<rparr> else m);
        Some (ctype m, m)
      } else Some (ctype m, m))"

text \<open>\<open>casan_type (true)\<close> of the message at address \<open>a\<close>.\<close>

definition casan_type :: "nat \<Rightarrow> msg_heap \<Rightarrow> (casantype \<times> msg_heap) option" where
  "casan_type a h = do {
     m \<leftarrow> h a;
     if ctype m = CASAN_UNKNOWN then do {
       (d, sid, mtu, m) \<leftarrow> is_casan_discover m;
       (s, m) \<leftarrow> (if d then Some (True, m) else is_casan_associate m);
       let h = h(a \<mapsto> m);
       h \<leftarrow> (if s then Some h else case reqrep m of
           None \<Rightarrow> Some h
         | Some b \<Rightarrow> do {
             q \<leftarrow> h b;
             (st, q) \<leftarrow> casan_type_alone q;
             let h = h(b \<mapsto> q);
             m \<leftarrow> h a;
             Some (if st = CASAN_ASSOC_REQUEST then h(a \<mapsto> m\<lparr>ctype := CASAN_ASSOC_ANSWER\<rparr>) else h)
           });
       m \<leftarrow> h a;
       let m = (if ctype m = CASAN_UNKNOWN then m\<lparr>ctype := CASAN_NONE\<rparr> else m);
       Some (ctype m, h(a \<mapsto> m))
     } else Some (ctype m, h)
   }"

fun add_path_loop :: "u8 list list \<Rightarrow> master_msg \<Rightarrow> master_msg option" where
  "add_path_loop [] m = Some m"
| "add_path_loop (p # ps) m = do {
     o1 \<leftarrow> master_option_opaque MO_Uri_Path p (int (length p));
     m \<leftarrow> pushoption o1 m;
     add_path_loop ps m
   }"

definition add_path_ctl :: "master_msg \<Rightarrow> master_msg option" where
  "add_path_ctl m = add_path_loop master_namespace m"

definition push_query :: "u8 list \<Rightarrow> master_msg \<Rightarrow> master_msg option" where
  "push_query buf m = do {
     o1 \<leftarrow> master_option_opaque MO_Uri_Query buf (int (length buf));
     pushoption o1 m
   }"

definition mk_ctl_hello :: "int \<Rightarrow> master_msg \<Rightarrow> master_msg option" where
  "mk_ctl_hello hid m = do {
     m \<leftarrow> add_path_ctl m;
     push_query (bytes ''hello='' @ show_ld hid) m
   }"

definition mk_ctl_assoc :: "int \<Rightarrow> int \<Rightarrow> master_msg \<Rightarrow> master_msg option" where
  "mk_ctl_assoc ttl mtu m = do {
     m \<leftarrow> add_path_ctl m;
     m \<leftarrow> push_query (bytes ''ttl='' @ show_ld ttl) m;
     push_query (bytes ''mtu='' @ show_ld mtu) m
   }"

text \<open>\<open>link_reqrep (m1, m2)\<close> for two messages; without the second one the code follows a null pointer when there is a link.\<close>

definition link_reqrep :: "nat \<Rightarrow> nat option \<Rightarrow> msg_heap \<Rightarrow> msg_heap option" where
  "link_reqrep a b h = do {
     m1 \<leftarrow> h a;
     case b of
       None \<Rightarrow> if reqrep m1 \<noteq> None then None else Some (h(a \<mapsto> m1\<lparr>reqrep := None\<rparr>))
     | Some b \<Rightarrow> do {
         let h = h(a \<mapsto> m1\<lparr>reqrep := Some b\<rparr>);
         m2 \<leftarrow> h b;
         Some (h(b \<mapsto> m2\<lparr>reqrep := Some a\<rparr>))
       }
   }"

end
