(* ===== verification/Master_Msg_Laws.thy ===== *)
theory Master_Msg_Laws
  imports Master_Msg
begin

text \<open>
  What the message codec of the master does: the match of two requests for the cache, the frame an
  encoded message has, the message that is read from a frame, and the control messages.
\<close>

section \<open>The match for the cache\<close>

lemma cache_match_loop_val:
  assumes "list_all wf_option l1" "list_all wf_option l2"
  shows "cache_match_loop l1 l2 =
    Some (map opt_pair (filter (\<lambda>o1. \<not> nocachekey o1) l1) = map opt_pair (filter (\<lambda>o1. \<not> nocachekey o1) l2))"
  using assms
proof (induction l1 l2 rule: cache_match_loop.induct)
  case (1 l1 l2)
  have skip: "filter (\<lambda>o1. \<not> nocachekey o1) l = filter (\<lambda>o1. \<not> nocachekey o1) (dropWhile nocachekey l)" for l
    by (induction l) auto
  have wf: "list_all wf_option (dropWhile nocachekey l)" if "list_all wf_option l" for l
    using that by (auto simp: list_all_iff dest: set_dropWhileD)
  show ?case
  proof (cases "dropWhile nocachekey l1")
    case Nil
    note a = this
    show ?thesis
    proof (cases "dropWhile nocachekey l2")
      case Nil
      then show ?thesis using a
        by (subst cache_match_loop.simps, subst skip, subst (2) skip) (simp del: dropWhile_eq_Nil_conv)
    next
      case (Cons b bs)
      moreover have "\<not> nocachekey b" using Cons by (simp add: dropWhile_eq_Cons_conv)
      ultimately show ?thesis using a
        by (subst cache_match_loop.simps, subst skip, subst (2) skip) (simp del: dropWhile_eq_Nil_conv)
    qed
  next
    case (Cons a as)
    note a = this
    have na: "\<not> nocachekey a" using Cons by (simp add: dropWhile_eq_Cons_conv)
    show ?thesis
    proof (cases "dropWhile nocachekey l2")
      case Nil
      then show ?thesis using a na
        by (subst cache_match_loop.simps, subst skip, subst (2) skip) (simp del: dropWhile_eq_Nil_conv)
    next
      case (Cons b bs)
      have nb: "\<not> nocachekey b" using Cons by (simp add: dropWhile_eq_Cons_conv)
      have w: "wf_option a" "list_all wf_option as" "wf_option b" "list_all wf_option bs"
        using wf [OF "1.prems"(1)] wf [OF "1.prems"(2)] a Cons by simp_all
      have ih: "opt_pair a = opt_pair b \<Longrightarrow> cache_match_loop as bs =
          Some (map opt_pair (filter (\<lambda>o1. \<not> nocachekey o1) as) = map opt_pair (filter (\<lambda>o1. \<not> nocachekey o1) bs))"
        using "1.IH" [OF refl refl refl a Cons, of True] w by (simp add: master_option_eq_val)
      show ?thesis using a Cons na nb ih w
        by (subst cache_match_loop.simps, subst skip, subst (2) skip) (auto simp: master_option_eq_val simp del: dropWhile_eq_Nil_conv)
    qed
  qed
qed

text \<open>The key of a request in the cache: the options that are part of it, in the order of their codes.\<close>

definition cache_key :: "master_msg \<Rightarrow> (int \<times> u8 list) list" where
  "cache_key m = map opt_pair (filter (\<lambda>o1. \<not> nocachekey o1) (option_sort (opts m)))"

definition sort_opts :: "master_msg \<Rightarrow> master_msg" where
  "sort_opts m = m\<lparr>opts := option_sort (opts m)\<rparr>"

lemma cache_match_val:
  assumes "list_all wf_option (opts a)" "list_all wf_option (opts b)"
  shows "cache_match a b = Some (if mty a = mty b then (cache_key a = cache_key b, sort_opts a, sort_opts b) else (False, a, b))"
proof -
  have "list_all wf_option (option_sort (opts a))" "list_all wf_option (option_sort (opts b))"
    using assms by (simp_all add: option_sort_def list_all_iff)
  then show ?thesis
    by (simp add: cache_match_def cache_match_loop_val cache_key_def sort_opts_def)
qed

lemma master_encode_option_eq: "master_encode_option = encode_option"
  by (intro ext) (simp only: master_encode_option_def encode_option_def)

lemma master_encode_options_val:
  assumes "list_all wf_option os" "list_all (\<lambda>o1. optlen o1 < 65536) os" "0 \<le> nb" "ascending nb (map opt_pair os)"
    "i + length (opts_frame nb (map opt_pair os)) \<le> length sbuf"
  shows "master_encode_options os sbuf i nb =
    Some (put_at sbuf i (opts_frame nb (map opt_pair os)), i + length (opts_frame nb (map opt_pair os)))"
proof -
  have "master_encode_options os sbuf i nb = encode_options os sbuf i nb"
    using assms(3,4)
  proof (induction os arbitrary: sbuf i nb)
    case (Cons o1 os)
    then have "optcode o1 mod 65536 = optcode o1" by simp
    then show ?case using Cons by (simp add: master_encode_option_eq split: option.splits cong: option.case_cong bind_option_cong)
  qed simp
  then show ?thesis using encode_options_val [OF assms] by simp
qed

lemma master_size_loop_val:
  assumes "list_all wf_option os" "0 \<le> nb" "ascending nb (map opt_pair os)"
  shows "master_size_loop os nb sz = sz + int (length (opts_frame nb (map opt_pair os)))"
proof -
  have "master_size_loop os nb sz = size_loop os nb sz"
    using assms(2,3)
  proof (induction os arbitrary: nb sz)
    case (Cons o1 os)
    then have "optcode o1 mod 65536 = optcode o1" by simp
    then show ?case using Cons by (simp add: Let_def)
  qed simp
  then show ?thesis using size_loop_val [OF assms] by simp
qed

section \<open>Well-formed messages and their frame\<close>

definition wf_master :: "master_msg \<Rightarrow> bool" where
  "wf_master m \<longleftrightarrow> 0 \<le> tlen m \<and> tlen m \<le> 8 \<and> length (tok m) = 8 \<and> 0 \<le> ident m \<and> ident m < 65536 \<and>
     (\<forall>o1 \<in> set (opts m). wf_option o1 \<and> 0 \<le> optcode o1 \<and> optcode o1 < 32768 \<and> optlen o1 < 65536) \<and>
     (if plen m > 0 then \<exists>p. pload m = Some p \<and> nat (plen m) \<le> length p else plen m = 0)"

definition master_tok :: "master_msg \<Rightarrow> u8 list" where
  "master_tok m = take (nat (tlen m)) (tok m)"

definition master_pay :: "master_msg \<Rightarrow> u8 list" where
  "master_pay m = (if plen m > 0 then case pload m of Some p \<Rightarrow> take (nat (plen m)) p | None \<Rightarrow> [] else [])"

definition master_frame :: "master_msg \<Rightarrow> u8 list" where
  "master_frame m = header_frame (ty_byte (mty m)) (word_of_int (mcd m)) (word_of_int (ident m)) (master_tok m) @
     opts_frame 0 (map opt_pair (option_sort (opts m))) @ payload_frame (master_pay m)"

lemma master_ascending:
  "sorted (map optcode os) \<Longrightarrow> list_all (\<lambda>o1. nb \<le> optcode o1 \<and> optcode o1 < 32768) os \<Longrightarrow> ascending nb (map opt_pair os)"
proof (induction os arbitrary: nb)
  case (Cons a os)
  then have "list_all (\<lambda>o1. optcode a \<le> optcode o1 \<and> optcode o1 < 32768) os" by (auto simp: list_all_iff)
  then show ?case using Cons by simp
qed simp

lemma option_sort_id: "sorted (map optcode os) \<Longrightarrow> option_sort os = os"
  by (induction os) (auto simp: option_sort_def insort_is_Cons)

lemma option_sort_sort [simp]: "option_sort (option_sort os) = option_sort os"
  by (rule option_sort_id) (simp add: option_sort_def)

lemma set_option_sort [simp]: "set (option_sort os) = set os"
  by (simp add: option_sort_def)

lemma sorted_options:
  assumes "wf_master m"
  shows "list_all wf_option (option_sort (opts m))" "list_all (\<lambda>o1. optlen o1 < 65536) (option_sort (opts m))"
    "ascending 0 (map opt_pair (option_sort (opts m)))"
  using assms by (auto simp: wf_master_def option_sort_def list_all_iff intro!: master_ascending)

lemma master_parts:
  assumes "wf_master m"
  shows "int (length (master_tok m)) = tlen m" "int (length (master_pay m)) = plen m"
  using assms by (auto simp: wf_master_def master_tok_def master_pay_def min_def split: if_splits)

lemma header_int:
  assumes "0 \<le> n" "n < 65536"
  shows "BYTE_HIGH n = ucast (drop_bit 8 (word_of_int n :: u16))" "BYTE_LOW n = ucast (word_of_int n :: u16)"
proof -
  have "uint (word_of_int n :: u16) = n" using assms by (simp add: uint_word_of_int)
  then show "BYTE_HIGH n = ucast (drop_bit 8 (word_of_int n :: u16))" "BYTE_LOW n = ucast (word_of_int n :: u16)"
    using header_bytes(2,3) [of "word_of_int n"] by simp_all
qed

lemma ty_byte_and: "ty_byte t AND 3 = ty_byte t"
  by (cases t) (simp_all add: ty_byte_def)

lemma ty_of_byte: "ty_of (ty_byte t AND 3) = t"
  by (cases t) (simp_all add: ty_byte_def ty_of_def)

lemma default_id_val:
  assumes "wf_master m" "1 \<le> g" "g < 65536"
  shows "wf_master (snd (default_id g m))" "opts (snd (default_id g m)) = opts m" "plen (snd (default_id g m)) = plen m"
    "tlen (snd (default_id g m)) = tlen m" "0 < ident (snd (default_id g m))"
    "1 \<le> fst (default_id g m)" "fst (default_id g m) < 65536"
  using assms by (auto simp: default_id_def wf_master_def)

text \<open>Encoding when the list is sorted and the id is set.\<close>

lemma master_encode_val:
  assumes m: "wf_master m" and g: "1 \<le> g" "g < 65536"
  defines "m1 \<equiv> (snd (default_id g m))\<lparr>opts := option_sort (opts m)\<rparr>"
  shows "master_coap_encode fill g m =
    Some (fst (default_id g m), m1\<lparr>bin := Some (master_frame m1), binlen := int (length (master_frame m1)), ntrans := 0\<rparr>)"
proof -
  have m1: "wf_master m1" "opts m1 = option_sort (opts m)" "option_sort (opts m1) = opts m1" "plen m1 = plen m" "tlen m1 = tlen m"
    using default_id_val [OF m g] by (simp_all add: m1_def wf_master_def split: if_splits)
  define tk where "tk = master_tok m1"
  define h where "h = [0x40 OR push_bit 4 (ty_byte (mty m1) AND 3) OR (of_nat (length tk) AND 7), word_of_int (mcd m1),
    ucast (drop_bit 8 (word_of_int (ident m1) :: u16)), ucast (word_of_int (ident m1) :: u16)]"
  define fs where "fs = opts_frame 0 (map opt_pair (opts m1))"
  define pf where "pf = payload_frame (master_pay m1)"
  have frame: "master_frame m1 = h @ tk @ fs @ pf"
    by (simp add: master_frame_def header_frame_def h_def tk_def fs_def pf_def m1(3))
  have parts: "int (length tk) = tlen m1" "int (length (master_pay m1)) = plen m1"
    using master_parts [OF m1(1)] by (simp_all add: tk_def)
  have pl: "int (length pf) = (if plen m1 > 0 then 1 + plen m1 else 0)"
  proof -
    have "0 < plen m1 \<longleftrightarrow> master_pay m1 \<noteq> []" using arg_cong [OF parts(2), of "\<lambda>z. 0 < z"] by simp
    then show ?thesis using parts(2) by (simp add: pf_def payload_frame_def)
  qed
  have so: "list_all wf_option (opts m1)" "list_all (\<lambda>o1. optlen o1 < 65536) (opts m1)" "ascending 0 (map opt_pair (opts m1))"
    using sorted_options [OF m1(1)] by (simp_all add: m1(3))
  have h4: "length h = 4" by (simp add: h_def)
  define N where "N = master_size_loop (option_sort (opts m)) 0 (4 + tlen m)"
  define len where "len = (if plen m > 0 then N + (1 + plen m) else N)"
  have len: "len = int (length (master_frame m1))"
    using master_size_loop_val [OF so(1) _ so(3)] pl parts(1) m1(2,4,5) h4
    by (simp add: len_def N_def frame fs_def)
  define sbuf where "sbuf = replicate (nat len) fill"
  have fit: "length h + length tk + length fs + length pf = length sbuf" by (simp add: sbuf_def len frame)
  have id: "0 \<le> ident m1" "ident m1 < 65536" using m1(1) by (simp_all add: wf_master_def)
  have head: "[FORMAT_BYTE0 CASAN_VERSION (ty_byte (mty m1)) (tlen m1), word_of_int (mcd m1), BYTE_HIGH (ident m1), BYTE_LOW (ident m1)] = h"
    using parts(1) by (simp add: header_bytes header_int [OF id] h_def flip: parts(1))
  have opts: "master_encode_options (opts m1) (put_at sbuf 0 (h @ tk)) (length h + length tk) 0 =
      Some (put_at sbuf 0 (h @ tk @ fs), length h + length tk + length fs)"
    using so fit unfolding fs_def
    by (subst master_encode_options_val) (auto simp: put_at_two)
  have tkcopy: "(if tlen m1 > 0 then do {
           b \<leftarrow> mcopy (put_at sbuf 0 h) 4 (tok m1) 0 (nat (tlen m1));
           Some (b, 4 + nat (tlen m1))
         } else Some (put_at sbuf 0 h, 4)) = Some (put_at sbuf 0 (h @ tk), length h + length tk)"
    using parts(1) fit h4 m1(1) by (auto simp: mcopy_in put_at_two tk_def master_tok_def wf_master_def)
  have pay: "(if plen m1 > 0 then do {
           b \<leftarrow> wr (put_at sbuf 0 (h @ tk @ fs)) (length h + length tk + length fs) 0xff;
           p \<leftarrow> pload m1;
           mcopy b (length h + length tk + length fs + 1) p 0 (nat (plen m1))
         } else Some (put_at sbuf 0 (h @ tk @ fs))) = Some (put_at sbuf 0 (h @ tk @ fs @ pf))"
  proof (cases "plen m1 > 0")
    case True
    then obtain p where p: "pload m1 = Some p" "nat (plen m1) \<le> length p" using m1(1) by (auto simp: wf_master_def)
    define q where "q = take (nat (plen m1)) p"
    have q: "master_pay m1 = q" "length q = nat (plen m1)" "q \<noteq> []" using True p by (auto simp: master_pay_def q_def)
    then have pf: "pf = 0xff # q" by (simp add: pf_def payload_frame_def)
    have "mcopy b k p 0 (nat (plen m1)) = mcopy b k q 0 (length q)" for b k
      using p(2) q by (simp add: mcopy_def q_def min_def)
    then show ?thesis using True p fit pf by (simp add: wr_next mcopy_next del: wr_in)
  next
    case False
    then show ?thesis by (simp add: pf_def payload_frame_def master_pay_def)
  qed
  have full: "put_at sbuf 0 (h @ tk @ fs @ pf) = master_frame m1" using fit by (simp add: put_at_def frame)
  have fit4: "4 \<le> length sbuf" using fit h4 by simp
  have did: "default_id g (m\<lparr>opts := option_sort (opts m)\<rparr>) = (fst (default_id g m), m1)"
    by (simp add: m1_def default_id_def)
  have sel: "opts (m\<lparr>opts := os\<rparr>) = os" "tlen (m\<lparr>opts := os\<rparr>) = tlen m" "plen (m\<lparr>opts := os\<rparr>) = plen m" for os by simp_all
  show ?thesis
    unfolding master_coap_encode_def Let_def did sel prod.case N_def [symmetric] len_def [symmetric] sbuf_def [symmetric]
    by (simp only: wr_header [OF fit4] head tkcopy bind.bind_lunit prod.case opts pay full len)
qed

section \<open>Decoding a frame\<close>

lemma master_read_ext_val:
  assumes "0 \<le> v" "v < 32768" "drop i b = ext_bytes v @ xs"
  shows "master_read_ext b i (ext_nibble v) = Some (v, i + length (ext_bytes v), True)"
proof -
  consider "v < 13" | "13 \<le> v" "v < 269" | "269 \<le> v" by linarith
  then show ?thesis
  proof cases
    case 1
    then show ?thesis using assms by (simp add: master_read_ext_def ext_nibble_def ext_bytes_def)
  next
    case 2
    then have "rd b i = Some (word_of_int (v - 13))" using assms(3) rd_at by (simp add: ext_bytes_def)
    then show ?thesis using 2 by (simp add: master_read_ext_def ext_nibble_def uint_byte ext_bytes_def del: of_int_diff)
  next
    case 3
    define z where "z = v - 269"
    have "drop i b = word_of_int (z div 256) # word_of_int z # xs" using 3 assms(3) by (simp add: ext_bytes_def z_def)
    from rd_at [OF this] rd_at [OF drop_SucI [OF this]]
    have r: "rd b i = Some (word_of_int (z div 256))" "rd b (i + 1) = Some (word_of_int z)" by simp_all
    have "uint (word_of_int (z div 256) :: u8) = z div 256" "uint (word_of_int z :: u8) = z mod 256"
      using 3 assms by (simp_all add: z_def uint_byte del: of_int_diff)
    moreover have "push_bit 8 (z div 256) + z mod 256 = z" by (simp add: push_bit_eq_mult)
    ultimately show ?thesis
      using 3 r by (simp add: master_read_ext_def ext_nibble_def ext_bytes_def z_def [symmetric]) (simp add: z_def)
  qed
qed

lemma master_read_len_val:
  assumes "l < 32768" "drop i b = len_bytes (int l) @ xs"
  shows "master_read_ext b i (ext_nibble (int l)) = Some (int (read_len l), i + length (len_bytes (int l)), True)"
proof (cases "13 \<le> l \<and> l < 269")
  case True
  then have "rd b i = Some (word_of_int (int l))" using assms(2) rd_at by (simp add: len_bytes_def)
  then show ?thesis
    using True by (simp add: master_read_ext_def ext_nibble_def read_len_def len_bytes_def unsigned_of_nat take_bit_eq_mod zmod_int)
next
  case False
  then have "len_bytes (int l) = ext_bytes (int l)" by (auto simp: len_bytes_def ext_bytes_def)
  then show ?thesis using assms False master_read_ext_val [of "int l" i b xs] by (auto simp: read_len_def)
qed

lemma pushoption_val:
  "wf_option o1 \<Longrightarrow> \<exists>o2. pushoption o1 m = Some (m\<lparr>opts := opts m @ [o2]\<rparr>) \<and> wf_option o2 \<and> opt_pair o2 = opt_pair o1"
  using option_copy_val [of o1] by (auto simp: pushoption_def master_option_copy_eq opt_pair_def)

lemma master_decode_option_val:
  assumes d: "drop i b = opt_frame nb (c, v) @ rest"
    and c: "0 \<le> nb" "nb \<le> c" "c < 32768" and l: "length v < 32768" "read_len (length v) \<le> length v + length rest"
  shows "\<exists>o2. master_decode_option b i nb m =
      Some (True, i + length (opt_frame nb (c, v)) - length v + read_len (length v), c, m\<lparr>opts := opts m @ [o2]\<rparr>) \<and>
    wf_option o2 \<and> opt_pair o2 = (c, take (read_len (length v)) (v @ rest))"
proof -
  define dn where "dn = ext_nibble (c - nb)"
  define ln where "ln = ext_nibble (int (length v))"
  define h where "h = (word_of_int (16 * dn + ln) :: u8)"
  define j where "j = i + 1 + length (ext_bytes (c - nb))"
  define k where "k = j + length (len_bytes (int (length v)))"
  have n: "0 \<le> dn" "dn < 16" "0 \<le> ln" "ln < 16"
    using ext_nibble_range [of "c - nb"] ext_nibble_range [of "int (length v)"] c by (simp_all add: dn_def ln_def)
  have d0: "drop i b = h # ext_bytes (c - nb) @ len_bytes (int (length v)) @ v @ rest"
    using d by (simp add: opt_frame_with_def h_def dn_def ln_def)
  have d1: "drop (i + 1) b = ext_bytes (c - nb) @ len_bytes (int (length v)) @ v @ rest"
    using drop_SucI [OF d0] by simp
  then have d2: "drop j b = len_bytes (int (length v)) @ v @ rest"
    unfolding j_def by (metis append_eq_conv_conj drop_drop add.commute)
  then have d3: "drop k b = v @ rest"
    unfolding k_def by (metis append_eq_conv_conj drop_drop add.commute)
  have r1: "master_read_ext b (i + 1) dn = Some (c - nb, j, True)"
    unfolding dn_def j_def using c d1 by (intro master_read_ext_val) auto
  have r2: "master_read_ext b j ln = Some (int (read_len (length v)), k, True)"
    unfolding ln_def k_def using l(1) d2 by (intro master_read_len_val)
  obtain o1 where o1: "master_set_optval (master_set_optcode option_new c) (drop k b) (int (read_len (length v))) = Some o1" "wf_option o1"
    "opt_pair o1 = (c, take (read_len (length v)) (v @ rest))"
    using set_optval_val [of "set_optcode option_new c" "int (read_len (length v))" "drop k b"] l(2)
    by (auto simp: d3 set_optcode_def master_set_optcode_def master_set_optval_eq wf_option_def option_new_def opt_pair_def)
  obtain o2 where o2: "pushoption o1 m = Some (m\<lparr>opts := opts m @ [o2]\<rparr>)" "wf_option o2" "opt_pair o2 = opt_pair o1"
    using pushoption_val [OF o1(2)] by blast
  have "k + length v = i + length (opt_frame nb (c, v))" by (simp add: k_def j_def opt_frame_with_def)
  then have k: "k + read_len (length v) = i + length (opt_frame nb (c, v)) - length v + read_len (length v)" by simp
  have nib: "uint (drop_bit 4 h AND 15) = dn" "uint (h AND 15) = ln" using nibbles_of_header [OF n] by (simp_all only: h_def)
  show ?thesis
    using o2 o1 n r1 r2 rd_at [OF d0]
    by (intro exI [of _ o2]) (simp add: master_decode_option_def nib flip: k)
qed

lemma master_decode_options_val:
  assumes "drop i b = opts_frame nb os @ rest" "i \<le> length b" "0 \<le> nb" "ascending nb os"
    "list_all (\<lambda>cv. sound_len (length (snd cv))) os"
    "n = i + length (opts_frame nb os) \<or> i + length (opts_frame nb os) < n \<and> (\<exists>xs. rest = 0xff # xs)"
  shows "\<exists>ol. master_decode_options b (int n) i nb m = Some (True, i + length (opts_frame nb os), m\<lparr>opts := opts m @ ol\<rparr>) \<and>
    list_all wf_option ol \<and> map opt_pair ol = os"
  using assms
proof (induction os arbitrary: i nb m)
  case Nil
  then show ?case by (auto simp: master_decode_options.simps [of b "int n" i] dest!: rd_at intro!: exI [of _ "[]"])
next
  case (Cons cv os)
  obtain c v where cv: "cv = (c, v)" by (cases cv)
  define f where "f = opt_frame nb (c, v)"
  define fs where "fs = opts_frame c os"
  have l: "sound_len (length v)" "read_len (length v) = length v" using Cons.prems(5) cv by (simp_all add: read_len_sound)
  have c: "nb \<le> c" "c < 32768" "ascending c os" using Cons.prems(4) cv by simp_all
  have d: "drop i b = f @ (fs @ rest)" using Cons.prems(1) by (simp add: f_def fs_def cv)
  obtain x where x: "f = x # tl f" "x \<noteq> 0xff"
    using opt_frame_head [of "c - nb" "length v"] c by (simp add: f_def opt_frame_with_def)
  obtain o2 where o2: "master_decode_option b i nb m = Some (True, i + length f, c, m\<lparr>opts := opts m @ [o2]\<rparr>)"
    "wf_option o2" "opt_pair o2 = (c, v)"
    using master_decode_option_val [of i b nb c v "fs @ rest" m] d c l Cons.prems(3) unfolding f_def
    by (auto simp: opt_frame_with_def sound_len_def)
  have "i \<le> length b" by fact
  then have d2: "drop (i + length f) b = fs @ rest" and ib: "i + length f \<le> length b"
    using slice_at [OF d] d by (auto simp: slice_def split: if_splits)
  obtain ol where ol: "master_decode_options b (int n) (i + length f) c (m\<lparr>opts := opts m @ [o2]\<rparr>) =
      Some (True, i + length f + length fs, m\<lparr>opts := opts m @ [o2] @ ol\<rparr>)" "list_all wf_option ol" "map opt_pair ol = os"
    using Cons.IH [of "i + length f" c "m\<lparr>opts := opts m @ [o2]\<rparr>"] d2 ib c Cons.prems(3,5,6)
    by (force simp: fs_def f_def cv)
  have "i < n" using Cons.prems(6) x by (auto simp: cv f_def [symmetric])
  moreover have "rd b i = Some x" using d x(1) by (metis append_Cons rd_at)
  ultimately show ?case
    using ol o2 x(2) by (intro exI [of _ "o2 # ol"]) (simp add: master_decode_options.simps [of b "int n" i] cv f_def fs_def)
qed

text \<open>Any frame of the wire format, at the start of the receive buffer.\<close>

lemma master_decode_val:
  fixes p :: "u8 list" and mi :: u16 and code :: u8
  assumes t: "length tk < 8" "t AND 3 = t" and os: "ascending 0 os" "list_all (\<lambda>cv. sound_len (length (snd cv))) os"
    and m0: "length (tok m0) = 8" "opts m0 = []"
  defines "f \<equiv> header_frame t code mi tk @ opts_frame 0 os @ payload_frame p"
  shows "\<exists>ol tv. master_coap_decode (f @ junk) (int (length f)) m0 = Some (True,
      m0\<lparr>mty := ty_of t, tlen := int (length tk), mcd := uint code, ident := uint mi, tok := tv, opts := ol,
        plen := int (length p), pload := (if p = [] then pload m0 else Some (p @ [0]))\<rparr>) \<and>
    list_all wf_option ol \<and> map opt_pair ol = os \<and> take (length tk) tv = tk \<and> length tv = 8"
proof -
  define h where "h = 0x40 OR push_bit 4 (t AND 3) OR (of_nat (length tk) AND 7)"
  define fs where "fs = opts_frame 0 os"
  define pf where "pf = payload_frame p"
  define b where "b = f @ junk"
  have frame: "f = [h, code, ucast (drop_bit 8 mi), ucast mi] @ tk @ fs @ pf"
    by (simp add: f_def header_frame_def h_def fs_def pf_def)
  have hd4: "rd b 0 = Some h" "rd b 1 = Some code" "rd b 2 = Some (ucast (drop_bit 8 mi))" "rd b 3 = Some (ucast mi)"
    by (simp_all add: b_def frame nth_Cons)
  have n: "unat (h AND 0x0f) = length tk" unfolding h_def header_fields using t(1) by (rule token_nibble)
  define tv where "tv = tk @ drop (length tk) (tok m0)"
  have tv: "take (length tk) tv = tk" "length tv = 8" using t(1) m0(1) by (simp_all add: tv_def)
  have tkc: "mcopy (tok m0) 0 b 4 (length tk) = Some tv"
    using t(1) m0(1) by (simp add: mcopy_in b_def frame put_at_def tv_def)
  have d: "drop (4 + length tk) b = fs @ (pf @ junk)" by (simp add: b_def frame numeral_eq_Suc)
  have len: "length f = 4 + length tk + length fs + length pf" by (simp add: frame)
  define m1 where "m1 = m0\<lparr>mty := ty_of t, tlen := int (length tk), mcd := uint code, ident := uint mi, tok := tv\<rparr>"
  have "pf = [] \<or> (\<exists>xs. pf @ junk = 0xff # xs) \<and> pf \<noteq> []" by (auto simp: pf_def payload_frame_def)
  then obtain ol where ol: "master_decode_options b (int (length f)) (4 + length tk) 0 m1 =
      Some (True, 4 + length tk + length fs, m1\<lparr>opts := ol\<rparr>)" "list_all wf_option ol" "map opt_pair ol = os"
    using master_decode_options_val [OF d [unfolded fs_def] _ _ os, of "length f" m1] m0(2)
    by (force simp: b_def frame fs_def m1_def)
  have dec: "drop_bit 6 h AND 3 = CASAN_VERSION" "drop_bit 4 h AND 3 = t"
    using header_fields(1,2) [of t "length tk"] t(2) unfolding h_def by simp_all
  have mi: "push_bit 8 (uint (ucast (drop_bit 8 mi) :: u8)) OR uint (ucast mi :: u8) = uint mi"
    by (rule bit_eqI) (auto simp: bit_simps bit_uint_iff dest: bit_imp_le_length)
  have m1tk: "tk = [] \<Longrightarrow> m1 = m0\<lparr>mty := ty_of t, tlen := 0, mcd := uint code, ident := uint mi\<rparr>"
    by (simp add: m1_def tv_def)
  have tkpart: "(if 0 < length tk then mcopy (tok (m0\<lparr>mty := ty_of t, tlen := int (length tk), mcd := uint code, ident := uint mi\<rparr>)) 0 b 4 (length tk) \<bind>
        (\<lambda>tv. Some (m0\<lparr>mty := ty_of t, tlen := int (length tk), mcd := uint code, ident := uint mi, tok := tv\<rparr>, 4 + length tk))
      else Some (m0\<lparr>mty := ty_of t, tlen := int (length tk), mcd := uint code, ident := uint mi\<rparr>, 4)) = Some (m1, 4 + length tk)"
    using tkc m1tk by (auto simp: m1_def)
  have pay: "master_decode_payload b (int (length f)) True (4 + length tk + length fs) (m1\<lparr>opts := ol\<rparr>) =
      Some (True, m1\<lparr>opts := ol, plen := int (length p), pload := (if p = [] then pload m0 else Some (p @ [0]))\<rparr>)"
  proof (cases "p = []")
    case True
    then have "pf = []" by (simp add: pf_def payload_frame_def)
    then show ?thesis using True by (simp add: master_decode_payload_def len m1_def)
  next
    case False
    then have pf: "pf = 0xff # p" by (simp add: pf_def payload_frame_def)
    have at: "drop (4 + length tk + length fs) b = 0xff # p @ junk" by (simp add: b_def frame pf numeral_eq_Suc)
    have "slice b (4 + length tk + length fs + 1) (length p) = Some p"
      using slice_at [OF drop_SucI [OF at]] by (simp add: b_def frame pf)
    then show ?thesis using False rd_at [OF at] by (simp add: master_decode_payload_def len pf m1_def)
  qed
  have "master_coap_decode b (int (length f)) m0 = Some (True, m1\<lparr>opts := ol, plen := int (length p), pload := (if p = [] then pload m0 else Some (p @ [0]))\<rparr>)"
    unfolding master_coap_decode_def hd4 bind.bind_lunit dec n Let_def mi
    using tkpart ol(1) pay by simp
  then show ?thesis using ol(2,3) tv unfolding b_def m1_def by (intro exI [of _ ol] exI [of _ tv]) simp
qed

section \<open>Laws of the control messages\<close>

definition path_options :: "(int \<times> u8 list) list" where
  "path_options = map (Pair MO_Uri_Path) master_namespace"

lemma OPTVAL_split:
  assumes "wf_option o1"
  shows "\<exists>r. OPTVAL o1 = opt_value o1 @ 0 # r"
proof -
  define n where "n = nat (optlen o1)"
  have n: "n < length (OPTVAL o1)" "OPTVAL o1 ! n = 0"
    using assms by (auto simp: wf_option_def OPTVAL_def n_def split: option.splits)
  then show ?thesis using id_take_nth_drop [OF n(1)] by (auto simp: opt_value_def n_def)
qed

lemma OPTVAL_string:
  assumes "wf_option o1" "0 \<notin> set (opt_value o1)"
  shows "cstr (OPTVAL o1) = Some (opt_value o1)"
  using OPTVAL_split [OF assms(1)] cstr_append_zero [OF assms(2)] by auto

lemma memeq_value:
  assumes "wf_option o1" "int (length s) = optlen o1"
  shows "memeq s (OPTVAL o1) (nat (optlen o1)) = Some (s = opt_value o1)"
proof -
  obtain r where r: "OPTVAL o1 = opt_value o1 @ 0 # r" using OPTVAL_split [OF assms(1)] by blast
  have l: "length (opt_value o1) = length s" "nat (optlen o1) = length s" using length_opt_value [OF assms(1)] assms(2) by linarith+
  show ?thesis unfolding l(2) r by (subst memeq_in) (simp_all add: l(1))
qed

lemma ctl_path_step:
  assumes "wf_option o1" "opt_pair o1 = (MO_Uri_Path, v)" "i < length master_namespace"
  shows "ctl_path_loop (o1 # os) i r = (if v = master_namespace ! i then ctl_path_loop os (i + 1) True else Some (i, False))"
proof -
  have v: "optcode o1 = MO_Uri_Path" "opt_value o1 = v" using assms(2) by (simp_all add: opt_pair_def)
  show ?thesis
  proof (cases "int (length (master_namespace ! i)) = optlen o1")
    case True
    from memeq_value [OF assms(1) True] show ?thesis
      unfolding ctl_path_loop.simps(2) v using True assms(3) by simp
  next
    case False
    then have "v \<noteq> master_namespace ! i" using length_opt_value [OF assms(1)] v(2) by auto
    then show ?thesis unfolding ctl_path_loop.simps(2) v(1) using False assms(3) by simp
  qed
qed

lemma ctl_path_skip: "list_all (\<lambda>o1. optcode o1 \<noteq> MO_Uri_Path) os \<Longrightarrow> ctl_path_loop os i r = Some (i, r)"
  by (induction os) simp_all

lemma ctl_msg_val:
  assumes "list_all wf_option (opts m)" "map opt_pair (opts m) = path_options @ qs" "list_all (\<lambda>cv. fst cv \<noteq> MO_Uri_Path) qs"
  shows "is_casan_ctl_msg m = Some True"
proof -
  obtain o1 o2 os where os: "opts m = o1 # o2 # os" "opt_pair o1 = (MO_Uri_Path, bytes ''.well-known'')" "opt_pair o2 = (MO_Uri_Path, bytes ''casan'')"
    "map opt_pair os = qs"
    using assms(2) by (auto simp: path_options_def master_namespace_def)
  have "list_all (\<lambda>o1. optcode o1 \<noteq> MO_Uri_Path) os"
    using assms(3) unfolding os(4) [symmetric] by (auto simp: list_all_iff opt_pair_def)
  then show ?thesis
    using assms(1) os(1) ctl_path_step [OF _ os(2), of 0 "o2 # os" True] ctl_path_step [OF _ os(3), of 1 os True]
    by (simp add: is_casan_ctl_msg_def master_namespace_def ctl_path_skip del: ctl_path_loop.simps)
qed

text \<open>The numbers that are read back.\<close>

definition in_long :: "int \<Rightarrow> bool" where
  "in_long n \<longleftrightarrow> - (2 ^ 63) \<le> n \<and> n < 2 ^ 63"

lemma read_query:
  assumes "in_long n"
  shows "sscanf_ld 64 p (p @ show_ld n) = Some (Some n)"
  using sscanf_show [of 64 n "[]" p] assms by (simp add: in_long_def)

lemma query_string: "0 \<notin> set p \<Longrightarrow> 0 \<notin> set (p @ show_ld n)"
  using show_ld_no_zero by simp

lemma other_query: "p \<noteq> [] \<Longrightarrow> q \<noteq> [] \<Longrightarrow> hd p \<noteq> hd q \<Longrightarrow> sscanf_ld w p (q @ s) = Some None"
  by (cases p; cases q) (auto simp: sscanf_ld_def)

lemma discover_loop_skip: "list_all (\<lambda>o1. optcode o1 \<noteq> MO_Uri_Query) os \<Longrightarrow> discover_loop (os @ os') s t = discover_loop os' s t"
  by (induction os) simp_all

lemma associate_loop_skip: "list_all (\<lambda>o1. optcode o1 \<noteq> MO_Uri_Query) os \<Longrightarrow> associate_loop (os @ os') b = associate_loop os' b"
  by (induction os) simp_all

lemma query_val:
  assumes "wf_option o1" "opt_pair o1 = (MO_Uri_Query, p @ show_ld n)" "0 \<notin> set p"
  shows "optcode o1 = MO_Uri_Query" "cstr (OPTVAL o1) = Some (p @ show_ld n)"
  using OPTVAL_string [OF assms(1)] assms(2,3) query_string [of p n] by (auto simp: opt_pair_def)

lemma prefix_bytes: "0 \<notin> set (bytes ''slave='')" "0 \<notin> set (bytes ''mtu='')" "0 \<notin> set (bytes ''ttl='')" "0 \<notin> set (bytes ''hello='')"
  by simp_all

lemma discover_loop_val:
  assumes "wf_option o1" "wf_option o2" "opt_pair o1 = (MO_Uri_Query, bytes ''slave='' @ show_ld sid)"
    "opt_pair o2 = (MO_Uri_Query, bytes ''mtu='' @ show_ld mtu)" "in_long sid" "in_long mtu"
  shows "discover_loop [o1, o2] s t = Some (sid, int32 mtu)"
  using query_val [OF assms(1,3) prefix_bytes(1)] query_val [OF assms(2,4) prefix_bytes(2)] read_query [OF assms(5), of "bytes ''slave=''"]
    read_query [OF assms(6), of "bytes ''mtu=''"] other_query [of "bytes ''slave=''" "bytes ''mtu=''" 64 "show_ld mtu"]
  by simp

lemma associate_loop_val:
  assumes "wf_option o1" "wf_option o2" "opt_pair o1 = (MO_Uri_Query, bytes ''ttl='' @ show_ld ttl)"
    "opt_pair o2 = (MO_Uri_Query, bytes ''mtu='' @ show_ld mtu)" "in_long ttl" "in_long mtu"
  shows "associate_loop [o1, o2] b = Some True"
  using query_val [OF assms(1,3) prefix_bytes(3)] query_val [OF assms(2,4) prefix_bytes(2)] read_query [OF assms(5), of "bytes ''ttl=''"]
    read_query [OF assms(6), of "bytes ''mtu=''"] other_query [of "bytes ''ttl=''" "bytes ''mtu=''" 64 "show_ld mtu"]
  by simp

lemma path_then_queries:
  assumes "list_all wf_option os" "map opt_pair os = path_options @ [(MO_Uri_Query, a), (MO_Uri_Query, b)]"
  shows "\<exists>p1 p2 q1 q2. os = [p1, p2] @ [q1, q2] \<and> list_all (\<lambda>o1. optcode o1 \<noteq> MO_Uri_Query) [p1, p2] \<and>
    opt_pair q1 = (MO_Uri_Query, a) \<and> opt_pair q2 = (MO_Uri_Query, b) \<and> wf_option q1 \<and> wf_option q2"
proof -
  obtain p1 p2 q1 q2 where "os = [p1, p2, q1, q2]" "map opt_pair [p1, p2, q1, q2] = path_options @ [(MO_Uri_Query, a), (MO_Uri_Query, b)]"
    using assms(2) by (auto simp: path_options_def master_namespace_def)
  then show ?thesis using assms(1) by (auto simp: path_options_def master_namespace_def opt_pair_def)
qed

lemma is_discover_val:
  assumes "list_all wf_option (opts m)" "mty m = MT_NON" "mcd m = MC_POST" "in_long sid" "in_long mtu"
    "map opt_pair (opts m) = path_options @ [(MO_Uri_Query, bytes ''slave='' @ show_ld sid), (MO_Uri_Query, bytes ''mtu='' @ show_ld mtu)]"
  shows "is_casan_discover m = Some (let m = (if sid > 0 \<and> int32 mtu \<ge> 0 then m\<lparr>ctype := CASAN_DISCOVER\<rparr> else m) in
    (ctype m = CASAN_DISCOVER, sid, int32 mtu, m))"
proof -
  obtain p1 p2 q1 q2 where os: "opts m = [p1, p2] @ [q1, q2]" "list_all (\<lambda>o1. optcode o1 \<noteq> MO_Uri_Query) [p1, p2]"
    "opt_pair q1 = (MO_Uri_Query, bytes ''slave='' @ show_ld sid)" "opt_pair q2 = (MO_Uri_Query, bytes ''mtu='' @ show_ld mtu)"
    "wf_option q1" "wf_option q2"
    using path_then_queries [OF assms(1,6)] by blast
  have "discover_loop (opts m) 0 0 = Some (sid, int32 mtu)"
    unfolding os(1) discover_loop_skip [OF os(2)] using os assms by (intro discover_loop_val)
  then show ?thesis
    using ctl_msg_val [OF assms(1,6)] assms(2,3) by (simp add: is_casan_discover_def Let_def)
qed

lemma is_associate_val:
  assumes "list_all wf_option (opts m)" "mty m = MT_CON" "mcd m = MC_POST" "in_long ttl" "in_long mtu" "ctype m = CASAN_UNKNOWN"
    "map opt_pair (opts m) = path_options @ [(MO_Uri_Query, bytes ''ttl='' @ show_ld ttl), (MO_Uri_Query, bytes ''mtu='' @ show_ld mtu)]"
  shows "casan_type_alone m = Some (CASAN_ASSOC_REQUEST, m\<lparr>ctype := CASAN_ASSOC_REQUEST\<rparr>)"
proof -
  obtain p1 p2 q1 q2 where os: "opts m = [p1, p2] @ [q1, q2]" "list_all (\<lambda>o1. optcode o1 \<noteq> MO_Uri_Query) [p1, p2]"
    "opt_pair q1 = (MO_Uri_Query, bytes ''ttl='' @ show_ld ttl)" "opt_pair q2 = (MO_Uri_Query, bytes ''mtu='' @ show_ld mtu)"
    "wf_option q1" "wf_option q2"
    using path_then_queries [OF assms(1,7)] by blast
  have "associate_loop (opts m) False = Some True"
    unfolding os(1) associate_loop_skip [OF os(2)] using os assms by (intro associate_loop_val)
  then show ?thesis
    using ctl_msg_val [OF assms(1,7)] assms(2,3,6)
    by (simp add: casan_type_alone_def is_casan_discover_def is_casan_associate_def Let_def)
qed

section \<open>Building control messages\<close>

lemma push_value:
  assumes "code_known c" "len_allowed c (int (length v))"
  shows "\<exists>o1. (do { o1 \<leftarrow> master_option_opaque c v (int (length v)); pushoption o1 m }) = Some (m\<lparr>opts := opts m @ [o1]\<rparr>) \<and>
    wf_option o1 \<and> opt_pair o1 = (c, v)"
  using master_option_opaque_val [OF assms, of v] pushoption_val [of _ m] by (fastforce simp: opt_pair_def)

lemma path_and_query_known: "code_known MO_Uri_Path" "code_known MO_Uri_Query"
  by code_simp+

lemma path_and_query_len: "n \<le> 255 \<Longrightarrow> len_allowed MO_Uri_Path (int n)" "n \<le> 255 \<Longrightarrow> len_allowed MO_Uri_Query (int n)"
  by (simp_all add: len_allowed_def master_optdesc_def)

lemma add_path_val:
  "\<exists>os. add_path_ctl m = Some (m\<lparr>opts := opts m @ os\<rparr>) \<and> list_all wf_option os \<and> map opt_pair os = path_options"
proof -
  obtain o1 where 1: "(do { o1 \<leftarrow> master_option_opaque MO_Uri_Path (bytes ''.well-known'') (int (length (bytes ''.well-known''))); pushoption o1 m }) =
      Some (m\<lparr>opts := opts m @ [o1]\<rparr>)" "wf_option o1" "opt_pair o1 = (MO_Uri_Path, bytes ''.well-known'')"
    using push_value [OF path_and_query_known(1) path_and_query_len(1), of "bytes ''.well-known''" m] by auto
  obtain o2 where 2: "(do { o2 \<leftarrow> master_option_opaque MO_Uri_Path (bytes ''casan'') (int (length (bytes ''casan''))); pushoption o2 (m\<lparr>opts := opts m @ [o1]\<rparr>) }) =
      Some (m\<lparr>opts := opts m @ [o1, o2]\<rparr>)" "wf_option o2" "opt_pair o2 = (MO_Uri_Path, bytes ''casan'')"
    using push_value [OF path_and_query_known(1) path_and_query_len(1), of "bytes ''casan''" "m\<lparr>opts := opts m @ [o1]\<rparr>"] by auto
  show ?thesis
    using 1 2 by (intro exI [of _ "[o1, o2]"])
      (auto simp: add_path_ctl_def master_namespace_def path_options_def bind_eq_Some_conv simp del: bytes_simps length_bytes)
qed

section \<open>Receiving and the round trip\<close>

lemma master_recv_val:
  fixes p :: "u8 list" and code :: u8 and mi :: u16
  assumes "length tk < 8" "t AND 3 = t" "ascending 0 os" "list_all (\<lambda>cv. sound_len (length (snd cv))) os" "length (tok m0) = 8"
    "k = PK_ME \<or> k = PK_BCAST"
  defines "f \<equiv> header_frame t code mi tk @ opts_frame 0 os @ payload_frame p"
  shows "\<exists>m. master_recv (k, f @ junk, int (length f), a) m0 = Some (Some a, m) \<and> mty m = ty_of t \<and> mcd m = uint code \<and>
    ident m = uint mi \<and> master_tok m = tk \<and> master_pay m = p \<and> ctype m = CASAN_UNKNOWN \<and> pkt m = k \<and> reqrep m = None \<and>
    plen m = int (length p) \<and> (p \<noteq> [] \<longrightarrow> pload m = Some (p @ [0])) \<and> list_all wf_option (opts m) \<and> map opt_pair (opts m) = os"
proof -
  define m1 where "m1 = (RESET_VALUES (m0\<lparr>opts := []\<rparr>))\<lparr>bin := Some (f @ junk), pkt := k, binlen := int (length f)\<rparr>"
  have m1: "length (tok m1) = 8" "opts m1 = []" "ctype m1 = CASAN_UNKNOWN" "pkt m1 = k" "reqrep m1 = None" using assms(5) by (simp_all add: m1_def RESET_VALUES_def)
  obtain ol tv where d: "master_coap_decode (f @ junk) (int (length f)) m1 = Some (True,
      m1\<lparr>mty := ty_of t, tlen := int (length tk), mcd := uint code, ident := uint mi, tok := tv, opts := ol,
        plen := int (length p), pload := (if p = [] then pload m1 else Some (p @ [0]))\<rparr>)"
    "list_all wf_option ol" "map opt_pair ol = os" "take (length tk) tv = tk"
    using master_decode_val [OF assms(1-4) m1(1,2), where code = code and mi = mi and p = p and junk = junk] unfolding f_def by blast
  define m where "m = m1\<lparr>mty := ty_of t, tlen := int (length tk), mcd := uint code, ident := uint mi, tok := tv, opts := ol,
        plen := int (length p), pload := (if p = [] then pload m1 else Some (p @ [0]))\<rparr>"
  have "master_recv (k, f @ junk, int (length f), a) m0 = Some (Some a, m)"
    using d(1) assms(6) unfolding m_def [symmetric] by (simp add: master_recv_def m1_def [symmetric] Let_def)
  moreover have "master_pay m = p" by (auto simp: master_pay_def m_def)
  ultimately show ?thesis using d(2-4) m1 by (intro exI [of _ m]) (simp add: m_def master_tok_def)
qed

lemma ty_byte_mask: "ty_byte t AND 3 = ty_byte t" "ty_of (ty_byte t) = t"
  using ty_byte_and [of t] ty_of_byte [of t] by simp_all


text \<open>A reply with a token, two options in the wrong order and a payload.\<close>

definition sample_reply :: master_msg where
  "sample_reply = master_msg_new\<lparr>mty := MT_ACK, mcd := 0x45, tok := [1, 2, 3, 0, 0, 0, 0, 0], tlen := 3, ident := 77,
     opts := [option_new\<lparr>optcode := MO_Max_Age, optlen := 1, staticval := [60, 0, 0, 0, 0, 0, 0, 0, 0]\<rparr>,
              option_new\<lparr>optcode := MO_Content_Format, optlen := 0\<rparr>], pload := Some [50, 49, 0], plen := 2\<rparr>"


end
