(* ===== verification/Master_Resource.thy ===== *)
theory Master_Resource
  imports Master_Msg_Laws
begin

text \<open>
  Resources as the master sees them: \<open>c-master/casan/resource.cc\<close>, the paths of \<open>utils.cc\<close> and
  \<open>slave::parse_resource_list\<close> of \<open>slave.cc\<close>. Strings are lists of bytes. \<open>None\<close> is an access outside an
  array, \<open>back\<close> of an empty vector, or an exception that ends the process.
\<close>

section \<open>Paths\<close>

text \<open>\<open>s_middle\<close> is the flag; the last component is under construction.\<close>

fun split_loop :: "bool \<Rightarrow> u8 list list \<Rightarrow> u8 list \<Rightarrow> u8 list list" where
  "split_loop middle v [] = v"
| "split_loop False v (c # cs) = (if c \<noteq> 47 then split_loop True (v @ [[c]]) cs else split_loop False v cs)"
| "split_loop True v (c # cs) = (if c \<noteq> 47 then split_loop True (butlast v @ [last v @ [c]]) cs else split_loop False v cs)"

definition split_path :: "u8 list \<Rightarrow> u8 list list" where
  "split_path path = split_loop False [] path"

definition join_path :: "u8 list list \<Rightarrow> u8 list" where
  "join_path vpath = (if vpath = [] then [47] else concat (map (\<lambda>c. 47 # c) vpath))"

section \<open>Resources\<close>

record master_resource =
  vpath :: "u8 list list"
  pathopt :: "coap_option list"
  attributes :: "(u8 list \<times> u8 list list) list"

fun path_options_of :: "u8 list list \<Rightarrow> coap_option list option" where
  "path_options_of [] = Some []"
| "path_options_of (p # ps) = do {
     o1 \<leftarrow> master_option_opaque MO_Uri_Path (p @ [0]) (int (length p));
     os \<leftarrow> path_options_of ps;
     Some (o1 # os)
   }"

definition resource_of_path :: "u8 list \<Rightarrow> master_resource option" where
  "resource_of_path path = do {
     let v = split_path path;
     os \<leftarrow> path_options_of v;
     Some \<lparr>vpath = v, pathopt = os, attributes = []\<rparr>
   }"

definition resource_eq_vpath :: "master_resource \<Rightarrow> u8 list list \<Rightarrow> bool" where
  "resource_eq_vpath r v \<longleftrightarrow> length v = length (vpath r) \<and> (\<forall>i < length v. v ! i = vpath r ! i)"

definition resource_eq_path :: "master_resource \<Rightarrow> u8 list \<Rightarrow> bool" where
  "resource_eq_path r path \<longleftrightarrow> resource_eq_vpath r (split_path path)"

fun options_eq_loop :: "coap_option list \<Rightarrow> coap_option list \<Rightarrow> bool option" where
  "options_eq_loop (a # as) (b # bs) = do { eq \<leftarrow> master_option_eq a b; if eq then options_eq_loop as bs else Some False }"
| "options_eq_loop _ _ = Some True"

definition resource_eq_pathopt :: "master_resource \<Rightarrow> coap_option list \<Rightarrow> bool option" where
  "resource_eq_pathopt r os = (if length (pathopt r) = length os then options_eq_loop (pathopt r) os else Some False)"

definition attribute_of :: "u8 list \<Rightarrow> master_resource \<Rightarrow> u8 list list option" where
  "attribute_of name r = map_of (attributes r) name"

fun add_value :: "u8 list \<Rightarrow> u8 list \<Rightarrow> (u8 list \<times> u8 list list) list \<Rightarrow> (u8 list \<times> u8 list list) list" where
  "add_value name v [] = [(name, [v])]"
| "add_value name v ((n, vs) # as) = (if n = name then (n, vs @ [v]) # as else (n, vs) # add_value name v as)"

definition add_attribute :: "u8 list \<Rightarrow> u8 list \<Rightarrow> master_resource \<Rightarrow> master_resource" where
  "add_attribute name v r = r\<lparr>attributes := add_value name v (attributes r)\<rparr>"

fun add_options :: "coap_option list \<Rightarrow> master_msg \<Rightarrow> master_msg option" where
  "add_options [] m = Some m"
| "add_options (o1 # os) m = do { m \<leftarrow> pushoption o1 m; add_options os m }"

definition add_to_message :: "master_resource \<Rightarrow> master_msg \<Rightarrow> master_msg option" where
  "add_to_message r m = add_options (pathopt r) m"

text \<open>\<open>operator<<\<close>, from which the list for HTTP clients is made.\<close>

definition show_resource :: "master_resource \<Rightarrow> u8 list" where
  "show_resource r = join_path (vpath r) @
     concat (map (\<lambda>(name, vs). concat (map (\<lambda>v. [59] @ name @ [61, 34] @ v @ [34]) vs)) (attributes r)) @ [10]"

section \<open>The resource list of a slave\<close>

datatype plist_state = S_start | S_resource | S_endres | S_attrname | S_attrval_start | S_attrval_nquoted | S_attrval_quoted | S_error

record plist =
  pstate :: plist_state
  current :: "u8 list"
  attrname :: "u8 list"
  rlist :: "master_resource list"

text \<open>\<open>rlist.back ().add_attribute\<close>; \<open>back\<close> of an empty vector is undefined.\<close>

definition back_attribute :: "u8 list \<Rightarrow> u8 list \<Rightarrow> plist \<Rightarrow> plist option" where
  "back_attribute name v p =
     (if rlist p = [] then None else Some (p\<lparr>rlist := butlast (rlist p) @ [add_attribute name v (last (rlist p))]\<rparr>))"

definition parse_step :: "u8 \<Rightarrow> plist \<Rightarrow> plist option" where
  "parse_step b p = (case pstate p of
     S_start \<Rightarrow> Some (if b = 60 then p\<lparr>current := [], pstate := S_resource\<rparr> else p\<lparr>pstate := S_error\<rparr>)
   | S_resource \<Rightarrow>
       if b = 62 then do {
         r \<leftarrow> resource_of_path (current p);
         Some (p\<lparr>rlist := rlist p @ [r], pstate := S_endres\<rparr>)
       } else Some (p\<lparr>current := current p @ [b]\<rparr>)
   | S_endres \<Rightarrow>
       let p = p\<lparr>attrname := []\<rparr> in
       Some (p\<lparr>pstate := (if b = 59 then S_attrname else if b = 44 then S_start else S_error)\<rparr>)
   | S_attrname \<Rightarrow>
       if b = 61 then Some (p\<lparr>pstate := (if attrname p = [] then S_error else S_attrval_start)\<rparr>)
       else if b = 59 then do { p \<leftarrow> back_attribute (attrname p) [] p; Some (p\<lparr>attrname := [], pstate := S_attrname\<rparr>) }
       else if b = 44 then do { p \<leftarrow> back_attribute (attrname p) [] p; Some (p\<lparr>pstate := S_start\<rparr>) }
       else Some (p\<lparr>attrname := attrname p @ [b]\<rparr>)
   | S_attrval_start \<Rightarrow>
       let p = p\<lparr>current := []\<rparr> in
       if b = 34 then Some (p\<lparr>pstate := S_attrval_quoted\<rparr>)
       else if b = 44 then do { p \<leftarrow> back_attribute (attrname p) [] p; Some (p\<lparr>pstate := S_start\<rparr>) }
       else if b = 59 then do { p \<leftarrow> back_attribute (attrname p) [] p; Some (p\<lparr>attrname := [], pstate := S_attrname\<rparr>) }
       else Some (p\<lparr>pstate := S_attrval_nquoted, current := current p @ [b]\<rparr>)
   | S_attrval_quoted \<Rightarrow>
       if b = 34 then do { p \<leftarrow> back_attribute (attrname p) (current p) p; Some (p\<lparr>pstate := S_endres\<rparr>) }
       else Some (p\<lparr>current := current p @ [b]\<rparr>)
   | S_attrval_nquoted \<Rightarrow>
       if b = 44 then do { p \<leftarrow> back_attribute (attrname p) (current p) p; Some (p\<lparr>pstate := S_start\<rparr>) }
       else if b = 59 then do { p \<leftarrow> back_attribute (attrname p) (current p) p; Some (p\<lparr>attrname := [], pstate := S_attrname\<rparr>) }
       else Some (p\<lparr>current := current p @ [b]\<rparr>)
   | S_error \<Rightarrow> Some (p\<lparr>pstate := S_error\<rparr>))"

fun parse_loop :: "u8 list \<Rightarrow> plist \<Rightarrow> plist option" where
  "parse_loop [] p = Some p"
| "parse_loop (b # bs) p = do { p \<leftarrow> parse_step b p; parse_loop bs p }"

definition parse_end :: "plist \<Rightarrow> plist option" where
  "parse_end p = (case pstate p of
     S_start \<Rightarrow> Some p
   | S_endres \<Rightarrow> Some p
   | S_attrname \<Rightarrow> if attrname p = [] then back_attribute (attrname p) [] p else Some p
   | S_attrval_start \<Rightarrow> back_attribute (attrname p) [] p
   | S_attrval_nquoted \<Rightarrow> back_attribute (attrname p) (current p) p
   | _ \<Rightarrow> Some (p\<lparr>pstate := S_error\<rparr>))"

text \<open>The caller's list, the result.\<close>

definition parse_resource_list :: "u8 list \<Rightarrow> (bool \<times> master_resource list) option" where
  "parse_resource_list b = do {
     p \<leftarrow> parse_loop b \<lparr>pstate = S_start, current = [], attrname = [], rlist = []\<rparr>;
     p \<leftarrow> parse_end p;
     Some (pstate p \<noteq> S_error, rlist p)
   }"

section \<open>Paths: laws\<close>

definition component :: "u8 list \<Rightarrow> bool" where
  "component c \<longleftrightarrow> c \<noteq> [] \<and> 47 \<notin> set c"

lemma split_component: "47 \<notin> set c \<Longrightarrow> split_loop True (v @ [w]) (c @ s) = split_loop True (v @ [w @ c]) s"
  by (induction c arbitrary: w) auto

lemma split_component_start: "component c \<Longrightarrow> split_loop False v (c @ s) = split_loop True (v @ [c]) s"
  using split_component [of "tl c" v "[hd c]" s] by (cases c) (auto simp: component_def)

lemma split_join:
  assumes "list_all component ps"
  shows "split_path (join_path ps) = ps"
proof -
  have "split_loop b v (concat (map (\<lambda>c. 47 # c) ps)) = v @ ps" for b v
    using assms
  proof (induction ps arbitrary: b v)
    case (Cons p ps)
    then show ?case using split_component_start [of p v "concat (map (\<lambda>c. 47 # c) ps)"] by (cases b) simp_all
  qed simp
  then show ?thesis by (simp add: split_path_def join_path_def)
qed

lemma split_loop_components: "list_all component v \<Longrightarrow> (middle \<Longrightarrow> v \<noteq> []) \<Longrightarrow> list_all component (split_loop middle v s)"
proof (induction middle v s rule: split_loop.induct)
  case (3 v c cs)
  then have "list_all component (butlast v)" "component (last v)" by (auto simp: list_all_iff dest: in_set_butlastD)
  moreover have "c \<noteq> 47 \<Longrightarrow> component (last v @ [c])" using 3 calculation(2) by (simp add: component_def)
  ultimately show ?case using 3 by simp
qed (auto simp: component_def)

lemma split_path_components: "list_all component (split_path s)"
  using split_loop_components [of "[]" False s] by (simp add: split_path_def)

section \<open>Parsing is safe\<close>

text \<open>Behind the first resource there is always a resource that the attributes belong to.\<close>

definition parse_inv :: "plist \<Rightarrow> bool" where
  "parse_inv p \<longleftrightarrow> (pstate p \<in> {S_endres, S_attrname, S_attrval_start, S_attrval_nquoted, S_attrval_quoted} \<longrightarrow> rlist p \<noteq> [])"

lemma path_options_fail: "path_options_of ps = None \<longleftrightarrow> (\<exists>p \<in> set ps. 255 < length p)"
proof (induction ps)
  case (Cons p ps)
  have "master_option_opaque MO_Uri_Path (p @ [0]) (int (length p)) = None \<longleftrightarrow> 255 < length p"
  proof (cases "255 < length p")
    case True
    then show ?thesis by (simp add: master_option_opaque_def len_allowed_def master_optdesc_def)
  next
    case False
    then show ?thesis using master_option_opaque_val [OF path_and_query_known(1) path_and_query_len(1), of "length p" "p @ [0]"] by auto
  qed
  then show ?case using Cons by (auto simp: bind_eq_None_conv)
qed simp

lemma resource_of_path_fail: "resource_of_path s = None \<longleftrightarrow> (\<exists>p \<in> set (split_path s). 255 < length p)"
  by (simp add: resource_of_path_def bind_eq_None_conv path_options_fail Let_def)

lemma parse_step_inv:
  assumes "parse_inv p"
  shows "(parse_step b p = None \<longleftrightarrow> pstate p = S_resource \<and> b = 62 \<and> resource_of_path (current p) = None) \<and>
    (\<forall>p'. parse_step b p = Some p' \<longrightarrow> parse_inv p')"
  using assms
  by (cases "pstate p") (auto simp: parse_step_def parse_inv_def back_attribute_def bind_eq_None_conv bind_eq_Some_conv Let_def)

lemma parse_end_inv: "parse_inv p \<Longrightarrow> \<exists>p'. parse_end p = Some p'"
  by (cases "pstate p") (auto simp: parse_end_def parse_inv_def back_attribute_def)

lemma split_loop_length:
  "c \<in> set (split_loop middle v s) \<Longrightarrow> (\<And>x. x \<in> set v \<Longrightarrow> length x \<le> n) \<Longrightarrow> (middle \<Longrightarrow> v \<noteq> []) \<Longrightarrow> length c \<le> n + length s"
proof (induction middle v s arbitrary: n rule: split_loop.induct)
  case (1 middle v)
  then show ?case by auto
next
  case (2 v x xs)
  show ?case
  proof (cases "x = 47")
    case False
    then have "length c \<le> Suc n + length xs" using 2 by (intro "2.IH"(1)) (auto intro: le_SucI)
    then show ?thesis by simp
  next
    case True
    then have "length c \<le> n + length xs" using 2 by (intro "2.IH"(2)) auto
    then show ?thesis by simp
  qed
next
  case (3 v x xs)
  then have v: "length (last v) \<le> n" "\<And>y. y \<in> set (butlast v) \<Longrightarrow> length y \<le> n" by (auto dest: in_set_butlastD)
  show ?case
  proof (cases "x = 47")
    case False
    then have "length c \<le> Suc n + length xs" using 3 v by (intro "3.IH"(1)) (auto intro: le_SucI)
    then show ?thesis by simp
  next
    case True
    then have "length c \<le> n + length xs" using 3 by (intro "3.IH"(2)) auto
    then show ?thesis by simp
  qed
qed

lemma split_path_length: "c \<in> set (split_path s) \<Longrightarrow> length c \<le> length s"
  using split_loop_length [of c False "[]" s 0] by (simp add: split_path_def)

lemma parse_step_current:
  "parse_step b p = Some p' \<Longrightarrow> (pstate p = S_resource \<longrightarrow> Suc (length (current p)) \<le> k) \<Longrightarrow> pstate p' = S_resource \<longrightarrow> Suc (length (current p')) \<le> Suc k"
  by (cases "pstate p") (auto simp: parse_step_def back_attribute_def bind_eq_Some_conv Let_def split: if_splits)

lemma parse_loop_safe:
  "parse_inv p \<Longrightarrow> (pstate p = S_resource \<longrightarrow> Suc (length (current p)) \<le> k) \<Longrightarrow> k + length bs \<le> 257 \<Longrightarrow>
    \<exists>p'. parse_loop bs p = Some p' \<and> parse_inv p'"
proof (induction bs arbitrary: p k)
  case (Cons b bs)
  have "parse_step b p \<noteq> None"
  proof
    assume "parse_step b p = None"
    then have "pstate p = S_resource" "\<exists>c \<in> set (split_path (current p)). 255 < length c"
      using parse_step_inv [OF Cons.prems(1)] by (auto simp: resource_of_path_fail)
    then show False using split_path_length [of _ "current p"] Cons.prems(2,3) by fastforce
  qed
  then obtain p1 where p1: "parse_step b p = Some p1" by blast
  then have "\<exists>p'. parse_loop bs p1 = Some p' \<and> parse_inv p'"
    using parse_step_inv [OF Cons.prems(1)] parse_step_current [OF p1 Cons.prems(2)] Cons.prems(3)
    by (intro Cons.IH [of p1 "Suc k"]) auto
  then show ?case using p1 by simp
qed simp

lemma parse_resource_chars:
  "62 \<notin> set s \<Longrightarrow> pstate p = S_resource \<Longrightarrow> parse_loop (s @ bs) p = parse_loop bs (p\<lparr>current := current p @ s\<rparr>)"
proof (induction s arbitrary: p)
  case (Cons c s)
  then have "parse_step c p = Some (p\<lparr>current := current p @ [c]\<rparr>)" by (simp add: parse_step_def)
  then show ?case using Cons.IH [of "p\<lparr>current := current p @ [c]\<rparr>"] Cons.prems by simp
qed simp



end
