(* ===== verification/Interop.thy ===== *)
theory Interop
  imports Slave_Announce Master_Resource
begin

text \<open>
  The Arduino slave and the C++ master against each other: the frames and texts that one of them
  writes, read by the other one. The announcement of a slave, the association the master answers with
  and the list of resources in the reply to it.
\<close>

section \<open>The announcement\<close>

lemma payload_frame_Nil: "payload_frame [] = []"
  by (simp add: payload_frame_def)

lemma discover_sound:
  assumes "length (show_ld sid) < 7" "length (show_ld mtu) \<le> 6"
  shows "ascending 0 (discover_options sid mtu)" "list_all (\<lambda>cv. sound_len (length (snd cv))) (discover_options sid mtu)"
  using assms by (simp_all add: discover_options_def sound_len_def)

text \<open>
  The slave's announcement reaches the master: the bytes that \<open>send_discover\<close> of the slave hands to
  its network are, in the receive buffer of the master, a message that \<open>recv\<close> accepts and that
  \<open>is_casan_discover\<close> takes for a Discover with the slave id and the default MTU of the slave, whatever
  the buffer held before and behind the frame. The slave id has at most six digits.
\<close>
lemma discover_reaches_master:
  assumes c: "casan_base c" "0 < slaveid c" "slaveid c < 1000000" "length f \<le> maxpayload l2 (l2mtu c)"
    and f: "f = header_frame COAP_TYPE_NON COAP_CODE_POST (word_of_int (curid c)) [] @ opts_frame 0 (discover_options (slaveid c) (defmtu c))"
    and m0: "length (tok m0) = 8" and k: "k = PK_ME \<or> k = PK_BCAST"
  shows "(\<exists>c'. send_discover l2 c = Some c' \<and> sent c' = sent c @ [(case master c of Some a \<Rightarrow> a | None \<Rightarrow> bcastaddr l2, f)]) \<and>
    (\<exists>m m'. master_recv (k, f @ junk, int (length f), a) m0 = Some (Some a, m) \<and>
       is_casan_discover m = Some (True, slaveid c, defmtu c, m'))"
proof -
  have d: "0 \<le> defmtu c" "defmtu c < 32768" using c(1) by (auto simp: casan_base_def)
  have l: "length (show_ld (slaveid c)) < 7" 
    using c(2,3) length_dec_nat [of "nat (slaveid c)" 6] by (simp add: show_ld_def nat_less_iff)
  have l2: "length (show_ld (defmtu c)) \<le> 6" using d by (intro length_show_ld [of _ 5, simplified]) auto
  have f': "f = header_frame COAP_TYPE_NON COAP_CODE_POST (word_of_int (curid c)) [] @ opts_frame 0 (discover_options (slaveid c) (defmtu c)) @ payload_frame []"
    unfolding f payload_frame_Nil by simp
  obtain m where m: "master_recv (k, f @ junk, int (length f), a) m0 = Some (Some a, m)" "mty m = MT_NON" "mcd m = MC_POST"
    "list_all wf_option (opts m)" "map opt_pair (opts m) = discover_options (slaveid c) (defmtu c)"
    using master_recv_val [OF _ _ discover_sound [OF l l2] m0 k, of "[]" COAP_TYPE_NON COAP_CODE_POST "word_of_int (curid c)" "[]" junk a, folded f']
    by (auto simp: ty_of_def)
  have "int32 (defmtu c) = defmtu c" using d by (simp add: int32_def)
  then have "\<exists>m'. is_casan_discover m = Some (True, slaveid c, defmtu c, m')"
    using is_discover_val [OF m(4,2,3), of "slaveid c" "defmtu c"] m(5) c(2,3) d
    by (simp add: in_long_def discover_options_def path_options_def master_namespace_def Let_def)
  then show ?thesis using discover_announces [OF c(1,4) f] m(1) by blast
qed

section \<open>The association\<close>

definition assoc_options :: "int \<Rightarrow> int \<Rightarrow> (int \<times> u8 list) list" where
  "assoc_options ttl mtu = path_options @ [(MO_Uri_Query, bytes ''ttl='' @ show_ld ttl), (MO_Uri_Query, bytes ''mtu='' @ show_ld mtu)]"

subsection \<open>The master's side\<close>

lemma push_query_val:
  assumes "length v \<le> 255"
  shows "\<exists>o1. push_query v m = Some (m\<lparr>opts := opts m @ [o1]\<rparr>) \<and> wf_option o1 \<and> opt_pair o1 = (MO_Uri_Query, v)"
  unfolding push_query_def by (rule push_value [OF path_and_query_known(2) path_and_query_len(2) [OF assms]])

lemma mk_ctl_assoc_val:
  assumes "length (show_ld ttl) \<le> 200" "length (show_ld mtu) \<le> 200"
  shows "\<exists>os. mk_ctl_assoc ttl mtu m = Some (m\<lparr>opts := opts m @ os\<rparr>) \<and> list_all wf_option os \<and> map opt_pair os = assoc_options ttl mtu"
proof -
  obtain ps where ps: "add_path_ctl m = Some (m\<lparr>opts := opts m @ ps\<rparr>)" "list_all wf_option ps" "map opt_pair ps = path_options"
    using add_path_val by blast
  obtain o1 where 1: "push_query (bytes ''ttl='' @ show_ld ttl) (m\<lparr>opts := opts m @ ps\<rparr>) = Some (m\<lparr>opts := opts m @ ps @ [o1]\<rparr>)"
      "wf_option o1" "opt_pair o1 = (MO_Uri_Query, bytes ''ttl='' @ show_ld ttl)"
    using push_query_val [of "bytes ''ttl='' @ show_ld ttl" "m\<lparr>opts := opts m @ ps\<rparr>"] assms(1) by auto
  obtain o2 where 2: "push_query (bytes ''mtu='' @ show_ld mtu) (m\<lparr>opts := opts m @ ps @ [o1]\<rparr>) = Some (m\<lparr>opts := opts m @ ps @ [o1, o2]\<rparr>)"
      "wf_option o2" "opt_pair o2 = (MO_Uri_Query, bytes ''mtu='' @ show_ld mtu)"
    using push_query_val [of "bytes ''mtu='' @ show_ld mtu" "m\<lparr>opts := opts m @ ps @ [o1]\<rparr>"] assms(2) by auto
  show ?thesis
    using ps 1 2 by (intro exI [of _ "ps @ [o1, o2]"]) (simp add: mk_ctl_assoc_def assoc_options_def del: bytes_simps)
qed

lemma assoc_sound:
  assumes "length (show_ld ttl) \<le> 8" "length (show_ld mtu) \<le> 6"
  shows "ascending 0 (assoc_options ttl mtu)" "list_all (\<lambda>cv. sound_len (length (snd cv))) (assoc_options ttl mtu)"
  using assms by (simp_all add: assoc_options_def path_options_def master_namespace_def sound_len_def)

subsection \<open>The slave's side\<close>

lemma ctl_step:
  assumes "wf_option o1" "opt_pair o1 = (MO_Uri_Path, v)" "i < length casan_namespace"
  shows "ctl_loop i (o1 # os) = (if v = casan_namespace ! i then ctl_loop (i + 1) os else Some False)"
proof -
  have c: "optcode o1 = MO_Uri_Path" "opt_value o1 = v" using assms(2) by (auto simp: opt_pair_def)
  have l: "int (length v) = optlen o1"
    using assms(1) c(2) by (auto simp: opt_value_def wf_option_def OPTVAL_def split: option.splits)
  show ?thesis
  proof (cases "int (length (casan_namespace ! i)) = optlen o1")
    case True
    show ?thesis using memeq_value [OF assms(1) True] True assms(3) c by (auto simp del: length_bytes)
  next
    case False
    then show ?thesis using l c assms(3) by auto
  qed
qed

lemma ctl_skip: "list_all (\<lambda>o1. optcode o1 \<noteq> MO_Uri_Path) os \<Longrightarrow> ctl_loop i os = Some (i = length casan_namespace)"
  by (induction os) simp_all

lemma same_namespace: "casan_namespace = master_namespace"
  by (simp add: casan_namespace_def master_namespace_def)

lemma slave_ctl_val:
  assumes "list_all wf_option os" "map opt_pair os = path_options @ qs" "list_all (\<lambda>cv. fst cv \<noteq> MO_Uri_Path) qs"
  shows "ctl_loop 0 os = Some True"
proof -
  obtain o1 o2 os' where os: "os = o1 # o2 # os'" "opt_pair o1 = (MO_Uri_Path, bytes ''.well-known'')" "opt_pair o2 = (MO_Uri_Path, bytes ''casan'')"
    "map opt_pair os' = qs"
    using assms(2) by (auto simp: path_options_def master_namespace_def)
  have "list_all (\<lambda>o1. optcode o1 \<noteq> MO_Uri_Path) os'"
    using assms(3) unfolding os(4) [symmetric] by (auto simp: list_all_iff opt_pair_def)
  then show ?thesis
    using assms(1) os(1) ctl_step [OF _ os(2), of 0 "o2 # os'"] ctl_step [OF _ os(3), of 1 os']
    by (simp add: casan_namespace_def ctl_skip del: ctl_loop.simps)
qed

lemma assoc_skip: "list_all (\<lambda>o1. optcode o1 \<noteq> MO_Uri_Query) os \<Longrightarrow> assoc_loop (os @ os') b t u = assoc_loop os' b t u"
  by (induction os) simp_all

lemma read_query32:
  assumes "- (2 ^ 31) \<le> n" "n < 2 ^ 31"
  shows "sscanf_ld 32 p (p @ show_ld n) = Some (Some n)"
  using sscanf_show [of 32 n "[]" p] assms by simp

lemma slave_assoc_val:
  assumes "list_all wf_option os" "map opt_pair os = assoc_options ttl mtu" "0 \<le> ttl" "ttl < 2 ^ 31" "0 \<le> mtu" "mtu < 32768"
  shows "assoc_loop os False t0 None = Some (True, word_of_int ttl * 1000, Some mtu)"
proof -
  obtain p1 p2 q1 q2 where os: "os = [p1, p2] @ [q1, q2]" "list_all (\<lambda>o1. optcode o1 \<noteq> MO_Uri_Query) [p1, p2]"
    "opt_pair q1 = (MO_Uri_Query, bytes ''ttl='' @ show_ld ttl)" "opt_pair q2 = (MO_Uri_Query, bytes ''mtu='' @ show_ld mtu)"
    "wf_option q1" "wf_option q2"
    using path_then_queries [OF assms(1)] assms(2) unfolding assoc_options_def by blast
  have r: "sscanf_ld 32 (bytes ''ttl='') (bytes ''ttl='' @ show_ld ttl) = Some (Some ttl)"
    "sscanf_ld 32 (bytes ''mtu='') (bytes ''mtu='' @ show_ld mtu) = Some (Some mtu)"
    using assms(3-6) by (intro read_query32; simp)+
  have n: "sscanf_ld 32 (bytes ''ttl='') (bytes ''mtu='' @ show_ld mtu) = Some None" by (rule other_query) simp_all
  have i: "int16 mtu = mtu" using assms(5,6) by (simp add: int16_def)
  show ?thesis
    unfolding os(1) assoc_skip [OF os(2)]
    using query_val [OF os(5,3) prefix_bytes(3)] query_val [OF os(6,4) prefix_bytes(2)] r n i by simp
qed


lemma slave_recv_val:
  fixes code :: u8 and mi :: u16
  assumes "list_all wf_option os" "ascending 0 (map opt_pair os)" "list_all (\<lambda>o1. sound_len (length (opt_value o1))) os" "t AND 3 = t"
  defines "f \<equiv> header_frame t code mi [] @ opts_frame 0 (map opt_pair os)"
  shows "\<exists>m. msg_recv (RECV_OK, f @ junk, length f) m0 = Some (RECV_OK, m) \<and> mtype m = t \<and> mcode m = code \<and> mid m = mi \<and>
    list_all wf_option (optlist m) \<and> map opt_pair (optlist m) = map opt_pair os"
proof -
  define sm where "sm = msg_new\<lparr>mtype := t, mcode := code, mid := mi, optlist := os\<rparr>"
  have frame: "msg_frame sm = f"
    by (simp add: sm_def f_def msg_frame_def msg_new_def Token_new_def token_bytes_def msg_payload_def payload_frame_def)
  have pay: "msg_payload sm = []" by (simp add: sm_def msg_new_def msg_payload_def)
  have "wf_msg sm" using assms(1,2) by (simp add: sm_def wf_msg_def msg_new_def wf_token_def Token_new_def COAP_MAX_TOKLEN_def)
  then obtain ol tv where d: "coap_decode (f @ junk) (length f) False msg_new = Some (True,
      msg_new\<lparr>mtype := mtype sm AND 3, mcode := mcode sm, mid := mid sm, mtoken := \<lparr>toklen = toklen (mtoken sm), tokval = tv\<rparr>,
        optlist := ol, paylen := 0, payload := None\<rparr>)" "list_all wf_option ol" "map opt_pair ol = map opt_pair os"
    using coap_decode_val [of sm junk msg_new] assms(3) unfolding frame pay
    by (auto simp: sm_def msg_new_def Token_new_def)
  then show ?thesis
    using assms(4) by (simp add: msg_recv_def msg_reset_def sm_def)
qed

section \<open>The resource list\<close>

definition plain_resource :: "'w resource \<Rightarrow> bool" where
  "plain_resource r \<longleftrightarrow> 62 \<notin> set (res_name r) \<and> 34 \<notin> set (res_title r) \<and> 34 \<notin> set (res_rt r) \<and> length (res_name r) \<le> 255"

text \<open>What the master has stored for a resource; the attribute \<open>obs\<close> has the empty value.\<close>

definition master_view :: "bool \<Rightarrow> 'w resource \<Rightarrow> master_resource" where
  "master_view obs r = (the (resource_of_path (res_name r)))\<lparr>attributes := [(bytes ''title'', [res_title r]), (bytes ''rt'', [res_rt r])] @
     (if obs \<and> obs_trig r \<noteq> None then [(bytes ''obs'', [[]])] else [])\<rparr>"

fun master_views :: "bool \<Rightarrow> 'w resource list \<Rightarrow> master_resource list" where
  "master_views tr [] = []"
| "master_views tr [r] = [master_view tr r]"
| "master_views tr (r # rs) = master_view True r # master_views tr rs"

lemma parse_loop_append: "parse_loop (xs @ ys) p = do { p \<leftarrow> parse_loop xs p; parse_loop ys p }"
proof (induction xs arbitrary: p)
  case (Cons x xs)
  then show ?case by (cases "parse_step x p") simp_all
qed simp

lemma parse_name_chars:
  "61 \<notin> set s \<Longrightarrow> 59 \<notin> set s \<Longrightarrow> 44 \<notin> set s \<Longrightarrow> pstate p = S_attrname \<Longrightarrow> parse_loop s p = Some (p\<lparr>attrname := attrname p @ s\<rparr>)"
proof (induction s arbitrary: p)
  case (Cons c s)
  then have "parse_step c p = Some (p\<lparr>attrname := attrname p @ [c]\<rparr>)" by (simp add: parse_step_def)
  then show ?case using Cons.IH [of "p\<lparr>attrname := attrname p @ [c]\<rparr>"] Cons.prems by simp
qed simp

lemma parse_quoted_chars:
  "34 \<notin> set s \<Longrightarrow> pstate p = S_attrval_quoted \<Longrightarrow> parse_loop s p = Some (p\<lparr>current := current p @ s\<rparr>)"
proof (induction s arbitrary: p)
  case (Cons c s)
  then have "parse_step c p = Some (p\<lparr>current := current p @ [c]\<rparr>)" by (simp add: parse_step_def)
  then show ?case using Cons.IH [of "p\<lparr>current := current p @ [c]\<rparr>"] Cons.prems by simp
qed simp

text \<open>\<open>;name="value"\<close> behind a resource.\<close>

lemma parse_attribute:
  assumes "61 \<notin> set n" "59 \<notin> set n" "44 \<notin> set n" "n \<noteq> []" "34 \<notin> set v"
  shows "parse_loop (59 # n @ [61, 34] @ v @ [34]) \<lparr>pstate = S_endres, current = c, attrname = a, rlist = rs @ [r]\<rparr> =
    Some \<lparr>pstate = S_endres, current = v, attrname = n, rlist = rs @ [add_attribute n v r]\<rparr>"
proof -
  define p1 where "p1 = \<lparr>pstate = S_attrname, current = c, attrname = [], rlist = rs @ [r]\<rparr>"
  define p2 where "p2 = \<lparr>pstate = S_attrname, current = c, attrname = n, rlist = rs @ [r]\<rparr>"
  define p3 where "p3 = \<lparr>pstate = S_attrval_quoted, current = [], attrname = n, rlist = rs @ [r]\<rparr>"
  define p4 where "p4 = \<lparr>pstate = S_attrval_quoted, current = v, attrname = n, rlist = rs @ [r]\<rparr>"
  have 1: "parse_loop [59] \<lparr>pstate = S_endres, current = c, attrname = a, rlist = rs @ [r]\<rparr> = Some p1" by (simp add: parse_step_def p1_def)
  have 2: "parse_loop n p1 = Some p2" using assms(1-3) by (subst parse_name_chars) (simp_all add: p1_def p2_def)
  have 3: "parse_loop [61, 34] p2 = Some p3" using assms(4) by (simp add: parse_step_def p2_def p3_def)
  have 4: "parse_loop v p3 = Some p4" using assms(5) by (subst parse_quoted_chars) (simp_all add: p3_def p4_def)
  have 5: "parse_loop [34] p4 = Some \<lparr>pstate = S_endres, current = v, attrname = n, rlist = rs @ [add_attribute n v r]\<rparr>"
    by (simp add: parse_step_def p4_def back_attribute_def)
  have "59 # n @ [61, 34] @ v @ [34] = [59] @ n @ [61, 34] @ v @ [34]" by simp
  then show ?thesis by (simp only: parse_loop_append 1 2 3 4 5 bind.bind_lunit)
qed

definition obs_state :: "'w resource \<Rightarrow> plist_state" where
  "obs_state r = (if obs_trig r = None then S_endres else S_attrname)"

definition obs_name :: "'w resource \<Rightarrow> u8 list" where
  "obs_name r = (if obs_trig r = None then bytes ''rt'' else bytes ''obs'')"

lemma plain_path: "plain_resource r \<Longrightarrow> \<exists>q. resource_of_path (res_name r) = Some q \<and> attributes q = []"
  using split_path_length [of _ "res_name r"]
  by (cases "resource_of_path (res_name r)") (force simp: resource_of_path_fail plain_resource_def, auto simp: resource_of_path_def bind_eq_Some_conv Let_def)

text \<open>One resource.\<close>

lemma parse_resource:
  assumes "plain_resource r"
  shows "parse_loop (well_known_text r) \<lparr>pstate = S_start, current = c, attrname = a, rlist = rs\<rparr> =
    Some \<lparr>pstate = obs_state r, current = res_rt r, attrname = obs_name r, rlist = rs @ [master_view False r]\<rparr>"
proof -
  obtain q where q: "resource_of_path (res_name r) = Some q" "attributes q = []" using plain_path [OF assms] by blast
  define q1 where "q1 = add_attribute (bytes ''title'') (res_title r) q"
  define q2 where "q2 = add_attribute (bytes ''rt'') (res_rt r) q1"
  have q2: "q2 = master_view False r"
    using q by (simp add: q2_def q1_def add_attribute_def master_view_def)
  have tx: "well_known_text r = (60 # res_name r) @ [62] @ (59 # bytes ''title'' @ [61, 34] @ res_title r @ [34]) @
      (59 # bytes ''rt'' @ [61, 34] @ res_rt r @ [34]) @ (if obs_trig r = None then [] else 59 # bytes ''obs'')"
    by (simp add: well_known_text_def)
  have 1: "parse_loop (60 # res_name r) \<lparr>pstate = S_start, current = c, attrname = a, rlist = rs\<rparr> =
      Some \<lparr>pstate = S_resource, current = res_name r, attrname = a, rlist = rs\<rparr>"
    using assms parse_resource_chars [of "res_name r" "\<lparr>pstate = S_resource, current = [], attrname = a, rlist = rs\<rparr>" "[]"]
    by (simp add: parse_step_def plain_resource_def)
  have 2: "parse_loop [62] \<lparr>pstate = S_resource, current = res_name r, attrname = a, rlist = rs\<rparr> =
      Some \<lparr>pstate = S_endres, current = res_name r, attrname = a, rlist = rs @ [q]\<rparr>"
    using q(1) by (simp add: parse_step_def)
  have 3: "parse_loop (59 # bytes ''title'' @ [61, 34] @ res_title r @ [34]) \<lparr>pstate = S_endres, current = res_name r, attrname = a, rlist = rs @ [q]\<rparr> =
      Some \<lparr>pstate = S_endres, current = res_title r, attrname = bytes ''title'', rlist = rs @ [q1]\<rparr>"
    unfolding q1_def using assms by (intro parse_attribute) (simp_all add: plain_resource_def)
  have 4: "parse_loop (59 # bytes ''rt'' @ [61, 34] @ res_rt r @ [34]) \<lparr>pstate = S_endres, current = res_title r, attrname = bytes ''title'', rlist = rs @ [q1]\<rparr> =
      Some \<lparr>pstate = S_endres, current = res_rt r, attrname = bytes ''rt'', rlist = rs @ [q2]\<rparr>"
    unfolding q2_def using assms by (intro parse_attribute) (simp_all add: plain_resource_def)
  have 5: "parse_loop (if obs_trig r = None then [] else 59 # bytes ''obs'') \<lparr>pstate = S_endres, current = res_rt r, attrname = bytes ''rt'', rlist = rs @ [q2]\<rparr> =
      Some \<lparr>pstate = obs_state r, current = res_rt r, attrname = obs_name r, rlist = rs @ [q2]\<rparr>"
    using parse_name_chars [of "bytes ''obs''" "\<lparr>pstate = S_attrname, current = res_rt r, attrname = [], rlist = rs @ [q2]\<rparr>"]
    by (simp add: parse_step_def [of 59] obs_state_def obs_name_def)
  show ?thesis unfolding tx parse_loop_append 1 2 3 4 5 bind.bind_lunit unfolding q2 ..
qed

lemma parse_comma:
  assumes "plain_resource r"
  shows "parse_loop [44] \<lparr>pstate = obs_state r, current = c, attrname = obs_name r, rlist = rs @ [master_view False r]\<rparr> =
    Some \<lparr>pstate = S_start, current = c, attrname = (if obs_trig r = None then [] else bytes ''obs''), rlist = rs @ [master_view True r]\<rparr>"
  by (simp add: parse_step_def obs_state_def obs_name_def back_attribute_def master_view_def add_attribute_def)

text \<open>The text of several resources, separated by commas, without and with one behind the last.\<close>

fun list_text :: "'w resource list \<Rightarrow> u8 list" where
  "list_text [] = []"
| "list_text [r] = well_known_text r"
| "list_text (r # rs) = well_known_text r @ 44 # list_text rs"

lemma well_known_nonempty: "well_known_text r \<noteq> []"
  by (simp add: well_known_text_def)

lemma add_text_nonempty: "acc \<noteq> [] \<Longrightarrow> add_text acc t = acc @ 44 # t"
  by (simp add: add_text_def)

lemma list_text_Cons: "rs \<noteq> [] \<Longrightarrow> list_text (r # rs) = well_known_text r @ 44 # list_text rs"
  by (cases rs) simp_all

lemma foldl_add_text: "acc \<noteq> [] \<Longrightarrow> foldl add_text acc (map well_known_text rs) = (if rs = [] then acc else acc @ 44 # list_text rs)"
proof (induction rs arbitrary: acc)
  case (Cons r rs)
  then show ?case
    using Cons.IH [of "add_text acc (well_known_text r)"] by (cases "rs = []") (simp_all add: add_text_nonempty list_text_Cons)
qed simp

lemma list_text_val: "foldl add_text [] (map well_known_text rs) = list_text rs"
proof (cases rs)
  case (Cons r rs')
  have "add_text [] (well_known_text r) = well_known_text r" by (simp add: add_text_def)
  then show ?thesis using Cons by (cases "rs' = []") (simp_all add: foldl_add_text well_known_nonempty list_text_Cons)
qed simp

lemma parse_list:
  assumes "list_all plain_resource rs" "rs \<noteq> []"
  shows "\<exists>c a. parse_loop (list_text rs) \<lparr>pstate = S_start, current = c0, attrname = a0, rlist = done\<rparr> =
      Some \<lparr>pstate = obs_state (last rs), current = c, attrname = obs_name (last rs), rlist = done @ master_views False rs\<rparr>"
  using assms
proof (induction rs arbitrary: c0 a0 "done" rule: list_text.induct)
  case (3 r s rs)
  have p: "plain_resource r" using 3 by simp
  have l: "list_text (r # s # rs) = well_known_text r @ [44] @ list_text (s # rs)" by simp
  show ?case
    unfolding l parse_loop_append parse_resource [OF p] parse_comma [OF p] bind.bind_lunit
    using "3.IH" [of _ _ "done @ [master_view True r]"] 3(2) by simp
qed (simp_all add: parse_resource)

lemma parse_text:
  assumes "list_all plain_resource rs" "tr \<longrightarrow> rs \<noteq> []"
  shows "parse_resource_list (list_text rs @ (if tr then [44] else [])) = Some (True, master_views tr rs)"
proof (cases "rs = []")
  case True
  then show ?thesis using assms(2) by (simp add: parse_resource_list_def parse_end_def)
next
  case False
  obtain ys r where rs: "rs = ys @ [r]" using False by (metis append_butlast_last_id)
  have views: "master_views b (ys @ [r]) = map (master_view True) ys @ [master_view b r]" for b
  proof (induction ys)
    case (Cons y ys)
    then show ?case by (cases ys) simp_all
  qed simp
  obtain c where c: "parse_loop (list_text rs) \<lparr>pstate = S_start, current = [], attrname = [], rlist = []\<rparr> =
      Some \<lparr>pstate = obs_state r, current = c, attrname = obs_name r, rlist = map (master_view True) ys @ [master_view False r]\<rparr>"
    using parse_list [OF assms(1) False, of "[]" "[]" "[]"] by (auto simp: rs views)
  have r: "plain_resource r" using assms(1) by (simp add: rs)
  show ?thesis
  proof (cases tr)
    case True
    then show ?thesis
      using c parse_comma [OF r, of c "map (master_view True) ys"]
      by (simp add: parse_resource_list_def parse_loop_append views parse_end_def rs del: parse_loop.simps)
  next
    case False
    then show ?thesis
      using c by (simp add: parse_resource_list_def views parse_end_def rs obs_state_def obs_name_def)
  qed
qed

text \<open>
  C31. The resource list in the slave's association answer reaches the master: from the payload that
  \<open>get_well_known\<close> of the slave writes, \<open>parse_resource_list\<close> of the master reads the resources that fit
  into the message, in order, with their path, title and type. The attribute \<open>obs\<close> of an observable
  resource is kept except for the last resource of a complete list, where the parser drops it.
\<close>
theorem resource_list_reaches_master:
  assumes "ok_msg out" "size_bound out \<le> 60" "net_ok l2" "list_all plain_resource (reslist c)"
  shows "\<exists>all out' k tr. get_well_known l2 out c = Some (all, out') \<and> k \<le> length (reslist c) \<and> (all \<longleftrightarrow> k = length (reslist c)) \<and>
    (tr \<longrightarrow> \<not> all) \<and> parse_resource_list (msg_payload out') = Some (True, master_views tr (take k (reslist c)))"
proof -
  obtain all out' k tr where w: "get_well_known l2 out c = Some (all, out')" "k \<le> length (reslist c)" "all \<longleftrightarrow> k = length (reslist c)"
    "msg_payload out' = foldl add_text [] (map well_known_text (take k (reslist c))) @ (if tr then [44] else [])" "tr \<longrightarrow> \<not> all"
    "tr \<longrightarrow> foldl add_text [] (map well_known_text (take k (reslist c))) \<noteq> []"
    using resource_list_text [OF assms(1-3)] by blast
  have p: "list_all plain_resource (take k (reslist c))" using assms(4) by (auto simp: list_all_iff dest: in_set_takeD)
  have ne: "tr \<longrightarrow> take k (reslist c) \<noteq> []" using w(6) by (cases "take k (reslist c)") simp_all
  show ?thesis
    using w(1-3,5) parse_text [OF p ne]
    by (intro exI [of _ all] exI [of _ out'] exI [of _ k] exI [of _ tr]) (simp add: w(4) list_text_val)
qed

theorem resource_list_reaches_master_witness:
  "\<exists>all out' k tr. get_well_known (small_net\<lparr>maxpayload := \<lambda>mtu. 40\<rparr>) msg_new ((sample_engine SL_RUNNING None)\<lparr>reslist := sample_resources\<rparr>) = Some (all, out') \<and>
    parse_resource_list (msg_payload out') = Some (True, master_views tr (take k sample_resources))"
proof -
  have n: "net_ok (small_net\<lparr>maxpayload := \<lambda>mtu. 40\<rparr>)" by (simp add: net_ok_def)
  have b: "size_bound msg_new \<le> 60" by simp
  define c where "c = (sample_engine SL_RUNNING None)\<lparr>reslist := sample_resources\<rparr>"
  have r: "reslist c = sample_resources" by (simp add: c_def)
  have p: "list_all plain_resource (reslist c)" unfolding r by (simp add: sample_resources_def Resource_new_def plain_resource_def)
  show ?thesis
    using resource_list_reaches_master [OF ok_msg_new(3) b n p] unfolding c_def [symmetric] r by blast
qed

text \<open>The attribute that is dropped, and the empty name that is stored instead.\<close>

lemma last_attribute_dropped:
  "map_option (map attributes \<circ> snd) (parse_resource_list (bytes ''</a>;obs,</b>;obs'')) = Some [[(bytes ''obs'', [[]])], []]"
  "map_option (map attributes \<circ> snd) (parse_resource_list (bytes ''</a>;'')) = Some [[([], [[]])]]"
  by code_simp+

end
