(* ===== verification/Master_Cache.thy ===== *)
theory Master_Cache
  imports Master_Resource
begin

text \<open>
  The cache of the master, \<open>c-master/casan/cache.cc\<close>: pairs of requests and replies, looked up by the
  options of the request. The clock is an argument; the mutex is left out, since each operation holds it
  from its start to its end.
\<close>

section \<open>Dates\<close>

text \<open>A date plus a number of milliseconds. The clock counts nanoseconds in 64 bits; leaving them is undefined.\<close>

definition date_after :: "time \<Rightarrow> int \<Rightarrow> time option" where
  "date_after now ms =
     (if \<bar>ms\<bar> \<le> time_max \<and> \<bar>now + ms\<bar> \<le> time_max then Some (now + ms) else None)"

section \<open>The cache\<close>

record cache_entry =
  expires :: time
  request :: nat

text \<open>The loop of \<open>get\<close>: an entry found, whether an expired entry has been met; the messages that are compared get sorted.\<close>

fun cache_scan :: "time \<Rightarrow> nat \<Rightarrow> cache_entry list \<Rightarrow> bool \<Rightarrow> msg_heap \<Rightarrow> (nat option \<times> bool \<times> msg_heap) option" where
  "cache_scan now req [] need_to_remove h = Some (None, need_to_remove, h)"
| "cache_scan now req (e # es) need_to_remove h =
     (if now > expires e then cache_scan now req es True h
      else do {
        a \<leftarrow> h req;
        b \<leftarrow> h (request e);
        (r, a, b) \<leftarrow> cache_match a b;
        let h = h(req \<mapsto> a, request e \<mapsto> b);
        if r then Some (Some (request e), need_to_remove, h) else cache_scan now req es need_to_remove h
      })"

definition cache_get :: "time \<Rightarrow> nat \<Rightarrow> cache_entry list \<Rightarrow> msg_heap \<Rightarrow> (nat option \<times> cache_entry list \<times> msg_heap) option" where
  "cache_get now req cache h = do {
     (r, need_to_remove, h) \<leftarrow> cache_scan now req cache False h;
     Some (r, if need_to_remove then filter (\<lambda>e. \<not> now > expires e) cache else cache, h)
   }"

definition cache_add :: "time \<Rightarrow> nat \<Rightarrow> cache_entry list \<Rightarrow> msg_heap \<Rightarrow> cache_entry list option" where
  "cache_add now req cache h = do {
     q \<leftarrow> h req;
     case reqrep q of
       None \<Rightarrow> Some cache
     | Some a \<Rightarrow> do {
         rep \<leftarrow> h a;
         maxage \<leftarrow> max_age rep;
         if maxage \<noteq> - 1 then do {
           t \<leftarrow> date_after now (maxage * 1000);
           Some (cache @ [\<lparr>expires = t, request = req\<rparr>])
         } else Some cache
       }
   }"

section \<open>What the cache finds\<close>

definition live :: "time \<Rightarrow> cache_entry \<Rightarrow> bool" where
  "live now e \<longleftrightarrow> now \<le> expires e"

definition same_request :: "master_msg \<Rightarrow> master_msg \<Rightarrow> bool" where
  "same_request a b \<longleftrightarrow> mty a = mty b \<and> cache_key a = cache_key b"

text \<open>A heap whose messages have well-formed options, and the same heap with some messages sorted.\<close>

definition good_msg :: "msg_heap \<Rightarrow> nat \<Rightarrow> bool" where
  "good_msg h a \<longleftrightarrow> (\<exists>m. h a = Some m \<and> list_all wf_option (opts m))"

definition same_heap :: "msg_heap \<Rightarrow> msg_heap \<Rightarrow> bool" where
  "same_heap h h' \<longleftrightarrow> (\<forall>a. map_option sort_opts (h' a) = map_option sort_opts (h a))"

lemma sort_opts_sort [simp]: "sort_opts (sort_opts m) = sort_opts m"
  by (simp add: sort_opts_def)

lemma same_heap_simps [simp]: "same_heap h h"
  by (simp add: same_heap_def)

lemma same_heap_trans: "same_heap h h1 \<Longrightarrow> same_heap h1 h2 \<Longrightarrow> same_heap h h2"
  by (simp add: same_heap_def)

lemma same_heap_sorted: "h a = Some m \<Longrightarrow> m' = m \<or> m' = sort_opts m \<Longrightarrow> same_heap h (h(a \<mapsto> m'))"
  by (auto simp: same_heap_def)

lemma list_all_sort: "list_all P (option_sort os) = list_all P os"
  by (simp add: list_all_iff)

lemma same_heap_key:
  assumes "same_heap h h'" "h a = Some m"
  shows "\<exists>m'. h' a = Some m' \<and> mty m' = mty m \<and> cache_key m' = cache_key m \<and> (list_all wf_option (opts m') = list_all wf_option (opts m))"
proof -
  obtain m' where m': "h' a = Some m'" "sort_opts m' = sort_opts m"
    using assms unfolding same_heap_def by (metis (no_types, lifting) map_option_eq_Some)
  then have "mty (sort_opts m') = mty (sort_opts m)" "opts (sort_opts m') = opts (sort_opts m)" by simp_all
  then have "mty m' = mty m" "option_sort (opts m') = option_sort (opts m)" by (simp_all add: sort_opts_def)
  then show ?thesis using m'(1) list_all_sort [of wf_option "opts m'"] list_all_sort [of wf_option "opts m"] by (simp add: cache_key_def)
qed

lemma same_heap_good: "same_heap h h' \<Longrightarrow> good_msg h a \<Longrightarrow> good_msg h' a"
  using same_heap_key [of h h' a] by (auto simp: good_msg_def)

definition entry_found :: "time \<Rightarrow> master_msg \<Rightarrow> msg_heap \<Rightarrow> cache_entry list \<Rightarrow> nat option" where
  "entry_found now q h es = map_option request (find (\<lambda>e. live now e \<and> same_request q (the (h (request e)))) es)"

lemma same_request_cong:
  assumes "same_heap h h'" "good_msg h a" "mty q' = mty q" "cache_key q' = cache_key q"
  shows "same_request q' (the (h' a)) = same_request q (the (h a))"
  using same_heap_key [OF assms(1), of a] assms(2-4) by (auto simp: good_msg_def same_request_def)

lemma entry_found_cong:
  assumes "same_heap h h'" "\<forall>e \<in> set es. good_msg h (request e)" "mty q' = mty q" "cache_key q' = cache_key q"
  shows "entry_found now q' h' es = entry_found now q h es"
proof -
  have "find (\<lambda>e. live now e \<and> same_request q' (the (h' (request e)))) es = find (\<lambda>e. live now e \<and> same_request q (the (h (request e)))) es"
    using assms(2) same_request_cong [OF assms(1) _ assms(3,4)] by (induction es) auto
  then show ?thesis by (simp add: entry_found_def)
qed

lemma cache_scan_val:
  assumes "h req = Some q" "list_all wf_option (opts q)" "\<forall>e \<in> set es. good_msg h (request e)"
  shows "\<exists>n h'. cache_scan now req es need h = Some (entry_found now q h es, n, h') \<and> same_heap h h' \<and>
    (n \<longrightarrow> need \<or> (\<exists>e \<in> set es. \<not> live now e))"
  using assms
proof (induction es arbitrary: need h q)
  case (Cons e es)
  show ?case
  proof (cases "now > expires e")
    case True
    then obtain n h' where "cache_scan now req es True h = Some (entry_found now q h es, n, h')" "same_heap h h'"
      using Cons.IH [of h q True] Cons.prems by auto
    then show ?thesis using True by (auto simp: entry_found_def live_def)
  next
    case False
    obtain b where b: "h (request e) = Some b" "list_all wf_option (opts b)" using Cons.prems(3) by (auto simp: good_msg_def)
    obtain r q' b' where m: "cache_match q b = Some (r, q', b')" "r = same_request q b" "q' = q \<or> q' = sort_opts q" "b' = b \<or> b' = sort_opts b"
      using cache_match_val [OF Cons.prems(2) b(2)] by (cases "mty q = mty b") (auto simp: same_request_def)
    define h1 where "h1 = h(req \<mapsto> q', request e \<mapsto> b')"
    have 1: "same_heap h h1"
    proof (cases "request e = req")
      case True
      then show ?thesis using same_heap_sorted [of h "request e" b b'] b(1) m(4) by (simp add: h1_def)
    next
      case False
      have "same_heap h (h(req \<mapsto> q'))" by (rule same_heap_sorted [where h = h, OF Cons.prems(1) m(3)])
      moreover have "same_heap (h(req \<mapsto> q')) h1"
        unfolding h1_def using same_heap_sorted [of "h(req \<mapsto> q')" "request e" b b'] b(1) m(4) False by simp
      ultimately show ?thesis by (rule same_heap_trans)
    qed
    obtain q1 where q1: "h1 req = Some q1" "mty q1 = mty q" "cache_key q1 = cache_key q" "list_all wf_option (opts q1)"
      using same_heap_key [OF 1 Cons.prems(1)] Cons.prems(2) by auto
    have g: "\<forall>e \<in> set es. good_msg h1 (request e)" using Cons.prems(3) same_heap_good [OF 1] by auto
    obtain n h' where ih: "cache_scan now req es need h1 = Some (entry_found now q1 h1 es, n, h')" "same_heap h1 h'"
        "n \<longrightarrow> need \<or> (\<exists>e \<in> set es. \<not> live now e)"
      using Cons.IH [of h1 q1 need] q1 g by blast
    have e: "entry_found now q1 h1 es = entry_found now q h es" using Cons.prems(3) q1 by (intro entry_found_cong [OF 1]) auto
    show ?thesis
      using False Cons.prems(1) b(1) m(1,2) ih e same_heap_trans [OF 1 ih(2)] 1 unfolding h1_def
      by (auto simp: entry_found_def live_def Let_def)
  qed
qed (simp add: entry_found_def)


definition sample_get :: "int \<Rightarrow> nat \<Rightarrow> master_msg" where
  "sample_get code p = master_msg_new\<lparr>mty := MT_CON, mcd := code, peer := Some p, reqrep := (if code = MC_GET then Some 1 else None),
     opts := [option_new\<lparr>optcode := MO_Uri_Path, optlen := 1, staticval := [116, 0, 0, 0, 0, 0, 0, 0, 0]\<rparr>]\<rparr>"


text \<open>
  The cache answers a request with the reply to another one: once a reply to a request has been
  cached, every later request of the same type with the same options gets this reply until it expires,
  with any other method and to any other slave. A PUT or DELETE of a resource that has been read is not
  carried out, and slaves with resources of the same path get each other's values.
\<close>
theorem cache_confuses_requests:
  assumes "h a = Some q" "reqrep q = Some b" "h b = Some rep" "max_age rep = Some age" "0 \<le> age" "age < 2 ^ 32"
    and now: "0 \<le> now" "now \<le> t" "t \<le> now + age * 1000" "now \<le> 4000000000000"
    and r: "r \<noteq> a" "mty q' = mty q" "opts q' = opts q" "list_all wf_option (opts q)"
  shows "\<exists>cache h'. cache_add now a [] h = Some cache \<and> cache_get t r cache (h(r \<mapsto> q')) = Some (Some a, cache, h')"
proof -
  define e where "e = \<lparr>expires = now + age * 1000, request = a\<rparr>"
  have "date_after now (age * 1000) = Some (now + age * 1000)" using assms(5,6) now by (simp add: date_after_def time_max_def)
  then have add: "cache_add now a [] h = Some [e]" using assms(1-5) by (simp add: cache_add_def e_def)
  have q: "cache_match q' q = Some (True, sort_opts q', sort_opts q)"
    using cache_match_val [of q' q] r by (simp add: cache_key_def)
  have "cache_get t r [e] (h(r \<mapsto> q')) = Some (Some a, [e], h(r \<mapsto> sort_opts q', a \<mapsto> sort_opts q))"
    using q r(1) assms(1) now(3) by (simp add: cache_get_def e_def)
  then show ?thesis using add by blast
qed

text \<open>A GET of the resource \<open>t\<close> of one slave is cached, then the same resource of another slave is deleted.\<close>

theorem cache_confuses_requests_witness:
  "\<exists>cache h'. cache_add 1000 0 [] [0 \<mapsto> sample_get MC_GET 7, 1 \<mapsto> sample_reply] = Some cache \<and>
    cache_get 2000 2 cache [0 \<mapsto> sample_get MC_GET 7, 1 \<mapsto> sample_reply, 2 \<mapsto> sample_get 4 8] = Some (Some 0, cache, h')"
proof -
  have v: "reqrep (sample_get MC_GET 7) = Some 1" "max_age sample_reply = Some 60" "list_all wf_option (opts (sample_get MC_GET 7))"
    "mty (sample_get 4 8) = mty (sample_get MC_GET 7)" "opts (sample_get 4 8) = opts (sample_get MC_GET 7)"
    by code_simp+
  show ?thesis
    using cache_confuses_requests [of "[0 \<mapsto> sample_get MC_GET 7, 1 \<mapsto> sample_reply]" 0 "sample_get MC_GET 7" 1 sample_reply 60 1000 2000 2 "sample_get 4 8"] v
    by simp
qed

end
