(* ===== verification/Master_Engine.thy ===== *)
theory Master_Engine
  imports Master_Cache
begin

text \<open>
  The engine of the master: \<open>c-master/casan/casan.cc\<close>, class \<open>slave\<close> of \<open>slave.cc\<close> and \<open>msg::send\<close>. Messages,
  slaves and receivers are objects at addresses, the three lists hold addresses; \<open>next_obj\<close> is the next
  free address and nothing is freed. The mutex makes one turn of the sender thread, between two waits,
  one step; a turn of a receiver thread is one step too, although it holds the mutex only while it
  searches the list of messages. The clock counts milliseconds and every value it is read for is an
  argument, like the random numbers, what the network delivers and whether the drivers accept a frame.
  \<open>wire\<close> collects the frames handed to a driver, \<open>woken\<close> the threads that have been woken up. \<open>None\<close> is the
  end of the process: a null pointer followed, an assertion that fails, an exception, an access outside
  an array. \<open>stop_net\<close>, which does nothing, the printing functions and the handlers of slaves, which
  nothing calls, are left out.
\<close>

section \<open>State\<close>

type_synonym maddress = "u8 list"

datatype mslave_status = MS_INACTIVE | MS_RUNNING

record mslave =
  sid :: int
  mdefmtu :: int
  mcurmtu :: int
  ml2 :: "nat option"
  maddr :: "maddress option"
  init_ttl :: int
  mstatus :: mslave_status
  mreslist :: "master_resource list"
  ttl_end :: time

text \<open>An object of class \<open>slave\<close> as its initialisers leave it.\<close>

definition mslave_new :: mslave where
  "mslave_new = \<lparr>sid = 0, mdefmtu = 0, mcurmtu = 0, ml2 = None, maddr = None, init_ttl = 0, mstatus = MS_INACTIVE, mreslist = [], ttl_end = 0\<rparr>"

record mnet =
  nbcast :: maddress
  nmtu :: int
  nlat :: int

record receiver =
  rnet :: nat
  hid :: int
  broadcast :: nat
  deduplist :: "nat list"
  hellomsg :: nat
  next_hello :: time
  started :: bool

record engine =
  nets :: "nat \<Rightarrow> mnet option"
  msgs :: msg_heap
  slaves :: "nat \<Rightarrow> mslave option"
  recvs :: "nat \<Rightarrow> receiver option"
  receivers :: "nat list"
  slavelist :: "nat list"
  msglist :: "nat list"
  next_obj :: nat
  global_id :: int
  first_hello :: int
  interval_hello :: int
  slave_ttl :: int
  wire :: "(nat \<times> maddress \<times> u8 list) list"
  woken :: "nat list"

text \<open>The engine before any network or slave; the networks there are.\<close>

definition casan_new :: "(nat \<Rightarrow> mnet option) \<Rightarrow> engine" where
  "casan_new ns = \<lparr>nets = ns, msgs = (\<lambda>_. None), slaves = (\<lambda>_. None), recvs = (\<lambda>_. None), receivers = [], slavelist = [], msglist = [],
     next_obj = 0, global_id = 1, first_hello = 0, interval_hello = 0, slave_ttl = 0, wire = [], woken = []\<rparr>"

text \<open>What the world does during a transmission: the clock, \<open>rand ()\<close>, the contents of fresh memory, the driver's result.\<close>

record send_in =
  send_at :: time
  send_rand :: int
  send_fill :: u8
  send_ok :: bool

section \<open>Constants and small functions\<close>

definition MAX_TRANSMIT_SPAN :: int where "MAX_TRANSMIT_SPAN = 22500"

definition EXCHANGE_LIFETIME :: "int \<Rightarrow> int" where
  "EXCHANGE_LIFETIME maxlat = MAX_TRANSMIT_SPAN + 2 * maxlat + ACK_TIMEOUT"

definition NON_LIFETIME :: "int \<Rightarrow> int" where
  "NON_LIFETIME maxlat = MAX_TRANSMIT_SPAN + maxlat"

definition MAX_RTT :: "int \<Rightarrow> int" where
  "MAX_RTT maxlat = 2 * maxlat + ACK_TIMEOUT"

definition random_value :: "int \<Rightarrow> int \<Rightarrow> int" where
  "random_value rand n = rand mod n"

definition random_timeout :: "int \<Rightarrow> int \<Rightarrow> time" where
  "random_timeout rand maxmilli = random_value rand (maxmilli + 1)"

section \<open>Messages: sending\<close>

text \<open>The timers after a transmission; \<open>r\<close> is between 0 and 499.\<close>

definition initial_timeout :: "int \<Rightarrow> time" where
  "initial_timeout rand = (let r = random_value rand 500; nmilli = ACK_TIMEOUT * (r + 1) in nmilli div 1000)"

definition send_timers :: "send_in \<Rightarrow> int \<Rightarrow> master_msg \<Rightarrow> master_msg" where
  "send_timers i maxlat m = (case mty m of
     MT_CON \<Rightarrow>
       (let m = (if ntrans m = 0
                 then m\<lparr>rto := initial_timeout (send_rand i), expire := send_at i + EXCHANGE_LIFETIME maxlat\<rparr>
                 else m\<lparr>rto := rto m * 2\<rparr>)
        in m\<lparr>next_rto := send_at i + rto m, ntrans := ntrans m + 1\<rparr>)
   | MT_NON \<Rightarrow> (STOP_TRANSMIT m)\<lparr>expire := send_at i + NON_LIFETIME maxlat\<rparr>
   | MT_ACK \<Rightarrow> (STOP_TRANSMIT m)\<lparr>expire := send_at i + MAX_RTT maxlat\<rparr>
   | MT_RST \<Rightarrow> (STOP_TRANSMIT m)\<lparr>expire := send_at i + MAX_RTT maxlat\<rparr>)"

text \<open>\<open>send\<close> of the message at \<open>a\<close>. A peer without a network or an address is a null pointer that is followed.\<close>

definition msg_send_at :: "send_in \<Rightarrow> nat \<Rightarrow> engine \<Rightarrow> engine option" where
  "msg_send_at i a e = do {
     m \<leftarrow> msgs e a;
     (g, m) \<leftarrow> (if bin m = None then master_coap_encode (send_fill i) (global_id e) m else Some (global_id e, m));
     p \<leftarrow> peer m;
     s \<leftarrow> slaves e p;
     k \<leftarrow> ml2 s;
     net \<leftarrow> nets e k;
     dest \<leftarrow> maddr s;
     b \<leftarrow> bin m;
     f \<leftarrow> slice b 0 (nat (binlen m));
     let m = (if send_ok i then send_timers i (nlat net) m else m);
     Some (e\<lparr>msgs := (msgs e)(a \<mapsto> m), global_id := g, wire := wire e @ [(k, dest, f)]\<rparr>)
   }"

section \<open>Slaves\<close>

definition slave_reset :: "mslave \<Rightarrow> mslave" where
  "slave_reset s = s\<lparr>ml2 := None, maddr := None, mreslist := [], mcurmtu := 0, mstatus := MS_INACTIVE, ttl_end := time_max\<rparr>"

definition find_mresource :: "u8 list list \<Rightarrow> mslave \<Rightarrow> nat option" where
  "find_mresource v s = map_option fst (find (\<lambda>(k, r). resource_eq_vpath r v) (enumerate 0 (mreslist s)))"

definition add_request :: "nat \<Rightarrow> engine \<Rightarrow> engine" where
  "add_request a e = e\<lparr>msglist := a # msglist e\<rparr>"

definition add_slave :: "mslave \<Rightarrow> engine \<Rightarrow> engine" where
  "add_slave s e = (let p = next_obj e in
     e\<lparr>slaves := (slaves e)(p \<mapsto> slave_reset s), slavelist := p # slavelist e, next_obj := p + 1\<rparr>)"

fun find_slave_loop :: "int \<Rightarrow> nat list \<Rightarrow> engine \<Rightarrow> nat option option" where
  "find_slave_loop n [] e = Some None"
| "find_slave_loop n (p # ps) e = do { s \<leftarrow> slaves e p; if sid s = n then Some (Some p) else find_slave_loop n ps e }"

definition find_slave :: "int \<Rightarrow> engine \<Rightarrow> nat option option" where
  "find_slave n e = find_slave_loop n (slavelist e) e"

text \<open>\<open>process_casan\<close> of the slave \<open>p\<close> for the message \<open>a\<close>.\<close>

definition associate_msg :: "mslave \<Rightarrow> nat option \<Rightarrow> master_msg option" where
  "associate_msg s p = mk_ctl_assoc (init_ttl s) (mcurmtu s) (master_code MC_POST (master_type MT_CON (master_msg_new\<lparr>peer := p\<rparr>)))"

definition payload_of :: "master_msg \<Rightarrow> u8 list option" where
  "payload_of m = (if plen m > 0 then do { b \<leftarrow> pload m; slice b 0 (nat (plen m)) } else Some [])"

definition process_casan :: "time \<Rightarrow> nat \<Rightarrow> nat \<Rightarrow> engine \<Rightarrow> engine option" where
  "process_casan now p a e = do {
     (tp, h) \<leftarrow> casan_type a (msgs e);
     let e = e\<lparr>msgs := h\<rparr>;
     m \<leftarrow> h a;
     s \<leftarrow> slaves e p;
     if tp = CASAN_DISCOVER then do {
       answer \<leftarrow> associate_msg s (peer m);
       let b = next_obj e;
       Some (add_request b (e\<lparr>msgs := h(b \<mapsto> answer), next_obj := b + 1\<rparr>))
     } else if tp = CASAN_ASSOC_ANSWER \<and> reqrep m \<noteq> None then do {
       pl \<leftarrow> payload_of m;
       (ok, rs) \<leftarrow> parse_resource_list pl;
       if ok then Some (e\<lparr>slaves := (slaves e)(p \<mapsto> s\<lparr>mstatus := MS_RUNNING, mreslist := rs, ttl_end := now + 1000 * init_ttl s\<rparr>)\<rparr>)
       else Some e
     } else Some e
   }"

section \<open>The sender thread\<close>

text \<open>
  One turn of its loop, under the mutex. \<open>now\<close> is the clock at the start of the turn; \<open>io\<close> gives for
  each message what happens while it is sent.
\<close>

definition hello_step :: "time \<Rightarrow> (nat \<Rightarrow> send_in) \<Rightarrow> nat \<Rightarrow> engine \<Rightarrow> engine option" where
  "hello_step now io k e = do {
     r \<leftarrow> recvs e k;
     let r = r\<lparr>started := True\<rparr>;
     let e = e\<lparr>recvs := (recvs e)(k \<mapsto> r)\<rparr>;
     if now \<ge> next_hello r then do {
       m \<leftarrow> msgs e (hellomsg r);
       e \<leftarrow> msg_send_at (io (hellomsg r)) (hellomsg r) (e\<lparr>msgs := (msgs e)(hellomsg r \<mapsto> master_id 0 m)\<rparr>);
       Some (e\<lparr>recvs := (recvs e)(k \<mapsto> r\<lparr>next_hello := now + interval_hello e * 1000\<rparr>)\<rparr>)
     } else Some e
   }"

definition ttl_step :: "time \<Rightarrow> nat \<Rightarrow> engine \<Rightarrow> engine option" where
  "ttl_step now p e = do {
     s \<leftarrow> slaves e p;
     Some (if mstatus s = MS_RUNNING \<and> now \<ge> ttl_end s then e\<lparr>slaves := (slaves e)(p \<mapsto> slave_reset s)\<rparr> else e)
   }"

definition transmit_step :: "time \<Rightarrow> (nat \<Rightarrow> send_in) \<Rightarrow> nat \<Rightarrow> engine \<Rightarrow> engine option" where
  "transmit_step now io a e = do {
     m \<leftarrow> msgs e a;
     if ntrans m = 0 \<or> ntrans m < MAX_RETRANSMIT \<and> now \<ge> next_rto m then msg_send_at (io a) a e else Some e
   }"

fun each :: "('a \<Rightarrow> 'b \<Rightarrow> 'b option) \<Rightarrow> 'a list \<Rightarrow> 'b \<Rightarrow> 'b option" where
  "each f [] e = Some e"
| "each f (x # xs) e = do { e \<leftarrow> f x e; each f xs e }"

fun keep_live :: "time \<Rightarrow> msg_heap \<Rightarrow> nat list \<Rightarrow> nat list option" where
  "keep_live now h [] = Some []"
| "keep_live now h (a # as) = do {
     m \<leftarrow> h a;
     as \<leftarrow> keep_live now h as;
     Some (if now > expire m then as else a # as)
   }"

text \<open>The date of the next action.\<close>

fun next_of_hellos :: "engine \<Rightarrow> nat list \<Rightarrow> time \<Rightarrow> time option" where
  "next_of_hellos e [] t = Some t"
| "next_of_hellos e (k # ks) t = do { r \<leftarrow> recvs e k; next_of_hellos e ks (if t > next_hello r then next_hello r else t) }"

fun next_of_slaves :: "engine \<Rightarrow> nat list \<Rightarrow> time \<Rightarrow> time option" where
  "next_of_slaves e [] t = Some t"
| "next_of_slaves e (p # ps) t = do { s \<leftarrow> slaves e p; next_of_slaves e ps (if mstatus s = MS_RUNNING \<and> t > ttl_end s then ttl_end s else t) }"

fun next_of_messages :: "engine \<Rightarrow> nat list \<Rightarrow> time \<Rightarrow> time option" where
  "next_of_messages e [] t = Some t"
| "next_of_messages e (a # as) t = do {
     m \<leftarrow> msgs e a;
     next_of_messages e as (if ntrans m < MAX_RETRANSMIT \<and> t > next_rto m then next_rto m else t)
   }"

definition next_action :: "engine \<Rightarrow> time option" where
  "next_action e = do {
     t \<leftarrow> next_of_hellos e (receivers e) time_max;
     t \<leftarrow> next_of_slaves e (slavelist e) t;
     next_of_messages e (msglist e) t
   }"

text \<open>
  The turn up to the wait: the date until which the thread waits, \<open>time_max\<close> when it waits for a
  notification only. \<open>now2\<close> is the clock before the wait; the assertion that the delay is not negative
  ends the process.
\<close>

definition sender_turn :: "time \<Rightarrow> (nat \<Rightarrow> send_in) \<Rightarrow> time \<Rightarrow> engine \<Rightarrow> (time \<times> engine) option" where
  "sender_turn now io now2 e = do {
     e \<leftarrow> each (hello_step now io) (receivers e) e;
     e \<leftarrow> each (ttl_step now) (slavelist e) e;
     e \<leftarrow> each (transmit_step now io) (msglist e) e;
     ml \<leftarrow> keep_live now (msgs e) (msglist e);
     let e = e\<lparr>msglist := ml\<rparr>;
     t \<leftarrow> next_action e;
     if t = time_max then Some (t, e)
     else if t - now2 \<ge> 0 then Some (t, e) else None
   }"

section \<open>Networks\<close>

text \<open>\<open>start_net\<close> for the network \<open>k\<close>, when the sender thread runs; \<open>secs\<close> is the time in seconds.\<close>

definition start_net :: "time \<Rightarrow> int \<Rightarrow> nat \<Rightarrow> engine \<Rightarrow> engine option" where
  "start_net now rand k e = do {
     net \<leftarrow> nets e k;
     let r = next_obj e;
     let b = r + 1;
     let a = r + 2;
     let h = (now div 1000) mod 1000;
     m \<leftarrow> mk_ctl_hello h (master_code MC_POST (master_type MT_NON (master_msg_new\<lparr>peer := Some b\<rparr>)));
     Some (e\<lparr>slaves := (slaves e)(b \<mapsto> mslave_new\<lparr>ml2 := Some k, maddr := Some (nbcast net)\<rparr>),
             msgs := (msgs e)(a \<mapsto> m),
             recvs := (recvs e)(r \<mapsto> \<lparr>rnet = k, hid = h, broadcast = b, deduplist = [], hellomsg = a,
               next_hello = now + random_timeout rand (first_hello e * 1000), started = False\<rparr>),
             receivers := r # receivers e, next_obj := r + 3\<rparr>)
   }"

section \<open>The receiver threads\<close>

definition clean_deduplist :: "time \<Rightarrow> nat \<Rightarrow> engine \<Rightarrow> engine option" where
  "clean_deduplist now k e = do {
     r \<leftarrow> recvs e k;
     l \<leftarrow> keep_live now (msgs e) (deduplist r);
     Some (e\<lparr>recvs := (recvs e)(k \<mapsto> r\<lparr>deduplist := l\<rparr>)\<rparr>)
   }"

fun peer_at :: "maddress \<Rightarrow> nat list \<Rightarrow> engine \<Rightarrow> nat option option" where
  "peer_at a [] e = Some None"
| "peer_at a (p # ps) e = do { s \<leftarrow> slaves e p; if maddr s = Some a then Some (Some p) else peer_at a ps e }"

text \<open>The MTU of a slave: of the network, of its configuration, of its announcement.\<close>

definition agreed_mtu :: "int \<Rightarrow> int \<Rightarrow> int \<Rightarrow> int" where
  "agreed_mtu l2mtu defmtu mtu =
     (let defmtu = (if defmtu \<le> 0 \<or> defmtu > l2mtu then l2mtu else defmtu)
      in if mtu \<le> 0 \<or> mtu > defmtu then defmtu else mtu)"

definition find_peer :: "nat \<Rightarrow> maddress \<Rightarrow> nat \<Rightarrow> engine \<Rightarrow> (bool \<times> engine) option" where
  "find_peer a addr k e = do {
     m \<leftarrow> msgs e a;
     known \<leftarrow> peer_at addr (slavelist e) e;
     case known of
       Some p \<Rightarrow> Some (True, e\<lparr>msgs := (msgs e)(a \<mapsto> m\<lparr>peer := Some p\<rparr>)\<rparr>)
     | None \<Rightarrow> do {
         (disc, n, mtu, m) \<leftarrow> is_casan_discover m;
         let e = e\<lparr>msgs := (msgs e)(a \<mapsto> m)\<rparr>;
         sl \<leftarrow> (if disc then find_slave n e else Some None);
         case sl of
           None \<Rightarrow> Some (False, e)
         | Some p \<Rightarrow> do {
             s \<leftarrow> slaves e p;
             r \<leftarrow> recvs e k;
             net \<leftarrow> nets e (rnet r);
             Some (True, e\<lparr>msgs := (msgs e)(a \<mapsto> m\<lparr>peer := Some p\<rparr>),
               slaves := (slaves e)(p \<mapsto> s\<lparr>ml2 := Some (rnet r), maddr := Some addr, mcurmtu := agreed_mtu (nmtu net) (mdefmtu s) mtu\<rparr>)\<rparr>)
           }
       }
   }"

fun with_id :: "int \<Rightarrow> nat list \<Rightarrow> msg_heap \<Rightarrow> nat option option" where
  "with_id n [] h = Some None"
| "with_id n (b # bs) h = do { m \<leftarrow> h b; if ident m = n then Some (Some b) else with_id n bs h }"

definition correlate :: "nat \<Rightarrow> engine \<Rightarrow> nat option option" where
  "correlate a e = do {
     m \<leftarrow> msgs e a;
     if mty m = MT_ACK \<or> mty m = MT_RST then with_id (ident m) (msglist e) (msgs e) else Some None
   }"

fun same_bytes_as :: "master_msg \<Rightarrow> nat list \<Rightarrow> msg_heap \<Rightarrow> nat option option" where
  "same_bytes_as m [] h = Some None"
| "same_bytes_as m (d # ds) h = do {
     q \<leftarrow> h d;
     eq \<leftarrow> master_msg_eq m q;
     if eq then Some (Some d) else same_bytes_as m ds h
   }"

definition deduplicate :: "time \<Rightarrow> (nat \<Rightarrow> send_in) \<Rightarrow> nat \<Rightarrow> nat \<Rightarrow> engine \<Rightarrow> (nat option \<times> engine) option" where
  "deduplicate now io k a e = do {
     m \<leftarrow> msgs e a;
     r \<leftarrow> recvs e k;
     net \<leftarrow> nets e (rnet r);
     (org, e) \<leftarrow> (if mty m = MT_CON \<or> mty m = MT_NON then do {
         org \<leftarrow> same_bytes_as m (deduplist r) (msgs e);
         rep \<leftarrow> (case org of None \<Rightarrow> Some None | Some d \<Rightarrow> map_option reqrep (msgs e d));
         e \<leftarrow> (case rep of
             Some b \<Rightarrow> msg_send_at (io b) b e
           | None \<Rightarrow> Some (e\<lparr>msgs := (msgs e)(a \<mapsto> m\<lparr>expire := now + EXCHANGE_LIFETIME (nlat net)\<rparr>)\<rparr>));
         Some (org, e)
       } else Some (None, e));
     Some (org, e\<lparr>recvs := (recvs e)(k \<mapsto> r\<lparr>deduplist := deduplist r @ [a]\<rparr>)\<rparr>)
   }"

text \<open>
  What a receiver thread gets in one turn: the packet from layer 2, the values of the clock at the
  reception, the cleaning, the deduplication and the processing, and the transmissions.
\<close>

record recv_in =
  packet :: "pktype \<times> u8 list \<times> int \<times> maddress"
  at_recv :: time
  at_clean :: time
  at_dedup :: time
  at_casan :: time
  answers :: "nat \<Rightarrow> send_in"

text \<open>The part after the correlation.\<close>

definition handle_message :: "recv_in \<Rightarrow> nat \<Rightarrow> nat \<Rightarrow> engine \<Rightarrow> engine option" where
  "handle_message i k a e = do {
     (dup, e) \<leftarrow> deduplicate (at_dedup i) (answers i) k a e;
     answered \<leftarrow> (case dup of None \<Rightarrow> Some False | Some d \<Rightarrow> map_option (\<lambda>q. reqrep q \<noteq> None) (msgs e d));
     if answered then Some e
     else do {
       (tp, h) \<leftarrow> casan_type a (msgs e);
       let e = e\<lparr>msgs := h\<rparr>;
       m \<leftarrow> h a;
       if tp \<noteq> CASAN_NONE then do { p \<leftarrow> peer m; process_casan (at_casan i) p a e } else Some e
     }
   }"

text \<open>A message of a known slave: the first reply to a request wakes the thread that waits for it.\<close>

definition reply_or_handle :: "recv_in \<Rightarrow> nat \<Rightarrow> nat \<Rightarrow> engine \<Rightarrow> engine option" where
  "reply_or_handle i k a e = do {
     org \<leftarrow> correlate a e;
     case org of
       None \<Rightarrow> handle_message i k a e
     | Some b \<Rightarrow> do {
         q \<leftarrow> msgs e b;
         if reqrep q \<noteq> None then Some e
         else do {
           h \<leftarrow> link_reqrep b (Some a) (msgs e);
           q \<leftarrow> h b;
           let e = e\<lparr>msgs := h(b \<mapsto> STOP_TRANSMIT q)\<rparr>;
           case waiter q of
             Some w \<Rightarrow> Some (e\<lparr>woken := woken e @ [w]\<rparr>)
           | None \<Rightarrow> handle_message i k a e
         }
       }
   }"

definition receiver_turn :: "recv_in \<Rightarrow> nat \<Rightarrow> engine \<Rightarrow> engine option" where
  "receiver_turn i k e = do {
     r \<leftarrow> recvs e k;
     net \<leftarrow> nets e (rnet r);
     let a = next_obj e;
     (src, m) \<leftarrow> master_recv (packet i) master_msg_new;
     case src of
       None \<Rightarrow> Some e
     | Some addr \<Rightarrow> do {
         let e = e\<lparr>msgs := (msgs e)(a \<mapsto> m\<lparr>expire := at_recv i + EXCHANGE_LIFETIME (nlat net)\<rparr>), next_obj := a + 1\<rparr>;
         e \<leftarrow> clean_deduplist (at_clean i) k e;
         (found, e) \<leftarrow> find_peer a addr k e;
         if found then reply_or_handle i k a e else Some e
       }
   }"

text \<open>The aggregated list for HTTP clients.\<close>

fun mresource_list_loop :: "nat list \<Rightarrow> engine \<Rightarrow> u8 list option" where
  "mresource_list_loop [] e = Some []"
| "mresource_list_loop (p # ps) e = do {
     s \<leftarrow> slaves e p;
     t \<leftarrow> mresource_list_loop ps e;
     Some ((if mstatus s = MS_RUNNING then concat (map show_resource (mreslist s)) else []) @ t)
   }"

definition mresource_list :: "engine \<Rightarrow> u8 list option" where
  "mresource_list e = mresource_list_loop (slavelist e) e"

end
