(* ===== verification/Master_Engine_Laws.thy ===== *)
theory Master_Engine_Laws
  imports Master_Engine
begin

text \<open>
  Laws of the sender thread of the master: what a transmission changes, how often and when a confirmable
  message is sent, and two ways in which a turn of the thread ends the process.
\<close>

section \<open>What an operation leaves alone\<close>

lemma send_timers_fields [simp]:
  "bin (send_timers i l m) = bin m" "binlen (send_timers i l m) = binlen m" "mty (send_timers i l m) = mty m"
  "reqrep (send_timers i l m) = reqrep m" "peer (send_timers i l m) = peer m" "ident (send_timers i l m) = ident m"
  "opts (send_timers i l m) = opts m" "waiter (send_timers i l m) = waiter m" "ctype (send_timers i l m) = ctype m"
  by (simp_all add: send_timers_def STOP_TRANSMIT_def Let_def split: msgtype.split)

lemma default_id_fields [simp]:
  "mty (snd (default_id g m)) = mty m" "peer (snd (default_id g m)) = peer m" "reqrep (snd (default_id g m)) = reqrep m"
  "rto (snd (default_id g m)) = rto m" "next_rto (snd (default_id g m)) = next_rto m" "expire (snd (default_id g m)) = expire m"
  "waiter (snd (default_id g m)) = waiter m" "ctype (snd (default_id g m)) = ctype m" "opts (snd (default_id g m)) = opts m"
  by (simp_all add: default_id_def)

lemma encode_fields:
  assumes "master_coap_encode fill g m = Some (g', m')"
  shows "mty m' = mty m" "peer m' = peer m" "reqrep m' = reqrep m" "ntrans m' = 0" "bin m' \<noteq> None" "waiter m' = waiter m" "ctype m' = ctype m"
  using assms by (auto simp: master_coap_encode_def Let_def bind_eq_Some_conv default_id_def split: prod.splits if_splits)

text \<open>The first stage of a transmission.\<close>

definition encoded_for :: "send_in \<Rightarrow> engine \<Rightarrow> master_msg \<Rightarrow> (int \<times> master_msg) option" where
  "encoded_for i e m = (if bin m = None then master_coap_encode (send_fill i) (global_id e) m else Some (global_id e, m))"

lemma encoded_fields:
  assumes "encoded_for i e m = Some (g, m')"
  shows "mty m' = mty m" "peer m' = peer m" "reqrep m' = reqrep m" "bin m' \<noteq> None" "waiter m' = waiter m" "ctype m' = ctype m"
    "ntrans m = 0 \<Longrightarrow> ntrans m' = 0"
  using assms encode_fields [of "send_fill i" "global_id e" m g m'] by (auto simp: encoded_for_def split: if_splits)

lemma msg_send_at_val:
  assumes "msg_send_at i a e = Some e'"
  shows "\<exists>m g m1 p s k net dest b f. msgs e a = Some m \<and> encoded_for i e m = Some (g, m1) \<and> peer m = Some p \<and> slaves e p = Some s \<and>
    ml2 s = Some k \<and> nets e k = Some net \<and> maddr s = Some dest \<and> bin m1 = Some b \<and> slice b 0 (nat (binlen m1)) = Some f \<and>
    e' = e\<lparr>msgs := (msgs e)(a \<mapsto> (if send_ok i then send_timers i (nlat net) m1 else m1)), global_id := g, wire := wire e @ [(k, dest, f)]\<rparr>"
proof -
  obtain m where m: "msgs e a = Some m" using assms by (cases "msgs e a") (simp_all add: msg_send_at_def)
  obtain g m1 where m1: "encoded_for i e m = Some (g, m1)"
    using assms m by (cases "encoded_for i e m") (auto simp: msg_send_at_def encoded_for_def)
  show ?thesis
    using assms m m1 encoded_fields(2) [OF m1]
    by (auto simp: msg_send_at_def encoded_for_def [symmetric] bind_eq_Some_conv Let_def)
qed

lemma msg_send_at_frame:
  assumes "msg_send_at i a e = Some e'"
  shows "slaves e' = slaves e" "recvs e' = recvs e" "nets e' = nets e" "receivers e' = receivers e" "slavelist e' = slavelist e"
    "msglist e' = msglist e" "next_obj e' = next_obj e" "b \<noteq> a \<Longrightarrow> msgs e' b = msgs e b" "first_hello e' = first_hello e"
    "interval_hello e' = interval_hello e"
  using msg_send_at_val [OF assms] by (auto simp: fun_upd_apply)

lemma transmit_frame:
  assumes "transmit_step now io a e = Some e'"
  shows "slaves e' = slaves e" "recvs e' = recvs e" "nets e' = nets e" "receivers e' = receivers e" "slavelist e' = slavelist e"
    "msglist e' = msglist e" "next_obj e' = next_obj e" "b \<noteq> a \<Longrightarrow> msgs e' b = msgs e b"
  using assms msg_send_at_frame [of "io a" a e e'] by (auto simp: transmit_step_def bind_eq_Some_conv split: if_splits)

lemma each_append: "each f (xs @ ys) e = do { e \<leftarrow> each f xs e; each f ys e }"
proof (induction xs arbitrary: e)
  case (Cons x xs)
  then show ?case by (cases "f x e") simp_all
qed simp

lemma each_keeps:
  assumes "each f xs e = Some e'" "\<And>x e e'. x \<in> set xs \<Longrightarrow> P e \<Longrightarrow> f x e = Some e' \<Longrightarrow> P e'" "P e"
  shows "P e'"
  using assms
proof (induction xs arbitrary: e)
  case (Cons x xs)
  obtain e1 where e1: "f x e = Some e1" "each f xs e1 = Some e'" using Cons.prems(1) by (auto simp: bind_eq_Some_conv)
  then show ?case using Cons.IH [of e1] Cons.prems(2,3) by (meson list.set_intros)
qed simp

lemma each_None:
  assumes "x \<in> set xs" "\<And>e1. P e1 \<Longrightarrow> f x e1 = None" "\<And>y e e'. y \<noteq> x \<Longrightarrow> P e \<Longrightarrow> f y e = Some e' \<Longrightarrow> P e'" "P e"
  shows "each f xs e = None"
proof -
  obtain ys zs where xs: "xs = ys @ x # zs" "x \<notin> set ys" using assms(1) split_list_first by metis
  show ?thesis
  proof (cases "each f ys e")
    case (Some e1)
    then have "P e1" using assms(3,4) xs(2) each_keeps [of f ys e e1 P] by metis
    then show ?thesis using Some assms(2) by (simp add: xs each_append)
  qed (simp add: xs each_append)
qed

lemma each_msgs:
  assumes "each (transmit_step now io) as e = Some e'"
  shows "slaves e' = slaves e" "recvs e' = recvs e" "nets e' = nets e" "receivers e' = receivers e" "slavelist e' = slavelist e"
    "msglist e' = msglist e" "next_obj e' = next_obj e" "b \<notin> set as \<Longrightarrow> msgs e' b = msgs e b"
proof -
  have "slaves e' = slaves e \<and> recvs e' = recvs e \<and> nets e' = nets e \<and> receivers e' = receivers e \<and> slavelist e' = slavelist e \<and>
    msglist e' = msglist e \<and> next_obj e' = next_obj e \<and> (\<forall>b. b \<notin> set as \<longrightarrow> msgs e' b = msgs e b)"
  proof (rule each_keeps [OF assms])
    fix x y and z :: engine
    assume "x \<in> set as" and P: "slaves y = slaves e \<and> recvs y = recvs e \<and> nets y = nets e \<and> receivers y = receivers e \<and> slavelist y = slavelist e \<and>
      msglist y = msglist e \<and> next_obj y = next_obj e \<and> (\<forall>b. b \<notin> set as \<longrightarrow> msgs y b = msgs e b)" and t: "transmit_step now io x y = Some z"
    then show "slaves z = slaves e \<and> recvs z = recvs e \<and> nets z = nets e \<and> receivers z = receivers e \<and> slavelist z = slavelist e \<and>
      msglist z = msglist e \<and> next_obj z = next_obj e \<and> (\<forall>b. b \<notin> set as \<longrightarrow> msgs z b = msgs e b)"
      using transmit_frame(1-7) [OF t] transmit_frame(8) [OF t] by metis
  qed simp
  then show "slaves e' = slaves e" "recvs e' = recvs e" "nets e' = nets e" "receivers e' = receivers e" "slavelist e' = slavelist e"
    "msglist e' = msglist e" "next_obj e' = next_obj e" "b \<notin> set as \<Longrightarrow> msgs e' b = msgs e b" by simp_all
qed

section \<open>The end of the process\<close>

text \<open>
  C35. The association of a slave must not expire while a request to it is pending: when the sender thread
  finds that the time to live of a slave has passed, it takes its network and address away, and in the
  same turn a message to this slave that is new or due again follows the null pointer.
\<close>
theorem expired_peer_crashes:
  assumes "each (hello_step now io) (receivers e) e = Some e1" "slaves e1 p = Some s" "p \<in> set (slavelist e1)" "distinct (slavelist e1)"
    and "mstatus s = MS_RUNNING" "ttl_end s \<le> now"
    and "a \<in> set (msglist e1)" "msgs e1 a = Some m" "peer m = Some p" "ntrans m = 0 \<or> ntrans m < MAX_RETRANSMIT \<and> next_rto m \<le> now"
  shows "sender_turn now io now2 e = None"
proof (cases "each (ttl_step now) (slavelist e1) e1")
  case None
  then show ?thesis using assms(1) by (simp add: sender_turn_def)
next
  case (Some e2)
  have step: "ttl_step now q x = Some y \<Longrightarrow> msgs y = msgs x \<and> msglist y = msglist x \<and> (q \<noteq> p \<longrightarrow> slaves y p = slaves x p)" for q x y
    by (auto simp: ttl_step_def bind_eq_Some_conv split: if_splits)
  obtain ys zs where sl: "slavelist e1 = ys @ p # zs" "p \<notin> set ys" "p \<notin> set zs" using assms(3,4) by (metis (no_types, lifting) distinct.simps(2) distinct_append not_distinct_conv_prefix split_list_first)
  obtain x1 where x1: "each (ttl_step now) ys e1 = Some x1" "each (ttl_step now) (p # zs) x1 = Some e2"
    using Some by (auto simp: sl each_append bind_eq_Some_conv)
  have 1: "msgs x1 = msgs e1 \<and> msglist x1 = msglist e1 \<and> slaves x1 p = slaves e1 p"
    by (rule each_keeps [OF x1(1)]) (use sl(2) step in \<open>auto dest!: step\<close>)
  obtain x2 where x2: "ttl_step now p x1 = Some x2" "each (ttl_step now) zs x2 = Some e2" using x1(2) by (auto simp: bind_eq_Some_conv)
  have 2: "slaves x2 p = Some (slave_reset s)" using x2(1) 1 assms(2,5,6) by (auto simp: ttl_step_def)
  have 3: "msgs e2 = msgs x2 \<and> msglist e2 = msglist x2 \<and> slaves e2 p = slaves x2 p"
    by (rule each_keeps [OF x2(2)]) (use sl(3) step in \<open>auto dest!: step\<close>)
  have e2: "msgs e2 a = Some m" "a \<in> set (msglist e2)" "slaves e2 p = Some (slave_reset s)"
    using 1 2 3 step [OF x2(1)] assms(7,8) by simp_all
  have "each (transmit_step now io) (msglist e2) e2 = None"
  proof (rule each_None [OF e2(2), where P = "\<lambda>e. msgs e a = Some m \<and> slaves e p = Some (slave_reset s)"])
    fix x :: engine assume x: "msgs x a = Some m \<and> slaves x p = Some (slave_reset s)"
    have "msg_send_at (io a) a x = None"
    proof (rule ccontr)
      assume "msg_send_at (io a) a x \<noteq> None"
      then obtain y where "msg_send_at (io a) a x = Some y" by blast
      then show False using msg_send_at_val x assms(9) by (fastforce simp: slave_reset_def)
    qed
    then show "transmit_step now io a x = None" using x assms(10) by (simp add: transmit_step_def)
  qed (use e2 in \<open>auto simp: transmit_frame(1) transmit_frame(8)\<close>)
  then show ?thesis using assms(1) Some by (simp add: sender_turn_def)
qed

section \<open>Retransmissions\<close>

lemma initial_timeout_range: "1 \<le> initial_timeout r \<and> initial_timeout r \<le> 500"
  by (simp add: initial_timeout_def random_value_def Let_def)

text \<open>One turn for one message after the other: the pairs of the clock and what happens to the transmission.\<close>

definition turns :: "nat \<Rightarrow> (time \<times> send_in) list \<Rightarrow> engine \<Rightarrow> engine option" where
  "turns a ts e = each (\<lambda>(now, i) e. transmit_step now (\<lambda>b. i) a e) ts e"

lemma turns_simps [simp]:
  "turns a [] e = Some e" "turns a (t # ts) e = do { e \<leftarrow> transmit_step (fst t) (\<lambda>b. snd t) a e; turns a ts e }"
  by (simp_all add: turns_def case_prod_beta)

text \<open>A message that has been sent \<open>ntrans\<close> times with a timeout that doubles.\<close>

definition sent_times :: "int \<Rightarrow> (nat \<times> maddress \<times> u8 list) \<Rightarrow> engine \<Rightarrow> nat \<Rightarrow> bool" where
  "sent_times i fr e a \<longleftrightarrow> (\<exists>m p s net b. msgs e a = Some m \<and> mty m = MT_CON \<and> bin m = Some b \<and> peer m = Some p \<and> slaves e p = Some s \<and>
     ml2 s = Some (fst fr) \<and> nets e (fst fr) = Some net \<and> maddr s = Some (fst (snd fr)) \<and> slice b 0 (nat (binlen m)) = Some (snd (snd fr)) \<and>
     1 \<le> ntrans m \<and> ntrans m \<le> 4 \<and> rto m = i * 2 ^ nat (ntrans m - 1))"

lemma transmit_again:
  assumes "sent_times i fr e a" "send_ok t" "transmit_step now (\<lambda>b. t) a e = Some e'"
  shows "sent_times i fr e' a" "\<exists>j \<le> 1. wire e' = wire e @ replicate j fr \<and>
    ntrans (the (msgs e' a)) = ntrans (the (msgs e a)) + int j"
proof -
  obtain m p s net b where m: "msgs e a = Some m" "mty m = MT_CON" "bin m = Some b" "peer m = Some p" "slaves e p = Some s"
     "ml2 s = Some (fst fr)" "nets e (fst fr) = Some net" "maddr s = Some (fst (snd fr))" "slice b 0 (nat (binlen m)) = Some (snd (snd fr))"
     "1 \<le> ntrans m" "ntrans m \<le> 4" "rto m = i * 2 ^ nat (ntrans m - 1)"
    using assms(1) by (auto simp: sent_times_def)
  show "sent_times i fr e' a" "\<exists>j \<le> 1. wire e' = wire e @ replicate j fr \<and> ntrans (the (msgs e' a)) = ntrans (the (msgs e a)) + int j"
  proof (atomize (full), cases "ntrans m < MAX_RETRANSMIT \<and> now \<ge> next_rto m")
    case False
    then have "e' = e" using assms(3) m(1,10) by (auto simp: transmit_step_def)
    then show "sent_times i fr e' a \<and> (\<exists>j \<le> 1. wire e' = wire e @ replicate j fr \<and> ntrans (the (msgs e' a)) = ntrans (the (msgs e a)) + int j)"
      using assms(1) by (intro conjI exI [of _ 0]) simp_all
  next
    case True
    define m' where "m' = send_timers t (nlat net) m"
    have e': "e' = e\<lparr>msgs := (msgs e)(a \<mapsto> m'), global_id := global_id e, wire := wire e @ [fr]\<rparr>"
      using assms(2,3) m True by (simp add: transmit_step_def msg_send_at_def m'_def)
    have n: "ntrans m' = ntrans m + 1" "rto m' = 2 * rto m" "mty m' = mty m" "bin m' = bin m" "binlen m' = binlen m" "peer m' = peer m"
      using m(2,10) by (simp_all add: m'_def) (simp_all add: send_timers_def Let_def)
    have "nat (ntrans m + 1 - 1) = Suc (nat (ntrans m - 1))" using m(10) by simp
    then have "sent_times i fr e' a" using m n True by (simp add: sent_times_def e')
    moreover have "wire e' = wire e @ replicate 1 fr" "ntrans (the (msgs e' a)) = ntrans (the (msgs e a)) + int 1" using m(1) n(1) by (simp_all add: e')
    ultimately show "sent_times i fr e' a \<and> (\<exists>j \<le> 1. wire e' = wire e @ replicate j fr \<and> ntrans (the (msgs e' a)) = ntrans (the (msgs e a)) + int j)"
      by blast
  qed
qed

lemma turns_again:
  assumes "sent_times i fr e a" "list_all (\<lambda>t. send_ok (snd t)) ts" "turns a ts e = Some e'"
  shows "sent_times i fr e' a \<and> (\<exists>j. wire e' = wire e @ replicate j fr \<and> ntrans (the (msgs e' a)) = ntrans (the (msgs e a)) + int j)"
  using assms
proof (induction ts arbitrary: e)
  case (Cons t ts)
  obtain e1 where e1: "transmit_step (fst t) (\<lambda>b. snd t) a e = Some e1" "turns a ts e1 = Some e'"
    using Cons.prems(3) by (auto simp: bind_eq_Some_conv)
  have t: "send_ok (snd t)" using Cons.prems(2) by simp
  obtain j where j: "wire e1 = wire e @ replicate j fr" "ntrans (the (msgs e1 a)) = ntrans (the (msgs e a)) + int j"
    using transmit_again(2) [OF Cons.prems(1) t e1(1)] by blast
  obtain j' where j': "wire e' = wire e1 @ replicate j' fr" "ntrans (the (msgs e' a)) = ntrans (the (msgs e1 a)) + int j'" "sent_times i fr e' a"
    using Cons.IH [OF transmit_again(1) [OF Cons.prems(1) t e1(1)] _ e1(2)] Cons.prems(2) by auto
  then have "wire e' = wire e @ replicate (j + j') fr" "ntrans (the (msgs e' a)) = ntrans (the (msgs e a)) + int (j + j')"
    using j by (simp_all add: replicate_add)
  then show ?case using j'(3) by blast
qed auto


text \<open>
  A retransmission that the driver refuses ends the process: the message stays due, so the date the
  sender thread wants to wait for lies in the past, which its assertion excludes.
\<close>
theorem failed_retransmission_aborts:
  assumes "each (hello_step now io) (receivers e) e = Some e1" "each (ttl_step now) (slavelist e1) e1 = Some e2"
    and "a \<in> set (msglist e2)" "distinct (msglist e2)" "msgs e2 a = Some m" "bin m \<noteq> None" "ntrans m < MAX_RETRANSMIT" "0 < ntrans m"
    and "next_rto m \<le> now" "now \<le> expire m" "\<not> send_ok (io a)" "next_rto m < now2" "now2 < time_max"
  shows "sender_turn now io now2 e = None"
proof (cases "each (transmit_step now io) (msglist e2) e2")
  case None
  then show ?thesis using assms(1,2) by (simp add: sender_turn_def)
next
  case (Some e3)
  have same: "transmit_step now io a x = Some y \<Longrightarrow> msgs x a = Some m \<Longrightarrow> msgs y a = Some m" for x y
  proof -
    assume t: "transmit_step now io a x = Some y" and x: "msgs x a = Some m"
    then have "msg_send_at (io a) a x = Some y" using assms(7,9) by (simp add: transmit_step_def)
    then show "msgs y a = Some m" using msg_send_at_val [of "io a" a x y] x assms(6,11) by (auto simp: encoded_for_def)
  qed
  have 3: "msgs e3 a = Some m"
    by (rule each_keeps [OF Some]) (use same transmit_frame(8) assms(5) in metis)+
  have ml: "msglist e3 = msglist e2" using each_msgs(6) [OF Some] .
  show ?thesis
  proof (cases "keep_live now (msgs e3) (msglist e3)")
    case None
    then show ?thesis using assms(1,2) Some by (simp add: sender_turn_def)
  next
    case s4: (Some l)
    have "keep_live now (msgs e3) as = Some l \<Longrightarrow> a \<in> set as \<Longrightarrow> a \<in> set l" for as l
    proof (induction as arbitrary: l)
      case (Cons x xs)
      then show ?case using 3 assms(10) by (auto simp: bind_eq_Some_conv split: if_splits)
    qed simp
    then have l: "a \<in> set l" using s4 assms(3) ml by simp
    have le: "next_of_messages e3' as t0 = Some t1 \<Longrightarrow> t1 \<le> t0 \<and> (a \<in> set as \<longrightarrow> msgs e3' a = Some m \<longrightarrow> t1 \<le> next_rto m)" for e3' as t0 t1
    proof (induction as arbitrary: t0)
      case (Cons x xs)
      then obtain q where q: "msgs e3' x = Some q" by (cases "msgs e3' x") simp_all
      define t where "t = (if ntrans q < MAX_RETRANSMIT \<and> t0 > next_rto q then next_rto q else t0)"
      have "t1 \<le> t \<and> (a \<in> set xs \<longrightarrow> msgs e3' a = Some m \<longrightarrow> t1 \<le> next_rto m)" using Cons.IH [of t] Cons.prems q by (simp add: t_def)
      then show ?case using q assms(7) by (auto simp: t_def split: if_splits)
    qed simp
    show ?thesis
    proof (cases "next_action (e3\<lparr>msglist := l\<rparr>)")
      case None
      then show ?thesis using assms(1,2) Some s4 by (simp add: sender_turn_def)
    next
      case s5: (Some t)
      then have "t \<le> next_rto m" using le [of "e3\<lparr>msglist := l\<rparr>" l _ t] l 3 by (auto simp: next_action_def bind_eq_Some_conv)
      then have "\<not> t - now2 \<ge> 0" "t \<noteq> time_max" using assms(12,13) by simp_all
      then show ?thesis using assms(1,2) Some s4 s5 by (simp add: sender_turn_def)
    qed
  qed
qed

section \<open>A small engine\<close>

text \<open>A network, an associated slave with a time to live until 100, a pending request to it.\<close>

definition sample_mnet :: mnet where
  "sample_mnet = \<lparr>nbcast = [255, 255], nmtu = 127, nlat = 50\<rparr>"

definition sample_mslave :: mslave where
  "sample_mslave = mslave_new\<lparr>sid := 169, ml2 := Some 0, maddr := Some [7], mcurmtu := 127, mstatus := MS_RUNNING, init_ttl := 60, ttl_end := 100\<rparr>"

definition sample_master :: "master_msg \<Rightarrow> engine" where
  "sample_master m = (casan_new [0 \<mapsto> sample_mnet])\<lparr>slaves := [1 \<mapsto> sample_mslave], msgs := [2 \<mapsto> m], slavelist := [1], msglist := [2], next_obj := 3\<rparr>"

definition sample_io :: "int \<Rightarrow> bool \<Rightarrow> send_in" where
  "sample_io r ok = \<lparr>send_at = 10, send_rand = r, send_fill = 0, send_ok = ok\<rparr>"

theorem expired_peer_crashes_witness: "sender_turn 100 (\<lambda>a. sample_io 3 True) 100 (sample_master (sample_get MC_GET 1)) = None"
  by (rule expired_peer_crashes [of _ _ _ "sample_master (sample_get MC_GET 1)" 1 sample_mslave 2 "sample_get MC_GET 1"])
    (simp_all add: sample_master_def casan_new_def sample_mslave_def sample_get_def master_msg_new_def)


text \<open>A message that has been sent once and is due at 12.\<close>

definition sample_due :: master_msg where
  "sample_due = (sample_get MC_GET 1)\<lparr>bin := Some [0x40, 1, 0, 1], binlen := 4, ntrans := 1, rto := 2, next_rto := 12, expire := 20000\<rparr>"

theorem failed_retransmission_aborts_witness: "sender_turn 50 (\<lambda>a. sample_io 3 False) 51 (sample_master sample_due) = None"
  by (rule failed_retransmission_aborts [of _ _ _ "sample_master sample_due" "sample_master sample_due" 2 sample_due])
    (simp_all add: sample_master_def casan_new_def sample_due_def sample_get_def master_msg_new_def sample_io_def time_max_def ttl_step_def sample_mslave_def mslave_new_def)

end
