(* ===== verification/Master_Engine_Inv.thy ===== *)
theory Master_Engine_Inv
  imports Master_Engine_Laws
begin

text \<open>
  The steps of the engine of the master and an invariant of the states it can reach, kept by the turns of
  the sender and of the receivers, new requests, slaves and networks.
\<close>

section \<open>The invariant\<close>

text \<open>A message as it was received: its type is the one in its bytes, and only replies are linked.\<close>

definition received :: "master_msg \<Rightarrow> bool" where
  "received q \<longleftrightarrow> (\<exists>b bs. bin q = Some (b # bs) \<and> 0 < binlen q \<and> mty q = ty_of (drop_bit 4 b AND 3)) \<and>
     (reqrep q \<noteq> None \<longrightarrow> mty q = MT_ACK \<or> mty q = MT_RST)"

text \<open>A slave has both a network and an address or none; while it has them its MTU suits the network.\<close>

definition slave_wf :: "(nat \<Rightarrow> mnet option) \<Rightarrow> mslave \<Rightarrow> bool" where
  "slave_wf ns s \<longleftrightarrow> (case ml2 s of
     None \<Rightarrow> maddr s = None \<and> mstatus s = MS_INACTIVE \<and> mreslist s = [] \<and> mcurmtu s = 0
   | Some k \<Rightarrow> maddr s \<noteq> None \<and> (\<exists>net. ns k = Some net \<and> 1 \<le> mcurmtu s \<and> mcurmtu s \<le> nmtu net))"

text \<open>Addresses of messages that are sent and of messages that are remembered for the deduplication.\<close>

definition sending :: "engine \<Rightarrow> nat set" where
  "sending e = set (msglist e) \<union> hellomsg ` ran (recvs e)"

definition kept :: "engine \<Rightarrow> nat set" where
  "kept e = (\<Union>r \<in> ran (recvs e). set (deduplist r))"

definition slaves_ok :: "engine \<Rightarrow> bool" where
  "slaves_ok e \<longleftrightarrow> (\<forall>p \<in> set (slavelist e). p < next_obj e \<and> (\<exists>s. slaves e p = Some s \<and> slave_wf (nets e) s))"

definition nets_ok :: "engine \<Rightarrow> bool" where
  "nets_ok e \<longleftrightarrow> (\<forall>net \<in> ran (nets e). 1 \<le> nmtu net)"

definition kept_ok :: "engine \<Rightarrow> bool" where
  "kept_ok e \<longleftrightarrow> (\<forall>d \<in> kept e. \<exists>q. msgs e d = Some q \<and> received q)"

definition minv :: "engine \<Rightarrow> bool" where
  "minv e \<longleftrightarrow> nets_ok e \<and> slaves_ok e \<and> kept_ok e \<and> sending e \<inter> kept e = {} \<and> (\<forall>a \<in> sending e \<union> kept e \<union> dom (recvs e). a < next_obj e)"

lemma received_cong: "received q \<Longrightarrow> bin q' = bin q \<Longrightarrow> binlen q' = binlen q \<Longrightarrow> mty q' = mty q \<Longrightarrow> reqrep q' = reqrep q \<Longrightarrow> received q'"
  by (simp add: received_def)

lemma same_bytes_received:
  assumes "received q" "received q'" "master_msg_eq q q' = Some True"
  shows "mty q = mty q'"
proof -
  obtain b bs b' bs' where b: "bin q = Some (b # bs)" "0 < binlen q" "mty q = ty_of (drop_bit 4 b AND 3)"
    "bin q' = Some (b' # bs')" "mty q' = ty_of (drop_bit 4 b' AND 3)"
    using assms(1,2) by (auto simp: received_def)
  then obtain n where n: "nat (binlen q) = Suc n" by (metis Suc_pred zero_less_nat_eq)
  have "binlen q = binlen q'" "memeq (b # bs) (b' # bs') (nat (binlen q)) = Some True"
    using assms(3) b by (auto simp: master_msg_eq_def split: if_splits)
  then have "b = b'" using n by (auto simp: memeq_def split: if_splits)
  then show ?thesis using b by simp
qed

text \<open>A message that arrives again has no reply that could be sent back.\<close>

lemma same_bytes_as_found: "same_bytes_as m ds h = Some (Some d) \<Longrightarrow> d \<in> set ds \<and> (\<exists>q. h d = Some q \<and> master_msg_eq m q = Some True)"
  by (induction ds) (auto simp: bind_eq_Some_conv split: if_splits)

lemma deduplicate_never_answers:
  assumes "minv e" "msgs e a = Some m" "received m" "recvs e k = Some r" "mty m = MT_CON \<or> mty m = MT_NON"
    "deduplicate now io k a e = Some (dup, e')"
  shows "wire e' = wire e" "dup = Some d \<Longrightarrow> \<exists>q. msgs e d = Some q \<and> reqrep q = None"
proof -
  obtain net org where o: "nets e (rnet r) = Some net" "same_bytes_as m (deduplist r) (msgs e) = Some org"
    using assms(2,4-6) by (auto simp: deduplicate_def bind_eq_Some_conv split: if_splits)
  have none: "\<exists>q. msgs e d = Some q \<and> reqrep q = None" if d: "org = Some d" for d
  proof -
    obtain q where q: "d \<in> set (deduplist r)" "msgs e d = Some q" "master_msg_eq m q = Some True"
      using same_bytes_as_found o(2) d by blast
    have "d \<in> kept e" using q(1) assms(4) by (auto simp: kept_def ran_def)
    then have "received q" using assms(1) q(2) by (auto simp: minv_def kept_ok_def)
    then have "mty q = MT_CON \<or> mty q = MT_NON" using same_bytes_received [OF assms(3) _ q(3)] assms(5) by simp
    then have "reqrep q = None" using \<open>received q\<close> by (auto simp: received_def)
    then show ?thesis using q(2) by blast
  qed
  have rep: "(case org of None \<Rightarrow> Some None | Some d \<Rightarrow> map_option reqrep (msgs e d)) = Some None"
    using none by (cases org) auto
  have "dup = org \<and> wire e' = wire e"
    using assms(2,4-6) o rep by (auto simp: deduplicate_def)
  then show "wire e' = wire e" "dup = Some d \<Longrightarrow> \<exists>q. msgs e d = Some q \<and> reqrep q = None" using none by auto
qed

section \<open>Steps of the engine\<close>

inductive mstep :: "engine \<Rightarrow> engine \<Rightarrow> bool" where
  sender: "sender_turn now io now2 e = Some (t, e') \<Longrightarrow> mstep e e'"
| receiver: "k \<in> set (receivers e) \<Longrightarrow> 0 < fst (snd (snd (packet i))) \<Longrightarrow> receiver_turn i k e = Some e' \<Longrightarrow> mstep e e'"
| request: "mstep e (add_request (next_obj e) (e\<lparr>msgs := (msgs e)(next_obj e \<mapsto> m), next_obj := next_obj e + 1\<rparr>))"
| slave: "mstep e (add_slave s e)"
| net: "start_net now rand k e = Some e' \<Longrightarrow> mstep e e'"

section \<open>Preservation\<close>

lemma kept_upd:
  assumes "recvs e k = Some r" "set (deduplist r') \<subseteq> set (deduplist r)" "hellomsg r' = hellomsg r"
  shows "kept (e\<lparr>recvs := (recvs e)(k \<mapsto> r')\<rparr>) \<subseteq> kept e" "sending (e\<lparr>recvs := (recvs e)(k \<mapsto> r')\<rparr>) = sending e"
proof -
  have k: "r \<in> ran (recvs e)" using assms(1) by (auto simp: ran_def)
  have u1: "x = r' \<or> x \<in> ran (recvs e)" if "x \<in> ran ((recvs e)(k \<mapsto> r'))" for x using that by (auto simp: ran_def split: if_splits)
  have u2: "x = r \<or> x \<in> ran ((recvs e)(k \<mapsto> r'))" if x: "x \<in> ran (recvs e)" for x
  proof -
    obtain j where "recvs e j = Some x" using x by (auto simp: ran_def)
    then show ?thesis using assms(1) by (cases "j = k") (auto intro!: ranI [of _ j])
  qed
  have u3: "r' \<in> ran ((recvs e)(k \<mapsto> r'))" by (rule ranI [of _ k]) simp
  show "kept (e\<lparr>recvs := (recvs e)(k \<mapsto> r')\<rparr>) \<subseteq> kept e"
  proof
    fix d assume "d \<in> kept (e\<lparr>recvs := (recvs e)(k \<mapsto> r')\<rparr>)"
    then obtain x where "x \<in> ran ((recvs e)(k \<mapsto> r'))" "d \<in> set (deduplist x)" by (auto simp: kept_def)
    then show "d \<in> kept e" using u1 [of x] k assms(2) by (auto simp: kept_def)
  qed
  have "hellomsg ` ran ((recvs e)(k \<mapsto> r')) = hellomsg ` ran (recvs e)"
  proof (intro subset_antisym subsetI)
    fix h assume "h \<in> hellomsg ` ran ((recvs e)(k \<mapsto> r'))"
    then obtain x where "x \<in> ran ((recvs e)(k \<mapsto> r'))" "h = hellomsg x" by blast
    then show "h \<in> hellomsg ` ran (recvs e)" using u1 [of x] k assms(3) by (metis imageI)
  next
    fix h assume "h \<in> hellomsg ` ran (recvs e)"
    then obtain x where "x \<in> ran (recvs e)" "h = hellomsg x" by blast
    then show "h \<in> hellomsg ` ran ((recvs e)(k \<mapsto> r'))" using u2 [of x] u3 assms(3) by (metis imageI)
  qed
  then show "sending (e\<lparr>recvs := (recvs e)(k \<mapsto> r')\<rparr>) = sending e" by (simp add: sending_def)
qed

lemma minv_upd:
  assumes "minv e" "recvs e k = Some r" "set (deduplist r') \<subseteq> set (deduplist r)" "hellomsg r' = hellomsg r"
  shows "minv (e\<lparr>recvs := (recvs e)(k \<mapsto> r')\<rparr>)"
proof -
  have "dom ((recvs e)(k \<mapsto> r')) = dom (recvs e)" using assms(2) by auto
  then show ?thesis
    using assms(1) kept_upd [OF assms(2-4)] by (auto simp: minv_def slaves_ok_def nets_ok_def kept_ok_def)
qed

lemma minv_old: "minv e \<Longrightarrow> a \<in> sending e \<union> kept e \<union> dom (recvs e) \<Longrightarrow> a < next_obj e"
  by (simp add: minv_def)

lemma slaves_ok_mono:
  assumes "slaves_ok e" "nets e' = nets e" "slavelist e' = slavelist e" "\<forall>p \<in> set (slavelist e). slaves e' p = slaves e p" "next_obj e \<le> next_obj e'"
  shows "slaves_ok e'"
  unfolding slaves_ok_def
proof
  fix p assume p: "p \<in> set (slavelist e')"
  then obtain s where "p < next_obj e" "slaves e p = Some s" "slave_wf (nets e) s" using assms(1,3) by (auto simp: slaves_ok_def)
  then show "p < next_obj e' \<and> (\<exists>s. slaves e' p = Some s \<and> slave_wf (nets e') s)" using assms p by simp
qed

text \<open>Changes of the messages.\<close>

lemma minv_msgs:
  assumes "minv e" "nets e' = nets e" "slaves e' = slaves e" "slavelist e' = slavelist e" "set (msglist e') \<subseteq> set (msglist e)"
    "recvs e' = recvs e" "next_obj e \<le> next_obj e'"
    "\<And>d q. d \<in> kept e \<Longrightarrow> d \<notin> sending e \<Longrightarrow> d < next_obj e \<Longrightarrow> msgs e d = Some q \<Longrightarrow> received q \<Longrightarrow> \<exists>q'. msgs e' d = Some q' \<and> received q'"
  shows "minv e'"
proof -
  have k: "kept e' = kept e" "sending e' \<subseteq> sending e" using assms(5,6) by (auto simp: kept_def sending_def)
  have "kept_ok e'" unfolding kept_ok_def k(1)
  proof
    fix d assume d: "d \<in> kept e"
    then obtain q where "msgs e d = Some q" "received q" using assms(1) by (auto simp: minv_def kept_ok_def)
    moreover have "d \<notin> sending e" "d < next_obj e" using assms(1) d by (auto simp: minv_def)
    ultimately show "\<exists>q. msgs e' d = Some q \<and> received q" using assms(8) [OF d] by blast
  qed
  moreover have "slaves_ok e'" using assms(1-4,7) by (intro slaves_ok_mono [of e e']) (auto simp: minv_def)
  moreover have "\<forall>a \<in> sending e' \<union> kept e' \<union> dom (recvs e'). a < next_obj e'"
  proof
    fix a assume "a \<in> sending e' \<union> kept e' \<union> dom (recvs e')"
    then have "a \<in> sending e \<union> kept e \<union> dom (recvs e)" using k assms(6) by auto
    then show "a < next_obj e'" using minv_old [OF assms(1)] assms(7) by (meson less_le_trans)
  qed
  ultimately show ?thesis using assms(1,2) k by (auto simp: minv_def nets_ok_def)
qed

lemma minv_transmit:
  assumes "minv e" "transmit_step now io a e = Some e'" "a \<in> set (msglist e)"
  shows "minv e'"
proof (rule minv_msgs [OF assms(1)])
  fix d q assume "d \<notin> sending e" "msgs e d = Some q" "received q"
  then show "\<exists>q'. msgs e' d = Some q' \<and> received q'" using transmit_frame(8) [OF assms(2), of d] assms(3) by (auto simp: sending_def)
qed (use transmit_frame [OF assms(2)] in simp_all)

lemma minv_slave:
  assumes "minv e" "slave_wf (nets e) s"
  shows "minv (e\<lparr>slaves := (slaves e)(p \<mapsto> s)\<rparr>)"
  using assms by (auto simp: minv_def slaves_ok_def nets_ok_def kept_ok_def kept_def sending_def)

lemma reset_wf: "slave_wf ns (slave_reset s)"
  by (simp add: slave_wf_def slave_reset_def)

lemma minv_ttl:
  assumes "minv e" "ttl_step now p e = Some e'"
  shows "minv e'"
  using assms minv_slave [OF assms(1) reset_wf] by (auto simp: ttl_step_def bind_eq_Some_conv split: if_splits)

lemma minv_hello:
  assumes "minv e" "hello_step now io k e = Some e'"
  shows "minv e'"
proof -
  obtain r where r: "recvs e k = Some r" using assms(2) by (auto simp: hello_step_def bind_eq_Some_conv)
  define r' where "r' = r\<lparr>started := True\<rparr>"
  define e1 where "e1 = e\<lparr>recvs := (recvs e)(k \<mapsto> r')\<rparr>"
  have 1: "minv e1" using minv_upd [OF assms(1) r, of r'] by (simp add: e1_def r'_def)
  show ?thesis
  proof (cases "now \<ge> next_hello r")
    case False
    then show ?thesis using assms(2) r 1 by (simp add: hello_step_def e1_def r'_def)
  next
    case True
    then obtain m e2 where m: "msgs e (hellomsg r) = Some m"
      "msg_send_at (io (hellomsg r)) (hellomsg r) (e1\<lparr>msgs := (msgs e)(hellomsg r \<mapsto> master_id 0 m)\<rparr>) = Some e2"
      "e' = e2\<lparr>recvs := (recvs e2)(k \<mapsto> r'\<lparr>next_hello := now + interval_hello e2 * 1000\<rparr>)\<rparr>"
      using assms(2) r by (auto simp: hello_step_def e1_def r'_def bind_eq_Some_conv Let_def)
    have e2: "nets e2 = nets e1" "slaves e2 = slaves e1" "slavelist e2 = slavelist e1" "msglist e2 = msglist e1"
      "recvs e2 = recvs e1" "next_obj e2 = next_obj e1"
      using msg_send_at_frame [OF m(2)] by simp_all
    have "r' \<in> ran (recvs e1)" by (rule ranI [of _ k]) (simp add: e1_def)
    moreover have "hellomsg r' = hellomsg r" by (simp add: r'_def)
    ultimately have h: "hellomsg r \<in> sending e1" unfolding sending_def by (metis UnI2 imageI)
    have 2: "minv e2"
    proof (rule minv_msgs [OF 1])
      fix d q assume d: "d \<notin> sending e1" "msgs e1 d = Some q" "received q"
      then have "d \<noteq> hellomsg r" using h by blast
      then show "\<exists>q'. msgs e2 d = Some q' \<and> received q'" using msg_send_at_frame(8) [OF m(2), of d] d(2,3) by (simp add: e1_def)
    qed (use e2 in simp_all)
    have "recvs e2 k = Some r'" using e2 by (simp add: e1_def)
    then show ?thesis using minv_upd [OF 2, of k r' "r'\<lparr>next_hello := now + interval_hello e2 * 1000\<rparr>"] m(3) by simp
  qed
qed

lemma keep_live_subset: "keep_live now h as = Some bs \<Longrightarrow> set bs \<subseteq> set as"
  by (induction as arbitrary: bs) (auto simp: bind_eq_Some_conv split: if_splits)

lemma minv_sender:
  assumes "minv e" "sender_turn now io now2 e = Some (t, e')"
  shows "minv e'"
proof -
  obtain e1 e2 e3 l where s: "each (hello_step now io) (receivers e) e = Some e1" "each (ttl_step now) (slavelist e1) e1 = Some e2"
    "each (transmit_step now io) (msglist e2) e2 = Some e3" "keep_live now (msgs e3) (msglist e3) = Some l" "e' = e3\<lparr>msglist := l\<rparr>"
    using assms(2) by (auto simp: sender_turn_def bind_eq_Some_conv Let_def split: if_splits)
  have "minv e1" using each_keeps [OF s(1), of minv] minv_hello assms(1) by blast
  then have "minv e2" using each_keeps [OF s(2), of minv] minv_ttl by blast
  have "minv e3 \<and> msglist e3 = msglist e2"
  proof (rule each_keeps [OF s(3)])
    fix a x y assume "a \<in> set (msglist e2)" "minv x \<and> msglist x = msglist e2" "transmit_step now io a x = Some y"
    then show "minv y \<and> msglist y = msglist e2" using minv_transmit [of x now io a y] transmit_frame(6) [of now io a x y] by simp
  qed (use \<open>minv e2\<close> in simp)
  then have 3: "minv e3" by simp
  show ?thesis
    unfolding s(5) by (rule minv_msgs [OF 3]) (use keep_live_subset [OF s(4)] in simp_all)
qed

lemma minv_request:
  assumes "minv e"
  shows "minv (add_request (next_obj e) (e\<lparr>msgs := (msgs e)(next_obj e \<mapsto> m), next_obj := next_obj e + 1\<rparr>))" (is "minv ?e")
proof -
  have k: "kept ?e = kept e" "sending ?e = insert (next_obj e) (sending e)" by (simp_all add: kept_def sending_def add_request_def)
  have n: "next_obj e \<notin> kept e" using minv_old [OF assms, of "next_obj e"] by blast
  have "kept_ok ?e"
    unfolding kept_ok_def k
  proof
    fix d assume d: "d \<in> kept e"
    then have "d \<noteq> next_obj e" using n by blast
    then show "\<exists>q. msgs ?e d = Some q \<and> received q" using assms d by (simp add: minv_def kept_ok_def add_request_def)
  qed
  moreover have "slaves_ok ?e" by (rule slaves_ok_mono [of e]) (use assms in \<open>simp_all add: minv_def add_request_def\<close>)
  moreover have "nets_ok ?e" using assms by (simp add: minv_def nets_ok_def add_request_def)
  moreover have "\<forall>a \<in> sending ?e \<union> kept ?e \<union> dom (recvs ?e). a < next_obj ?e"
    using minv_old [OF assms] unfolding k by (auto simp: add_request_def intro: less_SucI)
  moreover have "insert (next_obj e) (sending e) \<inter> kept e = {}" using assms n by (simp add: minv_def)
  ultimately show ?thesis unfolding minv_def k by blast
qed

lemma minv_add_slave:
  assumes "minv e"
  shows "minv (add_slave s e)"
proof -
  have k: "kept (add_slave s e) = kept e" "sending (add_slave s e) = sending e" by (simp_all add: kept_def sending_def add_slave_def Let_def)
  have "slaves_ok (add_slave s e)"
    unfolding slaves_ok_def
  proof
    fix p assume "p \<in> set (slavelist (add_slave s e))"
    then have "p = next_obj e \<or> p \<in> set (slavelist e)" by (auto simp: add_slave_def Let_def)
    then show "p < next_obj (add_slave s e) \<and> (\<exists>q. slaves (add_slave s e) p = Some q \<and> slave_wf (nets (add_slave s e)) q)"
    proof
      assume "p \<in> set (slavelist e)"
      then obtain q where "p < next_obj e" "slaves e p = Some q" "slave_wf (nets e) q" using assms by (auto simp: minv_def slaves_ok_def)
      then show ?thesis by (simp add: add_slave_def Let_def)
    qed (simp add: add_slave_def Let_def reset_wf)
  qed
  moreover have "\<forall>a \<in> sending e \<union> kept e \<union> dom (recvs e). a < next_obj e + 1" using minv_old [OF assms] by (auto intro: less_SucI)
  ultimately show ?thesis
    using assms unfolding minv_def k by (simp add: nets_ok_def kept_ok_def k) (simp add: add_slave_def Let_def)
qed

lemma minv_start_net:
  assumes "minv e" "start_net now rand k e = Some e'"
  shows "minv e'"
proof -
  define n where "n = next_obj e"
  obtain m s r where e': "e' = e\<lparr>slaves := (slaves e)(n + 1 \<mapsto> s), msgs := (msgs e)(n + 2 \<mapsto> m), recvs := (recvs e)(n \<mapsto> r),
      receivers := n # receivers e, next_obj := n + 3\<rparr>" "deduplist r = []" "hellomsg r = n + 2"
    using assms(2) by (auto simp: start_net_def bind_eq_Some_conv Let_def n_def)
  have fresh: "recvs e n = None" using assms(1) by (auto simp: minv_def n_def)
  then have "ran (recvs e') = insert r (ran (recvs e))" by (simp add: e'(1))
  then have k: "kept e' = kept e" "sending e' = insert (n + 2) (sending e)" using e' by (auto simp: kept_def sending_def)
  have old: "\<forall>a \<in> sending e \<union> kept e \<union> dom (recvs e). a < n" using assms(1) by (simp add: minv_def n_def)
  have "slaves_ok e'"
    unfolding slaves_ok_def
  proof
    fix p assume "p \<in> set (slavelist e')"
    then obtain q where "p < n" "slaves e p = Some q" "slave_wf (nets e) q" using assms(1) by (auto simp: minv_def slaves_ok_def e'(1) n_def)
    then show "p < next_obj e' \<and> (\<exists>s. slaves e' p = Some s \<and> slave_wf (nets e') s)" by (simp add: e'(1))
  qed
  moreover have n: "n + 2 \<notin> kept e" using old by (metis UnI1 UnI2 not_add_less1)
  moreover have "kept_ok e'"
    unfolding kept_ok_def k
  proof
    fix d assume d: "d \<in> kept e"
    then have "d \<noteq> n + 2" using n by blast
    then show "\<exists>q. msgs e' d = Some q \<and> received q" using assms(1) d by (simp add: minv_def kept_ok_def e'(1))
  qed
  moreover have "\<forall>a \<in> sending e' \<union> kept e' \<union> dom (recvs e'). a < next_obj e'"
  proof
    fix a assume "a \<in> sending e' \<union> kept e' \<union> dom (recvs e')"
    then have "a = n + 2 \<or> a = n \<or> a \<in> sending e \<union> kept e \<union> dom (recvs e)" unfolding k by (auto simp: e'(1) split: if_splits)
    then have "a = n + 2 \<or> a = n \<or> a < n" using old by blast
    then have "a < n + 3" by linarith
    then show "a < next_obj e'" by (simp add: e'(1))
  qed
  ultimately show ?thesis using assms(1) unfolding minv_def k by (simp add: nets_ok_def e'(1))
qed

section \<open>Received messages\<close>

definition wire_part :: "master_msg \<Rightarrow> u8 list option \<times> int \<times> msgtype \<times> nat option" where
  "wire_part m = (bin m, binlen m, mty m, reqrep m)"

lemma received_wire: "wire_part m' = wire_part m \<Longrightarrow> received m \<Longrightarrow> received m'"
  using received_cong [of m m'] by (simp add: wire_part_def)

lemma decode_option_wire: "master_decode_option b i nb m = Some (ok, j, nb', m') \<Longrightarrow> wire_part m' = wire_part m \<and> ctype m' = ctype m"
  by (auto simp: master_decode_option_def pushoption_def wire_part_def bind_eq_Some_conv Let_def split: if_splits)

lemma decode_options_wire: "master_decode_options b len i nb m = Some (ok, j, m') \<Longrightarrow> wire_part m' = wire_part m \<and> ctype m' = ctype m"
proof (induction b len i nb m rule: master_decode_options.induct)
  case (1 b len i nb m)
  show ?case
  proof (cases "int i < len")
    case True
    then obtain x where x: "rd b i = Some x" using "1.prems" by (cases "rd b i") (simp_all add: master_decode_options.simps [of b len i])
    show ?thesis
    proof (cases "x = 0xff")
      case False
      then obtain s k nb' m1 where o1: "master_decode_option b i nb m = Some (s, k, nb', m1)"
        "(if s then master_decode_options b len k nb' m1 else Some (False, k, m1)) = Some (ok, j, m')"
        using "1.prems" True x by (auto simp: master_decode_options.simps [of b len i] bind_eq_Some_conv)
      then have "wire_part m' = wire_part m1 \<and> ctype m' = ctype m1" using "1.IH" [OF True x False o1(1)] by (cases s) auto
      then show ?thesis using decode_option_wire [OF o1(1)] by simp
    qed (use "1.prems" True x in \<open>simp add: master_decode_options.simps [of b len i]\<close>)
  qed (use "1.prems" in \<open>simp add: master_decode_options.simps [of b len i]\<close>)
qed

lemma decode_payload_wire: "master_decode_payload b len s i m = Some (ok, m') \<Longrightarrow> wire_part m' = wire_part m \<and> ctype m' = ctype m"
  by (auto simp: master_decode_payload_def wire_part_def bind_eq_Some_conv Let_def split: if_splits)

lemma master_recv_received:
  assumes "master_recv (kd, b, len, addr) m0 = Some (Some a, m)" "0 < len"
  shows "received m" "reqrep m = None" "a = addr" "ctype m = CASAN_UNKNOWN"
proof -
  define m1 where "m1 = (RESET_VALUES (m0\<lparr>opts := []\<rparr>))\<lparr>bin := Some b, pkt := kd, binlen := len\<rparr>"
  have m1: "bin m1 = Some b" "binlen m1 = len" "reqrep m1 = None" "ctype m1 = CASAN_UNKNOWN" by (simp_all add: m1_def RESET_VALUES_def)
  have d: "master_coap_decode b len m1 = Some (True, m)" "a = addr"
    using assms(1) by (auto simp: master_recv_def m1_def [symmetric] bind_eq_Some_conv Let_def split: if_splits)
  obtain b0 where b0: "rd b 0 = Some b0" using d(1) by (cases "rd b 0") (simp_all add: master_coap_decode_def)
  then obtain bs where bs: "b = b0 # bs" by (cases b) (simp_all add: rd_def)
  have "wire_part m = (Some b, len, ty_of (drop_bit 4 b0 AND 3), None) \<and> ctype m = CASAN_UNKNOWN"
    using d(1) b0
    by (auto simp: master_coap_decode_def bind_eq_Some_conv Let_def dest!: decode_options_wire decode_payload_wire split: if_splits)
      (simp_all add: wire_part_def m1)
  then show "received m" "reqrep m = None" "a = addr" "ctype m = CASAN_UNKNOWN" using assms(2) d(2) by (simp_all add: wire_part_def received_def bs)
qed

section \<open>The kind of a message\<close>

definition untyped :: "master_msg \<Rightarrow> master_msg" where
  "untyped m = m\<lparr>ctype := CASAN_UNKNOWN\<rparr>"

lemma untyped_eq: "untyped m' = untyped m \<Longrightarrow> wire_part m' = wire_part m \<and> peer m' = peer m \<and> opts m' = opts m \<and> mcd m' = mcd m"
proof -
  assume u: "untyped m' = untyped m"
  have "wire_part (untyped x) = wire_part x" "peer (untyped x) = peer x" "opts (untyped x) = opts x" "mcd (untyped x) = mcd x" for x
    by (simp_all add: untyped_def wire_part_def)
  then show ?thesis using u by metis
qed

lemma untyped_upd [simp]: "untyped (m\<lparr>ctype := t\<rparr>) = untyped m"
  by (simp add: untyped_def)

lemma discover_untyped: "is_casan_discover m = Some (d, n, mtu, m') \<Longrightarrow> untyped m' = untyped m"
  by (auto simp: is_casan_discover_def bind_eq_Some_conv Let_def split: if_splits)

lemma associate_untyped: "is_casan_associate m = Some (d, m') \<Longrightarrow> untyped m' = untyped m"
  by (auto simp: is_casan_associate_def bind_eq_Some_conv Let_def split: if_splits)

lemma alone_untyped: "casan_type_alone m = Some (t, m') \<Longrightarrow> untyped m' = untyped m"
  by (auto simp: casan_type_alone_def bind_eq_Some_conv Let_def dest!: discover_untyped associate_untyped split: if_splits)

definition untyped_heap :: "msg_heap \<Rightarrow> nat \<Rightarrow> master_msg option" where
  "untyped_heap h a = map_option untyped (h a)"

lemma untyped_heap_upd: "h a = Some m \<Longrightarrow> untyped m' = untyped m \<Longrightarrow> untyped_heap (h(a \<mapsto> m')) = untyped_heap h"
  by (rule ext) (simp add: untyped_heap_def)

lemma casan_type_untyped:
  assumes "casan_type a h = Some (t, h')"
  shows "untyped_heap h' = untyped_heap h"
proof -
  obtain m where m: "h a = Some m" using assms by (cases "h a") (simp_all add: casan_type_def)
  show ?thesis
  proof (cases "ctype m = CASAN_UNKNOWN")
    case False
    then show ?thesis using assms m by (simp add: casan_type_def)
  next
    case True
    obtain d n mtu m1 where d: "is_casan_discover m = Some (d, n, mtu, m1)"
      using assms m True by (cases "is_casan_discover m") (auto simp: casan_type_def)
    obtain s m2 where s: "(if d then Some (True, m1) else is_casan_associate m1) = Some (s, m2)"
      using assms m True d by (cases "if d then Some (True, m1) else is_casan_associate m1") (auto simp: casan_type_def)
    have u2: "untyped m2 = untyped m" using discover_untyped [OF d] associate_untyped [of m1 s m2] s by (cases d) auto
    define h2 where "h2 = h(a \<mapsto> m2)"
    have 2: "untyped_heap h2 = untyped_heap h" unfolding h2_def using m u2 by (rule untyped_heap_upd)
    define link where "link = (if s then Some h2 else case reqrep m2 of None \<Rightarrow> Some h2
         | Some b \<Rightarrow> do { q \<leftarrow> h2 b; (st, q) \<leftarrow> casan_type_alone q; let h = h2(b \<mapsto> q); m \<leftarrow> h a;
             Some (if st = CASAN_ASSOC_REQUEST then h(a \<mapsto> m\<lparr>ctype := CASAN_ASSOC_ANSWER\<rparr>) else h) })"
    have run: "casan_type a h = do { h \<leftarrow> link; m \<leftarrow> h a; let m = (if ctype m = CASAN_UNKNOWN then m\<lparr>ctype := CASAN_NONE\<rparr> else m); Some (ctype m, h(a \<mapsto> m)) }"
      using m True d s unfolding casan_type_def by (simp add: h2_def [symmetric] link_def)
    obtain h3 m3 where h3: "link = Some h3" "h3 a = Some m3" "h' = h3(a \<mapsto> (if ctype m3 = CASAN_UNKNOWN then m3\<lparr>ctype := CASAN_NONE\<rparr> else m3))"
      using assms unfolding run by (auto simp: bind_eq_Some_conv Let_def)
    have "untyped_heap h3 = untyped_heap h2"
    proof (cases "s \<or> reqrep m2 = None")
      case True
      then have "link = Some h2" by (auto simp: link_def)
      then show ?thesis using h3(1) by simp
    next
      case False
      then obtain b q st q' m4 where b: "h2 b = Some q" "casan_type_alone q = Some (st, q')" "(h2(b \<mapsto> q')) a = Some m4"
        "h3 = (if st = CASAN_ASSOC_REQUEST then (h2(b \<mapsto> q'))(a \<mapsto> m4\<lparr>ctype := CASAN_ASSOC_ANSWER\<rparr>) else h2(b \<mapsto> q'))"
        using h3(1) unfolding link_def by (auto simp: bind_eq_Some_conv Let_def)
      have "untyped_heap (h2(b \<mapsto> q')) = untyped_heap h2" using b(1) alone_untyped [OF b(2)] by (rule untyped_heap_upd)
      then show ?thesis using b(3,4) untyped_heap_upd [of "h2(b \<mapsto> q')" a m4 "m4\<lparr>ctype := CASAN_ASSOC_ANSWER\<rparr>"] by simp
    qed
    moreover have "untyped_heap h' = untyped_heap h3"
      unfolding h3(3) using h3(2) by (rule untyped_heap_upd) simp
    ultimately show ?thesis using 2 by simp
  qed
qed

lemma untyped_heap_received:
  assumes "untyped_heap h' = untyped_heap h" "h d = Some q"
  shows "\<exists>q'. h' d = Some q' \<and> wire_part q' = wire_part q \<and> peer q' = peer q"
proof -
  have "map_option untyped (h' d) = Some (untyped q)" using fun_cong [OF assms(1), of d] assms(2) by (simp add: untyped_heap_def)
  then obtain q' where "h' d = Some q'" "untyped q' = untyped q" by (cases "h' d") simp_all
  then show ?thesis using untyped_eq by blast
qed

section \<open>A turn of a receiver\<close>

definition taken :: "engine \<Rightarrow> nat \<Rightarrow> bool" where
  "taken e a \<longleftrightarrow> minv e \<and> a < next_obj e \<and> a \<notin> sending e \<and> a \<notin> kept e \<and> (\<exists>m. msgs e a = Some m \<and> received m)"

definition with_peer :: "engine \<Rightarrow> nat \<Rightarrow> bool" where
  "with_peer e a \<longleftrightarrow> (\<exists>m p s. msgs e a = Some m \<and> peer m = Some p \<and> p \<in> set (slavelist e) \<and> slaves e p = Some s \<and> ml2 s \<noteq> None)"

lemma arrive:
  assumes "minv e" "received m"
  shows "taken (e\<lparr>msgs := (msgs e)(next_obj e \<mapsto> m), next_obj := next_obj e + 1\<rparr>) (next_obj e)" (is "taken ?e _")
proof -
  have "minv ?e" by (rule minv_msgs [OF assms(1)]) simp_all
  moreover have "sending ?e = sending e" "kept ?e = kept e" by (simp_all add: sending_def kept_def)
  moreover have "next_obj e \<notin> sending e" "next_obj e \<notin> kept e" using minv_old [OF assms(1), of "next_obj e"] by blast+
  ultimately show ?thesis using assms(2) by (simp add: taken_def)
qed

lemma clean_taken:
  assumes "taken e a" "clean_deduplist now k e = Some e'"
  shows "taken e' a" "wire e' = wire e"
proof -
  obtain r l where r: "recvs e k = Some r" "keep_live now (msgs e) (deduplist r) = Some l" "e' = e\<lparr>recvs := (recvs e)(k \<mapsto> r\<lparr>deduplist := l\<rparr>)\<rparr>"
    using assms(2) by (auto simp: clean_deduplist_def bind_eq_Some_conv)
  have s: "set (deduplist (r\<lparr>deduplist := l\<rparr>)) \<subseteq> set (deduplist r)" using keep_live_subset [OF r(2)] by simp
  have "minv e'" using minv_upd [OF _ r(1) s] assms(1) r(3) by (simp add: taken_def)
  then show "taken e' a" using kept_upd [OF r(1) s] assms(1) r(3) by (auto simp: taken_def)
  show "wire e' = wire e" using r(3) by simp
qed

text \<open>A change of the message that leaves the wire part.\<close>

lemma taken_msg:
  assumes "taken e a" "msgs e a = Some m" "received m'"
  shows "taken (e\<lparr>msgs := (msgs e)(a \<mapsto> m')\<rparr>) a" (is "taken ?e a")
proof -
  have "minv ?e" by (rule minv_msgs [of e]) (use assms in \<open>auto simp: taken_def\<close>)
  then show ?thesis using assms by (auto simp: taken_def sending_def kept_def)
qed

lemma agreed_mtu_range: "1 \<le> l2m \<Longrightarrow> 1 \<le> agreed_mtu l2m d mtu \<and> agreed_mtu l2m d mtu \<le> l2m"
  by (auto simp: agreed_mtu_def Let_def)

lemma peer_at_found: "peer_at addr ps e = Some (Some p) \<Longrightarrow> p \<in> set ps \<and> (\<exists>s. slaves e p = Some s \<and> maddr s = Some addr)"
  by (induction ps) (auto simp: bind_eq_Some_conv split: if_splits)

lemma find_slave_found: "find_slave_loop n ps e = Some (Some p) \<Longrightarrow> p \<in> set ps \<and> (\<exists>s. slaves e p = Some s \<and> sid s = n)"
  by (induction ps) (auto simp: bind_eq_Some_conv split: if_splits)

lemma find_peer_taken:
  assumes "taken e a" "find_peer a addr k e = Some (found, e')"
  shows "taken e' a" "found \<Longrightarrow> with_peer e' a" "wire e' = wire e"
proof -
  obtain m where m: "msgs e a = Some m" "received m" using assms(1) by (auto simp: taken_def)
  have inv: "minv e" using assms(1) by (simp add: taken_def)
  obtain known where known: "peer_at addr (slavelist e) e = Some known" using assms(2) m by (cases "peer_at addr (slavelist e) e") (simp_all add: find_peer_def)
  have "taken e' a \<and> (found \<longrightarrow> with_peer e' a) \<and> wire e' = wire e"
  proof (cases known)
    case (Some p)
    then have e': "e' = e\<lparr>msgs := (msgs e)(a \<mapsto> m\<lparr>peer := Some p\<rparr>)\<rparr>" using assms(2) m known by (simp add: find_peer_def)
    obtain s where s: "p \<in> set (slavelist e)" "slaves e p = Some s" "maddr s = Some addr" using peer_at_found known Some by blast
    then have "slave_wf (nets e) s" using inv by (auto simp: minv_def slaves_ok_def)
    then have "ml2 s \<noteq> None" using s(3) by (auto simp: slave_wf_def split: option.splits)
    moreover have "received (m\<lparr>peer := Some p\<rparr>)" by (rule received_wire [OF _ m(2)]) (simp add: wire_part_def)
    then have "taken e' a" unfolding e' by (rule taken_msg [OF assms(1) m(1)])
    ultimately show ?thesis using s by (simp add: e' with_peer_def)
  next
    case None
    obtain d n mtu m1 where d: "is_casan_discover m = Some (d, n, mtu, m1)"
      using assms(2) m known None by (cases "is_casan_discover m") (auto simp: find_peer_def)
    have w1: "wire_part m1 = wire_part m" using untyped_eq [OF discover_untyped [OF d]] by blast
    define e1 where "e1 = e\<lparr>msgs := (msgs e)(a \<mapsto> m1)\<rparr>"
    have t1: "taken e1 a" unfolding e1_def using taken_msg [OF assms(1) m(1) received_wire [OF w1 m(2)]] .
    obtain sl where sl: "(if d then find_slave n e1 else Some None) = Some sl"
      using assms(2) m known None d by (cases "if d then find_slave n e1 else Some None") (auto simp: find_peer_def e1_def Let_def cong: if_cong)
    show ?thesis
    proof (cases sl)
      case None
      then have "e' = e1" "\<not> found" using assms(2) m known \<open>known = None\<close> d sl by (auto simp: find_peer_def e1_def Let_def cong: if_cong)
      then show ?thesis using t1 by (simp add: e1_def)
    next
      case (Some p)
      have p: "p \<in> set (slavelist e)" using find_slave_found [of n "slavelist e1" e1 p] sl Some by (auto simp: find_slave_def e1_def split: if_splits)
      obtain s r net where s: "slaves e p = Some s" "recvs e k = Some r" "nets e (rnet r) = Some net"
        "e' = e1\<lparr>msgs := (msgs e1)(a \<mapsto> m1\<lparr>peer := Some p\<rparr>),
           slaves := (slaves e1)(p \<mapsto> s\<lparr>ml2 := Some (rnet r), maddr := Some addr, mcurmtu := agreed_mtu (nmtu net) (mdefmtu s) mtu\<rparr>)\<rparr>"
        using assms(2) m known \<open>known = None\<close> d sl Some by (auto simp: find_peer_def e1_def Let_def bind_eq_Some_conv cong: if_cong)
      define s' where "s' = s\<lparr>ml2 := Some (rnet r), maddr := Some addr, mcurmtu := agreed_mtu (nmtu net) (mdefmtu s) mtu\<rparr>"
      have "1 \<le> nmtu net" using inv s(3) by (auto simp: minv_def nets_ok_def ran_def)
      then have wf: "slave_wf (nets e1) s'" using s(3) agreed_mtu_range by (simp add: slave_wf_def s'_def e1_def)
      define e2 where "e2 = e1\<lparr>slaves := (slaves e1)(p \<mapsto> s')\<rparr>"
      have "minv e2" unfolding e2_def using t1 wf by (intro minv_slave) (simp_all add: taken_def)
      then have t2: "taken e2 a" using t1 by (simp add: taken_def e2_def sending_def kept_def)
      have m2: "msgs e2 a = Some m1" by (simp add: e2_def e1_def)
      have rm: "received (m1\<lparr>peer := Some p\<rparr>)" by (rule received_wire [OF _ m(2)]) (use w1 in \<open>simp add: wire_part_def\<close>)
      have e'2: "e' = e2\<lparr>msgs := (msgs e2)(a \<mapsto> m1\<lparr>peer := Some p\<rparr>)\<rparr>" by (simp add: s(4) e2_def s'_def)
      have "taken e' a" unfolding e'2 by (rule taken_msg [OF t2 m2 rm])
      moreover have "with_peer e' a" using p by (simp add: e'2 with_peer_def e2_def e1_def s'_def)
      ultimately show ?thesis by (simp add: e'2 e2_def e1_def)
    qed
  qed
  then show "taken e' a" "found \<Longrightarrow> with_peer e' a" "wire e' = wire e" by blast+
qed

lemma correlate_found:
  assumes "correlate a e = Some (Some b)" "msgs e a = Some m"
  shows "b \<in> set (msglist e)" "mty m = MT_ACK \<or> mty m = MT_RST"
proof -
  have "with_id n bs h = Some (Some b) \<Longrightarrow> b \<in> set bs" for n bs h
    by (induction bs) (auto simp: bind_eq_Some_conv split: if_splits)
  then show "b \<in> set (msglist e)" "mty m = MT_ACK \<or> mty m = MT_RST" using assms by (auto simp: correlate_def split: if_splits)
qed

lemma linked_taken:
  assumes "taken e a" "with_peer e a" "correlate a e = Some (Some b)" "link_reqrep b (Some a) (msgs e) = Some h" "h b = Some q"
  shows "taken (e\<lparr>msgs := h(b \<mapsto> STOP_TRANSMIT q)\<rparr>) a" "with_peer (e\<lparr>msgs := h(b \<mapsto> STOP_TRANSMIT q)\<rparr>) a"
proof -
  obtain m where m: "msgs e a = Some m" "received m" using assms(1) by (auto simp: taken_def)
  note b = correlate_found [OF assms(3) m(1)]
  have bs: "b \<in> sending e" using b(1) by (simp add: sending_def)
  then have ne: "b \<noteq> a" using assms(1) by (auto simp: taken_def)
  obtain m1 where h: "msgs e b = Some m1" "h = (msgs e)(b \<mapsto> m1\<lparr>reqrep := Some a\<rparr>, a \<mapsto> m\<lparr>reqrep := Some b\<rparr>)"
    using assms(4) m(1) ne by (auto simp: link_reqrep_def bind_eq_Some_conv)
  define e1 where "e1 = e\<lparr>msgs := (msgs e)(b \<mapsto> STOP_TRANSMIT q)\<rparr>"
  have "minv e1"
  proof (rule minv_msgs [of e])
    fix d q' assume "d \<notin> sending e" "msgs e d = Some q'" "received q'"
    then show "\<exists>q'. msgs e1 d = Some q' \<and> received q'" using bs by (auto simp: e1_def)
  qed (use assms(1) in \<open>simp_all add: e1_def taken_def\<close>)
  then have "taken e1 a" using assms(1) m ne by (simp add: taken_def e1_def sending_def kept_def)
  moreover have "msgs e1 a = Some m" using m ne by (simp add: e1_def)
  moreover have "received (m\<lparr>reqrep := Some b\<rparr>)" using m(2) b(2) by (auto simp: received_def)
  moreover have "e\<lparr>msgs := h(b \<mapsto> STOP_TRANSMIT q)\<rparr> = e1\<lparr>msgs := (msgs e1)(a \<mapsto> m\<lparr>reqrep := Some b\<rparr>)\<rparr>"
    using ne by (simp add: e1_def h(2) fun_upd_twist)
  ultimately show "taken (e\<lparr>msgs := h(b \<mapsto> STOP_TRANSMIT q)\<rparr>) a" using taken_msg by metis
  show "with_peer (e\<lparr>msgs := h(b \<mapsto> STOP_TRANSMIT q)\<rparr>) a"
    using assms(2) m(1) ne by (auto simp: with_peer_def h(2))
qed

lemma dedup_val:
  assumes "taken e a" "msgs e a = Some m" "deduplicate now io k a e = Some (dup, e')"
  shows "\<exists>r m'. recvs e k = Some r \<and> wire_part m' = wire_part m \<and> peer m' = peer m \<and>
    e' = e\<lparr>msgs := (msgs e)(a \<mapsto> m'), recvs := (recvs e)(k \<mapsto> r\<lparr>deduplist := deduplist r @ [a]\<rparr>)\<rparr> \<and>
    (\<forall>d. dup = Some d \<longrightarrow> (\<exists>q. msgs e d = Some q \<and> reqrep q = None))"
proof -
  obtain r net where r: "recvs e k = Some r" "nets e (rnet r) = Some net" using assms(2,3) by (auto simp: deduplicate_def bind_eq_Some_conv)
  have rm: "received m" "minv e" using assms(1,2) by (auto simp: taken_def)
  show ?thesis
  proof (cases "mty m = MT_CON \<or> mty m = MT_NON")
    case False
    have "e\<lparr>msgs := (msgs e)(a \<mapsto> m)\<rparr> = e" using assms(2) by (simp add: fun_upd_idem)
    then show ?thesis using assms(2,3) r False
      by (intro exI [of _ r] exI [of _ m]) (auto simp: deduplicate_def)
  next
    case True
    note never = deduplicate_never_answers(2) [OF rm(2) assms(2) rm(1) r(1) True assms(3)]
    obtain org where org: "same_bytes_as m (deduplist r) (msgs e) = Some org"
      using assms(2,3) r True by (auto simp: deduplicate_def bind_eq_Some_conv)
    obtain rep where rep: "(case org of None \<Rightarrow> Some None | Some d \<Rightarrow> map_option reqrep (msgs e d)) = Some rep"
      using assms(2,3) r True org by (auto simp: deduplicate_def bind_eq_Some_conv)
    have d: "dup = org" using assms(2,3) r True org rep by (auto simp: deduplicate_def bind_eq_Some_conv)
    have "rep = None" using rep never d by (cases org) auto
    then show ?thesis
      using assms(2,3) r True org rep d never
      by (intro exI [of _ r] exI [of _ "m\<lparr>expire := now + EXCHANGE_LIFETIME (nlat net)\<rparr>"]) (auto simp: deduplicate_def wire_part_def)
  qed
qed

lemma dedup_inv:
  assumes "taken e a" "with_peer e a" "deduplicate now io k a e = Some (dup, e')"
  shows "minv e'" "with_peer e' a" "wire e' = wire e" "a < next_obj e'"
proof -
  obtain m where m: "msgs e a = Some m" "received m" using assms(1) by (auto simp: taken_def)
  obtain r m' where r: "recvs e k = Some r" "wire_part m' = wire_part m" "peer m' = peer m"
    "e' = e\<lparr>msgs := (msgs e)(a \<mapsto> m'), recvs := (recvs e)(k \<mapsto> r\<lparr>deduplist := deduplist r @ [a]\<rparr>)\<rparr>"
    using dedup_val [OF assms(1) m(1) assms(3)] by blast
  define e1 where "e1 = e\<lparr>msgs := (msgs e)(a \<mapsto> m')\<rparr>"
  have t: "taken e1 a" unfolding e1_def using taken_msg [OF assms(1) m(1) received_wire [OF r(2) m(2)]] .
  have e': "e' = e1\<lparr>recvs := (recvs e1)(k \<mapsto> r\<lparr>deduplist := deduplist r @ [a]\<rparr>)\<rparr>" by (simp add: r(4) e1_def)
  have r1: "recvs e1 k = Some r" using r(1) by (simp add: e1_def)
  define r2 where "r2 = r\<lparr>deduplist := deduplist r @ [a]\<rparr>"
  have u1: "x = r2 \<or> x \<in> ran (recvs e1)" if "x \<in> ran (recvs e')" for x
    using that by (auto simp: ran_def e' r2_def split: if_splits)
  have rr: "r \<in> ran (recvs e1)" using r1 by (auto simp: ran_def)
  have k: "kept e' \<subseteq> insert a (kept e1)"
  proof
    fix d assume "d \<in> kept e'"
    then obtain x where "x \<in> ran (recvs e')" "d \<in> set (deduplist x)" by (auto simp: kept_def)
    then show "d \<in> insert a (kept e1)" using u1 [of x] rr by (auto simp: kept_def r2_def)
  qed
  have s: "sending e' \<subseteq> sending e1"
  proof
    fix d assume "d \<in> sending e'"
    then consider "d \<in> set (msglist e1)" | x where "x \<in> ran (recvs e')" "d = hellomsg x" by (auto simp: sending_def e')
    then show "d \<in> sending e1"
    proof cases
      case 2
      then have "\<exists>y \<in> ran (recvs e1). d = hellomsg y" using u1 [of x] rr by (auto simp: r2_def)
      then show ?thesis by (auto simp: sending_def)
    qed (simp add: sending_def)
  qed
  have inv: "minv e1" "a \<notin> sending e1" "a < next_obj e1" using t by (simp_all add: taken_def)
  have "kept_ok e'"
    unfolding kept_ok_def
  proof
    fix d assume "d \<in> kept e'"
    then have "d = a \<or> d \<in> kept e1" using k by blast
    then show "\<exists>q. msgs e' d = Some q \<and> received q" using t inv(1) by (auto simp: taken_def minv_def kept_ok_def e')
  qed
  moreover have "sending e' \<inter> kept e' = {}" using inv k s by (fastforce simp: minv_def)
  moreover have "\<forall>x \<in> sending e' \<union> kept e' \<union> dom (recvs e'). x < next_obj e'"
  proof
    fix x assume "x \<in> sending e' \<union> kept e' \<union> dom (recvs e')"
    then have "x = a \<or> x \<in> sending e1 \<union> kept e1 \<union> dom (recvs e1)" using k s r1 by (auto simp: e' split: if_splits)
    then show "x < next_obj e'" using minv_old [OF inv(1)] inv(3) by (auto simp: e')
  qed
  moreover have "nets_ok e'" "slaves_ok e'" using inv(1) by (simp_all add: minv_def nets_ok_def slaves_ok_def e')
  ultimately show "minv e'" by (simp add: minv_def)
  show "with_peer e' a" using assms(2) m(1) r(3) by (auto simp: with_peer_def r(4))
  show "wire e' = wire e" "a < next_obj e'" using inv(3) by (simp_all add: r(4) e1_def)
qed

lemma casan_type_inv:
  assumes "minv e" "with_peer e a" "casan_type b (msgs e) = Some (tp, h)"
  shows "minv (e\<lparr>msgs := h\<rparr>)" "with_peer (e\<lparr>msgs := h\<rparr>) a"
proof -
  note u = casan_type_untyped [OF assms(3)]
  show "minv (e\<lparr>msgs := h\<rparr>)"
  proof (rule minv_msgs [OF assms(1)])
    fix d q assume "msgs e d = Some q" "received q"
    then show "\<exists>q'. msgs (e\<lparr>msgs := h\<rparr>) d = Some q' \<and> received q'" using untyped_heap_received [OF u] received_wire by fastforce
  qed simp_all
  show "with_peer (e\<lparr>msgs := h\<rparr>) a" using assms(2) untyped_heap_received [OF u] unfolding with_peer_def by fastforce
qed

lemma process_inv:
  assumes "minv e" "with_peer e a" "msgs e a = Some m" "peer m = Some p" "process_casan now p a e = Some e'"
  shows "minv e' \<and> wire e' = wire e"
proof -
  obtain tp h where h: "casan_type a (msgs e) = Some (tp, h)" using assms(5) by (auto simp: process_casan_def bind_eq_Some_conv)
  define e1 where "e1 = e\<lparr>msgs := h\<rparr>"
  have 1: "minv e1" "with_peer e1 a" using casan_type_inv [OF assms(1,2) h] by (simp_all add: e1_def)
  obtain m1 where m1: "h a = Some m1" "peer m1 = Some p" using untyped_heap_received [OF casan_type_untyped [OF h] assms(3)] assms(4) by auto
  obtain s where s: "slaves e1 p = Some s" "ml2 s \<noteq> None" "p \<in> set (slavelist e1)" using 1(2) m1 by (auto simp: with_peer_def e1_def)
  have wf: "slave_wf (nets e1) s" using 1(1) s by (auto simp: minv_def slaves_ok_def)
  have run: "slave_wf (nets e1) (s\<lparr>mstatus := MS_RUNNING, mreslist := rs, ttl_end := t\<rparr>)" for rs t
    using wf s(2) by (auto simp: slave_wf_def split: option.splits)
  have "(\<exists>m2. e' = add_request (next_obj e1) (e1\<lparr>msgs := (msgs e1)(next_obj e1 \<mapsto> m2), next_obj := next_obj e1 + 1\<rparr>)) \<or>
    (\<exists>rs t. e' = e1\<lparr>slaves := (slaves e1)(p \<mapsto> s\<lparr>mstatus := MS_RUNNING, mreslist := rs, ttl_end := t\<rparr>)\<rparr>) \<or> e' = e1"
    using assms(5) h m1(1) s(1) by (auto simp: process_casan_def e1_def bind_eq_Some_conv Let_def add_request_def split: if_splits)
  then show ?thesis
    using minv_request [OF 1(1)] minv_slave [OF 1(1) run] 1(1) by (auto simp: e1_def add_request_def)
qed

lemma handle_inv:
  assumes "taken e a" "with_peer e a" "handle_message i k a e = Some e'"
  shows "minv e' \<and> wire e' = wire e"
proof -
  obtain dup e1 where d: "deduplicate (at_dedup i) (answers i) k a e = Some (dup, e1)"
    using assms(3) by (auto simp: handle_message_def bind_eq_Some_conv)
  note 1 = dedup_inv [OF assms(1,2) d]
  obtain answered where an: "(case dup of None \<Rightarrow> Some False | Some d \<Rightarrow> map_option (\<lambda>q. reqrep q \<noteq> None) (msgs e1 d)) = Some answered"
    using assms(3) d by (auto simp: handle_message_def bind_eq_Some_conv)
  show ?thesis
  proof (cases answered)
    case True
    then show ?thesis using assms(3) d an 1 by (simp add: handle_message_def)
  next
    case False
    obtain tp h where h: "casan_type a (msgs e1) = Some (tp, h)" using assms(3) d an False by (auto simp: handle_message_def bind_eq_Some_conv)
    note 2 = casan_type_inv [OF 1(1,2) h]
    show ?thesis
    proof (cases "tp = CASAN_NONE")
      case True
      then have "e' = e1\<lparr>msgs := h\<rparr>" using assms(3) d an False h by (auto simp: handle_message_def bind_eq_Some_conv)
      then show ?thesis using 2(1) 1(3) by simp
    next
      case c: False
      obtain m p where m: "h a = Some m" "peer m = Some p" "process_casan (at_casan i) p a (e1\<lparr>msgs := h\<rparr>) = Some e'"
        using assms(3) d an False h c by (auto simp: handle_message_def bind_eq_Some_conv)
      then show ?thesis using process_inv [OF 2, of m p] 1(3) by simp
    qed
  qed
qed

lemma reply_inv:
  assumes "taken e a" "with_peer e a" "reply_or_handle i k a e = Some e'"
  shows "minv e' \<and> wire e' = wire e"
proof -
  have inv: "minv e" using assms(1) by (simp add: taken_def)
  obtain org where org: "correlate a e = Some org" using assms(3) by (auto simp: reply_or_handle_def bind_eq_Some_conv)
  show ?thesis
  proof (cases org)
    case None
    then show ?thesis using assms(3) org handle_inv [OF assms(1,2)] by (simp add: reply_or_handle_def)
  next
    case o: (Some b)
    obtain q where q: "msgs e b = Some q" using assms(3) org o by (auto simp: reply_or_handle_def bind_eq_Some_conv)
    show ?thesis
    proof (cases "reqrep q = None")
      case False
      then show ?thesis using assms(3) org o q inv by (auto simp: reply_or_handle_def)
    next
      case n: True
      obtain h where h0: "link_reqrep b (Some a) (msgs e) = Some h" using assms(3) org o q n by (auto simp: reply_or_handle_def bind_eq_Some_conv)
      obtain q' where h: "h b = Some q'" using assms(3) org o q n h0 by (auto simp: reply_or_handle_def bind_eq_Some_conv)
      define e1 where "e1 = e\<lparr>msgs := h(b \<mapsto> STOP_TRANSMIT q')\<rparr>"
      note t3 = linked_taken [OF assms(1,2) org [unfolded o] h0 h, folded e1_def]
      have run: "(case waiter q' of Some w \<Rightarrow> Some (e1\<lparr>woken := woken e1 @ [w]\<rparr>) | None \<Rightarrow> handle_message i k a e1) = Some e'"
        using assms(3) org o q n h0 h by (simp add: reply_or_handle_def e1_def Let_def cong: option.case_cong)
      show ?thesis
      proof (cases "waiter q'")
        case None
        then show ?thesis using handle_inv [OF t3] run by (simp add: e1_def)
      next
        case (Some w')
        then have e': "e' = e1\<lparr>woken := woken e1 @ [w']\<rparr>" using run by simp
        have "minv e1" using t3(1) by (simp add: taken_def)
        then have "minv e'" unfolding e' by (rule minv_msgs) simp_all
        then show ?thesis by (simp add: e' e1_def)
      qed
    qed
  qed
qed

lemma receiver_inv:
  assumes "minv e" "0 < fst (snd (snd (packet i)))" "receiver_turn i k e = Some e'"
  shows "minv e' \<and> wire e' = wire e"
proof -
  obtain kd b len addr where pk: "packet i = (kd, b, len, addr)" by (cases "packet i")
  obtain r net src m where r: "recvs e k = Some r" "nets e (rnet r) = Some net" "master_recv (packet i) master_msg_new = Some (src, m)"
    using assms(3) by (auto simp: receiver_turn_def bind_eq_Some_conv Let_def)
  show ?thesis
  proof (cases src)
    case None
    then show ?thesis using assms r by (simp add: receiver_turn_def)
  next
    case (Some a0)
    define a where "a = next_obj e"
    define m0 where "m0 = m\<lparr>expire := at_recv i + EXCHANGE_LIFETIME (nlat net)\<rparr>"
    define e0 where "e0 = e\<lparr>msgs := (msgs e)(a \<mapsto> m0), next_obj := a + 1\<rparr>"
    have rm: "received m" using master_recv_received(1) [of kd b len addr master_msg_new a0 m] r(3) Some assms(2) by (simp add: pk)
    have "received m0" by (rule received_wire [OF _ rm]) (simp add: m0_def wire_part_def)
    then have t0: "taken e0 a" using arrive [OF assms(1)] by (simp add: e0_def a_def)
    obtain e1 where e1: "clean_deduplist (at_clean i) k e0 = Some e1"
      using assms(3) r Some by (auto simp: receiver_turn_def bind_eq_Some_conv Let_def e0_def a_def m0_def)
    obtain found e2 where e2: "find_peer a a0 k e1 = Some (found, e2)"
      using assms(3) r Some e1 by (auto simp: receiver_turn_def bind_eq_Some_conv Let_def e0_def a_def m0_def)
    note t1 = clean_taken [OF t0 e1]
    note t2 = find_peer_taken [OF t1(1) e2]
    have w: "wire e2 = wire e" using t1 t2 by (simp add: e0_def)
    have rest: "(if found then reply_or_handle i k a e2 else Some e2) = Some e'"
      using assms(3) r Some e1 e2 by (simp add: receiver_turn_def Let_def e0_def a_def m0_def cong: if_cong)
    have inv2: "minv e2" using t2(1) by (simp add: taken_def)
    show ?thesis
    proof (cases found)
      case False
      then show ?thesis using rest inv2 w by simp
    qed (use rest reply_inv [OF t2(1,2)] w in simp)
  qed
qed

lemma mstep_inv: "mstep e e' \<Longrightarrow> minv e \<Longrightarrow> minv e'"
  by (induction rule: mstep.induct) (use minv_sender receiver_inv minv_request minv_add_slave minv_start_net in blast)+





text \<open>A GET from an unknown address.\<close>

definition sample_packet :: recv_in where
  "sample_packet = \<lparr>packet = (PK_ME, [0x40, 1, 0, 1, 0, 0], 4, [9]), at_recv = 5, at_clean = 5, at_dedup = 5, at_casan = 5, answers = (\<lambda>a. sample_io 0 True)\<rparr>"


end
