(* ===== verification/Master_Association.thy ===== *)
theory Master_Association
  imports Master_Engine_Inv
begin

text \<open>
  The association as the master sees it: the answer to a Discover, and what completes the association.
\<close>

section \<open>The association\<close>

lemma keep_live_ok: "\<forall>d \<in> set ds. \<exists>q. h d = Some q \<Longrightarrow> \<exists>l. keep_live now h ds = Some l \<and> set l \<subseteq> set ds"
proof (induction ds)
  case (Cons d ds)
  then obtain l q where "keep_live now h ds = Some l" "set l \<subseteq> set ds" "h d = Some q" by auto
  then show ?case by auto
qed simp

lemma same_bytes_ok:
  assumes "\<forall>d \<in> set ds. \<exists>q. h d = Some q \<and> received q \<and> binlen q \<le> int (length (the (bin q)))" "received m" "binlen m \<le> int (length (the (bin m)))"
  shows "\<exists>org. same_bytes_as m ds h = Some org"
  using assms(1)
proof (induction ds)
  case (Cons d ds)
  then obtain q where q: "h d = Some q" "received q" "binlen q \<le> int (length (the (bin q)))" by auto
  have "master_msg_eq m q \<noteq> None"
    using q(2,3) assms(2,3) by (auto simp: master_msg_eq_def received_def memeq_def)
  then show ?case using Cons q(1) by (cases "master_msg_eq m q") auto
qed simp

text \<open>Up to the search for the sender.\<close>

lemma receiver_start:
  assumes "minv e" "recvs e k = Some r" "nets e (rnet r) = Some net" "master_recv (packet i) master_msg_new = Some (Some addr, m)"
  defines "a \<equiv> next_obj e"
  defines "e1 \<equiv> e\<lparr>msgs := (msgs e)(a \<mapsto> m\<lparr>expire := at_recv i + EXCHANGE_LIFETIME (nlat net)\<rparr>), next_obj := a + 1\<rparr>"
  shows "\<exists>l. set l \<subseteq> set (deduplist r) \<and> receiver_turn i k e = do {
    (found, e) \<leftarrow> find_peer a addr k (e1\<lparr>recvs := (recvs e)(k \<mapsto> r\<lparr>deduplist := l\<rparr>)\<rparr>);
    if found then reply_or_handle i k a e else Some e }"
proof -
  have "\<exists>q. msgs e1 d = Some q" if d: "d \<in> set (deduplist r)" for d
  proof -
    have "d \<in> kept e" using d assms(2) by (auto simp: kept_def ran_def)
    then show ?thesis using assms(1) by (auto simp: minv_def kept_ok_def e1_def)
  qed
  then obtain l where l: "keep_live (at_clean i) (msgs e1) (deduplist r) = Some l" "set l \<subseteq> set (deduplist r)"
    using keep_live_ok [of "deduplist r" "msgs e1" "at_clean i"] by blast
  have "recvs e1 k = Some r" "recvs e1 = recvs e" using assms(2) by (simp_all add: e1_def)
  then have "clean_deduplist (at_clean i) k e1 = Some (e1\<lparr>recvs := (recvs e)(k \<mapsto> r\<lparr>deduplist := l\<rparr>)\<rparr>)"
    using l(1) by (simp add: clean_deduplist_def)
  then show ?thesis
    using assms(2-4) l(2) by (intro exI [of _ l]) (simp add: receiver_turn_def Let_def e1_def a_def cong: if_cong)
qed

lemma recv_received: "master_recv pk m0 = Some (Some a, m) \<Longrightarrow> 0 < fst (snd (snd pk)) \<Longrightarrow> received m \<and> reqrep m = None \<and> ctype m = CASAN_UNKNOWN"
  using master_recv_received by (cases pk) auto

lemma same_slaves:
  assumes "slaves x = slaves e"
  shows "peer_at addr ps x = peer_at addr ps e" "find_slave_loop n ps x = find_slave_loop n ps e"
  by (induction ps) (simp_all add: assms cong: if_cong)

text \<open>The message of an unknown slave that announces itself.\<close>

lemma handle_discover:
  assumes "minv e" "recvs e k = Some r" "nets e (rnet r) = Some net" "deduplist r = []" "a < next_obj e"
    and "msgs e a = Some m" "mty m = MT_NON" "ctype m = CASAN_DISCOVER" "peer m = Some p" "slaves e p = Some s"
    and "associate_msg s (Some p) = Some q"
  shows "\<exists>e'. handle_message i k a e = Some e' \<and> slaves e' = slaves e \<and> msglist e' = next_obj e # msglist e \<and> msgs e' (next_obj e) = Some q \<and>
    (\<forall>b. b \<noteq> a \<longrightarrow> b < next_obj e \<longrightarrow> msgs e' b = msgs e b) \<and> nets e' = nets e \<and> slavelist e' = slavelist e \<and> receivers e' = receivers e \<and>
    recvs e' = (recvs e)(k \<mapsto> r\<lparr>deduplist := [a]\<rparr>) \<and> wire e' = wire e \<and> global_id e' = global_id e"
proof -
  define m1 where "m1 = m\<lparr>expire := at_dedup i + EXCHANGE_LIFETIME (nlat net)\<rparr>"
  define e1 where "e1 = e\<lparr>msgs := (msgs e)(a \<mapsto> m1), recvs := (recvs e)(k \<mapsto> r\<lparr>deduplist := [a]\<rparr>)\<rparr>"
  have d: "deduplicate (at_dedup i) (answers i) k a e = Some (None, e1)"
    using assms(2-7) by (simp add: deduplicate_def e1_def m1_def)
  have m1: "ctype m1 = CASAN_DISCOVER" "peer m1 = Some p" "msgs e1 a = Some m1" using assms(8,9) by (simp_all add: m1_def e1_def)
  have t: "casan_type a (msgs e1) = Some (CASAN_DISCOVER, msgs e1)" using m1 by (simp add: casan_type_def)
  have e1: "next_obj e1 = next_obj e" "slaves e1 p = Some s" using assms(10) by (simp_all add: e1_def)
  have "process_casan (at_casan i) p a e1 = Some (add_request (next_obj e) (e1\<lparr>msgs := (msgs e1)(next_obj e \<mapsto> q), next_obj := next_obj e + 1\<rparr>))"
    using t m1 e1 assms(11) by (simp add: process_casan_def Let_def)
  then have "handle_message i k a e = Some (add_request (next_obj e) (e1\<lparr>msgs := (msgs e1)(next_obj e \<mapsto> q), next_obj := next_obj e + 1\<rparr>))"
    using d t m1 by (simp add: handle_message_def)
  then show ?thesis using assms(5) by (simp add: add_request_def e1_def)
qed

text \<open>
  A slave that announces itself is asked to associate: when the frame of an unknown address is a
  Discover with the id of a registered slave, the slave gets the network and the address the frame came
  from and the smallest of the MTUs of the network, the configuration and the announcement, of those that
  are set, and a confirmable request is queued for it that carries the time to live and this MTU.
\<close>
lemma discover_answered:
  assumes "minv e" "recvs e k = Some r" "nets e (rnet r) = Some net" "deduplist r = []"
    and "master_recv (packet i) master_msg_new = Some (Some addr, m)" "is_casan_discover m = Some (True, n, mtu, m')"
    and "peer_at addr (slavelist e) e = Some None" "find_slave n e = Some (Some p)" "slaves e p = Some s"
    and "associate_msg (s\<lparr>mcurmtu := agreed_mtu (nmtu net) (mdefmtu s) mtu\<rparr>) (Some p) = Some q"
    and "0 < fst (snd (snd (packet i)))"
  shows "\<exists>e' b. receiver_turn i k e = Some e' \<and>
    slaves e' = (slaves e)(p \<mapsto> s\<lparr>ml2 := Some (rnet r), maddr := Some addr, mcurmtu := agreed_mtu (nmtu net) (mdefmtu s) mtu\<rparr>) \<and>
    msglist e' = b # msglist e \<and> msgs e' b = Some q \<and> b \<notin> set (msglist e) \<and> (\<forall>c \<in> set (msglist e). msgs e' c = msgs e c) \<and>
    nets e' = nets e \<and> slavelist e' = slavelist e \<and> receivers e' = receivers e \<and> wire e' = wire e \<and> global_id e' = global_id e \<and>
    (\<exists>d. recvs e' = (recvs e)(k \<mapsto> r\<lparr>deduplist := d\<rparr>))"
proof -
  define a where "a = next_obj e"
  define m0 where "m0 = m\<lparr>expire := at_recv i + EXCHANGE_LIFETIME (nlat net)\<rparr>"
  define e1 where "e1 = e\<lparr>msgs := (msgs e)(a \<mapsto> m0), next_obj := a + 1\<rparr>"
  have u: "ctype m = CASAN_UNKNOWN"
    using recv_received [OF assms(5,11)] by simp
  have ty: "mty m = MT_NON" "m' = m\<lparr>ctype := CASAN_DISCOVER\<rparr>" and sq: "0 < n"
    using assms(6) u by (auto simp: is_casan_discover_def bind_eq_Some_conv Let_def split: if_splits)
  have d: "is_casan_discover m0 = Some (True, n, mtu, m0\<lparr>ctype := CASAN_DISCOVER\<rparr>)"
    using assms(6) u by (auto simp: is_casan_discover_def is_casan_ctl_msg_def m0_def bind_eq_Some_conv Let_def split: if_splits)
  define s' where "s' = s\<lparr>ml2 := Some (rnet r), maddr := Some addr, mcurmtu := agreed_mtu (nmtu net) (mdefmtu s) mtu\<rparr>"
  define e2 where "e2 = e1\<lparr>msgs := (msgs e1)(a \<mapsto> m0\<lparr>ctype := CASAN_DISCOVER, peer := Some p\<rparr>), slaves := (slaves e1)(p \<mapsto> s')\<rparr>"
  have fp: "find_peer a addr k e1 = Some (True, e2)"
    using assms(2,3,7-9) same_slaves [of e1 e] same_slaves(2) [of "e1\<lparr>msgs := (msgs e1)(a \<mapsto> m0\<lparr>ctype := CASAN_DISCOVER\<rparr>)\<rparr>" e] d
    by (simp add: find_peer_def find_slave_def e2_def s'_def e1_def)
  have cor: "correlate a e2 = Some None" using ty(1) by (simp add: correlate_def e2_def m0_def)
  have rm: "received m0" by (rule received_wire [of _ m]) (use recv_received [OF assms(5,11)] in \<open>simp_all add: m0_def wire_part_def\<close>)
  have "taken e1 a" using arrive [OF assms(1) rm] by (simp add: e1_def a_def)
  then have inv: "minv e2" "a < next_obj e2" using find_peer_taken(1) [OF _ fp] by (simp_all add: taken_def)
  have as: "associate_msg s' (Some p) = Some q" using assms(10) by (simp add: associate_msg_def s'_def)
  have old: "c < a" if "c \<in> set (msglist e)" for c using minv_old [OF assms(1), of c] that by (simp add: a_def sending_def)
  have e2: "recvs e2 k = Some r" "nets e2 (rnet r) = Some net" "msgs e2 a = Some (m0\<lparr>ctype := CASAN_DISCOVER, peer := Some p\<rparr>)" "slaves e2 p = Some s'"
    "next_obj e2 = a + 1" "mty (m0\<lparr>ctype := CASAN_DISCOVER, peer := Some p\<rparr>) = MT_NON" "ctype (m0\<lparr>ctype := CASAN_DISCOVER, peer := Some p\<rparr>) = CASAN_DISCOVER"
    "peer (m0\<lparr>ctype := CASAN_DISCOVER, peer := Some p\<rparr>) = Some p"
    using assms(2,3) ty(1) by (simp_all add: e2_def e1_def m0_def)
  obtain e' where e': "handle_message i k a e2 = Some e'" "slaves e' = slaves e2" "msglist e' = (a + 1) # msglist e2" "msgs e' (a + 1) = Some q"
    "\<forall>b. b \<noteq> a \<longrightarrow> b < a + 1 \<longrightarrow> msgs e' b = msgs e2 b" "nets e' = nets e2" "slavelist e' = slavelist e2" "receivers e' = receivers e2"
    "recvs e' = (recvs e2)(k \<mapsto> r\<lparr>deduplist := [a]\<rparr>)" "wire e' = wire e2" "global_id e' = global_id e2"
    using handle_discover [OF inv(1) e2(1,2) assms(4) inv(2) e2(3,6-8,4) as, of i] unfolding e2(5) by blast
  have "e1\<lparr>recvs := (recvs e)(k \<mapsto> r\<lparr>deduplist := []\<rparr>)\<rparr> = e1"
  proof -
    have r: "r\<lparr>deduplist := []\<rparr> = r" "(recvs e)(k \<mapsto> r) = recvs e" using assms(2,4) by (simp_all add: fun_upd_idem)
    show ?thesis unfolding r by (simp add: e1_def)
  qed
  then have run: "receiver_turn i k e = Some e'"
    using receiver_start [OF assms(1-3,5), folded a_def, folded m0_def, folded e1_def] assms(4) fp cor e'(1) by (auto simp: reply_or_handle_def)
  have "\<forall>c \<in> set (msglist e). msgs e' c = msgs e c"
  proof
    fix c assume "c \<in> set (msglist e)"
    then have "c < a" by (rule old)
    then show "msgs e' c = msgs e c" using e'(5) by (simp add: e2_def e1_def)
  qed
  moreover have "a + 1 \<notin> set (msglist e)" using old by fastforce
  moreover have "slaves e' = (slaves e)(p \<mapsto> s')" "msglist e' = (a + 1) # msglist e" "nets e' = nets e" "slavelist e' = slavelist e"
    "receivers e' = receivers e" "wire e' = wire e" "global_id e' = global_id e" "recvs e' = (recvs e)(k \<mapsto> r\<lparr>deduplist := [a]\<rparr>)"
    using e' by (simp_all add: e2_def e1_def)
  ultimately show ?thesis using run e'(4) unfolding s'_def by (intro exI [of _ e'] exI [of _ "a + 1"]) blast
qed


lemma payload_of_fields: "plen m' = plen m \<Longrightarrow> pload m' = pload m \<Longrightarrow> payload_of m' = payload_of m"
  by (simp add: payload_of_def)

lemma ctl_linked: "is_casan_ctl_msg (m\<lparr>reqrep := x, ntrans := y\<rparr>) = is_casan_ctl_msg m"
  by (simp add: is_casan_ctl_msg_def)

lemma discover_linked:
  assumes "is_casan_discover m = Some (d, n, mtu, m')"
  shows "is_casan_discover (m\<lparr>reqrep := x, ntrans := y\<rparr>) = Some (d, n, mtu, m'\<lparr>reqrep := x, ntrans := y\<rparr>)"
proof -
  obtain c where c: "(if mty m = MT_NON \<and> mcd m = MC_POST then is_casan_ctl_msg m else Some False) = Some c"
    using assms by (cases "if mty m = MT_NON \<and> mcd m = MC_POST then is_casan_ctl_msg m else Some False") (simp_all add: is_casan_discover_def)
  obtain l where l: "(if c then discover_loop (opts m) 0 0 else Some (0, 0)) = Some l"
    using assms c by (cases "if c then discover_loop (opts m) 0 0 else Some (0, 0)") (simp_all add: is_casan_discover_def)
  show ?thesis
    using assms c l by (cases c; cases l) (auto simp: is_casan_discover_def ctl_linked Let_def)
qed

lemma associate_linked:
  assumes "is_casan_associate m = Some (d, m')"
  shows "is_casan_associate (m\<lparr>reqrep := x, ntrans := y\<rparr>) = Some (d, m'\<lparr>reqrep := x, ntrans := y\<rparr>)"
proof (cases "ctype m = CASAN_UNKNOWN")
  case True
  obtain c where c: "(if mty m = MT_CON \<and> mcd m = MC_POST then is_casan_ctl_msg m else Some False) = Some c"
    using assms True by (cases "if mty m = MT_CON \<and> mcd m = MC_POST then is_casan_ctl_msg m else Some False") (simp_all add: is_casan_associate_def)
  obtain f where f: "(if c then associate_loop (opts m) False else Some False) = Some f"
    using assms True c by (cases "if c then associate_loop (opts m) False else Some False") (simp_all add: is_casan_associate_def)
  show ?thesis using assms True c f by (cases c; cases f) (auto simp: is_casan_associate_def ctl_linked Let_def split: if_splits)
qed (use assms in \<open>auto simp: is_casan_associate_def\<close>)

lemma alone_linked:
  assumes "casan_type_alone m = Some (t, m')"
  shows "casan_type_alone (m\<lparr>reqrep := x, ntrans := y\<rparr>) = Some (t, m'\<lparr>reqrep := x, ntrans := y\<rparr>)"
proof (cases "ctype m = CASAN_UNKNOWN")
  case True
  obtain d n mtu m1 where d: "is_casan_discover m = Some (d, n, mtu, m1)"
    using assms True by (cases "is_casan_discover m") (auto simp: casan_type_alone_def)
  obtain s m2 where s: "(if d then Some (True, m1) else is_casan_associate m1) = Some (s, m2)"
    using assms True d by (cases "if d then Some (True, m1) else is_casan_associate m1") (auto simp: casan_type_alone_def)
  have "(if d then Some (True, m1\<lparr>reqrep := x, ntrans := y\<rparr>) else is_casan_associate (m1\<lparr>reqrep := x, ntrans := y\<rparr>)) = Some (s, m2\<lparr>reqrep := x, ntrans := y\<rparr>)"
    using s associate_linked [of m1 s m2] by (cases d) auto
  then show ?thesis
    using assms True d s discover_linked [OF d, where x = x and y = y] by (auto simp: casan_type_alone_def Let_def)
qed (use assms in \<open>auto simp: casan_type_alone_def\<close>)

text \<open>The reply to a pending association, from the correlation on.\<close>

lemma handle_reply:
  assumes "recvs e k = Some r" "nets e (rnet r) = Some net" "msgs e a = Some m" "mty m = MT_ACK \<or> mty m = MT_RST"
    and "ctype m = CASAN_UNKNOWN" "peer m = Some p" "slaves e p = Some s" "reqrep m = Some b" "b \<noteq> a"
    and "msgs e b = Some q" "casan_type_alone q = Some (CASAN_ASSOC_REQUEST, q')"
    and "payload_of m = Some pl" "parse_resource_list pl = Some (True, rs)"
  shows "\<exists>e'. handle_message i k a e = Some e' \<and>
    slaves e' = (slaves e)(p \<mapsto> s\<lparr>mstatus := MS_RUNNING, mreslist := rs, ttl_end := at_casan i + 1000 * init_ttl s\<rparr>) \<and> msglist e' = msglist e"
proof -
  define e1 where "e1 = e\<lparr>recvs := (recvs e)(k \<mapsto> r\<lparr>deduplist := deduplist r @ [a]\<rparr>)\<rparr>"
  have d: "deduplicate (at_dedup i) (answers i) k a e = Some (None, e1)"
    using assms(1-4) by (auto simp: deduplicate_def e1_def)
  have n: "mty m \<noteq> MT_NON" "mty m \<noteq> MT_CON" using assms(4) by auto
  define m1 where "m1 = m\<lparr>ctype := CASAN_ASSOC_ANSWER\<rparr>"
  define h where "h = (msgs e)(b \<mapsto> q', a \<mapsto> m1)"
  have disc: "is_casan_discover m = Some (False, 0, 0, m)" using n(1) assms(5) by (simp add: is_casan_discover_def)
  have assoc: "is_casan_associate m = Some (False, m)" using n(2) assms(5) by (simp add: is_casan_associate_def)
  have "casan_type a (msgs e1) = Some (CASAN_ASSOC_ANSWER, (msgs e)(a \<mapsto> m, b \<mapsto> q', a \<mapsto> m1, a \<mapsto> m1))"
    using assms(3,5,8-11) disc assoc by (simp add: casan_type_def e1_def m1_def Let_def)
  moreover have "(msgs e)(a \<mapsto> m, b \<mapsto> q', a \<mapsto> m1, a \<mapsto> m1) = h" using assms(9) by (simp add: h_def fun_upd_twist)
  ultimately have t: "casan_type a (msgs e1) = Some (CASAN_ASSOC_ANSWER, h)" by simp
  define e2 where "e2 = e1\<lparr>msgs := h\<rparr>"
  have h: "h a = Some m1" "peer m1 = Some p" "reqrep m1 = Some b" "payload_of m1 = Some pl"
    using assms(6,8,12) payload_of_fields [of m1 m] by (simp_all add: h_def m1_def)
  have t2: "casan_type a h = Some (CASAN_ASSOC_ANSWER, h)" using h(1) by (simp add: casan_type_def m1_def)
  have "process_casan (at_casan i) p a e2 =
      Some (e2\<lparr>slaves := (slaves e2)(p \<mapsto> s\<lparr>mstatus := MS_RUNNING, mreslist := rs, ttl_end := at_casan i + 1000 * init_ttl s\<rparr>)\<rparr>)"
    using t2 h assms(7,13) by (simp add: process_casan_def e2_def e1_def Let_def)
  then have "handle_message i k a e =
      Some (e2\<lparr>slaves := (slaves e2)(p \<mapsto> s\<lparr>mstatus := MS_RUNNING, mreslist := rs, ttl_end := at_casan i + 1000 * init_ttl s\<rparr>)\<rparr>)"
    using d t h by (simp add: handle_message_def e2_def)
  then show ?thesis by (simp add: e2_def e1_def)
qed

lemma reply_associates:
  assumes "minv e" "recvs e k = Some r" "nets e (rnet r) = Some net"
    and "master_recv (packet i) master_msg_new = Some (Some addr, m)" "0 < fst (snd (snd (packet i)))"
    and "mty m = MT_ACK \<or> mty m = MT_RST" "payload_of m = Some pl" "parse_resource_list pl = Some (True, rs)"
    and "peer_at addr (slavelist e) e = Some (Some p)" "slaves e p = Some s"
    and "with_id (ident m) (msglist e) (msgs e) = Some (Some b)"
    and "msgs e b = Some q" "reqrep q = None" "waiter q = None" "casan_type_alone q = Some (CASAN_ASSOC_REQUEST, q')"
  shows "\<exists>e'. receiver_turn i k e = Some e' \<and>
    slaves e' = (slaves e)(p \<mapsto> s\<lparr>mstatus := MS_RUNNING, mreslist := rs, ttl_end := at_casan i + 1000 * init_ttl s\<rparr>)"
proof -
  define a where "a = next_obj e"
  define m0 where "m0 = m\<lparr>expire := at_recv i + EXCHANGE_LIFETIME (nlat net)\<rparr>"
  obtain l where l: "receiver_turn i k e = do {
    (found, e) \<leftarrow> find_peer a addr k (e\<lparr>msgs := (msgs e)(a \<mapsto> m0), next_obj := a + 1, recvs := (recvs e)(k \<mapsto> r\<lparr>deduplist := l\<rparr>)\<rparr>);
    if found then reply_or_handle i k a e else Some e }"
    using receiver_start [OF assms(1-4), folded a_def, folded m0_def] by blast
  define e1 where "e1 = e\<lparr>msgs := (msgs e)(a \<mapsto> m0), next_obj := a + 1, recvs := (recvs e)(k \<mapsto> r\<lparr>deduplist := l\<rparr>)\<rparr>"
  define e2 where "e2 = e1\<lparr>msgs := (msgs e1)(a \<mapsto> m0\<lparr>peer := Some p\<rparr>)\<rparr>"
  have fp: "find_peer a addr k e1 = Some (True, e2)"
    using assms(9) same_slaves [of e1 e] by (simp add: find_peer_def e2_def e1_def)
  have bl: "b \<in> set (msglist e)"
  proof -
    have "with_id n bs h = Some (Some b) \<Longrightarrow> b \<in> set bs" for n bs h
      by (induction bs) (auto simp: bind_eq_Some_conv split: if_splits)
    then show ?thesis using assms(11) by blast
  qed
  have old: "c < a" if "c \<in> set (msglist e)" for c using minv_old [OF assms(1), of c] that by (simp add: a_def sending_def)
  have ba: "b \<noteq> a" using old [OF bl] by simp
  have ids: "with_id n cs (h(a \<mapsto> x)) = with_id n cs h" if "a \<notin> set cs" for n cs h x
    using that by (induction cs) (auto cong: if_cong)
  have "a \<notin> set (msglist e)" using old by blast
  then have cor: "correlate a e2 = Some (Some b)"
    using assms(6,11) ids by (simp add: correlate_def e2_def e1_def m0_def)
  define e3 where "e3 = e2\<lparr>msgs := (msgs e2)(b \<mapsto> q\<lparr>reqrep := Some a\<rparr>, a \<mapsto> m0\<lparr>peer := Some p, reqrep := Some b\<rparr>, b \<mapsto> STOP_TRANSMIT (q\<lparr>reqrep := Some a\<rparr>))\<rparr>"
  have "reply_or_handle i k a e2 = handle_message i k a e3"
    using cor assms(12-14) ba by (simp add: reply_or_handle_def link_reqrep_def e3_def e2_def e1_def Let_def)
  moreover have "\<exists>e'. handle_message i k a e3 = Some e' \<and>
    slaves e' = (slaves e3)(p \<mapsto> s\<lparr>mstatus := MS_RUNNING, mreslist := rs, ttl_end := at_casan i + 1000 * init_ttl s\<rparr>) \<and> msglist e' = msglist e3"
  proof (rule handle_reply)
    show "recvs e3 k = Some (r\<lparr>deduplist := l\<rparr>)" by (simp add: e3_def e2_def e1_def)
    show "msgs e3 a = Some (m0\<lparr>peer := Some p, reqrep := Some b\<rparr>)" using ba by (simp add: e3_def)
    show "msgs e3 b = Some (STOP_TRANSMIT (q\<lparr>reqrep := Some a\<rparr>))" by (simp add: e3_def)
    show "ctype (m0\<lparr>peer := Some p, reqrep := Some b\<rparr>) = CASAN_UNKNOWN" using recv_received [OF assms(4,5)] by (simp add: m0_def)
    show "casan_type_alone (STOP_TRANSMIT (q\<lparr>reqrep := Some a\<rparr>)) = Some (CASAN_ASSOC_REQUEST, STOP_TRANSMIT (q'\<lparr>reqrep := Some a\<rparr>))"
      using alone_linked [OF assms(15), where x = "Some a" and y = MAX_RETRANSMIT] by (simp add: STOP_TRANSMIT_def)
    show "payload_of (m0\<lparr>peer := Some p, reqrep := Some b\<rparr>) = Some pl"
      using assms(7) payload_of_fields [of "m0\<lparr>peer := Some p, reqrep := Some b\<rparr>" m] by (simp add: m0_def)
  qed (use assms ba in \<open>simp_all add: e3_def e2_def e1_def m0_def\<close>)
  moreover have "receiver_turn i k e = reply_or_handle i k a e2"
    using l fp by (simp add: e1_def)
  moreover have "slaves e3 = slaves e" by (simp add: e3_def e2_def e1_def)
  ultimately show ?thesis by auto
qed

text \<open>
  C36. A reset completes an association: when a frame from the address of a slave is a reset without a
  payload whose identifier is that of a pending association request, the slave at this address becomes a
  running slave without resources and with a full time to live. Nothing checks the type or the code of
  the reply, nor that the request went to this slave.
\<close>
theorem reset_associates:
  assumes "minv e" "recvs e k = Some r" "nets e (rnet r) = Some net"
    and "master_recv (packet i) master_msg_new = Some (Some addr, m)" "0 < fst (snd (snd (packet i)))"
    and "mty m = MT_RST" "plen m = 0"
    and "peer_at addr (slavelist e) e = Some (Some p)" "slaves e p = Some s"
    and "with_id (ident m) (msglist e) (msgs e) = Some (Some b)"
    and "msgs e b = Some q" "reqrep q = None" "waiter q = None" "casan_type_alone q = Some (CASAN_ASSOC_REQUEST, q')"
  shows "\<exists>e' s'. receiver_turn i k e = Some e' \<and> slaves e' p = Some s' \<and> mstatus s' = MS_RUNNING \<and> mreslist s' = [] \<and>
    ttl_end s' = at_casan i + 1000 * init_ttl s"
proof -
  have "payload_of m = Some []" using assms(7) by (simp add: payload_of_def)
  moreover have "parse_resource_list [] = Some (True, [])" by code_simp
  ultimately show ?thesis using reply_associates [OF assms(1-5) _ _ _ assms(8-14), of "[]" "[]"] assms(6) by auto
qed

section \<open>An example\<close>

text \<open>One network with a receiver, one registered slave, which may be known and have a request pending.\<close>

definition sample_receiver :: receiver where
  "sample_receiver = \<lparr>rnet = 0, hid = 1, broadcast = 1, deduplist = [], hellomsg = 2, next_hello = 5000, started = True\<rparr>"

definition sample_site :: "mslave \<Rightarrow> master_msg list \<Rightarrow> engine" where
  "sample_site s ms = (casan_new [0 \<mapsto> sample_mnet])\<lparr>recvs := [0 \<mapsto> sample_receiver], receivers := [0], slaves := [3 \<mapsto> s], slavelist := [3],
     msgs := (\<lambda>a. if a = 2 then Some master_msg_new else if a = 4 \<and> ms \<noteq> [] then Some (hd ms) else None),
     msglist := (if ms = [] then [] else [4]), next_obj := 5\<rparr>"

lemma sample_site_inv: "slave_wf [0 \<mapsto> sample_mnet] s \<Longrightarrow> minv (sample_site s ms)"
  by (simp add: minv_def nets_ok_def slaves_ok_def kept_ok_def kept_def sending_def sample_site_def casan_new_def sample_receiver_def sample_mnet_def)

definition sample_turn :: "u8 list \<Rightarrow> recv_in" where
  "sample_turn f = \<lparr>packet = (PK_ME, f, int (length f), [7]), at_recv = 9, at_clean = 9, at_dedup = 9, at_casan = 10, answers = (\<lambda>a. sample_io 0 True)\<rparr>"

definition known_slave :: mslave where
  "known_slave = mslave_new\<lparr>sid := 169, init_ttl := 60, ml2 := Some 0, maddr := Some [7], mcurmtu := 100\<rparr>"

text \<open>A reset from the slave.\<close>

definition pending_request :: master_msg where
  "pending_request = (case associate_msg known_slave (Some 3) of Some q \<Rightarrow> q\<lparr>ident := 5, ntrans := 1\<rparr> | None \<Rightarrow> master_msg_new)"

theorem reset_associates_witness:
  "\<exists>e'. receiver_turn (sample_turn [0x70, 0, 0, 5]) 0 (sample_site known_slave [pending_request]) = Some e' \<and>
    map_option mstatus (slaves e' 3) = Some MS_RUNNING \<and> map_option ttl_end (slaves e' 3) = Some 60010"
proof -
  define e where "e = sample_site known_slave [pending_request]"
  have inv: "minv e" unfolding e_def by (rule sample_site_inv) (simp add: known_slave_def slave_wf_def mslave_new_def sample_mnet_def)
  have e: "recvs e 0 = Some sample_receiver" "nets e (rnet sample_receiver) = Some sample_mnet" "deduplist sample_receiver = []"
    "peer_at [7] (slavelist e) e = Some (Some 3)" "slaves e 3 = Some known_slave" "msgs e 4 = Some pending_request" "msglist e = [4]"
    by (simp_all add: e_def known_slave_def sample_site_def casan_new_def sample_receiver_def mslave_new_def)
  have q: "reqrep pending_request = None" "waiter pending_request = None" "map_option fst (casan_type_alone pending_request) = Some CASAN_ASSOC_REQUEST"
    "ident pending_request = 5"
    by code_simp+
  then obtain q' where q': "casan_type_alone pending_request = Some (CASAN_ASSOC_REQUEST, q')" by auto
  define pk where "pk = packet (sample_turn [0x70, 0, 0, 5])"
  have "map_option (\<lambda>(a, m). (a, mty m, ident m, plen m)) (master_recv pk master_msg_new) = Some (Some [7], MT_RST, 5, 0)"
    unfolding pk_def by code_simp
  then obtain m where m: "master_recv pk master_msg_new = Some (Some [7], m)" "mty m = MT_RST" "ident m = 5" "plen m = 0" by auto
  have w: "with_id (ident m) (msglist e) (msgs e) = Some (Some 4)" using e q(4) m(3) by simp
  have l: "0 < fst (snd (snd pk))" "at_casan (sample_turn [0x70, 0, 0, 5]) + 1000 * init_ttl known_slave = 60010" by (simp_all add: pk_def sample_turn_def known_slave_def)
  show ?thesis
    using reset_associates [OF inv e(1,2) m(1) [unfolded pk_def] l(1) [unfolded pk_def] m(2,4) e(4,5) w e(6) q(1,2) q'] l(2)
    unfolding e_def by fastforce
qed

end
