(* ===== verification/Handshake.thy ===== *)
theory Handshake
  imports Interop Master_Association
begin

text \<open>
  Slave and master together: the models of both programs exchange their frames, and the association that
  the protocol promises is established on both sides.
\<close>

section \<open>The request of the master\<close>

lemma assoc_request:
  assumes v: "0 \<le> ttl" "ttl < 100000000" "0 < mtu" "mtu < 32768" and g: "1 \<le> g" "g < 65536"
  defines "f \<equiv> header_frame 0 2 (word_of_int g) [] @ opts_frame 0 (assoc_options ttl mtu)"
  shows "\<exists>m os. mk_ctl_assoc ttl mtu (master_msg_new\<lparr>peer := x, mty := MT_CON, mcd := MC_POST\<rparr>) = Some m \<and>
    m = master_msg_new\<lparr>peer := x, mty := MT_CON, mcd := MC_POST, opts := os\<rparr> \<and> list_all wf_option os \<and> map opt_pair os = assoc_options ttl mtu \<and>
    master_coap_encode fill g m = Some (if g + 1 > 0xffff then 1 else g + 1, m\<lparr>ident := g, bin := Some f, binlen := int (length f), ntrans := 0\<rparr>)"
proof -
  have l: "length (show_ld ttl) \<le> 8" "length (show_ld mtu) \<le> 6"
    using v length_dec_nat [of "nat ttl" 8] length_show_ld [of mtu 5] by (auto simp: show_ld_def nat_less_iff)
  define mb where "mb = master_msg_new\<lparr>peer := x, mty := MT_CON, mcd := MC_POST\<rparr>"
  obtain os where os: "mk_ctl_assoc ttl mtu mb = Some (mb\<lparr>opts := opts mb @ os\<rparr>)" "list_all wf_option os" "map opt_pair os = assoc_options ttl mtu"
    using mk_ctl_assoc_val [of ttl mtu mb] l by auto
  define m where "m = mb\<lparr>opts := os\<rparr>"
  have m: "mk_ctl_assoc ttl mtu mb = Some m" using os(1) by (simp add: m_def mb_def master_msg_new_def)
  have asc: "list_all (\<lambda>cv. sound_len (length (snd cv))) (map opt_pair os)" unfolding os(3) using assoc_sound [OF l] by blast
  have codes: "map optcode os = [MO_Uri_Path, MO_Uri_Path, MO_Uri_Query, MO_Uri_Query]"
    using arg_cong [OF os(3), of "map fst"] by (simp add: assoc_options_def path_options_def master_namespace_def opt_pair_def comp_def)
  then have sort: "option_sort os = os" by (intro option_sort_id) simp
  have lens: "o1 \<in> set os \<Longrightarrow> optlen o1 < 65536" for o1
  proof -
    assume o1: "o1 \<in> set os"
    then have "wf_option o1" "sound_len (length (opt_value o1))" using os(2) asc by (auto simp: list_all_iff opt_pair_def)
    then show "optlen o1 < 65536" using length_opt_value [of o1] by (auto simp: sound_len_def)
  qed
  have "o1 \<in> set os \<Longrightarrow> optcode o1 \<in> {11, 15}" for o1 using arg_cong [OF codes, of set] by force
  then have wf: "wf_master m"
    using os(2) lens by (fastforce simp: wf_master_def m_def mb_def master_msg_new_def list_all_iff)
  have m1: "(snd (default_id g m))\<lparr>opts := option_sort (opts m)\<rparr> = m\<lparr>ident := g\<rparr>"
    by (simp add: default_id_def m_def mb_def master_msg_new_def sort)
  have f: "master_frame (m\<lparr>ident := g\<rparr>) = f"
    by (simp add: f_def master_frame_def m_def mb_def master_msg_new_def master_tok_def master_pay_def payload_frame_def sort ty_byte_def os(3))
  have d: "fst (default_id g m) = (if g + 1 > 0xffff then 1 else g + 1)" by (simp add: default_id_def m_def mb_def master_msg_new_def)
  have "master_coap_encode fill g m = Some (if g + 1 > 0xffff then 1 else g + 1, m\<lparr>ident := g, bin := Some f, binlen := int (length f), ntrans := 0\<rparr>)"
    using master_encode_val [OF wf g, of fill] unfolding m1 f d by simp
  then show ?thesis using m os(2,3) unfolding mb_def m_def by auto
qed

lemma assoc_kind:
  assumes "list_all wf_option os" "map opt_pair os = assoc_options ttl mtu" "in_long ttl" "in_long mtu"
    "mty m = MT_CON" "mcd m = MC_POST" "opts m = os" "ctype m = CASAN_UNKNOWN"
  shows "casan_type_alone m = Some (CASAN_ASSOC_REQUEST, m\<lparr>ctype := CASAN_ASSOC_REQUEST\<rparr>)"
  using is_associate_val [of m ttl mtu] assms by (simp add: assoc_options_def)

section \<open>The answer of the slave\<close>

lemma answer_options: "uint_to_byte (0 :: u32) = []"
  by code_simp

text \<open>The frame with the resources that fit, and the state behind it.\<close>

lemma assoc_answer_frame:
  assumes "net_ok l2" "6 \<le> maxpayload l2 (l2mtu c)"
  shows "\<exists>c' n tr. send_assoc_answer l2 d sm c = Some c' \<and> keeps c c' \<and> n \<le> length (reslist c) \<and> (tr \<longrightarrow> n < length (reslist c) \<and> n \<noteq> 0) \<and>
    sent c' = sent c @ [(d, header_frame COAP_TYPE_ACK COAP_CODE_OK (mid sm) [] @ opts_frame 0 [(MO_Content_Format, [])] @
      payload_frame (list_text (take n (reslist c)) @ (if tr then [44] else [])))]"
proof -
  define out where "out = msg_new\<lparr>mtype := COAP_TYPE_ACK, mcode := COAP_CODE_OK, mid := mid sm\<rparr>"
  have o: "ok_msg out" "size_bound out \<le> 60" "optlist out = []" "paylen out = 0" "mtoken out = Token_new" by (simp_all add: out_def) (simp_all add: msg_new_def)
  obtain e o1 where o1: "option_uint 0 MO_Content_Format 0 = Some (e, o1)" "wf_option o1" "optcode o1 = MO_Content_Format" "opt_value o1 = []"
    using option_uint_val [of 0 MO_Content_Format 0] answer_options by auto
  obtain o2 where o2: "push_option out o1 = Some (out\<lparr>optlist := [o2]\<rparr>)" "wf_option o2" "opt_pair o2 = (MO_Content_Format, [])"
    using push_option_last [OF o1(2), of out] o(3) o1(3,4) by (auto simp: opt_pair_def)
  define m1 where "m1 = out\<lparr>optlist := [o2]\<rparr>"
  have cf: "set_content_format 0 False 0 out = Some (e, m1)"
    using o1(1) o2(1) o(3) by (simp add: set_content_format_def search_option_def m1_def)
  have m1: "ok_msg m1" using content_format_ok [OF o(1)] cf by (auto simp: m1_def)
  have len0: "optlen o2 = 0" using length_opt_value [OF o2(2)] o2(3) by (simp add: opt_pair_def)
  have "coap_size m1 True = 6"
    using o2(3) len0 o(4,5) by (simp add: coap_size_def m1_def opt_pair_def Token_new_def)
  then have av: "avail_space (maxpayload l2 (l2mtu c)) m1 = maxpayload l2 (l2mtu c) - 6" using assms(2) by (simp add: avail_space_def)
  define avail where "avail = maxpayload l2 (l2mtu c) - 6"
  have a: "avail \<le> 60000" using assms(1) by (auto simp: avail_def net_ok_def intro: diff_le_self le_trans)
  obtain sz buf n tr where w: "well_known_loop (reslist c) avail 0 (replicate avail 0) = Some (sz, buf, n = length (reslist c))" "sz \<le> avail" "length buf = avail"
    "n \<le> length (reslist c)" "take sz buf = foldl add_text [] (map well_known_text (take n (reslist c))) @ (if tr then [44] else [])" "tr \<longrightarrow> n < length (reslist c)"
    "tr \<longrightarrow> foldl add_text [] (map well_known_text (take n (reslist c))) \<noteq> []"
    using well_known_loop_ok [of "replicate avail 0" avail 0 "[]" "reslist c"] by auto
  obtain m2 where m2: "set_payload m1 buf (of_nat sz) = Some m2" "ok_msg m2" "size_bound m2 \<le> size_bound m1 + sz" "optlist m2 = [o2]"
    "mtype m2 = COAP_TYPE_ACK" "mcode m2 = COAP_CODE_OK" "mid m2 = mid sm" "mtoken m2 = Token_new" "msg_payload m2 = take sz buf"
    using set_payload_ok [OF m1, of sz buf] w a o(5) by (auto simp: m1_def out_def)
  have gw: "get_well_known l2 out c = Some (n = length (reslist c), m2)"
    using cf w(1) m2(1) av by (simp add: get_well_known_def avail_def [symmetric])
  define p where "p = list_text (take n (reslist c)) @ (if tr then [44] else [])"
  have pl: "msg_payload m2 = p" using m2(9) w(5) by (simp add: p_def list_text_val)
  have frame: "msg_frame m2 = header_frame COAP_TYPE_ACK COAP_CODE_OK (mid sm) [] @ opts_frame 0 [(MO_Content_Format, [])] @ payload_frame p"
    using m2 o2(3) pl by (simp add: msg_frame_def token_bytes_def Token_new_def)
  have "opts_frame 0 [(MO_Content_Format, [])] = [0xc0]" by code_simp
  then have "length (msg_frame m2) \<le> 6 + sz"
    using pl m2(9) w(2,3) unfolding frame by (auto simp: header_frame_def payload_frame_def)
  then have fit: "length (msg_frame m2) \<le> maxpayload l2 (l2mtu c)" using w(2) assms(2) by (simp add: avail_def)
  have sb: "size_bound m2 < 65536" using m2(3) w(2) a o2(3) o(4) by (simp add: size_bound_def m1_def opt_pair_def)
  obtain m' where s: "msg_send (maxpayload l2 (l2mtu c)) (l2send l2 d) m2 = Some (l2send l2 d (msg_frame m2), Some (msg_frame m2), m')"
    using msg_send_val [OF m2(2) sb fit] by blast
  obtain c' where c': "send_assoc_answer l2 d sm c = Some c'" "keeps c c'" using send_assoc_answer_ok [OF assms(1)] by blast
  have "send_assoc_answer l2 d sm c = Some (c\<lparr>sent := sent c @ [(d, msg_frame m2)]\<rparr>)"
    using gw s unfolding send_assoc_answer_def out_def [symmetric] by (simp add: send_to_def)
  then have "sent c' = sent c @ [(d, msg_frame m2)]" using c'(1) by simp
  moreover have "tr \<longrightarrow> n \<noteq> 0" using w(7) by (cases n) auto
  ultimately show ?thesis using c' w(4,6) unfolding frame p_def by blast
qed


section \<open>The turn of the sender\<close>

definition prompt :: "time \<Rightarrow> int \<Rightarrow> u8 \<Rightarrow> send_in" where
  "prompt now r fill = \<lparr>send_at = now, send_rand = r, send_fill = fill, send_ok = True\<rparr>"

lemma send_request:
  assumes "receivers e = [k]" "recvs e k = Some r" "now < next_hello r" "slavelist e = [p]" "slaves e p = Some s" "mstatus s = MS_INACTIVE"
    and "ml2 s = Some kn" "maddr s = Some addr" "nets e kn = Some net" "0 \<le> nlat net"
    and "msglist e = [b]" "msgs e b = Some q" "bin q = None" "peer q = Some p" "mty q = MT_CON" "ntrans q = 0"
    and "master_coap_encode fill (global_id e) q = Some (g', q1)" "bin q1 = Some f" "binlen q1 = int (length f)"
  shows "\<exists>t e'. sender_turn now (\<lambda>a. prompt now rand fill) now e = Some (t, e') \<and> wire e' = wire e @ [(kn, addr, f)] \<and> msglist e' = [b] \<and>
    msgs e' b = Some (send_timers (prompt now rand fill) (nlat net) q1) \<and> slaves e' = slaves e \<and> slavelist e' = [p] \<and> nets e' = nets e \<and>
    recvs e' k = Some (r\<lparr>started := True\<rparr>)"
proof -
  note qf = encode_fields [OF assms(17)]
  define i where "i = prompt now rand fill"
  define q2 where "q2 = send_timers i (nlat net) q1"
  define r1 where "r1 = r\<lparr>started := True\<rparr>"
  define e1 where "e1 = e\<lparr>recvs := (recvs e)(k \<mapsto> r1)\<rparr>"
  define e2 where "e2 = e1\<lparr>msgs := (msgs e)(b \<mapsto> q2), global_id := g', wire := wire e @ [(kn, addr, f)]\<rparr>"
  have 1: "each (hello_step now (\<lambda>a. i)) (receivers e) e = Some e1"
    using assms(1-3) by (simp add: hello_step_def e1_def r1_def)
  have 2: "each (ttl_step now) (slavelist e1) e1 = Some e1"
    using assms(4-6) by (simp add: ttl_step_def e1_def)
  have "slice f 0 (nat (binlen q1)) = Some f" using assms(19) by (simp add: slice_def)
  then have 3: "each (transmit_step now (\<lambda>a. i)) (msglist e1) e1 = Some e2"
    using assms(5,7-9,11-18) qf(2) by (simp add: transmit_step_def msg_send_at_def e1_def e2_def q2_def i_def prompt_def)
  have t: "ntrans q2 = 1" "expire q2 = now + EXCHANGE_LIFETIME (nlat net)" "now < next_rto q2"
    using qf(1,4) assms(15) initial_timeout_range [of rand] by (simp_all add: q2_def send_timers_def i_def prompt_def Let_def)
  have "now \<le> expire q2" using t(2) assms(10) by (simp add: EXCHANGE_LIFETIME_def MAX_TRANSMIT_SPAN_def)
  then have 4: "keep_live now (msgs e2) (msglist e2) = Some [b]" using assms(11) by (simp add: e2_def e1_def)
  have e2: "e2\<lparr>msglist := [b]\<rparr> = e2" using assms(11) by (simp add: e2_def e1_def)
  define t1 where "t1 = (if time_max > next_hello r1 then next_hello r1 else time_max)"
  define t2 where "t2 = (if t1 > next_rto q2 then next_rto q2 else t1)"
  have 5: "next_action e2 = Some t2"
    using assms(1,4-6,11) t(1) by (simp add: next_action_def e2_def e1_def t1_def t2_def)
  have t2: "t2 = time_max \<or> now \<le> t2" using assms(3) t(3) by (auto simp: t1_def t2_def r1_def)
  have "sender_turn now (\<lambda>a. i) now e = Some (t2, e2)"
    using 1 2 3 4 5 e2 t2 by (auto simp: sender_turn_def)
  then show ?thesis using assms(4,11) unfolding i_def [symmetric] by (intro exI [of _ t2] exI [of _ e2]) (simp add: e2_def e1_def r1_def q2_def)
qed


section \<open>The slave gets the request\<close>

lemma slave_associates:
  fixes mi :: u16
  assumes v: "0 \<le> ttl" "ttl < 100000000" "0 < mtu" "mtu < 32768"
    and c: "casan_base c" "net_ok l2" "status c \<in> {SL_WAITING_UNKNOWN, SL_WAITING_KNOWN}" "\<forall>mtu. 6 \<le> maxpayload l2 mtu"
  defines "f \<equiv> header_frame 0 2 mi [] @ opts_frame 0 (assoc_options ttl mtu)"
  shows "\<exists>sm c' n tr. msg_recv (RECV_OK, f @ junk, length f) m0 = Some (RECV_OK, sm) \<and> waiting_frame l2 i sm c = Some c' \<and>
    status c' = SL_RUNNING \<and> master c' = Some (src i) \<and> sttl c' = word_of_int (1000 * ttl) \<and> curmtu c' = min mtu (defmtu c) \<and>
    n \<le> length (reslist c) \<and> (tr \<longrightarrow> n < length (reslist c) \<and> n \<noteq> 0) \<and>
    sent c' = sent c @ [(src i, header_frame COAP_TYPE_ACK COAP_CODE_OK mi [] @ opts_frame 0 [(MO_Content_Format, [])] @
      payload_frame (list_text (take n (reslist c)) @ (if tr then [44] else [])))]"
proof -
  have l: "length (show_ld ttl) \<le> 8" "length (show_ld mtu) \<le> 6"
    using v length_dec_nat [of "nat ttl" 8] length_show_ld [of mtu 5] by (auto simp: show_ld_def nat_less_iff)
  obtain os where os: "list_all wf_option os" "map opt_pair os = assoc_options ttl mtu"
    using mk_ctl_assoc_val [of ttl mtu master_msg_new] l by auto
  have asc: "ascending 0 (map opt_pair os)" "list_all (\<lambda>cv. sound_len (length (snd cv))) (map opt_pair os)" unfolding os(2) using assoc_sound [OF l] by blast+
  have "list_all (\<lambda>o1. sound_len (length (opt_value o1))) os" using asc(2) by (simp add: list_all_iff opt_pair_def)
  then obtain sm where sm: "msg_recv (RECV_OK, f @ junk, length f) m0 = Some (RECV_OK, sm)" "mtype sm = 0" "mcode sm = 2" "mid sm = mi"
    "list_all wf_option (optlist sm)" "map opt_pair (optlist sm) = assoc_options ttl mtu"
    using slave_recv_val [OF os(1) asc(1), of 0 2 mi junk m0] unfolding f_def os(2) by auto
  have k: "is_ctl_msg sm = Some True" "is_hello sm = Some None"
    "is_assoc sm c = Some (Some mtu, c\<lparr>sttl := word_of_int ttl * 1000\<rparr>)"
    unfolding is_ctl_msg_def
    using slave_ctl_val [OF sm(5) sm(6) [unfolded assoc_options_def]] slave_assoc_val [OF sm(5,6)] v sm(2,3) by (simp_all add: is_hello_def is_assoc_def)
  define c1 where "c1 = change_master (src i) (- 1) mtu (c\<lparr>sttl := word_of_int ttl * 1000\<rparr>)"
  have c1: "master c1 = Some (src i)" "sttl c1 = word_of_int ttl * 1000" "curmtu c1 = min mtu (defmtu c)" "reslist c1 = reslist c" "sent c1 = sent c"
    using v(3) by (auto simp: c1_def change_master_def negociate_mtu_def Let_def split: option.split)
  obtain c2 n tr where c2: "send_assoc_answer l2 (src i) sm c1 = Some c2" "keeps c1 c2" "n \<le> length (reslist c)" "tr \<longrightarrow> n < length (reslist c) \<and> n \<noteq> 0"
    "sent c2 = sent c @ [(src i, header_frame COAP_TYPE_ACK COAP_CODE_OK mi [] @ opts_frame 0 [(MO_Content_Format, [])] @
      payload_frame (list_text (take n (reslist c)) @ (if tr then [44] else [])))]"
    using assoc_answer_frame [OF c(2), of c1 "src i" sm] c(4) unfolding c1(4,5) sm(4) by blast
  have "waiting_frame l2 i sm c = Some (start_running c2)"
    using k c2(1) received_same [OF c(1)] by (simp add: waiting_frame_def c1_def)
  moreover have "status (start_running c2) = SL_RUNNING" "master (start_running c2) = Some (src i)" "sttl (start_running c2) = word_of_int (1000 * ttl)"
    "curmtu (start_running c2) = min mtu (defmtu c)" "sent (start_running c2) = sent c2"
    using c2(2) c1 by (simp_all add: keeps_def start_running_def mult.commute)
  ultimately show ?thesis using sm(1) c2(3-5) by metis
qed

section \<open>Three frames\<close>

lemma send_discover_val:
  assumes "casan_base c" "length f \<le> maxpayload l2 (l2mtu c)"
    "f = header_frame COAP_TYPE_NON COAP_CODE_POST (word_of_int (curid c)) [] @ opts_frame 0 (discover_options (slaveid c) (defmtu c))"
  shows "\<exists>c'. send_discover l2 c = Some c' \<and> keeps c c' \<and> reslist c' = reslist c \<and> sent c' = sent c @ [(case master c of Some a \<Rightarrow> a | None \<Rightarrow> bcastaddr l2, f)]"
proof -
  obtain c' where c': "send_discover l2 c = Some c'" "sent c' = sent c @ [(case master c of Some a \<Rightarrow> a | None \<Rightarrow> bcastaddr l2, f)]"
    using discover_announces [OF assms] by blast
  moreover have "reslist c' = reslist c" using c'(1) by (auto simp: send_discover_def send_to_def bind_eq_Some_conv Let_def)
  moreover have "keeps c c'" using send_discover_ok [OF assms(1), of l2] c'(1) by auto
  ultimately show ?thesis by blast
qed

lemma send_timers_code: "mcd (send_timers i l m) = mcd m"
  by (simp add: send_timers_def STOP_TRANSMIT_def Let_def split: msgtype.split)

text \<open>The two turns of the master between the announcement and its request.\<close>

lemma request_answers_discover:
  fixes l2 :: l2net
  assumes slave: "casan_base c" "0 < slaveid c" "slaveid c < 1000000"
    and frame: "f = header_frame COAP_TYPE_NON COAP_CODE_POST (word_of_int (curid c)) [] @ opts_frame 0 (discover_options (slaveid c) (defmtu c))"
      "length f \<le> maxpayload l2 (l2mtu c)"
    and master: "minv e" "recvs e k = Some r" "nets e (rnet r) = Some net" "deduplist r = []" "receivers e = [k]" "slavelist e = [p]" "msglist e = []"
      "slaves e p = Some s" "sid s = slaveid c" "maddr s \<noteq> Some addr" "mstatus s = MS_INACTIVE"
    and range: "0 \<le> init_ttl s" "init_ttl s < 100000000" "1 \<le> nmtu net" "nmtu net < 32768" "0 \<le> nlat net" "1 \<le> global_id e" "global_id e < 65536"
    and turn1: "packet i1 = (PK_BCAST, f @ junk1, int (length f), addr)" and turn2: "now < next_hello r"
  defines "mtu \<equiv> agreed_mtu (nmtu net) (mdefmtu s) (defmtu c)"
  shows "\<exists>e1 t e2 b q2 dl. receiver_turn i1 k e = Some e1 \<and> sender_turn now (\<lambda>a. prompt now rand fill) now e1 = Some (t, e2) \<and>
    wire e2 = wire e @ [(rnet r, addr, header_frame 0 2 (word_of_int (global_id e)) [] @ opts_frame 0 (assoc_options (init_ttl s) mtu))] \<and>
    minv e2 \<and> recvs e2 k = Some (r\<lparr>deduplist := dl, started := True\<rparr>) \<and> nets e2 = nets e \<and> peer_at addr (slavelist e2) e2 = Some (Some p) \<and>
    slaves e2 p = Some (s\<lparr>ml2 := Some (rnet r), maddr := Some addr, mcurmtu := mtu\<rparr>) \<and>
    with_id (global_id e) (msglist e2) (msgs e2) = Some (Some b) \<and> msgs e2 b = Some q2 \<and> reqrep q2 = None \<and> waiter q2 = None \<and>
    casan_type_alone q2 = Some (CASAN_ASSOC_REQUEST, q2\<lparr>ctype := CASAN_ASSOC_REQUEST\<rparr>)"
proof -
  obtain m m' where m: "master_recv (packet i1) master_msg_new = Some (Some addr, m)" "is_casan_discover m = Some (True, slaveid c, defmtu c, m')"
    using discover_reaches_master [OF slave frame(2,1), of master_msg_new PK_BCAST junk1 addr] turn1 by (auto simp: master_msg_new_def)
  have d: "0 < defmtu c" using slave(1) by (auto simp: casan_base_def)
  have mtu: "0 < mtu" "mtu < 32768"
    using agreed_mtu_range [OF range(3), of "mdefmtu s" "defmtu c"] range(4) d by (auto simp: mtu_def agreed_mtu_def Let_def)
  have len: "0 < fst (snd (snd (packet i1)))" using turn1 frame(1) by (simp add: header_frame_def)
  define g where "g = header_frame 0 2 (word_of_int (global_id e)) [] @ opts_frame 0 (assoc_options (init_ttl s) mtu)"
  obtain q os where q: "mk_ctl_assoc (init_ttl s) mtu (master_msg_new\<lparr>peer := Some p, mty := MT_CON, mcd := MC_POST\<rparr>) = Some q"
    "q = master_msg_new\<lparr>peer := Some p, mty := MT_CON, mcd := MC_POST, opts := os\<rparr>" "list_all wf_option os" "map opt_pair os = assoc_options (init_ttl s) mtu"
    and enc: "\<exists>g'. master_coap_encode fill (global_id e) q = Some (g', q\<lparr>ident := global_id e, bin := Some g, binlen := int (length g), ntrans := 0\<rparr>)"
    using assoc_request [OF range(1,2) mtu range(6,7), of "Some p" fill] unfolding g_def by blast
  define q1 where "q1 = q\<lparr>ident := global_id e, bin := Some g, binlen := int (length g), ntrans := 0\<rparr>"
  define q2 where "q2 = send_timers (prompt now rand fill) (nlat net) q1"
  have as: "associate_msg (s\<lparr>mcurmtu := mtu\<rparr>) (Some p) = Some q"
    using q(1) by (simp add: associate_msg_def master_code_def master_type_def RESET_BINARY_def master_msg_new_def)
  have pk: "peer_at addr (slavelist e) e = Some None" "find_slave (slaveid c) e = Some (Some p)"
    using master(6,8-10) by (simp_all add: find_slave_def)
  define s1 where "s1 = s\<lparr>ml2 := Some (rnet r), maddr := Some addr, mcurmtu := mtu\<rparr>"
  obtain e1 b dl where e1: "receiver_turn i1 k e = Some e1" "slaves e1 = (slaves e)(p \<mapsto> s1)" "msglist e1 = [b]" "msgs e1 b = Some q"
    "nets e1 = nets e" "slavelist e1 = [p]" "receivers e1 = [k]" "wire e1 = wire e" "global_id e1 = global_id e" "recvs e1 = (recvs e)(k \<mapsto> r\<lparr>deduplist := dl\<rparr>)"
    using discover_answered [OF master(1-4) m pk master(8) as [unfolded mtu_def] len] master(5-7) unfolding s1_def mtu_def by auto
  have inv1: "minv e1" using receiver_inv [OF master(1) len e1(1)] by blast
  have qf: "bin q = None" "peer q = Some p" "mty q = MT_CON" "ntrans q = 0" by (simp_all add: q(2) master_msg_new_def)
  obtain g' where g': "master_coap_encode fill (global_id e1) q = Some (g', q1)" using enc e1(9) by (auto simp: q1_def)
  have x: "recvs e1 k = Some (r\<lparr>deduplist := dl\<rparr>)" "now < next_hello (r\<lparr>deduplist := dl\<rparr>)" "slaves e1 p = Some s1" "mstatus s1 = MS_INACTIVE"
    "ml2 s1 = Some (rnet r)" "maddr s1 = Some addr" "nets e1 (rnet r) = Some net" "bin q1 = Some g" "binlen q1 = int (length g)"
    using e1 turn2 master(3,11) by (simp_all add: s1_def q1_def)
  obtain t e2 where e2: "sender_turn now (\<lambda>a. prompt now rand fill) now e1 = Some (t, e2)" "wire e2 = wire e @ [(rnet r, addr, g)]" "msglist e2 = [b]"
    "msgs e2 b = Some q2" "slaves e2 = slaves e1" "slavelist e2 = [p]" "nets e2 = nets e" "recvs e2 k = Some (r\<lparr>deduplist := dl, started := True\<rparr>)"
    using send_request [OF e1(7) x(1,2) e1(6) x(3-7) range(5) e1(3,4) qf g' x(8,9), of rand] e1(5,8) by (auto simp: q2_def)
  have inv2: "minv e2" by (rule minv_sender [OF inv1 e2(1)])
  have q2: "reqrep q2 = None" "waiter q2 = None" "ident q2 = global_id e" "casan_type_alone q2 = Some (CASAN_ASSOC_REQUEST, q2\<lparr>ctype := CASAN_ASSOC_REQUEST\<rparr>)"
    using assoc_kind [OF q(3,4), of q2] range(1,2) mtu by (simp_all add: q2_def q1_def q(2) master_msg_new_def in_long_def send_timers_code)
  have w: "with_id (global_id e) (msglist e2) (msgs e2) = Some (Some b)" "peer_at addr (slavelist e2) e2 = Some (Some p)" "slaves e2 p = Some s1"
    using e2(3-6) q2(3) x(3,6) by simp_all
  show ?thesis using e1(1) e2(1,2,4,7,8) inv2 q2(1,2,4) w unfolding g_def s1_def by blast
qed

text \<open>The turn of the receiver that gets the answer of the slave.\<close>

lemma answer_associates:
  assumes inv: "minv e" "recvs e k = Some r" "nets e (rnet r) = Some net" "peer_at addr (slavelist e) e = Some (Some p)" "slaves e p = Some s"
    and req: "with_id n (msglist e) (msgs e) = Some (Some b)" "msgs e b = Some q" "reqrep q = None" "waiter q = None"
      "casan_type_alone q = Some (CASAN_ASSOC_REQUEST, q')" "1 \<le> n" "n < 65536"
    and res: "list_all plain_resource rs" "tr \<longrightarrow> rs \<noteq> []"
    and frame: "h = header_frame COAP_TYPE_ACK COAP_CODE_OK (word_of_int n) [] @ opts_frame 0 [(MO_Content_Format, [])] @
      payload_frame (list_text rs @ (if tr then [44] else []))" "packet i = (PK_ME, h @ junk, int (length h), addr)"
  shows "\<exists>e'. receiver_turn i k e = Some e' \<and>
    slaves e' = (slaves e)(p \<mapsto> s\<lparr>mstatus := MS_RUNNING, mreslist := master_views tr rs, ttl_end := at_casan i + 1000 * init_ttl s\<rparr>)"
proof -
  define pl where "pl = list_text rs @ (if tr then [44] else [])"
  have parse: "parse_resource_list pl = Some (True, master_views tr rs)" unfolding pl_def by (rule parse_text [OF res])
  have gid: "uint (word_of_int n :: u16) = n" using req(6,7) by (simp add: uint_word_of_int_eq take_bit_int_eq_self)
  obtain m where m: "master_recv (packet i) master_msg_new = Some (Some addr, m)" "mty m = MT_ACK" "ident m = n"
    "plen m = int (length pl)" "pl \<noteq> [] \<longrightarrow> pload m = Some (pl @ [0])"
    using master_recv_val [of "[]" COAP_TYPE_ACK "[(MO_Content_Format, [])]" master_msg_new PK_ME COAP_CODE_OK "word_of_int n" pl junk addr]
    unfolding gid frame pl_def by (auto simp: sound_len_def ty_of_def master_msg_new_def)
  have pay: "payload_of m = Some pl" using m(4,5) by (cases "pl = []") (simp_all add: payload_of_def slice_def)
  have len: "0 < fst (snd (snd (packet i)))" unfolding frame by (simp add: header_frame_def)
  show ?thesis
    using reply_associates [OF inv(1-3) m(1) len _ pay parse inv(4,5) req(1) [folded m(3)] req(2-5)] m(2) by blast
qed


definition sample_waiting :: "unit casan" where
  "sample_waiting = (sample_engine SL_WAITING_UNKNOWN None)\<lparr>reslist := sample_resources\<rparr>"

definition sample_announcement :: "u8 list" where
  "sample_announcement = header_frame COAP_TYPE_NON COAP_CODE_POST (word_of_int (curid sample_waiting)) [] @
     opts_frame 0 (discover_options (slaveid sample_waiting) (defmtu sample_waiting))"


end
