(* ===== verification/Zigmsg.thy ===== *)
theory Zigmsg
  imports Prelude
begin

text \<open>
  The radio library of the slave, \<open>arduino/libraries/ZigMsg/ZigMsg.cpp\<close>: a ring of buffers that an
  interrupt fills with received frames, and the header of IEEE 802.15.4 frames. The radio itself (vendor
  code and hardware) is what calls \<open>it_receive_frame\<close> and \<open>it_tx_done\<close>: it has copied a received frame of
  at most 127 bytes to the buffer it was given last (\<open>rxframe\<close>), and puts frames on the \<open>air\<close>. Settings of
  the radio registers are left out. Reading the buffers is an operation of its own, as in the code, which
  disables interrupts while it looks at the indices. \<open>None\<close> is an access outside an array, a division by
  zero, or a transmission whose interrupt never comes.
\<close>

section \<open>Frame control field\<close>

definition MAX_FRAME_SIZE :: nat where "MAX_FRAME_SIZE = 127"
definition DEFAULT_MSGBUF_SIZE :: int where "DEFAULT_MSGBUF_SIZE = 10"

definition Z_GET_FRAMETYPE :: "u16 \<Rightarrow> u8" where "Z_GET_FRAMETYPE w = ucast (drop_bit 0 w AND 0x7)"
definition Z_GET_INTRA_PAN :: "u16 \<Rightarrow> u8" where "Z_GET_INTRA_PAN w = ucast (drop_bit 6 w AND 0x1)"
definition Z_GET_DST_ADDR_MODE :: "u16 \<Rightarrow> u8" where "Z_GET_DST_ADDR_MODE w = ucast (drop_bit 10 w AND 0x3)"
definition Z_GET_SRC_ADDR_MODE :: "u16 \<Rightarrow> u8" where "Z_GET_SRC_ADDR_MODE w = ucast (drop_bit 14 w AND 0x3)"

abbreviation (input) Z_FT_DATA :: "'a :: len word" where "Z_FT_DATA \<equiv> 1"
abbreviation (input) Z_ADDRMODE_ADDR2 :: "'a :: len word" where "Z_ADDRMODE_ADDR2 \<equiv> 2"
abbreviation (input) Z_ADDRMODE_ADDR8 :: "'a :: len word" where "Z_ADDRMODE_ADDR8 \<equiv> 3"

definition data_fcf :: u16 where
  "data_fcf = Z_FT_DATA OR push_bit 3 0 OR push_bit 4 0 OR push_bit 5 1 OR push_bit 6 1 OR push_bit 7 0 OR
     push_bit 10 Z_ADDRMODE_ADDR2 OR push_bit 12 0 OR push_bit 14 Z_ADDRMODE_ADDR2"

definition Z_SET_INT16 :: "u8 list \<Rightarrow> nat \<Rightarrow> u16 \<Rightarrow> u8 list option" where
  "Z_SET_INT16 b p v = do { b \<leftarrow> wr b p (ucast (drop_bit 0 v AND 0xff)); wr b (p + 1) (ucast (drop_bit 8 v AND 0xff)) }"

definition Z_GET_INT16 :: "u8 list \<Rightarrow> nat \<Rightarrow> u16 option" where
  "Z_GET_INT16 b p = do { l \<leftarrow> rd b p; h \<leftarrow> rd b (p + 1); Some (ucast l OR push_bit 8 (ucast h)) }"

section \<open>State\<close>

record zigbuf =
  zframe :: "u8 list"
  zlen :: u8
  zlqi :: u8

record zigstat =
  rx_overrun :: int
  rx_crcfail :: int
  tx_sent :: int
  tx_error_cca :: int
  tx_error_noack :: int
  tx_error_fail :: int

text \<open>A decoded frame. Pointers into the ring are the index of the buffer (\<open>f_raw\<close>) and an offset in its frame.\<close>

record zigframe =
  f_type :: u8
  f_raw :: nat
  f_rawlen :: u8
  f_lqi :: u8
  f_payload :: nat
  f_paylen :: u8
  f_fcf :: u16
  f_seq :: u8
  f_dstaddr :: u16
  f_dstpan :: u16
  f_srcaddr :: u16
  f_srcpan :: u16

datatype tx_done = TX_OK | TX_CCA_FAIL | TX_NO_ACK | TX_FAIL

record zigmsg =
  stat :: zigstat
  panid :: u16
  addr2 :: u16
  promisc :: bool
  rbuffer :: "zigbuf list"
  rbuffirst :: int
  rbuflast :: int
  msgbufsize :: int
  rframe :: zigframe
  seqnum :: u8
  writing :: bool
  rxframe :: nat
  air :: "u8 list list"

definition zigstat_new :: zigstat where
  "zigstat_new = \<lparr>rx_overrun = 0, rx_crcfail = 0, tx_sent = 0, tx_error_cca = 0, tx_error_noack = 0, tx_error_fail = 0\<rparr>"

definition zigframe_new :: zigframe where
  "zigframe_new = \<lparr>f_type = 0, f_raw = 0, f_rawlen = 0, f_lqi = 0, f_payload = 0, f_paylen = 0, f_fcf = 0, f_seq = 0, f_dstaddr = 0,
     f_dstpan = 0, f_srcaddr = 0, f_srcpan = 0\<rparr>"

text \<open>The global object: its storage is zero before the constructor runs, whose \<open>memset\<close> writes nothing.\<close>

definition zigmsg_new :: zigmsg where
  "zigmsg_new = \<lparr>stat = zigstat_new, panid = 0, addr2 = 0, promisc = False, rbuffer = [], rbuffirst = 0, rbuflast = 0, msgbufsize = 0,
     rframe = zigframe_new, seqnum = 0, writing = False, rxframe = 0, air = []\<rparr>"

section \<open>Interrupts\<close>

definition it_receive_frame :: "u8 \<Rightarrow> u8 \<Rightarrow> bool \<Rightarrow> zigmsg \<Rightarrow> zigmsg option" where
  "it_receive_frame len lqi crc_fail z =
     (if crc_fail then Some (z\<lparr>stat := (stat z)\<lparr>rx_crcfail := rx_crcfail (stat z) + 1\<rparr>\<rparr>)
      else if msgbufsize z = 0 then None
      else let newlast = (rbuflast z + 1) mod msgbufsize z in
        if newlast = rbuffirst z then Some (z\<lparr>stat := (stat z)\<lparr>rx_overrun := rx_overrun (stat z) + 1\<rparr>\<rparr>)
        else do {
          b \<leftarrow> rd (rbuffer z) (nat (rbuflast z));
          rb \<leftarrow> wr (rbuffer z) (nat (rbuflast z)) (b\<lparr>zlen := len, zlqi := lqi\<rparr>);
          _ \<leftarrow> rd rb (nat newlast);
          Some (z\<lparr>rbuffer := rb, rbuflast := newlast, rxframe := nat newlast\<rparr>)
        })"

text \<open>The radio interrupt: the driver copies the frame to the buffer it holds and hands it over.\<close>

definition radio_receive :: "u8 list \<Rightarrow> u8 \<Rightarrow> bool \<Rightarrow> zigmsg \<Rightarrow> zigmsg option" where
  "radio_receive bs lqi crc_fail z = do {
     b \<leftarrow> rd (rbuffer z) (rxframe z);
     f \<leftarrow> mcopy (zframe b) 0 bs 0 (length bs);
     rb \<leftarrow> wr (rbuffer z) (rxframe z) (b\<lparr>zframe := f\<rparr>);
     it_receive_frame (word_of_nat (length bs)) lqi crc_fail (z\<lparr>rbuffer := rb\<rparr>)
   }"

definition it_tx_done :: "tx_done \<Rightarrow> zigmsg \<Rightarrow> zigmsg" where
  "it_tx_done status z =
     (let s = stat z;
          s = (case status of TX_OK \<Rightarrow> s\<lparr>tx_sent := tx_sent s + 1\<rparr> | TX_CCA_FAIL \<Rightarrow> s\<lparr>tx_error_cca := tx_error_cca s + 1\<rparr>
            | TX_NO_ACK \<Rightarrow> s\<lparr>tx_error_noack := tx_error_noack s + 1\<rparr> | TX_FAIL \<Rightarrow> s\<lparr>tx_error_fail := tx_error_fail s + 1\<rparr>)
      in z\<lparr>stat := s, writing := False\<rparr>)"

section \<open>Methods\<close>

definition set_addr2 :: "u16 \<Rightarrow> zigmsg \<Rightarrow> zigmsg" where "set_addr2 a z = z\<lparr>addr2 := a\<rparr>"
definition set_panid :: "u16 \<Rightarrow> zigmsg \<Rightarrow> zigmsg" where "set_panid p z = z\<lparr>panid := p\<rparr>"
definition set_msgbufsize :: "int \<Rightarrow> zigmsg \<Rightarrow> zigmsg" where "set_msgbufsize n z = z\<lparr>msgbufsize := n\<rparr>"
definition set_promiscuous :: "bool \<Rightarrow> zigmsg \<Rightarrow> zigmsg" where "set_promiscuous p z = z\<lparr>promisc := p\<rparr>"

text \<open>\<open>new ZigBuf [n]\<close> leaves its memory as it was: every buffer is \<open>mem\<close>.\<close>

definition zig_start :: "zigbuf \<Rightarrow> zigmsg \<Rightarrow> zigmsg option" where
  "zig_start mem z =
     (let n = (if msgbufsize z = 0 then DEFAULT_MSGBUF_SIZE else msgbufsize z) in
      if n < 0 then None
      else Some (z\<lparr>msgbufsize := n, rbuffer := replicate (nat n) mem, rbuffirst := 0, rbuflast := 0, stat := zigstat_new,
        writing := False, seqnum := 0, rxframe := 0\<rparr>))"

text \<open>
  \<open>mem\<close> is the memory of the local frame, \<open>done\<close> the status of the interrupt that ends the wait. The
  hardware replaces the last two bytes by the checksum.
\<close>

definition sendto :: "u8 list \<Rightarrow> tx_done option \<Rightarrow> u16 \<Rightarrow> u8 list \<Rightarrow> u8 \<Rightarrow> zigmsg \<Rightarrow> (bool \<times> zigmsg) option" where
  "sendto mem ended a payload len z =
     (let frmlen = 9 + unat len + 2 in
      if frmlen > MAX_FRAME_SIZE then Some (False, z)
      else do {
        f \<leftarrow> Z_SET_INT16 mem 0 data_fcf;
        let seq = seqnum z + 1;
        f \<leftarrow> wr f 2 seq;
        f \<leftarrow> Z_SET_INT16 f 3 (panid z);
        f \<leftarrow> Z_SET_INT16 f 5 a;
        f \<leftarrow> Z_SET_INT16 f 7 (addr2 z);
        f \<leftarrow> mcopy f 9 payload 0 (unat len);
        f \<leftarrow> slice f 0 frmlen;
        status \<leftarrow> ended;
        Some (True, it_tx_done status (z\<lparr>seqnum := seq, writing := True, air := air z @ [f]\<rparr>))
      })"

text \<open>The addresses: how far the pointer moves and what is set.\<close>

definition get_dst_part :: "u8 list \<Rightarrow> nat \<Rightarrow> zigframe \<Rightarrow> (nat \<times> zigframe) option" where
  "get_dst_part f p r =
     (if Z_GET_DST_ADDR_MODE (f_fcf r) = Z_ADDRMODE_ADDR2 then do {
        pan \<leftarrow> Z_GET_INT16 f p;
        a \<leftarrow> Z_GET_INT16 f (p + 2);
        Some (p + 4, r\<lparr>f_dstpan := pan, f_dstaddr := a\<rparr>)
      } else if Z_GET_DST_ADDR_MODE (f_fcf r) = Z_ADDRMODE_ADDR8 then Some (p + 10, r)
      else Some (p, r))"

definition get_src_part :: "u8 list \<Rightarrow> nat \<Rightarrow> zigframe \<Rightarrow> (nat \<times> zigframe) option" where
  "get_src_part f p r =
     (let intrapan = Z_GET_INTRA_PAN (f_fcf r) in
      if Z_GET_SRC_ADDR_MODE (f_fcf r) = Z_ADDRMODE_ADDR2 then do {
        (p, r) \<leftarrow> (if intrapan \<noteq> 0 then Some (p, r\<lparr>f_srcpan := f_dstpan r\<rparr>)
          else do { pan \<leftarrow> Z_GET_INT16 f p; Some (p + 2, r\<lparr>f_srcpan := pan\<rparr>) });
        a \<leftarrow> Z_GET_INT16 f p;
        Some (p + 2, r\<lparr>f_srcaddr := a\<rparr>)
      } else if Z_GET_SRC_ADDR_MODE (f_fcf r) = Z_ADDRMODE_ADDR8 then Some (p + (if intrapan = 0 then 2 else 0) + 8, r)
      else Some (p, r))"

definition decode_frame :: "nat \<Rightarrow> zigbuf \<Rightarrow> zigframe \<Rightarrow> zigframe option" where
  "decode_frame i b r = do {
     let f = zframe b;
     let r = r\<lparr>f_raw := i, f_rawlen := zlen b, f_lqi := zlqi b\<rparr>;
     fcf \<leftarrow> Z_GET_INT16 f 0;
     let r = r\<lparr>f_fcf := fcf, f_type := Z_GET_FRAMETYPE fcf\<rparr>;
     seq \<leftarrow> rd f 2;
     (p, r) \<leftarrow> get_dst_part f 3 (r\<lparr>f_seq := seq\<rparr>);
     (p, r) \<leftarrow> get_src_part f p r;
     Some (r\<lparr>f_payload := p, f_paylen := f_rawlen r - word_of_nat p - 2\<rparr>)
   }"

text \<open>The result says if there is a frame; the frame itself is the object \<open>rframe\<close>.\<close>

definition get_received :: "zigmsg \<Rightarrow> (bool \<times> zigmsg) option" where
  "get_received z =
     (if rbuffirst z = rbuflast z then Some (False, z)
      else do {
        b \<leftarrow> rd (rbuffer z) (nat (rbuffirst z));
        r \<leftarrow> decode_frame (nat (rbuffirst z)) b (rframe z);
        Some (True, z\<lparr>rframe := r\<rparr>)
      })"

definition skip_received :: "zigmsg \<Rightarrow> zigmsg option" where
  "skip_received z =
     (if rbuffirst z = rbuflast z then Some z
      else if msgbufsize z = 0 then None
      else Some (z\<lparr>rbuffirst := (rbuffirst z + 1) mod msgbufsize z\<rparr>))"

section \<open>The ring as a queue\<close>

definition ring_indices :: "nat \<Rightarrow> nat \<Rightarrow> nat \<Rightarrow> nat list" where
  "ring_indices f l n = (if f \<le> l then [f..<l] else [f..<n] @ [0..<l])"

lemma ring_empty: "ring_indices f l n = [] \<longleftrightarrow> f = l" if "f < n" "l < n"
  using that by (auto simp: ring_indices_def)

lemma ring_last: "l \<notin> set (ring_indices f l n)"
  by (auto simp: ring_indices_def)

lemma ring_in: "i \<in> set (ring_indices f l n) \<Longrightarrow> f < n \<Longrightarrow> l < n \<Longrightarrow> i < n"
  by (auto simp: ring_indices_def split: if_splits)

lemma ring_push:
  assumes "f < n" "l < n" "Suc l mod n \<noteq> f"
  shows "ring_indices f (Suc l mod n) n = ring_indices f l n @ [l]"
proof (cases "Suc l = n")
  case True
  then show ?thesis using assms by (auto simp: ring_indices_def upt_Suc)
next
  case False
  then have "Suc l mod n = Suc l" using assms(2) by simp
  then show ?thesis using assms by (auto simp: ring_indices_def)
qed

lemma ring_room: "f < n \<Longrightarrow> l < n \<Longrightarrow> Suc l mod n \<noteq> f \<longleftrightarrow> length (ring_indices f l n) < n - 1"
  by (cases "Suc l = n") (auto simp: ring_indices_def)

lemma ring_pop:
  assumes "f < n" "l < n" "f \<noteq> l"
  shows "ring_indices f l n = f # ring_indices (Suc f mod n) l n"
proof (cases "Suc f = n")
  case True
  then show ?thesis using assms by (auto simp: ring_indices_def upt_rec [of f n])
next
  case False
  then have "Suc f mod n = Suc f" using assms(1) by simp
  then show ?thesis using assms False by (auto simp: ring_indices_def upt_conv_Cons)
qed

definition frame_of :: "zigbuf \<Rightarrow> u8 list" where
  "frame_of b = take (unat (zlen b)) (zframe b)"

definition zig_queue :: "zigmsg \<Rightarrow> u8 list list" where
  "zig_queue z = map (\<lambda>i. frame_of (rbuffer z ! i)) (ring_indices (nat (rbuffirst z)) (nat (rbuflast z)) (nat (msgbufsize z)))"

definition ring_ok :: "zigmsg \<Rightarrow> bool" where
  "ring_ok z \<longleftrightarrow> 0 \<le> rbuffirst z \<and> rbuffirst z < msgbufsize z \<and> 0 \<le> rbuflast z \<and> rbuflast z < msgbufsize z \<and>
     length (rbuffer z) = nat (msgbufsize z) \<and> rxframe z = nat (rbuflast z) \<and> (\<forall>b \<in> set (rbuffer z). length (zframe b) = MAX_FRAME_SIZE) \<and>
     (\<forall>i \<in> set (ring_indices (nat (rbuffirst z)) (nat (rbuflast z)) (nat (msgbufsize z))). unat (zlen (rbuffer z ! i)) \<le> MAX_FRAME_SIZE)"

lemma frames_length: "length (zframe b) = 127" if "ring_ok z" "b \<in> set (rbuffer z)"
  using that by (simp add: ring_ok_def MAX_FRAME_SIZE_def)

lemma nat_next: "0 \<le> i \<Longrightarrow> 0 < n \<Longrightarrow> nat ((i + 1) mod n) = Suc (nat i) mod nat n" for i n :: int
  by (simp add: nat_mod_distrib Suc_nat_eq_nat_zadd1 add.commute)

lemma zig_queue_frames:
  assumes "\<And>i. i \<noteq> nat (rbuflast z) \<Longrightarrow> rb ! i = rbuffer z ! i"
  shows "zig_queue (z\<lparr>rbuffer := rb\<rparr>) = zig_queue z"
  using ring_last [of "nat (rbuflast z)"] by (auto simp: zig_queue_def intro!: arg_cong [of _ _ frame_of] assms)

lemma radio_receive_val:
  assumes "ring_ok z" "length bs \<le> MAX_FRAME_SIZE"
  shows "\<exists>z'. radio_receive bs lqi crc z = Some z' \<and> ring_ok z' \<and> msgbufsize z' = msgbufsize z \<and> rframe z' = rframe z \<and> rbuffirst z' = rbuffirst z \<and>
    addr2 z' = addr2 z \<and> panid z' = panid z \<and> seqnum z' = seqnum z \<and> air z' = air z \<and>
    zig_queue z' = (if crc \<or> \<not> length (zig_queue z) < nat (msgbufsize z) - 1 then zig_queue z else zig_queue z @ [bs]) \<and>
    (\<forall>i \<in> set (ring_indices (nat (rbuffirst z)) (nat (rbuflast z)) (nat (msgbufsize z))). rbuffer z' ! i = rbuffer z ! i)"
proof -
  define n where "n = nat (msgbufsize z)"
  define l where "l = nat (rbuflast z)"
  define f where "f = nat (rbuffirst z)"
  have r: "0 < msgbufsize z" "l < n" "f < n" "length (rbuffer z) = n" "rxframe z = l" "0 \<le> rbuflast z" "0 \<le> rbuffirst z"
    using assms(1) by (auto simp: ring_ok_def n_def l_def f_def)
  define b where "b = rbuffer z ! l"
  have b: "length (zframe b) = 127" using assms(1) r(2,4) by (auto simp: ring_ok_def b_def MAX_FRAME_SIZE_def)
  define b1 where "b1 = b\<lparr>zframe := put_at (zframe b) 0 bs\<rparr>"
  define rb where "rb = (rbuffer z)[l := b1]"
  define newlast where "newlast = (rbuflast z + 1) mod msgbufsize z"
  have nl: "nat newlast = Suc l mod n" "0 \<le> newlast" "newlast < msgbufsize z"
    using r(1,6,7) nat_next [of "rbuflast z" "msgbufsize z"] by (simp_all add: newlast_def n_def l_def)
  then have nf: "newlast = rbuffirst z \<longleftrightarrow> Suc l mod n = f" using r(7) by (auto simp: f_def)
  have len: "length bs \<le> 127" "length (put_at (zframe b) 0 bs) = 127" "unat (word_of_nat (length bs) :: u8) = length bs"
    using assms(2) b by (auto simp: MAX_FRAME_SIZE_def unat_of_nat)
  have fr: "frame_of (b1\<lparr>zlen := word_of_nat (length bs), zlqi := lqi\<rparr>) = bs"
    using len by (simp add: frame_of_def b1_def put_at_def)
  have step: "radio_receive bs lqi crc z = it_receive_frame (word_of_nat (length bs)) lqi crc (z\<lparr>rbuffer := rb\<rparr>)"
    using r b len(1) by (simp add: radio_receive_def mcopy_in rb_def b1_def b_def)
  have same: "rb ! i = rbuffer z ! i" "rb[l := x] ! i = rbuffer z ! i" if "i \<in> set (ring_indices f l n)" for i x
  proof -
    have "i \<noteq> l" using that ring_last [of l f n] by blast
    then show "rb ! i = rbuffer z ! i" "rb[l := x] ! i = rbuffer z ! i" by (simp_all add: rb_def)
  qed
  have lens: "unat (zlen (rbuffer z ! i)) \<le> 127" if "i \<in> set (ring_indices f l n)" for i
    using assms(1) that by (simp add: ring_ok_def MAX_FRAME_SIZE_def n_def l_def f_def)
  have fl: "length (zframe x) = 127" if "x \<in> set rb" for x
    using that set_update_subset_insert [of "rbuffer z" l b1] frames_length [OF assms(1), of x] len(2) by (auto simp: rb_def b1_def)
  have ok: "ring_ok (z\<lparr>rbuffer := rb\<rparr>)" "ring_ok (z\<lparr>rbuffer := rb, stat := s\<rparr>)" for s
    using assms(1) fl lens same(1) r(4) unfolding ring_ok_def n_def [symmetric] l_def [symmetric] f_def [symmetric] MAX_FRAME_SIZE_def
    by (simp_all add: n_def [symmetric] l_def [symmetric] f_def [symmetric] rb_def)
  have q: "zig_queue (z\<lparr>rbuffer := rb\<rparr>) = zig_queue z" "zig_queue (z\<lparr>rbuffer := rb, stat := s\<rparr>) = zig_queue z" for s
    using zig_queue_frames [of z rb] by (auto simp: rb_def l_def zig_queue_def)
  have room: "length (zig_queue z) < n - 1 \<longleftrightarrow> Suc l mod n \<noteq> f"
    using ring_room [OF r(3,2)] by (simp add: zig_queue_def n_def l_def f_def)
  show ?thesis
  proof (cases "crc \<or> Suc l mod n = f")
    case True
    then have "\<exists>s. radio_receive bs lqi crc z = Some (z\<lparr>rbuffer := rb, stat := s\<rparr>)"
      using step r(1) nf by (auto simp: it_receive_frame_def newlast_def)
    then obtain s where "radio_receive bs lqi crc z = Some (z\<lparr>rbuffer := rb, stat := s\<rparr>)" by blast
    moreover have "crc \<or> \<not> length (zig_queue z) < nat (msgbufsize z) - 1" using True room by (auto simp: n_def)
    ultimately show ?thesis using ok(2) q(2) same(1) unfolding n_def l_def f_def by auto
  next
    case False
    define b2 where "b2 = b1\<lparr>zlen := word_of_nat (length bs), zlqi := lqi\<rparr>"
    have "rd (rb[l := b2]) (Suc l mod n) = Some (rb[l := b2] ! (Suc l mod n))" using r by (simp add: rb_def)
    then have e: "radio_receive bs lqi crc z = Some (z\<lparr>rbuffer := rb[l := b2], rbuflast := newlast, rxframe := nat newlast\<rparr>)"
      using step False r nl nf by (simp add: it_receive_frame_def Let_def newlast_def [symmetric] rb_def l_def [symmetric] b2_def)
    moreover have "ring_ok (z\<lparr>rbuffer := rb[l := b2], rbuflast := newlast, rxframe := nat newlast\<rparr>)"
    proof -
      have "length (zframe x) = 127" if "x \<in> set (rb[l := b2])" for x
        using that set_update_subset_insert [of rb l b2] fl len(2) by (auto simp: b2_def b1_def)
      moreover have "unat (zlen (rb[l := b2] ! i)) \<le> 127" if "i \<in> set (ring_indices f (Suc l mod n) n)" for i
        using that ring_push [OF r(3,2)] False same(2) [of i b2] lens [of i] len r(2,4) by (auto simp: b2_def rb_def)
      ultimately show ?thesis
        using r nl by (simp add: ring_ok_def MAX_FRAME_SIZE_def rb_def n_def f_def)
    qed
    moreover have "zig_queue (z\<lparr>rbuffer := rb[l := b2], rbuflast := newlast, rxframe := nat newlast\<rparr>) = zig_queue z @ [bs]"
    proof -
      have "ring_indices f (Suc l mod n) n = ring_indices f l n @ [l]" using ring_push [OF r(3,2)] False by simp
      then show ?thesis
        using nl(1) same(2) [of _ b2] fr r(2,4) by (simp add: zig_queue_def n_def [symmetric] l_def [symmetric] f_def [symmetric] rb_def b2_def)
    qed
    moreover have "\<not> (crc \<or> \<not> length (zig_queue z) < nat (msgbufsize z) - 1)" using False room by (auto simp: n_def)
    ultimately show ?thesis using same(2) unfolding n_def l_def f_def by auto
  qed
qed

lemma skip_val:
  assumes "ring_ok z"
  shows "\<exists>z'. skip_received z = Some z' \<and> ring_ok z' \<and> zig_queue z' = tl (zig_queue z) \<and> msgbufsize z' = msgbufsize z \<and> rframe z' = rframe z \<and>
    addr2 z' = addr2 z \<and> panid z' = panid z \<and> seqnum z' = seqnum z \<and> air z' = air z"
proof (cases "rbuffirst z = rbuflast z")
  case True
  then show ?thesis using assms by (auto simp: skip_received_def zig_queue_def ring_indices_def)
next
  case False
  have r: "0 < msgbufsize z" "nat (rbuffirst z) < nat (msgbufsize z)" "nat (rbuflast z) < nat (msgbufsize z)" "nat (rbuffirst z) \<noteq> nat (rbuflast z)" "0 \<le> rbuffirst z"
    using assms False by (auto simp: ring_ok_def)
  have "ring_ok (z\<lparr>rbuffirst := (rbuffirst z + 1) mod msgbufsize z\<rparr>)"
    using assms r(1) ring_pop [OF r(2-4)] nat_next [OF r(5,1)] by (simp add: ring_ok_def)
  moreover have "zig_queue (z\<lparr>rbuffirst := (rbuffirst z + 1) mod msgbufsize z\<rparr>) = tl (zig_queue z)"
    using ring_pop [OF r(2-4)] nat_next [OF r(5,1)] by (simp add: zig_queue_def)
  ultimately show ?thesis using False r(1) by (simp add: skip_received_def)
qed

text \<open>Decoding never leaves the buffer: the header has at most 23 bytes.\<close>

lemma INT16_ok: "p + 1 < length f \<Longrightarrow> \<exists>v. Z_GET_INT16 f p = Some v"
  by (simp add: Z_GET_INT16_def)

lemma dst_part_ok: "13 \<le> length f \<Longrightarrow> \<exists>p r'. get_dst_part f 3 r = Some (p, r') \<and> p \<le> 13 \<and> f_raw r' = f_raw r \<and> f_rawlen r' = f_rawlen r"
  by (simp add: get_dst_part_def Z_GET_INT16_def)

lemma src_part_ok: "24 \<le> length f \<Longrightarrow> p \<le> 13 \<Longrightarrow> \<exists>p' r'. get_src_part f p r = Some (p', r') \<and> p' \<le> 23 \<and> f_raw r' = f_raw r \<and> f_rawlen r' = f_rawlen r"
  by (simp add: get_src_part_def Z_GET_INT16_def Let_def)

lemma decode_frame_ok:
  assumes "length (zframe b) = MAX_FRAME_SIZE"
  shows "\<exists>r'. decode_frame i b r = Some r' \<and> f_raw r' = i \<and> f_rawlen r' = zlen b \<and> f_payload r' \<le> 23 \<and>
    f_paylen r' = zlen b - word_of_nat (f_payload r') - 2"
proof -
  obtain fcf where fcf: "Z_GET_INT16 (zframe b) 0 = Some fcf" using INT16_ok [of 0 "zframe b"] assms by (auto simp: MAX_FRAME_SIZE_def)
  define r1 where "r1 = r\<lparr>f_raw := i, f_rawlen := zlen b, f_lqi := zlqi b, f_fcf := fcf, f_type := Z_GET_FRAMETYPE fcf, f_seq := zframe b ! 2\<rparr>"
  obtain p r2 where d: "get_dst_part (zframe b) 3 r1 = Some (p, r2)" "p \<le> 13" "f_raw r2 = i" "f_rawlen r2 = zlen b"
    using dst_part_ok [of "zframe b" r1] assms by (auto simp: MAX_FRAME_SIZE_def r1_def)
  obtain p' r3 where s: "get_src_part (zframe b) p r2 = Some (p', r3)" "p' \<le> 23" "f_raw r3 = i" "f_rawlen r3 = zlen b"
    using src_part_ok [OF _ d(2), of "zframe b" r2] assms d(3,4) by (auto simp: MAX_FRAME_SIZE_def)
  show ?thesis using fcf d s assms by (simp add: decode_frame_def Let_def r1_def MAX_FRAME_SIZE_def)
qed

lemma get_received_val:
  assumes "ring_ok z"
  shows "\<exists>z'. get_received z = Some (zig_queue z \<noteq> [], z') \<and> ring_ok z' \<and> zig_queue z' = zig_queue z \<and> rbuffer z' = rbuffer z \<and> msgbufsize z' = msgbufsize z \<and>
    addr2 z' = addr2 z \<and> panid z' = panid z \<and> seqnum z' = seqnum z \<and> air z' = air z \<and>
    (zig_queue z \<noteq> [] \<longrightarrow> f_raw (rframe z') < length (rbuffer z) \<and> unat (zlen (rbuffer z ! f_raw (rframe z'))) \<le> MAX_FRAME_SIZE \<and> frame_of (rbuffer z ! f_raw (rframe z')) = hd (zig_queue z) \<and>
      decode_frame (f_raw (rframe z')) (rbuffer z ! f_raw (rframe z')) (rframe z) = Some (rframe z'))"
proof (cases "rbuffirst z = rbuflast z")
  case True
  then show ?thesis using assms by (auto simp: get_received_def zig_queue_def ring_indices_def)
next
  case False
  define f where "f = nat (rbuffirst z)"
  have r: "f < nat (msgbufsize z)" "nat (rbuflast z) < nat (msgbufsize z)" "f \<noteq> nat (rbuflast z)" "f < length (rbuffer z)"
    using assms False by (auto simp: ring_ok_def f_def)
  have q: "zig_queue z = frame_of (rbuffer z ! f) # tl (zig_queue z)" using ring_pop [OF r(1-3)] by (simp add: zig_queue_def f_def)
  then have ne: "zig_queue z \<noteq> []" by auto
  have "length (zframe (rbuffer z ! f)) = MAX_FRAME_SIZE" using assms r(4) by (auto simp: ring_ok_def)
  then obtain r' where d: "decode_frame f (rbuffer z ! f) (rframe z) = Some r'" "f_raw r' = f"
    using decode_frame_ok [of "rbuffer z ! f" f "rframe z"] by blast
  have zl: "unat (zlen (rbuffer z ! f)) \<le> MAX_FRAME_SIZE" using assms ring_pop [OF r(1-3)] by (simp add: ring_ok_def f_def)
  have h: "hd (zig_queue z) = frame_of (rbuffer z ! f)" using q by (metis list.sel(1))
  have "get_received z = Some (True, z\<lparr>rframe := r'\<rparr>)"
    using False r(4) d(1) by (simp add: get_received_def f_def)
  moreover have "ring_ok (z\<lparr>rframe := r'\<rparr>)" "zig_queue (z\<lparr>rframe := r'\<rparr>) = zig_queue z" using assms by (simp_all add: ring_ok_def zig_queue_def)
  ultimately show ?thesis using ne r(4) d h zl by simp
qed

end
