(* ===== verification/Slave_L2.thy ===== *)
theory Slave_L2
  imports Zigmsg Slave_Msg C_Text
begin

text \<open>
  Layer 2 of the slave: \<open>arduino/libraries/L2-154/l2-154.cpp\<close> on the radio library, and
  \<open>arduino/libraries/L2-eth/l2-eth.cpp\<close> on the W5100 chip. \<open>size_t\<close> has 16 bits on the AVR. The functions of the
  chip's library that read and report its receive memory are arguments; what is written to it is a list.
\<close>

section \<open>Addresses as text\<close>

definition isxdigit :: "u8 \<Rightarrow> bool" where
  "isxdigit c \<longleftrightarrow> isdigit c \<or> 97 \<le> c \<and> c \<le> 102 \<or> 65 \<le> c \<and> c \<le> 70"

definition tolower :: "u8 \<Rightarrow> u8" where
  "tolower c = (if 65 \<le> c \<and> c \<le> 90 then c + 32 else c)"

definition xdigit_value :: "u8 \<Rightarrow> u8" where
  "xdigit_value c = (let c = tolower c in if isdigit c then c - 48 else c - 97 + 10)"

text \<open>The loop of the constructors: \<open>n\<close> is the length of an address, \<open>i\<close> the next byte, \<open>b\<close> its value so far.\<close>

fun addr_loop :: "nat \<Rightarrow> u8 list \<Rightarrow> nat \<Rightarrow> u8 \<Rightarrow> u8 list \<Rightarrow> nat \<times> u8 \<times> u8 list" where
  "addr_loop n [] i b a = (i, b, a)"
| "addr_loop n (c # s) i b a =
     (if \<not> i < n then (i, b, a)
      else if c = 58 then addr_loop n s (i + 1) 0 (a[i := b])
      else if isxdigit c then addr_loop n s i (push_bit 4 b + xdigit_value c) a
      else (n, b, replicate n 0))"

abbreviation (input) ETH_ADDRLEN :: nat where "ETH_ADDRLEN \<equiv> 6"
abbreviation (input) I154_ADDRLEN :: nat where "I154_ADDRLEN \<equiv> 2"

text \<open>\<open>mem\<close> is the memory of the object before.\<close>

definition l2addr_eth :: "u8 list \<Rightarrow> u8 list \<Rightarrow> u8 list" where
  "l2addr_eth mem s = (case addr_loop ETH_ADDRLEN s 0 0 mem of (i, b, a) \<Rightarrow> if i < ETH_ADDRLEN then a[i := b] else a)"

definition CONST16 :: "u8 \<Rightarrow> u8 \<Rightarrow> u16" where
  "CONST16 lo hi = push_bit 8 (ucast hi) OR ucast lo"

definition l2addr_154 :: "u8 list \<Rightarrow> u8 list \<Rightarrow> u16" where
  "l2addr_154 mem s = (case addr_loop I154_ADDRLEN s 0 0 mem of (i, b, a) \<Rightarrow>
     let a = (if i < I154_ADDRLEN then a[i := b] else a) in CONST16 (a ! 0) (a ! 1))"

definition l2addr_154_broadcast :: u16 where
  "l2addr_154_broadcast = l2addr_154 [0, 0] (bytes ''ff:ff'')"

definition addr2_broadcast :: u16 where
  "addr2_broadcast = CONST16 0xff 0xff"

definition l2addr_eth_broadcast :: "u8 list" where
  "l2addr_eth_broadcast = l2addr_eth (replicate 6 0) (bytes ''ff:ff:ff:ff:ff:ff'')"

section \<open>IEEE 802.15.4\<close>

abbreviation (input) I154_MTU :: u16 where "I154_MTU \<equiv> 127"
abbreviation (input) I154_SIZE_HEADER :: u16 where "I154_SIZE_HEADER \<equiv> 9"
abbreviation (input) I154_SIZE_FCS :: u16 where "I154_SIZE_FCS \<equiv> 2"

text \<open>\<open>curframe\<close> says if the pointer is set; it points to the object \<open>rframe\<close> of the radio library.\<close>

record l2net_154 =
  myaddr :: u16
  mtu154 :: u16
  curframe :: bool
  zig :: zigmsg

definition start_154 :: "zigbuf \<Rightarrow> u16 \<Rightarrow> bool \<Rightarrow> u16 \<Rightarrow> l2net_154 \<Rightarrow> l2net_154 option" where
  "start_154 mem a prom pan n = do {
     let z = set_promiscuous False (set_panid pan (set_addr2 a (zig n)));
     z \<leftarrow> zig_start mem z;
     Some (n\<lparr>myaddr := a, mtu154 := I154_MTU, curframe := False, zig := z\<rparr>)
   }"

definition maxpayload_154 :: "l2net_154 \<Rightarrow> u16" where
  "maxpayload_154 n = mtu154 n - (I154_SIZE_HEADER + I154_SIZE_FCS)"

definition send_154 :: "u8 list \<Rightarrow> tx_done option \<Rightarrow> u16 \<Rightarrow> u8 list \<Rightarrow> u16 \<Rightarrow> l2net_154 \<Rightarrow> (bool \<times> l2net_154) option" where
  "send_154 mem ended dest data len n =
     (if len \<le> mtu154 n - (I154_SIZE_HEADER + I154_SIZE_FCS) then do {
        (success, z) \<leftarrow> sendto mem ended dest data (ucast len) (zig n);
        Some (success, n\<lparr>zig := z\<rparr>)
      } else Some (False, n))"

definition recv_154 :: "l2net_154 \<Rightarrow> (l2_recv \<times> l2net_154) option" where
  "recv_154 n = do {
     z \<leftarrow> (if curframe n then skip_received (zig n) else Some (zig n));
     (found, z) \<leftarrow> get_received z;
     let n = n\<lparr>zig := z, curframe := found\<rparr>;
     let f = rframe z;
     Some (if found \<and> f_type f = Z_FT_DATA \<and> Z_GET_DST_ADDR_MODE (f_fcf f) = Z_ADDRMODE_ADDR2
             \<and> Z_GET_SRC_ADDR_MODE (f_fcf f) = Z_ADDRMODE_ADDR2 \<and> Z_GET_INTRA_PAN (f_fcf f) \<noteq> 0
           then (if f_dstaddr f \<noteq> myaddr n \<and> f_dstaddr f \<noteq> addr2_broadcast then RECV_WRONG_DEST else RECV_OK)
           else RECV_EMPTY, n)
   }"

definition get_src_154 :: "l2net_154 \<Rightarrow> u16 option" where
  "get_src_154 n = (if curframe n then Some (f_srcaddr (rframe (zig n))) else None)"

definition get_dst_154 :: "l2net_154 \<Rightarrow> u16 option" where
  "get_dst_154 n = (if curframe n then Some (f_dstaddr (rframe (zig n))) else None)"

text \<open>The memory from the payload to the end of the buffer.\<close>

definition get_payload_154 :: "l2net_154 \<Rightarrow> u8 list option" where
  "get_payload_154 n = (if curframe n then do {
     b \<leftarrow> rd (rbuffer (zig n)) (f_raw (rframe (zig n)));
     Some (drop (f_payload (rframe (zig n))) (zframe b)) } else None)"

definition get_paylen_154 :: "l2net_154 \<Rightarrow> u16 option" where
  "get_paylen_154 n = (if curframe n then Some (ucast (f_paylen (rframe (zig n)))) else None)"

section \<open>Ethernet\<close>

abbreviation (input) ETH_MTU :: u16 where "ETH_MTU \<equiv> 1518"
abbreviation (input) ETH_OFFSET_DST_ADDR :: nat where "ETH_OFFSET_DST_ADDR \<equiv> 0"
abbreviation (input) ETH_OFFSET_SRC_ADDR :: nat where "ETH_OFFSET_SRC_ADDR \<equiv> 6"
abbreviation (input) ETH_OFFSET_TYPE :: nat where "ETH_OFFSET_TYPE \<equiv> 12"
abbreviation (input) ETH_OFFSET_SIZE :: nat where "ETH_OFFSET_SIZE \<equiv> 14"
abbreviation (input) ETH_OFFSET_PAYLOAD :: nat where "ETH_OFFSET_PAYLOAD \<equiv> 16"
abbreviation (input) ETH_SIZE_HEADER :: u16 where "ETH_SIZE_HEADER \<equiv> 16"
abbreviation (input) ETH_SIZE_FCS :: u16 where "ETH_SIZE_FCS \<equiv> 4"
abbreviation (input) FLUSH_SIZE :: u16 where "FLUSH_SIZE \<equiv> 128"

record l2net_eth =
  emyaddr :: "u8 list"
  ethtype :: u16
  emtu :: u16
  rbufsize :: u16
  rbuf :: "u8 list option"
  pktlen :: u16
  rbuflen :: u16
  wiz :: "u8 list"
  esent :: "u8 list list"

definition start_eth :: "u8 list \<Rightarrow> bool \<Rightarrow> u16 \<Rightarrow> l2net_eth \<Rightarrow> l2net_eth" where
  "start_eth a prom et n = n\<lparr>emyaddr := a, ethtype := et, emtu := ETH_MTU, rbuf := None, rbufsize := 0\<rparr>"

definition maxpayload_eth :: "l2net_eth \<Rightarrow> u16" where
  "maxpayload_eth n = emtu n - (ETH_SIZE_HEADER + ETH_SIZE_FCS)"

definition INT16 :: "u8 \<Rightarrow> u8 \<Rightarrow> u16" where
  "INT16 h l = push_bit 8 (ucast h) OR ucast l"

text \<open>\<open>mem\<close> is what \<open>malloc\<close> returns.\<close>

definition send_eth :: "(u16 \<Rightarrow> u8 list) \<Rightarrow> u8 list \<Rightarrow> u8 list \<Rightarrow> u16 \<Rightarrow> l2net_eth \<Rightarrow> (bool \<times> l2net_eth) option" where
  "send_eth mem dest data len n =
     (if len + ETH_SIZE_HEADER \<le> emtu n - ETH_SIZE_FCS then do {
        let paylen = len;
        let sbuflen = len + ETH_SIZE_HEADER;
        let sbuf = mem sbuflen;
        sbuf \<leftarrow> mcopy sbuf ETH_OFFSET_DST_ADDR dest 0 ETH_ADDRLEN;
        sbuf \<leftarrow> mcopy sbuf ETH_OFFSET_SRC_ADDR (emyaddr n) 0 ETH_ADDRLEN;
        sbuf \<leftarrow> wr sbuf ETH_OFFSET_TYPE (ucast (drop_bit 8 (ethtype n) AND 0xff));
        sbuf \<leftarrow> wr sbuf (ETH_OFFSET_TYPE + 1) (ucast (ethtype n AND 0xff));
        sbuf \<leftarrow> wr sbuf ETH_OFFSET_SIZE (BYTE_HIGH (uint (paylen + 2)));
        sbuf \<leftarrow> wr sbuf (ETH_OFFSET_SIZE + 1) (BYTE_LOW (uint (paylen + 2)));
        sbuf \<leftarrow> mcopy sbuf ETH_OFFSET_PAYLOAD data 0 (unat paylen);
        f \<leftarrow> slice sbuf 0 (unat sbuflen);
        Some (True, n\<lparr>esent := esent n @ [f]\<rparr>)
      } else Some (False, n))"

text \<open>\<open>chip k w\<close> reads \<open>k\<close> bytes of the receive memory \<open>w\<close>: the bytes and what is left.\<close>

function flush_eth :: "(nat \<Rightarrow> u8 list \<Rightarrow> u8 list \<times> u8 list) \<Rightarrow> u16 \<Rightarrow> u8 list \<Rightarrow> u8 list" where
  "flush_eth chip remaining w =
     (if remaining > 0 then
        let k = (if remaining > FLUSH_SIZE then FLUSH_SIZE else remaining)
        in flush_eth chip (remaining - k) (snd (chip (unat k) w))
      else w)"
  by pat_completeness auto
termination
  by (relation "measure (\<lambda>(c, r, w). unat r)") (auto simp: word_le_nat_alt word_less_nat_alt unat_sub split: if_splits)

declare flush_eth.simps [simp del]

definition recv_eth :: "(nat \<Rightarrow> u8 list \<Rightarrow> u8 list \<times> u8 list) \<Rightarrow> (u16 \<Rightarrow> u8 list) \<Rightarrow> l2net_eth \<Rightarrow> (l2_recv \<times> l2net_eth) option" where
  "recv_eth chip mem n = do {
     let n = (if rbufsize n \<noteq> emtu n - ETH_SIZE_FCS
              then n\<lparr>rbufsize := emtu n - ETH_SIZE_FCS, rbuf := Some (mem (emtu n - ETH_SIZE_FCS))\<rparr> else n);
     let wizlen = (word_of_nat (length (wiz n)) :: u16);
     if wizlen = 0 then Some (RECV_EMPTY, n)
     else do {
       let (pl, w) = chip 2 (wiz n);
       h \<leftarrow> rd pl 0;
       l \<leftarrow> rd pl 1;
       let len = INT16 h l - 2;
       let (blen, remaining, r) = (if len \<le> rbufsize n then (len, 0, RECV_OK) else (rbufsize n, len - rbufsize n, RECV_TRUNCATED));
       buf \<leftarrow> rbuf n;
       let (bs, w) = chip (unat blen) w;
       buf \<leftarrow> mcopy buf 0 bs 0 (unat blen);
       let wizlen = wizlen - (blen + 2);
       let remaining = (if remaining > wizlen then wizlen else remaining);
       let w = flush_eth chip remaining w;
       sh \<leftarrow> rd buf ETH_OFFSET_SIZE;
       sl \<leftarrow> rd buf (ETH_OFFSET_SIZE + 1);
       let n = n\<lparr>rbuf := Some buf, rbuflen := blen, wiz := w, pktlen := INT16 sh sl - 2\<rparr>;
       dst \<leftarrow> slice buf ETH_OFFSET_DST_ADDR ETH_ADDRLEN;
       let r = (if emyaddr n \<noteq> dst \<and> l2addr_eth_broadcast \<noteq> dst then RECV_WRONG_DEST else r);
       t \<leftarrow> slice buf ETH_OFFSET_TYPE 2;
       let r = (if r = RECV_OK \<and> (t ! 0 \<noteq> BYTE_HIGH (uint (ethtype n)) \<or> t ! 1 \<noteq> BYTE_LOW (uint (ethtype n))) then RECV_WRONG_TYPE else r);
       Some (r, n)
     }
   }"

definition get_src_eth :: "l2net_eth \<Rightarrow> u8 list option" where
  "get_src_eth n = do { b \<leftarrow> rbuf n; slice b ETH_OFFSET_SRC_ADDR ETH_ADDRLEN }"

definition get_dst_eth :: "l2net_eth \<Rightarrow> u8 list option" where
  "get_dst_eth n = do { b \<leftarrow> rbuf n; slice b ETH_OFFSET_DST_ADDR ETH_ADDRLEN }"

definition get_payload_eth :: "nat \<Rightarrow> l2net_eth \<Rightarrow> u8 list option" where
  "get_payload_eth off n = do { b \<leftarrow> rbuf n; if ETH_OFFSET_PAYLOAD + off \<le> length b then Some (drop (ETH_OFFSET_PAYLOAD + off) b) else None }"

definition get_paylen_eth :: "l2net_eth \<Rightarrow> u16" where
  "get_paylen_eth n = pktlen n"

end
