(* ===== verification/Slave_L2_Laws.thy ===== *)
theory Slave_L2_Laws
  imports Slave_L2 "HOL-Library.Sublist"
begin

text \<open>
  The radio driver of the slave: the header of its frames, the ring as a queue that loses frames only when it
  is full or the checksum is wrong, and the link between two nodes. The contract of such a queue is the locale
  \<open>lossy_queue\<close>, which the Ethernet driver satisfies too.
\<close>

section \<open>Frames of the radio\<close>

definition le16 :: "u16 \<Rightarrow> u8 list" where
  "le16 v = [ucast v, ucast (drop_bit 8 v)]"

lemma length_le16 [simp]: "length (le16 v) = 2" by (simp add: le16_def)

lemma low_byte16: "(ucast (v AND 0xff) :: u8) = ucast v" for v :: u16
proof -
  have m: "(0xff :: u16) = mask 8" by (simp add: mask_eq_exp_minus_1)
  show ?thesis unfolding m by (rule bit_word_eqI) (auto simp: bit_ucast_iff bit_and_iff bit_mask_iff)
qed

lemma high_byte16: "(ucast (drop_bit 8 v AND 0xff) :: u8) = ucast (drop_bit 8 v)" for v :: u16
  by (rule low_byte16)

lemma join_bytes16: "ucast (ucast v :: u8) OR push_bit 8 (ucast (ucast (drop_bit 8 v) :: u8)) = v" for v :: u16
  by (rule bit_word_eqI) (auto simp: bit_or_iff bit_ucast_iff bit_push_bit_iff bit_drop_bit_eq)

lemma SET_INT16_val: "p + 2 \<le> length b \<Longrightarrow> Z_SET_INT16 b p v = Some (put_at b p (le16 v))"
  by (simp add: Z_SET_INT16_def le16_def low_byte16 high_byte16 put_at_Cons)

lemma GET_INT16_val: "take 2 (drop p b) = le16 v \<Longrightarrow> Z_GET_INT16 b p = Some v"
proof -
  assume t: "take 2 (drop p b) = le16 v"
  then have "min (length b - p) 2 = 2" by (metis length_drop length_le16 length_take)
  then have "p + 2 \<le> length b" by linarith
  then have "take 2 (drop p b) = [b ! p, b ! (p + 1)]" by (simp add: Cons_nth_drop_Suc [symmetric] numeral_2_eq_2)
  then have "b ! p = ucast v" "b ! (p + 1) = ucast (drop_bit 8 v)" using t by (simp_all add: le16_def)
  then show ?thesis using \<open>p + 2 \<le> length b\<close> by (simp add: Z_GET_INT16_def join_bytes16)
qed

lemma fcf_fields: "Z_GET_FRAMETYPE data_fcf = 1" "Z_GET_INTRA_PAN data_fcf = 1" "Z_GET_DST_ADDR_MODE data_fcf = 2" "Z_GET_SRC_ADDR_MODE data_fcf = 2"
  by code_simp+

lemma put_next: "length xs = q \<Longrightarrow> q + length ys \<le> length f \<Longrightarrow> put_at (put_at f 0 xs) q ys = put_at f 0 (xs @ ys)"
  using put_at_put_at_adjacent [of 0 xs ys f] by simp

definition mac_header :: "u8 \<Rightarrow> u16 \<Rightarrow> u16 \<Rightarrow> u16 \<Rightarrow> u8 list" where
  "mac_header seq pan dst source = le16 data_fcf @ [seq] @ le16 pan @ le16 dst @ le16 source"

lemma length_mac_header [simp]: "length (mac_header s p d a) = 9" by (simp add: mac_header_def)

lemma sendto_val:
  assumes "length mem = MAX_FRAME_SIZE" "unat len \<le> 116" "unat len \<le> length data"
  shows "\<exists>fcs. length fcs = 2 \<and> sendto mem (Some st) a data len z = Some (True, it_tx_done st (z\<lparr>seqnum := seqnum z + 1, writing := True,
    air := air z @ [mac_header (seqnum z + 1) (panid z) a (addr2 z) @ take (unat len) data @ fcs]\<rparr>))"
proof -
  define n where "n = unat len"
  define h where "h = mac_header (seqnum z + 1) (panid z) a (addr2 z)"
  have l: "length mem = 127" "n \<le> 116" "n \<le> length data" using assms by (simp_all add: MAX_FRAME_SIZE_def n_def)
  define f0 where "f0 = put_at mem 0 (le16 data_fcf)"
  define f1 where "f1 = f0[2 := seqnum z + 1]"
  define f2 where "f2 = put_at f1 3 (le16 (panid z))"
  define f3 where "f3 = put_at f2 5 (le16 a)"
  define f4 where "f4 = put_at f3 7 (le16 (addr2 z))"
  have len: "length f0 = 127" "length f1 = 127" "length f2 = 127" "length f3 = 127" "length f4 = 127"
    using l by (simp_all add: f0_def f1_def f2_def f3_def f4_def)
  have "f1 = put_at mem 0 (le16 data_fcf @ [seqnum z + 1])"
    using l put_at_put_at_adjacent [of 0 "le16 data_fcf" "[seqnum z + 1]" mem] by (simp add: f1_def f0_def put_at_Cons numeral_2_eq_2)
  then have "f4 = put_at mem 0 h"
    using l by (simp add: f2_def f3_def f4_def h_def mac_header_def put_next)
  then have f5: "put_at f4 9 (take n data) = put_at mem 0 (h @ take n data)"
    using l put_at_put_at_adjacent [of 0 h "take n data" mem] by (simp add: h_def)
  have "slice (put_at mem 0 (h @ take n data)) 0 (9 + n + 2) = Some (h @ take n data @ take 2 (drop (9 + n) mem))"
    using l by (simp add: slice_def put_at_def h_def min_def)
  then have "sendto mem (Some st) a data len z = Some (True, it_tx_done st (z\<lparr>seqnum := seqnum z + 1, writing := True,
      air := air z @ [h @ take n data @ take 2 (drop (9 + n) mem)]\<rparr>))"
    using l len f5 by (simp add: sendto_def n_def [symmetric] Let_def MAX_FRAME_SIZE_def SET_INT16_val mcopy_in
        f0_def [symmetric] f1_def [symmetric] f2_def [symmetric] f3_def [symmetric] f4_def [symmetric])
  then show ?thesis using l by (intro exI [of _ "take 2 (drop (9 + n) mem)"]) (simp add: h_def n_def)
qed

lemma decode_data_frame:
  assumes "take 9 (zframe b) = mac_header seq pan dst source"
  shows "\<exists>r'. decode_frame i b r = Some r' \<and> f_raw r' = i \<and> f_type r' = 1 \<and> f_fcf r' = data_fcf \<and> f_dstaddr r' = dst \<and> f_srcaddr r' = source \<and>
    f_dstpan r' = pan \<and> f_srcpan r' = pan \<and> f_seq r' = seq \<and> f_payload r' = 9 \<and> f_paylen r' = zlen b - 11"
proof -
  define f where "f = zframe b"
  have t: "take 2 (drop p f) = take 2 (drop p (mac_header seq pan dst source))" if "p \<le> 7" for p
  proof -
    have "take 2 (drop p f) = take 2 (drop p (take 9 f))" using that by (simp add: drop_take min_def)
    then show ?thesis using assms by (simp add: f_def)
  qed
  have "length (take 9 f) = 9" using assms by (simp add: f_def)
  then have l: "9 \<le> length f" by simp
  have "f ! 2 = take 9 f ! 2" by simp
  then have s: "f ! 2 = seq" using assms by (simp add: f_def mac_header_def le16_def)
  have g: "Z_GET_INT16 f 0 = Some data_fcf" "Z_GET_INT16 f 3 = Some pan" "Z_GET_INT16 f 5 = Some dst" "Z_GET_INT16 f 7 = Some source"
    using t [of 0] t [of 3] t [of 5] t [of 7] by (simp_all add: GET_INT16_val mac_header_def le16_def)
  show ?thesis
    using g s l by (simp add: decode_frame_def get_dst_part_def get_src_part_def Let_def fcf_fields f_def [symmetric])
qed

section \<open>The queue of received frames\<close>

text \<open>
  What a layer that hands over frames one by one promises: a frame that arrives goes to the end or is
  dropped, a call that takes one gets the first. \<open>valid\<close> restricts what can arrive.
\<close>

datatype 'x queue_event = Arrive 'x | Take

fun queue_run :: "('x \<Rightarrow> 's \<Rightarrow> 's option) \<Rightarrow> ('s \<Rightarrow> ('y option \<times> 's) option) \<Rightarrow> 'x queue_event list \<Rightarrow> 's \<Rightarrow> ('y list \<times> 's) option" where
  "queue_run put get [] s = Some ([], s)"
| "queue_run put get (Arrive x # es) s = do { s \<leftarrow> put x s; queue_run put get es s }"
| "queue_run put get (Take # es) s = do {
     (y, s) \<leftarrow> get s;
     (ys, s) \<leftarrow> queue_run put get es s;
     Some ((case y of None \<Rightarrow> ys | Some y \<Rightarrow> y # ys), s)
   }"

fun arrivals :: "'x queue_event list \<Rightarrow> 'x list" where
  "arrivals [] = []"
| "arrivals (Arrive x # es) = x # arrivals es"
| "arrivals (Take # es) = arrivals es"

locale lossy_queue =
  fixes ok :: "'s \<Rightarrow> bool" and valid :: "'x \<Rightarrow> bool" and item :: "'x \<Rightarrow> 'y" and contents :: "'s \<Rightarrow> 'y list"
    and put :: "'x \<Rightarrow> 's \<Rightarrow> 's option" and get :: "'s \<Rightarrow> ('y option \<times> 's) option"
  assumes put_law: "ok s \<Longrightarrow> valid x \<Longrightarrow> \<exists>s'. put x s = Some s' \<and> ok s' \<and> contents s' \<in> {contents s, contents s @ [item x]}"
    and get_law: "ok s \<Longrightarrow> \<exists>s'. get s = Some (if contents s = [] then None else Some (hd (contents s)), s') \<and> ok s' \<and> contents s' = tl (contents s)"
begin

lemma delivery:
  assumes "ok s" "list_all valid (arrivals es)"
  shows "\<exists>ys s' kept. queue_run put get es s = Some (ys, s') \<and> ok s' \<and> subseq kept (map item (arrivals es)) \<and> contents s @ kept = ys @ contents s'"
  using assms
proof (induction es arbitrary: s)
  case Nil
  then show ?case by (intro exI [of _ "[]"]) simp
next
  case (Cons e es)
  show ?case
  proof (cases e)
    case (Arrive x)
    then have v: "valid x" "list_all valid (arrivals es)" using Cons.prems(2) by simp_all
    obtain s1 where s1: "put x s = Some s1" "ok s1" "contents s1 = contents s \<or> contents s1 = contents s @ [item x]"
      using put_law [OF Cons.prems(1) v(1)] by auto
    obtain ys s' kept where "queue_run put get es s1 = Some (ys, s')" "ok s'" "subseq kept (map item (arrivals es))" "contents s1 @ kept = ys @ contents s'"
      using Cons.IH [OF s1(2) v(2)] by blast
    then show ?thesis
      using s1(1,3) Arrive by (cases "contents s1 = contents s") (auto intro: exI [of _ kept] exI [of _ "item x # kept"] list_emb.list_emb_Cons)
  next
    case Take
    then have v: "list_all valid (arrivals es)" using Cons.prems(2) by simp
    obtain s1 where s1: "get s = Some (if contents s = [] then None else Some (hd (contents s)), s1)" "ok s1" "contents s1 = tl (contents s)"
      using get_law [OF Cons.prems(1)] by blast
    obtain ys s' kept where "queue_run put get es s1 = Some (ys, s')" "ok s'" "subseq kept (map item (arrivals es))" "contents s1 @ kept = ys @ contents s'"
      using Cons.IH [OF s1(2) v] by blast
    then show ?thesis using s1(1,3) Take by (cases "contents s") (auto intro: exI [of _ kept])
  qed
qed

end

text \<open>The radio as such a layer: frames arrive with their checksum status; the current frame is still in the ring.\<close>

lemma broadcast_154: "l2addr_154_broadcast = addr2_broadcast"
  by code_simp

definition ring_154 :: "l2net_154 \<Rightarrow> bool" where
  "ring_154 n \<longleftrightarrow> ring_ok (zig n) \<and> (curframe n \<longrightarrow> zig_queue (zig n) \<noteq> [])"

definition waiting_154 :: "l2net_154 \<Rightarrow> u8 list list" where
  "waiting_154 n = (if curframe n then tl (zig_queue (zig n)) else zig_queue (zig n))"

definition air_154 :: "u8 list \<times> u8 \<times> bool \<Rightarrow> l2net_154 \<Rightarrow> l2net_154 option" where
  "air_154 x n = (case x of (bs, lqi, crc) \<Rightarrow> map_option (\<lambda>z. n\<lparr>zig := z\<rparr>) (radio_receive bs lqi crc (zig n)))"

definition take_154 :: "l2net_154 \<Rightarrow> (u8 list option \<times> l2net_154) option" where
  "take_154 n = do {
     (r, n) \<leftarrow> recv_154 n;
     Some (if curframe n then Some (frame_of (rbuffer (zig n) ! f_raw (rframe (zig n)))) else None, n)
   }"

lemma air_154_law:
  assumes "ring_154 n" "length (fst x) \<le> MAX_FRAME_SIZE"
  shows "\<exists>n'. air_154 x n = Some n' \<and> ring_154 n' \<and> waiting_154 n' \<in> {waiting_154 n, waiting_154 n @ [fst x]}"
proof -
  obtain bs lqi crc where x: "x = (bs, lqi, crc)" by (cases x)
  obtain z where z: "radio_receive bs lqi crc (zig n) = Some z" "ring_ok z" "zig_queue z = zig_queue (zig n) \<or> zig_queue z = zig_queue (zig n) @ [bs]"
    using radio_receive_val [of "zig n" bs lqi crc] assms by (auto simp: x ring_154_def split: if_splits)
  then show ?thesis using assms(1) by (auto simp: x air_154_def ring_154_def waiting_154_def)
qed

lemma recv_154_val:
  assumes "ring_154 n"
  shows "\<exists>n' z0. recv_154 n = Some (if curframe n' \<and> f_type (rframe (zig n')) = 1 \<and> Z_GET_DST_ADDR_MODE (f_fcf (rframe (zig n'))) = 2
      \<and> Z_GET_SRC_ADDR_MODE (f_fcf (rframe (zig n'))) = 2 \<and> Z_GET_INTRA_PAN (f_fcf (rframe (zig n'))) \<noteq> 0
      then (if f_dstaddr (rframe (zig n')) \<noteq> myaddr n \<and> f_dstaddr (rframe (zig n')) \<noteq> addr2_broadcast then RECV_WRONG_DEST else RECV_OK)
      else RECV_EMPTY, n') \<and> ring_154 n' \<and> myaddr n' = myaddr n \<and> curframe n' = (waiting_154 n \<noteq> []) \<and> zig_queue (zig n') = waiting_154 n \<and>
    (waiting_154 n \<noteq> [] \<longrightarrow> f_raw (rframe (zig n')) < length (rbuffer (zig n')) \<and> unat (zlen (rbuffer (zig n') ! f_raw (rframe (zig n')))) \<le> MAX_FRAME_SIZE \<and>
      frame_of (rbuffer (zig n') ! f_raw (rframe (zig n'))) = hd (waiting_154 n) \<and>
      decode_frame (f_raw (rframe (zig n'))) (rbuffer (zig n') ! f_raw (rframe (zig n'))) z0 = Some (rframe (zig n')))"
proof -
  define z1 where "z1 = (if curframe n then the (skip_received (zig n)) else zig n)"
  have z1: "(if curframe n then skip_received (zig n) else Some (zig n)) = Some z1" "ring_ok z1" "zig_queue z1 = waiting_154 n"
    using assms skip_val [of "zig n"] by (auto simp: z1_def ring_154_def waiting_154_def)
  obtain z2 where z2: "get_received z1 = Some (zig_queue z1 \<noteq> [], z2)" "ring_ok z2" "zig_queue z2 = zig_queue z1" "rbuffer z2 = rbuffer z1"
    "zig_queue z1 \<noteq> [] \<longrightarrow> f_raw (rframe z2) < length (rbuffer z1) \<and> unat (zlen (rbuffer z1 ! f_raw (rframe z2))) \<le> MAX_FRAME_SIZE \<and> frame_of (rbuffer z1 ! f_raw (rframe z2)) = hd (zig_queue z1) \<and>
      decode_frame (f_raw (rframe z2)) (rbuffer z1 ! f_raw (rframe z2)) (rframe z1) = Some (rframe z2)"
    using get_received_val [OF z1(2)] by blast
  define n' where "n' = n\<lparr>zig := z2, curframe := waiting_154 n \<noteq> []\<rparr>"
  have n': "zig n' = z2" "curframe n' = (waiting_154 n \<noteq> [])" "myaddr n' = myaddr n" by (simp_all add: n'_def)
  have e: "recv_154 n = Some (if curframe n' \<and> f_type (rframe (zig n')) = 1 \<and> Z_GET_DST_ADDR_MODE (f_fcf (rframe (zig n'))) = 2
      \<and> Z_GET_SRC_ADDR_MODE (f_fcf (rframe (zig n'))) = 2 \<and> Z_GET_INTRA_PAN (f_fcf (rframe (zig n'))) \<noteq> 0
      then (if f_dstaddr (rframe (zig n')) \<noteq> myaddr n \<and> f_dstaddr (rframe (zig n')) \<noteq> addr2_broadcast then RECV_WRONG_DEST else RECV_OK)
      else RECV_EMPTY, n')"
    using z1 z2(1) unfolding recv_154_def z1(1) by (simp add: n'_def Let_def)
  have "ring_154 n'" using z2(2,3) z1(3) by (simp add: ring_154_def n')
  then show ?thesis using e z2(3-5) z1(3) n' by (intro exI [of _ n'] exI [of _ "rframe z1"]) simp
qed

lemma take_154_law:
  assumes "ring_154 n"
  shows "\<exists>n'. take_154 n = Some (if waiting_154 n = [] then None else Some (hd (waiting_154 n)), n') \<and> ring_154 n' \<and> waiting_154 n' = tl (waiting_154 n)"
proof -
  obtain n' r where "recv_154 n = Some (r, n')" "ring_154 n'" "curframe n' = (waiting_154 n \<noteq> [])" "zig_queue (zig n') = waiting_154 n"
    "waiting_154 n \<noteq> [] \<longrightarrow> frame_of (rbuffer (zig n') ! f_raw (rframe (zig n'))) = hd (waiting_154 n)"
    using recv_154_val [OF assms] by blast
  then show ?thesis by (auto simp: take_154_def waiting_154_def)
qed

interpretation radio: lossy_queue ring_154 "\<lambda>x. length (fst x) \<le> MAX_FRAME_SIZE" fst waiting_154 air_154 take_154
  by unfold_locales (rule air_154_law, assumption+, rule take_154_law, assumption)

text \<open>
  C17. The ring of the radio library delivers frames in order: whatever frames of at most 127 bytes the radio
  interrupt stores, with any checksum results and at any points between the calls of the program, the
  calls of \<open>recv\<close> of the IEEE 802.15.4 driver give exactly the frames that were not dropped, in order, each
  once and unchanged, and what has not been fetched is still waiting. No access leaves the ring.
\<close>
theorem radio_delivers_in_order:
  assumes "ring_154 n" "\<forall>x \<in> set (arrivals es). length (fst x) \<le> MAX_FRAME_SIZE"
  shows "\<exists>fs n' kept. queue_run air_154 take_154 es n = Some (fs, n') \<and> ring_154 n' \<and> subseq kept (map fst (arrivals es)) \<and>
    waiting_154 n @ kept = fs @ waiting_154 n'"
  using assms radio.delivery [of n es] by (simp add: list_all_iff)

definition blank_buf :: zigbuf where
  "blank_buf = \<lparr>zframe = replicate 127 0, zlen = 0, zlqi = 0\<rparr>"

definition sample_154 :: "u16 \<Rightarrow> l2net_154" where
  "sample_154 a = the (start_154 blank_buf a False 0xcafe \<lparr>myaddr = 0, mtu154 = 0, curframe = False, zig = zigmsg_new\<lparr>msgbufsize := 3\<rparr>\<rparr>)"

lemma start_154_ok:
  assumes "0 < msgbufsize (zig n)" "length (zframe mem) = MAX_FRAME_SIZE"
  shows "\<exists>n'. start_154 mem a p pan n = Some n' \<and> ring_154 n' \<and> waiting_154 n' = [] \<and> myaddr n' = a \<and> addr2 (zig n') = a \<and> mtu154 n' = 127 \<and>
    curframe n' = False \<and> msgbufsize (zig n') = msgbufsize (zig n)"
  using assms
  by (simp add: start_154_def zig_start_def set_promiscuous_def set_panid_def set_addr2_def ring_154_def ring_ok_def waiting_154_def
      zig_queue_def ring_indices_def)

lemma sample_154_ok: "ring_154 (sample_154 a)" "waiting_154 (sample_154 a) = []" "myaddr (sample_154 a) = a" "addr2 (zig (sample_154 a)) = a"
    "mtu154 (sample_154 a) = 127" "curframe (sample_154 a) = False" "msgbufsize (zig (sample_154 a)) = 3"
  using start_154_ok [of "\<lparr>myaddr = 0, mtu154 = 0, curframe = False, zig = zigmsg_new\<lparr>msgbufsize := 3\<rparr>\<rparr>" blank_buf a False "0xcafe"]
  unfolding sample_154_def by (auto simp: blank_buf_def MAX_FRAME_SIZE_def zigmsg_new_def)

theorem radio_delivers_in_order_witness:
  "\<exists>fs n' kept. queue_run air_154 take_154 [Arrive ([1, 2], 9, False), Take, Arrive ([3], 9, True), Arrive ([4], 9, False), Arrive ([5], 9, False), Take, Take] (sample_154 7) = Some (fs, n') \<and>
     subseq kept [[1, 2], [3], [4], [5]] \<and> kept = fs @ waiting_154 n'"
  using radio_delivers_in_order [OF sample_154_ok(1), of "[Arrive ([1, 2], 9, False), Take, Arrive ([3], 9, True), Arrive ([4], 9, False), Arrive ([5], 9, False), Take, Take]" 7]
  by (auto simp: MAX_FRAME_SIZE_def sample_154_ok)

lemma recv_data_frame:
  assumes "ring_154 n" "waiting_154 n = bs # rest" "take 9 bs = mac_header seq pan dst source" "length bs \<le> 127"
  shows "\<exists>n'. recv_154 n = Some (if dst = myaddr n \<or> dst = addr2_broadcast then RECV_OK else RECV_WRONG_DEST, n') \<and>
    ring_154 n' \<and> waiting_154 n' = rest \<and> get_src_154 n' = Some source \<and> get_dst_154 n' = Some dst \<and>
    get_paylen_154 n' = Some (ucast (word_of_nat (length bs) - 11 :: u8)) \<and>
    (\<exists>p. get_payload_154 n' = Some p \<and> length p = 118 \<and> take (length bs - 9) p = drop 9 bs)"
proof -
  obtain n3 z0 where v: "recv_154 n = Some (if curframe n3 \<and> f_type (rframe (zig n3)) = 1 \<and> Z_GET_DST_ADDR_MODE (f_fcf (rframe (zig n3))) = 2
      \<and> Z_GET_SRC_ADDR_MODE (f_fcf (rframe (zig n3))) = 2 \<and> Z_GET_INTRA_PAN (f_fcf (rframe (zig n3))) \<noteq> 0
      then (if f_dstaddr (rframe (zig n3)) \<noteq> myaddr n \<and> f_dstaddr (rframe (zig n3)) \<noteq> addr2_broadcast then RECV_WRONG_DEST else RECV_OK)
      else RECV_EMPTY, n3)" "ring_154 n3" "curframe n3 = (waiting_154 n \<noteq> [])" "zig_queue (zig n3) = waiting_154 n"
      "waiting_154 n \<noteq> [] \<longrightarrow> f_raw (rframe (zig n3)) < length (rbuffer (zig n3)) \<and>
        unat (zlen (rbuffer (zig n3) ! f_raw (rframe (zig n3)))) \<le> MAX_FRAME_SIZE \<and>
        frame_of (rbuffer (zig n3) ! f_raw (rframe (zig n3))) = hd (waiting_154 n) \<and>
        decode_frame (f_raw (rframe (zig n3))) (rbuffer (zig n3) ! f_raw (rframe (zig n3))) z0 = Some (rframe (zig n3))"
    using recv_154_val [OF assms(1)] by blast
  have n3: "curframe n3" "f_raw (rframe (zig n3)) < length (rbuffer (zig n3))" "zig_queue (zig n3) = bs # rest"
      "unat (zlen (rbuffer (zig n3) ! f_raw (rframe (zig n3)))) \<le> MAX_FRAME_SIZE"
      "frame_of (rbuffer (zig n3) ! f_raw (rframe (zig n3))) = bs"
      "decode_frame (f_raw (rframe (zig n3))) (rbuffer (zig n3) ! f_raw (rframe (zig n3))) z0 = Some (rframe (zig n3))"
    using v(3-5) by (simp_all add: assms(2))
  define b where "b = rbuffer (zig n3) ! f_raw (rframe (zig n3))"
  have fb: "take (unat (zlen b)) (zframe b) = bs" using n3(5) by (simp add: b_def frame_of_def)
  have lb: "length (zframe b) = 127" using v(2) n3(2) frames_length [of "zig n3" b] by (simp add: ring_154_def b_def)
  then have zl: "unat (zlen b) = length bs" using arg_cong [OF fb, of length] n3(4) by (simp add: b_def MAX_FRAME_SIZE_def)
  have l9: "9 \<le> length bs" using arg_cong [OF assms(3), of length] by simp
  have "take 9 (zframe b) = take 9 bs" using fb zl l9 by (metis min.absorb1 take_take)
  then obtain r' where r': "decode_frame (f_raw (rframe (zig n3))) b z0 = Some r'" "f_type r' = 1" "f_fcf r' = data_fcf" "f_dstaddr r' = dst"
    "f_srcaddr r' = source" "f_payload r' = 9" "f_paylen r' = zlen b - 11"
    using decode_data_frame [of b seq pan dst source "f_raw (rframe (zig n3))" z0] assms(3) by auto
  have r: "rframe (zig n3) = r'" using r'(1) n3(6) by (simp add: b_def)
  have w: "zlen b = word_of_nat (length bs)" using arg_cong [OF zl, of "word_of_nat :: nat \<Rightarrow> u8"] by simp
  have p: "get_payload_154 n3 = Some (drop 9 (zframe b))" using n3(1,2) r'(6) by (simp add: get_payload_154_def r b_def)
  have "take (length bs - 9) (drop 9 (zframe b)) = drop 9 bs" using fb by (simp add: drop_take [symmetric] zl)
  moreover have "recv_154 n = Some (if dst = myaddr n \<or> dst = addr2_broadcast then RECV_OK else RECV_WRONG_DEST, n3)"
    using v(1) n3(1) r'(2-4) by (simp add: r fcf_fields)
  ultimately show ?thesis
    using n3(1,3) v(2) r' p lb w r by (intro exI [of _ n3]) (simp add: waiting_154_def get_src_154_def get_dst_154_def get_paylen_154_def)
qed

text \<open>
  C19. What one node sends over the radio the other one receives: for a payload of at most 116 bytes \<open>send\<close>
  puts one frame on the air, and a node whose queue is empty and that gets this frame, with any checksum
  bytes the hardware writes, finds it with its next \<open>recv\<close>: accepted if it is addressed to the node or to
  all, with the address of the sender, the length and the bytes of the payload.
\<close>
theorem radio_link:
  assumes "length mem = MAX_FRAME_SIZE" "unat len \<le> 116" "unat len \<le> length data" "mtu154 n1 = 127"
    and "ring_154 n2" "waiting_154 n2 = []" "2 < msgbufsize (zig n2)" "length fcs = 2"
  shows "\<exists>n1' f n2' n3. send_154 mem (Some st) dest data len n1 = Some (True, n1') \<and> air (zig n1') = air (zig n1) @ [f] \<and> length f = unat len + 11 \<and>
    air_154 (take (unat len + 9) f @ fcs, lqi, False) n2 = Some n2' \<and>
    recv_154 n2' = Some (if dest = myaddr n2 \<or> dest = addr2_broadcast then RECV_OK else RECV_WRONG_DEST, n3) \<and>
    get_src_154 n3 = Some (addr2 (zig n1)) \<and> get_dst_154 n3 = Some dest \<and> get_paylen_154 n3 = Some len \<and>
    (\<exists>p. get_payload_154 n3 = Some p \<and> take (unat len) p = take (unat len) data)"
proof -
  define k where "k = unat len"
  define h where "h = mac_header (seqnum (zig n1) + 1) (panid (zig n1)) dest (addr2 (zig n1))"
  have len: "len \<le> 127 - (9 + 2)" "unat (ucast len :: u8) = k" using assms(2) by (simp_all add: word_le_nat_alt k_def unsigned_ucast_eq take_bit_nat_eq_self_iff)
  obtain ck where ck: "length ck = 2" "sendto mem (Some st) dest data (ucast len) (zig n1) = Some (True, it_tx_done st ((zig n1)\<lparr>seqnum := seqnum (zig n1) + 1, writing := True,
      air := air (zig n1) @ [h @ take k data @ ck]\<rparr>))"
    using sendto_val [OF assms(1), of "ucast len" data st dest "zig n1"] assms(2,3) len(2) unfolding h_def k_def by auto
  define n1' where "n1' = n1\<lparr>zig := it_tx_done st ((zig n1)\<lparr>seqnum := seqnum (zig n1) + 1, writing := True, air := air (zig n1) @ [h @ take k data @ ck]\<rparr>)\<rparr>"
  have s: "send_154 mem (Some st) dest data len n1 = Some (True, n1')" "air (zig n1') = air (zig n1) @ [h @ take k data @ ck]"
    using len(1) ck(2) assms(4) by (simp_all add: send_154_def n1'_def it_tx_done_def Let_def)
  define bs where "bs = h @ take k data @ fcs"
  have kd: "k \<le> length data" "k \<le> 116" using assms(2,3) by (simp_all add: k_def)
  have bs: "take (unat len + 9) (h @ take k data @ ck) @ fcs = bs" "length bs = k + 11" "length h = 9"
    using kd assms(8) by (simp_all add: bs_def k_def [symmetric] h_def)
  have q2: "length (zig_queue (zig n2)) < nat (msgbufsize (zig n2)) - 1" using assms(6,7) by (cases "zig_queue (zig n2)") (auto simp: waiting_154_def split: if_splits)
  have ok: "ring_ok (zig n2)" using assms(5) by (simp add: ring_154_def)
  obtain z where z: "radio_receive bs lqi False (zig n2) = Some z" "ring_ok z" "zig_queue z = zig_queue (zig n2) @ [bs]"
    using radio_receive_val [OF ok, of bs lqi False] bs(2) kd(2) q2 by (auto simp: MAX_FRAME_SIZE_def)
  define n2' where "n2' = n2\<lparr>zig := z\<rparr>"
  have n2: "air_154 (bs, lqi, False) n2 = Some n2'" "ring_154 n2'" "waiting_154 n2' = [bs]" "myaddr n2' = myaddr n2"
    using z assms(5,6) by (auto simp: air_154_def n2'_def ring_154_def waiting_154_def)
  have "take 9 bs = h" "drop 9 bs = take k data @ fcs" using bs(3) by (simp_all add: bs_def)
  then obtain n3 p where n3: "recv_154 n2' = Some (if dest = myaddr n2 \<or> dest = addr2_broadcast then RECV_OK else RECV_WRONG_DEST, n3)"
    "get_src_154 n3 = Some (addr2 (zig n1))" "get_dst_154 n3 = Some dest" "get_paylen_154 n3 = Some (ucast (word_of_nat (length bs) - 11 :: u8))"
    "get_payload_154 n3 = Some p" "take (k + 2) p = take k data @ fcs"
    using recv_data_frame [OF n2(2,3), of "seqnum (zig n1) + 1" "panid (zig n1)" dest "addr2 (zig n1)"] bs(2) kd(2) n2(4) by (auto simp: h_def)
  have "unat (ucast (word_of_nat k :: u8) :: u16) = k" using kd(2) by (simp add: unsigned_ucast_eq take_bit_nat_eq_self_iff unat_of_nat)
  then have w: "(ucast (word_of_nat (length bs) - 11 :: u8) :: u16) = len" by (simp add: unsigned_word_eqI k_def bs(2) [unfolded k_def])
  have pl: "take k p = take k data" using arg_cong [OF n3(6), of "take k"] kd by simp
  show ?thesis
    using s n2(1) n3(1-5) w pl bs(1,3) ck(1) kd
    by (intro exI [of _ n1'] exI [of _ "h @ take k data @ ck"] exI [of _ n2'] exI [of _ n3]) (simp add: k_def [symmetric])
qed

theorem radio_link_witness:
  "\<exists>n1' f n2' n3 p. send_154 (replicate 127 0) (Some TX_OK) 8 [0x40, 1, 0, 7] 4 (sample_154 7) = Some (True, n1') \<and> air (zig n1') = air (zig (sample_154 7)) @ [f] \<and>
    air_154 (take 13 f @ [0xaa, 0xbb], 9, False) (sample_154 8) = Some n2' \<and> recv_154 n2' = Some (RECV_OK, n3) \<and> get_src_154 n3 = Some 7 \<and>
    get_payload_154 n3 = Some p \<and> take 4 p = [0x40, 1, 0, 7]"
  using radio_link [of "replicate 127 0" 4 "[0x40, 1, 0, 7]" "sample_154 7" "sample_154 8" "[0xaa, 0xbb]" TX_OK 8 9] sample_154_ok(1,2,7) [of 8] sample_154_ok(3) [of 8] sample_154_ok(4,5) [of 7]
  by (auto simp: MAX_FRAME_SIZE_def)

text \<open>
  C40. A frame that is too short for a checksum after its header lifts the length of its payload: with 9 or 10
  bytes, which the hardware accepts if the last two are right, \<open>recv\<close> accepts it and \<open>get_paylen\<close> is 254 or 255, while
  118 bytes are left in the buffer. The message decoder is given a length behind the end of the memory.
\<close>
theorem short_frame_overreads:
  assumes "ring_154 n" "waiting_154 n = bs # rest" "take 9 bs = mac_header seq pan (myaddr n) source" "length bs < 11"
  shows "\<exists>n' p len. recv_154 n = Some (RECV_OK, n') \<and> get_payload_154 n' = Some p \<and> get_paylen_154 n' = Some len \<and>
    unat len = 245 + length bs \<and> length p < unat len"
proof -
  have "9 \<le> length bs" using arg_cong [OF assms(3), of length] by simp
  then have "length bs = 9 \<or> length bs = 10" using assms(4) by linarith
  then have "unat (ucast (word_of_nat (length bs) - 11 :: u8) :: u16) = 245 + length bs" by (elim disjE) (simp_all only:, code_simp+)
  then show ?thesis using recv_data_frame [OF assms(1-3)] assms(4) by fastforce
qed

theorem short_frame_overreads_witness:
  "\<exists>n1 n' p len. air_154 (mac_header 1 0xcafe 7 0x1234, 9, False) (sample_154 7) = Some n1 \<and> recv_154 n1 = Some (RECV_OK, n') \<and>
     get_payload_154 n' = Some p \<and> get_paylen_154 n' = Some len \<and> unat len = 254 \<and> length p < unat len"
proof -
  obtain z where z: "radio_receive (mac_header 1 0xcafe 7 0x1234) 9 False (zig (sample_154 7)) = Some z" "ring_ok z" "zig_queue z = [mac_header 1 0xcafe 7 0x1234]"
    using radio_receive_val [of "zig (sample_154 7)" "mac_header 1 0xcafe 7 0x1234" 9 False] sample_154_ok [of 7]
    by (auto simp: ring_154_def waiting_154_def MAX_FRAME_SIZE_def)
  define n1 where "n1 = (sample_154 7)\<lparr>zig := z\<rparr>"
  have "air_154 (mac_header 1 0xcafe 7 0x1234, 9, False) (sample_154 7) = Some n1" "ring_154 n1" "waiting_154 n1 = [mac_header 1 0xcafe 7 0x1234]" "myaddr n1 = 7"
    using z sample_154_ok [of 7] by (simp_all add: air_154_def n1_def ring_154_def waiting_154_def)
  then show ?thesis using short_frame_overreads [of n1 "mac_header 1 0xcafe 7 0x1234" "[]" 1 "0xcafe" "0x1234"] by auto
qed



end
