(* ===== verification/Slave_Eth_Laws.thy ===== *)
theory Slave_Eth_Laws
  imports Slave_L2_Laws Slave_Msg_Laws
begin

text \<open>
  The Ethernet driver of the slave: the receive memory of the chip as a queue of frames, and the link
  between two nodes.
\<close>

section \<open>Frames on the Ethernet\<close>

definition be16 :: "u16 \<Rightarrow> u8 list" where
  "be16 v = [ucast (drop_bit 8 v), ucast v]"

lemma length_be16 [simp]: "length (be16 v) = 2" by (simp add: be16_def)

lemma INT16_be16: "INT16 (ucast (drop_bit 8 v)) (ucast v) = v"
  using join_bytes16 [of v] by (simp add: INT16_def or.commute)

lemma unat_16: "k < 65536 \<Longrightarrow> unat (word_of_nat k :: u16) = k"
  by (simp add: unat_of_nat)

lemma be16_inject: "be16 v = be16 w \<longleftrightarrow> v = w"
  by (metis INT16_be16 be16_def list.inject)

lemma be16_INT16: "be16 (INT16 h l) = [h, l]"
proof -
  have "(ucast (drop_bit 8 (INT16 h l)) :: u8) = h" "(ucast (INT16 h l) :: u8) = l"
    by (rule bit_word_eqI; auto simp: INT16_def bit_simps dest: bit_imp_le_length)+
  then show ?thesis by (simp add: be16_def)
qed

lemma INT16_at: "take 2 (drop p b) = be16 v \<Longrightarrow> INT16 (b ! p) (b ! (p + 1)) = v \<and> p + 1 < length b"
proof -
  assume t: "take 2 (drop p b) = be16 v"
  then have "min (length b - p) 2 = 2" by (metis length_drop length_be16 length_take)
  then have l: "p + 2 \<le> length b" by linarith
  then have "take 2 (drop p b) = [b ! p, b ! (p + 1)]" by (simp add: Cons_nth_drop_Suc [symmetric] numeral_2_eq_2)
  then have "b ! p = ucast (drop_bit 8 v)" "b ! (p + 1) = ucast v" using t by (simp_all add: be16_def)
  then show ?thesis using l by (simp add: INT16_be16)
qed

lemma flush_val:
  assumes "\<forall>k w. k \<le> length w \<longrightarrow> chip k w = (take k w, drop k w)"
  shows "unat r \<le> length w \<Longrightarrow> flush_eth chip r w = drop (unat r) w"
proof (induction r arbitrary: w rule: measure_induct_rule [of unat])
  case (less r)
  define k where "k = (if r > 128 then 128 else r)"
  show ?case
  proof (cases "r > 0")
    case True
    have k: "k \<le> r" "0 < unat k" using True by (auto simp: k_def word_less_nat_alt word_le_nat_alt)
    then have u: "unat (r - k) = unat r - unat k" "unat k \<le> unat r" by (simp_all add: unat_sub word_le_nat_alt)
    have "flush_eth chip (r - k) (drop (unat k) w) = drop (unat (r - k)) (drop (unat k) w)"
      using less.prems u k(2) by (intro less.IH) auto
    then show ?thesis
      using True assms less.prems u by (subst flush_eth.simps) (simp add: Let_def k_def [symmetric])
  next
    case False
    then have "r = 0" using word_neq_0_conv by blast
    then show ?thesis by (subst flush_eth.simps) simp
  qed
qed

lemma part_of_prefix: "take n b = f \<Longrightarrow> p + m \<le> n \<Longrightarrow> take m (drop p b) = take m (drop p f)"
proof -
  assume t: "take n b = f" and "p + m \<le> n"
  then have "m \<le> n - p" by linarith
  then show ?thesis using t by (auto simp: drop_take min_def)
qed

text \<open>The receive memory of the chip: each frame after its length, which counts itself.\<close>

fun deframe :: "u8 list \<Rightarrow> u8 list list option" where
  "deframe [] = Some []"
| "deframe [x] = None"
| "deframe (h # l # w) =
     (let k = unat (INT16 h l) - 2 in
      if INT16 h l < 2 \<or> length w < k then None else map_option ((#) (take k w)) (deframe (drop k w)))"

definition wiz_frame :: "u8 list \<Rightarrow> u8 list" where
  "wiz_frame f = be16 (word_of_nat (length f + 2)) @ f"

lemma deframe_Cons: "length f + 2 < 65536 \<Longrightarrow> deframe (wiz_frame f @ w) = map_option ((#) f) (deframe w)"
  using unat_16 [of "length f + 2"] by (simp add: wiz_frame_def be16_def INT16_be16 word_less_nat_alt Let_def)

lemma deframe_snoc: "deframe w = Some fs \<Longrightarrow> length f + 2 < 65536 \<Longrightarrow> deframe (w @ wiz_frame f) = Some (fs @ [f])"
proof (induction w arbitrary: fs rule: deframe.induct)
  case 1
  then show ?case using deframe_Cons [of f "[]"] by simp
next
  case (3 h l w)
  then show ?case by (auto simp: Let_def split: if_splits)
qed simp

lemma deframe_hd:
  "deframe w = Some (f # fs) \<Longrightarrow> \<exists>rest. w = wiz_frame f @ rest \<and> deframe rest = Some fs \<and> length f + 2 < 65536"
proof (induction w rule: deframe.induct)
  case (3 h l w)
  define k where "k = unat (INT16 h l) - 2"
  have d: "f = take k w" "deframe (drop k w) = Some fs" "2 \<le> unat (INT16 h l)" "k \<le> length w"
    using "3.prems" by (auto simp: Let_def k_def [symmetric] word_less_nat_alt split: if_splits)
  have e: "length f + 2 = unat (INT16 h l)" using d(1,3,4) by (simp add: k_def)
  have "be16 (word_of_nat (length f + 2)) = [h, l]" unfolding e by (simp add: be16_INT16)
  moreover have "length f + 2 < 65536" unfolding e using unsigned_less [of "INT16 h l"] by simp
  ultimately show ?case using d(1,2) by (intro exI [of _ "drop k w"]) (simp add: wiz_frame_def)
qed simp_all

definition eth_ok :: "l2net_eth \<Rightarrow> bool" where
  "eth_ok n \<longleftrightarrow> 20 \<le> emtu n \<and> (rbufsize n = emtu n - 4 \<longrightarrow> (\<exists>b. rbuf n = Some b \<and> length b = unat (rbufsize n))) \<and>
     deframe (wiz n) \<noteq> None \<and> length (wiz n) < 65536"

definition eth_room :: "l2net_eth \<Rightarrow> nat" where
  "eth_room n = unat (emtu n) - 4"

definition eth_waiting :: "l2net_eth \<Rightarrow> u8 list list" where
  "eth_waiting n = map (take (eth_room n)) (the (deframe (wiz n)))"

text \<open>What \<open>recv\<close> makes of a frame whose buffer holds \<open>b\<close> afterwards.\<close>

definition eth_verdict :: "l2net_eth \<Rightarrow> nat \<Rightarrow> u8 list \<Rightarrow> l2_recv" where
  "eth_verdict n flen b =
     (if take 6 b \<noteq> emyaddr n \<and> take 6 b \<noteq> l2addr_eth_broadcast then RECV_WRONG_DEST
      else if eth_room n < flen then RECV_TRUNCATED
      else if take 2 (drop 12 b) \<noteq> be16 (ethtype n) then RECV_WRONG_TYPE else RECV_OK)"

lemma type_bytes: "length t = 2 \<Longrightarrow> t ! 0 \<noteq> BYTE_HIGH (uint v) \<or> t ! 1 \<noteq> BYTE_LOW (uint v) \<longleftrightarrow> t \<noteq> be16 v" for v :: u16
  by (auto simp: be16_def header_bytes list_eq_iff_nth_eq less_Suc_eq numeral_2_eq_2)

lemma recv_eth_val:
  assumes chip: "\<forall>k w. k \<le> length w \<longrightarrow> chip k w = (take k w, drop k w)" and mem: "\<forall>k. length (mem k) = unat k"
    and n: "eth_ok n" "wiz n = wiz_frame f @ rest" "length f + 2 < 65536"
  shows "\<exists>n' b. recv_eth chip mem n = Some (eth_verdict n (length f) b, n') \<and> rbuf n' = Some b \<and> length b = eth_room n \<and> wiz n' = rest \<and>
    take (unat (rbuflen n')) b = take (eth_room n) f \<and> unat (rbuflen n') = min (eth_room n) (length f) \<and>
    emyaddr n' = emyaddr n \<and> emtu n' = emtu n \<and> ethtype n' = ethtype n \<and> rbufsize n' = emtu n - 4 \<and> pktlen n' = INT16 (b ! 14) (b ! 15) - 2"
proof -
  define R where "R = emtu n - 4"
  have e: "20 \<le> unat (emtu n)" using n(1) by (simp add: eth_ok_def word_le_nat_alt)
  then have R: "unat R = eth_room n" "16 \<le> unat R" by (simp_all add: R_def eth_room_def unat_sub word_le_nat_alt)
  define n1 where "n1 = (if rbufsize n \<noteq> R then n\<lparr>rbufsize := R, rbuf := Some (mem R)\<rparr> else n)"
  obtain b0 where b0: "rbuf n1 = Some b0" "length b0 = unat R" "rbufsize n1 = R"
    using n(1) mem by (cases "rbufsize n = R") (auto simp: n1_def eth_ok_def R_def [symmetric])
  have n1: "wiz n1 = wiz n" "emyaddr n1 = emyaddr n" "emtu n1 = emtu n" "ethtype n1 = ethtype n" by (simp_all add: n1_def)
  define L where "L = (word_of_nat (length f) :: u16)"
  have L: "unat L = length f" "(word_of_nat (length f + 2) :: u16) - 2 = L" using n(3) unat_16 [of "length f"] by (simp_all add: L_def)
  have w: "length (wiz n) < 65536" "length (wiz n) = length f + 2 + length rest" using n(1,2) by (simp_all add: eth_ok_def wiz_frame_def)
  define W where "W = (word_of_nat (length (wiz n)) :: u16)"
  have W: "unat W = length f + 2 + length rest" using w unat_16 [of "length (wiz n)"] by (simp add: W_def)
  then have W0: "W \<noteq> 0" by auto
  have c2: "chip 2 (wiz n) = (be16 (word_of_nat (length f + 2)), f @ rest)" using chip n(2) by (simp add: wiz_frame_def)
  have pl: "rd (be16 v) 0 = Some (ucast (drop_bit 8 v))" "rd (be16 v) 1 = Some (ucast v)" for v by (simp_all add: be16_def)
  define B where "B = (if L \<le> R then L else R)"
  define rem where "rem = (if L \<le> R then 0 else L - R)"
  have B: "unat B = min (eth_room n) (length f)" "unat B \<le> length f" "unat B \<le> unat R" "unat rem = length f - unat B"
    using L(1) R(1) by (auto simp: B_def rem_def word_le_nat_alt unat_sub)
  have c3: "chip (unat B) (f @ rest) = (take (unat B) f, drop (unat B) f @ rest)" using chip B(2) by simp
  define b where "b = put_at b0 0 (take (unat B) f)"
  have b: "mcopy b0 0 (take (unat B) f) 0 (unat B) = Some b" "length b = unat R" "take (unat B) b = take (unat B) f"
    using B b0(2) by (simp_all add: b_def mcopy_in put_at_def)
  have wl: "unat (W - (B + 2)) = unat W - (unat B + 2)"
  proof -
    have "unat (B + 2) = unat B + 2" using unat_add_lem [of B 2] B(2) n(3) by simp
    moreover have "B + 2 \<le> W" using calculation B(2) W by (simp add: word_le_nat_alt)
    ultimately show ?thesis by (simp add: unat_sub word_le_nat_alt)
  qed
  have rm: "\<not> rem > W - (B + 2)" using B(4) wl W by (simp add: word_less_nat_alt)
  have fl: "flush_eth chip rem (drop (unat B) f @ rest) = rest" using flush_val [OF chip, of rem "drop (unat B) f @ rest"] B(4) by simp
  have bb: "rd b 14 = Some (b ! 14)" "rd b (14 + 1) = Some (b ! 15)" "slice b 0 6 = Some (take 6 b)" "slice b 12 2 = Some (take 2 (drop 12 b))"
    using b(2) R(2) by (simp_all add: slice_def)
  define n' where "n' = n1\<lparr>rbuf := Some b, rbuflen := B, wiz := rest, pktlen := INT16 (b ! 14) (b ! 15) - 2\<rparr>"
  have t: "length (take 2 (drop 12 b)) = 2" using b(2) R(2) by simp
  have LR: "L \<le> R \<longleftrightarrow> \<not> eth_room n < length f" using L(1) R(1) by (simp add: word_le_nat_alt not_less)
  have split: "(if L \<le> R then (L, 0, RECV_OK) else (R, L - R, RECV_TRUNCATED)) = (B, rem, if eth_room n < length f then RECV_TRUNCATED else RECV_OK)"
    using LR by (simp add: B_def rem_def)
  have "recv_eth chip mem n = Some (eth_verdict n (length f) b, n')"
    unfolding recv_eth_def R_def [symmetric] n1_def [symmetric] Let_def n1(1) W_def [symmetric] c2 prod.case if_not_P [OF W0] pl b0 bind.simps
      INT16_be16 L(2) split c3 b(1) if_not_P [OF rm] fl bb type_bytes [OF t]
    by (auto simp: eth_verdict_def n'_def n1)
  then show ?thesis using b B(1) R(1) b0(3) n1 by (intro exI [of _ n'] exI [of _ b]) (simp add: n'_def R_def min_def)
qed


lemma recv_eth_none:
  assumes "wiz n = []"
  shows "recv_eth chip mem n = Some (RECV_EMPTY, if rbufsize n \<noteq> emtu n - 4 then n\<lparr>rbufsize := emtu n - 4, rbuf := Some (mem (emtu n - 4))\<rparr> else n)"
  using assms by (simp add: recv_eth_def Let_def)

definition take_eth :: "(nat \<Rightarrow> u8 list \<Rightarrow> u8 list \<times> u8 list) \<Rightarrow> (u16 \<Rightarrow> u8 list) \<Rightarrow> l2net_eth \<Rightarrow> (u8 list option \<times> l2net_eth) option" where
  "take_eth chip mem n = do {
     (r, n) \<leftarrow> recv_eth chip mem n;
     b \<leftarrow> rbuf n;
     Some (if r = RECV_EMPTY then None else Some (take (unat (rbuflen n)) b), n)
   }"

text \<open>A frame that arrives when the memory of the chip, of \<open>cap\<close> bytes, has no room is lost.\<close>

definition wire_eth :: "nat \<Rightarrow> u8 list \<Rightarrow> l2net_eth \<Rightarrow> l2net_eth option" where
  "wire_eth cap f n = Some (if length (wiz n) + length f + 2 \<le> cap then n\<lparr>wiz := wiz n @ wiz_frame f\<rparr> else n)"

lemma wire_eth_law:
  assumes "eth_ok n" "cap < 65536"
  shows "\<exists>n'. wire_eth cap f n = Some n' \<and> eth_ok n' \<and> emtu n' = emtu n \<and> eth_waiting n' \<in> {eth_waiting n, eth_waiting n @ [take (eth_room n) f]}"
proof -
  obtain fs where fs: "deframe (wiz n) = Some fs" using assms(1) by (auto simp: eth_ok_def)
  show ?thesis
  proof (cases "length (wiz n) + length f + 2 \<le> cap")
    case True
    then have "deframe (wiz n @ wiz_frame f) = Some (fs @ [f])" using deframe_snoc [OF fs, of f] assms(2) by simp
    then show ?thesis using True assms fs by (simp add: wire_eth_def eth_ok_def eth_waiting_def eth_room_def wiz_frame_def)
  next
    case False
    then show ?thesis using assms(1) by (simp add: wire_eth_def)
  qed
qed

lemma take_eth_law:
  assumes "\<forall>k w. k \<le> length w \<longrightarrow> chip k w = (take k w, drop k w)" "\<forall>k. length (mem k) = unat k" "eth_ok n"
  shows "\<exists>n'. take_eth chip mem n = Some (if eth_waiting n = [] then None else Some (hd (eth_waiting n)), n') \<and> eth_ok n' \<and> emtu n' = emtu n \<and>
    eth_waiting n' = tl (eth_waiting n)"
proof -
  obtain fs where fs: "deframe (wiz n) = Some fs" using assms(3) by (auto simp: eth_ok_def)
  show ?thesis
  proof (cases fs)
    case Nil
    then have w: "wiz n = []" using fs deframe_Cons by (cases "wiz n" rule: deframe.cases) (auto simp: Let_def split: if_splits)
    show ?thesis using w fs Nil assms(2,3) by (auto simp: take_eth_def recv_eth_none eth_waiting_def eth_ok_def eth_room_def)
  next
    case (Cons f gs)
    obtain rest where r: "wiz n = wiz_frame f @ rest" "deframe rest = Some gs" "length f + 2 < 65536" using deframe_hd fs Cons by blast
    obtain n' b where n': "recv_eth chip mem n = Some (eth_verdict n (length f) b, n')" "rbuf n' = Some b" "length b = eth_room n" "wiz n' = rest"
      "take (unat (rbuflen n')) b = take (eth_room n) f" "emtu n' = emtu n" "rbufsize n' = emtu n - 4"
      using recv_eth_val [OF assms r(1,3)] by blast
    have "eth_verdict n (length f) b \<noteq> RECV_EMPTY" by (simp add: eth_verdict_def)
    moreover have "unat (emtu n - 4) = eth_room n" using assms(3) by (simp add: eth_ok_def eth_room_def word_le_nat_alt unat_sub)
    ultimately show ?thesis
      using n' fs Cons r assms(3) by (simp add: take_eth_def eth_waiting_def eth_ok_def eth_room_def)
  qed
qed

lemma eth_queue:
  assumes "\<forall>k w. k \<le> length w \<longrightarrow> chip k w = (take k w, drop k w)" "\<forall>k. length (mem k) = unat k" "cap < 65536"
  shows "lossy_queue (\<lambda>n. eth_ok n \<and> emtu n = mtu) (\<lambda>f. True) (take (unat mtu - 4)) eth_waiting (wire_eth cap) (take_eth chip mem)"
proof unfold_locales
  show "\<exists>s'. wire_eth cap f n = Some s' \<and> (eth_ok s' \<and> emtu s' = mtu) \<and> eth_waiting s' \<in> {eth_waiting n, eth_waiting n @ [take (unat mtu - 4) f]}"
    if "eth_ok n \<and> emtu n = mtu" for n f
    using wire_eth_law [of n cap f] that assms(3) by (auto simp: eth_room_def)
  show "\<exists>s'. take_eth chip mem n = Some (if eth_waiting n = [] then None else Some (hd (eth_waiting n)), s') \<and> (eth_ok s' \<and> emtu s' = mtu) \<and>
      eth_waiting s' = tl (eth_waiting n)" if "eth_ok n \<and> emtu n = mtu" for n
    using take_eth_law [OF assms(1,2), of n] that by auto
qed


text \<open>
  C20. The Ethernet driver stays in step with the chip: whatever frames arrive, shorter or longer than the buffer, and
  whenever the program calls \<open>recv\<close>, the calls give exactly the frames the chip had room for, in order, each once and cut at
  the size of the buffer. The hypotheses are what the chip's library does: it reads the first bytes of the receive memory.
\<close>
theorem ethernet_delivers_in_order:
  assumes "\<forall>k w. k \<le> length w \<longrightarrow> chip k w = (take k w, drop k w)" "\<forall>k. length (mem k) = unat k" "cap < 65536" "eth_ok n"
  shows "\<exists>fs n' kept. queue_run (wire_eth cap) (take_eth chip mem) es n = Some (fs, n') \<and> eth_ok n' \<and> emtu n' = emtu n \<and>
    subseq kept (map (take (eth_room n)) (arrivals es)) \<and> eth_waiting n @ kept = fs @ eth_waiting n'"
  using lossy_queue.delivery [OF eth_queue [OF assms(1-3), of "emtu n"], of n es] assms(4) by (auto simp: eth_room_def list_all_iff)

definition fifo :: "nat \<Rightarrow> u8 list \<Rightarrow> u8 list \<times> u8 list" where
  "fifo k w = (take k w, drop k w)"

definition blank_mem :: "u16 \<Rightarrow> u8 list" where
  "blank_mem k = replicate (unat k) 0"

interpretation ether: lossy_queue "\<lambda>n. eth_ok n \<and> emtu n = 1518" "\<lambda>f. True" "take (unat (1518 :: u16) - 4)" eth_waiting "wire_eth 2048" "take_eth fifo blank_mem"
  by (rule eth_queue) (simp_all add: fifo_def blank_mem_def)

definition sample_eth :: "u8 list \<Rightarrow> l2net_eth" where
  "sample_eth a = start_eth a False 0x88b5 \<lparr>emyaddr = [], ethtype = 0, emtu = 0, rbufsize = 0, rbuf = None, pktlen = 0, rbuflen = 0, wiz = [], esent = []\<rparr>"

lemma sample_eth_ok: "eth_ok (sample_eth a)" "eth_waiting (sample_eth a) = []" "emtu (sample_eth a) = 1518" "emyaddr (sample_eth a) = a" "ethtype (sample_eth a) = 0x88b5"
    "wiz (sample_eth a) = []" "esent (sample_eth a) = []"
  by (simp_all add: sample_eth_def start_eth_def eth_ok_def eth_waiting_def)

theorem ethernet_delivers_in_order_witness:
  "\<exists>fs n' kept. queue_run (wire_eth 2048) (take_eth fifo blank_mem) [Arrive [1, 2, 3], Take, Arrive (replicate 1600 7), Arrive [4], Take, Take] (sample_eth (replicate 6 9)) = Some (fs, n') \<and>
     subseq kept [[1, 2, 3], replicate 1514 7, [4]] \<and> kept = fs @ eth_waiting n'"
  using ethernet_delivers_in_order [of fifo blank_mem 2048 "sample_eth (replicate 6 9)" "[Arrive [1, 2, 3], Take, Arrive (replicate 1600 7), Arrive [4], Take, Take]"]
  by (auto simp: fifo_def blank_mem_def sample_eth_ok eth_room_def min_def)

definition eth_frame :: "u8 list \<Rightarrow> u8 list \<Rightarrow> u16 \<Rightarrow> u16 \<Rightarrow> u8 list \<Rightarrow> u8 list" where
  "eth_frame dst source et sz data = dst @ source @ be16 et @ be16 sz @ data"

lemma send_eth_val:
  assumes "\<forall>k. length (mem k) = unat k" "length dest = 6" "length (emyaddr n) = 6" "20 \<le> emtu n" "unat len + 20 \<le> unat (emtu n)" "unat len \<le> length data"
  shows "send_eth mem dest data len n = Some (True, n\<lparr>esent := esent n @ [eth_frame dest (emyaddr n) (ethtype n) (len + 2) (take (unat len) data)]\<rparr>)"
proof -
  define k where "k = unat len"
  define d where "d = take k data"
  define b where "b = mem (len + 16)"
  define h where "h = dest @ emyaddr n"
  have "unat (emtu n) < 65536" using unsigned_less [of "emtu n"] by simp
  then have u: "unat (len + 16) = k + 16" using assms(5) unat_add_lem [of len 16] by (simp add: k_def)
  moreover have "unat (emtu n - 4) = unat (emtu n) - 4" using assms(4) by (simp add: unat_sub word_le_nat_alt)
  ultimately have fit: "len + 16 \<le> emtu n - 4" using assms(5) by (simp add: word_le_nat_alt k_def)
  have l: "length b = k + 16" "length h = 12" "length d = k" "k \<le> length data" using assms(1-3,6) u by (simp_all add: b_def h_def d_def k_def)
  have h: "put_at (put_at b 0 dest) 6 (emyaddr n) = put_at b 0 h" using put_next [of dest 6 "emyaddr n" b] assms(2,3) l by (simp add: h_def)
  have c: "mcopy b 0 dest 0 6 = Some (put_at b 0 dest)" "mcopy (put_at b 0 dest) 6 (emyaddr n) 0 6 = Some (put_at (put_at b 0 dest) 6 (emyaddr n))"
    using l assms(2,3) by (simp_all add: mcopy_in)
  have w: "wr (put_at b 0 xs) q v = Some (put_at b 0 (xs @ [v]))" if "length xs = q" "q < k + 16" for xs q v
    using wr_put_at_next [of 0 xs b v] that l(1) by simp
  have p: "mcopy (put_at b 0 (h @ be16 et @ be16 sz)) 16 data 0 k = Some (put_at b 0 (h @ be16 et @ be16 sz @ d))" for et sz
    using put_next [of "h @ be16 et @ be16 sz" 16 d b] l by (simp add: mcopy_in d_def)
  have s: "slice (put_at b 0 f) 0 (k + 16) = Some f" if "length f = k + 16" for f using that l(1) by (simp add: slice_def put_at_def)
  have bytes: "(ucast (drop_bit 8 (ethtype n) AND 0xff) :: u8) = ucast (drop_bit 8 (ethtype n))" "(ucast (ethtype n AND 0xff) :: u8) = ucast (ethtype n)"
    by (rule low_byte16)+
  show ?thesis
    unfolding send_eth_def Let_def if_P [OF fit] k_def [symmetric] b_def [symmetric] c bind.simps h bytes header_bytes
    using l assms(2,3) p [of "ethtype n" "len + 2"] s [of "h @ be16 (ethtype n) @ be16 (len + 2) @ d"] w
    by (simp add: u be16_def eth_frame_def d_def [symmetric]) (simp add: h_def)
qed


lemma recv_eth_frame:
  assumes chip: "\<forall>k w. k \<le> length w \<longrightarrow> chip k w = (take k w, drop k w)" "\<forall>k. length (mem k) = unat k"
    and n: "eth_ok n" "emtu n = 1518" "wiz n = wiz_frame (eth_frame dest source et sz data @ pad) @ rest"
    and l: "length dest = 6" "length source = 6" "length data + length pad \<le> 1498"
  shows "\<exists>n' p. recv_eth chip mem n = Some (if dest \<noteq> emyaddr n \<and> dest \<noteq> l2addr_eth_broadcast then RECV_WRONG_DEST
        else if et = ethtype n then RECV_OK else RECV_WRONG_TYPE, n') \<and> wiz n' = rest \<and>
      get_src_eth n' = Some source \<and> get_dst_eth n' = Some dest \<and> get_paylen_eth n' = sz - 2 \<and>
      get_payload_eth 0 n' = Some p \<and> length p = 1498 \<and> take (length data) p = data"
proof -
  define f where "f = eth_frame dest source et sz data"
  have lf: "length f = 16 + length data" using l by (simp add: f_def eth_frame_def)
  have room: "eth_room n = 1514" using n(2) by (simp add: eth_room_def)
  have "length (f @ pad) + 2 < 65536" using lf l(3) by simp
  then obtain n' b where n': "recv_eth chip mem n = Some (eth_verdict n (length (f @ pad)) b, n')" "rbuf n' = Some b" "length b = eth_room n" "wiz n' = rest"
    "take (unat (rbuflen n')) b = take (eth_room n) (f @ pad)" "unat (rbuflen n') = min (eth_room n) (length (f @ pad))"
    "pktlen n' = INT16 (b ! 14) (b ! 15) - 2"
    using recv_eth_val [OF chip n(1) n(3) [folded f_def]] by blast
  have b: "take (length f) b = f" using arg_cong [OF n'(5), of "take (length f)"] n'(6) lf l(3) room by (simp add: min_def split: if_splits)
  note part = part_of_prefix [OF b]
  have d: "take 6 b = dest" "take 6 (drop 6 b) = source" "take 2 (drop 12 b) = be16 et" "take 2 (drop 14 b) = be16 sz" "take (length data) (drop 16 b) = data"
    using part [of 0 6] part [of 6 6] part [of 12 2] part [of 14 2] part [of 16 "length data"] lf l by (simp_all add: f_def eth_frame_def)
  have "eth_verdict n (length (f @ pad)) b = (if dest \<noteq> emyaddr n \<and> dest \<noteq> l2addr_eth_broadcast then RECV_WRONG_DEST
        else if et = ethtype n then RECV_OK else RECV_WRONG_TYPE)"
    using d lf l(3) room by (simp add: eth_verdict_def be16_inject)
  then show ?thesis
    using n'(1-4,7) INT16_at [OF d(4)] d room
    by (intro exI [of _ n'] exI [of _ "drop 16 b"]) (simp add: get_src_eth_def get_dst_eth_def get_paylen_eth_def get_payload_eth_def slice_def)
qed

text \<open>
  What one slave driver sends over the Ethernet another one receives: a payload of at most 1498 bytes
  goes out as one frame with addresses, type and size, and a driver with the same type that finds this frame
  in the chip, padded by any bytes, accepts it if it is addressed to it or to all, and gives the address of the
  sender, the length and the bytes of the payload. What follows in the receive memory stays there.
\<close>
theorem ethernet_link:
  assumes chip: "\<forall>k w. k \<le> length w \<longrightarrow> chip k w = (take k w, drop k w)" "\<forall>k. length (mem k) = unat k"
    and sender: "length dest = 6" "length (emyaddr n1) = 6" "emtu n1 = 1518" "unat len \<le> 1498" "unat len \<le> length data"
    and receiver: "eth_ok n2" "wiz n2 = wiz_frame (f @ pad) @ rest" "unat len + length pad \<le> 1498" "emtu n2 = 1518" "ethtype n2 = ethtype n1"
    and f: "f = eth_frame dest (emyaddr n1) (ethtype n1) (len + 2) (take (unat len) data)"
  shows "send_eth mem dest data len n1 = Some (True, n1\<lparr>esent := esent n1 @ [f]\<rparr>) \<and>
    (\<exists>n3 p. recv_eth chip mem n2 = Some (if dest = emyaddr n2 \<or> dest = l2addr_eth_broadcast then RECV_OK else RECV_WRONG_DEST, n3) \<and> wiz n3 = rest \<and>
      get_src_eth n3 = Some (emyaddr n1) \<and> get_dst_eth n3 = Some dest \<and> get_paylen_eth n3 = len \<and>
      get_payload_eth 0 n3 = Some p \<and> take (unat len) p = take (unat len) data)"
proof
  show "send_eth mem dest data len n1 = Some (True, n1\<lparr>esent := esent n1 @ [f]\<rparr>)"
    unfolding f using sender by (intro send_eth_val [OF chip(2)]) simp_all
  have d: "length (take (unat len) data) = unat len" using sender(5) by simp
  obtain n3 p where "recv_eth chip mem n2 = Some (if dest \<noteq> emyaddr n2 \<and> dest \<noteq> l2addr_eth_broadcast then RECV_WRONG_DEST
      else if ethtype n1 = ethtype n2 then RECV_OK else RECV_WRONG_TYPE, n3)" "wiz n3 = rest" "get_src_eth n3 = Some (emyaddr n1)" "get_dst_eth n3 = Some dest"
      "get_paylen_eth n3 = len + 2 - 2" "get_payload_eth 0 n3 = Some p" "take (length (take (unat len) data)) p = take (unat len) data"
    using recv_eth_frame [OF chip receiver(1,4) receiver(2) [unfolded f] sender(1,2)] receiver(3) unfolding d by blast
  then show "\<exists>n3 p. recv_eth chip mem n2 = Some (if dest = emyaddr n2 \<or> dest = l2addr_eth_broadcast then RECV_OK else RECV_WRONG_DEST, n3) \<and> wiz n3 = rest \<and>
      get_src_eth n3 = Some (emyaddr n1) \<and> get_dst_eth n3 = Some dest \<and> get_paylen_eth n3 = len \<and>
      get_payload_eth 0 n3 = Some p \<and> take (unat len) p = take (unat len) data"
    using receiver(5) unfolding d by (intro exI [of _ n3] exI [of _ p]) simp
qed

lemma wiz_one: "eth_ok n \<Longrightarrow> length f \<le> 65000 \<Longrightarrow> eth_ok (n\<lparr>wiz := wiz_frame f\<rparr>)"
  using deframe_Cons [of f "[]"] by (simp add: eth_ok_def) (simp add: wiz_frame_def)

theorem ethernet_link_witness:
  "\<exists>n1' n3 p. send_eth blank_mem (replicate 6 8) [0x40, 1, 0, 7] 4 (sample_eth (replicate 6 7)) = Some (True, n1') \<and>
     recv_eth fifo blank_mem ((sample_eth (replicate 6 8))\<lparr>wiz := wiz_frame (hd (esent n1') @ replicate 40 0)\<rparr>) = Some (RECV_OK, n3) \<and>
     get_src_eth n3 = Some (replicate 6 7) \<and> get_payload_eth 0 n3 = Some p \<and> take 4 p = [0x40, 1, 0, 7]"
proof -
  define f where "f = eth_frame (replicate 6 8) (replicate 6 7) 0x88b5 6 [0x40, 1, 0, 7]"
  have "length f = 20" by (simp add: f_def eth_frame_def)
  then have ok: "eth_ok ((sample_eth (replicate 6 8))\<lparr>wiz := wiz_frame (f @ replicate 40 0)\<rparr>)" by (intro wiz_one) (simp_all add: sample_eth_ok)
  show ?thesis
    using ethernet_link [OF _ _ _ _ _ _ _ ok, of fifo blank_mem "replicate 6 8" "sample_eth (replicate 6 7)" 4 "[0x40, 1, 0, 7]" f "replicate 40 0" "[]"]
    by (auto simp: fifo_def blank_mem_def sample_eth_ok f_def)
qed

text \<open>
  The length of a received payload is what the frame says: with only a header of 16 bytes, addressed to the
  node, a frame can make \<open>get_paylen\<close> any value of 16 bits, and \<open>recv\<close> accepts it, although the buffer has room for 1498
  bytes of payload. The message decoder reads as many bytes as it is told.
\<close>
theorem ethernet_length_unchecked:
  assumes "\<forall>k w. k \<le> length w \<longrightarrow> chip k w = (take k w, drop k w)" "\<forall>k. length (mem k) = unat k" "eth_ok n" "emtu n = 1518" "length (emyaddr n) = 6" "length a = 6"
    and "wiz n = wiz_frame (eth_frame (emyaddr n) a (ethtype n) (v + 2) [])"
  shows "\<exists>n' p. recv_eth chip mem n = Some (RECV_OK, n') \<and> get_paylen_eth n' = v \<and> get_payload_eth 0 n' = Some p \<and> length p = 1498"
proof -
  have "wiz n = wiz_frame (eth_frame (emyaddr n) a (ethtype n) (v + 2) [] @ []) @ []" using assms(7) by simp
  from recv_eth_frame [OF assms(1-4) this assms(5,6)] show ?thesis by auto
qed

theorem ethernet_length_unchecked_witness:
  "\<exists>n' p. recv_eth fifo blank_mem ((sample_eth (replicate 6 8))\<lparr>wiz := wiz_frame (eth_frame (replicate 6 8) (replicate 6 7) 0x88b5 0xfff2 [])\<rparr>) = Some (RECV_OK, n') \<and>
     get_paylen_eth n' = 0xfff0 \<and> get_payload_eth 0 n' = Some p \<and> length p = 1498"
proof -
  have ok: "eth_ok ((sample_eth (replicate 6 8))\<lparr>wiz := wiz_frame (eth_frame (replicate 6 8) (replicate 6 7) 0x88b5 0xfff2 [])\<rparr>)"
    by (intro wiz_one) (simp_all add: sample_eth_ok eth_frame_def)
  show ?thesis
    using ethernet_length_unchecked [OF _ _ ok, of fifo blank_mem "replicate 6 7" "0xfff0"] by (simp add: fifo_def blank_mem_def sample_eth_ok)
qed

end
