(* ===== verification/Master_L2.thy ===== *)
theory Master_L2
  imports Slave_L2 Master_Msg
begin

text \<open>
  Layer 2 of the master: \<open>c-master/casan/l2-154.cc\<close>, which talks to an XBee stick on a serial line, and
  \<open>c-master/casan/l2-eth.cc\<close> on a packet socket. What the kernel gives to \<open>read\<close> and \<open>recvfrom\<close> is an argument;
  what is written is a list. \<open>None\<close> is an access outside an array.
\<close>

section \<open>Addresses\<close>

abbreviation (input) L2154ADDRLEN :: nat where "L2154ADDRLEN \<equiv> 8"
abbreviation (input) ETHADDRLEN :: nat where "ETHADDRLEN \<equiv> 6"

text \<open>The two loops that move a short address to the end.\<close>

fun addr_shift :: "nat list \<Rightarrow> nat \<Rightarrow> u8 list \<Rightarrow> u8 list" where
  "addr_shift [] i a = a"
| "addr_shift (j # js) i a = addr_shift js i (a[L2154ADDRLEN - 1 - j := a ! (i - 1 - j)])"

fun addr_zero :: "nat list \<Rightarrow> u8 list \<Rightarrow> u8 list" where
  "addr_zero [] a = a"
| "addr_zero (j # js) a = addr_zero js (a[j := 0])"

definition master_addr_154 :: "u8 list \<Rightarrow> u8 list \<Rightarrow> u8 list" where
  "master_addr_154 mem s = (case addr_loop L2154ADDRLEN s 0 0 mem of (i, b, a) \<Rightarrow>
     let (i, a) = (if i < L2154ADDRLEN then (i + 1, a[i := b]) else (i, a)) in
     if i < L2154ADDRLEN then addr_zero [0..<L2154ADDRLEN - i] (addr_shift [0..<i] i a) else a)"

definition master_broadcast_154 :: "u8 list" where
  "master_broadcast_154 = master_addr_154 (replicate 8 0) (bytes ''ff:ff:ff:ff:ff:ff:ff:ff'')"

definition hex_digit :: "u8 \<Rightarrow> u8" where
  "hex_digit c = (let d = c AND 0xf in if d < 10 then d + 48 else d - 10 + 97)"

fun print_addr :: "u8 list \<Rightarrow> bool \<Rightarrow> u8 list" where
  "print_addr [] first = []"
| "print_addr (c # a) first = (if first then [] else [58]) @ [hex_digit (drop_bit 4 c), hex_digit c] @ print_addr a False"

text \<open>\<open>%2x\<close> and \<open>%02x\<close> of a byte: the width is reached with spaces, or with zeros.\<close>

definition show_2x :: "u8 \<Rightarrow> u8 \<Rightarrow> u8 list" where
  "show_2x pad c = [if c < 16 then pad else hex_digit (drop_bit 4 c), hex_digit c]"

section \<open>The XBee stick\<close>

abbreviation (input) XBEE_START :: u8 where "XBEE_START \<equiv> 0x7e"
abbreviation (input) XBEE_TX_SHORT :: u8 where "XBEE_TX_SHORT \<equiv> 1"
abbreviation (input) XBEE_MIN_FRAME_SIZE :: nat where "XBEE_MIN_FRAME_SIZE \<equiv> 5"
abbreviation (input) XBEE_MAX_FRAME_SIZE :: nat where "XBEE_MAX_FRAME_SIZE \<equiv> 115"
abbreviation (input) XBEE_MTU :: int where "XBEE_MTU \<equiv> 111"
abbreviation (input) L2154MTU :: int where "L2154MTU \<equiv> 127"
abbreviation (input) BUFLEN :: nat where "BUFLEN \<equiv> 1024"

datatype xframe =
    Tx_status u8 u8
  | Rx_short (saddr: int) (rxdata: "u8 list") (rssi: u8) (rxopt: u8)
  | Other_frame u8

text \<open>What one call of \<open>read\<close> finds: bytes (none at the end of the file), or an error.\<close>

datatype read_result = Bytes "u8 list" | Read_error

record l2net_xbee =
  mtu_x :: int
  ibuffer :: "u8 list"
  pbuffer :: nat
  framelist :: "xframe list"
  serial :: "u8 list"

text \<open>\<open>compute_checksum\<close> of an encoded frame.\<close>

definition checksum_of :: "u8 list \<Rightarrow> int" where
  "checksum_of bs = 0xff - foldl (\<lambda>c x. (c + uint x) AND 0xff) 0 bs"

definition compute_checksum :: "u8 list \<Rightarrow> int option" where
  "compute_checksum buf = do {
     h \<leftarrow> rd buf 1;
     l \<leftarrow> rd buf 2;
     bs \<leftarrow> slice buf 3 (unat (INT16 h l));
     Some (checksum_of bs)
   }"

definition encode_transmit :: "u8 list \<Rightarrow> u8 list \<Rightarrow> u8 list \<Rightarrow> int \<Rightarrow> (u8 list \<times> nat) option" where
  "encode_transmit cmd daddr data len = do {
     let fdlen = 5 + len;
     let cmdlen = 4 + fdlen;
     cmd \<leftarrow> wr cmd 0 XBEE_START;
     cmd \<leftarrow> wr cmd 1 (BYTE_HIGH fdlen);
     cmd \<leftarrow> wr cmd 2 (BYTE_LOW fdlen);
     cmd \<leftarrow> wr cmd 3 XBEE_TX_SHORT;
     cmd \<leftarrow> wr cmd 4 0x41;
     a7 \<leftarrow> rd daddr (L2154ADDRLEN - 1);
     a6 \<leftarrow> rd daddr (L2154ADDRLEN - 2);
     cmd \<leftarrow> wr cmd 5 a7;
     cmd \<leftarrow> wr cmd 6 a6;
     cmd \<leftarrow> wr cmd 7 0;
     cmd \<leftarrow> (if len < 0 then None else mcopy cmd 8 data 0 (nat len));
     ck \<leftarrow> compute_checksum cmd;
     cmd \<leftarrow> wr cmd (8 + nat len) (word_of_int ck);
     Some (cmd, nat cmdlen)
   }"

text \<open>
  The loop around \<open>write\<close>: each result is the number of bytes the kernel took, or \<open>-1\<close>. When no result is
  left the call waits: the last component says so.
\<close>

fun write_loop :: "int list \<Rightarrow> u8 list \<Rightarrow> int \<Rightarrow> u8 list \<Rightarrow> int \<times> u8 list \<times> bool" where
  "write_loop rs [] n line = (n, line, True)"
| "write_loop [] (c # cs) n line = (n, line, False)"
| "write_loop (r # rs) (c # cs) n line =
     (if r = - 1 then (- 1, line, True)
      else write_loop rs (drop (nat r) (c # cs)) (n + r) (line @ take (nat r) (c # cs)))"

definition send_xbee :: "u8 list \<Rightarrow> int list \<Rightarrow> u8 list \<Rightarrow> u8 list \<Rightarrow> int \<Rightarrow> l2net_xbee \<Rightarrow> (int \<times> l2net_xbee \<times> bool) option" where
  "send_xbee mem writes daddr data len n =
     (if len \<le> L2154MTU then do {
        (cmd, cmdlen) \<leftarrow> encode_transmit mem daddr data len;
        out \<leftarrow> slice cmd 0 cmdlen;
        let (r, l, ended) = write_loop writes out 0 (serial n);
        Some (r, n\<lparr>serial := l\<rparr>, ended)
      } else Some (- 1, n, True))"

definition bsend_xbee :: "u8 list \<Rightarrow> int list \<Rightarrow> u8 list \<Rightarrow> int \<Rightarrow> l2net_xbee \<Rightarrow> (int \<times> l2net_xbee \<times> bool) option" where
  "bsend_xbee mem writes data len n = send_xbee mem writes master_broadcast_154 data len n"


section \<open>Frames in the stream\<close>

text \<open>
  \<open>is_frame_complete\<close>: the buffer \<open>b\<close> holds \<open>p\<close> bytes, the search begins at \<open>start\<close>. The overlapping \<open>memcpy\<close> is
  taken as a move.
\<close>

definition align_buffer :: "u8 list \<Rightarrow> nat \<Rightarrow> nat \<Rightarrow> u8 list" where
  "align_buffer b from n = put_at b 0 (take n (drop from b))"

definition junk :: "u8 list \<Rightarrow> nat" where
  "junk bs = length (takeWhile (\<lambda>c. c \<noteq> XBEE_START) bs)"

text \<open>The start byte, at \<open>start + i\<close>, becomes the first one; then the buffer holds \<open>buflen\<close> bytes.\<close>

definition align_start :: "u8 list \<Rightarrow> nat \<Rightarrow> nat \<Rightarrow> nat \<Rightarrow> u8 list \<times> nat" where
  "align_start b start i p =
     (if start + i \<noteq> 0 then let buflen = p - start - i in (align_buffer b (start + i) buflen, buflen) else (b, p))"

lemma align_start_p: "align_start b start i p = (b', p') \<Longrightarrow> p' = p - start - i"
  by (auto simp: align_start_def Let_def split: if_splits)

function is_frame_complete :: "nat \<Rightarrow> u8 list \<Rightarrow> nat \<Rightarrow> (bool \<times> u8 list \<times> nat) option" where
  "is_frame_complete start b p =
     (if length b < p \<or> p < start then None
      else let i = junk (take (p - start) (drop start b))
      in if p - start \<le> i then Some (False, b, 0)
      else case align_start b start i p of (b, p) \<Rightarrow>
        if p < XBEE_MIN_FRAME_SIZE then Some (False, b, p)
        else let framelen = unat (INT16 (b ! 1) (b ! 2))
        in if framelen > XBEE_MAX_FRAME_SIZE then is_frame_complete 1 b p
        else let pktlen = framelen + 4
        in if pktlen > p then Some (False, b, p)
        else (case compute_checksum b of None \<Rightarrow> None
          | Some cksum \<Rightarrow>
            if cksum \<noteq> uint (b ! (pktlen - 1)) then is_frame_complete 1 b p
            else Some (True, b, p)))"
  by pat_completeness auto
termination
proof (relation "measure (\<lambda>(start, b, p). p - start)", goal_cases)
  case 1
  show ?case by simp
next
  case 2
  show ?case unfolding in_measure prod.case using align_start_p [OF 2(4) [symmetric]] 2(3) by linarith
next
  case 3
  show ?case unfolding in_measure prod.case using align_start_p [OF 3(4) [symmetric]] 3(3) by linarith
qed

declare is_frame_complete.simps [simp del]

definition extract_frame_to_list :: "u8 list \<Rightarrow> nat \<Rightarrow> xframe list \<Rightarrow> (u8 list \<times> nat \<times> xframe list) option" where
  "extract_frame_to_list b p fl = do {
     h \<leftarrow> rd b 1;
     l \<leftarrow> rd b 2;
     let framelen = unat (INT16 h l);
     let pktlen = framelen + 4;
     ty \<leftarrow> rd b 3;
     f \<leftarrow> (if ty = 0x89 then do {
             fid \<leftarrow> rd b 4;
             st \<leftarrow> rd b 5;
             Some (Tx_status fid st)
           } else if ty = 0x81 then do {
             sh \<leftarrow> rd b 4;
             sl \<leftarrow> rd b 5;
             data \<leftarrow> (if framelen < 5 then None else slice b 8 (framelen - 5));
             rs \<leftarrow> rd b 6;
             op \<leftarrow> rd b 7;
             Some (Rx_short (uint (INT16 sh sl)) data rs op)
           } else Some (Other_frame ty));
     if p < pktlen then None
     else let p = p - pktlen in Some (if p > 0 then align_buffer b pktlen p else b, p, fl @ [f])
   }"

lemma is_frame_complete_le: "is_frame_complete start b p = Some (r, b', p') \<Longrightarrow> p' \<le> p"
proof (induction start b p rule: is_frame_complete.induct)
  case (1 start b p)
  obtain b1 p1 where a: "align_start b start (junk (take (p - start) (drop start b))) p = (b1, p1)" by fastforce
  have "p1 \<le> p" using align_start_p [OF a] by simp
  with 1 a show ?case
    by (subst (asm) (3) is_frame_complete.simps) (fastforce simp: Let_def split: if_splits option.splits)
qed

lemma extract_less: "extract_frame_to_list b p fl = Some (b', p', fl') \<Longrightarrow> p' < p"
  by (auto simp: extract_frame_to_list_def Let_def split: if_splits Option.bind_splits)

function extract_frames :: "u8 list \<Rightarrow> nat \<Rightarrow> xframe list \<Rightarrow> bool \<Rightarrow> (u8 list \<times> nat \<times> xframe list \<times> bool) option" where
  "extract_frames b p fl found =
     (case is_frame_complete 0 b p of None \<Rightarrow> None
      | Some (complete, b, p) \<Rightarrow>
        if complete then (case extract_frame_to_list b p fl of None \<Rightarrow> None | Some (b, p, fl) \<Rightarrow> extract_frames b p fl True)
        else Some (b, p, fl, found))"
  by pat_completeness auto
termination
  by (relation "measure (\<lambda>(b, p, fl, found). p)") (auto dest!: is_frame_complete_le extract_less)

declare extract_frames.simps [simp del]

text \<open>
  The loop around \<open>read\<close>, which gets at most the free part of the buffer; what does not fit is read later. The
  first component is the result of the last \<open>read\<close>, or nothing while it waits.
\<close>

function read_complete_frame :: "read_result list \<Rightarrow> l2net_xbee \<Rightarrow> (int option \<times> read_result list \<times> l2net_xbee) option" where
  "read_complete_frame [] n = Some (None, [], n)"
| "read_complete_frame (Read_error # rs) n = Some (Some (- 1), rs, n)"
| "read_complete_frame (Bytes c # rs) n =
     (let room = BUFLEN - pbuffer n; got = take room c in
      if got = [] then Some (Some 0, if c = [] then rs else Bytes c # rs, n)
      else do {
        b \<leftarrow> mcopy (ibuffer n) (pbuffer n) got 0 (length got);
        (b, p, fl, found) \<leftarrow> extract_frames b (pbuffer n + length got) (framelist n) False;
        let n = n\<lparr>ibuffer := b, pbuffer := p, framelist := fl\<rparr>;
        let rs = (if length c \<le> room then rs else Bytes (drop room c) # rs);
        if found then Some (Some (int (length got)), rs, n) else read_complete_frame rs n
      })"
  by pat_completeness auto
termination
  by (relation "measure (\<lambda>(rs, n). sum_list (map (\<lambda>r. case r of Bytes c \<Rightarrow> Suc (length c) | Read_error \<Rightarrow> 1) rs))") auto

declare read_complete_frame.simps [simp del]

text \<open>
  \<open>extract_received_packet\<close>: the first received packet of the list, its source address by way of text, and as much of
  its data as there is room for.
\<close>

definition source_address :: "int \<Rightarrow> u8 list \<Rightarrow> u8 list" where
  "source_address a mem = master_addr_154 mem (show_2x 32 (BYTE_LOW a) @ [58] @ show_2x 32 (BYTE_HIGH a))"

fun extract_received_packet :: "nat \<Rightarrow> u8 list \<Rightarrow> xframe list \<Rightarrow> (pktype \<times> u8 list \<times> u8 list) option \<times> xframe list" where
  "extract_received_packet len mem [] = (None, [])"
| "extract_received_packet len mem (Rx_short a data rs op # fs) =
     (Some (if op AND 2 \<noteq> 0 then PK_BCAST else PK_ME, source_address a mem, take (if length data \<le> len then length data else len) data), fs)"
| "extract_received_packet len mem (f # fs) =
     (case extract_received_packet len mem fs of (r, fs) \<Rightarrow> (r, f # fs))"

text \<open>\<open>recv\<close>: it may never return, when \<open>read\<close> gives nothing for ever.\<close>

datatype xbee_result = Packet "pktype \<times> u8 list \<times> u8 list" | No_packet | Waits

partial_function (option) recv_xbee :: "nat \<Rightarrow> u8 list \<Rightarrow> read_result list \<Rightarrow> l2net_xbee \<Rightarrow> (xbee_result \<times> read_result list \<times> l2net_xbee) option" where
  "recv_xbee len mem rs n =
     (case extract_received_packet len mem (framelist n) of
        (Some x, fl) \<Rightarrow> Some (Packet x, rs, n\<lparr>framelist := fl\<rparr>)
      | (None, fl) \<Rightarrow>
        (case read_complete_frame rs n of
           None \<Rightarrow> None
         | Some (None, rs, n) \<Rightarrow> Some (Waits, rs, n)
         | Some (Some k, rs, n) \<Rightarrow> if k = - 1 then Some (No_packet, rs, n) else recv_xbee len mem rs n))"

text \<open>
  \<open>init\<close>: the name of the device that is opened, the modem commands that are written, and the result. The three flags
  say if \<open>open\<close>, \<open>tcgetattr\<close> and \<open>tcsetattr\<close> succeed.
\<close>

definition init_xbee :: "u8 list \<Rightarrow> bool \<Rightarrow> bool \<Rightarrow> bool \<Rightarrow> u8 list \<Rightarrow> u8 list \<Rightarrow> int \<Rightarrow> u8 list \<Rightarrow> u8 list \<Rightarrow> int \<Rightarrow> l2net_xbee \<Rightarrow> int \<times> u8 list \<times> l2net_xbee" where
  "init_xbee mem opened got_attr set_attr iface kind mtu addr pan channel n =
     (let a = master_addr_154 mem addr;
          p = master_addr_154 mem pan;
          dev = (if iface \<noteq> [] \<and> hd iface = 47 then iface else bytes ''/dev/'' @ iface)
      in if kind = bytes ''xbee'' then
        let n = n\<lparr>mtu_x := if mtu > 0 \<and> mtu \<le> XBEE_MTU then mtu else XBEE_MTU\<rparr>
        in if channel < 11 \<or> channel > 26 then (- 1, dev, n)
        else if \<not> opened then (- 1, dev, n)
        else if \<not> got_attr then (- 1, dev, n)
        else if \<not> set_attr then (- 1, dev, n)
        else (0, dev, n\<lparr>pbuffer := 0, serial := serial n @ bytes ''+++'' @ bytes ''ATRE'' @ [13] @
          bytes ''ATMY'' @ show_2x 48 (a ! (L2154ADDRLEN - 1)) @ show_2x 48 (a ! (L2154ADDRLEN - 2)) @ [13] @
          bytes ''ATID'' @ show_2x 48 (p ! (L2154ADDRLEN - 1)) @ show_2x 48 (p ! (L2154ADDRLEN - 2)) @ [13] @
          bytes ''ATCH'' @ show_2x 48 (word_of_int channel) @ [13] @
          bytes ''ATMM2'' @ [13] @ bytes ''ATAP1'' @ [13] @ bytes ''ATCN'' @ [13]\<rparr>)
      else (- 1, dev, n\<lparr>mtu_x := if mtu > 0 \<and> mtu \<le> L2154MTU then mtu else L2154MTU\<rparr>))"

section \<open>Ethernet\<close>

abbreviation (input) ETHMTU :: int where "ETHMTU \<equiv> 1536"

definition master_addr_eth :: "u8 list \<Rightarrow> u8 list \<Rightarrow> u8 list" where
  "master_addr_eth mem s = (case addr_loop ETHADDRLEN s 0 0 mem of (i, b, a) \<Rightarrow> if i < ETHADDRLEN then a[i := b] else a)"

definition master_broadcast_eth :: "u8 list" where
  "master_broadcast_eth = master_addr_eth (replicate 6 0) (bytes ''ff:ff:ff:ff:ff:ff'')"

record l2net_packet =
  mtu_p :: int
  ethertype_p :: int
  sent_p :: "(u8 list \<times> u8 list) list"

text \<open>The flags say if the interface exists, and if \<open>socket\<close> and \<open>bind\<close> succeed.\<close>

definition init_packet :: "bool \<Rightarrow> bool \<Rightarrow> bool \<Rightarrow> int \<Rightarrow> int \<Rightarrow> l2net_packet \<Rightarrow> int \<times> l2net_packet" where
  "init_packet has_index opened bound mtu et n =
     (let n = n\<lparr>mtu_p := if mtu > 0 \<and> mtu \<le> ETHMTU then mtu else ETHMTU, ethertype_p := et\<rparr>
      in if \<not> has_index then (- 1, n)
      else if \<not> opened then (- 1, n)
      else if \<not> bound then (- 1, n)
      else (0, n))"

text \<open>The socket adds the Ethernet header: what is sent is an address and the bytes after it. \<open>taken\<close>: \<open>sendto\<close> succeeds.\<close>

definition send_packet :: "(nat \<Rightarrow> u8 list) \<Rightarrow> bool \<Rightarrow> u8 list \<Rightarrow> u8 list \<Rightarrow> int \<Rightarrow> l2net_packet \<Rightarrow> (int \<times> l2net_packet) option" where
  "send_packet mem taken daddr data len n =
     (let len = len + 2 in
      if len < 2 then None
      else do {
        let buf = mem (nat len);
        buf \<leftarrow> wr buf 0 (BYTE_HIGH len);
        buf \<leftarrow> wr buf 1 (BYTE_LOW len);
        buf \<leftarrow> mcopy buf 2 data 0 (nat (len - 2));
        f \<leftarrow> slice buf 0 (nat len);
        Some (if taken then (len, n\<lparr>sent_p := sent_p n @ [(daddr, f)]\<rparr>) else (- 1, n))
      })"

definition bsend_packet :: "(nat \<Rightarrow> u8 list) \<Rightarrow> bool \<Rightarrow> u8 list \<Rightarrow> int \<Rightarrow> l2net_packet \<Rightarrow> (int \<times> l2net_packet) option" where
  "bsend_packet mem taken data len n = send_packet mem taken master_broadcast_eth data len n"

datatype sll_pkttype = PACKET_HOST | PACKET_BROADCAST | PACKET_MULTICAST | PACKET_OTHERHOST | PACKET_OUTGOING

text \<open>\<open>got\<close> is what \<open>recvfrom\<close> returns: the bytes after the header, the address of the sender, the kind of packet.\<close>

definition recv_packet :: "(nat \<Rightarrow> u8 list) \<Rightarrow> (u8 list \<times> u8 list \<times> sll_pkttype) option \<Rightarrow> u8 list \<Rightarrow> int \<Rightarrow> (pktype \<times> u8 list option \<times> u8 list \<times> int) option" where
  "recv_packet mem got data len =
     (let lenlen = len + 2 in
      if lenlen < 0 then None
      else (case got of
        None \<Rightarrow> Some (PK_NONE, None, data, len)
      | Some (bs, a, kind) \<Rightarrow> do {
          let buf = mem (nat lenlen);
          let r = min (length bs) (nat lenlen);
          buf \<leftarrow> mcopy buf 0 bs 0 r;
          h \<leftarrow> rd buf 0;
          l \<leftarrow> rd buf 1;
          let len = uint (INT16 h l) - 2;
          data \<leftarrow> (if r < 2 then None else mcopy data 0 buf 2 (r - 2));
          let k = (case kind of PACKET_HOST \<Rightarrow> PK_ME | PACKET_BROADCAST \<Rightarrow> PK_BCAST | PACKET_MULTICAST \<Rightarrow> PK_BCAST | PACKET_OTHERHOST \<Rightarrow> PK_NONE
            | PACKET_OUTGOING \<Rightarrow> PK_NONE);
          Some (k, Some a, data, len)
        }))"

end
