(* ===== verification/Xbee_Laws.thy ===== *)
theory Xbee_Laws
  imports Slave_Eth_Laws Master_L2 Master_Msg_Laws
begin

text \<open>
  The stream of the XBee stick: a reference parser on the whole stream, and that the driver, which gets it in
  pieces into a buffer of 1024 bytes, finds the same frames; what it sends is a frame for this parser.
\<close>

section \<open>The stream of frames\<close>

text \<open>
  The reference: the first place where a whole frame with a right checksum stands, or the bytes from which a frame
  may still grow; and all frames of a stream.
\<close>

definition frame_len :: "u8 list \<Rightarrow> nat" where
  "frame_len s = unat (INT16 (s ! 1) (s ! 2))"

definition waits :: "u8 list \<Rightarrow> bool" where
  "waits s \<longleftrightarrow> length s < 5 \<or> frame_len s \<le> 115 \<and> length s < frame_len s + 4"

definition valid_frame :: "u8 list \<Rightarrow> bool" where
  "valid_frame s \<longleftrightarrow> frame_len s \<le> 115 \<and> checksum_of (take (frame_len s) (drop 3 s)) = uint (s ! (frame_len s + 3))"

definition from_start :: "u8 list \<Rightarrow> u8 list" where
  "from_start bs = dropWhile (\<lambda>c. c \<noteq> 0x7e) bs"

lemma from_start_simps [simp]:
  "from_start [] = []" "length (from_start bs) \<le> length bs" "from_start (from_start bs) = from_start bs"
  by (simp_all add: from_start_def length_dropWhile_le dropWhile_idem)

lemma from_start_hd: "from_start bs \<noteq> [] \<Longrightarrow> from_start bs ! 0 = 0x7e"
  using hd_dropWhile [of "\<lambda>c. c \<noteq> 0x7e" bs] by (simp add: from_start_def hd_conv_nth)

lemma from_start_append: "from_start (xs @ ys) = (if from_start xs = [] then from_start ys else from_start xs @ ys)"
  by (cases "126 \<in> set xs") (auto simp: from_start_def dropWhile_append1 dropWhile_append2)

lemma not_waits_length: "\<not> waits s \<Longrightarrow> 5 \<le> length s"
  by (auto simp: waits_def)

function xbee_seek :: "u8 list \<Rightarrow> bool \<times> u8 list" where
  "xbee_seek bs =
     (if waits (from_start bs) then (False, from_start bs)
      else if valid_frame (from_start bs) then (True, from_start bs)
      else xbee_seek (tl (from_start bs)))"
  by pat_completeness auto
termination
proof (relation "measure length", goal_cases)
  case (2 bs)
  then show ?case using not_waits_length [of "from_start bs"] from_start_simps(2) [of bs] by (simp del: from_start_simps)
qed simp

declare xbee_seek.simps [simp del]

lemma seek_found:
  "xbee_seek bs = (True, s) \<Longrightarrow> \<not> waits s \<and> valid_frame s \<and> from_start s = s \<and> length s \<le> length bs"
proof (induction bs rule: xbee_seek.induct)
  case (1 bs)
  have "length (tl (from_start bs)) \<le> length bs" using from_start_simps(2) [of bs] by (simp del: from_start_simps)
  then show ?case
    using 1 by (subst (asm) (2) xbee_seek.simps) (auto split: if_splits)
qed

lemma seek_left: "xbee_seek bs = (False, s) \<Longrightarrow> waits s \<and> from_start s = s"
proof (induction bs rule: xbee_seek.induct)
  case (1 bs)
  then show ?case by (subst (asm) (2) xbee_seek.simps) (auto split: if_splits)
qed

lemma waits_length: "waits s \<Longrightarrow> length s < 119"
  by (auto simp: waits_def)

function xbee_parse :: "u8 list \<Rightarrow> u8 list list \<times> u8 list" where
  "xbee_parse bs =
     (case xbee_seek bs of (found, s) \<Rightarrow>
        if found then (case xbee_parse (drop (frame_len s + 4) s) of (fs, r) \<Rightarrow> (take (frame_len s) (drop 3 s) # fs, r))
        else ([], s))"
  by pat_completeness auto
termination
proof (relation "measure length", goal_cases)
  case (2 bs x s)
  then show ?case using seek_found [of bs s] by (auto simp: waits_def)
qed simp

declare xbee_parse.simps [simp del]

lemma seek_start: "xbee_seek (from_start bs) = xbee_seek bs"
  by (simp add: xbee_seek.simps [of "from_start bs"] xbee_seek.simps [of bs])

lemma seek_waiting: "waits s \<Longrightarrow> from_start s = s \<Longrightarrow> xbee_seek s = (False, s)"
  by (simp add: xbee_seek.simps)

text \<open>What is decided stays decided when more bytes follow.\<close>

lemma frame_len_append: "3 \<le> length s \<Longrightarrow> frame_len (s @ t) = frame_len s"
  by (simp add: frame_len_def nth_append)

lemma decided_append:
  assumes "\<not> waits s"
  shows "\<not> waits (s @ t)" "valid_frame (s @ t) = valid_frame s"
proof -
  have l: "5 \<le> length s" "frame_len s \<le> 115 \<longrightarrow> frame_len s + 4 \<le> length s" using assms by (auto simp: waits_def)
  then have f: "frame_len (s @ t) = frame_len s" by (simp add: frame_len_append)
  show "\<not> waits (s @ t)" using l f by (auto simp: waits_def)
  show "valid_frame (s @ t) = valid_frame s" using l by (auto simp: valid_frame_def f nth_append)
qed

lemma seek_append:
  "xbee_seek (xs @ ys) = (case xbee_seek xs of (found, s) \<Rightarrow> if found then (True, s @ ys) else xbee_seek (s @ ys))"
proof (induction xs rule: xbee_seek.induct)
  case (1 xs)
  define s where "s = from_start xs"
  show ?case
  proof (cases "waits s")
    case True
    have "from_start (s @ ys) = from_start (xs @ ys)" by (simp add: s_def from_start_append)
    then have "xbee_seek (s @ ys) = xbee_seek (xs @ ys)" by (metis seek_start)
    then show ?thesis using True by (simp add: xbee_seek.simps [of xs] s_def [symmetric])
  next
    case False
    then have ne: "s \<noteq> []" by (auto simp: waits_def)
    then have f: "from_start (xs @ ys) = s @ ys" by (simp add: s_def from_start_append)
    note d = decided_append [OF False, of ys]
    show ?thesis
    proof (cases "valid_frame s")
      case True
      then show ?thesis using False d by (simp add: xbee_seek.simps [of xs] xbee_seek.simps [of "xs @ ys"] f s_def [symmetric])
    next
      case v: False
      then show ?thesis
        using False d ne "1.IH" by (simp add: xbee_seek.simps [of xs] xbee_seek.simps [of "xs @ ys"] f s_def [symmetric])
    qed
  qed
qed

lemma parse_append:
  "xbee_parse (xs @ ys) = (case xbee_parse xs of (fs, r) \<Rightarrow> case xbee_parse (r @ ys) of (gs, r') \<Rightarrow> (fs @ gs, r'))"
proof (induction xs rule: xbee_parse.induct)
  case (1 xs)
  obtain found s where s: "xbee_seek xs = (found, s)" by fastforce
  show ?case
  proof (cases found)
    case True
    then have k: "\<not> waits s" "valid_frame s" using seek_found s by auto
    then have l: "frame_len s + 4 \<le> length s" "frame_len (s @ ys) = frame_len s" by (auto simp: waits_def valid_frame_def frame_len_append)
    have d: "drop (frame_len s + 4) (s @ ys) = drop (frame_len s + 4) s @ ys" "take (frame_len s) (drop 3 (s @ ys)) = take (frame_len s) (drop 3 s)"
      using l by simp_all
    show ?thesis
      using "1.IH" [OF s [symmetric] True] s True
      by (simp add: xbee_parse.simps [of xs] xbee_parse.simps [of "xs @ ys"] seek_append [of xs ys] l(2) d del: drop_append take_append split: prod.splits)
  next
    case False
    then have "xbee_seek (s @ ys) = xbee_seek (xs @ ys)" using s by (simp add: seek_append)
    then show ?thesis using s False by (simp add: xbee_parse.simps [of xs] xbee_parse.simps [of "xs @ ys"] xbee_parse.simps [of "s @ ys"] split: prod.splits)
  qed
qed

lemma parse_left: "xbee_parse bs = (fs, r) \<Longrightarrow> xbee_seek r = (False, r) \<and> length r < 119"
proof (induction bs arbitrary: fs rule: xbee_parse.induct)
  case (1 bs)
  obtain found s where s: "xbee_seek bs = (found, s)" by fastforce
  show ?case
  proof (cases found)
    case True
    then show ?thesis using 1 s by (subst (asm) (2) xbee_parse.simps) (auto split: prod.splits)
  next
    case False
    then have "r = s" "waits s" "from_start s = s" using "1.prems" s seek_left by (auto simp: xbee_parse.simps)
    then show ?thesis by (simp add: seek_waiting waits_length)
  qed
qed


section \<open>The parser of the driver\<close>

lemma from_start_junk: "from_start bs = drop (junk bs) bs" "length (from_start bs) = length bs - junk bs"
  by (simp_all add: from_start_def junk_def dropWhile_eq_drop)

lemma align_start_val:
  assumes "start \<le> p" "p \<le> length b" "bs = take (p - start) (drop start b)" "junk bs < p - start" "align_start b start (junk bs) p = (b', p')"
  shows "length b' = length b" "p' = length (from_start bs)" "take p' b' = from_start bs"
proof -
  have lb: "length bs = p - start" using assms(1-3) by simp
  have p': "p' = p - start - junk bs" using align_start_p [OF assms(5)] .
  then show "p' = length (from_start bs)" using lb by (simp add: from_start_junk del: from_start_simps)
  have d: "take p' (drop (start + junk bs) b) = from_start bs"
    using p' by (simp add: from_start_junk assms(3) drop_take add.commute)
  have f: "length (take p' (drop (start + junk bs) b)) = p'" "p' \<le> length b" using p' assms(1,2,4) by simp_all
  show "length b' = length b" using assms(5) p' f by (auto simp: align_start_def align_buffer_def Let_def split: if_splits)
  show "take p' b' = from_start bs"
    using assms(5) p' d f by (auto simp: align_start_def align_buffer_def Let_def put_at_def split: if_splits)
qed

lemma compute_checksum_val:
  assumes "take p b = s" "frame_len s + 4 \<le> length s"
  shows "compute_checksum b = Some (checksum_of (take (frame_len s) (drop 3 s)))"
proof -
  have l: "length s \<le> length b" "length s \<le> p" using assms(1) by auto
  have n: "b ! i = s ! i" if "i < length s" for i using that l assms(1) by (metis nth_take order_less_le_trans)
  have "take (frame_len s) (drop 3 b) = take (frame_len s) (drop 3 s)"
    using part_of_prefix [OF assms(1), of 3 "frame_len s"] assms(2) l by simp
  then show ?thesis using n [of 1] n [of 2] l assms(2) by (simp add: compute_checksum_def slice_def frame_len_def)
qed

lemma is_frame_complete_val:
  "length b = 1024 \<Longrightarrow> start \<le> p \<Longrightarrow> p \<le> 1024 \<Longrightarrow> xbee_seek (take (p - start) (drop start b)) = (found, s) \<Longrightarrow>
   \<exists>b'. is_frame_complete start b p = Some (found, b', length s) \<and> length b' = 1024 \<and> take (length s) b' = s"
proof (induction "p - start" arbitrary: start b p rule: less_induct)
  case less
  define bs where "bs = take (p - start) (drop start b)"
  have g: "\<not> (length b < p \<or> p < start)" using less.prems by simp
  note seek = less.prems(4) [folded bs_def]
  have lb: "length bs = p - start" using g by (auto simp: bs_def min_def)
  show ?case
  proof (cases "p - start \<le> junk bs")
    case True
    then have "from_start bs = []" using lb by (simp add: from_start_junk del: from_start_simps)
    then have "found = False" "s = []" using seek by (auto simp: xbee_seek.simps waits_def)
    then show ?thesis using True g less.prems(1) by (subst is_frame_complete.simps) (simp add: bs_def)
  next
    case False
    obtain b1 p1 where a: "align_start b start (junk bs) p = (b1, p1)" by fastforce
    define t where "t = from_start bs"
    have t: "length b1 = 1024" "p1 = length t" "take p1 b1 = t"
      using align_start_val [OF _ _ bs_def _ a] g False less.prems(1) by (auto simp: t_def)
    have p1: "p1 \<le> 1024" using t by (metis length_take min.cobounded1)
    have nth: "b1 ! i = t ! i" if "i < p1" for i using that t by (metis nth_take)
    have tl: "take (p1 - 1) (drop 1 b1) = tl t" using t(3) by (metis drop_Suc drop_0 One_nat_def take_tl tl_take)
    have sk: "xbee_seek bs = (if waits t then (False, t) else if valid_frame t then (True, t) else xbee_seek (tl t))"
      by (simp add: xbee_seek.simps [of bs] t_def)
    have step: "is_frame_complete start b p = (if p1 < 5 then Some (False, b1, p1)
        else if frame_len t > 115 then is_frame_complete 1 b1 p1
        else if frame_len t + 4 > p1 then Some (False, b1, p1)
        else (case compute_checksum b1 of None \<Rightarrow> None
          | Some cksum \<Rightarrow> if cksum \<noteq> uint (b1 ! (frame_len t + 4 - 1)) then is_frame_complete 1 b1 p1 else Some (True, b1, p1)))"
    proof -
      have "unat (INT16 (b1 ! 1) (b1 ! 2)) = frame_len t" if "\<not> p1 < 5" using nth [of 1] nth [of 2] that by (simp add: frame_len_def)
      then show ?thesis using g False by (cases "p1 < 5"; subst is_frame_complete.simps) (simp_all add: Let_def bs_def [symmetric] a)
    qed
    show ?thesis
    proof (cases "waits t")
      case True
      then have "found = False" "s = t" using sk seek by simp_all
      moreover have "is_frame_complete start b p = Some (False, b1, p1)" using True t(2) by (auto simp: step waits_def)
      ultimately show ?thesis using t by auto
    next
      case w: False
      then have l: "5 \<le> p1" "frame_len t \<le> 115 \<longrightarrow> frame_len t + 4 \<le> p1" using t(2) by (auto simp: waits_def)
      show ?thesis
      proof (cases "valid_frame t")
        case True
        then have f: "frame_len t \<le> 115" "frame_len t + 4 \<le> length t" using l t(2) by (auto simp: valid_frame_def)
        have "found = True" "s = t" using sk w True seek by simp_all
        moreover have "is_frame_complete start b p = Some (True, b1, p1)"
          using f l True nth [of "frame_len t + 3"] t(2) compute_checksum_val [OF t(3) f(2)] by (simp add: step valid_frame_def add.commute [of 3])
        ultimately show ?thesis using t by auto
      next
        case v: False
        have s: "xbee_seek (take (p1 - 1) (drop 1 b1)) = (found, s)" unfolding tl using sk w v seek by simp
        have r: "is_frame_complete start b p = is_frame_complete 1 b1 p1"
          using l v nth [of "frame_len t + 3"] t(2) compute_checksum_val [OF t(3)] by (auto simp: step valid_frame_def add.commute [of 3])
        have "p1 - 1 < p - start" using align_start_p [OF a] False by linarith
        then show ?thesis using less.hyps [OF _ t(1) _ p1 s] l(1) by (simp add: r)
      qed
    qed
  qed
qed


text \<open>The content of a frame; a frame without content has its checksum, 255, where the type is read.\<close>

definition xframe_of :: "u8 list \<Rightarrow> xframe" where
  "xframe_of f =
     (if f = [] then Other_frame 0xff
      else if f ! 0 = 0x89 then Tx_status (f ! 1) (f ! 2)
      else if f ! 0 = 0x81 then Rx_short (uint (INT16 (f ! 1) (f ! 2))) (drop 5 f) (f ! 3) (f ! 4)
      else Other_frame (f ! 0))"

definition sane_frame :: "u8 list \<Rightarrow> bool" where
  "sane_frame f \<longleftrightarrow> (f \<noteq> [] \<and> f ! 0 = 0x89 \<longrightarrow> 3 \<le> length f) \<and> (f \<noteq> [] \<and> f ! 0 = 0x81 \<longrightarrow> 5 \<le> length f)"

lemma extract_frame_val:
  assumes "length b = 1024" "take (length s) b = s" "\<not> waits s" "valid_frame s" "sane_frame (take (frame_len s) (drop 3 s))"
  shows "\<exists>b'. extract_frame_to_list b (length s) fl = Some (b', length (drop (frame_len s + 4) s), fl @ [xframe_of (take (frame_len s) (drop 3 s))]) \<and>
    length b' = 1024 \<and> take (length (drop (frame_len s + 4) s)) b' = drop (frame_len s + 4) s"
proof -
  define n where "n = frame_len s"
  define f where "f = take n (drop 3 s)"
  define p where "p = length s - (n + 4)"
  have l: "5 \<le> length s" "n + 4 \<le> length s" "n \<le> 115" using assms(3,4) by (auto simp: waits_def valid_frame_def n_def)
  have ls: "length s \<le> 1024" using assms(1,2) by (metis length_take min.cobounded1)
  have nth: "b ! i = s ! i" if "i < length s" for i using that assms(2) by (metis nth_take)
  have fn: "f ! i = s ! (3 + i)" "length f = n" if "i < n" for i using that l by (simp_all add: f_def)
  have lf: "length f = n" using l by (simp add: f_def)
  have len: "unat (INT16 (b ! 1) (b ! 2)) = n" using nth [of 1] nth [of 2] l by (simp add: n_def frame_len_def)
  have ty: "b ! 3 = (if n = 0 then 0xff else f ! 0)"
  proof (cases "n = 0")
    case True
    then have "uint (s ! 3) = uint (0xff :: u8)" using assms(4) by (simp add: valid_frame_def n_def checksum_of_def)
    then have "s ! 3 = 0xff" using word_uint_eqI by blast
    then show ?thesis using True nth [of 3] l by simp
  next
    case False
    then show ?thesis using nth [of 3] fn(1) [of 0] l by simp
  qed
  have data: "take (n - 5) (drop 8 b) = drop 5 f" if "5 \<le> n"
  proof -
    have "take (n - 5) (drop 8 b) = take (n - 5) (drop 8 s)" using part_of_prefix [OF assms(2), of 8 "n - 5"] that l by simp
    then show ?thesis by (simp add: f_def drop_take)
  qed
  have k: "(if b ! 3 = 0x89 then do { fid \<leftarrow> rd b 4; st \<leftarrow> rd b 5; Some (Tx_status fid st) }
      else if b ! 3 = 0x81 then do {
        sh \<leftarrow> rd b 4; sl \<leftarrow> rd b 5;
        data \<leftarrow> (if n < 5 then None else slice b 8 (n - 5));
        rs \<leftarrow> rd b 6; op \<leftarrow> rd b 7;
        Some (Rx_short (uint (INT16 sh sl)) data rs op)
      } else Some (Other_frame (b ! 3))) = Some (xframe_of f)"
  proof (cases "n = 0 \<or> f ! 0 \<noteq> 0x89 \<and> f ! 0 \<noteq> 0x81")
    case True
    then show ?thesis using ty lf by (auto simp: xframe_of_def)
  next
    case False
    then have "f \<noteq> []" "f ! 0 = 0x89 \<longrightarrow> 3 \<le> n" "f ! 0 = 0x81 \<longrightarrow> 5 \<le> n" using assms(5) lf by (auto simp: sane_frame_def n_def [symmetric] f_def [symmetric])
    then show ?thesis
      using False ty fn(1) [of 1] fn(1) [of 2] fn(1) [of 3] fn(1) [of 4] nth [of 4] nth [of 5] nth [of 6] nth [of 7] l ls assms(1) data
      by (auto simp: xframe_of_def slice_def)
  qed
  have r: "rd b 1 = Some (b ! 1)" "rd b 2 = Some (b ! 2)" "rd b 3 = Some (b ! 3)" using assms(1) by simp_all
  define b' where "b' = (if p > 0 then align_buffer b (n + 4) p else b)"
  have e: "extract_frame_to_list b (length s) fl = Some (b', p, fl @ [xframe_of f])"
    unfolding extract_frame_to_list_def r bind.simps Let_def len k using l by (simp add: b'_def p_def)
  have d: "take p (drop (n + 4) b) = drop (n + 4) s" using part_of_prefix [OF assms(2), of "n + 4" p] l by (simp add: p_def)
  then have "length b' = 1024" "take p b' = drop (n + 4) s"
    using assms(1) ls by (auto simp: b'_def align_buffer_def put_at_def p_def)
  then show ?thesis using e by (simp add: n_def [symmetric] f_def [symmetric] p_def)
qed

lemma extract_frames_val:
  "length b = 1024 \<Longrightarrow> p \<le> 1024 \<Longrightarrow> xbee_parse (take p b) = (fs, r) \<Longrightarrow> list_all sane_frame fs \<Longrightarrow>
   \<exists>b'. extract_frames b p fl found = Some (b', length r, fl @ map xframe_of fs, found \<or> fs \<noteq> []) \<and> length b' = 1024 \<and> take (length r) b' = r"
proof (induction p arbitrary: b fs fl found rule: less_induct)
  case (less p)
  obtain c s where s: "xbee_seek (take p b) = (c, s)" by fastforce
  obtain b1 where b1: "is_frame_complete 0 b p = Some (c, b1, length s)" "length b1 = 1024" "take (length s) b1 = s"
    using is_frame_complete_val [of b 0 p c s] less.prems(1,2) s by auto
  show ?case
  proof (cases c)
    case True
    then have k: "\<not> waits s" "valid_frame s" "length s \<le> p" using seek_found s less.prems(1,2) by fastforce+
    obtain gs where gs: "xbee_parse (drop (frame_len s + 4) s) = (gs, r)" "fs = take (frame_len s) (drop 3 s) # gs"
      using less.prems(3) s True by (auto simp: xbee_parse.simps [of "take p b"] split: prod.splits)
    obtain b2 where b2: "extract_frame_to_list b1 (length s) fl = Some (b2, length (drop (frame_len s + 4) s), fl @ [xframe_of (take (frame_len s) (drop 3 s))])"
      "length b2 = 1024" "take (length (drop (frame_len s + 4) s)) b2 = drop (frame_len s + 4) s"
      using extract_frame_val [OF b1(2,3) k(1,2)] less.prems(4) gs(2) by auto
    have less: "length (drop (frame_len s + 4) s) < p" "length (drop (frame_len s + 4) s) \<le> 1024"
      using not_waits_length [OF k(1)] k(3) less.prems(2) by auto
    show ?thesis
      using less.IH [OF less(1) b2(2) less(2), of gs "fl @ [xframe_of (take (frame_len s) (drop 3 s))]" True] b2 b1(1) True gs less.prems(4)
      by (subst extract_frames.simps) simp
  next
    case False
    then show ?thesis using less.prems(3) s b1 by (subst extract_frames.simps) (simp add: xbee_parse.simps [of "take p b"])
  qed
qed

section \<open>Receiving from the stick\<close>

definition unread :: "l2net_xbee \<Rightarrow> u8 list" where
  "unread n = take (pbuffer n) (ibuffer n)"

definition xbee_ok :: "l2net_xbee \<Rightarrow> bool" where
  "xbee_ok n \<longleftrightarrow> length (ibuffer n) = 1024 \<and> pbuffer n < 119 \<and> xbee_parse (unread n) = ([], unread n)"

fun xbytes :: "read_result list \<Rightarrow> u8 list" where
  "xbytes [] = []"
| "xbytes (Bytes c # rs) = c @ xbytes rs"
| "xbytes (Read_error # rs) = xbytes rs"

definition data_only :: "read_result list \<Rightarrow> bool" where
  "data_only rs = list_all (\<lambda>r. case r of Bytes c \<Rightarrow> c \<noteq> [] | Read_error \<Rightarrow> False) rs"

lemma data_only_simps [simp]:
  "data_only []" "data_only (Bytes c # rs) \<longleftrightarrow> c \<noteq> [] \<and> data_only rs" "\<not> data_only (Read_error # rs)"
  by (simp_all add: data_only_def)

lemma parse_rest: "xbee_parse bs = (fs, r) \<Longrightarrow> xbee_parse r = ([], r) \<and> length r < 119"
  using parse_left [of bs fs r] by (simp add: xbee_parse.simps [of r])

lemma read_complete_val:
  "xbee_ok n \<Longrightarrow> data_only rs \<Longrightarrow> xbee_parse (unread n @ xbytes rs) = (fs, r) \<Longrightarrow> list_all sane_frame fs \<Longrightarrow>
   \<exists>k rs' n' gs hs. read_complete_frame rs n = Some (k, rs', n') \<and> xbee_ok n' \<and> data_only rs' \<and> fs = gs @ hs \<and>
     framelist n' = framelist n @ map xframe_of gs \<and> mtu_x n' = mtu_x n \<and> serial n' = serial n \<and> xbee_parse (unread n' @ xbytes rs') = (hs, r) \<and>
     (if k = None then rs' = [] \<and> fs = [] else the k > 0 \<and> gs \<noteq> [])"
proof (induction "length (xbytes rs)" arbitrary: rs n fs rule: less_induct)
  case less
  show ?case
  proof (cases rs rule: xbytes.cases)
    case 1
    then show ?thesis using less.prems by (simp add: read_complete_frame.simps xbee_ok_def)
  next
    case 3
    then show ?thesis using less.prems by simp
  next
    case (2 c rs2)
  define room where "room = 1024 - pbuffer n"
  define got where "got = take room c"
  define rs1 where "rs1 = (if length c \<le> room then rs2 else Bytes (drop room c) # rs2)"
  have n: "length (ibuffer n) = 1024" "pbuffer n < 119" "xbee_parse (unread n) = ([], unread n)" using less.prems(1) by (simp_all add: xbee_ok_def)
  have room: "0 < room" "length got \<le> room" "got \<noteq> []" using n(2) less.prems(2) 2 by (auto simp: room_def got_def)
  have rs1: "data_only rs1" "got @ xbytes rs1 = c @ xbytes rs2" using less.prems(2) 2 by (auto simp: rs1_def got_def)
  have ne: "c \<noteq> []" using less.prems(2) 2 by simp
  have shorter: "length (xbytes rs1) < length (xbytes rs)" using arg_cong [OF rs1(2), of length] room(3) 2 by (cases got) auto
  define b where "b = put_at (ibuffer n) (pbuffer n) got"
  have b: "mcopy (ibuffer n) (pbuffer n) got 0 (length got) = Some b" "length b = 1024" "pbuffer n + length got \<le> 1024"
    "take (pbuffer n + length got) b = unread n @ got"
    using n room by (simp_all add: b_def mcopy_in room_def put_at_def unread_def)
  obtain gs s where gs: "xbee_parse (unread n @ got) = (gs, s)" by fastforce
  obtain hs where hs: "xbee_parse (s @ xbytes rs1) = (hs, r)" "fs = gs @ hs"
    using parse_append [of "unread n @ got" "xbytes rs1"] less.prems(3) 2 gs rs1(2) by (auto split: prod.splits)
  have sane: "list_all sane_frame gs" "list_all sane_frame hs" using less.prems(4) hs(2) by simp_all
  obtain b1 where b1: "extract_frames b (pbuffer n + length got) (framelist n) False = Some (b1, length s, framelist n @ map xframe_of gs, gs \<noteq> [])"
    "length b1 = 1024" "take (length s) b1 = s"
    using extract_frames_val [OF b(2,3) gs [folded b(4)] sane(1), of "framelist n" False] by auto
  define n1 where "n1 = n\<lparr>ibuffer := b1, pbuffer := length s, framelist := framelist n @ map xframe_of gs\<rparr>"
  have n1: "unread n1 = s" "xbee_ok n1" using b1(2,3) parse_rest [OF gs] by (simp_all add: n1_def unread_def xbee_ok_def)
  have step: "read_complete_frame rs n = (if gs \<noteq> [] then Some (Some (int (length got)), rs1, n1) else read_complete_frame rs1 n1)"
    unfolding 2 using room b(1) b1(1) less.prems(2) 2 by (subst read_complete_frame.simps) (simp add: Let_def room_def [symmetric] got_def [symmetric] n1_def rs1_def)
  show ?thesis
  proof (cases "gs = []")
    case False
    then show ?thesis using step n1 rs1(1) hs room(3) by (intro exI [of _ "Some (int (length got))"] exI [of _ rs1] exI [of _ n1] exI [of _ gs] exI [of _ hs]) (simp add: n1_def)
  next
    case True
    have "\<exists>k rs' n' gs hs'. read_complete_frame rs1 n1 = Some (k, rs', n') \<and> xbee_ok n' \<and> data_only rs' \<and> hs = gs @ hs' \<and>
     framelist n' = framelist n1 @ map xframe_of gs \<and> mtu_x n' = mtu_x n1 \<and> serial n' = serial n1 \<and> xbee_parse (unread n' @ xbytes rs') = (hs', r) \<and>
     (if k = None then rs' = [] \<and> hs = [] else the k > 0 \<and> gs \<noteq> [])"
      using less.hyps [OF shorter n1(2) rs1(1) hs(1) [folded n1(1)] sane(2)] .
    moreover have "read_complete_frame rs n = read_complete_frame rs1 n1" "framelist n1 = framelist n" "mtu_x n1 = mtu_x n" "serial n1 = serial n" "fs = hs"
      using step True hs(2) by (simp_all add: n1_def)
    ultimately show ?thesis by (simp only:)
  qed
  qed
qed


fun packet_of :: "nat \<Rightarrow> u8 list \<Rightarrow> xframe \<Rightarrow> (pktype \<times> u8 list \<times> u8 list) option" where
  "packet_of len mem (Rx_short a data rs op) = Some (if op AND 2 \<noteq> 0 then PK_BCAST else PK_ME, source_address a mem, take len data)"
| "packet_of len mem (Tx_status i s) = None"
| "packet_of len mem (Other_frame t) = None"

definition packets :: "nat \<Rightarrow> u8 list \<Rightarrow> xframe list \<Rightarrow> (pktype \<times> u8 list \<times> u8 list) list" where
  "packets len mem fl = List.map_filter (packet_of len mem) fl"

lemma packets_simps [simp]:
  "packets len mem [] = []"
  "packets len mem (f # fl) = (case packet_of len mem f of None \<Rightarrow> packets len mem fl | Some x \<Rightarrow> x # packets len mem fl)"
  by (simp_all add: packets_def List.map_filter_simps split: option.splits)

lemma packets_append: "packets len mem (xs @ ys) = packets len mem xs @ packets len mem ys"
  by (induction xs) (auto split: option.splits)

lemma extract_received_val:
  "case extract_received_packet len mem fl of (r, fl') \<Rightarrow>
     (case packets len mem fl of [] \<Rightarrow> r = None \<and> fl' = fl | x # xs \<Rightarrow> r = Some x \<and> packets len mem fl' = xs)"
proof (induction fl)
  case Nil
  then show ?case by simp
next
  case (Cons f fl)
  then show ?case by (cases f) (auto simp: min_def split: prod.splits list.splits)
qed

lemma recv_xbee_val:
  "xbee_ok n \<Longrightarrow> data_only rs \<Longrightarrow> xbee_parse (unread n @ xbytes rs) = (fs, r) \<Longrightarrow> list_all sane_frame fs \<Longrightarrow>
   \<exists>rs' n' hs. recv_xbee len mem rs n = Some (case packets len mem (framelist n @ map xframe_of fs) of [] \<Rightarrow> Waits | x # xs \<Rightarrow> Packet x, rs', n') \<and>
     xbee_ok n' \<and> data_only rs' \<and> xbee_parse (unread n' @ xbytes rs') = (hs, r) \<and> list_all sane_frame hs \<and>
     packets len mem (framelist n' @ map xframe_of hs) = tl (packets len mem (framelist n @ map xframe_of fs))"
proof (induction "length fs" arbitrary: n rs fs rule: less_induct)
  case less
  obtain x fl where x: "extract_received_packet len mem (framelist n) = (x, fl)" by fastforce
  note law = extract_received_val [where len = len and mem = mem and fl = "framelist n", unfolded x prod.case]
  show ?case
  proof (cases "packets len mem (framelist n)")
    case (Cons y ys)
    then have e: "recv_xbee len mem rs n = Some (Packet y, rs, n\<lparr>framelist := fl\<rparr>)" using x law by (subst recv_xbee.simps) simp
    have "xbee_ok (n\<lparr>framelist := fl\<rparr>)" "unread (n\<lparr>framelist := fl\<rparr>) = unread n" using less.prems(1) by (simp_all add: xbee_ok_def unread_def)
    then show ?thesis using e less.prems law Cons by (intro exI [of _ rs] exI [of _ "n\<lparr>framelist := fl\<rparr>"] exI [of _ fs]) (simp add: packets_append)
  next
    case Nil
    then have none: "x = None" using law by simp
    obtain k rs1 n1 gs hs where k: "read_complete_frame rs n = Some (k, rs1, n1)" "xbee_ok n1" "data_only rs1" "fs = gs @ hs"
      "framelist n1 = framelist n @ map xframe_of gs" "xbee_parse (unread n1 @ xbytes rs1) = (hs, r)"
      "if k = None then rs1 = [] \<and> fs = [] else the k > 0 \<and> gs \<noteq> []"
      using read_complete_val [OF less.prems] by blast
    show ?thesis
    proof (cases k)
      case None
      then have "recv_xbee len mem rs n = Some (Waits, rs1, n1)" using x none k(1) by (subst recv_xbee.simps) simp
      then show ?thesis using k None Nil by (intro exI [of _ rs1] exI [of _ n1] exI [of _ hs]) (simp add: packets_append)
    next
      case (Some v)
      then have "recv_xbee len mem rs n = recv_xbee len mem rs1 n1" using x none k(1,7) by (subst recv_xbee.simps) simp
      moreover have "length hs < length fs" "list_all sane_frame hs" using k(4,7) Some less.prems(4) by auto
      ultimately show ?thesis using less.hyps [OF _ k(2,3,6)] k(4,5) by (simp add: packets_append)
    qed
  qed
qed

fun recv_times :: "nat \<Rightarrow> nat \<Rightarrow> u8 list \<Rightarrow> read_result list \<Rightarrow> l2net_xbee \<Rightarrow> (xbee_result list \<times> read_result list \<times> l2net_xbee) option" where
  "recv_times 0 len mem rs n = Some ([], rs, n)"
| "recv_times (Suc k) len mem rs n = do {
     (x, rs, n) \<leftarrow> recv_xbee len mem rs n;
     (xs, rs, n) \<leftarrow> recv_times k len mem rs n;
     Some (x # xs, rs, n)
   }"

text \<open>
  C16. The XBee driver of the master finds the frames of the serial line whatever the pieces in which \<open>read\<close> returns
  them: the results of \<open>k\<close> calls of \<open>recv\<close> are the packets among the frames of the whole stream, parsed by the reference, in
  order, each once; a call for which no packet is left waits for more bytes. The buffer keeps less than 119 bytes between
  the calls, so that it is never full.
\<close>
theorem xbee_stream:
  assumes "xbee_ok n" "data_only rs" "xbee_parse (unread n @ xbytes rs) = (fs, r)" "list_all sane_frame fs"
    and "ps = packets len mem (framelist n @ map xframe_of fs)"
  shows "\<exists>rs' n'. recv_times k len mem rs n = Some (map Packet (take k ps) @ replicate (k - length ps) Waits, rs', n') \<and> xbee_ok n' \<and> pbuffer n' < 119"
  using assms
proof (induction k arbitrary: n rs fs ps)
  case 0
  then show ?case by (simp add: xbee_ok_def)
next
  case (Suc k)
  obtain rs1 n1 hs where r: "recv_xbee len mem rs n = Some (case ps of [] \<Rightarrow> Waits | x # xs \<Rightarrow> Packet x, rs1, n1)"
    "xbee_ok n1" "data_only rs1" "xbee_parse (unread n1 @ xbytes rs1) = (hs, r)" "list_all sane_frame hs"
    "tl ps = packets len mem (framelist n1 @ map xframe_of hs)"
    using recv_xbee_val [OF Suc.prems(1-4), where len = len and mem = mem] Suc.prems(5) by (metis (no_types, lifting))
  obtain rs2 n2 where "recv_times k len mem rs1 n1 = Some (map Packet (take k (tl ps)) @ replicate (k - length (tl ps)) Waits, rs2, n2)" "xbee_ok n2" "pbuffer n2 < 119"
    using Suc.IH [OF r(2-6)] by blast
  then show ?case using r(1) by (cases ps) auto
qed

section \<open>Sending to the stick\<close>

definition xbee_frame :: "u8 list \<Rightarrow> u8 list" where
  "xbee_frame f = 0x7e # be16 (word_of_nat (length f)) @ f @ [word_of_int (checksum_of f)]"

lemma checksum_range: "0 \<le> checksum_of bs \<and> checksum_of bs \<le> 255"
proof -
  have "0 \<le> foldl (\<lambda>c x. (c + uint x) AND 0xff) 0 bs \<and> foldl (\<lambda>c x. (c + uint x) AND 0xff) 0 bs \<le> 255"
    by (induction bs rule: rev_induct) (simp_all add: AND_upper2')
  then show ?thesis by (simp add: checksum_of_def)
qed

lemma parse_frame:
  assumes "f \<noteq> []" "length f \<le> 115" "xbee_parse rest = (fs, r)"
  shows "xbee_parse (xbee_frame f @ rest) = (f # fs, r)"
proof -
  define s where "s = xbee_frame f @ rest"
  have s: "s = 0x7e # ucast (drop_bit 8 (word_of_nat (length f) :: u16)) # ucast (word_of_nat (length f) :: u16) # f @ word_of_int (checksum_of f) # rest"
    by (simp add: s_def xbee_frame_def be16_def)
  have n: "frame_len s = length f" using assms(2) unat_16 [of "length f"] by (simp add: s frame_len_def INT16_be16)
  have st: "from_start s = s" by (simp add: s from_start_def)
  have l: "length s = length f + 4 + length rest" by (simp add: s)
  have w: "\<not> waits s" using assms(1) by (cases f) (auto simp: waits_def n l)
  have "s ! (length f + 3) = word_of_int (checksum_of f)" by (simp add: s nth_append)
  moreover have "uint (word_of_int (checksum_of f) :: u8) = checksum_of f" using checksum_range [of f] by (simp add: uint_word_of_int)
  moreover have "take (length f) (drop 3 s) = f" by (simp add: s)
  ultimately have v: "valid_frame s" "take (length f) (drop 3 s) = f" using assms(2) by (simp_all add: valid_frame_def n)
  have sk: "xbee_seek s = (True, s)" using w v st by (simp add: xbee_seek.simps)
  have "length (xbee_frame f) = length f + 4" by (simp add: xbee_frame_def)
  then have "drop (length f + 4) s = rest" by (simp add: s_def)
  then show ?thesis using sk assms(3) v by (simp add: xbee_parse.simps [of s] s_def [symmetric] n)
qed

lemma encode_transmit_val:
  assumes "length mem = 1024" "length daddr = 8" "length data \<le> 127"
  shows "\<exists>cmd. encode_transmit mem daddr data (int (length data)) = Some (cmd, length data + 9) \<and> length cmd = 1024 \<and>
    take (length data + 9) cmd = xbee_frame ([1, 0x41, daddr ! 7, daddr ! 6, 0] @ data)"
proof -
  define k where "k = length data"
  define f where "f = [1, 0x41, daddr ! 7, daddr ! 6, 0] @ data"
  define h where "h = [0x7e, BYTE_HIGH (5 + int k), BYTE_LOW (5 + int k)] @ [1, 0x41, daddr ! 7, daddr ! 6, 0]"
  have w: "wr (put_at mem 0 xs) q v = Some (put_at mem 0 (xs @ [v]))" if "length xs = q" "q < 200" for xs q v
    using wr_put_at_next [of 0 xs mem v] that assms(1) by simp
  have w0: "wr mem 0 v = Some (put_at mem 0 [v])" for v using w [of "[]" 0 v] by simp
  have c: "mcopy (put_at mem 0 h) 8 data 0 (nat (int k)) = Some (put_at mem 0 (h @ data))"
    using put_next [of h 8 data mem] assms by (simp add: mcopy_in h_def k_def)
  have hb: "BYTE_HIGH (5 + int k) = ucast (drop_bit 8 (word_of_nat (5 + k) :: u16))" "BYTE_LOW (5 + int k) = ucast (word_of_nat (5 + k) :: u16)"
    using header_int [of "5 + int k"] assms(3) by (simp_all add: k_def)
  have hf: "h @ data = 0x7e # be16 (word_of_nat (5 + k)) @ f" by (simp add: h_def hb be16_def f_def)
  have lf: "length f = 5 + k" by (simp add: f_def k_def)
  define b where "b = put_at mem 0 (h @ data)"
  have b: "length b = 1024" using assms by (simp add: b_def h_def k_def)
  have t: "take (k + 8) b = 0x7e # be16 (word_of_nat (5 + k)) @ f" 
  proof -
    have "take (length (h @ data)) b = h @ data" by (simp add: b_def put_at_def)
    moreover have "length (h @ data) = k + 8" by (simp add: h_def k_def)
    ultimately show ?thesis using hf by (simp only:)
  qed
  have b12: "b ! 1 = ucast (drop_bit 8 (word_of_nat (5 + k) :: u16))" "b ! 2 = ucast (word_of_nat (5 + k) :: u16)"
    using arg_cong [OF t, of "\<lambda>x. x ! 1"] arg_cong [OF t, of "\<lambda>x. x ! 2"] by (simp_all add: be16_def)
  have ft: "take (5 + k) (drop 3 b) = f" using part_of_prefix [OF t, of 3 "5 + k"] lf by (simp add: be16_def)
  have ck: "compute_checksum b = Some (checksum_of f)"
    using b b12 ft assms(3) unat_16 [of "5 + k"] by (simp add: compute_checksum_def INT16_be16 slice_def k_def)
  have last: "wr b (8 + nat (int k)) v = Some (put_at mem 0 ((h @ data) @ [v]))" for v
  proof -
    have lh: "0 + length (h @ data) = 8 + nat (int k)" by (simp add: h_def k_def)
    have "0 + length (h @ data) < length mem" using assms by (simp add: h_def)
    from wr_put_at_next [OF this, of v] show ?thesis unfolding b_def lh .
  qed
  have "encode_transmit mem daddr data (int k) = Some (put_at mem 0 ((h @ data) @ [word_of_int (checksum_of f)]), k + 9)"
    unfolding encode_transmit_def Let_def w0 bind.simps
    using assms(2) c ck last by (simp add: w h_def b_def)
  moreover have "xbee_frame f = (h @ data) @ [word_of_int (checksum_of f)]" using hf by (simp only: xbee_frame_def lf append.simps append.assoc)
  moreover have "length ((h @ data) @ [word_of_int (checksum_of f)]) = k + 9" by (simp add: h_def k_def)
  moreover have "take (length xs) (put_at mem 0 xs) = xs" for xs by (simp add: put_at_def)
  moreover have "length (put_at mem 0 ((h @ data) @ [word_of_int (checksum_of f)])) = 1024" using assms by (simp add: h_def)
  ultimately show ?thesis unfolding k_def [symmetric] f_def [symmetric] by (metis (no_types, lifting))
qed

lemma write_loop_val:
  "list_all (\<lambda>r. 0 < r) ws \<Longrightarrow> sum_list ws = int (length bs) \<Longrightarrow> write_loop ws bs n l = (n + int (length bs), l @ bs, True)"
proof (induction ws bs n l rule: write_loop.induct)
  case (2 c cs n l)
  then show ?case by simp
next
  case (3 r rs c cs n l)
  have s: "0 \<le> sum_list rs" using 3(2) by (intro sum_list_nonneg) (auto simp: list_all_iff)
  then have k: "nat r \<le> length (c # cs)" "sum_list rs = int (length (drop (nat r) (c # cs)))" using "3.prems" by auto
  have "write_loop (r # rs) (c # cs) n l = write_loop rs (drop (nat r) (c # cs)) (n + r) (l @ take (nat r) (c # cs))" using "3.prems" by simp
  also have "\<dots> = (n + r + int (length (drop (nat r) (c # cs))), (l @ take (nat r) (c # cs)) @ drop (nat r) (c # cs), True)"
    using "3.IH" [of] "3.prems" k(2) by simp
  finally show ?case using k "3.prems"(1) by simp
qed simp



definition xbee_new :: l2net_xbee where
  "xbee_new = \<lparr>mtu_x = 111, ibuffer = replicate 1024 0, pbuffer = 0, framelist = [], serial = []\<rparr>"


definition sample_stream :: "u8 list" where
  "sample_stream = xbee_frame [0x81, 0xca, 0xfe, 0x30, 0, 0x40, 1, 0, 7] @ xbee_frame [0x89, 0x41, 0]"

theorem xbee_stream_witness:
  "\<exists>rs' n'. recv_times 2 100 (replicate 8 0) [Bytes (take 5 sample_stream), Bytes (drop 5 sample_stream)] xbee_new =
     Some ([Packet (PK_ME, source_address 0xcafe (replicate 8 0), [0x40, 1, 0, 7]), Waits], rs', n')"
proof -
  have e: "xbee_parse [] = ([], [])" by (simp add: xbee_parse.simps xbee_seek.simps waits_def)
  have b: "xbee_parse (xbee_frame [0x89, 0x41, 0] @ []) = ([[0x89, 0x41, 0]], [])" by (rule parse_frame) (simp_all add: e)
  have p: "xbee_parse sample_stream = ([[0x81, 0xca, 0xfe, 0x30, 0, 0x40, 1, 0, 7], [0x89, 0x41, 0]], [])"
    unfolding sample_stream_def using b by (intro parse_frame) simp_all
  have ok: "xbee_ok xbee_new" "unread xbee_new = []" using e by (simp_all add: xbee_ok_def unread_def xbee_new_def)
  have d: "data_only [Bytes (take 5 sample_stream), Bytes (drop 5 sample_stream)]" by (simp add: sample_stream_def xbee_frame_def)
  have st: "xbee_parse (unread xbee_new @ xbytes [Bytes (take 5 sample_stream), Bytes (drop 5 sample_stream)]) =
      ([[0x81, 0xca, 0xfe, 0x30, 0, 0x40, 1, 0, 7], [0x89, 0x41, 0]], [])" using p ok(2) by simp
  have ps: "[(PK_ME, source_address 0xcafe (replicate 8 0), [0x40, 1, 0, 7])] =
      packets 100 (replicate 8 0) (framelist xbee_new @ map xframe_of [[0x81, 0xca, 0xfe, 0x30, 0, 0x40, 1, 0, 7], [0x89, 0x41, 0]])"
    by (simp add: xframe_of_def xbee_new_def INT16_def del: replicate.simps)
  have sane: "list_all sane_frame [[0x81, 0xca, 0xfe, 0x30, 0, 0x40, 1, 0, 7], [0x89, 0x41, 0]]" by (simp add: sane_frame_def)
  show ?thesis using xbee_stream [OF ok(1) d st sane ps, of 2] by auto
qed


end
