(* ===== verification/Master_L2_Laws.thy ===== *)
theory Master_L2_Laws
  imports Xbee_Laws
begin

text \<open>
  Addresses of the master's drivers as text, and the Ethernet between the master and a slave.
\<close>

section \<open>Addresses of received packets\<close>

lemma hex_byte: "isxdigit (hex_digit c) \<and> hex_digit c \<noteq> 58 \<and> xdigit_value (hex_digit c) = c AND 0xf" for c :: u8
proof -
  have "list_all (\<lambda>k. let d = (word_of_nat k :: u8) in isxdigit (hex_digit d) \<and> hex_digit d \<noteq> 58 \<and> xdigit_value (hex_digit d) = d) [0..<16]"
    by code_simp
  moreover have "c AND 0xf < 16" using word_and_le1 [of c "0xf"] by (simp add: word_le_nat_alt word_less_nat_alt)
  then have "unat (c AND 0xf) \<in> set [0..<16]" by (simp add: word_less_nat_alt)
  ultimately have "let d = (word_of_nat (unat (c AND 0xf)) :: u8) in isxdigit (hex_digit d) \<and> hex_digit d \<noteq> 58 \<and> xdigit_value (hex_digit d) = d"
    by (simp only: list_all_iff)
  moreover have "hex_digit (c AND 0xf) = hex_digit c" by (simp add: hex_digit_def Let_def and.assoc)
  ultimately show ?thesis by (simp add: Let_def)
qed

lemma hex_join: "push_bit 4 (push_bit 4 0 + (drop_bit 4 c AND 0xf)) + (c AND 0xf) = c" for c :: u8
proof -
  have m: "(0xf :: u8) = mask 4" by (simp add: mask_eq_exp_minus_1)
  have "push_bit 4 (drop_bit 4 c AND 0xf) AND (c AND 0xf) = 0"
    unfolding m by (rule bit_word_eqI) (auto simp: bit_simps)
  then have "push_bit 4 (drop_bit 4 c AND 0xf) + (c AND 0xf) = push_bit 4 (drop_bit 4 c AND 0xf) OR (c AND 0xf)"
    by (rule disjunctive_add_eq_or)
  also have "\<dots> = c"
    unfolding m by (rule bit_word_eqI) (auto simp: bit_simps)
  finally show ?thesis by simp
qed

lemma addr_loop_byte:
  assumes "i < n"
  shows "addr_loop n (hex_digit (drop_bit 4 c) # hex_digit c # s) i 0 a = addr_loop n s i c a"
  using assms hex_byte [of c] hex_byte [of "drop_bit 4 c"] hex_join [of c] by simp

lemma addr_loop_print:
  "i + length cs < n \<Longrightarrow> n \<le> length m \<Longrightarrow> addr_loop n (print_addr cs False) i c m = (i + length cs, last (c # cs), put_at m i (butlast (c # cs)))"
proof (induction cs arbitrary: i c m)
  case (Cons d cs)
  have "addr_loop n (print_addr (d # cs) False) i c m = addr_loop n (print_addr cs False) (i + 1) d (m[i := c])"
    using Cons.prems addr_loop_byte [of "i + 1" n] by simp
  also have "\<dots> = (i + 1 + length cs, last (d # cs), put_at (m[i := c]) (i + 1) (butlast (d # cs)))" using Cons.prems by (intro Cons.IH) simp_all
  finally show ?case using Cons.prems by (simp add: put_at_Cons)
qed simp

lemma addr_loop_text:
  assumes "length a = n" "0 < n" "length m = n"
  shows "addr_loop n (print_addr a True) 0 0 m = (n - 1, last a, put_at m 0 (butlast a))"
proof -
  obtain c cs where a: "a = c # cs" using assms by (cases a) auto
  have "addr_loop n (print_addr a True) 0 0 m = addr_loop n (print_addr cs False) 0 c m" using addr_loop_byte [of 0 n] assms(2) by (simp add: a)
  then show ?thesis using addr_loop_print [of 0 cs n m c] assms by (simp add: a)
qed

lemma put_butlast: "length a = length m \<Longrightarrow> a \<noteq> [] \<Longrightarrow> (put_at m 0 (butlast a))[length a - 1 := last a] = a"
  by (cases a rule: rev_cases; cases m rule: rev_cases) (auto simp: put_at_def list_update_append)

lemma addr_short: "addr_zero [0..<6] (addr_shift [0..<2] 2 (put_at m 0 [x, y])) = replicate 6 0 @ [x, y]" if "length m = 8" for m :: "u8 list"
proof -
  obtain a b c d e f g h where "m = [a, b, c, d, e, f, g, h]" using \<open>length m = 8\<close> by (auto simp: length_Suc_conv numeral_eq_Suc)
  then show ?thesis by (simp add: put_at_def upt_conv_Cons numeral_eq_Suc)
qed

lemma master_addr_short:
  assumes "addr_loop 8 s 0 0 m = (1, y, m1)" "m1[1 := y] = put_at m 0 [x, y]" "length m = 8"
  shows "master_addr_154 m s = replicate 6 0 @ [x, y]"
  using assms(2) addr_short [OF assms(3), of x y]
  by (simp add: master_addr_154_def assms(1) numeral_2_eq_2 del: addr_shift.simps addr_zero.simps)

text \<open>
  The text of an address is read back: what the master prints for an address of 8 bytes of the radio or of 6 bytes of
  the Ethernet its constructors turn into the same bytes.
\<close>
theorem address_text_roundtrip:
  assumes "length a = 8" "length m = 8" "length e = 6" "length me = 6"
  shows "master_addr_154 m (print_addr a True) = a \<and> master_addr_eth me (print_addr e True) = e"
proof -
  have "a \<noteq> []" "e \<noteq> []" using assms by auto
  then show ?thesis
    using addr_loop_text [of a 8 m] addr_loop_text [of e 6 me] put_butlast [of a m] put_butlast [of e me] assms
    by (simp add: master_addr_154_def master_addr_eth_def)
qed

theorem address_text_roundtrip_witness:
  "master_addr_154 (replicate 8 1) (print_addr [0, 0, 0, 0, 0, 0, 0xca, 0xfe] True) = [0, 0, 0, 0, 0, 0, 0xca, 0xfe] \<and>
   master_addr_eth (replicate 6 1) (print_addr [0x90, 0xa2, 0xda, 0x80, 0, 0x0a] True) = [0x90, 0xa2, 0xda, 0x80, 0, 0x0a]"
  using address_text_roundtrip [of "[0, 0, 0, 0, 0, 0, 0xca, 0xfe]" "replicate 8 1" "[0x90, 0xa2, 0xda, 0x80, 0, 0x0a]" "replicate 6 1"] by simp

text \<open>
  Both programs agree on the short addresses of the radio: from the same text \<open>xx:yy\<close> the slave's driver gets its number, the
  master's an array whose last two bytes are, in the order in which \<open>encode_transmit\<close> writes them, this number with its high byte first.
\<close>
theorem short_address_agrees:
  assumes "length m = 8" "length ms = 2"
  shows "(let a = master_addr_154 m (print_addr [x, y] True) in [a ! 7, a ! 6] = be16 (l2addr_154 ms (print_addr [x, y] True)) \<and> take 6 a = replicate 6 0)"
proof -
  have l: "addr_loop 8 (print_addr [x, y] True) 0 0 m = (1, y, put_at m 0 [x])"
  proof -
    have "print_addr [x, y] True = hex_digit (drop_bit 4 x) # hex_digit x # print_addr [y] False" by simp
    then show ?thesis using addr_loop_byte [of 0 8] addr_loop_print [of 0 "[y]" 8 m x] assms(1) by (simp del: print_addr.simps)
  qed
  have "(put_at m 0 [x])[1 := y] = put_at m 0 [x, y]" using assms(1) put_at_put_at_adjacent [of 0 "[x]" "[y]" m] by (simp add: put_at_Cons)
  then have "master_addr_154 m (print_addr [x, y] True) = replicate 6 0 @ [x, y]"
    by (rule master_addr_short [OF l _ assms(1)])
  moreover have "l2addr_154 ms (print_addr [x, y] True) = CONST16 x y"
    using addr_loop_text [of "[x, y]" 2 ms] assms(2) by (simp add: l2addr_154_def put_at_def del: print_addr.simps)
  moreover have "be16 (CONST16 x y) = [y, x]" using be16_INT16 [of y x] by (simp add: CONST16_def INT16_def)
  ultimately show ?thesis by (simp add: nth_append)
qed

theorem short_address_agrees_witness:
  "(let a = master_addr_154 (replicate 8 0) (print_addr [0xca, 0xfe] True) in
     [a ! 7, a ! 6] = be16 (l2addr_154 [0, 0] (print_addr [0xca, 0xfe] True)) \<and> take 6 a = replicate 6 0)"
  by (rule short_address_agrees) simp_all

text \<open>
  C38. The source address of a received packet is lost when a byte of it is below 16: it goes through text, \<open>%2x\<close> pads with
  a space, and the constructor reads a space as an error. Then the address is all zeros, so that the reply is sent to the address 0
  and all such slaves look like one; otherwise the two bytes are the ones of the frame.
\<close>
theorem source_address_lost:
  assumes "length mem = 8"
  shows "source_address (uint (INT16 ah al)) mem = (if 16 \<le> ah \<and> 16 \<le> al then replicate 6 0 @ [al, ah] else replicate 8 0)"
proof -
  have b: "BYTE_HIGH (uint (INT16 ah al)) = ah" "BYTE_LOW (uint (INT16 ah al)) = al" using be16_INT16 [of ah al] by (simp_all add: header_bytes be16_def)
  define s where "s = show_2x 32 al @ [58] @ show_2x 32 ah"
  have src: "source_address (uint (INT16 ah al)) mem = master_addr_154 mem s" by (simp add: source_address_def b s_def)
  have sp: "isxdigit 32 = False" "isxdigit (hex_digit c)" "hex_digit c \<noteq> 58" for c
    using hex_byte [of c] by (simp_all add: isxdigit_def isdigit_def)
  show ?thesis
  proof (cases "16 \<le> al")
    case False
    then have "addr_loop 8 s 0 0 mem = (8, 0, replicate 8 0)" by (simp add: s_def show_2x_def sp not_le)
    then show ?thesis using False by (simp add: src master_addr_154_def)
  next
    case True
    then have e: "s = hex_digit (drop_bit 4 al) # hex_digit al # 58 # show_2x 32 ah" by (simp add: s_def show_2x_def not_less [symmetric])
    have "addr_loop 8 s 0 0 mem = addr_loop 8 (58 # show_2x 32 ah) 0 al mem" unfolding e by (rule addr_loop_byte) simp
    then have s: "addr_loop 8 s 0 0 mem = addr_loop 8 (show_2x 32 ah) 1 0 (mem[0 := al])" by simp
    show ?thesis
    proof (cases "16 \<le> ah")
      case False
      then have "addr_loop 8 s 0 0 mem = (8, 0, replicate 8 0)" by (simp add: s show_2x_def sp not_le)
      then show ?thesis using False by (simp add: src master_addr_154_def)
    next
      case h: True
      then have "show_2x 32 ah = [hex_digit (drop_bit 4 ah), hex_digit ah]" by (simp add: show_2x_def not_less [symmetric])
      then have "addr_loop 8 s 0 0 mem = addr_loop 8 [] 1 ah (mem[0 := al])" unfolding s by (simp only: addr_loop_byte) 
      then have "addr_loop 8 s 0 0 mem = (1, ah, mem[0 := al])" by simp
      moreover have "(mem[0 := al])[1 := ah] = put_at mem 0 [al, ah]" using assms by (simp add: put_at_Cons)
      ultimately show ?thesis using True h master_addr_short [OF _ _ assms, of s ah "mem[0 := al]" al] by (simp add: src)
    qed
  qed
qed

theorem source_address_lost_witness:
  "source_address (uint (INT16 0x12 0x07)) (replicate 8 1) = replicate 8 0 \<and> source_address (uint (INT16 0xca 0xfe)) (replicate 8 1) = replicate 6 0 @ [0xfe, 0xca]"
  using source_address_lost [of "replicate 8 1" "0x12" "0x07"] source_address_lost [of "replicate 8 1" "0xca" "0xfe"] by simp

section \<open>Ethernet between the master and a slave\<close>

lemma send_packet_val:
  assumes "\<forall>k. length (mem k) = k" "length data < 65534"
  shows "send_packet mem True daddr data (int (length data)) n =
    Some (int (length data) + 2, n\<lparr>sent_p := sent_p n @ [(daddr, be16 (word_of_nat (length data) + 2) @ data)]\<rparr>)"
proof -
  define k where "k = length data"
  define b where "b = mem (k + 2)"
  have b: "length b = k + 2" using assms(1) by (simp add: b_def)
  have h: "[BYTE_HIGH (int k + 2), BYTE_LOW (int k + 2)] = be16 (word_of_nat k + 2)"
    using header_int [of "int k + 2"] assms(2) by (simp add: be16_def k_def)
  have w: "wr (put_at b 0 xs) q v = Some (put_at b 0 (xs @ [v]))" if "length xs = q" "q < k + 2" for xs q v
    using wr_put_at_next [of 0 xs b v] that b by simp
  have w0: "wr b 0 v = Some (put_at b 0 [v])" for v using w [of "[]" 0 v] by simp
  have c: "mcopy (put_at b 0 [x, y]) 2 data 0 k = Some (put_at b 0 ([x, y] @ data))" for x y
    using put_next [of "[x, y]" 2 data b] b by (simp add: mcopy_in k_def)
  have s: "slice (put_at b 0 xs) 0 (k + 2) = Some xs" if "length xs = k + 2" for xs using that b by (simp add: slice_def put_at_def)
  have ck: "length ([x, y] @ data) = k + 2" for x y :: u8 by (simp add: k_def)
  have n: "nat (int k + 2) = k + 2" "int k + 2 - 2 = int k" "nat (int k) = k" "(int k + 2 < 2) = False" by simp_all
  have "send_packet mem True daddr data (int k) n = Some (int k + 2, n\<lparr>sent_p := sent_p n @ [(daddr, [BYTE_HIGH (int k + 2), BYTE_LOW (int k + 2)] @ data)]\<rparr>)"
    unfolding send_packet_def Let_def n if_False b_def [symmetric] w0 bind.simps
    using w [of "[BYTE_HIGH (int k + 2)]" 1 "BYTE_LOW (int k + 2)"] c s [of "[_, _] @ data", OF ck] by (simp del: One_nat_def)
  then show ?thesis unfolding h unfolding k_def .
qed

text \<open>What a packet socket makes of a frame on the wire, and the other way round.\<close>

lemma recv_packet_val:
  assumes "\<forall>k. length (mem k) = k" "length bs + 2 \<le> nat len + 2" "nat len \<le> length buf" "0 \<le> len"
  shows "recv_packet mem (Some (be16 v @ bs, a, kind)) buf len =
    Some ((case kind of PACKET_HOST \<Rightarrow> PK_ME | PACKET_BROADCAST \<Rightarrow> PK_BCAST | PACKET_MULTICAST \<Rightarrow> PK_BCAST | PACKET_OTHERHOST \<Rightarrow> PK_NONE
      | PACKET_OUTGOING \<Rightarrow> PK_NONE), Some a, put_at buf 0 bs, uint v - 2)"
proof -
  define m where "m = mem (nat (len + 2))"
  define b where "b = put_at m 0 (be16 v @ bs)"
  have m: "length m = nat len + 2" using assms(1,4) by (simp add: m_def)
  have r: "min (length (be16 v @ bs)) (nat (len + 2)) = length bs + 2" using assms(2,4) by simp
  have b: "mcopy m 0 (be16 v @ bs) 0 (length bs + 2) = Some b" "length b = nat len + 2" using m assms(2) by (simp_all add: b_def mcopy_in)
  have h: "rd b 0 = Some (ucast (drop_bit 8 v))" "rd b 1 = Some (ucast v)"
    using rd_put_at [of 0 "be16 v @ bs" m 0] rd_put_at [of 0 "be16 v @ bs" m 1] m assms(2) by (simp_all add: b_def be16_def)
  have "take (length bs) (drop 2 b) = bs" by (simp add: b_def put_at_def)
  then have c: "mcopy buf 0 b 2 (length bs) = Some (put_at buf 0 bs)" using b(2) assms(2,3) by (simp add: mcopy_in)
  show ?thesis
    unfolding recv_packet_def Let_def option.case prod.case m_def [symmetric] r b bind.simps h INT16_be16 using assms(4) c by simp
qed

text \<open>
  C18. The master and a slave understand each other on the Ethernet: what \<open>send\<close> of the master gives to the socket for at most 1498
  bytes, with the header that the kernel adds and any padding, the slave's \<open>recv\<close> accepts, and it finds the sender, the length and the
  data; what \<open>send\<close> of the slave puts on the wire the master's \<open>recv\<close> gives back in the same way, from the bytes after the header.
\<close>
theorem ethernet_interop:
  assumes chip: "\<forall>k w. k \<le> length w \<longrightarrow> chip k w = (take k w, drop k w)" "\<forall>k. length (mem k) = unat k" "\<forall>k. length (mem' k) = k"
    and data: "length data + length pad \<le> 1498" "length daddr = 6" "length maddr = 6" "len = word_of_nat (length data)"
    and slave: "eth_ok n" "emtu n = 1518" "emyaddr n = daddr" "wiz n = wiz_frame (daddr @ maddr @ be16 (ethtype n) @ body @ pad) @ rest"
    and body: "body = be16 (len + 2) @ data"
    and frame: "frame = maddr @ daddr @ be16 (ethtype n) @ body"
    and buf: "length data + length pad \<le> length buf"
  shows "send_packet mem' True daddr data (int (length data)) m = Some (int (length data) + 2, m\<lparr>sent_p := sent_p m @ [(daddr, body)]\<rparr>) \<and>
    (\<exists>n' p. recv_eth chip mem n = Some (RECV_OK, n') \<and> wiz n' = rest \<and> get_src_eth n' = Some maddr \<and> get_paylen_eth n' = len \<and>
      get_payload_eth 0 n' = Some p \<and> take (length data) p = data) \<and>
    send_eth mem maddr data len n = Some (True, n\<lparr>esent := esent n @ [frame]\<rparr>) \<and>
    (\<exists>buf'. recv_packet mem' (Some (drop 14 (frame @ pad), take 6 (drop 6 frame), PACKET_HOST)) buf (int (length buf)) =
      Some (PK_ME, Some daddr, buf', int (length data)) \<and> take (length data) buf' = data)"
proof (intro conjI)
  have u: "unat len = length data" using data(1,4) unat_16 [of "length data"] by simp
  show "send_packet mem' True daddr data (int (length data)) m = Some (int (length data) + 2, m\<lparr>sent_p := sent_p m @ [(daddr, body)]\<rparr>)"
    using send_packet_val [OF chip(3), of data daddr m] data(1,4) body by simp
  have w: "wiz n = wiz_frame (eth_frame daddr maddr (ethtype n) (len + 2) data @ pad) @ rest" using slave(4) by (simp add: eth_frame_def body)
  show "\<exists>n' p. recv_eth chip mem n = Some (RECV_OK, n') \<and> wiz n' = rest \<and> get_src_eth n' = Some maddr \<and> get_paylen_eth n' = len \<and>
      get_payload_eth 0 n' = Some p \<and> take (length data) p = data"
    using recv_eth_frame [OF chip(1,2) slave(1,2) w data(2,3,1)] slave(3) by auto
  have "send_eth mem maddr data len n = Some (True, n\<lparr>esent := esent n @ [eth_frame maddr (emyaddr n) (ethtype n) (len + 2) (take (unat len) data)]\<rparr>)"
    using data(1-3) slave(2,3) u by (intro send_eth_val [OF chip(2)]) simp_all
  then show "send_eth mem maddr data len n = Some (True, n\<lparr>esent := esent n @ [frame]\<rparr>)" using slave(3) u by (simp add: frame body eth_frame_def)
  have d: "drop 14 (frame @ pad) = be16 (len + 2) @ data @ pad" "take 6 (drop 6 frame) = daddr" using data(2,3) by (simp_all add: frame body)
  have v: "uint (len + 2) = int (length data) + 2"
  proof -
    have "unat (len + 2) = unat len + 2" using unat_add_lem [of len 2] u data(1) by simp
    moreover have "int (unat (len + 2)) = uint (len + 2)" by simp
    ultimately show ?thesis using u by linarith
  qed
  have t: "take (length data) (put_at buf 0 (data @ pad)) = data" by (simp add: put_at_def)
  have r: "recv_packet mem' (Some (be16 (len + 2) @ data @ pad, daddr, PACKET_HOST)) buf (int (length buf)) =
      Some (PK_ME, Some daddr, put_at buf 0 (data @ pad), uint (len + 2) - 2)"
    using recv_packet_val [OF chip(3), of "data @ pad" "int (length buf)" buf "len + 2" daddr PACKET_HOST] buf by simp
  show "\<exists>buf'. recv_packet mem' (Some (drop 14 (frame @ pad), take 6 (drop 6 frame), PACKET_HOST)) buf (int (length buf)) =
      Some (PK_ME, Some daddr, buf', int (length data)) \<and> take (length data) buf' = data"
    unfolding d r v by (intro exI conjI) (simp, rule t)
qed

theorem ethernet_interop_witness:
  "\<exists>n' p buf'. recv_eth fifo blank_mem ((sample_eth (replicate 6 8))\<lparr>wiz := wiz_frame (replicate 6 8 @ replicate 6 7 @ be16 0x88b5 @ be16 6 @ [0x40, 1, 0, 7] @ replicate 40 0)\<rparr>) = Some (RECV_OK, n') \<and>
     get_src_eth n' = Some (replicate 6 7) \<and> get_payload_eth 0 n' = Some p \<and> take 4 p = [0x40, 1, 0, 7] \<and>
     recv_packet (\<lambda>k. replicate k 0) (Some (be16 6 @ [0x40, 1, 0, 7] @ replicate 40 0, replicate 6 8, PACKET_HOST)) (replicate 200 0) 200 = Some (PK_ME, Some (replicate 6 8), buf', 4) \<and>
     take 4 buf' = [0x40, 1, 0, 7]"
proof -
  define n where "n = (sample_eth (replicate 6 8))\<lparr>wiz := wiz_frame (replicate 6 8 @ replicate 6 7 @ be16 0x88b5 @ be16 6 @ [0x40, 1, 0, 7] @ replicate 40 0)\<rparr>"
  have n: "eth_ok n" "emtu n = 1518" "emyaddr n = replicate 6 8" "ethtype n = 0x88b5" unfolding n_def by (rule wiz_one) (simp_all add: sample_eth_ok)
  then have w: "wiz n = wiz_frame (replicate 6 8 @ replicate 6 7 @ be16 (ethtype n) @ (be16 (4 + 2) @ [0x40, 1, 0, 7]) @ replicate 40 0) @ []" by (simp add: n_def)
  have four: "Suc (Suc (Suc (Suc 0))) = 4" by simp
  show ?thesis
    unfolding n_def [symmetric]
    using ethernet_interop [OF _ _ _ _ _ _ _ n(1-3) w refl refl, of fifo blank_mem "\<lambda>k. replicate k 0" "replicate 200 0" "\<lparr>mtu_p = 1536, ethertype_p = 0x88b5, sent_p = []\<rparr>"] n(4)
    by (auto simp: fifo_def blank_mem_def four)
qed

text \<open>
  The master does not compare the length field of a frame with what it received: a frame whose payload is only this field, with
  any value, makes \<open>recv\<close> report a message of up to 65533 bytes, although nothing was written to the buffer, whatever its
  size; and a field below 2 gives a negative length.
\<close>
theorem packet_length_unchecked:
  assumes "\<forall>k. length (mem k) = k"
  shows "recv_packet mem (Some (be16 v, a, PACKET_HOST)) buf (int (length buf)) = Some (PK_ME, Some a, buf, uint v - 2)"
  using recv_packet_val [OF assms, of "[]" "int (length buf)" buf v a PACKET_HOST] by simp

theorem packet_length_unchecked_witness:
  "recv_packet (\<lambda>k. replicate k 0) (Some (be16 0xffff, replicate 6 7, PACKET_HOST)) (replicate 200 0) 200 = Some (PK_ME, Some (replicate 6 7), replicate 200 0, 65533)"
  using packet_length_unchecked [of "\<lambda>k. replicate k 0" "0xffff" "replicate 6 7" "replicate 200 0"] by simp

end
