(* ===== verification/Spec2Isabelle.thy ===== *)
theory Spec2Isabelle
  imports Curve Netq Dtls_Record_Laws Handshake Master_L2_Laws
begin

text \<open>
  CASAN connects small Arduino slaves to a master that gives web clients access to their resources over
  CoAP (RFC 7252). The repository holds the slave (\<open>arduino/libraries/Casan\<close>), a DTLS library for it
  (\<open>arduino/libraries/Dtls\<close>, derived from tinydtls) and the master (\<open>c-master\<close>). This development models
  the three: definitions carry the names of the functions, in the order the code has them, and follow
  them branch by branch. What is proved is about these definitions.

  Conventions. \<open>None\<close> is undefined behaviour (an access outside an array or through a null pointer, a
  signed overflow, a call that does not return) or, in the master, an exception that nothing catches; a
  value of the code that reports an error is a value here. C arrays are lists with checked access (\<open>rd\<close>,
  \<open>wr\<close>, \<open>mcopy\<close>, \<open>slice\<close> of \<open>Prelude\<close>), machine integers are words, or \<open>int\<close> where the code's
  type has room. Surroundings are arguments: the network (what it delivers and accepts), the clock, random
  numbers, \<open>malloc\<close>.

  The DTLS library.
  \<^item> \<open>Bignum\<close>, \<open>Field\<close>, \<open>Field_Laws\<close>, \<open>Curve\<close> (\<open>ecc/ecc.c\<close>): big numbers, the prime field and the
    order of secp256r1, points, scalar multiplication, ECDSA. Shown: exact values of the routines,
    Barrett reduction, inverses and their termination, the chord and tangent formulas, double-and-add,
    the equation of a signature; where the fast reduction loses a carry and where validation diverges.
  \<^item> \<open>Numeric\<close>, \<open>Netq\<close> (\<open>numeric.h\<close>, \<open>netq.c\<close>, \<open>t_list.h\<close>): byte codecs; the queue of packets on a
    heap, refined to lists.
  \<^item> \<open>Ccm\<close>, \<open>Ccm_Laws\<close> (\<open>ccm.c\<close>), \<open>Rijndael_Tables\<close>, \<open>Rijndael\<close>, \<open>Rijndael_Laws\<close>, \<open>Aes\<close>
    (\<open>aes/rijndael.c\<close>), \<open>Sha2\<close>, \<open>Sha2_Laws\<close> (\<open>sha2/sha2.c\<close>), \<open>Hmac\<close> (\<open>hmac.c\<close>), \<open>Crypto\<close>
    (\<open>crypto.c\<close>): equal to RFC 3610, FIPS 197, FIPS 180-4, RFC 2104 and the P_SHA256 of RFC 5246. CCM is proved
    once in the locale \<open>block_cipher\<close>, interpreted on the cipher of \<open>crypto.c\<close>.
  \<^item> \<open>Dtls_Record\<close>, \<open>Dtls_Record_Laws\<close> (\<open>dtls.c\<close>, \<open>peer.h\<close>): the record layer; a sealed record is
    opened by the other side; the key block.

  The slave.
  \<^item> \<open>Coap_Option\<close>, \<open>Slave_Msg\<close>, \<open>Slave_Msg_Laws\<close> (\<open>option.cpp\<close>, \<open>token.cpp\<close>, \<open>msg.cpp\<close>) against
    the wire format in \<open>Coap_Spec\<close>: the encoder writes exactly this format, the decoder reads it back.
  \<^item> \<open>Slave_Time\<close>, \<open>Slave_Resource\<close> (\<open>time.cpp\<close>, \<open>retrans.cpp\<close>, \<open>resource.cpp\<close>): clock, timers, queue of
    retransmissions, resources.
  \<^item> \<open>Slave_Engine\<close>, \<open>Slave_Msg_Safe\<close>, \<open>Slave_Engine_Ops\<close>, \<open>Slave_Machine\<close>, \<open>Slave_Announce\<close>
    (\<open>casan.cpp\<close>): the whole engine. Shown: no undefined behaviour for any input, refinement of an
    abstract association machine, the end of an association, what it says about itself.
  \<^item> \<open>Zigmsg\<close>, \<open>Slave_L2\<close> (\<open>ZigMsg/ZigMsg.cpp\<close>, \<open>L2-154/l2-154.cpp\<close>, \<open>L2-eth/l2-eth.cpp\<close>): the ring of received frames
    that the radio interrupt fills, and the two drivers of layer 2. \<open>Slave_L2_Laws\<close>, \<open>Slave_Eth_Laws\<close>: both drivers
    satisfy the locale \<open>lossy_queue\<close>, so frames are delivered in order; what one node sends another one receives;
    the frames for which the reported length is wrong.

  The master.
  \<^item> \<open>Master_Option\<close>, \<open>Master_Msg\<close>, \<open>Master_Msg_Laws\<close> (\<open>option.cc\<close>, \<open>msg.cc\<close>), \<open>Master_Resource\<close>
    (\<open>resource.cc\<close>, \<open>utils.cc\<close>, the parser of \<open>slave.cc\<close>), \<open>Master_Cache\<close> (\<open>cache.cc\<close>).
  \<^item> \<open>Master_Engine\<close> (\<open>casan.cc\<close>, \<open>slave.cc\<close>, \<open>msg::send\<close>): a turn of the sender thread and a turn of
    a receiver thread are operations on one state, a heap of messages and slaves. \<open>Master_Engine_Inv\<close>
    composes them in any order (\<open>mstep\<close>) and proves an invariant of the reachable states;
    \<open>Master_Engine_Laws\<close> has the schedule of retransmissions and the turns that end the process;
    \<open>Master_Association\<close> what starts and completes an association.
  \<^item> \<open>Master_L2\<close> (\<open>l2-154.cc\<close>, \<open>l2-eth.cc\<close>): the XBee stick on a serial line and the Ethernet on a packet socket.
    \<open>Xbee_Laws\<close>: the search for frames in pieces of the stream equals a parser on the whole stream; \<open>Master_L2_Laws\<close>:
    addresses as text, and the Ethernet between the two programs.

  Both sides. \<open>Interop\<close> gives the frames of each side to the other, \<open>Handshake\<close> runs an association from
  the first announcement to two sides that agree on it.

  Bounds and fuel. Loops over data are structural recursions or functions with a measure. \<open>fieldInv\<close> is
  a \<open>partial_function\<close>, proved to return on numbers coprime to the order; the loop of the ECDSA validation does not
  return when \<open>s\<close> is zero, which is proved too. The loops of the threads and of the Arduino are not run:
  their bodies are the operations, and sequences of them are lists of inputs or steps of a relation.

  Not modelled. The handshake and the table of peers of \<open>dtls.c\<close>; SHA-384 and SHA-512, which are compiled
  out; \<open>Dtls-s\<close>, an older copy of the library; the HTTP
  server and gateway, the configuration file and the waiting threads of the master; the radio stack and
  the board files, which are vendor code; \<open>py-master\<close>, a second master in Python; output for debugging. A turn
  of a thread of the master is one step, although a receiver holds the mutex only for parts of its turn.
\<close>

end
